(* ===== verification/Prelude.thy ===== *)
theory Prelude
  imports Main "HOL-Library.Word"
begin

text \<open>
  Shared vocabulary of the development: the C integer types as machine words, the ways in which
  kernel code stops without returning (\<open>fault\<close>), the result type \<open>'a outcome\<close> of operations that
  may stop, and the generic list, option and word lemmas that the component theories use.
  A C pointer into a table owned by a component is modelled by its position in that table and the
  null pointer by \<open>None\<close>; a pointer the component only stores is a 64-bit address, null being 0.
\<close>

unbundle bit_operations_syntax

declare split_paired_All [simp del] split_paired_Ex [simp del]

named_theorems kdefs \<open>definitions unfolded by the component proofs\<close>

type_synonym u8 = "8 word"
type_synonym u16 = "16 word"
type_synonym u32 = "32 word"
type_synonym u64 = "64 word"

text \<open>
  How an operation can fail to return: \<open>SOD\<close> is the kernel's death screen (every
  \<open>SET_SOD_...\<close> and \<open>SOD(...)\<close> of the source), \<open>Hang\<close> a loop of the source that never
  ends in the given state, \<open>NullDeref\<close> an access through a null pointer, \<open>OutOfBounds\<close> an access
  outside a fixed-size array and \<open>DivideError\<close> a division by zero.
\<close>

datatype fault = SOD | Hang | NullDeref | OutOfBounds | DivideError

type_synonym 'a outcome = "fault + 'a"

definition andThen :: "'a outcome \<Rightarrow> ('a \<Rightarrow> 'b outcome) \<Rightarrow> 'b outcome" where
  "andThen r f = (case r of Inl e \<Rightarrow> Inl e | Inr a \<Rightarrow> f a)"

lemma andThen_simps [simp]:
  "andThen (Inl e) f = Inl e" "andThen (Inr a) f = f a"
  by (simp_all add: andThen_def)

lemma andThen_assoc: "andThen (andThen r f) g = andThen r (\<lambda>a. andThen (f a) g)"
  by (cases r) simp_all

lemma andThen_Inr_iff: "andThen r f = Inr b \<longleftrightarrow> (\<exists>a. r = Inr a \<and> f a = Inr b)"
  by (cases r) simp_all

section \<open>First index with a property\<close>

text \<open>The inner loop of every table walk: the first index of an array whose entry satisfies a test.\<close>

fun first_index :: "('a \<Rightarrow> bool) \<Rightarrow> 'a list \<Rightarrow> nat option" where
  "first_index P [] = None"
| "first_index P (x # xs) = (if P x then Some 0 else map_option Suc (first_index P xs))"

lemma first_index_Some:
  "first_index P xs = Some i \<Longrightarrow> i < length xs \<and> P (xs ! i) \<and> (\<forall>j < i. \<not> P (xs ! j))"
proof (induction xs arbitrary: i)
  case Nil
  then show ?case by simp
next
  case (Cons x xs)
  then show ?case by (cases i) (auto split: if_splits simp: less_Suc_eq_0_disj)
qed

lemma first_index_lt: "first_index P xs = Some i \<Longrightarrow> i < length xs"
  and first_index_P: "first_index P xs = Some i \<Longrightarrow> P (xs ! i)"
  by (simp_all add: first_index_Some)

lemma first_index_None_iff: "first_index P xs = None \<longleftrightarrow> (\<forall>x \<in> set xs. \<not> P x)"
  by (induction xs) auto

lemma first_index_exists: "x \<in> set xs \<Longrightarrow> P x \<Longrightarrow> \<exists>i. first_index P xs = Some i"
  by (metis first_index_None_iff not_Some_eq)

lemma first_index_replicate [simp]:
  "0 < n \<Longrightarrow> P z \<Longrightarrow> first_index P (replicate n z) = Some 0"
  by (cases n) simp_all

lemma first_index_eqI:
  "i < length xs \<Longrightarrow> P (xs ! i) \<Longrightarrow> (\<And>j. j < i \<Longrightarrow> \<not> P (xs ! j)) \<Longrightarrow> first_index P xs = Some i"
proof (induction xs arbitrary: i)
  case Nil
  then show ?case by simp
next
  case (Cons x xs)
  show ?case
  proof (cases i)
    case 0
    with Cons.prems show ?thesis by simp
  next
    case (Suc k)
    have "first_index P xs = Some k"
    proof (rule Cons.IH)
      show "k < length xs" "P (xs ! k)" using Cons.prems Suc by simp_all
      show "\<not> P (xs ! j)" if "j < k" for j using Cons.prems(3)[of "Suc j"] that Suc by simp
    qed
    moreover have "\<not> P x" using Cons.prems(3)[of 0] Suc by simp
    ultimately show ?thesis using Suc by simp
  qed
qed

lemma length_filter_upd:
  "x < length hs \<Longrightarrow> \<not> P (hs ! x) \<Longrightarrow> P h \<Longrightarrow> length (filter P (hs[x := h])) = Suc (length (filter P hs))"
  by (induction hs arbitrary: x) (auto split: nat.splits)

section \<open>Loops that return from their body\<close>

text \<open>
  \<open>first_some f xs\<close> is the loop over \<open>xs\<close> whose body either returns (\<open>Some\<close>) or continues
  (\<open>None\<close>); it gives the index at which the loop was left and what the body returned.
\<close>

fun first_some :: "('a \<Rightarrow> 'b option) \<Rightarrow> 'a list \<Rightarrow> (nat \<times> 'b) option" where
  "first_some f [] = None"
| "first_some f (x # xs) =
     (case f x of Some b \<Rightarrow> Some (0, b)
      | None \<Rightarrow> map_option (\<lambda>(i, b). (Suc i, b)) (first_some f xs))"

lemma first_some_SomeD:
  "first_some f xs = Some (i, b) \<Longrightarrow> i < length xs \<and> f (xs ! i) = Some b \<and> (\<forall>j < i. f (xs ! j) = None)"
proof (induction xs arbitrary: i)
  case Nil
  then show ?case by simp
next
  case (Cons x xs)
  then show ?case by (cases i) (auto split: option.splits simp: less_Suc_eq_0_disj)
qed

lemma first_some_None_iff: "first_some f xs = None \<longleftrightarrow> (\<forall>x \<in> set xs. f x = None)"
  by (induction xs) (auto split: option.splits)

lemma first_someI:
  "i < length xs \<Longrightarrow> f (xs ! i) = Some b \<Longrightarrow> (\<And>j. j < i \<Longrightarrow> f (xs ! j) = None) \<Longrightarrow>
     first_some f xs = Some (i, b)"
proof (induction xs arbitrary: i)
  case Nil
  then show ?case by simp
next
  case (Cons x xs)
  show ?case
  proof (cases i)
    case 0
    with Cons.prems show ?thesis by simp
  next
    case (Suc k)
    have "first_some f xs = Some (k, b)"
    proof (rule Cons.IH)
      show "k < length xs" "f (xs ! k) = Some b" using Cons.prems Suc by simp_all
      show "f (xs ! j) = None" if "j < k" for j using Cons.prems(3)[of "Suc j"] that Suc by simp
    qed
    moreover have "f x = None" using Cons.prems(3)[of 0] Suc by simp
    ultimately show ?thesis using Suc by simp
  qed
qed

lemma first_some_iff:
  "first_some f xs = Some (i, b) \<longleftrightarrow>
     i < length xs \<and> f (xs ! i) = Some b \<and> (\<forall>j < i. f (xs ! j) = None)"
  using first_some_SomeD [of f xs i b] first_someI [of i xs f b] by blast

section \<open>Aligned numbers\<close>

lemma aligned_split:
  assumes "a mod m = (0 :: nat)" and "a \<le> x"
  shows "x div m = a div m + (x - a) div m" and "x mod m = (x - a) mod m" and "a div m * m = a"
proof -
  obtain y where y: "x = a + y" using assms(2) le_Suc_ex by blast
  obtain k where k: "a = m * k" using assms(1) by auto
  show "x div m = a div m + (x - a) div m" by (cases "m = 0") (simp_all add: y k)
  show "x mod m = (x - a) mod m" by (simp add: y k)
  show "a div m * m = a" by (simp add: k)
qed

section \<open>Words\<close>

lemma unat_of_nat_u64 [simp]: "n < 2 ^ 64 \<Longrightarrow> unat (of_nat n :: u64) = n"
  by (simp add: unat_of_nat take_bit_nat_eq_self)

lemma unat_of_nat_u32: "n < 2 ^ 32 \<Longrightarrow> unat (of_nat n :: u32) = n"
  by (simp add: unat_of_nat take_bit_nat_eq_self)

lemma unat_of_nat_u16: "n < 2 ^ 16 \<Longrightarrow> unat (of_nat n :: u16) = n"
  by (simp add: unat_of_nat take_bit_nat_eq_self)

lemma unat_ucast_up:
  assumes "LENGTH('a) \<le> LENGTH('b)"
  shows "unat (ucast (x :: 'a::len word) :: 'b::len word) = unat x"
proof -
  have "unat x < 2 ^ LENGTH('a)" by (rule unsigned_less)
  also have "\<dots> \<le> (2 :: nat) ^ LENGTH('b)" using assms by (simp add: power_increasing)
  finally show ?thesis by (simp add: unsigned_ucast_eq take_bit_nat_eq_self)
qed

lemma unat_plus_1: "Suc (unat x) < 2 ^ LENGTH('a) \<Longrightarrow> unat (x + 1 :: 'a::len word) = Suc (unat x)"
  by (simp add: unat_word_ariths)

lemma take_bit_word_self: "unat x < 2 ^ n \<Longrightarrow> take_bit n x = (x :: 'a::len word)"
  by (simp add: word_unat_eq_iff unsigned_take_bit_eq take_bit_nat_eq_self)

lemma bit_bound: "unat x < 2 ^ n \<Longrightarrow> bit (x :: 'a::len word) i \<Longrightarrow> i < n"
  by (metis bit_take_bit_iff take_bit_word_self)

lemma and_mask_mod: "unat (x AND mask n :: 'a::len word) = unat x mod 2 ^ n"
  by (simp only: take_bit_eq_mask [symmetric] unsigned_take_bit_eq) (simp add: take_bit_eq_mod)

end
