(* ===== verification/Kernel_Base.thy ===== *)
theory Kernel_Base
  imports Prelude
begin

text \<open>
  What every kernel component includes: the status codes and the classification macros of
  \<open>krnltypes.h\<close>, the spin-lock macros of \<open>CPU/cpu.h\<close> and the C string and memory functions the
  compiler provides as intrinsics (\<open>strlen\<close>, \<open>memcpy\<close>).  A spin lock is taken by
  \<open>while(_interlockedbittestandset64(Addr, Off)) _mm_pause()\<close>: on a lock that is already held and
  that no other processor releases this does not return, so acquisition of a held lock is \<open>Hang\<close>.
\<close>

section \<open>Status codes (krnltypes.h)\<close>

type_synonym KERNELSTATUS = int

definition UNITS_PER_LIST :: nat where "UNITS_PER_LIST = 120"

definition KERNEL_SOK :: KERNELSTATUS where "KERNEL_SOK = 0"
definition KERNEL_SOK_NOSTATUS :: KERNELSTATUS where "KERNEL_SOK_NOSTATUS = 1"
definition KERNEL_SWR_REPEATED :: KERNELSTATUS where "KERNEL_SWR_REPEATED = 0x250000"
definition KERNEL_SWR_RESEND :: KERNELSTATUS where "KERNEL_SWR_RESEND = 0x250001"
definition KERNEL_SWR_IRQ_ALREADY_SET :: KERNELSTATUS where "KERNEL_SWR_IRQ_ALREADY_SET = 0x250002"
definition KERNEL_SDPR_UNNECESSARY :: KERNELSTATUS where "KERNEL_SDPR_UNNECESSARY = 0x100000"
definition KERNEL_SERR :: KERNELSTATUS where "KERNEL_SERR = -1"
definition KERNEL_SERR_OUT_OF_RANGE :: KERNELSTATUS where "KERNEL_SERR_OUT_OF_RANGE = -2"
definition KERNEL_SERR_NOT_FOUND :: KERNELSTATUS where "KERNEL_SERR_NOT_FOUND = -3"
definition KERNEL_SERR_INVALID_PARAMETER :: KERNELSTATUS where "KERNEL_SERR_INVALID_PARAMETER = -4"
definition KERNEL_SERR_UNSUPPORTED :: KERNELSTATUS where "KERNEL_SERR_UNSUPPORTED = -5"
definition KERNEL_SERR_FILE_OPEN_BY_ANOTHER_PROCESS :: KERNELSTATUS where
  "KERNEL_SERR_FILE_OPEN_BY_ANOTHER_PROCESS = -6"
definition KERNEL_SERR_ADDRESS_ALREADY_TAKEN :: KERNELSTATUS where
  "KERNEL_SERR_ADDRESS_ALREADY_TAKEN = -7"
definition KERNEL_SERR_INCORRECT_PASSWORD :: KERNELSTATUS where
  "KERNEL_SERR_INCORRECT_PASSWORD = -8"
definition KERNEL_SERR_IRQ_CONTROLLED_BY_ANOTHER_PROCESS :: KERNELSTATUS where
  "KERNEL_SERR_IRQ_CONTROLLED_BY_ANOTHER_PROCESS = -9"

lemmas status_defs =
  KERNEL_SOK_def KERNEL_SOK_NOSTATUS_def KERNEL_SWR_REPEATED_def KERNEL_SWR_RESEND_def
  KERNEL_SWR_IRQ_ALREADY_SET_def KERNEL_SDPR_UNNECESSARY_def KERNEL_SERR_def
  KERNEL_SERR_OUT_OF_RANGE_def KERNEL_SERR_NOT_FOUND_def KERNEL_SERR_INVALID_PARAMETER_def
  KERNEL_SERR_UNSUPPORTED_def KERNEL_SERR_FILE_OPEN_BY_ANOTHER_PROCESS_def
  KERNEL_SERR_ADDRESS_ALREADY_TAKEN_def KERNEL_SERR_INCORRECT_PASSWORD_def
  KERNEL_SERR_IRQ_CONTROLLED_BY_ANOTHER_PROCESS_def

definition KERNEL_OK :: "KERNELSTATUS \<Rightarrow> bool" where
  "KERNEL_OK x \<longleftrightarrow> x \<ge> 0 \<and> x < 0x100000"
definition KERNEL_DEPRECATE :: "KERNELSTATUS \<Rightarrow> bool" where
  "KERNEL_DEPRECATE x \<longleftrightarrow> x \<ge> 0x100000 \<and> x < 0x250000"
definition KERNEL_WARNING :: "KERNELSTATUS \<Rightarrow> bool" where
  "KERNEL_WARNING x \<longleftrightarrow> x \<ge> 0x250000 \<and> x < 0x500000"
definition KERNEL_ERROR :: "KERNELSTATUS \<Rightarrow> bool" where
  "KERNEL_ERROR x \<longleftrightarrow> x < 0"
definition KERNEL_SUCCEEDED :: "KERNELSTATUS \<Rightarrow> bool" where
  "KERNEL_SUCCEEDED x \<longleftrightarrow> x \<ge> 0"

section \<open>Spin locks (CPU/cpu.h)\<close>

definition SpinLockSyncBitTestAndSet :: "u64 \<Rightarrow> nat \<Rightarrow> u64 outcome" where
  "SpinLockSyncBitTestAndSet w n = (if bit w n then Inl Hang else Inr (set_bit n w))"

definition BitRelease :: "u64 \<Rightarrow> nat \<Rightarrow> u64" where
  "BitRelease w n = unset_bit n w"

lemma spin_free: "\<not> bit w n \<Longrightarrow> SpinLockSyncBitTestAndSet w n = Inr (set_bit n w)"
  by (simp add: SpinLockSyncBitTestAndSet_def)

lemma spin_held: "bit w n \<Longrightarrow> SpinLockSyncBitTestAndSet w n = Inl Hang"
  by (simp add: SpinLockSyncBitTestAndSet_def)

lemma BitRelease_set_bit: "\<not> bit w n \<Longrightarrow> BitRelease (set_bit n w) n = w"
  by (rule bit_word_eqI) (auto simp: BitRelease_def bit_simps)

lemma bit_BitRelease_same [simp]: "\<not> bit (BitRelease w n) n"
  by (simp add: BitRelease_def bit_simps)

section \<open>C strings and memory\<close>

text \<open>
  A C string lives in a byte buffer; \<open>strlen\<close> counts the bytes before the first zero and runs past
  the buffer when there is none.  \<open>cstring\<close> is the text a buffer holds.
\<close>

fun strlen :: "'a::zero list \<Rightarrow> nat outcome" where
  "strlen [] = Inl OutOfBounds"
| "strlen (c # cs) = (if c = 0 then Inr 0 else andThen (strlen cs) (\<lambda>n. Inr (Suc n)))"

definition cstring :: "'a::zero list \<Rightarrow> 'a list" where
  "cstring buf = takeWhile (\<lambda>c. c \<noteq> 0) buf"

definition memcpy :: "'a list \<Rightarrow> 'a list \<Rightarrow> nat \<Rightarrow> 'a list outcome" where
  "memcpy dst src n =
     (if n \<le> length dst \<and> n \<le> length src then Inr (take n src @ drop n dst)
      else Inl OutOfBounds)"

text \<open>
  \<open>memcmp\<close> of \<open>lib/mem.asm\<close>: its second instruction jumps to itself, so the comparison written behind it is never reached and no
  call returns.  The callers all mean a truth value, true for equal strings.
\<close>

definition memcmp :: "'a list \<Rightarrow> 'a list \<Rightarrow> bool outcome" where
  "memcmp p q = Inl Hang"

definition array_set :: "'a list \<Rightarrow> nat \<Rightarrow> 'a \<Rightarrow> 'a list outcome" where
  "array_set xs i x = (if i < length xs then Inr (xs[i := x]) else Inl OutOfBounds)"

definition array_get :: "'a list \<Rightarrow> nat \<Rightarrow> 'a outcome" where
  "array_get xs i = (if i < length xs then Inr (xs ! i) else Inl OutOfBounds)"

lemma strlen_cstring: "0 \<in> set buf \<Longrightarrow> strlen buf = Inr (length (cstring buf))"
  by (induction buf) (auto simp: cstring_def)

lemma strlen_no_terminator: "0 \<notin> set buf \<Longrightarrow> strlen buf = Inl OutOfBounds"
  by (induction buf) auto

lemma cstring_prefix: "0 \<in> set buf \<Longrightarrow> take (length (cstring buf)) buf = cstring buf"
  by (simp add: cstring_def takeWhile_eq_take [symmetric])

lemma cstring_no_zero: "0 \<notin> set (cstring buf)"
  by (auto simp: cstring_def dest: set_takeWhileD)

lemma cstring_append_zero [simp]: "0 \<notin> set s \<Longrightarrow> cstring (s @ 0 # rest) = s"
  by (induction s) (auto simp: cstring_def)

lemma cstring_idem [simp]: "0 \<notin> set s \<Longrightarrow> cstring s = s"
  by (induction s) (auto simp: cstring_def)

lemma length_cstring_less: "0 \<in> set buf \<Longrightarrow> length (cstring buf) < length buf"
  by (induction buf) (auto simp: cstring_def)

lemma array_set_simps [simp]:
  "i < length xs \<Longrightarrow> array_set xs i x = Inr (xs[i := x])"
  "\<not> i < length xs \<Longrightarrow> array_set xs i x = Inl OutOfBounds"
  by (simp_all add: array_set_def)

lemma array_get_simps [simp]:
  "i < length xs \<Longrightarrow> array_get xs i = Inr (xs ! i)"
  "\<not> i < length xs \<Longrightarrow> array_get xs i = Inl OutOfBounds"
  by (simp_all add: array_get_def)

end
