(* ===== verification/Debug_Log.thy ===== *)
theory Debug_Log
  imports Kernel_Base
begin

text \<open>
  The kernel's debug log (\<open>Management/debug.c\<close>): a ring of 20 messages of at most 150 bytes under a
  spin lock.  The locale \<open>recency_log\<close> states what its users (the death screen, which prints
  \<open>DebugRead(19 - i)\<close>) rely on: reading index 0 gives the last message written and every write
  shifts the older messages by one, up to the capacity.  The locale is interpreted on
  \<open>DebugWrite\<close> and \<open>DebugRead\<close>, and the refinement theorem follows from it.
\<close>

definition DEBUG_MAX_LOG_LENGTH :: nat where "DEBUG_MAX_LOG_LENGTH = 150"
definition DEBUG_MAX_LOG_ENTRIES :: nat where "DEBUG_MAX_LOG_ENTRIES = 20"
definition DEBUG_MAX_INDEX :: nat where "DEBUG_MAX_INDEX = DEBUG_MAX_LOG_ENTRIES - 1"

record DEBUG_TABLE =
  LogAllocateIndex :: u64
  TotalLogCount :: u64
  ControlBit :: u64
  LogEntries :: "u8 list list"

definition KernelDebugTable_init :: DEBUG_TABLE where
  "KernelDebugTable_init =
     \<lparr> LogAllocateIndex = 0, TotalLogCount = 0, ControlBit = 0,
       LogEntries = replicate DEBUG_MAX_LOG_ENTRIES (replicate (DEBUG_MAX_LOG_LENGTH + 1) 0) \<rparr>"

definition DebugWrite :: "DEBUG_TABLE \<Rightarrow> u8 list \<Rightarrow> DEBUG_TABLE outcome" where
  "DebugWrite t Text =
     andThen (strlen Text) (\<lambda>len.
     if len > DEBUG_MAX_LOG_LENGTH then Inl SOD else
     andThen (SpinLockSyncBitTestAndSet (ControlBit t) 0) (\<lambda>cb.
     let idx = unat (LogAllocateIndex t) in
     andThen (array_get (LogEntries t) idx) (\<lambda>entry.
     andThen (memcpy entry Text len) (\<lambda>entry1.
     andThen (array_set entry1 len 0) (\<lambda>entry2.
     let nidx = LogAllocateIndex t + 1 in
     Inr (t\<lparr> LogAllocateIndex := (if nidx = of_nat DEBUG_MAX_LOG_ENTRIES then 0 else nidx),
             TotalLogCount := TotalLogCount t + 1,
             ControlBit := BitRelease cb 0,
             LogEntries := (LogEntries t)[idx := entry2] \<rparr>))))))"

fun DebugRead_loop :: "nat \<Rightarrow> u64 \<Rightarrow> u64" where
  "DebugRead_loop 0 StringIndex = StringIndex"
| "DebugRead_loop (Suc i) StringIndex =
     DebugRead_loop i (if StringIndex = 0 then of_nat DEBUG_MAX_INDEX else StringIndex - 1)"

definition DebugRead :: "DEBUG_TABLE \<Rightarrow> u32 \<Rightarrow> (DEBUG_TABLE \<times> u8 list) outcome" where
  "DebugRead t Index =
     (if unat Index > DEBUG_MAX_INDEX then Inl SOD else
      andThen (SpinLockSyncBitTestAndSet (ControlBit t) 0) (\<lambda>cb.
      let start = (if LogAllocateIndex t = 0 then of_nat DEBUG_MAX_INDEX
                   else LogAllocateIndex t - 1);
          StringIndex = DebugRead_loop (unat Index) start;
          t' = t\<lparr> ControlBit := BitRelease cb 0 \<rparr>
      in andThen (array_get (LogEntries t') (unat StringIndex)) (\<lambda>entry. Inr (t', entry))))"

lemmas debug_consts [simp] =
  DEBUG_MAX_LOG_LENGTH_def DEBUG_MAX_LOG_ENTRIES_def DEBUG_MAX_INDEX_def

section \<open>The interface\<close>

text \<open>
  \<open>wr\<close> may refuse a message (\<open>ok\<close> tells which it accepts); \<open>rd s k\<close> is the text at distance \<open>k\<close>.
\<close>

locale recency_log =
  fixes wr :: "'s \<Rightarrow> 'm \<Rightarrow> 's outcome"
    and rd :: "'s \<Rightarrow> nat \<Rightarrow> 't outcome"
    and ok :: "'m \<Rightarrow> bool"
    and msg :: "'m \<Rightarrow> 't"
    and inv :: "'s \<Rightarrow> bool"
    and cap :: nat
  assumes wr_total: "inv s \<Longrightarrow> ok m \<Longrightarrow> \<exists>s'. wr s m = Inr s' \<and> inv s'"
    and wr_rd_0: "inv s \<Longrightarrow> ok m \<Longrightarrow> wr s m = Inr s' \<Longrightarrow> rd s' 0 = Inr (msg m)"
    and wr_rd_Suc: "inv s \<Longrightarrow> ok m \<Longrightarrow> wr s m = Inr s' \<Longrightarrow> Suc k < cap \<Longrightarrow> rd s' (Suc k) = rd s k"
    and cap_pos: "0 < cap"
begin

primrec wr_all :: "'s \<Rightarrow> 'm list \<Rightarrow> 's outcome" where
  "wr_all s [] = Inr s"
| "wr_all s (m # ms) = andThen (wr s m) (\<lambda>s'. wr_all s' ms)"

lemma wr_all_append: "wr_all s (ms @ ns) = andThen (wr_all s ms) (\<lambda>s'. wr_all s' ns)"
proof (induction ms arbitrary: s)
  case Nil
  then show ?case by simp
next
  case (Cons m ms)
  then show ?case by (cases "wr s m") simp_all
qed

lemma wr_all_total: "inv s \<Longrightarrow> \<forall>m \<in> set ms. ok m \<Longrightarrow> \<exists>s'. wr_all s ms = Inr s' \<and> inv s'"
proof (induction ms arbitrary: s)
  case Nil
  then show ?case by simp
next
  case (Cons m ms)
  then obtain s1 where "wr s m = Inr s1" "inv s1" using wr_total [of s m] by auto
  then show ?case using Cons by simp
qed

lemma reads_recent:
  assumes "inv s" and "\<forall>m \<in> set ms. ok m" and "wr_all s ms = Inr s'"
    and "k < cap" and "k < length ms"
  shows "rd s' k = Inr (msg (rev ms ! k))"
  using assms
proof (induction ms arbitrary: s' k rule: rev_induct)
  case Nil
  then show ?case by simp
next
  case (snoc m ms)
  obtain s1 where s1: "wr_all s ms = Inr s1" "inv s1"
    using wr_all_total [of s ms] snoc.prems(1,2) by auto
  then have w: "wr s1 m = Inr s'" using snoc.prems(3) by (cases "wr s1 m") (simp_all add: wr_all_append)
  have okm: "ok m" using snoc.prems(2) by simp
  show ?case
  proof (cases k)
    case 0
    then show ?thesis using wr_rd_0 [OF s1(2) okm w] by simp
  next
    case (Suc j)
    then show ?thesis
      using wr_rd_Suc [OF s1(2) okm w, of j] snoc.IH [OF snoc.prems(1) _ s1(1), of j] snoc.prems
      by simp
  qed
qed

end

section \<open>The ring implements it\<close>

definition dbg_inv :: "DEBUG_TABLE \<Rightarrow> bool" where
  "dbg_inv t \<longleftrightarrow> unat (LogAllocateIndex t) < 20 \<and> \<not> bit (ControlBit t) 0 \<and>
     length (LogEntries t) = 20 \<and> (\<forall>e \<in> set (LogEntries t). length e = 151)"

definition dbg_ok :: "u8 list \<Rightarrow> bool" where
  "dbg_ok Text \<longleftrightarrow> 0 \<in> set Text \<and> length (cstring Text) \<le> 150"

definition dbg_next :: "nat \<Rightarrow> nat" where
  "dbg_next i = (if i = 19 then 0 else Suc i)"

definition dbg_slot :: "nat \<Rightarrow> nat \<Rightarrow> nat" where
  "dbg_slot i k = (if k < i then i - Suc k else i + 19 - k)"

text \<open>What \<open>DebugRead\<close> shows to its caller: the text at that index.\<close>

definition dbg_text :: "DEBUG_TABLE \<Rightarrow> nat \<Rightarrow> u8 list outcome" where
  "dbg_text t k = andThen (DebugRead t (of_nat k)) (\<lambda>(t', entry). Inr (cstring entry))"

lemma DebugRead_loop_unat:
  "unat s < 20 \<Longrightarrow> k \<le> 19 \<Longrightarrow>
     unat (DebugRead_loop k s) = (if k \<le> unat s then unat s - k else unat s + 20 - k)"
proof (induction k arbitrary: s)
  case 0
  then show ?case by simp
next
  case (Suc k)
  show ?case
  proof (cases "s = 0")
    case True
    then show ?thesis using Suc.IH [of 19] Suc.prems by simp
  next
    case False
    then have "unat (s - 1) = unat s - 1" "0 < unat s"
      by (simp_all add: unat_minus_one unat_gt_0)
    then show ?thesis using Suc.IH [of "s - 1"] Suc.prems False by auto
  qed
qed

lemma DebugRead_eq:
  assumes "dbg_inv t" and "k < 20"
  shows "DebugRead t (of_nat k) = Inr (t, LogEntries t ! dbg_slot (unat (LogAllocateIndex t)) k)"
proof -
  define start where "start = (if LogAllocateIndex t = 0 then 19 else LogAllocateIndex t - 1)"
  have pos: "LogAllocateIndex t \<noteq> 0 \<Longrightarrow> 0 < unat (LogAllocateIndex t)" by (simp add: unat_gt_0)
  have st: "unat start = (if LogAllocateIndex t = 0 then 19 else unat (LogAllocateIndex t) - 1)"
    by (simp add: start_def unat_minus_one)
  have "unat start < 20" using assms(1) by (auto simp: st dbg_inv_def)
  then have i: "unat (DebugRead_loop k start) = dbg_slot (unat (LogAllocateIndex t)) k"
    using assms(2) pos by (auto simp: DebugRead_loop_unat st dbg_slot_def)
  have k: "unat (of_nat k :: u32) = k" using assms(2)
    by (simp add: unat_of_nat take_bit_nat_eq_self)
  have "dbg_slot (unat (LogAllocateIndex t)) k < length (LogEntries t)"
    using assms by (auto simp add: dbg_slot_def dbg_inv_def)
  moreover have "\<not> bit (ControlBit t) 0" using assms(1) by (simp add: dbg_inv_def)
  ultimately show ?thesis using assms(2) i k
    by (auto simp: DebugRead_def Let_def spin_free BitRelease_set_bit start_def split: if_splits)
qed

lemma DebugWrite_eq:
  assumes "dbg_inv t" and "dbg_ok Text"
  defines "i \<equiv> unat (LogAllocateIndex t)"
  shows "DebugWrite t Text = Inr (t\<lparr> LogAllocateIndex := of_nat (dbg_next i),
           TotalLogCount := TotalLogCount t + 1,
           LogEntries := (LogEntries t)[i := (cstring Text @ drop (length (cstring Text)) (LogEntries t ! i))
                                              [length (cstring Text) := 0]] \<rparr>)"
proof -
  have i: "i < length (LogEntries t)" "length (LogEntries t ! i) = 151" "i < 20"
    using assms by (auto simp: dbg_inv_def)
  have len: "strlen Text = Inr (length (cstring Text))" "length (cstring Text) \<le> length Text"
    using assms(2) length_cstring_less [of Text] by (simp_all add: dbg_ok_def strlen_cstring)
  have nx: "(if LogAllocateIndex t + 1 = 20 then 0 else LogAllocateIndex t + 1) = of_nat (dbg_next i)"
  proof (cases "i = 19")
    case True
    then have "LogAllocateIndex t = 19" by (simp add: i_def word_unat_eq_iff)
    then show ?thesis by (simp add: dbg_next_def True)
  next
    case False
    have "LogAllocateIndex t = of_nat i" by (simp add: i_def)
    moreover have "(of_nat i + 1 :: u64) = of_nat (Suc i)" by simp
    moreover have "(of_nat (Suc i) :: u64) \<noteq> 20"
    proof
      assume "(of_nat (Suc i) :: u64) = 20"
      then have "unat (of_nat (Suc i) :: u64) = 20" by simp
      then show False using unat_of_nat_u64 [of "Suc i"] False i(3) by (simp del: of_nat_Suc)
    qed
    ultimately show ?thesis using False by (simp add: dbg_next_def)
  qed
  have c: "take (length (cstring Text)) Text = cstring Text"
    using assms(2) by (simp add: dbg_ok_def cstring_prefix)
  show ?thesis
    using assms(1,2) i len nx c
    by (simp add: DebugWrite_def Let_def spin_free BitRelease_set_bit dbg_inv_def dbg_ok_def memcpy_def
        i_def [symmetric])
qed

lemma dbg_next_lt [simp]: "i < 20 \<Longrightarrow> dbg_next i < 20"
  by (simp add: dbg_next_def)

lemma dbg_entry_text:
  assumes "length e = 151" and "0 \<notin> set s" and "length s \<le> 150"
  shows "cstring ((s @ drop (length s) e)[length s := 0]) = s"
proof -
  obtain x xs where "drop (length s) e = x # xs"
    using assms by (cases "drop (length s) e") auto
  then show ?thesis using assms(2) by simp
qed

lemma dbg_slot_next:
  "i < 20 \<Longrightarrow> dbg_slot (dbg_next i) 0 = i"
  "i < 20 \<Longrightarrow> Suc k < 20 \<Longrightarrow> dbg_slot (dbg_next i) (Suc k) = dbg_slot i k"
  "i < 20 \<Longrightarrow> k < 19 \<Longrightarrow> dbg_slot i k \<noteq> i"
  by (auto simp: dbg_slot_def dbg_next_def)

lemma unat_dbg_next: "i < 20 \<Longrightarrow> unat (of_nat (dbg_next i) :: u64) = dbg_next i"
  by (intro unat_of_nat_u64 less_trans [OF dbg_next_lt]) simp_all

lemma DebugWrite_inv: "dbg_inv t \<Longrightarrow> dbg_ok Text \<Longrightarrow> \<exists>t'. DebugWrite t Text = Inr t' \<and> dbg_inv t'"
  using DebugWrite_eq [of t Text]
  by (auto simp: dbg_inv_def unat_dbg_next dbg_ok_def dest!: set_update_subset_insert [THEN subsetD])

lemma dbg_text_write:
  assumes "dbg_inv t" and "dbg_ok Text" and "DebugWrite t Text = Inr t'"
  shows "dbg_text t' 0 = Inr (cstring Text)"
    and "Suc k < 20 \<Longrightarrow> dbg_text t' (Suc k) = dbg_text t k"
proof -
  define i where "i = unat (LogAllocateIndex t)"
  have i: "i < 20" "length (LogEntries t ! i) = 151" "i < length (LogEntries t)"
    using assms(1) by (auto simp: dbg_inv_def i_def)
  have t': "dbg_inv t'" using DebugWrite_inv [OF assms(1,2)] assms(3) by auto
  have idx: "unat (LogAllocateIndex t') = dbg_next i" and
    ent: "LogEntries t' = (LogEntries t)[i := (cstring Text @ drop (length (cstring Text)) (LogEntries t ! i))
                                              [length (cstring Text) := 0]]"
    using DebugWrite_eq [OF assms(1,2)] assms(3) unat_dbg_next [OF i(1)] by (auto simp: i_def)
  show "dbg_text t' 0 = Inr (cstring Text)"
    using DebugRead_eq [OF t', of 0] i dbg_entry_text [OF i(2) cstring_no_zero, of Text] assms(2)
    by (simp add: dbg_text_def idx ent dbg_slot_next dbg_ok_def)
  show "dbg_text t' (Suc k) = dbg_text t k" if "Suc k < 20"
    using DebugRead_eq [OF t', of "Suc k"] DebugRead_eq [OF assms(1), of k] i that
      dbg_slot_next(3) [OF i(1), of k, symmetric]
    by (simp add: dbg_text_def idx ent dbg_slot_next i_def [symmetric])
qed

interpretation dbg: recency_log DebugWrite dbg_text dbg_ok cstring dbg_inv 20
  by unfold_locales (auto simp: DebugWrite_inv dbg_text_write)

section \<open>Refinement\<close>

fun DebugWrites :: "DEBUG_TABLE \<Rightarrow> u8 list list \<Rightarrow> DEBUG_TABLE outcome" where
  "DebugWrites t [] = Inr t"
| "DebugWrites t (m # ms) = andThen (DebugWrite t m) (\<lambda>t'. DebugWrites t' ms)"

lemma DebugWrites_eq: "DebugWrites t ms = dbg.wr_all t ms"
  by (induction ms arbitrary: t) simp_all

lemma dbg_init_inv: "dbg_inv KernelDebugTable_init"
  by (simp add: dbg_inv_def KernelDebugTable_init_def)

text \<open>C11. Any sequence of terminated messages of at most 150 bytes can be written to the fresh debug
  log, and afterwards \<open>DebugRead k\<close> returns the \<open>k\<close>-th most recent message, for each of the 20 most
  recent ones, leaving the table as it was.\<close>

theorem DebugLog_refines_recent:
  assumes "\<forall>m \<in> set msgs. 0 \<in> set m \<and> length (cstring m) \<le> DEBUG_MAX_LOG_LENGTH"
  shows "\<exists>t. DebugWrites KernelDebugTable_init msgs = Inr t \<and>
    (\<forall>k < min DEBUG_MAX_LOG_ENTRIES (length msgs).
       \<exists>entry. DebugRead t (of_nat k) = Inr (t, entry) \<and> cstring entry = cstring (rev msgs ! k))"
proof -
  have ok: "\<forall>m \<in> set msgs. dbg_ok m" using assms by (simp add: dbg_ok_def)
  obtain t where t: "DebugWrites KernelDebugTable_init msgs = Inr t" "dbg_inv t"
    using dbg.wr_all_total [OF dbg_init_inv ok] by (auto simp: DebugWrites_eq)
  have "\<exists>entry. DebugRead t (of_nat k) = Inr (t, entry) \<and> cstring entry = cstring (rev msgs ! k)"
    if "k < 20" "k < length msgs" for k
    using dbg.reads_recent [OF dbg_init_inv ok, of t k] t that DebugRead_eq [OF t(2) that(1)]
    by (simp add: DebugWrites_eq dbg_text_def)
  then show ?thesis using t(1) by auto
qed

theorem DebugLog_refines_recent_witness:
  "\<exists>t. DebugWrites KernelDebugTable_init [[72, 105, 0], [79, 75, 0]] = Inr t \<and>
     (\<exists>entry. DebugRead t 1 = Inr (t, entry) \<and> cstring entry = [72, 105])"
  using DebugLog_refines_recent [of "[[72, 105, 0], [79, 75, 0]]"]
  by (fastforce simp: cstring_def)

text \<open>C37. A message longer than 150 bytes and a read index above 19 stop the kernel, and a held control
  bit makes both operations spin: no other input of a well-formed table fails.\<close>

theorem DebugLog_failures:
  assumes "length (LogEntries t) = DEBUG_MAX_LOG_ENTRIES"
    and "\<forall>e \<in> set (LogEntries t). length e = DEBUG_MAX_LOG_LENGTH + 1"
    and "unat (LogAllocateIndex t) < DEBUG_MAX_LOG_ENTRIES"
  shows "(DebugWrite t Text = Inl e \<longleftrightarrow>
      (0 \<notin> set Text \<and> e = OutOfBounds \<or>
       0 \<in> set Text \<and> length (cstring Text) > DEBUG_MAX_LOG_LENGTH \<and> e = SOD \<or>
       0 \<in> set Text \<and> length (cstring Text) \<le> DEBUG_MAX_LOG_LENGTH \<and> bit (ControlBit t) 0 \<and> e = Hang)) \<and>
     (DebugRead t Index = Inl e \<longleftrightarrow>
      (unat Index > DEBUG_MAX_INDEX \<and> e = SOD \<or>
       unat Index \<le> DEBUG_MAX_INDEX \<and> bit (ControlBit t) 0 \<and> e = Hang))"
    (is "?w \<and> ?r")
proof
  have inv: "\<not> bit (ControlBit t) 0 \<Longrightarrow> dbg_inv t" using assms by (simp add: dbg_inv_def)
  show ?w
  proof (cases "dbg_ok Text \<and> \<not> bit (ControlBit t) 0")
    case True
    then show ?thesis using DebugWrite_eq [OF inv, of Text] by (auto simp: dbg_ok_def)
  next
    case False
    then show ?thesis
      by (cases "0 \<in> set Text")
         (auto simp: DebugWrite_def strlen_cstring strlen_no_terminator spin_held dbg_ok_def)
  qed
  show ?r
  proof (cases "bit (ControlBit t) 0 \<or> unat Index > DEBUG_MAX_INDEX")
    case True
    then show ?thesis by (auto simp: DebugRead_def spin_held)
  next
    case False
    then show ?thesis using DebugRead_eq [OF inv, of "unat Index"] by auto
  qed
qed

theorem DebugLog_failures_witness:
  "DebugWrite KernelDebugTable_init (replicate 151 1 @ [0]) = Inl SOD"
  using DebugLog_failures [of KernelDebugTable_init "replicate 151 1 @ [0]" SOD]
  by (simp add: KernelDebugTable_init_def cstring_def takeWhile_append)

end
