(* ===== verification/Critical_Lock.thy ===== *)
theory Critical_Lock
  imports Kernel_Base
begin

text \<open>
  The critical lock of \<open>Management/lock.c\<close>, a ticket lock: \<open>EnterLockArea\<close> takes the value of
  \<open>ScheduleCount\<close> as its ticket and spins until \<open>LockIndex\<close> equals it; \<open>ExitLockArea\<close> passes the
  lock on.  Interrupts are off while a ticket is taken and while the lock is passed on, so on one
  processor each of these is one atomic step; the spin is a step that is enabled when the ticket is
  up.  The interleavings of any number of threads of one processor are the step relation \<open>lock_step\<close>.
  Switching interrupts off does not keep other processors out, and the counters are not updated with
  locked instructions: \<open>smp_run\<close> has the load and the store of \<open>EnterLockArea\<close> as separate steps, as
  they are when several processors enter, and \<open>smp_two_inside\<close> shows that two of them can then take
  the same ticket.

  \<open>ExitLockArea\<close> also decrements \<open>ScheduleCount\<close>, so a ticket handed out after an exit repeats one
  that was already handed out.  The theorems show both sides: as long as threads only enter while
  \<open>LockIndex\<close> is 0 (no exit since the lock was last idle) the lock excludes, serves in order and
  never gets stuck; without that restriction two threads can be inside at once, and a thread can be
  left waiting for a ticket that has passed.
\<close>

record CRITICAL_LOCK =
  ScheduleCount :: u64
  LockIndex :: u64

definition CreateLockObject :: "CRITICAL_LOCK option \<Rightarrow> CRITICAL_LOCK option \<times> bool" where
  "CreateLockObject Lock =
     (case Lock of None \<Rightarrow> (None, False)
      | Some _ \<Rightarrow> (Some \<lparr> ScheduleCount = 0, LockIndex = 0 \<rparr>, True))"

definition EnterLockArea_ticket :: "CRITICAL_LOCK \<Rightarrow> CRITICAL_LOCK \<times> u64" where
  "EnterLockArea_ticket Lock = (Lock\<lparr> ScheduleCount := ScheduleCount Lock + 1 \<rparr>, ScheduleCount Lock)"

definition EnterLockArea_pass :: "CRITICAL_LOCK \<Rightarrow> u64 \<Rightarrow> bool" where
  "EnterLockArea_pass Lock AwaitLockIndex \<longleftrightarrow> LockIndex Lock = AwaitLockIndex"

definition ExitLockArea :: "CRITICAL_LOCK \<Rightarrow> CRITICAL_LOCK" where
  "ExitLockArea Lock =
     (let Lock1 = Lock\<lparr> ScheduleCount := ScheduleCount Lock - 1 \<rparr>
      in if ScheduleCount Lock1 = 0 then Lock1\<lparr> LockIndex := 0 \<rparr>
         else Lock1\<lparr> LockIndex := LockIndex Lock1 + 1 \<rparr>)"

section \<open>Threads around the lock\<close>

datatype pc = Outside | Waiting u64 | Inside u64

type_synonym thread = u32
type_synonym lock_state = "CRITICAL_LOCK \<times> (thread \<Rightarrow> pc)"

datatype lock_event = Take thread | Pass thread | Leave thread

inductive lock_step :: "lock_state \<Rightarrow> lock_event \<Rightarrow> lock_state \<Rightarrow> bool" where
  take: "p t = Outside \<Longrightarrow> EnterLockArea_ticket L = (L', k) \<Longrightarrow>
           lock_step (L, p) (Take t) (L', p(t := Waiting k))"
| pass: "p t = Waiting k \<Longrightarrow> EnterLockArea_pass L k \<Longrightarrow>
           lock_step (L, p) (Pass t) (L, p(t := Inside k))"
| leave: "p t = Inside k \<Longrightarrow> lock_step (L, p) (Leave t) (ExitLockArea L, p(t := Outside))"

inductive_cases lock_stepE: "lock_step s e s'"

fun lock_run :: "lock_event list \<Rightarrow> lock_state \<Rightarrow> lock_state option" where
  "lock_run [] s = Some s"
| "lock_run (Take t # es) (L, p) =
     (if p t = Outside
      then lock_run es (fst (EnterLockArea_ticket L), p(t := Waiting (snd (EnterLockArea_ticket L))))
      else None)"
| "lock_run (Pass t # es) (L, p) =
     (case p t of Waiting k \<Rightarrow> if EnterLockArea_pass L k then lock_run es (L, p(t := Inside k)) else None
      | _ \<Rightarrow> None)"
| "lock_run (Leave t # es) (L, p) =
     (case p t of Inside k \<Rightarrow> lock_run es (ExitLockArea L, p(t := Outside)) | _ \<Rightarrow> None)"

definition lock_init :: lock_state where
  "lock_init = (\<lparr> ScheduleCount = 0, LockIndex = 0 \<rparr>, \<lambda>_. Outside)"

text \<open>
  \<open>lock_reach G\<close>: the states reached when every step satisfies the client's discipline \<open>G\<close>.
\<close>

inductive lock_reach :: "(lock_state \<Rightarrow> lock_event \<Rightarrow> bool) \<Rightarrow> lock_state \<Rightarrow> bool"
  for G where
  init: "lock_reach G lock_init"
| step: "lock_reach G s \<Longrightarrow> lock_step s e s' \<Longrightarrow> G s e \<Longrightarrow> lock_reach G s'"

definition any_client :: "lock_state \<Rightarrow> lock_event \<Rightarrow> bool" where
  "any_client s e = True"

definition batch_client :: "lock_state \<Rightarrow> lock_event \<Rightarrow> bool" where
  "batch_client s e = (case e of Take t \<Rightarrow> LockIndex (fst s) = 0 | _ \<Rightarrow> True)"

lemma any_client_step: "lock_reach any_client s \<Longrightarrow> lock_step s e s' \<Longrightarrow> lock_reach any_client s'"
  by (erule lock_reach.step) (simp_all add: any_client_def)

lemma lock_run_reach:
  "lock_run es s = Some s' \<Longrightarrow> lock_reach any_client s \<Longrightarrow> lock_reach any_client s'"
proof (induction es s rule: lock_run.induct)
  case (2 t es L p)
  then show ?case
    by (auto split: if_splits intro: any_client_step [of "(L, p)" "Take t"] lock_step.take surjective_pairing)
next
  case (3 t es L p)
  then show ?case
    by (auto split: pc.splits if_splits intro: any_client_step [of "(L, p)" "Pass t"] lock_step.pass)
next
  case (4 t es L p)
  then show ?case
    by (auto split: pc.splits if_splits intro: any_client_step [of "(L, p)" "Leave t"] lock_step.leave)
qed simp

section \<open>The invariant of disciplined clients\<close>

fun ticket :: "pc \<Rightarrow> nat option" where
  "ticket Outside = None"
| "ticket (Waiting k) = Some (unat k)"
| "ticket (Inside k) = Some (unat k)"

definition ticket_map :: "(thread \<Rightarrow> pc) \<Rightarrow> thread \<rightharpoonup> nat" where
  "ticket_map p t = ticket (p t)"

text \<open>
  The tickets held are exactly \<open>LockIndex, ..., LockIndex + ScheduleCount - 1\<close>, each by one thread,
  and a thread inside holds the lowest one.
\<close>

definition lock_inv :: "lock_state \<Rightarrow> bool" where
  "lock_inv s = (case s of (L, p) \<Rightarrow>
     ran (ticket_map p) = {unat (LockIndex L)..<unat (LockIndex L) + unat (ScheduleCount L)} \<and>
     inj_on (ticket_map p) (dom (ticket_map p)) \<and>
     unat (LockIndex L) + unat (ScheduleCount L) \<le> 2 ^ 32 \<and>
     (\<forall>t k. p t = Inside k \<longrightarrow> k = LockIndex L))"

lemma card_dom_ticket: "inj_on (ticket_map p) (dom (ticket_map p)) \<Longrightarrow>
    card (ran (ticket_map p)) = card (dom (ticket_map p))"
proof -
  assume inj: "inj_on (ticket_map p) (dom (ticket_map p))"
  have "ran (ticket_map p) = (\<lambda>t. the (ticket_map p t)) ` dom (ticket_map p)"
    by (force simp: ran_def dom_def)
  moreover have "inj_on (\<lambda>t. the (ticket_map p t)) (dom (ticket_map p))"
    using inj by (auto simp: inj_on_def dom_def)
  ultimately show ?thesis by (simp add: card_image)
qed

lemma waiting_ticket: "p t = Waiting k \<Longrightarrow> unat k \<in> ran (ticket_map p)"
  by (rule ranI [of _ t]) (simp add: ticket_map_def)

lemma ticket_map_upd: "ticket_map (p(t := c)) = (ticket_map p)(t := ticket c)"
  by (auto simp: ticket_map_def)

lemma dom_missing: "ticket_map p t = None \<Longrightarrow> card (dom (ticket_map p)) < 2 ^ 32"
proof -
  assume "ticket_map p t = None"
  then have "dom (ticket_map p) \<subset> (UNIV :: thread set)" by auto
  then have "card (dom (ticket_map p)) < card (UNIV :: thread set)"
    by (intro psubset_card_mono) simp_all
  then show ?thesis by (simp add: card_word)
qed

lemma inj_on_map_upd:
  "inj_on m (dom m) \<Longrightarrow> k \<notin> ran m \<Longrightarrow> inj_on (m(t \<mapsto> k)) (dom (m(t \<mapsto> k)))"
  by (auto simp: inj_on_def ran_def dom_def split: if_splits)

lemma ran_map_remove:
  "inj_on m (dom m) \<Longrightarrow> m t = Some k \<Longrightarrow> ran (m(t := None)) = ran m - {k}"
proof -
  assume inj: "inj_on m (dom m)" and t: "m t = Some k"
  have only: "u = t" if "m u = Some k" for u using inj that t by (auto simp: inj_on_def dom_def)
  show ?thesis
  proof (intro set_eqI iffI)
    fix j
    assume "j \<in> ran (m(t := None))"
    then obtain u where "u \<noteq> t" "m u = Some j" by (auto simp: ran_def split: if_splits)
    then show "j \<in> ran m - {k}" using only by (auto simp: ran_def)
  next
    fix j
    assume "j \<in> ran m - {k}"
    then obtain u where "m u = Some j" "j \<noteq> k" by (auto simp: ran_def)
    then show "j \<in> ran (m(t := None))" using t by (intro ranI [of _ u]) auto
  qed
qed

lemma interval_drop_first: "{i..<i + n} - {i} = {Suc i..<i + n}" for i n :: nat
  by auto

lemma take_inv:
  assumes "lock_inv (L, p)" and "p t = Outside" and "EnterLockArea_ticket L = (L', k)"
    and "LockIndex L = 0"
  shows "lock_inv (L', p(t := Waiting k))"
proof -
  have none: "ticket_map p t = None" using assms(2) by (simp add: ticket_map_def)
  have r: "ran (ticket_map p) = {0..<unat (ScheduleCount L)}"
    and i: "inj_on (ticket_map p) (dom (ticket_map p))"
    using assms(1,4) by (auto simp: lock_inv_def)
  have "unat (ScheduleCount L) = card (dom (ticket_map p))" using card_dom_ticket [OF i] r by simp
  then have lt: "unat (ScheduleCount L) < 2 ^ 32" using dom_missing [OF none] by simp
  have L': "L' = L\<lparr> ScheduleCount := ScheduleCount L + 1 \<rparr>" "k = ScheduleCount L"
    using assms(3) by (auto simp: EnterLockArea_ticket_def)
  have suc: "unat (ScheduleCount L + 1) = Suc (unat (ScheduleCount L))"
    using lt by (intro unat_plus_1) simp
  have "inj_on (ticket_map (p(t := Waiting k))) (dom (ticket_map (p(t := Waiting k))))"
    using inj_on_map_upd [OF i, of "unat k" t] r L'(2) by (simp add: ticket_map_upd)
  moreover have "ran (ticket_map (p(t := Waiting k))) = {0..<Suc (unat (ScheduleCount L))}"
    using r none by (auto simp: ticket_map_upd L'(2))
  ultimately show ?thesis using assms(1,4) lt by (auto simp: lock_inv_def L' suc)
qed

lemma pass_inv:
  assumes "lock_inv (L, p)" and "p t = Waiting k" and "EnterLockArea_pass L k"
  shows "lock_inv (L, p(t := Inside k))"
proof -
  have "ticket_map (p(t := Inside k)) = ticket_map p"
    using assms(2) by (auto simp: ticket_map_def)
  then show ?thesis using assms by (auto simp: lock_inv_def EnterLockArea_pass_def)
qed

lemma leave_inv:
  assumes "lock_inv (L, p)" and "p t = Inside k"
  shows "lock_inv (ExitLockArea L, p(t := Outside))"
proof -
  let ?i = "unat (LockIndex L)" and ?n = "unat (ScheduleCount L)"
  have k: "k = LockIndex L" using assms by (auto simp: lock_inv_def)
  have r: "ran (ticket_map p) = {?i..<?i + ?n}" and i: "inj_on (ticket_map p) (dom (ticket_map p))"
    and b: "?i + ?n \<le> 2 ^ 32"
    using assms(1) by (simp_all add: lock_inv_def)
  have tm: "ticket_map p t = Some ?i" using assms(2) k by (simp add: ticket_map_def)
  then have "?i \<in> ran (ticket_map p)" by (rule ranI)
  then have n: "0 < ?n" using r by auto
  have pred: "unat (ScheduleCount L - 1) = ?n - 1" using n by (intro unat_minus_one) auto
  have suc: "unat (LockIndex L + 1) = Suc ?i"
    using b n by (intro unat_plus_1) simp
  have r': "ran (ticket_map (p(t := Outside))) = {Suc ?i..<?i + ?n}"
  proof -
    have "ran (ticket_map (p(t := Outside))) = {?i..<?i + ?n} - {?i}"
      using ran_map_remove [OF i tm] by (simp only: ticket_map_upd ticket.simps r)
    then show ?thesis by (simp only: interval_drop_first)
  qed
  have i': "inj_on (ticket_map (p(t := Outside))) (dom (ticket_map (p(t := Outside))))"
    using i by (auto simp: ticket_map_upd inj_on_def dom_def)
  have noone: "(p(t := Outside)) u \<noteq> Inside j" for u j
  proof
    assume a: "(p(t := Outside)) u = Inside j"
    then have "p u = Inside j" "u \<noteq> t" by (auto split: if_splits)
    then have "ticket_map p u = Some ?i" using assms(1) by (auto simp: lock_inv_def ticket_map_def)
    then show False using tm inj_onD [OF i, of u t] \<open>u \<noteq> t\<close> by auto
  qed
  show ?thesis
  proof (cases "ScheduleCount L = 1")
    case True
    then show ?thesis using r' i' noone by (auto simp: lock_inv_def ExitLockArea_def Let_def)
  next
    case False
    then have "ScheduleCount L - 1 \<noteq> 0" by simp
    then show ?thesis using r' i' noone pred suc n b
      by (auto simp: lock_inv_def ExitLockArea_def Let_def)
  qed
qed

lemma batch_inv: "lock_reach batch_client s \<Longrightarrow> lock_inv s"
proof (induction rule: lock_reach.induct)
  case init
  then show ?case by (auto simp: lock_init_def lock_inv_def ticket_map_def ran_def dom_def)
next
  case (step s e s')
  from step.hyps(2) show ?case
    by (cases rule: lock_step.cases)
       (use step in \<open>auto simp: batch_client_def intro: take_inv pass_inv leave_inv\<close>)
qed

section \<open>Theorems\<close>

text \<open>C18. On one processor, under the batch discipline (threads enter only while \<open>LockIndex\<close> is 0), the critical lock
  gives mutual exclusion in every interleaving of any number of threads, and the thread inside holds the lowest of the outstanding tickets, so
  threads are served in the order in which they entered.\<close>

theorem batch_mutual_exclusion:
  assumes "lock_reach batch_client (L, p)" and "p t = Inside k"
  shows "(\<forall>u j. p u = Inside j \<longrightarrow> u = t) \<and> (\<forall>u j. p u = Waiting j \<longrightarrow> k < j)"
proof -
  have inv: "lock_inv (L, p)" by (rule batch_inv [OF assms(1)])
  then have k: "k = LockIndex L" using assms(2) by (auto simp: lock_inv_def)
  have inj: "ticket_map p u = ticket_map p t \<Longrightarrow> u = t" for u
    using inv assms(2) by (auto simp: lock_inv_def inj_on_def dom_def ticket_map_def)
  have "u = t" if "p u = Inside j" for u j
    using inv that k assms(2) by (intro inj) (auto simp: lock_inv_def ticket_map_def)
  moreover have "k < j" if w: "p u = Waiting j" for u j
  proof -
    have "unat j \<in> ran (ticket_map p)" using w by (rule waiting_ticket)
    then have "unat k \<le> unat j" using inv k by (auto simp: lock_inv_def)
    moreover have "j \<noteq> k" using inj [of u] w assms(2) by (auto simp: ticket_map_def)
    ultimately show ?thesis by (metis order_le_less word_le_nat_alt)
  qed
  ultimately show ?thesis by blast
qed

text \<open>C33. On one processor, under the batch discipline, the lock is never stuck: when threads wait and nobody is inside,
  one of the waiting threads can pass.\<close>

theorem batch_progress:
  assumes "lock_reach batch_client (L, p)" and "p t = Waiting k" and "\<forall>u j. p u \<noteq> Inside j"
  shows "\<exists>u s'. lock_step (L, p) (Pass u) s'"
proof -
  have inv: "lock_inv (L, p)" by (rule batch_inv [OF assms(1)])
  have "unat k \<in> ran (ticket_map p)" using assms(2) by (rule waiting_ticket)
  then have "unat (LockIndex L) \<in> ran (ticket_map p)" using inv by (auto simp: lock_inv_def)
  then obtain u where "ticket_map p u = Some (unat (LockIndex L))" by (auto simp: ran_def)
  then have "p u = Waiting (LockIndex L)" using assms(3)
    by (cases "p u") (auto simp: ticket_map_def word_unat_eq_iff)
  then have "lock_step (L, p) (Pass u) (L, p(u := Inside (LockIndex L)))"
    by (rule lock_step.pass) (simp add: EnterLockArea_pass_def)
  then show ?thesis by blast
qed

lemma batch_two_enter:
  "lock_reach batch_client (\<lparr> ScheduleCount = 2, LockIndex = 0 \<rparr>,
     (\<lambda>_. Outside)(0 := Waiting 0, 1 := Waiting 1))"
proof -
  have "lock_reach batch_client (\<lparr> ScheduleCount = 1, LockIndex = 0 \<rparr>, (\<lambda>_. Outside)(0 := Waiting 0))"
    by (rule lock_reach.step [OF lock_reach.init, where e = "Take 0"])
       (auto simp: lock_init_def batch_client_def EnterLockArea_ticket_def intro!: lock_step.take)
  then show ?thesis
    by (rule lock_reach.step [where e = "Take 1"])
       (auto simp: batch_client_def EnterLockArea_ticket_def intro!: lock_step.take)
qed

lemma batch_one_inside:
  "lock_reach batch_client (\<lparr> ScheduleCount = 2, LockIndex = 0 \<rparr>,
     (\<lambda>_. Outside)(0 := Waiting 0, 1 := Waiting 1, 0 := Inside 0))"
  by (rule lock_reach.step [OF batch_two_enter, where e = "Pass 0"])
     (rule lock_step.pass, simp_all add: batch_client_def EnterLockArea_pass_def)

theorem batch_mutual_exclusion_witness:
  "(0::u64) < 1 \<and> lock_reach batch_client (\<lparr> ScheduleCount = 2, LockIndex = 0 \<rparr>,
     (\<lambda>_. Outside)(0 := Waiting 0, 1 := Waiting 1, 0 := Inside 0))"
  using batch_mutual_exclusion [OF batch_one_inside, of 0 0] batch_one_inside by simp

theorem batch_progress_witness:
  "\<exists>u s'. lock_step (\<lparr> ScheduleCount = 2, LockIndex = 0 \<rparr>,
     (\<lambda>_. Outside)(0 := Waiting 0, 1 := Waiting 1)) (Pass u) s'"
  using batch_progress [OF batch_two_enter, of 0 0] by simp

text \<open>Remark. Without the discipline the critical lock does not exclude: two threads can be inside at the
  same time, because \<open>ExitLockArea\<close> decrements \<open>ScheduleCount\<close> and the next ticket repeats one that
  is still waiting.\<close>

theorem lock_two_inside:
  "\<exists>L p. lock_reach any_client (L, p) \<and> p 1 = Inside 1 \<and> p 2 = Inside 1"
proof -
  have "\<exists>L p. lock_run [Take 0, Take 1, Pass 0, Leave 0, Take 2, Pass 1, Pass 2] lock_init = Some (L, p) \<and>
      p 1 = Inside 1 \<and> p 2 = Inside 1"
    by (simp add: lock_init_def EnterLockArea_ticket_def EnterLockArea_pass_def ExitLockArea_def)
  then show ?thesis using lock_run_reach [OF _ lock_reach.init] by blast
qed

text \<open>Remark. Without the discipline a thread can be left behind: nobody is inside, a thread waits for a
  ticket below \<open>LockIndex\<close>, and no waiting thread can pass.\<close>

theorem lock_left_waiting:
  "\<exists>L p. lock_reach any_client (L, p) \<and> p 3 = Waiting 1 \<and> LockIndex L = 3 \<and>
     (\<forall>t k. p t \<noteq> Inside k) \<and> (\<forall>t s'. \<not> lock_step (L, p) (Pass t) s')"
proof -
  let ?es = "[Take 0, Take 1, Take 2, Pass 0, Leave 0, Pass 1, Leave 1, Take 3, Pass 2, Leave 2]"
  let ?L = "\<lparr> ScheduleCount = 1, LockIndex = 3 \<rparr>"
  have "\<exists>p. lock_run ?es lock_init = Some (?L, p) \<and> p 3 = Waiting 1 \<and> (\<forall>t. t \<noteq> 3 \<longrightarrow> p t = Outside)"
    by (simp add: lock_init_def EnterLockArea_ticket_def EnterLockArea_pass_def ExitLockArea_def)
  then obtain p where p: "lock_run ?es lock_init = Some (?L, p)" "p 3 = Waiting 1"
    "\<And>t. t \<noteq> 3 \<Longrightarrow> p t = Outside"
    by blast
  have "lock_reach any_client (?L, p)" using lock_run_reach [OF p(1) lock_reach.init] .
  moreover have "p t \<noteq> Inside k" for t k using p(2,3) by (cases "t = 3") auto
  moreover have "\<not> lock_step (?L, p) (Pass t) s'" for t s'
    using p(2,3) by (cases "t = 3") (auto elim!: lock_stepE simp: EnterLockArea_pass_def)
  ultimately show ?thesis using p(2) by (intro exI [of _ ?L] exI [of _ p]) simp
qed

section \<open>Several processors\<close>

text \<open>A processor in \<open>EnterLockArea\<close>: it has loaded its ticket (line 14), stored the next one (line 15), or passed the spin.\<close>

datatype smp_pc = Away | Loaded u64 | Spinning u64 | Holding u64
datatype smp_event = Load thread | Store thread | Enter thread

fun smp_run :: "smp_event list \<Rightarrow> CRITICAL_LOCK \<times> (thread \<Rightarrow> smp_pc) \<Rightarrow> (CRITICAL_LOCK \<times> (thread \<Rightarrow> smp_pc)) option" where
  "smp_run [] s = Some s"
| "smp_run (Load t # es) (L, p) = (if p t = Away then smp_run es (L, p(t := Loaded (ScheduleCount L))) else None)"
| "smp_run (Store t # es) (L, p) =
     (case p t of Loaded k \<Rightarrow> smp_run es (L\<lparr> ScheduleCount := k + 1 \<rparr>, p(t := Spinning k)) | _ \<Rightarrow> None)"
| "smp_run (Enter t # es) (L, p) =
     (case p t of Spinning k \<Rightarrow> if EnterLockArea_pass L k then smp_run es (L, p(t := Holding k)) else None | _ \<Rightarrow> None)"

text \<open>
  When two processors enter a free lock at the same time, one increment of \<open>ScheduleCount\<close> is lost: both hold ticket 0 and
  both are inside, and the count says that there is one of them.
\<close>

lemma smp_two_inside:
  "\<exists>L p. smp_run [Load 0, Load 1, Store 0, Store 1, Enter 0, Enter 1] (fst lock_init, \<lambda>_. Away) = Some (L, p) \<and>
     p 0 = Holding 0 \<and> p 1 = Holding 0 \<and> ScheduleCount L = 1"
  by (simp add: lock_init_def EnterLockArea_pass_def)

end
