(* ===== verification/Handle_Table.thy ===== *)
theory Handle_Table
  imports Kernel_Base
begin

text \<open>
  The handle table of a process (\<open>Management/handle.c\<close>): a chain of iterators, each with 120
  pointers to handle lists, each list with 120 handle entries and a count.  The chain is the list of
  its iterators and a \<open>HANDLE\<close> (a pointer to an entry) the triple of its positions.  The addresses
  that \<open>AllocatePool\<close> will return are the argument \<open>pool\<close>, 0 being its failure; they matter because
  the table opens handles on its own memory.  \<open>OpenHandle\<close> is recursive in the source; the model
  carries the depth of the recursion as fuel, and two levels are shown to be enough.
\<close>

definition HANDLE_COUNT_PER_LIST :: nat where "HANDLE_COUNT_PER_LIST = 120"

definition HANDLE_KERNEL_ALLOCATE :: u64 where "HANDLE_KERNEL_ALLOCATE = 6"
definition HANDLE_FLAG_PRESENT :: u64 where "HANDLE_FLAG_PRESENT = 1"
definition HANDLE_FLAG_FREE_ON_EXIT :: u64 where "HANDLE_FLAG_FREE_ON_EXIT = 2"
definition HANDLE_FLAG_CLOSE_FILE_ON_EXIT :: u64 where "HANDLE_FLAG_CLOSE_FILE_ON_EXIT = 4"

record HANDLE_ENTRY =
  HandleId :: u64
  hd_Flags :: u64
  DataType :: u64
  hd_Process :: u64
  hd_Thread :: u64
  ReleaseProcedure :: u64
  hd_Data :: u64
  Data1 :: u64
  Data2 :: u64
  hd_HandleList :: u64

text \<open>\<open>hl_addr\<close> is the address at which the list was allocated.\<close>

record HANDLE_LIST =
  hl_addr :: u64
  HandleCount :: u64
  Handles :: "HANDLE_ENTRY list"

record HANDLE_ITERATOR =
  Lists :: "HANDLE_LIST option list"

type_synonym HANDLE_TABLE = "HANDLE_ITERATOR list"
type_synonym HANDLE = "nat \<times> nat \<times> nat"
type_synonym pool = "u64 list"

definition HANDLE_ENTRY_zero :: HANDLE_ENTRY where
  "HANDLE_ENTRY_zero = \<lparr> HandleId = 0, hd_Flags = 0, DataType = 0, hd_Process = 0, hd_Thread = 0,
     ReleaseProcedure = 0, hd_Data = 0, Data1 = 0, Data2 = 0, hd_HandleList = 0 \<rparr>"

definition HANDLE_LIST_zero :: "u64 \<Rightarrow> HANDLE_LIST" where
  "HANDLE_LIST_zero a = \<lparr> hl_addr = a, HandleCount = 0,
     Handles = replicate HANDLE_COUNT_PER_LIST HANDLE_ENTRY_zero \<rparr>"

definition HANDLE_ITERATOR_zero :: HANDLE_ITERATOR where
  "HANDLE_ITERATOR_zero = \<lparr> Lists = replicate HANDLE_COUNT_PER_LIST None \<rparr>"

fun AllocatePool :: "pool \<Rightarrow> u64 \<times> pool" where
  "AllocatePool [] = (0, [])"
| "AllocatePool (a # as) = (a, as)"

definition present :: "HANDLE_ENTRY \<Rightarrow> bool" where
  "present h \<longleftrightarrow> hd_Flags h AND HANDLE_FLAG_PRESENT \<noteq> 0"

definition CalculateId :: "nat \<Rightarrow> nat \<Rightarrow> nat \<Rightarrow> u64" where
  "CalculateId IteratorId ListIndex HandleIndex =
     of_nat IteratorId * of_nat HANDLE_COUNT_PER_LIST * of_nat HANDLE_COUNT_PER_LIST
     + of_nat ListIndex * of_nat HANDLE_COUNT_PER_LIST + of_nat HandleIndex"

definition handle_at :: "HANDLE_TABLE \<Rightarrow> HANDLE \<Rightarrow> HANDLE_ENTRY option" where
  "handle_at tbl r = (case r of (k, i, x) \<Rightarrow>
     if k < length tbl \<and> i < length (Lists (tbl ! k)) then
       (case Lists (tbl ! k) ! i of
          None \<Rightarrow> None
        | Some l \<Rightarrow> if x < length (Handles l) then Some (Handles l ! x) else None)
     else None)"

definition set_list :: "HANDLE_TABLE \<Rightarrow> nat \<Rightarrow> nat \<Rightarrow> HANDLE_LIST \<Rightarrow> HANDLE_TABLE" where
  "set_list tbl k i l = tbl[k := (tbl ! k)\<lparr> Lists := (Lists (tbl ! k))[i := Some l] \<rparr>]"

section \<open>GetHandle\<close>

definition GetHandle_list :: "u64 \<Rightarrow> HANDLE_LIST option \<Rightarrow> nat option" where
  "GetHandle_list d p =
     (case p of None \<Rightarrow> None
      | Some l \<Rightarrow> if HandleCount l \<noteq> 0 then first_index (\<lambda>h. hd_Data h = d \<and> present h) (Handles l)
                 else None)"

definition GetHandle :: "HANDLE_TABLE option \<Rightarrow> u64 \<Rightarrow> HANDLE option" where
  "GetHandle HandleTable Data =
     (case HandleTable of None \<Rightarrow> None
      | Some tbl \<Rightarrow> if Data = 0 then None else
        first_some (\<lambda>Iterator. first_some (GetHandle_list Data) (Lists Iterator)) tbl)"

section \<open>OpenHandle\<close>

text \<open>
  The body of the loop over the lists of an iterator leaves the loop at a null list pointer and at a
  free slot of a list whose count is below 120; after the last list of the last iterator there is
  neither.
\<close>

datatype scan = FreeSlot nat | NoList

definition OpenHandle_scan :: "HANDLE_LIST option \<Rightarrow> scan option" where
  "OpenHandle_scan p =
     (case p of None \<Rightarrow> Some NoList
      | Some l \<Rightarrow> if unat (HandleCount l) < HANDLE_COUNT_PER_LIST
                 then map_option FreeSlot (first_index (\<lambda>h. \<not> present h) (Handles l)) else None)"

definition OpenHandle_find :: "HANDLE_TABLE \<Rightarrow> (nat \<times> nat \<times> scan) option" where
  "OpenHandle_find tbl = first_some (\<lambda>Iterator. first_some OpenHandle_scan (Lists Iterator)) tbl"

definition OpenHandle_fill ::
  "HANDLE_TABLE \<Rightarrow> nat \<Rightarrow> nat \<Rightarrow> nat \<Rightarrow> u64 \<Rightarrow> u64 \<Rightarrow> u64 \<Rightarrow> u64 \<Rightarrow> u64 \<Rightarrow> HANDLE_TABLE" where
  "OpenHandle_fill tbl k i x Thread Flags DType Data Release =
     (case Lists (tbl ! k) ! i of
        None \<Rightarrow> tbl
      | Some l \<Rightarrow> set_list tbl k i
          (l\<lparr> HandleCount := HandleCount l + 1,
             Handles := (Handles l)[x := (Handles l ! x)\<lparr> hd_Thread := Thread, DataType := DType,
               hd_Flags := Flags OR HANDLE_FLAG_PRESENT, HandleId := CalculateId k i x,
               hd_Data := Data, ReleaseProcedure := Release \<rparr>] \<rparr>))"

fun OpenHandle :: "nat \<Rightarrow> HANDLE_TABLE \<times> pool \<Rightarrow> u64 \<Rightarrow> u64 \<Rightarrow> u64 \<Rightarrow> u64 \<Rightarrow> u64 \<Rightarrow>
    ((HANDLE_TABLE \<times> pool) \<times> HANDLE option) outcome" where
  "OpenHandle 0 s Thread Flags DType Data Release = Inl Hang"
| "OpenHandle (Suc n) (tbl, pool) Thread Flags DType Data Release =
     (if Data = 0 then Inr ((tbl, pool), None) else
      case OpenHandle_find tbl of
        Some (k, i, FreeSlot x) \<Rightarrow>
          Inr ((OpenHandle_fill tbl k i x Thread Flags DType Data Release, pool), Some (k, i, x))
      | Some (k, i, NoList) \<Rightarrow>
          (case AllocatePool pool of (a, pool1) \<Rightarrow>
             if a = 0 then Inl SOD else
             andThen (OpenHandle n (set_list tbl k i (HANDLE_LIST_zero a), pool1) Thread
                        HANDLE_FLAG_FREE_ON_EXIT HANDLE_KERNEL_ALLOCATE a 0)
               (\<lambda>(s, _). OpenHandle n s Thread Flags DType Data Release))
      | None \<Rightarrow>
          (case AllocatePool pool of (nx, pool1) \<Rightarrow>
             if nx = 0 then Inl SOD else
             case AllocatePool pool1 of (a, pool2) \<Rightarrow>
               if a = 0 then Inl SOD else
               andThen (OpenHandle n
                          (set_list (tbl @ [HANDLE_ITERATOR_zero]) (length tbl - 1) 0
                             (HANDLE_LIST_zero a), pool2) Thread
                          HANDLE_FLAG_FREE_ON_EXIT HANDLE_KERNEL_ALLOCATE nx 0)
                 (\<lambda>(s, _). OpenHandle n s Thread Flags DType Data Release)))"

definition CreateHandleTable :: "nat \<Rightarrow> pool \<Rightarrow> (HANDLE_TABLE \<times> pool) outcome" where
  "CreateHandleTable fuel pool =
     (case AllocatePool pool of (t, pool1) \<Rightarrow>
        if t = 0 then Inl SOD else
        case AllocatePool pool1 of (a, pool2) \<Rightarrow>
          if a = 0 then Inl SOD else
          andThen (OpenHandle fuel (set_list [HANDLE_ITERATOR_zero] 0 0 (HANDLE_LIST_zero a), pool2)
                     0 HANDLE_FLAG_FREE_ON_EXIT HANDLE_KERNEL_ALLOCATE t 0) (\<lambda>(s, _).
          andThen (OpenHandle fuel s 0 HANDLE_FLAG_FREE_ON_EXIT HANDLE_KERNEL_ALLOCATE a 0) (\<lambda>(s', _).
          Inr s')))"

section \<open>CloseHandle and iteration\<close>

text \<open>What \<open>CloseHandle\<close> does outside the table, in order.\<close>

datatype close_effect = FreedPool u64 | ClosedFile u64 | Released u64

definition CloseHandle ::
  "(u64 \<Rightarrow> int) \<Rightarrow> HANDLE_TABLE \<Rightarrow> HANDLE option \<Rightarrow> close_effect list \<times> (HANDLE_TABLE \<times> int) outcome" where
  "CloseHandle proc_result tbl Handle =
     (case Handle of None \<Rightarrow> ([], Inr (tbl, -1))
      | Some (k, i, x) \<Rightarrow>
          (case handle_at tbl (k, i, x) of None \<Rightarrow> ([], Inl OutOfBounds)
           | Some h \<Rightarrow>
               if \<not> present h then ([], Inr (tbl, 0)) else
               let e1 = (if hd_Flags h AND HANDLE_FLAG_FREE_ON_EXIT \<noteq> 0
                         then [FreedPool (hd_Data h)] else []);
                   e2 = (if hd_Flags h AND HANDLE_FLAG_CLOSE_FILE_ON_EXIT \<noteq> 0
                         then [ClosedFile (hd_Data h)] else []);
                   e3 = (if ReleaseProcedure h \<noteq> 0 then [Released (ReleaseProcedure h)] else []);
                   Result = (if ReleaseProcedure h \<noteq> 0 then proc_result (ReleaseProcedure h) else 0)
               in (e1 @ e2 @ e3,
                   if hd_HandleList h = 0 then Inl NullDeref
                   else case Lists (tbl ! k) ! i of None \<Rightarrow> Inl OutOfBounds
                     | Some l \<Rightarrow>
                         if hl_addr l = hd_HandleList h then
                           Inr (set_list tbl k i (l\<lparr> HandleCount := HandleCount l - 1,
                                  Handles := (Handles l)[x := h\<lparr> hd_Flags := 0 \<rparr>] \<rparr>), Result)
                         else Inl OutOfBounds)))"

record HANDLE_ITERATION_STRUCTURE =
  ListIndex :: u64
  HandleIndex :: u64
  it_Set :: bool
  it_Usable :: bool
  HandleIterator :: nat

definition HANDLE_ITERATION_zero :: HANDLE_ITERATION_STRUCTURE where
  "HANDLE_ITERATION_zero =
     \<lparr> ListIndex = 0, HandleIndex = 0, it_Set = False, it_Usable = False, HandleIterator = 0 \<rparr>"

definition StartHandleIteration :: "HANDLE_TABLE option \<Rightarrow> HANDLE_ITERATION_STRUCTURE option \<Rightarrow>
    (HANDLE_ITERATION_STRUCTURE option \<times> bool) outcome" where
  "StartHandleIteration HandleTable IterationStructure =
     (case IterationStructure of None \<Rightarrow> Inl NullDeref
      | Some it \<Rightarrow>
          if it_Set it \<or> HandleTable = None then Inr (Some it, False)
          else Inr (Some (HANDLE_ITERATION_zero\<lparr> it_Set := True, it_Usable := True \<rparr>), True))"

definition GetNextHandle ::
  "HANDLE_TABLE \<Rightarrow> HANDLE_ITERATION_STRUCTURE \<Rightarrow> (HANDLE_ITERATION_STRUCTURE \<times> HANDLE option) outcome" where
  "GetNextHandle tbl it0 =
     (if \<not> it_Set it0 \<or> \<not> it_Usable it0 then Inr (it0, None) else
      let it1 = (if unat (ListIndex it0) = HANDLE_COUNT_PER_LIST then
                   (let z = it0\<lparr> ListIndex := 0, HandleIndex := 0 \<rparr>
                    in if Suc (HandleIterator z) < length tbl
                       then z\<lparr> HandleIterator := Suc (HandleIterator z) \<rparr>
                       else z\<lparr> it_Usable := False \<rparr>)
                 else it0);
          it2 = (if unat (HandleIndex it1) = HANDLE_COUNT_PER_LIST
                 then it1\<lparr> ListIndex := ListIndex it1 + 1, HandleIndex := 0 \<rparr> else it1);
          k = HandleIterator it2; i = unat (ListIndex it2); x = unat (HandleIndex it2)
      in if \<not> (k < length tbl \<and> i < length (Lists (tbl ! k))) then Inl OutOfBounds
         else case Lists (tbl ! k) ! i of
           None \<Rightarrow> Inr (it2, None)
         | Some l \<Rightarrow>
             if \<not> x < length (Handles l) then Inl OutOfBounds
             else if \<not> present (Handles l ! x) then Inr (it2, None)
             else Inr (it2\<lparr> HandleIndex := HandleIndex it2 + 1 \<rparr>, Some (k, i, x)))"

definition EndHandleIteration :: "HANDLE_ITERATION_STRUCTURE option \<Rightarrow> HANDLE_ITERATION_STRUCTURE option \<times> bool" where
  "EndHandleIteration IterationStructure =
     (case IterationStructure of None \<Rightarrow> (None, False) | Some _ \<Rightarrow> (Some HANDLE_ITERATION_zero, True))"

section \<open>The invariant\<close>

definition list_wf :: "HANDLE_LIST \<Rightarrow> bool" where
  "list_wf l \<longleftrightarrow> length (Handles l) = 120 \<and>
     unat (HandleCount l) = length (filter present (Handles l))"

definition ht_wf :: "HANDLE_TABLE \<Rightarrow> bool" where
  "ht_wf tbl \<longleftrightarrow> tbl \<noteq> [] \<and>
     (\<forall>it \<in> set tbl. length (Lists it) = 120 \<and> (\<forall>l. Some l \<in> set (Lists it) \<longrightarrow> list_wf l))"

lemmas handle_consts [simp] =
  HANDLE_COUNT_PER_LIST_def HANDLE_FLAG_PRESENT_def HANDLE_FLAG_FREE_ON_EXIT_def

lemma not_present_zero [simp]: "\<not> present HANDLE_ENTRY_zero"
  by (simp add: present_def HANDLE_ENTRY_zero_def)

lemma present_or [simp]: "present (h\<lparr> hd_Flags := f OR 1 \<rparr>)"
proof -
  have "(f OR 1) AND 1 = (1 :: u64)" by (rule bit_word_eqI) (auto simp: bit_simps)
  then show ?thesis by (simp add: present_def)
qed

lemma list_wf_zero [simp]: "list_wf (HANDLE_LIST_zero a)"
  by (simp add: list_wf_def HANDLE_LIST_zero_def)

lemma ht_wf_nth:
  "ht_wf tbl \<Longrightarrow> k < length tbl \<Longrightarrow> length (Lists (tbl ! k)) = 120"
  "ht_wf tbl \<Longrightarrow> k < length tbl \<Longrightarrow> i < 120 \<Longrightarrow> Lists (tbl ! k) ! i = Some l \<Longrightarrow> list_wf l"
  by (auto simp: ht_wf_def) (metis nth_mem)

lemma ht_wf_set_list: "ht_wf tbl \<Longrightarrow> list_wf l \<Longrightarrow> k < length tbl \<Longrightarrow> ht_wf (set_list tbl k i l)"
  by (auto simp: ht_wf_def set_list_def dest!: set_update_subset_insert [THEN subsetD])
     (metis insertE nth_mem option.inject set_update_subset_insert subsetD)

lemma ht_wf_append: "ht_wf tbl \<Longrightarrow> ht_wf (tbl @ [HANDLE_ITERATOR_zero])"
  by (auto simp: ht_wf_def HANDLE_ITERATOR_zero_def)

lemma length_set_list [simp]: "length (set_list tbl k i l) = length tbl"
  by (simp add: set_list_def)

lemma Lists_set_list:
  "k < length tbl \<Longrightarrow> Lists (set_list tbl k i l ! m) =
     (if m = k then (Lists (tbl ! k))[i := Some l] else Lists (tbl ! m))"
  by (simp add: set_list_def)

lemma handle_at_set_list:
  "k < length tbl \<Longrightarrow> i < length (Lists (tbl ! k)) \<Longrightarrow>
     handle_at (set_list tbl k i l) (m, j, x) =
       (if m = k \<and> j = i then if x < length (Handles l) then Some (Handles l ! x) else None
        else handle_at tbl (m, j, x))"
  by (auto simp: handle_at_def Lists_set_list)

lemma handle_at_append: "handle_at (tbl @ [HANDLE_ITERATOR_zero]) q = handle_at tbl q"
  by (cases q) (auto simp: handle_at_def nth_append HANDLE_ITERATOR_zero_def)

section \<open>Finding a slot\<close>

lemma find_FreeSlot:
  assumes "OpenHandle_find tbl = Some (k, i, FreeSlot x)" and "ht_wf tbl"
  obtains l where "k < length tbl" "i < 120" "Lists (tbl ! k) ! i = Some l" "x < 120" "list_wf l"
    "\<not> present (Handles l ! x)" "unat (HandleCount l) < 120"
proof -
  have k: "k < length tbl" and sc: "first_some OpenHandle_scan (Lists (tbl ! k)) = Some (i, FreeSlot x)"
    using assms(1) by (auto simp: OpenHandle_find_def first_some_iff)
  have i: "i < 120" and s: "OpenHandle_scan (Lists (tbl ! k) ! i) = Some (FreeSlot x)"
    using sc ht_wf_nth(1) [OF assms(2) k] by (auto simp: first_some_iff)
  obtain l where l: "Lists (tbl ! k) ! i = Some l" "unat (HandleCount l) < 120"
    "first_index (\<lambda>h. \<not> present h) (Handles l) = Some x"
    using s by (auto simp: OpenHandle_scan_def split: option.splits if_splits)
  have wf: "list_wf l" using ht_wf_nth(2) [OF assms(2) k i l(1)] .
  show thesis
    using that [OF k i l(1) _ wf _ l(2)] first_index_Some [OF l(3)] wf by (auto simp: list_wf_def)
qed

lemma find_NoList:
  assumes "OpenHandle_find tbl = Some (k, i, NoList)" and "ht_wf tbl"
  shows "k < length tbl" and "i < 120" and "Lists (tbl ! k) ! i = None"
    and "\<And>m. m < k \<Longrightarrow> first_some OpenHandle_scan (Lists (tbl ! m)) = None"
    and "\<And>j. j < i \<Longrightarrow> OpenHandle_scan (Lists (tbl ! k) ! j) = None"
proof -
  show k: "k < length tbl" and *: "\<And>m. m < k \<Longrightarrow> first_some OpenHandle_scan (Lists (tbl ! m)) = None"
    using assms(1) by (auto simp: OpenHandle_find_def first_some_iff)
  have sc: "first_some OpenHandle_scan (Lists (tbl ! k)) = Some (i, NoList)"
    using assms(1) by (auto simp: OpenHandle_find_def first_some_iff)
  then show "i < 120" "\<And>j. j < i \<Longrightarrow> OpenHandle_scan (Lists (tbl ! k) ! j) = None"
    using ht_wf_nth(1) [OF assms(2) k] by (auto simp: first_some_iff)
  show "Lists (tbl ! k) ! i = None"
    using sc by (auto simp: first_some_iff OpenHandle_scan_def split: option.splits if_splits)
qed

text \<open>The slot found when everything before position \<open>(k, i)\<close> is full and the list there has room.\<close>

lemma find_at:
  assumes "k < length tbl" and "i < length (Lists (tbl ! k))"
    and "\<And>m. m < k \<Longrightarrow> first_some OpenHandle_scan (Lists (tbl ! m)) = None"
    and "\<And>j. j < i \<Longrightarrow> OpenHandle_scan (Lists (tbl ! k) ! j) = None"
    and "Lists (tbl ! k) ! i = Some l" and "unat (HandleCount l) < 120"
    and "first_index (\<lambda>h. \<not> present h) (Handles l) = Some x"
  shows "OpenHandle_find tbl = Some (k, i, FreeSlot x)"
proof -
  have "first_some OpenHandle_scan (Lists (tbl ! k)) = Some (i, FreeSlot x)"
    using assms(2,4-7) by (intro first_someI) (auto simp: OpenHandle_scan_def)
  then show ?thesis using assms(1,3) by (auto simp: OpenHandle_find_def first_some_iff)
qed

section \<open>What OpenHandle does\<close>

text \<open>The entry an open leaves in the slot it takes, the fields it does not write being the old ones.\<close>

definition opened_entry :: "HANDLE_ENTRY \<Rightarrow> HANDLE \<Rightarrow> u64 \<Rightarrow> u64 \<Rightarrow> u64 \<Rightarrow> u64 \<Rightarrow> u64 \<Rightarrow> HANDLE_ENTRY" where
  "opened_entry h r Thread Flags DType Data Release =
     h\<lparr> hd_Thread := Thread, DataType := DType, hd_Flags := Flags OR HANDLE_FLAG_PRESENT,
       HandleId := CalculateId (fst r) (fst (snd r)) (snd (snd r)), hd_Data := Data,
       ReleaseProcedure := Release \<rparr>"

lemma opened_entry_present [simp]: "present (opened_entry h r th f d a rl)"
proof -
  have "(f OR 1) AND 1 = (1 :: u64)" by (rule bit_word_eqI) (auto simp: bit_simps)
  then show ?thesis by (simp add: opened_entry_def present_def)
qed

lemma set_list_twice [simp]: "k < length tbl \<Longrightarrow> set_list (set_list tbl k i l) k i l' = set_list tbl k i l'"
  by (simp add: set_list_def)

lemma fill_eq:
  "Lists (tbl ! k) ! i = Some l \<Longrightarrow> OpenHandle_fill tbl k i x th f d a rl =
     set_list tbl k i (l\<lparr> HandleCount := HandleCount l + 1,
        Handles := (Handles l)[x := opened_entry (Handles l ! x) (k, i, x) th f d a rl] \<rparr>)"
  by (simp add: OpenHandle_fill_def opened_entry_def)

lemma list_wf_fill:
  assumes "list_wf l" and "x < 120" and "\<not> present (Handles l ! x)" and "present h"
    and "unat (HandleCount l) < 120"
  shows "list_wf (l\<lparr> HandleCount := HandleCount l + 1, Handles := (Handles l)[x := h] \<rparr>)"
proof -
  have "unat (HandleCount l + 1) = Suc (unat (HandleCount l))"
    using assms(5) by (intro unat_plus_1) simp
  then show ?thesis using assms by (simp add: list_wf_def length_filter_upd)
qed

lemma fill_effect:
  assumes "OpenHandle_find tbl = Some (k, i, FreeSlot x)" and "ht_wf tbl"
    and tbl'_def: "tbl' = OpenHandle_fill tbl k i x th f d a rl"
  shows "ht_wf tbl'"
    and "\<exists>h. handle_at tbl (k, i, x) = Some h \<and> \<not> present h \<and>
           handle_at tbl' (k, i, x) = Some (opened_entry h (k, i, x) th f d a rl)"
    and "q \<noteq> (k, i, x) \<Longrightarrow> handle_at tbl' q = handle_at tbl q"
proof -
  obtain l where l: "k < length tbl" "i < 120" "Lists (tbl ! k) ! i = Some l" "x < 120" "list_wf l"
    "\<not> present (Handles l ! x)" "unat (HandleCount l) < 120"
    using find_FreeSlot [OF assms(1,2)] .
  have len: "i < length (Lists (tbl ! k))" "length (Handles l) = 120"
    using l ht_wf_nth(1) [OF assms(2)] by (auto simp: list_wf_def)
  have t: "tbl' = set_list tbl k i (l\<lparr> HandleCount := HandleCount l + 1,
        Handles := (Handles l)[x := opened_entry (Handles l ! x) (k, i, x) th f d a rl] \<rparr>)"
    using l(3) by (simp add: tbl'_def fill_eq)
  show "ht_wf tbl'" unfolding t using l assms(2) by (intro ht_wf_set_list list_wf_fill) auto
  have "handle_at tbl (k, i, x) = Some (Handles l ! x)"
    using l len by (simp add: handle_at_def)
  then show "\<exists>h. handle_at tbl (k, i, x) = Some h \<and> \<not> present h \<and>
           handle_at tbl' (k, i, x) = Some (opened_entry h (k, i, x) th f d a rl)"
    using l len by (simp add: t handle_at_set_list)
  show "handle_at tbl' q = handle_at tbl q" if "q \<noteq> (k, i, x)"
    using that l len by (cases q) (auto simp: t handle_at_set_list, auto simp: handle_at_def)
qed

lemma OpenHandle_slot:
  "a \<noteq> 0 \<Longrightarrow> OpenHandle_find tbl = Some (k, i, FreeSlot x) \<Longrightarrow>
     OpenHandle (Suc n) (tbl, pool) th f d a rl =
       Inr ((OpenHandle_fill tbl k i x th f d a rl, pool), Some (k, i, x))"
  by simp

text \<open>
  The two nested opens after a list has been added at \<open>(k, i)\<close>: the first takes slot 0 of it for the
  list itself, the second slot 1 for the caller.
\<close>

definition new_list :: "u64 \<Rightarrow> HANDLE_ENTRY \<Rightarrow> HANDLE_ENTRY \<Rightarrow> HANDLE_LIST" where
  "new_list a h0 h1 = (HANDLE_LIST_zero a)\<lparr> HandleCount := 2,
     Handles := (Handles (HANDLE_LIST_zero a))[0 := h0, 1 := h1] \<rparr>"

lemma OpenHandle_twice:
  assumes "ht_wf tbl" and "k < length tbl" and "i < 120"
    and "\<And>m. m < k \<Longrightarrow> first_some OpenHandle_scan (Lists (tbl ! m)) = None"
    and "\<And>j. j < i \<Longrightarrow> OpenHandle_scan (Lists (tbl ! k) ! j) = None"
    and "b \<noteq> 0" and "a \<noteq> 0"
  shows "andThen (OpenHandle (Suc n) (set_list tbl k i (HANDLE_LIST_zero c), pool) th f0 d0 b rl0)
           (\<lambda>(s, _). OpenHandle (Suc n) s th f d a rl) =
         Inr ((set_list tbl k i (new_list c (opened_entry HANDLE_ENTRY_zero (k, i, 0) th f0 d0 b rl0)
                                       (opened_entry HANDLE_ENTRY_zero (k, i, 1) th f d a rl)), pool),
              Some (k, i, 1))"
proof -
  let ?t1 = "set_list tbl k i (HANDLE_LIST_zero c)"
  let ?h0 = "opened_entry HANDLE_ENTRY_zero (k, i, 0) th f0 d0 b rl0"
  let ?l2 = "(HANDLE_LIST_zero c)\<lparr> HandleCount := 1, Handles := (Handles (HANDLE_LIST_zero c))[0 := ?h0] \<rparr>"
  let ?t2 = "set_list tbl k i ?l2"
  have len: "i < length (Lists (tbl ! k))" using assms(1-3) ht_wf_nth(1) by simp
  have z: "Handles (HANDLE_LIST_zero c) = replicate 120 HANDLE_ENTRY_zero" "HandleCount (HANDLE_LIST_zero c) = 0"
    by (simp_all add: HANDLE_LIST_zero_def)
  have f1: "OpenHandle_find ?t1 = Some (k, i, FreeSlot 0)"
    by (rule find_at) (use assms(2-5) len in \<open>auto simp: Lists_set_list z\<close>)
  have "OpenHandle_fill ?t1 k i 0 th f0 d0 b rl0 = ?t2"
    using assms(2) len by (subst fill_eq) (auto simp: Lists_set_list z)
  then have o1: "OpenHandle (Suc n) (?t1, pool) th f0 d0 b rl0 = Inr ((?t2, pool), Some (k, i, 0))"
    using OpenHandle_slot [OF assms(6) f1] by simp
  have fi: "first_index (\<lambda>h. \<not> present h) (Handles ?l2) = Some 1"
    by (rule first_index_eqI) (auto simp: z)
  have f2: "OpenHandle_find ?t2 = Some (k, i, FreeSlot 1)"
    by (rule find_at [OF _ _ _ _ _ _ fi]) (use assms(2-5) len in \<open>auto simp: Lists_set_list z\<close>)
  have "OpenHandle_fill ?t2 k i 1 th f d a rl =
      set_list tbl k i (new_list c ?h0 (opened_entry HANDLE_ENTRY_zero (k, i, 1) th f d a rl))"
    using assms(2) len by (subst fill_eq) (auto simp: Lists_set_list z new_list_def)
  then have "OpenHandle (Suc n) (?t2, pool) th f d a rl =
      Inr ((set_list tbl k i (new_list c ?h0 (opened_entry HANDLE_ENTRY_zero (k, i, 1) th f d a rl)), pool),
           Some (k, i, 1))"
    using OpenHandle_slot [OF assms(7) f2] by simp
  then show ?thesis by (simp only: o1) simp
qed

lemma zero_append_nth:
  "tbl \<noteq> [] \<Longrightarrow> (tbl @ [HANDLE_ITERATOR_zero]) ! (length tbl - 1) = tbl ! (length tbl - 1)"
  by (simp add: nth_append)

lemma OpenHandle_NoList:
  assumes "ht_wf tbl" and "OpenHandle_find tbl = Some (k, i, NoList)" and "a \<noteq> 0" and "c \<noteq> 0"
  shows "OpenHandle (Suc (Suc n)) (tbl, c # pool) th f d a rl =
     Inr ((set_list tbl k i (new_list c
             (opened_entry HANDLE_ENTRY_zero (k, i, 0) th 2 HANDLE_KERNEL_ALLOCATE c 0)
             (opened_entry HANDLE_ENTRY_zero (k, i, 1) th f d a rl)), pool), Some (k, i, 1))"
  using OpenHandle_twice [OF assms(1) find_NoList(1,2,4,5) [OF assms(2,1)] assms(4,3)] assms(2-4)
  by (simp del: OpenHandle.simps(2) add: OpenHandle.simps(2) [of "Suc n"])

lemma OpenHandle_Full:
  assumes "ht_wf tbl" and "OpenHandle_find tbl = None" and "a \<noteq> 0" and "c \<noteq> 0" and "nx \<noteq> 0"
  shows "OpenHandle (Suc (Suc n)) (tbl, nx # c # pool) th f d a rl =
     Inr ((set_list (tbl @ [HANDLE_ITERATOR_zero]) (length tbl - 1) 0 (new_list c
             (opened_entry HANDLE_ENTRY_zero (length tbl - 1, 0, 0) th 2 HANDLE_KERNEL_ALLOCATE nx 0)
             (opened_entry HANDLE_ENTRY_zero (length tbl - 1, 0, 1) th f d a rl)), pool),
          Some (length tbl - 1, 0, 1))"
proof -
  have ne: "tbl \<noteq> []" using assms(1) by (simp add: ht_wf_def)
  have "first_some OpenHandle_scan (Lists ((tbl @ [HANDLE_ITERATOR_zero]) ! m)) = None"
    if "m < length tbl - 1" for m
    using assms(2) that nth_mem [of m tbl] by (auto simp: OpenHandle_find_def first_some_None_iff nth_append)
  then show ?thesis
    using OpenHandle_twice [OF ht_wf_append [OF assms(1)], of "length tbl - 1" 0 nx a n c pool] assms ne
    by (simp del: OpenHandle.simps(2) add: OpenHandle.simps(2) [of "Suc n"])
qed

lemma new_list_wf [simp]: "present h0 \<Longrightarrow> present h1 \<Longrightarrow> list_wf (new_list c h0 h1)"
  by (simp add: list_wf_def new_list_def HANDLE_LIST_zero_def length_filter_upd)

lemma new_list_nth:
  "Handles (new_list c h0 h1) ! x =
     (if x = 0 then h0 else if x = 1 then h1 else replicate 120 HANDLE_ENTRY_zero ! x)"
  "length (Handles (new_list c h0 h1)) = 120"
  by (auto simp: new_list_def HANDLE_LIST_zero_def nth_list_update)

lemma OpenHandle_returns:
  assumes "ht_wf tbl" and "a \<noteq> 0" and "nx \<noteq> 0" and "c \<noteq> 0"
  shows "\<exists>tbl' pool' r h.
    OpenHandle (Suc (Suc n)) (tbl, nx # c # pool) th f d a rl = Inr ((tbl', pool'), Some r) \<and>
    ht_wf tbl' \<and> handle_at tbl' r = Some h \<and> present h \<and> hd_Data h = a \<and> hd_Thread h = th \<and>
    DataType h = d \<and> ReleaseProcedure h = rl \<and> hd_Flags h = f OR HANDLE_FLAG_PRESENT \<and>
    HandleId h = CalculateId (fst r) (fst (snd r)) (snd (snd r))"
proof -
  have fields: "hd_Data (opened_entry h r th f d a rl) = a" "hd_Thread (opened_entry h r th f d a rl) = th"
    "DataType (opened_entry h r th f d a rl) = d" "ReleaseProcedure (opened_entry h r th f d a rl) = rl"
    "hd_Flags (opened_entry h r th f d a rl) = f OR HANDLE_FLAG_PRESENT"
    "HandleId (opened_entry h r th f d a rl) = CalculateId (fst r) (fst (snd r)) (snd (snd r))" for h r
    by (simp_all add: opened_entry_def)
  consider (slot) k i x where "OpenHandle_find tbl = Some (k, i, FreeSlot x)"
    | (nolist) k i where "OpenHandle_find tbl = Some (k, i, NoList)"
    | (full) "OpenHandle_find tbl = None"
    by (metis option.exhaust prod_cases3 scan.exhaust)
  then show ?thesis
  proof cases
    case slot
    then show ?thesis using fill_effect(1,2) [OF slot assms(1) refl, of th f d a rl] assms(2) fields by fastforce
  next
    case nolist
    note k = find_NoList(1,2) [OF nolist assms(1)]
    then show ?thesis
      using OpenHandle_NoList [OF assms(1) nolist assms(2,3), of n "c # pool"] assms(1) ht_wf_nth(1) [OF assms(1) k(1)]
      by (fastforce simp: ht_wf_set_list handle_at_set_list new_list_nth fields)
  next
    case full
    have ne: "tbl \<noteq> []" using assms(1) by (simp add: ht_wf_def)
    then show ?thesis
      using OpenHandle_Full [OF assms(1) full assms(2,4,3), of n pool] assms(1)
        ht_wf_nth(1) [OF ht_wf_append [OF assms(1)], of "length tbl - 1"]
      by (fastforce simp: ht_wf_append ht_wf_set_list handle_at_set_list new_list_nth fields)
  qed
qed

text \<open>C9. Opening a handle on a well-formed table always succeeds with two levels of recursion and two
  pool allocations, keeps the table well formed, and leaves in the returned slot a present entry with
  exactly the caller's data and the id computed from its position.\<close>

theorem OpenHandle_opens:
  assumes "ht_wf tbl" and "a \<noteq> 0" and "nx \<noteq> 0" and "c \<noteq> 0"
  shows "\<exists>tbl' pool' r h.
    OpenHandle (Suc (Suc n)) (tbl, nx # c # pool) th f d a rl = Inr ((tbl', pool'), Some r) \<and>
    ht_wf tbl' \<and> handle_at tbl' r = Some h \<and> present h \<and> hd_Data h = a \<and> hd_Thread h = th \<and>
    DataType h = d \<and> ReleaseProcedure h = rl \<and> hd_Flags h = f OR HANDLE_FLAG_PRESENT \<and>
    HandleId h = CalculateId (fst r) (fst (snd r)) (snd (snd r))"
  using assms by (rule OpenHandle_returns)

text \<open>Remark. As long as some list pointer or slot is free in the table, opening a handle takes a slot that no
  present handle uses and leaves every present handle as it is.\<close>

theorem OpenHandle_keeps_handles:
  assumes "ht_wf tbl" and "OpenHandle_find tbl \<noteq> None" and "a \<noteq> 0" and "c \<noteq> 0"
    and "OpenHandle (Suc (Suc n)) (tbl, c # pool) th f d a rl = Inr ((tbl', pool'), Some r)"
    and "handle_at tbl q = Some h" and "present h"
  shows "handle_at tbl' q = Some h \<and> q \<noteq> r"
proof -
  consider (slot) k i x where "OpenHandle_find tbl = Some (k, i, FreeSlot x)"
    | (nolist) k i where "OpenHandle_find tbl = Some (k, i, NoList)"
    using assms(2) by (metis option.exhaust prod_cases3 scan.exhaust)
  then show ?thesis
  proof cases
    case slot
    then have "tbl' = OpenHandle_fill tbl k i x th f d a rl" "r = (k, i, x)" using assms(3,5) by auto
    then show ?thesis using fill_effect [OF slot assms(1)] assms(6,7) by (metis option.inject)
  next
    case nolist
    note k = find_NoList [OF nolist assms(1)]
    obtain m j x where q: "q = (m, j, x)" by (metis prod_cases3)
    have "(m, j) \<noteq> (k, i)" using assms(6) k(3) by (auto simp: q handle_at_def split: if_splits)
    then show ?thesis
      using OpenHandle_NoList [OF assms(1) nolist assms(3,4), of n pool] assms(5,6) k(1,2)
        ht_wf_nth(1) [OF assms(1) k(1)]
      by (auto simp: q handle_at_set_list)
  qed
qed

text \<open>Remark. When every list of the table is full, opening a handle replaces list 0 of the last iterator
  instead of filling the iterator it just allocated: every handle of that list from slot 2 on is gone,
  and the one in slots 0 and 1 is overwritten.\<close>

theorem OpenHandle_full_drops_list:
  assumes "ht_wf tbl" and "OpenHandle_find tbl = None" and "a \<noteq> 0" and "nx \<noteq> 0" and "c \<noteq> 0"
    and "OpenHandle (Suc (Suc n)) (tbl, nx # c # pool) th f d a rl = Inr ((tbl', pool'), Some r)"
  shows "r = (length tbl - 1, 0, 1) \<and> length tbl' = Suc (length tbl) \<and>
    (\<forall>x. 2 \<le> x \<and> x < 120 \<longrightarrow> handle_at tbl' (length tbl - 1, 0, x) = Some HANDLE_ENTRY_zero)"
proof -
  have ne: "tbl \<noteq> []" using assms(1) by (simp add: ht_wf_def)
  have "Lists ((tbl @ [HANDLE_ITERATOR_zero]) ! (length tbl - 1)) = Lists (tbl ! (length tbl - 1))"
    using ne by (simp only: zero_append_nth not_False_eq_True)
  moreover have "length (Lists (tbl ! (length tbl - 1))) = 120"
    using ne by (intro ht_wf_nth(1) [OF assms(1)]) simp
  ultimately show ?thesis
    using OpenHandle_Full [OF assms(1,2,3,5,4), of n pool th f d rl] assms(6) ne
    by (auto simp: handle_at_set_list new_list_nth)
qed

section \<open>Lookup\<close>

lemma ht_wf_handle_at:
  assumes "ht_wf tbl"
  shows "handle_at tbl (k, i, x) = Some h \<longleftrightarrow>
    k < length tbl \<and> i < 120 \<and> (\<exists>l. Lists (tbl ! k) ! i = Some l \<and> x < 120 \<and> h = Handles l ! x)"
proof -
  have "length (Lists (tbl ! k)) = 120" if "k < length tbl" using ht_wf_nth(1) [OF assms that] .
  moreover have "length (Handles l) = 120" if "k < length tbl" "i < 120" "Lists (tbl ! k) ! i = Some l" for l
    using ht_wf_nth(2) [OF assms that] by (simp add: list_wf_def)
  ultimately show ?thesis by (auto simp: handle_at_def split: option.splits)
qed

lemma GetHandle_list_None:
  assumes "list_wf l"
  shows "GetHandle_list d (Some l) = None \<longleftrightarrow> (\<forall>x < 120. \<not> (hd_Data (Handles l ! x) = d \<and> present (Handles l ! x)))"
proof -
  have len: "length (Handles l) = 120" using assms by (simp add: list_wf_def)
  have "HandleCount l = 0 \<Longrightarrow> \<forall>h \<in> set (Handles l). \<not> present h"
    using assms by (auto simp: list_wf_def filter_empty_conv)
  then show ?thesis
    by (auto simp: GetHandle_list_def first_index_None_iff all_set_conv_all_nth len)
qed

lemma GetHandle_list_Some:
  "GetHandle_list d p = Some x \<Longrightarrow>
     \<exists>l. p = Some l \<and> x < length (Handles l) \<and> hd_Data (Handles l ! x) = d \<and> present (Handles l ! x)"
  by (auto simp: GetHandle_list_def split: option.splits if_splits dest: first_index_Some)

text \<open>C32. \<open>GetHandle\<close> finds a present handle on the given data whenever the table has one, returns only such
  handles, and returns NULL exactly when there is none.\<close>

theorem GetHandle_correct:
  assumes "ht_wf tbl" and "d \<noteq> 0"
  shows "(\<forall>q. GetHandle (Some tbl) d = Some q \<longrightarrow>
            (\<exists>h. handle_at tbl q = Some h \<and> present h \<and> hd_Data h = d)) \<and>
         (GetHandle (Some tbl) d = None \<longleftrightarrow>
            (\<forall>q h. handle_at tbl q = Some h \<and> present h \<longrightarrow> hd_Data h \<noteq> d))"
proof (intro conjI allI impI)
  fix q
  assume "GetHandle (Some tbl) d = Some q"
  then obtain k i x where q: "q = (k, i, x)" and k: "k < length tbl"
    and f: "first_some (GetHandle_list d) (Lists (tbl ! k)) = Some (i, x)"
    using assms(2) by (cases q) (auto simp: GetHandle_def first_some_iff)
  have i: "i < 120" using f ht_wf_nth(1) [OF assms(1) k] by (auto simp: first_some_iff)
  obtain l where l: "Lists (tbl ! k) ! i = Some l" "x < length (Handles l)"
      "hd_Data (Handles l ! x) = d" "present (Handles l ! x)"
    using f by (auto simp: first_some_iff dest: GetHandle_list_Some)
  have "x < 120" using ht_wf_nth(2) [OF assms(1) k i l(1)] l(2) by (simp add: list_wf_def)
  then show "\<exists>h. handle_at tbl q = Some h \<and> present h \<and> hd_Data h = d"
    using k i l by (auto simp: q ht_wf_handle_at [OF assms(1)])
next
  let ?none = "\<lambda>k i. GetHandle_list d (Lists (tbl ! k) ! i) = None"
  have "GetHandle (Some tbl) d = None \<longleftrightarrow> (\<forall>k < length tbl. \<forall>i < 120. ?none k i)"
    using assms(2) ht_wf_nth(1) [OF assms(1)]
    by (auto simp: GetHandle_def first_some_None_iff all_set_conv_all_nth)
  also have "\<dots> \<longleftrightarrow> (\<forall>q h. handle_at tbl q = Some h \<and> present h \<longrightarrow> hd_Data h \<noteq> d)"
  proof -
    have none: "?none k i \<longleftrightarrow> (\<forall>x h. handle_at tbl (k, i, x) = Some h \<and> present h \<longrightarrow> hd_Data h \<noteq> d)"
      if "k < length tbl" "i < 120" for k i
    proof (cases "Lists (tbl ! k) ! i")
      case None
      then show ?thesis by (simp add: GetHandle_list_def ht_wf_handle_at [OF assms(1)])
    next
      case (Some l)
      then show ?thesis
        using GetHandle_list_None [OF ht_wf_nth(2) [OF assms(1) that Some], of d] that
        by (auto simp: ht_wf_handle_at [OF assms(1)])
    qed
    have rng: "handle_at tbl (k, i, x) = Some h \<Longrightarrow> k < length tbl \<and> i < 120" for k i x h
      using ht_wf_handle_at [OF assms(1)] by blast
    show ?thesis using none rng by (metis prod_cases3)
  qed
  finally show "GetHandle (Some tbl) d = None \<longleftrightarrow>
      (\<forall>q h. handle_at tbl q = Some h \<and> present h \<longrightarrow> hd_Data h \<noteq> d)" .
qed

section \<open>Reachable tables\<close>

inductive ht_reach :: "HANDLE_TABLE \<Rightarrow> bool" where
  created: "CreateHandleTable fuel pool = Inr (tbl, pool') \<Longrightarrow> ht_reach tbl"
| opened: "ht_reach tbl \<Longrightarrow> OpenHandle fuel (tbl, pool) th f d a rl = Inr ((tbl', pool'), r) \<Longrightarrow> ht_reach tbl'"
| closed: "ht_reach tbl \<Longrightarrow> snd (CloseHandle proc_result tbl h) = Inr (tbl', res) \<Longrightarrow> ht_reach tbl'"

text \<open>
  Ids follow positions, and no entry ever gets the back pointer \<open>HandleList\<close> that \<open>CloseHandle\<close> uses.
\<close>

definition ht_inv :: "HANDLE_TABLE \<Rightarrow> bool" where
  "ht_inv tbl \<longleftrightarrow> ht_wf tbl \<and>
     (\<forall>k i x h. handle_at tbl (k, i, x) = Some h \<longrightarrow>
        hd_HandleList h = 0 \<and> (present h \<longrightarrow> HandleId h = CalculateId k i x))"

lemma ht_inv_zero_list:
  assumes "ht_inv tbl" and "k < length tbl" and "i < 120"
  shows "ht_inv (set_list tbl k i (HANDLE_LIST_zero c))"
proof -
  have "i < length (Lists (tbl ! k))" using assms ht_wf_nth(1) by (simp add: ht_inv_def)
  moreover have "hd_HandleList HANDLE_ENTRY_zero = 0" by (simp add: HANDLE_ENTRY_zero_def)
  moreover have "Handles (HANDLE_LIST_zero c) = replicate 120 HANDLE_ENTRY_zero"
    by (simp add: HANDLE_LIST_zero_def)
  ultimately show ?thesis using assms
    by (auto simp: ht_inv_def ht_wf_set_list handle_at_set_list split: if_splits)
qed

lemma ht_inv_append: "ht_inv tbl \<Longrightarrow> ht_inv (tbl @ [HANDLE_ITERATOR_zero])"
  by (simp add: ht_inv_def ht_wf_append handle_at_append)

lemma ht_inv_fill:
  assumes "ht_inv tbl" and "OpenHandle_find tbl = Some (k, i, FreeSlot x)"
  shows "ht_inv (OpenHandle_fill tbl k i x th f d a rl)"
proof -
  let ?t = "OpenHandle_fill tbl k i x th f d a rl"
  have wf: "ht_wf tbl" using assms(1) by (simp add: ht_inv_def)
  note fe = fill_effect [OF assms(2) wf refl]
  have "hd_HandleList h = 0 \<and> (present h \<longrightarrow> HandleId h = CalculateId m j y)"
    if at: "handle_at ?t (m, j, y) = Some h" for m j y h
  proof (cases "(m, j, y) = (k, i, x)")
    case True
    then obtain g where "handle_at tbl (k, i, x) = Some g" "h = opened_entry g (k, i, x) th f d a rl"
      using fe(2) [of th f d a rl] at by auto
    then show ?thesis using assms(1) True by (auto simp: ht_inv_def opened_entry_def)
  next
    case False
    then show ?thesis using fe(3) [OF False, of th f d a rl] at assms(1) by (auto simp: ht_inv_def)
  qed
  then show ?thesis using fe(1) by (auto simp: ht_inv_def)
qed

lemma ht_inv_open:
  "OpenHandle n (tbl, pool) th f d a rl = Inr ((tbl', pool'), r) \<Longrightarrow> ht_inv tbl \<Longrightarrow> ht_inv tbl'"
proof (induction n arbitrary: tbl pool th f d a rl tbl' pool' r)
  case 0
  then show ?case by simp
next
  case (Suc n)
  have nested: "ht_inv tbl'"
    if two: "andThen (OpenHandle n (t, p) th f0 d0 a0 0) (\<lambda>(s, _). OpenHandle n s th f d a rl) = Inr ((tbl', pool'), r)"
      and "ht_inv t" for t p f0 d0 a0
  proof -
    obtain t2 p2 r2 where "OpenHandle n (t, p) th f0 d0 a0 0 = Inr ((t2, p2), r2)"
      "OpenHandle n (t2, p2) th f d a rl = Inr ((tbl', pool'), r)"
      using two by (cases "OpenHandle n (t, p) th f0 d0 a0 0") auto
    then show ?thesis using Suc.IH that(2) by blast
  qed
  have wf: "ht_wf tbl" "tbl \<noteq> []" using Suc.prems(2) by (simp_all add: ht_inv_def ht_wf_def)
  consider (null) "a = 0" | (slot) k i x where "a \<noteq> 0" "OpenHandle_find tbl = Some (k, i, FreeSlot x)"
    | (nolist) k i where "a \<noteq> 0" "OpenHandle_find tbl = Some (k, i, NoList)"
    | (full) "a \<noteq> 0" "OpenHandle_find tbl = None"
    by (metis option.exhaust prod_cases3 scan.exhaust)
  then show ?case
  proof cases
    case nolist
    then show ?thesis
      using Suc.prems nested ht_inv_zero_list [OF Suc.prems(2)] find_NoList(1,2) [OF nolist(2) wf(1)]
      by (auto split: prod.splits if_splits)
  next
    case full
    have "ht_inv (set_list (tbl @ [HANDLE_ITERATOR_zero]) (length tbl - 1) 0 (HANDLE_LIST_zero c))" for c
      using Suc.prems(2) wf(2) by (intro ht_inv_zero_list ht_inv_append) auto
    then show ?thesis using Suc.prems(1) nested full by (auto split: prod.splits if_splits)
  qed (use Suc.prems ht_inv_fill in auto)
qed

lemma ht_inv_create: "CreateHandleTable n pool = Inr (tbl, pool') \<Longrightarrow> ht_inv tbl"
proof -
  assume c: "CreateHandleTable n pool = Inr (tbl, pool')"
  have "ht_inv [HANDLE_ITERATOR_zero]"
    by (auto simp: ht_inv_def ht_wf_def handle_at_def HANDLE_ITERATOR_zero_def)
  then have "ht_inv (set_list [HANDLE_ITERATOR_zero] 0 0 (HANDLE_LIST_zero a))" for a
    by (intro ht_inv_zero_list) auto
  then show ?thesis using c
    by (auto simp: CreateHandleTable_def andThen_Inr_iff split: prod.splits if_splits dest!: ht_inv_open)
qed

lemma CreateHandleTable_returns:
  assumes "t \<noteq> 0" and "a \<noteq> 0"
  shows "\<exists>tbl. CreateHandleTable (Suc n) (t # a # pool) = Inr (tbl, pool) \<and> ht_inv tbl"
proof -
  have wf: "ht_wf [HANDLE_ITERATOR_zero]" by (simp add: ht_wf_def HANDLE_ITERATOR_zero_def)
  have "\<exists>tbl. andThen (OpenHandle (Suc n) (set_list [HANDLE_ITERATOR_zero] 0 0 (HANDLE_LIST_zero a), pool)
      0 HANDLE_FLAG_FREE_ON_EXIT HANDLE_KERNEL_ALLOCATE t 0)
    (\<lambda>(s, _). OpenHandle (Suc n) s 0 HANDLE_FLAG_FREE_ON_EXIT HANDLE_KERNEL_ALLOCATE a 0) = Inr ((tbl, pool), Some (0, 0, 1))"
    by (subst OpenHandle_twice [OF wf]) (use assms in simp_all)
  then obtain tbl where "CreateHandleTable (Suc n) (t # a # pool) = Inr (tbl, pool)"
    using assms by (fastforce simp: CreateHandleTable_def andThen_Inr_iff simp del: OpenHandle.simps)
  then show ?thesis using ht_inv_create by blast
qed

lemma CloseHandle_null_list:
  "handle_at tbl q = Some h \<Longrightarrow> present h \<Longrightarrow> hd_HandleList h = 0 \<Longrightarrow>
     snd (CloseHandle pr tbl (Some q)) = Inl NullDeref"
  by (cases q) (simp add: CloseHandle_def Let_def)

lemma ht_inv_close:
  assumes "snd (CloseHandle pr tbl q) = Inr (tbl', res)" and "ht_inv tbl"
  shows "tbl' = tbl"
proof (cases q)
  case None
  then show ?thesis using assms(1) by (simp add: CloseHandle_def)
next
  case (Some r)
  obtain k i x where r: "r = (k, i, x)" by (metis prod_cases3)
  show ?thesis
    using assms by (auto simp: Some r CloseHandle_def ht_inv_def Let_def split: option.splits if_splits)
qed

lemma ht_reach_inv: "ht_reach tbl \<Longrightarrow> ht_inv tbl"
  by (induction rule: ht_reach.induct) (auto dest: ht_inv_create ht_inv_open ht_inv_close)

text \<open>Remark. In every table that the kernel can build, closing a present handle ends in an access through the
  null pointer \<open>HandleList\<close>, which no code sets, after the handle's memory has been freed.\<close>

theorem CloseHandle_faults:
  assumes "ht_reach tbl" and "handle_at tbl q = Some h" and "present h"
  shows "snd (CloseHandle proc_result tbl (Some q)) = Inl NullDeref \<and>
    (hd_Flags h AND HANDLE_FLAG_FREE_ON_EXIT \<noteq> 0 \<longrightarrow>
       FreedPool (hd_Data h) \<in> set (fst (CloseHandle proc_result tbl (Some q))))"
proof -
  obtain k i x where q: "q = (k, i, x)" by (metis prod_cases3)
  have "hd_HandleList h = 0" using ht_reach_inv [OF assms(1)] assms(2) by (auto simp: ht_inv_def q)
  then show ?thesis using assms(2,3) CloseHandle_null_list [OF assms(2,3)]
    by (auto simp: q CloseHandle_def Let_def)
qed

lemma CalculateId_inj:
  assumes "CalculateId k i x = CalculateId k' i' x'"
    and "k < 2 ^ 40" "i < 120" "x < 120" "k' < 2 ^ 40" "i' < 120" "x' < 120"
  shows "k = k' \<and> i = i' \<and> x = x'"
proof -
  have unat: "unat (CalculateId m j y) = m * 14400 + j * 120 + y"
    if "m < 2 ^ 40" "j < 120" "y < 120" for m j y
  proof -
    have "CalculateId m j y = of_nat (m * 14400 + j * 120 + y)" by (simp add: CalculateId_def)
    then show ?thesis using that by (simp del: of_nat_add of_nat_mult)
  qed
  have eq: "k * 14400 + i * 120 + x = k' * 14400 + i' * 120 + x'"
    using assms unat [of k i x] unat [of k' i' x'] by simp
  have d: "(m * 14400 + j * 120 + y) div 14400 = m" "(m * 14400 + j * 120 + y) mod 14400 = j * 120 + y"
    if "j < 120" "y < 120" for m j y :: nat
    using that by (simp_all add: div_mult_self3 add.assoc)
  have "k = k'" "i * 120 + x = i' * 120 + x'" using eq d [of i x k] d [of i' x' k'] assms by metis+
  moreover have "(j * 120 + y) div 120 = j" "(j * 120 + y) mod 120 = y" if "y < 120" for j y :: nat
    using that by simp_all
  ultimately show ?thesis using assms by metis
qed

text \<open>C31. In every table that the kernel can build with fewer than 2^40 iterators, two different present
  handles have different ids.\<close>

theorem HandleId_unique:
  assumes "ht_reach tbl" and "length tbl \<le> 2 ^ 40"
    and "handle_at tbl q = Some g" and "present g" and "handle_at tbl r = Some h" and "present h"
    and "HandleId g = HandleId h"
  shows "q = r"
proof -
  obtain k i x k' i' x' where q: "q = (k, i, x)" and r: "r = (k', i', x')" by (metis prod_cases3)
  have inv: "ht_inv tbl" by (rule ht_reach_inv [OF assms(1)])
  then have wf: "ht_wf tbl" by (simp add: ht_inv_def)
  have "CalculateId k i x = CalculateId k' i' x'" using inv assms(3-7) by (auto simp: ht_inv_def q r)
  moreover have "k < length tbl" "i < 120" "x < 120" "k' < length tbl" "i' < 120" "x' < 120"
    using assms(3,5) by (auto simp: q r ht_wf_handle_at [OF wf])
  ultimately show ?thesis using assms(2) CalculateId_inj [of k i x k' i' x'] by (auto simp: q r)
qed

section \<open>Iteration\<close>

fun GetNextHandles :: "HANDLE_TABLE \<Rightarrow> nat \<Rightarrow> HANDLE_ITERATION_STRUCTURE \<Rightarrow>
    (HANDLE_ITERATION_STRUCTURE \<times> HANDLE option list) outcome" where
  "GetNextHandles tbl 0 it = Inr (it, [])"
| "GetNextHandles tbl (Suc m) it =
     andThen (GetNextHandle tbl it) (\<lambda>(it', r).
     andThen (GetNextHandles tbl m it') (\<lambda>(it'', rs). Inr (it'', r # rs)))"

definition iteration_at :: "nat \<Rightarrow> HANDLE_ITERATION_STRUCTURE" where
  "iteration_at j = \<lparr> ListIndex = 0, HandleIndex = of_nat j, it_Set = True, it_Usable = True, HandleIterator = 0 \<rparr>"

lemma GetNextHandle_at:
  assumes "tbl \<noteq> []" and "0 < length (Lists (tbl ! 0))" and "Lists (tbl ! 0) ! 0 = Some l"
    and "j < 120" and "length (Handles l) = 120"
  shows "GetNextHandle tbl (iteration_at j) =
     (if present (Handles l ! j) then Inr (iteration_at (Suc j), Some (0, 0, j)) else Inr (iteration_at j, None))"
proof -
  have "unat (of_nat j :: u64) = j" using assms(4) by (intro unat_of_nat_u64) simp
  then show ?thesis using assms by (simp add: GetNextHandle_def iteration_at_def Let_def add.commute)
qed

lemma GetNextHandles_prefix:
  assumes "tbl \<noteq> []" and "0 < length (Lists (tbl ! 0))" and "Lists (tbl ! 0) ! 0 = Some l"
    and "length (Handles l) = 120" and "n < 120"
    and "\<forall>j < n. present (Handles l ! j)" and "\<not> present (Handles l ! n)"
  shows "j \<le> n \<Longrightarrow> \<exists>it. GetNextHandles tbl m (iteration_at j) =
     Inr (it, map (\<lambda>x. if x < n then Some (0, 0, x) else None) [j..<j + m])"
proof (induction m arbitrary: j)
  case 0
  then show ?case by simp
next
  case (Suc m)
  show ?case
  proof (cases "j = n")
    case True
    have none: "\<exists>it. GetNextHandles tbl q (iteration_at n) = Inr (it, replicate q None)" for q
      using GetNextHandle_at [OF assms(1-3) assms(5,4)] assms(7) by (induction q) auto
    have "map (\<lambda>x. if x < n then Some (0, 0, x) else None) [n..<n + Suc m] = replicate (Suc m) (None :: HANDLE option)"
      by (intro nth_equalityI) (auto simp del: upt_Suc replicate.simps)
    then show ?thesis using none [of "Suc m"] True by (simp del: upt_Suc GetNextHandles.simps)
  next
    case False
    then have "GetNextHandle tbl (iteration_at j) = Inr (iteration_at (Suc j), Some (0, 0, j))"
      using GetNextHandle_at [OF assms(1-3) _ assms(4), of j] assms(5,6) Suc.prems by simp
    then show ?thesis using Suc.IH [of "Suc j"] Suc.prems False by (auto simp: upt_rec [of j])
  qed
qed

text \<open>Remark. An iteration over a table returns the handles of its first list in order up to the first empty slot
  and from then on NULL at every call: a handle behind an empty slot is never visited.\<close>

theorem handle_iteration_stops_at_hole:
  assumes "ht_wf tbl" and "Lists (tbl ! 0) ! 0 = Some l" and "n < HANDLE_COUNT_PER_LIST"
    and "\<forall>j < n. present (Handles l ! j)" and "\<not> present (Handles l ! n)" and "\<not> it_Set it0"
    and "StartHandleIteration (Some tbl) (Some it0) = Inr (Some it1, started)"
  shows "started \<and> (\<exists>it. GetNextHandles tbl m it1 =
     Inr (it, map (\<lambda>x. if x < n then Some (0, 0, x) else None) [0..<m]))"
proof -
  have it1: "it1 = iteration_at 0" "started"
    using assms(6,7) by (auto simp: StartHandleIteration_def HANDLE_ITERATION_zero_def iteration_at_def)
  have ne: "tbl \<noteq> []" using assms(1) by (simp add: ht_wf_def)
  then have len: "length (Lists (tbl ! 0)) = 120" using ht_wf_nth(1) [OF assms(1)] by simp
  have "list_wf l" using ht_wf_nth(2) [OF assms(1), of 0 0 l] ne assms(2) by simp
  then show ?thesis
    using GetNextHandles_prefix [OF ne _ assms(2) _ _ assms(4,5), of 0 m] assms(3) len it1
    by (simp add: list_wf_def)
qed

section \<open>Witnesses\<close>

lemma CreateHandleTable_eq:
  assumes "t \<noteq> 0" and "a \<noteq> 0"
  shows "CreateHandleTable (Suc n) (t # a # pool) =
    Inr (set_list [HANDLE_ITERATOR_zero] 0 0 (new_list a
           (opened_entry HANDLE_ENTRY_zero (0, 0, 0) 0 2 HANDLE_KERNEL_ALLOCATE t 0)
           (opened_entry HANDLE_ENTRY_zero (0, 0, 1) 0 2 HANDLE_KERNEL_ALLOCATE a 0)), pool)"
    (is "_ = Inr (?tbl, pool)")
proof -
  let ?t0 = "set_list [HANDLE_ITERATOR_zero] 0 0 (HANDLE_LIST_zero a)"
  have "ht_wf [HANDLE_ITERATOR_zero]" by (simp add: ht_wf_def HANDLE_ITERATOR_zero_def)
  then have "andThen (OpenHandle (Suc n) (?t0, pool) 0 2 HANDLE_KERNEL_ALLOCATE t 0)
      (\<lambda>(s, _). OpenHandle (Suc n) s 0 2 HANDLE_KERNEL_ALLOCATE a 0) = Inr ((?tbl, pool), Some (0, 0, 1))"
    using OpenHandle_twice [of "[HANDLE_ITERATOR_zero]" 0 0 t a n a pool 0 2 HANDLE_KERNEL_ALLOCATE 0 2
        HANDLE_KERNEL_ALLOCATE 0] assms by simp
  then show ?thesis using assms
    by (cases "OpenHandle (Suc n) (?t0, pool) 0 2 HANDLE_KERNEL_ALLOCATE t 0")
       (auto simp: CreateHandleTable_def simp del: OpenHandle.simps)
qed

definition sample_table :: HANDLE_TABLE where
  "sample_table = set_list [HANDLE_ITERATOR_zero] 0 0 (new_list 0x2000
     (opened_entry HANDLE_ENTRY_zero (0, 0, 0) 0 2 HANDLE_KERNEL_ALLOCATE 0x1000 0)
     (opened_entry HANDLE_ENTRY_zero (0, 0, 1) 0 2 HANDLE_KERNEL_ALLOCATE 0x2000 0))"

lemma sample_created: "CreateHandleTable (Suc 0) [0x1000, 0x2000] = Inr (sample_table, [])"
  by (simp only: CreateHandleTable_eq sample_table_def) (simp add: CreateHandleTable_eq)

lemma sample_reach: "ht_reach sample_table"
  using sample_created by (rule ht_reach.created)

lemma sample_wf: "ht_wf sample_table"
  using ht_reach_inv [OF sample_reach] by (simp add: ht_inv_def)

lemma sample_list: "Lists (sample_table ! 0) ! 0 = Some (new_list 0x2000
     (opened_entry HANDLE_ENTRY_zero (0, 0, 0) 0 2 HANDLE_KERNEL_ALLOCATE 0x1000 0)
     (opened_entry HANDLE_ENTRY_zero (0, 0, 1) 0 2 HANDLE_KERNEL_ALLOCATE 0x2000 0))"
  by (simp add: sample_table_def set_list_def HANDLE_ITERATOR_zero_def)

lemma sample_handle_0: "handle_at sample_table (0, 0, 0) =
    Some (opened_entry HANDLE_ENTRY_zero (0, 0, 0) 0 2 HANDLE_KERNEL_ALLOCATE 0x1000 0)"
  by (simp add: ht_wf_handle_at [OF sample_wf] sample_list new_list_nth)
     (simp add: sample_table_def set_list_def)

lemma sample_handle_1: "handle_at sample_table (0, 0, 1) =
    Some (opened_entry HANDLE_ENTRY_zero (0, 0, 1) 0 2 HANDLE_KERNEL_ALLOCATE 0x2000 0)"
  by (simp add: ht_wf_handle_at [OF sample_wf] sample_list new_list_nth)
     (simp add: sample_table_def set_list_def)

lemma sample_find: "OpenHandle_find sample_table = Some (0, 0, FreeSlot 2)"
  by (rule find_at [OF _ _ _ _ sample_list])
     (auto simp: sample_table_def Lists_set_list HANDLE_ITERATOR_zero_def
        new_list_def HANDLE_LIST_zero_def intro!: first_index_eqI dest!: less_2_cases)

theorem OpenHandle_opens_witness:
  "\<exists>tbl' pool' r. OpenHandle (Suc (Suc 0)) (sample_table, [0x3000, 0x4000]) 7 0 1 0x5000 0 =
     Inr ((tbl', pool'), Some r)"
  using OpenHandle_opens [OF sample_wf, of "0x5000" "0x3000" "0x4000" 0 "[]" 7 0 1 0] by auto

theorem OpenHandle_keeps_handles_witness:
  "handle_at (OpenHandle_fill sample_table 0 0 2 7 0 1 0x5000 0) (0, 0, 0) =
     Some (opened_entry HANDLE_ENTRY_zero (0, 0, 0) 0 2 HANDLE_KERNEL_ALLOCATE 0x1000 0)"
  using OpenHandle_keeps_handles [OF sample_wf _ _ _ _ sample_handle_0, of "0x5000" "0x3000" 0 "[]" 7 0 1 0
      "OpenHandle_fill sample_table 0 0 2 7 0 1 0x5000 0" "[0x3000]" "(0, 0, 2)"]
  by (simp add: sample_find)

definition full_list :: HANDLE_LIST where
  "full_list = \<lparr> hl_addr = 0x1000, HandleCount = 120,
     Handles = replicate 120 (HANDLE_ENTRY_zero\<lparr> hd_Flags := 1 \<rparr>) \<rparr>"

lemma full_wf: "ht_wf [\<lparr> Lists = replicate 120 (Some full_list) \<rparr>]"
  by (simp add: ht_wf_def list_wf_def full_list_def present_def)

lemma full_find: "OpenHandle_find [\<lparr> Lists = replicate 120 (Some full_list) \<rparr>] = None"
  unfolding OpenHandle_find_def first_some_None_iff by (simp add: OpenHandle_scan_def full_list_def)

theorem OpenHandle_full_drops_list_witness:
  "\<exists>tbl' pool'. OpenHandle (Suc (Suc 0)) ([\<lparr> Lists = replicate 120 (Some full_list) \<rparr>], [0x3000, 0x4000]) 7 0 1 0x5000 0 =
       Inr ((tbl', pool'), Some (0, 0, 1)) \<and> handle_at tbl' (0, 0, 5) = Some HANDLE_ENTRY_zero"
proof -
  let ?t = "[\<lparr> Lists = replicate 120 (Some full_list) \<rparr>]"
  have o: "\<exists>tbl' pool'. OpenHandle (Suc (Suc 0)) (?t, [0x3000, 0x4000]) 7 0 1 0x5000 0 =
      Inr ((tbl', pool'), Some (0, 0, 1))"
    using OpenHandle_Full [OF full_wf full_find, of "0x5000" "0x4000" "0x3000" 0 "[]" 7 0 1 0] by simp
  then obtain tbl' pool' where "OpenHandle (Suc (Suc 0)) (?t, [0x3000, 0x4000]) 7 0 1 0x5000 0 =
      Inr ((tbl', pool'), Some (0, 0, 1))" by blast
  then show ?thesis
    using OpenHandle_full_drops_list [OF full_wf full_find, of "0x5000" "0x3000" "0x4000" 0 "[]" 7 0 1 0 tbl' pool' "(0, 0, 1)"]
    by (simp del: OpenHandle.simps)
qed

theorem GetHandle_correct_witness: "GetHandle (Some sample_table) 0x1000 \<noteq> None"
proof -
  have "hd_Data (opened_entry HANDLE_ENTRY_zero (0, 0, 0) 0 2 HANDLE_KERNEL_ALLOCATE 0x1000 0) = 0x1000"
    by (simp add: opened_entry_def)
  moreover have "(0x1000 :: u64) \<noteq> 0" by simp
  ultimately show ?thesis
    using GetHandle_correct [OF sample_wf, of "0x1000"] sample_handle_0 opened_entry_present by blast
qed

theorem CloseHandle_faults_witness:
  "snd (CloseHandle (\<lambda>_. 0) sample_table (Some (0, 0, 0))) = Inl NullDeref"
  using CloseHandle_faults [OF sample_reach sample_handle_0] by simp

theorem HandleId_unique_witness:
  "HandleId (opened_entry HANDLE_ENTRY_zero (0, 0, 0) 0 2 HANDLE_KERNEL_ALLOCATE 0x1000 0) \<noteq>
   HandleId (opened_entry HANDLE_ENTRY_zero (0, 0, 1) 0 2 HANDLE_KERNEL_ALLOCATE 0x2000 0)"
  using HandleId_unique [OF sample_reach _ sample_handle_0 _ sample_handle_1]
  by (auto simp: sample_table_def)

theorem handle_iteration_stops_at_hole_witness:
  "\<exists>it. GetNextHandles sample_table 3 (iteration_at 0) = Inr (it, [Some (0, 0, 0), Some (0, 0, 1), None])"
  using handle_iteration_stops_at_hole [OF sample_wf sample_list, of 2 HANDLE_ITERATION_zero "iteration_at 0" True 3]
  by (simp add: StartHandleIteration_def HANDLE_ITERATION_zero_def iteration_at_def new_list_nth less_Suc_eq
      upt_rec)

end
