(* ===== verification/Pci_Config.thy ===== *)
theory Pci_Config
  imports Kernel_Base
begin

text \<open>
  Access to PCI configuration space (\<open>IO/pci.c\<close>).  The processor's port instructions and the
  host bridge behind ports 0xCF8 and 0xCFC are not code of the kernel: they are the argument \<open>io\<close>, a
  record of the port operations (and of memory-mapped loads and stores) over an arbitrary machine
  state.  \<open>config_mechanism\<close> states what configuration mechanism 1 guarantees: a write to 0xCF8
  latches an address, and a read of width 32, 16 or 8 at 0xCFC returns the low part of the dword at the
  latched address.
\<close>

record 's port_io =
  OutPort :: "u16 \<Rightarrow> u32 \<Rightarrow> 's \<Rightarrow> 's"
  OutPortW :: "u16 \<Rightarrow> u16 \<Rightarrow> 's \<Rightarrow> 's"
  OutPortB :: "u16 \<Rightarrow> u8 \<Rightarrow> 's \<Rightarrow> 's"
  InPort :: "u16 \<Rightarrow> 's \<Rightarrow> u32 \<times> 's"
  InPortW :: "u16 \<Rightarrow> 's \<Rightarrow> u16 \<times> 's"
  InPortB :: "u16 \<Rightarrow> 's \<Rightarrow> u8 \<times> 's"
  load :: "nat \<Rightarrow> u64 \<Rightarrow> 's \<Rightarrow> u64"
  store :: "nat \<Rightarrow> u64 \<Rightarrow> u64 \<Rightarrow> 's \<Rightarrow> 's"

section \<open>Addresses\<close>

definition pci_address :: "u8 \<Rightarrow> u8 \<Rightarrow> u8 \<Rightarrow> u16 \<Rightarrow> u32" where
  "pci_address BusNumber Device Function Offset =
     (let b = ucast (BusNumber AND 0xF) :: u32;
          d = ucast (Device AND 0x3F) :: u32;
          f = ucast (Function AND 0xF) :: u32
      in 0x80000000 OR (ucast Offset OR push_bit 8 f OR push_bit 11 d OR push_bit 16 b))"

definition Advance :: "u16 \<Rightarrow> nat" where
  "Advance Offset = unat (Offset AND 3)"

section \<open>Reads\<close>

definition IoPciRead16 :: "'s port_io \<Rightarrow> u8 \<Rightarrow> u8 \<Rightarrow> u8 \<Rightarrow> u16 \<Rightarrow> 's \<Rightarrow> u16 \<times> 's" where
  "IoPciRead16 io BusNumber Device Function Offset s =
     (let adv = Advance Offset;
          Address = pci_address BusNumber Device Function (Offset AND NOT 3);
          s1 = OutPort io 0xCF8 Address s
      in if adv \<noteq> 0 then
           (let (w, s2) = InPortW io 0xCFC s1;
                Val = drop_bit (adv * 8) (ucast w :: u32)
            in if adv = 3 then
                 (let Ret = ucast (Val AND 0xFF) :: u16;
                      s3 = OutPort io 0xCF8 (Address + 4) s2;
                      (b, s4) = InPortB io 0xCFC s3
                  in (Ret OR ucast (push_bit 8 (ucast b :: u32)), s4))
               else (ucast (Val AND 0xFFFF), s2))
         else InPortW io 0xCFC s1)"

definition IoPciRead32 :: "'s port_io \<Rightarrow> u8 \<Rightarrow> u8 \<Rightarrow> u8 \<Rightarrow> u16 \<Rightarrow> 's \<Rightarrow> u32 \<times> 's" where
  "IoPciRead32 io BusNumber Device Function Offset s =
     (if Advance Offset \<noteq> 0 then
        (let (lo, s1) = IoPciRead16 io BusNumber Device Function Offset s;
             (hi, s2) = IoPciRead16 io BusNumber Device Function (Offset + 2) s1
         in (ucast lo OR push_bit 16 (ucast hi), s2))
      else InPort io 0xCFC (OutPort io 0xCF8 (pci_address BusNumber Device Function Offset) s))"

definition IoPciRead8 :: "'s port_io \<Rightarrow> u8 \<Rightarrow> u8 \<Rightarrow> u8 \<Rightarrow> u16 \<Rightarrow> 's \<Rightarrow> u8 \<times> 's" where
  "IoPciRead8 io BusNumber Device Function Offset s =
     (let adv = Advance Offset;
          s1 = OutPort io 0xCF8 (pci_address BusNumber Device Function (Offset AND NOT 3)) s
      in if adv \<noteq> 0 then
           (let (w, s2) = InPort io 0xCFC s1
            in (ucast (drop_bit (adv * 8) w AND 0xFF), s2))
         else InPortB io 0xCFC s1)"

section \<open>Writes\<close>

definition pci_waddress :: "u8 \<Rightarrow> u8 \<Rightarrow> u8 \<Rightarrow> u16 \<Rightarrow> u32" where
  "pci_waddress BusNumber Device Function Offset =
     pci_address BusNumber Device Function (Offset AND 0xFF)"

definition IoPciWrite16 :: "'s port_io \<Rightarrow> u8 \<Rightarrow> u8 \<Rightarrow> u8 \<Rightarrow> u16 \<Rightarrow> u16 \<Rightarrow> 's \<Rightarrow> 's" where
  "IoPciWrite16 io BusNumber Device Function Value Offset s =
     (let adv = Advance Offset;
          Address = pci_waddress BusNumber Device Function (Offset AND NOT 3);
          s1 = OutPort io 0xCF8 Address s
      in if adv = 0 then OutPortW io 0xCFC Value s1
         else
           (let (v, s2) = InPort io 0xCFC s1;
                s3 = OutPort io 0xCFC (v OR push_bit (adv * 8) (ucast Value)) s2
            in if adv = 3 then
                 (let (v', s4) = InPort io 0xCFC (OutPort io 0xCF8 (Address + 4) s3)
                  in OutPort io 0xCFC (v' OR drop_bit 16 (ucast Value)) s4)
               else s3))"

definition IoPciWrite32 :: "'s port_io \<Rightarrow> u8 \<Rightarrow> u8 \<Rightarrow> u8 \<Rightarrow> u32 \<Rightarrow> u16 \<Rightarrow> 's \<Rightarrow> 's" where
  "IoPciWrite32 io BusNumber Device Function Value Offset s =
     (if Advance Offset = 0 then
        OutPort io 0xCFC Value (OutPort io 0xCF8 (pci_waddress BusNumber Device Function Offset) s)
      else
        IoPciWrite16 io BusNumber Device Function (ucast (drop_bit 16 Value)) (Offset + 2)
          (IoPciWrite16 io BusNumber Device Function (ucast Value) Offset s))"

definition IoPciWrite8 :: "'s port_io \<Rightarrow> u8 \<Rightarrow> u8 \<Rightarrow> u8 \<Rightarrow> u8 \<Rightarrow> u16 \<Rightarrow> 's \<Rightarrow> 's" where
  "IoPciWrite8 io BusNumber Device Function Value Offset s =
     (let adv = Advance Offset;
          s1 = OutPort io 0xCF8 (pci_waddress BusNumber Device Function (Offset AND NOT 3)) s
      in if adv = 0 then OutPortB io 0xCFC Value s1
         else (let (v, s2) = InPort io 0xCFC s1
               in OutPort io 0xCFC (v OR push_bit (adv * 8) (ucast Value)) s2))"

section \<open>Access through a device object\<close>

text \<open>The part of a device object that tells how its configuration space is reached.\<close>

record pci_location =
  pl_Bus :: u8
  pl_DeviceNumber :: u8
  pl_Function :: u8
  pl_PciAccessType :: u8
  pl_DeviceConfiguration :: u64

definition PciDeviceConfigurationRead64 :: "'s port_io \<Rightarrow> pci_location \<Rightarrow> u16 \<Rightarrow> 's \<Rightarrow> u64 \<times> 's" where
  "PciDeviceConfigurationRead64 io d Offset s =
     (if pl_PciAccessType d = 0 then (load io 8 (pl_DeviceConfiguration d + ucast Offset) s, s)
      else (let (lo, s1) = IoPciRead32 io (pl_Bus d) (pl_DeviceNumber d) (pl_Function d) Offset s;
                (hi, s2) = IoPciRead32 io (pl_Bus d) (pl_DeviceNumber d) (pl_Function d) (Offset + 4) s1
            in (ucast lo OR push_bit 32 (ucast hi), s2)))"

definition PciDeviceConfigurationRead32 :: "'s port_io \<Rightarrow> pci_location \<Rightarrow> u16 \<Rightarrow> 's \<Rightarrow> u32 \<times> 's" where
  "PciDeviceConfigurationRead32 io d Offset s =
     (if pl_PciAccessType d = 0 then (ucast (load io 4 (pl_DeviceConfiguration d + ucast Offset) s), s)
      else IoPciRead32 io (pl_Bus d) (pl_DeviceNumber d) (pl_Function d) Offset s)"

definition PciDeviceConfigurationRead16 :: "'s port_io \<Rightarrow> pci_location \<Rightarrow> u16 \<Rightarrow> 's \<Rightarrow> u16 \<times> 's" where
  "PciDeviceConfigurationRead16 io d Offset s =
     (if pl_PciAccessType d = 0 then (ucast (load io 2 (pl_DeviceConfiguration d + ucast Offset) s), s)
      else IoPciRead16 io (pl_Bus d) (pl_DeviceNumber d) (pl_Function d) Offset s)"

definition PciDeviceConfigurationRead8 :: "'s port_io \<Rightarrow> pci_location \<Rightarrow> u16 \<Rightarrow> 's \<Rightarrow> u8 \<times> 's" where
  "PciDeviceConfigurationRead8 io d Offset s =
     (if pl_PciAccessType d = 0 then (ucast (load io 1 (pl_DeviceConfiguration d + ucast Offset) s), s)
      else IoPciRead8 io (pl_Bus d) (pl_DeviceNumber d) (pl_Function d) Offset s)"

definition PciDeviceConfigurationWrite64 :: "'s port_io \<Rightarrow> pci_location \<Rightarrow> u64 \<Rightarrow> u16 \<Rightarrow> 's \<Rightarrow> 's" where
  "PciDeviceConfigurationWrite64 io d Value Offset s =
     (if pl_PciAccessType d = 0 then store io 8 (pl_DeviceConfiguration d + ucast Offset) Value s
      else IoPciWrite32 io (pl_Bus d) (pl_DeviceNumber d) (pl_Function d) (ucast (drop_bit 32 Value)) (Offset + 4)
             (IoPciWrite32 io (pl_Bus d) (pl_DeviceNumber d) (pl_Function d) (ucast Value) Offset s))"

definition PciDeviceConfigurationWrite32 :: "'s port_io \<Rightarrow> pci_location \<Rightarrow> u32 \<Rightarrow> u16 \<Rightarrow> 's \<Rightarrow> 's" where
  "PciDeviceConfigurationWrite32 io d Value Offset s =
     (if pl_PciAccessType d = 0 then store io 4 (pl_DeviceConfiguration d + ucast Offset) (ucast Value) s
      else IoPciWrite32 io (pl_Bus d) (pl_DeviceNumber d) (pl_Function d) Value Offset s)"

definition PciDeviceConfigurationWrite16 :: "'s port_io \<Rightarrow> pci_location \<Rightarrow> u16 \<Rightarrow> u16 \<Rightarrow> 's \<Rightarrow> 's" where
  "PciDeviceConfigurationWrite16 io d Value Offset s =
     (if pl_PciAccessType d = 0 then store io 2 (pl_DeviceConfiguration d + ucast Offset) (ucast Value) s
      else IoPciWrite16 io (pl_Bus d) (pl_DeviceNumber d) (pl_Function d) Value Offset s)"

definition PciDeviceConfigurationWrite8 :: "'s port_io \<Rightarrow> pci_location \<Rightarrow> u8 \<Rightarrow> u16 \<Rightarrow> 's \<Rightarrow> 's" where
  "PciDeviceConfigurationWrite8 io d Value Offset s =
     (if pl_PciAccessType d = 0 then store io 1 (pl_DeviceConfiguration d + ucast Offset) (ucast Value) s
      else IoPciWrite8 io (pl_Bus d) (pl_DeviceNumber d) (pl_Function d) Value Offset s)"

section \<open>Configuration mechanism 1\<close>

definition config_mechanism :: "'s port_io \<Rightarrow> ('s \<Rightarrow> u32) \<Rightarrow> ('s \<Rightarrow> u32 \<Rightarrow> u32) \<Rightarrow> bool" where
  "config_mechanism io latch dword \<longleftrightarrow>
     (\<forall>a s. latch (OutPort io 0xCF8 a s) = a \<and> dword (OutPort io 0xCF8 a s) = dword s) \<and>
     (\<forall>s. InPort io 0xCFC s = (dword s (latch s), s) \<and>
          InPortW io 0xCFC s = (ucast (dword s (latch s)), s) \<and>
          InPortB io 0xCFC s = (ucast (dword s (latch s)), s))"

lemma config_latch:
  assumes "config_mechanism io latch dword"
  shows "fst (InPort io 0xCFC (OutPort io 0xCF8 a s)) = dword s a"
    and "fst (InPortW io 0xCFC (OutPort io 0xCF8 a s)) = ucast (dword s a)"
    and "fst (InPortB io 0xCFC (OutPort io 0xCF8 a s)) = ucast (dword s a)"
  using assms by (simp_all add: config_mechanism_def)

lemma Advance_less: "Advance Offset < 4"
  using and_mask_mod [of Offset 2] by (simp add: Advance_def mask_eq_exp_minus_1)

text \<open>Fields of an address: the encoding is faithful for bus numbers below 16 only.\<close>

lemma pci_address_alt:
  "pci_address b d f off = push_bit 31 1 OR (ucast off OR push_bit 8 (ucast (take_bit 4 f)) OR
     push_bit 11 (ucast (take_bit 6 d)) OR push_bit 16 (ucast (take_bit 4 b)))"
proof -
  have "take_bit 4 x = x AND 0xF" "take_bit 6 x = x AND 0x3F" for x :: u8
    by (simp_all add: take_bit_eq_mask mask_eq_exp_minus_1)
  moreover have "push_bit 31 1 = (0x80000000 :: u32)" by (simp add: push_bit_eq_mult)
  ultimately show ?thesis by (simp add: pci_address_def Let_def)
qed

lemma bit_pci_address:
  assumes "unat b < 2 ^ 4" and "unat d < 2 ^ 5" and "unat f < 2 ^ 3"
  shows "bit (pci_address b d f off) n \<longleftrightarrow>
     n = 31 \<or> bit off n \<or> 8 \<le> n \<and> bit f (n - 8) \<or> 11 \<le> n \<and> bit d (n - 11) \<or> 16 \<le> n \<and> bit b (n - 16)"
proof -
  have s: "take_bit 4 b = b" "take_bit 6 d = d" "take_bit 4 f = f"
    using assms by (simp_all add: take_bit_word_self)
  have l: "bit off n \<Longrightarrow> n < 16" "bit f m \<Longrightarrow> m < 8" "bit d m \<Longrightarrow> m < 8" "bit b m \<Longrightarrow> m < 8" for m
    using bit_imp_le_length [of off n] bit_imp_le_length [of f m] bit_imp_le_length [of d m]
      bit_imp_le_length [of b m] by auto
  have "bit (push_bit 31 1 :: u32) n \<longleftrightarrow> n = 31"
    by (simp only: bit_push_bit_iff bit_1_iff possible_bit_word) auto
  then have "bit (0x80000000 :: u32) n \<longleftrightarrow> n = 31" by (simp add: push_bit_eq_mult)
  moreover have "n < 32 \<and> bit off n \<longleftrightarrow> bit off n" using l(1) by auto
  moreover have "8 \<le> n \<and> n < 32 \<and> n - 8 < 32 \<and> bit f (n - 8) \<longleftrightarrow> 8 \<le> n \<and> bit f (n - 8)"
    using l(2) [of "n - 8"] by auto
  moreover have "11 \<le> n \<and> n < 32 \<and> n - 11 < 32 \<and> bit d (n - 11) \<longleftrightarrow> 11 \<le> n \<and> bit d (n - 11)"
    using l(3) [of "n - 11"] by auto
  moreover have "16 \<le> n \<and> n < 32 \<and> n - 16 < 32 \<and> bit b (n - 16) \<longleftrightarrow> 16 \<le> n \<and> bit b (n - 16)"
    using l(4) [of "n - 16"] by auto
  ultimately show ?thesis unfolding pci_address_alt s by (auto simp add: bit_simps)
qed

lemma pci_address_fields:
  assumes "unat b < 2 ^ 4" and "unat d < 2 ^ 5" and "unat f < 2 ^ 3" and "unat off < 2 ^ 8"
  shows "take_bit 8 (pci_address b d f off) = ucast off"
    and "take_bit 3 (drop_bit 8 (pci_address b d f off)) = ucast f"
    and "take_bit 5 (drop_bit 11 (pci_address b d f off)) = ucast d"
    and "take_bit 8 (drop_bit 16 (pci_address b d f off)) = ucast b"
proof -
  note bb = bit_bound [OF assms(1)] bit_bound [OF assms(2)] bit_bound [OF assms(3)] bit_bound [OF assms(4)]
  note bp = bit_pci_address [OF assms(1-3)]
  show "take_bit 8 (pci_address b d f off) = ucast off"
    by (rule bit_word_eqI) (auto simp: bp bit_simps dest: bb)
  show "take_bit 3 (drop_bit 8 (pci_address b d f off)) = ucast f"
    by (rule bit_word_eqI) (auto simp: bp bit_simps dest: bb)
  show "take_bit 5 (drop_bit 11 (pci_address b d f off)) = ucast d"
    by (rule bit_word_eqI) (auto simp: bp bit_simps dest: bb)
  show "take_bit 8 (drop_bit 16 (pci_address b d f off)) = ucast b"
    by (rule bit_word_eqI) (auto simp: bp bit_simps dest: bb)
qed

lemma ucast_inj_le:
  assumes "LENGTH('a::len) \<le> LENGTH('b::len)" and "(ucast (x :: 'a word) :: 'b word) = ucast y"
  shows "x = y"
proof -
  have "ucast (ucast z :: 'b word) = z" for z :: "'a word"
    using assms(1) by (intro bit_word_eqI) (simp add: bit_simps)
  then show ?thesis using assms(2) by metis
qed

lemma ucast_and_FF: "ucast (w AND 0xFF :: u32) = (ucast w :: u8)"
proof -
  have "w AND 0xFF = take_bit 8 w" by (simp add: take_bit_eq_mask mask_eq_exp_minus_1)
  then show ?thesis by (simp only:) (rule bit_word_eqI, simp add: bit_simps)
qed

section \<open>Theorems\<close>

text \<open>Remark. Reading a byte of configuration space returns the byte at that offset: byte \<open>Offset mod 4\<close> of
  the dword that the host bridge holds at the dword-aligned address.\<close>

theorem IoPciRead8_correct:
  assumes "config_mechanism io latch dword"
  shows "fst (IoPciRead8 io b d f off s) =
    ucast (drop_bit (unat off mod 4 * 8) (dword s (pci_address b d f (off AND NOT 3))))"
proof -
  have adv: "Advance off = unat off mod 4"
    using and_mask_mod [of off 2] by (simp add: Advance_def mask_eq_exp_minus_1)
  show ?thesis
    using config_latch [OF assms] by (simp add: IoPciRead8_def Let_def split_beta ucast_and_FF adv)
qed

text \<open>Remark. A 16-bit read at an offset with remainder 2 modulo 4 always returns 0, whatever the device holds:
  the code reads only the low word of the dword and then shifts it out.  The device id (offset 2) of every
  device found through the legacy ports is therefore read as 0.\<close>

theorem IoPciRead16_upper_half_zero:
  assumes "config_mechanism io latch dword" and "unat off mod 4 = 2"
  shows "fst (IoPciRead16 io b d f off s) = 0"
proof -
  have adv: "Advance off = 2"
    using assms(2) and_mask_mod [of off 2] by (simp add: Advance_def mask_eq_exp_minus_1)
  have "drop_bit 16 (ucast w :: u32) = 0" for w :: u16
    by (rule bit_word_eqI) (auto simp: bit_simps dest: bit_imp_le_length)
  then show ?thesis
    using config_latch [OF assms(1)] by (simp add: IoPciRead16_def Let_def split_beta adv)
qed

text \<open>Remark. The address sent to the host bridge determines bus, device, function and register for bus numbers
  below 16; the code masks the bus number to four bits, so bus \<open>b\<close> and bus \<open>b + 16\<close> are the same to it.\<close>

theorem pci_address_bus_range:
  "(unat b < 16 \<and> unat d < 32 \<and> unat f < 8 \<and> unat off < 256 \<and>
    unat b' < 16 \<and> unat d' < 32 \<and> unat f' < 8 \<and> unat off' < 256 \<and>
    pci_address b d f off = pci_address b' d' f' off' \<longrightarrow> b = b' \<and> d = d' \<and> f = f' \<and> off = off') \<and>
   pci_address (b + 16) d f off = pci_address b d f off"
proof
  show "unat b < 16 \<and> unat d < 32 \<and> unat f < 8 \<and> unat off < 256 \<and>
    unat b' < 16 \<and> unat d' < 32 \<and> unat f' < 8 \<and> unat off' < 256 \<and>
    pci_address b d f off = pci_address b' d' f' off' \<longrightarrow> b = b' \<and> d = d' \<and> f = f' \<and> off = off'"
    using pci_address_fields [of b d f off] pci_address_fields [of b' d' f' off']
    by (auto intro: ucast_inj_le [where 'b = 32])
  have "(b + 16) AND 0xF = b AND 0xF"
  proof -
    have "unat ((b + 16) AND mask 4) = unat (b AND mask 4)"
      unfolding and_mask_mod by (simp add: unat_word_ariths mod_mod_cancel)
    then show ?thesis by (simp add: word_unat_eq_iff mask_eq_exp_minus_1)
  qed
  then show "pci_address (b + 16) d f off = pci_address b d f off"
    by (simp add: pci_address_def)
qed

section \<open>A host bridge\<close>

text \<open>An instance of the ports: a latch and an array of dwords.\<close>

definition sample_ports :: "(u32 \<times> (u32 \<Rightarrow> u32)) port_io" where
  "sample_ports =
     \<lparr> OutPort = (\<lambda>p v s. if p = 0xCF8 then (v, snd s) else (fst s, (snd s)(fst s := v))),
       OutPortW = (\<lambda>p v s. s), OutPortB = (\<lambda>p v s. s),
       InPort = (\<lambda>p s. (snd s (fst s), s)), InPortW = (\<lambda>p s. (ucast (snd s (fst s)), s)),
       InPortB = (\<lambda>p s. (ucast (snd s (fst s)), s)), load = (\<lambda>_ _ _. 0), store = (\<lambda>_ _ _ s. s) \<rparr>"

lemma sample_mechanism: "config_mechanism sample_ports fst snd"
  by (simp add: config_mechanism_def sample_ports_def)

theorem IoPciRead8_correct_witness:
  "fst (IoPciRead8 sample_ports 0 3 0 0xB (0, \<lambda>a. if a = 0x80001808 then 0x01060102 else 0)) = 1"
  using IoPciRead8_correct [OF sample_mechanism, of 0 3 0 "0xB" "(0, \<lambda>a. if a = 0x80001808 then 0x01060102 else 0)"]
  by (simp add: pci_address_def)

theorem IoPciRead16_upper_half_zero_witness:
  "fst (IoPciRead16 sample_ports 0 3 0 2 (0, \<lambda>a. 0x29228086)) = 0"
  using IoPciRead16_upper_half_zero [OF sample_mechanism, of 2] by simp

theorem pci_address_bus_range_witness:
  "pci_address 17 3 1 8 = pci_address 1 3 1 8 \<and> pci_address 1 3 1 8 \<noteq> pci_address 2 3 1 8"
  using pci_address_bus_range [of 1 3 1 8 2 3 1 8] by auto

end
