(* ===== verification/Slot_Table.thy ===== *)
theory Slot_Table
  imports Prelude
begin

text \<open>
  The kernel keeps devices, disks, partitions, IPC clients, IPC servers and threads in the same
  data structure: a linked chain of blocks, each holding a fixed number \<open>N\<close> of slots.  The chain
  only grows (a block is allocated, zeroed and linked with \<open>Next\<close>, never unlinked), so the chain is
  modelled as the list of its blocks, and a pointer to a slot as the pair (block, index).
  \<open>chain_walk\<close> is the nested loop "for each block, for each index, take the first free slot; if
  there is no next block allocate one" that each component repeats, and \<open>chain_ref_of_id\<close> the loop
  that follows \<open>Next\<close> as often as \<open>Id / N\<close> says.  The locale \<open>slot_table\<close> is the contract of that
  structure; each component interprets it on its own slot type, free test and block size.
\<close>

type_synonym 'a chain = "'a list list"
type_synonym slot_ref = "nat \<times> nat"

fun chain_find :: "('a \<Rightarrow> bool) \<Rightarrow> 'a chain \<Rightarrow> slot_ref option" where
  "chain_find P [] = None"
| "chain_find P (b # bs) =
     (case first_index P b of
        Some i \<Rightarrow> Some (0, i)
      | None \<Rightarrow> map_option (\<lambda>(l, i). (Suc l, i)) (chain_find P bs))"

definition chain_get :: "'a chain \<Rightarrow> slot_ref \<Rightarrow> 'a option" where
  "chain_get c r =
     (if fst r < length c \<and> snd r < length (c ! fst r) then Some (c ! fst r ! snd r) else None)"

definition chain_set :: "'a chain \<Rightarrow> slot_ref \<Rightarrow> 'a \<Rightarrow> 'a chain" where
  "chain_set c r x = c[fst r := (c ! fst r)[snd r := x]]"

definition chain_walk :: "('a \<Rightarrow> bool) \<Rightarrow> 'a \<Rightarrow> nat \<Rightarrow> 'a chain \<Rightarrow> 'a chain \<times> slot_ref" where
  "chain_walk free zero N c =
     (case chain_find free c of
        Some r \<Rightarrow> (c, r)
      | None \<Rightarrow> (c @ [replicate N zero], (length c, 0)))"

definition slot_id :: "nat \<Rightarrow> slot_ref \<Rightarrow> nat" where
  "slot_id N r = fst r * N + snd r"

definition chain_ref_of_id :: "nat \<Rightarrow> 'a chain \<Rightarrow> nat \<Rightarrow> slot_ref option" where
  "chain_ref_of_id N c k = (if k div N < length c then Some (k div N, k mod N) else None)"

definition chain_wf :: "nat \<Rightarrow> 'a chain \<Rightarrow> bool" where
  "chain_wf N c \<longleftrightarrow> c \<noteq> [] \<and> (\<forall>b \<in> set c. length b = N)"

section \<open>Generic facts\<close>

lemma chain_find_Some:
  "chain_find P c = Some r \<Longrightarrow> \<exists>x. chain_get c r = Some x \<and> P x"
proof (induction c arbitrary: r)
  case Nil
  then show ?case by simp
next
  case (Cons b bs)
  show ?case
  proof (cases "first_index P b")
    case (Some i)
    with Cons.prems show ?thesis by (auto simp: chain_get_def first_index_lt first_index_P)
  next
    case None
    with Cons.prems obtain l i where li: "chain_find P bs = Some (l, i)" "r = (Suc l, i)"
      by auto
    then show ?thesis using Cons.IH [OF li(1)] by (auto simp: chain_get_def split: if_splits)
  qed
qed

lemma chain_get_nth_block:
  "chain_get c r = Some x \<Longrightarrow> \<exists>b. b \<in> set c \<and> b = c ! fst r \<and> x \<in> set b \<and> x = b ! snd r"
  by (auto simp: chain_get_def split: if_splits)

lemma chain_find_None_iff: "chain_find P c = None \<longleftrightarrow> (\<forall>b \<in> set c. \<forall>x \<in> set b. \<not> P x)"
  by (induction c) (auto split: option.splits simp: first_index_None_iff dest: first_index_Some,
      metis first_index_P first_index_lt nth_mem)

lemma chain_find_None_get: "chain_find P c = None \<Longrightarrow> chain_get c r = Some x \<Longrightarrow> \<not> P x"
  by (auto simp: chain_find_None_iff dest: chain_get_nth_block)

lemma chain_find_least:
  assumes "chain_find P c = Some r" and "chain_get c s = Some x"
    and "fst s < fst r \<or> fst s = fst r \<and> snd s < snd r"
  shows "\<not> P x"
  using assms
proof (induction c arbitrary: r s)
  case Nil
  then show ?case by simp
next
  case (Cons b bs)
  show ?case
  proof (cases "first_index P b")
    case (Some i)
    with Cons.prems show ?thesis
      by (auto simp: chain_get_def split: if_splits dest: first_index_Some)
  next
    case None
    with Cons.prems obtain l i where li: "chain_find P bs = Some (l, i)" "r = (Suc l, i)"
      by auto
    show ?thesis
    proof (cases "fst s")
      case 0
      with None Cons.prems(2) show ?thesis
        by (auto simp: chain_get_def first_index_None_iff split: if_splits)
    next
      case (Suc k)
      then have "chain_get bs (k, snd s) = Some x"
        using Cons.prems(2) by (auto simp: chain_get_def split: if_splits)
      then show ?thesis using Cons.IH [OF li(1)] Cons.prems(3) li(2) Suc by auto
    qed
  qed
qed

lemma chain_get_append_left:
  "chain_get c r = Some x \<Longrightarrow> chain_get (c @ d) r = Some x"
  by (auto simp: chain_get_def nth_append split: if_splits)

lemma chain_get_set_same [simp]:
  "chain_get c r = Some y \<Longrightarrow> chain_get (chain_set c r x) r = Some x"
  by (auto simp: chain_get_def chain_set_def split: if_splits)

lemma chain_get_set_other [simp]:
  "r \<noteq> s \<Longrightarrow> chain_get (chain_set c r x) s = chain_get c s"
  by (cases r; cases s; cases "fst r < length c")
     (auto simp: chain_get_def chain_set_def nth_list_update)

lemma chain_wf_set [simp]: "chain_wf N c \<Longrightarrow> chain_wf N (chain_set c r x)"
  by (cases "fst r < length c")
     (auto simp: chain_wf_def chain_set_def list_update_beyond dest!: set_update_subset_insert [THEN subsetD])

lemma length_chain_set [simp]: "length (chain_set c r x) = length c"
  by (simp add: chain_set_def)

lemma slot_id_div_mod:
  "snd r < N \<Longrightarrow> slot_id N r div N = fst r \<and> slot_id N r mod N = snd r"
  by (auto simp: slot_id_def)

lemma slot_id_inj: "snd r < N \<Longrightarrow> snd s < N \<Longrightarrow> slot_id N r = slot_id N s \<Longrightarrow> r = s"
  by (metis prod_eqI slot_id_div_mod)

lemma chain_get_snd_less: "chain_wf N c \<Longrightarrow> chain_get c r = Some x \<Longrightarrow> snd r < N"
  by (auto simp: chain_get_def chain_wf_def split: if_splits)

lemma chain_ref_of_slot_id:
  "chain_wf N c \<Longrightarrow> chain_get c r = Some x \<Longrightarrow> chain_ref_of_id N c (slot_id N r) = Some r"
  using chain_get_snd_less [of N c r x]
  by (auto simp: chain_ref_of_id_def slot_id_div_mod chain_get_def split: if_splits)

lemma chain_ref_of_id_inj:
  "chain_ref_of_id N c i = Some r \<Longrightarrow> chain_ref_of_id N c j = Some r \<Longrightarrow> i = j"
  by (auto simp: chain_ref_of_id_def split: if_splits) (metis div_mod_decomp)

lemma chain_ref_of_id_get:
  "chain_wf N c \<Longrightarrow> 0 < N \<Longrightarrow> chain_ref_of_id N c i = Some r \<Longrightarrow>
     \<exists>x. chain_get c r = Some x \<and> slot_id N r = i"
  by (auto simp: chain_ref_of_id_def chain_get_def chain_wf_def slot_id_def split: if_splits)

section \<open>The contract\<close>

locale slot_table =
  fixes free :: "'a \<Rightarrow> bool"
    and zero :: 'a
    and N :: nat
  assumes zero_free: "free zero"
    and N_pos: "0 < N"
begin

lemma walk_slot_free:
  "chain_walk free zero N c = (c', r) \<Longrightarrow> \<exists>x. chain_get c' r = Some x \<and> free x"
  using zero_free N_pos
  by (auto simp: chain_walk_def chain_get_def split: option.splits dest: chain_find_Some)
     (auto simp: chain_get_def dest!: chain_find_Some split: if_splits)

lemma walk_wf: "chain_wf N c \<Longrightarrow> chain_walk free zero N c = (c', r) \<Longrightarrow> chain_wf N c'"
  by (auto simp: chain_walk_def chain_wf_def split: option.splits)

lemma walk_keeps:
  "chain_walk free zero N c = (c', r) \<Longrightarrow> chain_get c s = Some x \<Longrightarrow> chain_get c' s = Some x"
  by (auto simp: chain_walk_def split: option.splits intro: chain_get_append_left)

lemma walk_adds_only_free:
  assumes "chain_walk free zero N c = (c', r)" and "chain_get c' s = Some x" and "\<not> free x"
  shows "chain_get c s = Some x"
proof (cases "chain_find free c")
  case None
  then have c': "c' = c @ [replicate N zero]" using assms(1) by (simp add: chain_walk_def)
  show ?thesis
  proof (cases "fst s < length c")
    case True
    then show ?thesis using assms(2) by (auto simp: c' chain_get_def nth_append split: if_splits)
  next
    case False
    then have "x = zero" using assms(2)
      by (auto simp: c' chain_get_def nth_append split: if_splits)
    then show ?thesis using assms(3) zero_free by simp
  qed
next
  case (Some a)
  then show ?thesis using assms by (simp add: chain_walk_def)
qed

lemma walk_slot_unused:
  "chain_walk free zero N c = (c', r) \<Longrightarrow> chain_get c s = Some x \<Longrightarrow> \<not> free x \<Longrightarrow> r \<noteq> s"
  using walk_slot_free walk_keeps by fastforce

lemma walk_first_free:
  assumes "chain_walk free zero N c = (c', r)" and "chain_get c s = Some x"
    and "fst s < fst r \<or> fst s = fst r \<and> snd s < snd r"
  shows "\<not> free x"
proof (cases "chain_find free c")
  case None
  then show ?thesis using assms(2) by (rule chain_find_None_get)
next
  case (Some a)
  then show ?thesis using assms chain_find_least [of free c r s x] by (auto simp: chain_walk_def)
qed

lemma walk_ref_of_id:
  assumes "chain_wf N c" and "chain_walk free zero N c = (c', r)"
  shows "chain_ref_of_id N (chain_set c' r x) (slot_id N r) = Some r"
proof -
  obtain y where y: "chain_get c' r = Some y" using walk_slot_free [OF assms(2)] by blast
  have "chain_wf N c'" using assms by (rule walk_wf)
  then show ?thesis using chain_ref_of_slot_id [of N "chain_set c' r x" r x] y by simp
qed

text \<open>Filling the slot that the walk found changes no other occupied slot.\<close>

lemma fill_frame:
  "chain_walk free zero N c = (c', r) \<Longrightarrow> chain_get c s = Some y \<Longrightarrow> \<not> free y \<Longrightarrow>
     chain_get (chain_set c' r x) s = Some y"
  using walk_slot_unused walk_keeps by (metis chain_get_set_other)

lemma fill_get:
  "chain_walk free zero N c = (c', r) \<Longrightarrow> chain_get (chain_set c' r x) r = Some x"
  using walk_slot_free by (metis chain_get_set_same)

lemma fill_occupied:
  assumes "chain_walk free zero N c = (c', r)" and "chain_get (chain_set c' r x) s = Some y"
    and "\<not> free y"
  shows "s = r \<and> y = x \<or> s \<noteq> r \<and> chain_get c s = Some y"
proof (cases "s = r")
  case True
  then show ?thesis using assms fill_get [OF assms(1), of x] by simp
next
  case False
  then have "chain_get c' s = Some y" using assms(2) by simp
  then show ?thesis using False walk_adds_only_free [OF assms(1)] assms(3) by blast
qed

end

end
