(* ===== verification/Device_Manager.thy ===== *)
theory Device_Manager
  imports Slot_Table Pci_Config
begin

text \<open>
  The device manager (\<open>Management/device.c\<close>) and the driver objects it connects devices to
  (\<open>sys/drv.c\<close>).  Devices live in the chained table of \<open>Slot_Table\<close> (100 per block); the driver
  table imported at boot and the driver objects are arrays with the same indices.  Arguments of the
  model stand for what other parts provide: the ports (\<open>io\<close>), the mapped PCI Express header of a
  device (\<open>pcie_header\<close>), the I/O mapping returned by \<open>AllocateIoMemory\<close>, the process created by
  \<open>KeCreateProcess\<close>, the current process and whether the pool can serve an allocation.
\<close>

definition MAX_DEVICE_INDEX :: nat where "MAX_DEVICE_INDEX = 100"
definition MAX_DRIVER_DEVICES :: nat where "MAX_DRIVER_DEVICES = 0x200"
definition DEVICE_LEGACY_IO_FLAG :: u64 where "DEVICE_LEGACY_IO_FLAG = push_bit 63 1"

definition DATA_UNMASK_SUBCLASS :: u32 where "DATA_UNMASK_SUBCLASS = 1"
definition DATA_UNMASK_VENDOR_ID :: u32 where "DATA_UNMASK_VENDOR_ID = 2"
definition DATA_UNMASK_CLASS :: u32 where "DATA_UNMASK_CLASS = 4"
definition DATA_UNMASK_PROGRAM_INTERFACE :: u32 where "DATA_UNMASK_PROGRAM_INTERFACE = 8"

definition DEVICE_SOURCE_PCI :: u32 where "DEVICE_SOURCE_PCI = 0"
definition DEVICE_SOURCE_SYSTEM_RESERVED :: u32 where "DEVICE_SOURCE_SYSTEM_RESERVED = 3"
definition DEVICE_SOURCE_PARENT_CONTROLLER :: u32 where "DEVICE_SOURCE_PARENT_CONTROLLER = 4"

definition DEVICE_SEARCH_BYCLASS :: u32 where "DEVICE_SEARCH_BYCLASS = 0"
definition DEVICE_SEARCH_BYID :: u32 where "DEVICE_SEARCH_BYID = 1"
definition DRIVER_STATUS_PRESENT :: u32 where "DRIVER_STATUS_PRESENT = 1"

text \<open>A \<open>RFDEVICE_OBJECT\<close> is a slot reference, a \<open>RFDRIVER_OBJECT\<close> an index of \<open>DriverObjects\<close>.\<close>

record DEVICE_OBJECT =
  dev_Present :: bool
  dev_Id :: u64
  ParentDevice :: "slot_ref option"
  DeviceMutex :: u64
  DeviceControl :: bool
  DeviceDisable :: bool
  AccessMethod :: bool
  DisplayName :: u64
  DeviceSource :: u32
  DeviceClass :: u32
  DeviceSubclass :: u32
  ProgramInterface :: u32
  DeviceType :: u32
  VendorId :: u64
  DeviceId :: u64
  DeviceConfiguration :: u64
  dev_Bus :: u8
  DeviceNumber :: u8
  dev_Function :: u8
  PciAccessType :: u8
  dev_Driver :: "nat option"
  ControlInterface :: u64

definition DEVICE_OBJECT_zero :: DEVICE_OBJECT where
  "DEVICE_OBJECT_zero =
     \<lparr> dev_Present = False, dev_Id = 0, ParentDevice = None, DeviceMutex = 0, DeviceControl = False,
       DeviceDisable = False, AccessMethod = False, DisplayName = 0, DeviceSource = 0, DeviceClass = 0,
       DeviceSubclass = 0, ProgramInterface = 0, DeviceType = 0, VendorId = 0, DeviceId = 0,
       DeviceConfiguration = 0, dev_Bus = 0, DeviceNumber = 0, dev_Function = 0, PciAccessType = 0,
       dev_Driver = None, ControlInterface = 0 \<rparr>"

record DRIVER_IDENTIFICATION_DATA =
  drv_Present :: bool
  drv_Enabled :: bool
  DeviceSearchType :: u32
  DataUnmask :: u32
  id_DeviceClass :: u32
  id_DeviceSubclass :: u32
  id_ProgramInterface :: u32
  id_VendorId :: u64
  id_DeviceId :: u64
  id_DeviceSource :: u32

record DRIVER_OBJECT =
  drv_Status :: u32
  DriverId :: u64
  drv_Process :: u64
  MajorKernelVersion :: u32
  MinorKernelVersion :: u32
  MajorOsVersion :: u32
  MinorOsVersion :: u32
  DriverIdentificationCopy :: DRIVER_IDENTIFICATION_DATA
  drv_NumDevices :: u32
  drv_Devices :: "slot_ref option list"

record PCI_CONFIGURATION_HEADER =
  ph_VendorId :: u16
  ph_DeviceId :: u16
  ph_ProgramInterface :: u8
  ph_DeviceSubclass :: u8
  ph_DeviceClass :: u8

text \<open>
  The device management table, the driver table and the driver objects.  \<open>dl_Index\<close> holds the
  \<open>Index\<close> field of each block of the device list.
\<close>

record DEVICE_STATE =
  NumDevices :: u64
  DeviceList :: "DEVICE_OBJECT chain"
  dl_Index :: "u64 list"
  Drivers :: "DRIVER_IDENTIFICATION_DATA list"
  DriverObjects :: "DRIVER_OBJECT list"

record 's device_env =
  env_io :: "'s port_io"
  env_pcie_header :: "u64 \<Rightarrow> PCI_CONFIGURATION_HEADER"
  env_AllocateIoMemory :: "u64 \<Rightarrow> u64"
  env_KeCreateProcess :: "nat \<Rightarrow> u64"
  env_OsVersion :: "u32 \<times> u32"
  env_PoolOk :: bool

section \<open>Drivers\<close>

definition QueryDriverById :: "DEVICE_STATE \<Rightarrow> nat \<Rightarrow> nat option" where
  "QueryDriverById st i =
     (if i \<ge> length (Drivers st) then None
      else if drv_Status (DriverObjects st ! i) AND 1 \<noteq> 0 then Some i else None)"

definition LoadDriverObject :: "'s device_env \<Rightarrow> DEVICE_STATE \<Rightarrow> nat \<Rightarrow> (DEVICE_STATE \<times> nat option) outcome" where
  "LoadDriverObject env st i =
     (if i \<ge> length (Drivers st) then Inr (st, None) else
      let ident = Drivers st ! i in
      if \<not> drv_Present ident \<or> \<not> drv_Enabled ident then Inr (st, None) else
      let drv = DriverObjects st ! i in
      if drv_Status drv AND DRIVER_STATUS_PRESENT \<noteq> 0 then Inr (st, Some i) else
      let p = env_KeCreateProcess env i;
          drv' = drv\<lparr> drv_Status := drv_Status drv OR DRIVER_STATUS_PRESENT,
                      DriverIdentificationCopy := ident, DriverId := of_nat i,
                      MajorKernelVersion := 1, MinorKernelVersion := 1,
                      MajorOsVersion := fst (env_OsVersion env), MinorOsVersion := snd (env_OsVersion env),
                      drv_Process := p \<rparr>
      in if p = 0 then Inl SOD
         else Inr (st\<lparr> DriverObjects := (DriverObjects st)[i := drv'] \<rparr>, Some i))"

definition driver_matches :: "DEVICE_OBJECT \<Rightarrow> DRIVER_IDENTIFICATION_DATA \<Rightarrow> bool" where
  "driver_matches dev d \<longleftrightarrow>
     drv_Present d \<and> drv_Enabled d \<and> id_DeviceSource d = DeviceSource dev \<and>
     (if DeviceSearchType d = DEVICE_SEARCH_BYCLASS then
        \<not> (DeviceClass dev \<noteq> id_DeviceClass d) \<and>
        \<not> (DataUnmask d AND DATA_UNMASK_SUBCLASS \<noteq> 0 \<and> DeviceSubclass dev \<noteq> id_DeviceSubclass d) \<and>
        \<not> (DataUnmask d AND DATA_UNMASK_PROGRAM_INTERFACE \<noteq> 0 \<and>
            ProgramInterface dev \<noteq> id_ProgramInterface d) \<and>
        \<not> (DataUnmask d AND DATA_UNMASK_VENDOR_ID \<noteq> 0 \<and> VendorId dev \<noteq> id_VendorId d)
      else if DeviceSearchType d = DEVICE_SEARCH_BYID then
        \<not> (DeviceId dev \<noteq> id_DeviceId d \<or> VendorId dev \<noteq> id_VendorId d) \<and>
        \<not> (DataUnmask d AND DATA_UNMASK_CLASS \<noteq> 0 \<and> id_DeviceClass d \<noteq> DeviceClass dev) \<and>
        \<not> (DataUnmask d AND DATA_UNMASK_SUBCLASS \<noteq> 0 \<and> id_DeviceSubclass d \<noteq> DeviceSubclass dev) \<and>
        \<not> (DataUnmask d AND DATA_UNMASK_PROGRAM_INTERFACE \<noteq> 0 \<and>
            id_ProgramInterface d \<noteq> ProgramInterface dev)
      else True)"

definition FindDeviceDriver :: "'s device_env \<Rightarrow> DEVICE_STATE \<Rightarrow> DEVICE_OBJECT \<Rightarrow>
    (DEVICE_STATE \<times> nat option) outcome" where
  "FindDeviceDriver env st dev =
     (case first_index (driver_matches dev) (Drivers st) of
        None \<Rightarrow> Inr (st, None)
      | Some i \<Rightarrow>
          (case QueryDriverById st i of
             Some d \<Rightarrow> Inr (st, Some d)
           | None \<Rightarrow> andThen (LoadDriverObject env st i) (\<lambda>(st', r).
                      case r of None \<Rightarrow> Inl SOD | Some d \<Rightarrow> Inr (st', Some d))))"

section \<open>Devices\<close>

definition ValidateDevice :: "DEVICE_STATE \<Rightarrow> slot_ref option \<Rightarrow> bool outcome" where
  "ValidateDevice st Device =
     (case Device of None \<Rightarrow> Inr False
      | Some r \<Rightarrow>
          (case chain_get (DeviceList st) r of None \<Rightarrow> Inl OutOfBounds
           | Some dev \<Rightarrow>
               if \<not> dev_Present dev then Inr False
               else Inr (chain_ref_of_id MAX_DEVICE_INDEX (DeviceList st) (unat (dev_Id dev)) = Some r)))"

definition ControlDevice :: "DEVICE_STATE \<Rightarrow> nat option \<Rightarrow> slot_ref \<Rightarrow> (DEVICE_STATE \<times> bool) outcome" where
  "ControlDevice st Driver r =
     (case chain_get (DeviceList st) r of None \<Rightarrow> Inl OutOfBounds
      | Some dev \<Rightarrow>
          andThen (SpinLockSyncBitTestAndSet (DeviceMutex dev) 0) (\<lambda>mx.
          case Driver of None \<Rightarrow> Inl NullDeref
          | Some d \<Rightarrow>
              if \<not> d < length (DriverObjects st) then Inl OutOfBounds else
              let drv = DriverObjects st ! d in
              if unat (drv_NumDevices drv) = MAX_DRIVER_DEVICES \<or> DeviceControl dev then
                Inr (st\<lparr> DeviceList := chain_set (DeviceList st) r
                          (dev\<lparr> DeviceMutex := BitRelease mx 0 \<rparr>) \<rparr>, False)
              else
                let devs = (case first_index (\<lambda>p. p = None) (drv_Devices drv) of
                              Some i \<Rightarrow> (drv_Devices drv)[i := Some r] | None \<Rightarrow> drv_Devices drv);
                    drv' = drv\<lparr> drv_Devices := devs, drv_NumDevices := drv_NumDevices drv + 1 \<rparr>;
                    dev' = dev\<lparr> DeviceControl := True, dev_Driver := Some d,
                               DeviceMutex := BitRelease mx 0 \<rparr>
                in Inr (st\<lparr> DeviceList := chain_set (DeviceList st) r dev',
                           DriverObjects := (DriverObjects st)[d := drv'] \<rparr>, True)))"

definition device_pci_legacy :: "'s port_io \<Rightarrow> u64 \<Rightarrow> DEVICE_OBJECT \<Rightarrow> 's \<Rightarrow> DEVICE_OBJECT \<times> 's" where
  "device_pci_legacy io cfg dev s =
     (let b = ucast (drop_bit 16 cfg) :: u8; n = ucast (drop_bit 8 cfg) :: u8; f = ucast cfg :: u8;
          (cl, s1) = IoPciRead8 io b n f 11 s;
          (sc, s2) = IoPciRead8 io b n f 10 s1;
          (pi, s3) = IoPciRead8 io b n f 9 s2;
          (vi, s4) = IoPciRead16 io b n f 0 s3;
          (di, s5) = IoPciRead16 io b n f 2 s4
      in (dev\<lparr> dev_Bus := b, DeviceNumber := n, dev_Function := f, DeviceClass := ucast cl,
              DeviceSubclass := ucast sc, ProgramInterface := ucast pi, VendorId := ucast vi,
              DeviceId := ucast di, PciAccessType := 1 \<rparr>, s5))"

definition device_pcie :: "'s device_env \<Rightarrow> u64 \<Rightarrow> DEVICE_OBJECT \<Rightarrow> DEVICE_OBJECT outcome" where
  "device_pcie env cfg dev =
     (let hdr = env_pcie_header env cfg;
          raw = drop_bit 12 cfg;
          iomem = env_AllocateIoMemory env cfg
      in if iomem = 0 then Inl SOD
         else Inr (dev\<lparr> dev_Function := ucast (raw AND 7), DeviceNumber := ucast (drop_bit 3 raw AND 31),
                       dev_Bus := ucast (drop_bit 8 raw), DeviceClass := ucast (ph_DeviceClass hdr),
                       DeviceSubclass := ucast (ph_DeviceSubclass hdr),
                       ProgramInterface := ucast (ph_ProgramInterface hdr),
                       VendorId := ucast (ph_VendorId hdr), DeviceId := ucast (ph_DeviceId hdr),
                       DeviceConfiguration := iomem \<rparr>))"

definition device_configure :: "'s device_env \<Rightarrow> u32 \<Rightarrow> u64 \<Rightarrow> DEVICE_OBJECT \<Rightarrow> 's \<Rightarrow> (DEVICE_OBJECT \<times> 's) outcome" where
  "device_configure env Source cfg dev s =
     (if Source = DEVICE_SOURCE_PCI then
        if cfg AND DEVICE_LEGACY_IO_FLAG \<noteq> 0 then Inr (device_pci_legacy (env_io env) cfg dev s)
        else andThen (device_pcie env cfg dev) (\<lambda>dev1. Inr (dev1, s))
      else Inr (dev, s))"

definition device_fresh :: "slot_ref \<Rightarrow> slot_ref option \<Rightarrow> u32 \<Rightarrow> u32 \<Rightarrow> u32 \<Rightarrow> u32 \<Rightarrow> u32 \<Rightarrow> u64 \<Rightarrow> DEVICE_OBJECT" where
  "device_fresh r Parent Source Type Class Subclass Vendor cfg =
     DEVICE_OBJECT_zero\<lparr> dev_Present := True, dev_Id := of_nat (slot_id MAX_DEVICE_INDEX r),
       DeviceSource := Source, ParentDevice := Parent, DeviceConfiguration := cfg, DeviceType := Type,
       DeviceClass := Class, DeviceSubclass := Subclass, VendorId := ucast Vendor, AccessMethod := True \<rparr>"

text \<open>The tail of \<open>InstallDevice\<close>: connect the device in slot \<open>r\<close> to its driver and count it.\<close>

definition InstallDevice_connect ::
  "'s device_env \<Rightarrow> DEVICE_STATE \<Rightarrow> slot_ref \<Rightarrow> slot_ref option \<Rightarrow> u32 \<Rightarrow> DEVICE_OBJECT \<Rightarrow>
   DEVICE_STATE outcome" where
  "InstallDevice_connect env st r Parent Source dev =
     andThen
       (if Source \<noteq> DEVICE_SOURCE_PARENT_CONTROLLER \<and> Source \<noteq> DEVICE_SOURCE_SYSTEM_RESERVED then
          andThen (FindDeviceDriver env st dev) (\<lambda>(st1, Driver).
          case Driver of None \<Rightarrow> Inr st1
          | Some d \<Rightarrow> andThen (ControlDevice st1 (Some d) r) (\<lambda>(st2, ok).
                        if ok then Inr st2 else Inl SOD))
        else
          (case Parent of None \<Rightarrow> Inr st
           | Some p \<Rightarrow>
               (case chain_get (DeviceList st) p of None \<Rightarrow> Inl OutOfBounds
                | Some par \<Rightarrow> andThen (ControlDevice st (dev_Driver par) r) (\<lambda>(st2, ok).
                               if ok then Inr st2 else Inl SOD))))
       (\<lambda>st3. Inr (st3\<lparr> NumDevices := NumDevices st3 + 1 \<rparr>))"

definition InstallDevice ::
  "'s device_env \<Rightarrow> DEVICE_STATE \<Rightarrow> 's \<Rightarrow> slot_ref option \<Rightarrow> u32 \<Rightarrow> u32 \<Rightarrow> u32 \<Rightarrow> u32 \<Rightarrow> u32 \<Rightarrow> u64 \<Rightarrow>
   (DEVICE_STATE \<times> 's \<times> slot_ref option) outcome" where
  "InstallDevice env st s Parent Source Type Class Subclass Vendor cfg =
     andThen (if Parent = None then Inr True else ValidateDevice st Parent) (\<lambda>valid.
     if \<not> valid then Inr (st, s, None) else
     if chain_find (\<lambda>d. \<not> dev_Present d) (DeviceList st) = None \<and> \<not> env_PoolOk env then Inl NullDeref else
     case chain_walk (\<lambda>d. \<not> dev_Present d) DEVICE_OBJECT_zero MAX_DEVICE_INDEX (DeviceList st) of
       (devs, r) \<Rightarrow>
         let idx = (if length devs = length (DeviceList st) then dl_Index st else dl_Index st @ [0]);
             dev = device_fresh r Parent Source Type Class Subclass Vendor cfg
         in andThen (device_configure env Source cfg dev s) (\<lambda>(dev2, s2).
            let st1 = st\<lparr> DeviceList := chain_set devs r dev2, dl_Index := idx \<rparr>
            in andThen (InstallDevice_connect env st1 r Parent Source dev2) (\<lambda>st2.
               Inr (st2, s2, Some r))))"

section \<open>Operations on installed devices\<close>

definition DisableDevice :: "DEVICE_STATE \<Rightarrow> slot_ref option \<Rightarrow> bool" where
  "DisableDevice st Device = (Device \<noteq> None)"

definition EnableDevice :: "DEVICE_STATE \<Rightarrow> slot_ref option \<Rightarrow> bool" where
  "EnableDevice st Device = (Device \<noteq> None)"

definition QueryDeviceInterface :: "DEVICE_STATE \<Rightarrow> slot_ref option \<Rightarrow> u64 outcome" where
  "QueryDeviceInterface st Device =
     andThen (ValidateDevice st Device) (\<lambda>ok.
     case Device of None \<Rightarrow> Inr 0
     | Some r \<Rightarrow> if \<not> ok then Inr 0
                else (case chain_get (DeviceList st) r of None \<Rightarrow> Inl OutOfBounds
                      | Some dev \<Rightarrow> Inr (ControlInterface dev)))"

text \<open>The guard shared by the two setters: a valid device whose driver's process is the caller.\<close>

definition controls_device :: "DEVICE_STATE \<Rightarrow> u64 \<Rightarrow> slot_ref option \<Rightarrow> DEVICE_OBJECT option outcome" where
  "controls_device st Process Device =
     andThen (ValidateDevice st Device) (\<lambda>ok.
     case Device of None \<Rightarrow> Inr None
     | Some r \<Rightarrow>
         if \<not> ok then Inr None
         else (case chain_get (DeviceList st) r of None \<Rightarrow> Inl OutOfBounds
               | Some dev \<Rightarrow>
                   if \<not> DeviceControl dev then Inr None
                   else (case dev_Driver dev of None \<Rightarrow> Inl NullDeref
                         | Some d \<Rightarrow>
                             if \<not> d < length (DriverObjects st) then Inl OutOfBounds
                             else if drv_Process (DriverObjects st ! d) \<noteq> Process then Inr None
                             else Inr (Some dev))))"

definition SetDeviceInterface :: "DEVICE_STATE \<Rightarrow> u64 \<Rightarrow> slot_ref option \<Rightarrow> u64 \<Rightarrow> (DEVICE_STATE \<times> bool) outcome" where
  "SetDeviceInterface st Process Device DeviceInterface =
     (if DeviceInterface = 0 then andThen (ValidateDevice st Device) (\<lambda>_. Inr (st, False)) else
      andThen (controls_device st Process Device) (\<lambda>r.
      case (Device, r) of
        (Some p, Some dev) \<Rightarrow>
          Inr (st\<lparr> DeviceList := chain_set (DeviceList st) p (dev\<lparr> ControlInterface := DeviceInterface \<rparr>) \<rparr>, True)
      | _ \<Rightarrow> Inr (st, False)))"

definition SetDeviceDisplayName :: "DEVICE_STATE \<Rightarrow> u64 \<Rightarrow> slot_ref option \<Rightarrow> u64 \<Rightarrow> (DEVICE_STATE \<times> bool) outcome" where
  "SetDeviceDisplayName st Process Device DeviceName =
     andThen (controls_device st Process Device) (\<lambda>r.
     case (Device, r) of
       (Some p, Some dev) \<Rightarrow>
         Inr (st\<lparr> DeviceList := chain_set (DeviceList st) p (dev\<lparr> DisplayName := DeviceName \<rparr>) \<rparr>, True)
     | _ \<Rightarrow> Inr (st, False))"

record DEVICE_ITERATOR =
  DeviceIndex :: u64
  di_Present :: bool
  Finish :: bool
  di_List :: nat

definition DEVICE_ITERATOR_zero :: DEVICE_ITERATOR where
  "DEVICE_ITERATOR_zero = \<lparr> DeviceIndex = 0, di_Present = False, Finish = False, di_List = 0 \<rparr>"

definition StartDeviceIterator :: "DEVICE_ITERATOR option \<Rightarrow> DEVICE_ITERATOR option \<times> bool" where
  "StartDeviceIterator Iterator =
     (case Iterator of None \<Rightarrow> (None, False)
      | Some it \<Rightarrow> if di_Present it then (Some it, False)
                  else (Some (DEVICE_ITERATOR_zero\<lparr> di_Present := True \<rparr>), True))"

definition EndDeviceIterator :: "DEVICE_ITERATOR option \<Rightarrow> DEVICE_ITERATOR option \<times> bool" where
  "EndDeviceIterator Iterator =
     (case Iterator of None \<Rightarrow> (None, False)
      | Some it \<Rightarrow> if \<not> di_Present it then (Some it, False) else (Some DEVICE_ITERATOR_zero, True))"

fun GetNextDevice_loop :: "nat \<Rightarrow> u64 \<Rightarrow> u64 list \<Rightarrow> (nat \<times> u64 \<times> bool) \<times> slot_ref option" where
  "GetNextDevice_loop k di [] = ((k, di, True), None)"
| "GetNextDevice_loop k di (ix # ixs) =
     (if ix > di then ((k, di + 1, False), Some (k, unat di))
      else if ixs = [] then ((k, di, True), None)
      else GetNextDevice_loop (Suc k) 0 ixs)"

definition GetNextDevice :: "DEVICE_STATE \<Rightarrow> DEVICE_ITERATOR option \<Rightarrow> DEVICE_ITERATOR option \<times> slot_ref option" where
  "GetNextDevice st Iterator =
     (case Iterator of None \<Rightarrow> (None, None)
      | Some it \<Rightarrow>
          if \<not> di_Present it \<or> Finish it then (Some it, None)
          else (case GetNextDevice_loop (di_List it) (DeviceIndex it) (drop (di_List it) (dl_Index st)) of
                  ((k, di, fin), r) \<Rightarrow>
                    (Some (it\<lparr> di_List := k, DeviceIndex := di, Finish := fin \<rparr>), r)))"

section \<open>The device table is a slot table\<close>

lemmas device_consts [simp] = MAX_DEVICE_INDEX_def MAX_DRIVER_DEVICES_def

interpretation devices: slot_table "\<lambda>d. \<not> dev_Present d" DEVICE_OBJECT_zero MAX_DEVICE_INDEX
  by unfold_locales (simp_all add: DEVICE_OBJECT_zero_def)

section \<open>The invariant\<close>

definition driver_wf :: "DRIVER_OBJECT \<Rightarrow> bool" where
  "driver_wf d \<longleftrightarrow> length (drv_Devices d) = MAX_DRIVER_DEVICES \<and>
     unat (drv_NumDevices d) = length (filter (\<lambda>p. p \<noteq> None) (drv_Devices d))"

text \<open>
  A present device carries the id of its slot and a free mutex; it is controlled exactly when it has a
  driver, and that driver lists it.
\<close>

definition device_wf :: "DEVICE_STATE \<Rightarrow> slot_ref \<Rightarrow> DEVICE_OBJECT \<Rightarrow> bool" where
  "device_wf st r dev \<longleftrightarrow>
     dev_Id dev = of_nat (slot_id MAX_DEVICE_INDEX r) \<and> \<not> bit (DeviceMutex dev) 0 \<and>
     (DeviceControl dev \<longleftrightarrow> dev_Driver dev \<noteq> None) \<and>
     (\<forall>d. dev_Driver dev = Some d \<longrightarrow>
        d < length (DriverObjects st) \<and> Some r \<in> set (drv_Devices (DriverObjects st ! d)))"

definition dm_inv :: "DEVICE_STATE \<Rightarrow> bool" where
  "dm_inv st \<longleftrightarrow> chain_wf MAX_DEVICE_INDEX (DeviceList st) \<and>
     dl_Index st = replicate (length (DeviceList st)) 0 \<and>
     length (DriverObjects st) = length (Drivers st) \<and>
     (\<forall>d \<in> set (DriverObjects st). driver_wf d) \<and>
     (\<forall>r dev. chain_get (DeviceList st) r = Some dev \<and> dev_Present dev \<longrightarrow> device_wf st r dev)"

text \<open>What a step that works on slot \<open>r\<close> leaves alone.\<close>

definition touches_only :: "slot_ref \<Rightarrow> DEVICE_STATE \<Rightarrow> DEVICE_STATE \<Rightarrow> bool" where
  "touches_only r st st' \<longleftrightarrow>
     (\<forall>q. q \<noteq> r \<longrightarrow> chain_get (DeviceList st') q = chain_get (DeviceList st) q) \<and>
     length (DeviceList st') = length (DeviceList st) \<and>
     dl_Index st' = dl_Index st \<and> Drivers st' = Drivers st \<and> NumDevices st' = NumDevices st"

definition same_device :: "DEVICE_OBJECT \<Rightarrow> DEVICE_OBJECT \<Rightarrow> bool" where
  "same_device a b \<longleftrightarrow> b\<lparr> DeviceControl := DeviceControl a, dev_Driver := dev_Driver a,
     DeviceMutex := DeviceMutex a \<rparr> = a"

lemma driver_wf_add:
  assumes "driver_wf d" and "unat (drv_NumDevices d) \<noteq> 512"
    and "devs = (case first_index (\<lambda>p. p = None) (drv_Devices d) of
            Some i \<Rightarrow> (drv_Devices d)[i := Some r] | None \<Rightarrow> drv_Devices d)"
  shows "driver_wf (d\<lparr> drv_Devices := devs, drv_NumDevices := drv_NumDevices d + 1 \<rparr>) \<and> Some r \<in> set devs \<and>
    (\<forall>q. Some q \<in> set (drv_Devices d) \<longrightarrow> Some q \<in> set devs)"
proof -
  let ?ds = "drv_Devices d"
  have len: "length ?ds = 512" and cnt: "unat (drv_NumDevices d) = length (filter (\<lambda>p. p \<noteq> None) ?ds)"
    using assms(1) by (simp_all add: driver_wf_def)
  have "\<exists>p \<in> set ?ds. p = None"
  proof (rule ccontr)
    assume "\<not> (\<exists>p \<in> set ?ds. p = None)"
    then have "\<forall>p \<in> set ?ds. p \<noteq> None" by metis
    then have "filter (\<lambda>p. p \<noteq> None) ?ds = ?ds" by (rule filter_True)
    then have "unat (drv_NumDevices d) = 512" using cnt len by argo
    then show False using assms(2) by simp
  qed
  then obtain i where i: "first_index (\<lambda>p. p = None) ?ds = Some i"
    using first_index_exists [of _ ?ds "\<lambda>p. p = None"] by blast
  then have il: "i < length ?ds" "?ds ! i = None" by (auto dest: first_index_Some)
  have "length (filter (\<lambda>p. p \<noteq> None) (?ds[i := Some r])) = Suc (length (filter (\<lambda>p. p \<noteq> None) ?ds))"
    using il by (intro length_filter_upd) auto
  moreover have "unat (drv_NumDevices d + 1) = Suc (unat (drv_NumDevices d))"
    using cnt length_filter_le [of "\<lambda>p. p \<noteq> None" ?ds] len by (intro unat_plus_1) simp
  moreover have "Some q \<in> set (?ds[i := Some r])" if m: "Some q \<in> set ?ds" for q
  proof -
    obtain j where j: "j < length ?ds" "?ds ! j = Some q" using m by (auto simp: in_set_conv_nth)
    then have "j \<noteq> i" using il by auto
    then show ?thesis using j by (metis length_list_update nth_list_update_neq nth_mem)
  qed
  ultimately show ?thesis
    using i il len cnt assms(3) by (auto simp: driver_wf_def set_update_memI)
qed

lemma DriverObjects_upd_wf:
  "\<forall>d \<in> set ds. driver_wf d \<Longrightarrow> driver_wf d' \<Longrightarrow> \<forall>d \<in> set (ds[i := d']). driver_wf d"
  by (auto dest!: set_update_subset_insert [THEN subsetD])

lemma same_device_fields:
  "same_device a b \<Longrightarrow> dev_Present b = dev_Present a \<and> dev_Id b = dev_Id a"
  by (cases a; cases b) (simp add: same_device_def)

lemma dm_inv_device:
  "dm_inv st \<Longrightarrow> chain_get (DeviceList st) r = Some dev \<Longrightarrow> dev_Present dev \<Longrightarrow> device_wf st r dev"
  unfolding dm_inv_def by blast

lemma dm_inv_driver: "dm_inv st \<Longrightarrow> d < length (DriverObjects st) \<Longrightarrow> driver_wf (DriverObjects st ! d)"
  unfolding dm_inv_def by (meson nth_mem)

lemma dm_invI:
  assumes "chain_wf MAX_DEVICE_INDEX (DeviceList st)" and "dl_Index st = replicate (length (DeviceList st)) 0"
    and "length (DriverObjects st) = length (Drivers st)" and "\<forall>d \<in> set (DriverObjects st). driver_wf d"
    and "\<And>r dev. chain_get (DeviceList st) r = Some dev \<Longrightarrow> dev_Present dev \<Longrightarrow> device_wf st r dev"
  shows "dm_inv st"
  unfolding dm_inv_def using assms by blast

lemma dm_inv_shape:
  assumes "dm_inv st"
  shows "chain_wf MAX_DEVICE_INDEX (DeviceList st)" and "dl_Index st = replicate (length (DeviceList st)) 0"
    and "length (DriverObjects st) = length (Drivers st)" and "\<forall>d \<in> set (DriverObjects st). driver_wf d"
  using assms unfolding dm_inv_def by blast+

lemma ControlDevice_ok:
  assumes inv: "dm_inv st" and c: "ControlDevice st (Some d) r = Inr (st', True)"
    and dev: "chain_get (DeviceList st) r = Some dev" "dev_Present dev"
  shows "dm_inv st'" and "touches_only r st st'"
    and "\<exists>dev'. chain_get (DeviceList st') r = Some dev' \<and> same_device dev dev' \<and>
           dev_Driver dev' = Some d \<and> DeviceControl dev'"
proof -
  let ?drv = "DriverObjects st ! d"
  define devs where "devs = (case first_index (\<lambda>p. p = None) (drv_Devices ?drv) of
      Some i \<Rightarrow> (drv_Devices ?drv)[i := Some r] | None \<Rightarrow> drv_Devices ?drv)"
  define drv' where "drv' = ?drv\<lparr> drv_Devices := devs, drv_NumDevices := drv_NumDevices ?drv + 1 \<rparr>"
  define dev' where "dev' = dev\<lparr> DeviceControl := True, dev_Driver := Some d \<rparr>"
  have wf: "device_wf st r dev" using inv dev by (rule dm_inv_device)
  then have mx: "\<not> bit (DeviceMutex dev) 0" by (simp add: device_wf_def)
  have upd: "dev\<lparr> DeviceControl := True, dev_Driver := Some d, DeviceMutex := DeviceMutex dev \<rparr> = dev'"
    by (simp add: dev'_def)
  have d: "d < length (DriverObjects st)" and n: "unat (drv_NumDevices ?drv) \<noteq> 512"
    using c dev by (auto simp: ControlDevice_def spin_free mx split: if_splits)
  have st': "st' = st\<lparr> DeviceList := chain_set (DeviceList st) r dev',
      DriverObjects := (DriverObjects st)[d := drv'] \<rparr>"
    using c dev d by (auto simp: ControlDevice_def spin_free mx BitRelease_set_bit Let_def upd
        devs_def [symmetric] drv'_def [symmetric] split: if_splits)
  have "driver_wf ?drv" using inv d by (rule dm_inv_driver)
  note add = driver_wf_add [OF this n devs_def]
  have dw: "driver_wf drv'" using add by (simp add: drv'_def)
  have keep: "device_wf st' q x" if "device_wf st q x" for q x
    using that add d by (auto simp: device_wf_def st' drv'_def nth_list_update)
  have new: "device_wf st' r dev'"
    using wf add d by (auto simp: device_wf_def st' drv'_def dev'_def)
  have "device_wf st' q x" if "chain_get (DeviceList st') q = Some x" "dev_Present x" for q x
  proof (cases "q = r")
    case True
    then have "x = dev'" using that(1) dev(1) by (simp add: st')
    then show ?thesis using new True by simp
  next
    case False
    then have "chain_get (DeviceList st) q = Some x" using that(1) by (simp add: st')
    then show ?thesis using dm_inv_device [OF inv _ that(2)] by (intro keep) simp
  qed
  moreover have "\<forall>x \<in> set (DriverObjects st'). driver_wf x"
    using DriverObjects_upd_wf [OF dm_inv_shape(4) [OF inv] dw] by (simp add: st')
  ultimately show "dm_inv st'" using dm_inv_shape(1-3) [OF inv]
    by (intro dm_invI) (simp_all add: st')
  show "touches_only r st st'" by (simp add: touches_only_def st')
  show "\<exists>dev'. chain_get (DeviceList st') r = Some dev' \<and> same_device dev dev' \<and>
           dev_Driver dev' = Some d \<and> DeviceControl dev'"
    using dev(1) by (auto simp: st' dev'_def same_device_def)
qed

text \<open>Replacing a driver object by one with the same device list keeps the invariant.\<close>

lemma dm_inv_driver_upd:
  assumes inv: "dm_inv st" and i: "i < length (DriverObjects st)"
    and same: "drv_Devices drv' = drv_Devices (DriverObjects st ! i)"
      "drv_NumDevices drv' = drv_NumDevices (DriverObjects st ! i)"
  shows "dm_inv (st\<lparr> DriverObjects := (DriverObjects st)[i := drv'] \<rparr>)"
proof (rule dm_invI)
  let ?st = "st\<lparr> DriverObjects := (DriverObjects st)[i := drv'] \<rparr>"
  have "driver_wf drv'" using dm_inv_driver [OF inv i] same by (simp add: driver_wf_def)
  then show "\<forall>d \<in> set (DriverObjects ?st). driver_wf d"
    using DriverObjects_upd_wf [OF dm_inv_shape(4) [OF inv]] by simp
  show "device_wf ?st r dev" if "chain_get (DeviceList ?st) r = Some dev" "dev_Present dev" for r dev
    using dm_inv_device [OF inv, of r dev] that same i by (auto simp: device_wf_def nth_list_update)
qed (use dm_inv_shape [OF inv] in simp_all)

lemma LoadDriverObject_ok:
  assumes "dm_inv st" and "LoadDriverObject env st i = Inr (st', r)"
  shows "dm_inv st' \<and> touches_only q st st' \<and> DeviceList st' = DeviceList st"
  using assms dm_inv_shape(3) [OF assms(1)]
  by (auto simp: LoadDriverObject_def Let_def touches_only_def intro!: dm_inv_driver_upd split: if_splits)

lemma FindDeviceDriver_ok:
  assumes "dm_inv st" and "FindDeviceDriver env st dev = Inr (st', r)"
  shows "dm_inv st' \<and> touches_only q st st' \<and> DeviceList st' = DeviceList st"
proof -
  have refl: "touches_only q st st" by (simp add: touches_only_def)
  consider "st' = st" | i r' where "LoadDriverObject env st i = Inr (st', r')"
    using assms(2) by (auto simp: FindDeviceDriver_def andThen_Inr_iff split: option.splits)
  then show ?thesis using LoadDriverObject_ok [OF assms(1)] assms(1) refl by cases blast+
qed

lemma ControlDevice_null: "ControlDevice st None r \<noteq> Inr x"
  by (auto simp: ControlDevice_def andThen_def split: option.splits sum.splits)

lemma same_device_refl [simp]: "same_device d d"
  by (simp add: same_device_def)

lemma dm_inv_NumDevices [simp]: "dm_inv (st\<lparr> NumDevices := n \<rparr>) = dm_inv st"
  by (simp add: dm_inv_def device_wf_def)

lemma InstallDevice_connect_ok:
  assumes inv: "dm_inv st" and dev: "chain_get (DeviceList st) r = Some dev" "dev_Present dev"
    and c: "InstallDevice_connect env st r Parent Source d = Inr st'"
  shows "dm_inv st' \<and> (\<forall>q. q \<noteq> r \<longrightarrow> chain_get (DeviceList st') q = chain_get (DeviceList st) q) \<and>
    (\<exists>dev'. chain_get (DeviceList st') r = Some dev' \<and> same_device dev dev') \<and>
    NumDevices st' = NumDevices st + 1 \<and> length (DeviceList st') = length (DeviceList st)"
proof -
  let ?good = "\<lambda>t. dm_inv t \<and> touches_only r st t \<and>
    (\<exists>dev'. chain_get (DeviceList t) r = Some dev' \<and> same_device dev dev')"
  have here: "?good t" if "DeviceList t = DeviceList st" "dm_inv t" "touches_only r st t" for t
    using that dev by auto
  have ctl: "?good t2" if "?good t1" "DeviceList t1 = DeviceList st" "ControlDevice t1 (Some k) r = Inr (t2, True)" for t1 t2 k
    using ControlDevice_ok [of t1 k r t2 dev] that dev by (fastforce simp: touches_only_def)
  obtain t where t: "?good t" "st' = t\<lparr> NumDevices := NumDevices t + 1 \<rparr>"
  proof (cases "Source \<noteq> DEVICE_SOURCE_PARENT_CONTROLLER \<and> Source \<noteq> DEVICE_SOURCE_SYSTEM_RESERVED")
    case True
    then obtain t1 D where f: "FindDeviceDriver env st d = Inr (t1, D)"
      using c by (auto simp: InstallDevice_connect_def andThen_Inr_iff)
    note ok = FindDeviceDriver_ok [OF inv f, of r]
    show ?thesis
    proof (cases D)
      case None
      then show ?thesis using that [of t1] here ok c True f by (auto simp: InstallDevice_connect_def)
    next
      case (Some k)
      then obtain t2 where "ControlDevice t1 (Some k) r = Inr (t2, True)" "st' = t2\<lparr> NumDevices := NumDevices t2 + 1 \<rparr>"
        using c True f by (auto simp: InstallDevice_connect_def andThen_Inr_iff split: if_splits)
      then show ?thesis using that [of t2] ctl [of t1] here [of t1] ok by auto
    qed
  next
    case False
    have refl: "?good st" using inv dev by (auto simp: touches_only_def)
    show ?thesis
    proof (cases Parent)
      case None
      then show ?thesis using that [of st] refl c False by (auto simp: InstallDevice_connect_def)
    next
      case (Some p)
      then obtain par where par: "chain_get (DeviceList st) p = Some par"
        using c False by (auto simp: InstallDevice_connect_def andThen_Inr_iff split: option.splits)
      obtain t2 where "ControlDevice st (dev_Driver par) r = Inr (t2, True)"
        "st' = t2\<lparr> NumDevices := NumDevices t2 + 1 \<rparr>"
        using c False Some par by (auto simp: InstallDevice_connect_def andThen_Inr_iff split: if_splits)
      then show ?thesis using that [of t2] ctl [OF refl] ControlDevice_null [of st r]
        by (cases "dev_Driver par") auto
    qed
  qed
  then show ?thesis by (auto simp: touches_only_def)
qed

text \<open>A device as \<open>InstallDevice\<close> has prepared it before looking for a driver.\<close>

definition device_ready :: "slot_ref \<Rightarrow> DEVICE_OBJECT \<Rightarrow> bool" where
  "device_ready r dev \<longleftrightarrow> dev_Present dev \<and> dev_Id dev = of_nat (slot_id MAX_DEVICE_INDEX r) \<and>
     DeviceMutex dev = 0 \<and> \<not> DeviceControl dev \<and> dev_Driver dev = None"

lemma device_ready_init:
  "device_ready r (device_fresh r Parent Source Type Class Subclass Vendor cfg)"
  "device_ready r dev \<Longrightarrow> device_ready r (fst (device_pci_legacy io cfg dev s))"
  "device_ready r dev \<Longrightarrow> device_pcie env cfg dev = Inr dev' \<Longrightarrow> device_ready r dev'"
  by (auto simp: device_ready_def device_fresh_def DEVICE_OBJECT_zero_def device_pci_legacy_def
      device_pcie_def Let_def split_beta split: if_splits)

lemma device_configure_ready:
  "device_configure env Source cfg dev s = Inr (dev', s') \<Longrightarrow> device_ready r dev \<Longrightarrow> device_ready r dev'"
  using device_ready_init(2) [of r dev "env_io env" cfg s] device_ready_init(3) [of r dev env cfg]
  by (auto simp: device_configure_def andThen_Inr_iff split: if_splits)

lemma install_slot:
  assumes inv: "dm_inv st" and w: "chain_walk (\<lambda>d. \<not> dev_Present d) DEVICE_OBJECT_zero MAX_DEVICE_INDEX (DeviceList st) = (devs, r)"
    and rd: "device_ready r dev"
  shows "dm_inv (st\<lparr> DeviceList := chain_set devs r dev,
     dl_Index := (if length devs = length (DeviceList st) then dl_Index st else dl_Index st @ [0]) \<rparr>)"
    (is "dm_inv ?st")
proof (rule dm_invI)
  note sh = dm_inv_shape [OF inv]
  show "chain_wf MAX_DEVICE_INDEX (DeviceList ?st)" using devices.walk_wf [OF sh(1) w] by simp
  have "length devs = length (DeviceList st) \<or> length devs = Suc (length (DeviceList st))"
    using w by (auto simp: chain_walk_def split: option.splits)
  then show "dl_Index ?st = replicate (length (DeviceList ?st)) 0"
    using sh(2) by (auto simp: replicate_append_same)
  show "length (DriverObjects ?st) = length (Drivers ?st)" "\<forall>d \<in> set (DriverObjects ?st). driver_wf d"
    using sh by simp_all
  show "device_wf ?st q x" if "chain_get (DeviceList ?st) q = Some x" "dev_Present x" for q x
  proof -
    have "q = r \<and> x = dev \<or> q \<noteq> r \<and> chain_get (DeviceList st) q = Some x"
      using devices.fill_occupied [OF w, of dev q x] that by simp
    then show ?thesis
      using rd dm_inv_device [OF inv, of q x] that(2) by (auto simp: device_wf_def device_ready_def)
  qed
qed

text \<open>C10. A successful \<open>InstallDevice\<close> puts the device into a slot that was free, keeps the device table
  consistent (ids, mutexes, and the links between devices and drivers), makes the new device valid for
  \<open>ValidateDevice\<close>, and changes no other installed device.\<close>

theorem InstallDevice_installs:
  assumes inv: "dm_inv st" and small: "length (DeviceList st) < 2 ^ 56"
    and i: "InstallDevice env st s Parent Source Type Class Subclass Vendor cfg = Inr (st', s', Some r)"
  shows "dm_inv st' \<and> ValidateDevice st' (Some r) = Inr True \<and> NumDevices st' = NumDevices st + 1 \<and>
    (\<forall>dev. chain_get (DeviceList st) r = Some dev \<longrightarrow> \<not> dev_Present dev) \<and>
    (\<forall>q dev. chain_get (DeviceList st) q = Some dev \<and> dev_Present dev \<longrightarrow>
       chain_get (DeviceList st') q = Some dev)"
proof -
  obtain devs r' where w: "chain_walk (\<lambda>d. \<not> dev_Present d) DEVICE_OBJECT_zero MAX_DEVICE_INDEX (DeviceList st) = (devs, r')"
    by fastforce
  let ?st1 = "\<lambda>dev. st\<lparr> DeviceList := chain_set devs r' dev,
     dl_Index := (if length devs = length (DeviceList st) then dl_Index st else dl_Index st @ [0]) \<rparr>"
  let ?dev0 = "device_fresh r' Parent Source Type Class Subclass Vendor cfg"
  obtain dev s2 where cf: "device_configure env Source cfg ?dev0 s = Inr (dev, s2)" and
    c: "InstallDevice_connect env (?st1 dev) r' Parent Source dev = Inr st'" and r: "r = r'"
    using i by (auto simp: InstallDevice_def andThen_Inr_iff Let_def w simp del: device_consts
        split: if_splits prod.splits)
  have rd: "device_ready r' dev" using device_configure_ready [OF cf device_ready_init(1)] .
  have at: "chain_get (DeviceList (?st1 dev)) r = Some dev" using devices.fill_get [OF w] r by simp
  note ok = InstallDevice_connect_ok [OF install_slot [OF inv w rd] at [unfolded r] _ c]
  then obtain dev' where dev': "chain_get (DeviceList st') r = Some dev'" "same_device dev dev'"
    using rd r by (auto simp: device_ready_def)
  have inv': "dm_inv st'" using ok rd by (auto simp: device_ready_def)
  have p: "dev_Present dev'" "dev_Id dev' = of_nat (slot_id 100 r)"
    using same_device_fields [OF dev'(2)] rd r by (auto simp: device_ready_def)
  have wf': "chain_wf 100 (DeviceList st')" using dm_inv_shape(1) [OF inv'] by simp
  have len: "length (DeviceList st') \<le> Suc (length (DeviceList st))"
    using ok rd w by (auto simp: device_ready_def chain_walk_def split: option.splits)
  have "fst r < length (DeviceList st')" "snd r < 100"
    using dev'(1) chain_get_snd_less [OF wf' dev'(1)] by (auto simp: chain_get_def split: if_splits)
  then have "slot_id 100 r < 2 ^ 64" using len small by (simp add: slot_id_def)
  then have v: "ValidateDevice st' (Some r) = Inr True"
    using dev'(1) p chain_ref_of_slot_id [OF wf' dev'(1)] by (simp add: ValidateDevice_def)
  have free: "\<not> dev_Present x" if "chain_get (DeviceList st) r = Some x" for x
    using devices.walk_slot_unused [OF w that] r by auto
  have keep: "chain_get (DeviceList st') q = Some x" if "chain_get (DeviceList st) q = Some x" "dev_Present x" for q x
  proof -
    have "q \<noteq> r'" using free that r by auto
    moreover have "chain_get (DeviceList (?st1 dev)) q = Some x"
      using devices.fill_frame [OF w that(1), of dev] that(2) by simp
    ultimately show ?thesis using ok rd by (auto simp: device_ready_def)
  qed
  show ?thesis using inv' v free keep ok rd by (auto simp: device_ready_def)
qed

text \<open>Remark. \<open>FindDeviceDriver\<close> picks the first present and enabled driver whose identification matches the
  device and returns its object, loaded; it returns NULL only when no driver of the table matches.\<close>

theorem FindDeviceDriver_first_match:
  assumes inv: "dm_inv st" and f: "FindDeviceDriver env st dev = Inr (st', R)"
  shows "case R of
      None \<Rightarrow> st' = st \<and> (\<forall>d \<in> set (Drivers st). \<not> driver_matches dev d)
    | Some i \<Rightarrow> i < length (Drivers st) \<and> driver_matches dev (Drivers st ! i) \<and>
        (\<forall>j < i. \<not> driver_matches dev (Drivers st ! j)) \<and>
        drv_Status (DriverObjects st' ! i) AND DRIVER_STATUS_PRESENT \<noteq> 0"
proof (cases "first_index (driver_matches dev) (Drivers st)")
  case None
  then have "\<forall>d \<in> set (Drivers st). \<not> driver_matches dev d" by (simp only: first_index_None_iff)
  then show ?thesis using f None by (auto simp: FindDeviceDriver_def)
next
  case (Some i)
  note fi = first_index_Some [OF Some]
  have len: "i < length (DriverObjects st)" using dm_inv_shape(3) [OF inv] fi by simp
  have or1: "(x OR 1) AND 1 \<noteq> (0 :: u32)" for x
  proof -
    have "(x OR 1) AND 1 = (1 :: u32)" by (rule bit_word_eqI) (auto simp: bit_simps)
    then show ?thesis by simp
  qed
  show ?thesis
  proof (cases "QueryDriverById st i")
    case None
    then obtain y where y: "LoadDriverObject env st i = Inr (st', Some y)" "R = Some y"
      using f Some by (auto simp: FindDeviceDriver_def andThen_Inr_iff split: option.splits)
    then have "y = i \<and> drv_Status (DriverObjects st' ! i) AND 1 \<noteq> 0"
      using len or1 by (auto simp: LoadDriverObject_def Let_def DRIVER_STATUS_PRESENT_def split: if_splits)
    then show ?thesis using y fi by (simp add: DRIVER_STATUS_PRESENT_def)
  next
    case q: (Some y)
    then have "y = i" "drv_Status (DriverObjects st ! i) AND 1 \<noteq> 0"
      by (auto simp: QueryDriverById_def split: if_splits)
    moreover have "R = Some y" "st' = st" using f Some q by (auto simp: FindDeviceDriver_def)
    ultimately show ?thesis using fi by (simp add: DRIVER_STATUS_PRESENT_def)
  qed
qed

text \<open>Remark. Iterating over the devices yields nothing: no code increments the \<open>Index\<close> of a device list, so the
  first call of \<open>GetNextDevice\<close> walks to the end of the list, returns NULL and finishes the iterator,
  however many devices are installed.\<close>

theorem GetNextDevice_yields_nothing:
  assumes "dm_inv st" and "StartDeviceIterator (Some it0) = (Some it, True)"
  shows "\<exists>it'. GetNextDevice st (Some it) = (Some it', None) \<and> Finish it'"
proof -
  have loop: "\<exists>k' di'. GetNextDevice_loop k di (replicate n 0) = ((k', di', True), None)" for k di n
    by (induction n arbitrary: k di) auto
  have it: "it = DEVICE_ITERATOR_zero\<lparr> di_Present := True \<rparr>"
    using assms(2) by (auto simp: StartDeviceIterator_def split: if_splits)
  obtain k' di' where "GetNextDevice_loop 0 0 (dl_Index st) = ((k', di', True), None)"
    using loop [of 0 0 "length (DeviceList st)"] dm_inv_shape(2) [OF assms(1)] by auto
  then show ?thesis by (simp add: GetNextDevice_def it DEVICE_ITERATOR_zero_def)
qed

section \<open>Witnesses\<close>

definition sample_ident :: DRIVER_IDENTIFICATION_DATA where
  "sample_ident = \<lparr> drv_Present = True, drv_Enabled = True, DeviceSearchType = 0, DataUnmask = 1,
     id_DeviceClass = 1, id_DeviceSubclass = 6, id_ProgramInterface = 0, id_VendorId = 0, id_DeviceId = 0,
     id_DeviceSource = 2 \<rparr>"

definition sample_driver :: DRIVER_OBJECT where
  "sample_driver = \<lparr> drv_Status = 1, DriverId = 0, drv_Process = 0x1000, MajorKernelVersion = 1,
     MinorKernelVersion = 1, MajorOsVersion = 1, MinorOsVersion = 0, DriverIdentificationCopy = sample_ident,
     drv_NumDevices = 0, drv_Devices = replicate 512 None \<rparr>"

definition sample_devices :: DEVICE_STATE where
  "sample_devices = \<lparr> NumDevices = 0, DeviceList = [replicate 100 DEVICE_OBJECT_zero], dl_Index = [0],
     Drivers = [sample_ident], DriverObjects = [sample_driver] \<rparr>"

definition sample_env :: "(u32 \<times> (u32 \<Rightarrow> u32)) device_env" where
  "sample_env = \<lparr> env_io = sample_ports, env_pcie_header = (\<lambda>_. \<lparr> ph_VendorId = 0, ph_DeviceId = 0,
       ph_ProgramInterface = 0, ph_DeviceSubclass = 0, ph_DeviceClass = 0 \<rparr>),
     env_AllocateIoMemory = (\<lambda>a. a), env_KeCreateProcess = (\<lambda>_. 0x1000), env_OsVersion = (1, 0), env_PoolOk = True \<rparr>"

lemma sample_devices_inv: "dm_inv sample_devices"
  by (rule dm_invI)
     (auto simp: sample_devices_def chain_wf_def driver_wf_def sample_driver_def chain_get_def
       DEVICE_OBJECT_zero_def split: if_splits)

lemma sample_walk:
  "chain_walk (\<lambda>d. \<not> dev_Present d) DEVICE_OBJECT_zero 100 [replicate 100 DEVICE_OBJECT_zero] =
     ([replicate 100 DEVICE_OBJECT_zero], (0, 0))"
  by (simp add: chain_walk_def DEVICE_OBJECT_zero_def)

lemma sample_install:
  "\<exists>st'. InstallDevice sample_env sample_devices (0, \<lambda>_. 0) None 3 0 7 0 0 0 = Inr (st', (0, \<lambda>_. 0), Some (0, 0))"
  by (simp add: InstallDevice_def sample_devices_def sample_walk sample_env_def device_configure_def
      DEVICE_SOURCE_PCI_def InstallDevice_connect_def DEVICE_SOURCE_PARENT_CONTROLLER_def
      DEVICE_SOURCE_SYSTEM_RESERVED_def Let_def)

theorem InstallDevice_installs_witness:
  "\<exists>st'. InstallDevice sample_env sample_devices (0, \<lambda>_. 0) None 3 0 7 0 0 0 = Inr (st', (0, \<lambda>_. 0), Some (0, 0)) \<and>
     ValidateDevice st' (Some (0, 0)) = Inr True"
proof -
  obtain st' where i: "InstallDevice sample_env sample_devices (0, \<lambda>_. 0) None 3 0 7 0 0 0 = Inr (st', (0, \<lambda>_. 0), Some (0, 0))"
    using sample_install by blast
  have "length (DeviceList sample_devices) < 2 ^ 56" by (simp add: sample_devices_def)
  then show ?thesis using InstallDevice_installs [OF sample_devices_inv _ i] i by blast
qed

theorem FindDeviceDriver_first_match_witness:
  "driver_matches (device_fresh (0, 0) None 2 0 1 6 0 0) (Drivers sample_devices ! 0)"
proof -
  have "FindDeviceDriver sample_env sample_devices (device_fresh (0, 0) None 2 0 1 6 0 0) = Inr (sample_devices, Some 0)"
    by (simp add: FindDeviceDriver_def sample_devices_def driver_matches_def sample_ident_def device_fresh_def
        DEVICE_OBJECT_zero_def DEVICE_SEARCH_BYCLASS_def DATA_UNMASK_SUBCLASS_def DATA_UNMASK_PROGRAM_INTERFACE_def
        DATA_UNMASK_VENDOR_ID_def QueryDriverById_def sample_driver_def)
  then show ?thesis using FindDeviceDriver_first_match [OF sample_devices_inv] by fastforce
qed

theorem GetNextDevice_yields_nothing_witness:
  "\<exists>it'. GetNextDevice sample_devices (Some (DEVICE_ITERATOR_zero\<lparr> di_Present := True \<rparr>)) = (Some it', None) \<and> Finish it'"
  by (rule GetNextDevice_yields_nothing [OF sample_devices_inv, of DEVICE_ITERATOR_zero])
     (simp add: StartDeviceIterator_def DEVICE_ITERATOR_zero_def)

end
