(* ===== verification/Paging.thy ===== *)
theory Paging
  imports Kernel_Base
begin

text \<open>
  The page tables (\<open>CPU/paging.c\<close>): mapping physical pages, resolving a virtual address and searching
  for free virtual memory.  The memory that holds page tables is a function from page frame number and
  entry index to page table entry; \<open>PhysicalAddr << 12\<close> in the source addresses the first entry of a
  frame.  \<open>_SIMD_AllocatePhysicalPage\<close> is assembly code: the pages it will return are the argument
  \<open>pages\<close> (0, or an empty list, for failure), and theorems assume that it returns pages that are not in use.
\<close>

definition PM_PRESENT :: u64 where "PM_PRESENT = 1"
definition PM_USER :: u64 where "PM_USER = 2"
definition PM_READWRITE :: u64 where "PM_READWRITE = 4"
definition PM_MAP :: u64 where "PM_MAP = PM_PRESENT OR PM_READWRITE"
definition PM_NX :: u64 where "PM_NX = 8"
definition PM_GLOBAL :: u64 where "PM_GLOBAL = 0x10"
definition PM_CACHE_DISABLE :: u64 where "PM_CACHE_DISABLE = 0x20"
definition PM_WRITE_THROUGH :: u64 where "PM_WRITE_THROUGH = 0x40"
definition PM_LARGE_PAGES :: u64 where "PM_LARGE_PAGES = 0x200"
definition PM_WRITE_COMBINE :: u64 where "PM_WRITE_COMBINE = 0x400"

record PTBLENTRY =
  pte_Present :: bool
  ReadWrite :: bool
  UserSupervisor :: bool
  PWT :: bool
  PCD :: bool
  Accessed :: bool
  Dirty :: bool
  SizePAT :: bool
  pte_Global :: bool
  PhysicalAddr :: "36 word"
  ExecuteDisable :: bool

definition PTBLENTRY_zero :: PTBLENTRY where
  "PTBLENTRY_zero = \<lparr> pte_Present = False, ReadWrite = False, UserSupervisor = False, PWT = False,
     PCD = False, Accessed = False, Dirty = False, SizePAT = False, pte_Global = False,
     PhysicalAddr = 0, ExecuteDisable = False \<rparr>"

type_synonym pt_mem = "u64 \<Rightarrow> nat \<Rightarrow> PTBLENTRY"

definition frame_of :: "PTBLENTRY \<Rightarrow> u64" where
  "frame_of e = ucast (PhysicalAddr e)"

definition pt_set :: "pt_mem \<Rightarrow> u64 \<Rightarrow> nat \<Rightarrow> PTBLENTRY \<Rightarrow> pt_mem" where
  "pt_set mem f i e = mem(f := (mem f)(i := e))"

definition ResetPageMap :: "pt_mem \<Rightarrow> u64 \<Rightarrow> pt_mem" where
  "ResetPageMap mem f = mem(f := (\<lambda>_. PTBLENTRY_zero))"

section \<open>Table indices of an address\<close>

definition PtIndex :: "u64 \<Rightarrow> nat" where "PtIndex page = unat (page AND 0x1FF)"
definition PdIndex :: "u64 \<Rightarrow> nat" where "PdIndex page = unat (drop_bit 9 page AND 0x1FF)"
definition PdpIndex :: "u64 \<Rightarrow> nat" where "PdpIndex page = unat (drop_bit 18 page AND 0x1FF)"
definition Pml4Index :: "u64 \<Rightarrow> nat" where "Pml4Index page = unat (drop_bit 27 page AND 0x1FF)"

definition ToVirtAddress48 :: "u64 \<Rightarrow> u64 \<Rightarrow> u64 \<Rightarrow> u64 \<Rightarrow> u64" where
  "ToVirtAddress48 Pml4 Pdp Pd Pt =
     (let v = push_bit 39 Pml4 OR push_bit 30 Pdp OR push_bit 21 Pd OR push_bit 12 Pt
      in if v > 0x7FFFFFFFFFFF then v OR 0xFFFF800000000000 else v)"

section \<open>Resolving an address\<close>

definition KeResolvePhysicalAddress :: "pt_mem \<Rightarrow> u64 \<Rightarrow> u64 \<Rightarrow> u64" where
  "KeResolvePhysicalAddress mem PageMap VirtualAddress =
     (let page = drop_bit 12 VirtualAddress;
          pml4 = mem (drop_bit 12 PageMap) (Pml4Index page)
      in if \<not> pte_Present pml4 then 0 else
      let pdp = mem (frame_of pml4) (PdpIndex page)
      in if \<not> pte_Present pdp then 0 else
      let pd = mem (frame_of pdp) (PdIndex page)
      in if \<not> pte_Present pd then 0 else
      if SizePAT pd then push_bit 0x15 (frame_of pd) + (VirtualAddress AND 0x1FFFFF) else
      let pt = mem (frame_of pd) (PtIndex page)
      in if \<not> pte_Present pt then 0 else
      push_bit 12 (frame_of pt) + (VirtualAddress AND 0xFFF))"

section \<open>Mapping pages\<close>

definition with_flag :: "bool \<Rightarrow> (PTBLENTRY \<Rightarrow> PTBLENTRY) \<Rightarrow> PTBLENTRY \<Rightarrow> PTBLENTRY" where
  "with_flag c upd e = (if c then upd e else e)"

definition ModelEntry :: "bool \<Rightarrow> u64 \<Rightarrow> PTBLENTRY" where
  "ModelEntry NX Flags =
     (let has = (\<lambda>m. Flags AND m \<noteq> 0);
          large = has PM_LARGE_PAGES; wt = has PM_WRITE_THROUGH; cd = has PM_CACHE_DISABLE;
          e1 = with_flag (has PM_PRESENT) (pte_Present_update (\<lambda>_. True)) PTBLENTRY_zero;
          e2 = with_flag (has PM_READWRITE) (ReadWrite_update (\<lambda>_. True)) e1;
          e3 = with_flag (\<not> has PM_READWRITE) (\<lambda>e. e\<lparr> PWT := True, PCD := True \<rparr>) e2;
          e4 = with_flag (has PM_USER) (UserSupervisor_update (\<lambda>_. True)) e3;
          e5 = with_flag (has PM_NX \<and> NX) (ExecuteDisable_update (\<lambda>_. True)) e4;
          e6 = with_flag (has PM_GLOBAL) (pte_Global_update (\<lambda>_. True)) e5;
          e7 = with_flag (wt \<and> large) (PhysicalAddr_update (\<lambda>_. 1)) e6;
          e8 = with_flag (wt \<and> \<not> large) (SizePAT_update (\<lambda>_. True)) e7;
          e9 = with_flag (\<not> wt \<and> cd) (PCD_update (\<lambda>_. True)) e8;
          e10 = with_flag (\<not> wt \<and> \<not> cd \<and> has PM_WRITE_COMBINE) (PWT_update (\<lambda>_. True)) e9
      in with_flag large (SizePAT_update (\<lambda>_. True)) e10)"

definition AllocatePhysicalPage :: "u64 list \<Rightarrow> u64 \<times> u64 list" where
  "AllocatePhysicalPage pages = (case pages of [] \<Rightarrow> (0, []) | a # as \<Rightarrow> (a, as))"

text \<open>One level of the walk: make sure entry \<open>i\<close> of table \<open>f\<close> points to a table, and return its frame.\<close>

definition ensure_table :: "pt_mem \<times> u64 list \<Rightarrow> u64 \<Rightarrow> nat \<Rightarrow> ((pt_mem \<times> u64 list) \<times> u64) outcome" where
  "ensure_table s f i =
     (let (mem, pages) = s; e = mem f i
      in if \<not> pte_Present e then
           (let (a, pages') = AllocatePhysicalPage pages
            in if a = 0 then Inl SOD
               else
                 (let e' = e\<lparr> PhysicalAddr := ucast (drop_bit 12 a), pte_Present := True,
                             ReadWrite := True, UserSupervisor := True \<rparr>
                  in Inr ((ResetPageMap (pt_set mem f i e') (drop_bit 12 a), pages'), drop_bit 12 a)))
         else Inr (s, frame_of e))"

definition map_one_page ::
  "bool \<Rightarrow> u64 \<Rightarrow> u64 \<Rightarrow> pt_mem \<times> u64 list \<Rightarrow> u64 \<Rightarrow> u64 \<Rightarrow> (pt_mem \<times> u64 list) outcome" where
  "map_one_page NX Flags root s TmpVirtualAddr TmpPhysicalAddr =
     andThen (ensure_table s root (Pml4Index TmpVirtualAddr)) (\<lambda>(s1, PdpEntry).
     andThen (ensure_table s1 PdpEntry (PdpIndex TmpVirtualAddr)) (\<lambda>(s2, PdEntry).
     if Flags AND PM_LARGE_PAGES \<noteq> 0 then
       (let (mem, pages) = s2;
            e = (ModelEntry NX Flags)\<lparr> PhysicalAddr := ucast TmpPhysicalAddr OR PhysicalAddr (ModelEntry NX Flags) \<rparr>
        in Inr (pt_set mem PdEntry (PdIndex TmpVirtualAddr) e, pages))
     else
       andThen (ensure_table s2 PdEntry (PdIndex TmpVirtualAddr)) (\<lambda>((mem, pages), PtEntry).
       let e = (ModelEntry NX Flags)\<lparr> PhysicalAddr := ucast TmpPhysicalAddr \<rparr>
       in Inr (pt_set mem PtEntry (PtIndex TmpVirtualAddr) e, pages))))"

fun map_loop ::
  "bool \<Rightarrow> u64 \<Rightarrow> u64 \<Rightarrow> nat \<Rightarrow> pt_mem \<times> u64 list \<Rightarrow> u64 \<Rightarrow> u64 \<Rightarrow> (pt_mem \<times> u64 list) outcome" where
  "map_loop NX Flags root 0 s v p = Inr s"
| "map_loop NX Flags root (Suc n) s v p =
     andThen (map_one_page NX Flags root s v p) (\<lambda>s'.
     let inc = (if Flags AND PM_LARGE_PAGES \<noteq> 0 then 0x200 else 1)
     in map_loop NX Flags root n s' (v + inc) (p + inc))"

definition canonical_fold :: "u64 \<Rightarrow> u64" where
  "canonical_fold va =
     (if va AND 0xFFFF800000000000 = 0xFFFF800000000000
      then (va AND NOT 0xFFFF000000000000) OR push_bit 48 1 else va)"

definition MapPhysicalPages ::
  "bool \<Rightarrow> pt_mem \<times> u64 list \<Rightarrow> u64 \<Rightarrow> u64 \<Rightarrow> u64 \<Rightarrow> nat \<Rightarrow> u64 \<Rightarrow> (pt_mem \<times> u64 list) outcome" where
  "MapPhysicalPages NX s PageMap VirtualAddress PhysicalAddress Count Flags =
     map_loop NX Flags (drop_bit 12 PageMap) Count s
       (drop_bit 12 (canonical_fold VirtualAddress)) (drop_bit 12 PhysicalAddress)"

definition KeMapProcessMemory ::
  "bool \<Rightarrow> pt_mem \<times> u64 list \<Rightarrow> u64 \<Rightarrow> u64 \<Rightarrow> u64 \<Rightarrow> nat \<Rightarrow> u64 \<Rightarrow> (pt_mem \<times> u64 list) outcome" where
  "KeMapProcessMemory NX s PageMap PhysicalAddress VirtualAddress NumPages Flags =
     MapPhysicalPages NX s PageMap VirtualAddress PhysicalAddress NumPages Flags"

definition CreatePageMap :: "pt_mem \<times> u64 list \<Rightarrow> ((pt_mem \<times> u64 list) \<times> u64) outcome" where
  "CreatePageMap s =
     (let (mem, pages) = s; (a, pages') = AllocatePhysicalPage pages
      in if a = 0 then Inl SOD else Inr ((ResetPageMap mem (drop_bit 12 a), pages'), a))"

section \<open>Searching for free virtual memory\<close>

text \<open>
  The four nested loops of \<open>VirtualFindAvailableMemory\<close>.  The state carried through them is the number of
  pages found so far and the start of the run (0 standing for the source's NULL); a loop returns early
  with \<open>Inl address\<close>.
\<close>

type_synonym find_state = "u64 \<times> u64"

definition find_add :: "u64 \<Rightarrow> u64 \<Rightarrow> u64 \<Rightarrow> find_state \<Rightarrow> u64 + find_state" where
  "find_add NumPages addr n st =
     (let FoundPages = fst st + n; VirtualAddress = (if snd st = 0 then addr else snd st)
      in if FoundPages \<ge> NumPages then Inl VirtualAddress else Inr (FoundPages, VirtualAddress))"

definition after :: "'a + 'b \<Rightarrow> ('b \<Rightarrow> 'a + 'b) \<Rightarrow> 'a + 'b" where
  "after r f = (case r of Inl a \<Rightarrow> Inl a | Inr s \<Rightarrow> f s)"

fun find_pt :: "(nat \<Rightarrow> PTBLENTRY) \<Rightarrow> u64 \<Rightarrow> (nat \<Rightarrow> u64) \<Rightarrow> nat list \<Rightarrow> find_state \<Rightarrow> u64 + find_state" where
  "find_pt Pt NumPages addr [] st = Inr st"
| "find_pt Pt NumPages addr (i # is) st =
     (if pte_Present (Pt i) then find_pt Pt NumPages addr is (0, 0)
      else after (find_add NumPages (addr i) 1 st) (find_pt Pt NumPages addr is))"

fun find_pd :: "pt_mem \<Rightarrow> u64 \<Rightarrow> u64 \<Rightarrow> nat \<Rightarrow> nat \<Rightarrow> bool \<Rightarrow> u64 \<Rightarrow> nat list \<Rightarrow> nat \<Rightarrow> find_state \<Rightarrow> u64 + find_state" where
  "find_pd mem Pd NumPages p4 p3 atEnd End [] p1 st = Inr st"
| "find_pd mem Pd NumPages p4 p3 atEnd End (i # is) p1 st =
     (let e = mem Pd i; addr = (\<lambda>k. ToVirtAddress48 (of_nat p4) (of_nat p3) (of_nat i) (of_nat k))
      in if \<not> pte_Present e then
           after (find_add NumPages (addr p1) (0x200 - of_nat p1) st)
             (find_pd mem Pd NumPages p4 p3 atEnd End is 0)
         else if SizePAT e then find_pd mem Pd NumPages p4 p3 atEnd End is 0 (0, 0)
         else
           (let PtEnd = (if atEnd \<and> is = [] then PtIndex End else 511)
            in after (find_pt (mem (frame_of e)) NumPages addr [p1..<Suc PtEnd] st)
                 (find_pd mem Pd NumPages p4 p3 atEnd End is 0)))"

fun find_pdp :: "pt_mem \<Rightarrow> u64 \<Rightarrow> u64 \<Rightarrow> nat \<Rightarrow> bool \<Rightarrow> u64 \<Rightarrow> nat list \<Rightarrow> nat \<Rightarrow> nat \<Rightarrow> find_state \<Rightarrow> u64 + find_state" where
  "find_pdp mem Pdp NumPages p4 atEnd End [] p2 p1 st = Inr st"
| "find_pdp mem Pdp NumPages p4 atEnd End (i # is) p2 p1 st =
     (let e = mem Pdp i
      in if \<not> pte_Present e then
           after (find_add NumPages (ToVirtAddress48 (of_nat p4) (of_nat i) (of_nat p2) (of_nat p1))
                    (0x40000 - of_nat p1 - push_bit 9 (of_nat p2)) st)
             (find_pdp mem Pdp NumPages p4 atEnd End is 0 0)
         else
           (let final = atEnd \<and> is = []; PdEnd = (if final then PdIndex End else 511)
            in after (find_pd mem (frame_of e) NumPages p4 i final End [p2..<Suc PdEnd] p1 st)
                 (find_pdp mem Pdp NumPages p4 atEnd End is 0 0)))"

fun find_pml4 :: "pt_mem \<Rightarrow> u64 \<Rightarrow> u64 \<Rightarrow> u64 \<Rightarrow> nat list \<Rightarrow> nat \<Rightarrow> nat \<Rightarrow> nat \<Rightarrow> find_state \<Rightarrow> u64 + find_state" where
  "find_pml4 mem root NumPages End [] p3 p2 p1 st = Inr st"
| "find_pml4 mem root NumPages End (i # is) p3 p2 p1 st =
     (let e = mem root i
      in if \<not> pte_Present e then
           after (find_add NumPages (ToVirtAddress48 (of_nat i) (of_nat p3) (of_nat p2) (of_nat p1))
                    (0x8000000 - of_nat p1 - push_bit 9 (of_nat p2) - push_bit 18 (of_nat p3)) st)
             (find_pml4 mem root NumPages End is 0 0 0)
         else
           (let final = (is = []); PdpEnd = (if final then PdpIndex End else 511)
            in after (find_pdp mem (frame_of e) NumPages i final End [p3..<Suc PdpEnd] p2 p1 st)
                 (find_pml4 mem root NumPages End is 0 0 0)))"

definition VirtualFindAvailableMemory :: "pt_mem \<Rightarrow> u64 \<Rightarrow> u64 \<Rightarrow> u64 \<Rightarrow> u64 \<Rightarrow> u64" where
  "VirtualFindAvailableMemory mem PageMap VirtualStart VirtualEnd NumPages =
     (if VirtualStart > VirtualEnd \<or> NumPages = 0 then 0 else
      let vs = drop_bit 12 (canonical_fold VirtualStart); ve = drop_bit 12 (canonical_fold VirtualEnd)
      in case find_pml4 mem (drop_bit 12 PageMap) NumPages ve [Pml4Index vs..<Suc (Pml4Index ve)]
                (PdpIndex vs) (PdIndex vs) (PtIndex vs) (0, 0) of
           Inl a \<Rightarrow> a
         | Inr _ \<Rightarrow> 0)"

section \<open>The tables as a tree\<close>

text \<open>
  \<open>tbl mem root p\<close> is the frame of the table reached from the root by the indices \<open>p\<close> (the last index
  first), if all entries on the way are present and point to tables; \<open>entry_at\<close> is the present entry at
  the end of a path.
\<close>

definition table_entry :: "nat \<Rightarrow> PTBLENTRY \<Rightarrow> bool" where
  "table_entry n e \<longleftrightarrow> pte_Present e \<and> \<not> (n = 2 \<and> SizePAT e)"

fun tbl :: "pt_mem \<Rightarrow> u64 \<Rightarrow> nat list \<Rightarrow> u64 option" where
  "tbl mem root [] = Some root"
| "tbl mem root (i # p) =
     (case tbl mem root p of None \<Rightarrow> None
      | Some f \<Rightarrow> if table_entry (length p) (mem f i) then Some (frame_of (mem f i)) else None)"

definition entry_at :: "pt_mem \<Rightarrow> u64 \<Rightarrow> nat \<Rightarrow> nat list \<Rightarrow> PTBLENTRY option" where
  "entry_at mem root i q =
     (case tbl mem root q of None \<Rightarrow> None
      | Some f \<Rightarrow> if pte_Present (mem f i) then Some (mem f i) else None)"

text \<open>A table is reached by one path only.\<close>

definition tbl_inj :: "pt_mem \<Rightarrow> u64 \<Rightarrow> bool" where
  "tbl_inj mem root \<longleftrightarrow> (\<forall>p q f. length p \<le> 3 \<and> length q \<le> 3 \<and>
     tbl mem root p = Some f \<and> tbl mem root q = Some f \<longrightarrow> p = q)"

definition unused :: "pt_mem \<Rightarrow> u64 \<Rightarrow> u64 \<Rightarrow> bool" where
  "unused mem root g \<longleftrightarrow> (\<forall>p. length p \<le> 3 \<longrightarrow> tbl mem root p \<noteq> Some g)"

text \<open>The pages the allocator will hand out are nonzero, distinct, below \<open>2^48\<close> and hold no table.\<close>

definition pt_wf :: "pt_mem \<times> u64 list \<Rightarrow> u64 \<Rightarrow> bool" where
  "pt_wf s root \<longleftrightarrow> tbl_inj (fst s) root \<and> distinct (map (drop_bit 12) (snd s)) \<and>
     (\<forall>a \<in> set (snd s). a \<noteq> 0 \<and> unat a < 2 ^ 48 \<and> unused (fst s) root (drop_bit 12 a))"

text \<open>No 2 MB page covers the given page (neither a live one nor the remains of one).\<close>

definition no_large :: "pt_mem \<Rightarrow> u64 \<Rightarrow> u64 \<Rightarrow> bool" where
  "no_large mem root page \<longleftrightarrow>
     (\<forall>f. tbl mem root [PdpIndex page, Pml4Index page] = Some f \<longrightarrow> \<not> SizePAT (mem f (PdIndex page)))"

definition table_path :: "u64 \<Rightarrow> nat list" where
  "table_path page = [PdIndex page, PdpIndex page, Pml4Index page]"

definition translation :: "pt_mem \<Rightarrow> u64 \<Rightarrow> u64 \<Rightarrow> PTBLENTRY option" where
  "translation mem root page = entry_at mem root (PtIndex page) (table_path page)"

lemma Resolve_translation:
  "translation mem (drop_bit 12 PageMap) (drop_bit 12 va) = Some e \<Longrightarrow>
     KeResolvePhysicalAddress mem PageMap va = push_bit 12 (frame_of e) + (va AND 0xFFF)"
  by (auto simp: translation_def entry_at_def table_path_def KeResolvePhysicalAddress_def Let_def table_entry_def
      split: option.splits if_splits)

lemma frame_of_page: "unat a < 2 ^ 48 \<Longrightarrow> ucast (ucast (drop_bit 12 a) :: 36 word) = (drop_bit 12 a :: u64)"
proof -
  assume "unat a < 2 ^ 48"
  then have "bit a (12 + n) \<Longrightarrow> n < 36" for n using bit_bound [of a 48 "12 + n"] by simp
  then show ?thesis by (intro bit_word_eqI) (auto simp: bit_simps)
qed

lemma tbl_injD:
  "tbl_inj mem root \<Longrightarrow> tbl mem root p = Some f \<Longrightarrow> tbl mem root q = Some f \<Longrightarrow> length p \<le> 3 \<Longrightarrow>
     length q \<le> 3 \<Longrightarrow> p = q"
  unfolding tbl_inj_def by blast

lemma not_table_zero: "\<not> table_entry n (ResetPageMap mem g g j)" "\<not> pte_Present (ResetPageMap mem g g j)"
  by (simp_all add: ResetPageMap_def table_entry_def PTBLENTRY_zero_def)

lemma unusedD: "unused mem root g \<Longrightarrow> tbl mem root p = Some h \<Longrightarrow> length p \<le> 3 \<Longrightarrow> h \<noteq> g"
  unfolding unused_def by blast

text \<open>Linking a fresh, zeroed table into entry \<open>i\<close> of the table at \<open>q\<close> adds that one table to the tree.\<close>

lemma tbl_link:
  assumes inj: "tbl_inj mem root" and f: "tbl mem root q = Some f" "length q \<le> 2"
    and np: "\<not> pte_Present (mem f i)" and un: "unused mem root g"
    and e: "table_entry (length q) e" "frame_of e = g"
  shows "length p \<le> 3 \<Longrightarrow> tbl (ResetPageMap (pt_set mem f i e) g) root p =
     (if p = i # q then Some g else tbl mem root p)"
proof (induction p)
  case Nil
  then show ?case by simp
next
  case (Cons j p)
  let ?m = "ResetPageMap (pt_set mem f i e) g"
  have IH: "tbl ?m root p = (if p = i # q then Some g else tbl mem root p)" using Cons by simp
  have gap: "tbl mem root (i # q) = None" using f(1) np by (simp add: table_entry_def)
  consider (new) "p = i # q" | (none) "p \<noteq> i # q" "tbl mem root p = None"
    | (old) h where "p \<noteq> i # q" "tbl mem root p = Some h" by blast
  then show ?case
  proof cases
    case new
    have "tbl ?m root p = Some g" "tbl mem root p = None" using IH gap new by argo+
    moreover have "j # p \<noteq> i # q" using new by auto
    ultimately show ?thesis by (simp add: not_table_zero)
  next
    case none
    then have "tbl ?m root p = None" "j # p \<noteq> i # q" using IH f(1) by auto
    then show ?thesis using none(2) by simp
  next
    case old
    have hg: "h \<noteq> g" using un old(2) Cons.prems by (auto simp: unused_def)
    have hf: "h = f \<longleftrightarrow> p = q" using old(2) f tbl_injD [OF inj old(2), of q] Cons.prems by auto
    have "tbl ?m root (j # p) = (if table_entry (length p) (?m h j) then Some (frame_of (?m h j)) else None)"
      using IH old by simp
    moreover have "?m h j = (if h = f \<and> j = i then e else mem h j)"
      using hg by (simp add: ResetPageMap_def pt_set_def)
    ultimately show ?thesis using old hf e by auto
  qed
qed

lemma entry_link:
  assumes inj: "tbl_inj mem root" and f: "tbl mem root q = Some f" "length q \<le> 2"
    and np: "\<not> pte_Present (mem f i)" and un: "unused mem root g"
    and e: "table_entry (length q) e" "frame_of e = g" and p: "length p \<le> 3" "(j, p) \<noteq> (i, q)"
  shows "entry_at (ResetPageMap (pt_set mem f i e) g) root j p = entry_at mem root j p"
proof -
  let ?m = "ResetPageMap (pt_set mem f i e) g"
  note t = tbl_link [OF inj f np un e p(1)]
  show ?thesis
  proof (cases "p = i # q")
    case True
    then have "tbl mem root p = None" using f(1) np by (simp add: table_entry_def)
    moreover have "tbl ?m root p = Some g" using t True by argo
    ultimately show ?thesis by (simp add: entry_at_def not_table_zero)
  next
    case False
    then have eq: "tbl ?m root p = tbl mem root p" using t by simp
    have "?m h j = mem h j" if "tbl mem root p = Some h" for h
    proof -
      have "h \<noteq> g" using un that p(1) by (auto simp: unused_def)
      moreover have "h = f \<Longrightarrow> p = q" using tbl_injD [OF inj that, of q] f p(1) by auto
      ultimately show ?thesis using p(2) by (auto simp: ResetPageMap_def pt_set_def)
    qed
    then show ?thesis by (auto simp: entry_at_def eq split: option.splits)
  qed
qed

text \<open>What every level of the walk preserves: existing tables, all page entries, absence of large pages.\<close>

definition extends :: "u64 \<Rightarrow> pt_mem \<Rightarrow> pt_mem \<Rightarrow> bool" where
  "extends root mem mem' \<longleftrightarrow>
     (\<forall>p f. length p \<le> 3 \<and> tbl mem root p = Some f \<longrightarrow> tbl mem' root p = Some f) \<and>
     (\<forall>j p. length p = 3 \<longrightarrow> entry_at mem' root j p = entry_at mem root j p) \<and>
     (\<forall>page. no_large mem root page \<longrightarrow> no_large mem' root page)"

lemma extends_refl [simp]: "extends root mem mem"
  by (simp add: extends_def)

lemma extends_trans: "extends root a b \<Longrightarrow> extends root b c \<Longrightarrow> extends root a c"
  unfolding extends_def by simp

lemma extends_tbl: "extends root mem mem' \<Longrightarrow> tbl mem root p = Some f \<Longrightarrow> length p \<le> 3 \<Longrightarrow> tbl mem' root p = Some f"
  unfolding extends_def by simp

lemma no_large_link:
  assumes inj: "tbl_inj mem root" and f: "tbl mem root q = Some f" "length q \<le> 2"
    and np: "\<not> pte_Present (mem f i)" and un: "unused mem root g"
    and e: "table_entry (length q) e" "frame_of e = g" and nl: "no_large mem root page"
  shows "no_large (ResetPageMap (pt_set mem f i e) g) root page"
  unfolding no_large_def
proof (intro allI impI)
  let ?m = "ResetPageMap (pt_set mem f i e) g" and ?p = "[PdpIndex page, Pml4Index page]"
  fix h
  assume h: "tbl ?m root ?p = Some h"
  have t: "tbl ?m root ?p = (if ?p = i # q then Some g else tbl mem root ?p)"
    using tbl_link [OF inj f np un e, of ?p] by simp
  show "\<not> SizePAT (?m h (PdIndex page))"
  proof (cases "?p = i # q")
    case True
    then have "h = g" using h t by (metis option.inject)
    then show ?thesis by (simp add: ResetPageMap_def PTBLENTRY_zero_def)
  next
    case False
    then have m: "tbl mem root ?p = Some h" using h t by argo
    then have "h \<noteq> g" using unusedD [OF un m] by simp
    moreover have "\<not> SizePAT (mem h (PdIndex page))" using nl m unfolding no_large_def by blast
    moreover have "\<not> SizePAT e" if "h = f"
    proof -
      have "?p = q" using tbl_injD [OF inj m, of q] f that by auto
      then show ?thesis using e(1) by (auto simp: table_entry_def)
    qed
    ultimately show ?thesis by (auto simp: ResetPageMap_def pt_set_def)
  qed
qed

lemma ensure_new:
  assumes wf: "pt_wf (mem, a # pages) root" and f: "tbl mem root q = Some f" "length q \<le> 2"
    and np: "\<not> pte_Present (mem f i)" and nl: "length q = 2 \<longrightarrow> \<not> SizePAT (mem f i)"
  shows "\<exists>mem'. ensure_table (mem, a # pages) f i = Inr ((mem', pages), drop_bit 12 a) \<and>
    pt_wf (mem', pages) root \<and> tbl mem' root (i # q) = Some (drop_bit 12 a) \<and> extends root mem mem'"
proof -
  let ?g = "drop_bit 12 a"
  define e where "e = (mem f i)\<lparr> PhysicalAddr := ucast ?g, pte_Present := True, ReadWrite := True, UserSupervisor := True \<rparr>"
  define mem' where "mem' = ResetPageMap (pt_set mem f i e) ?g"
  have inj: "tbl_inj mem root" and un: "unused mem root ?g" and a: "a \<noteq> 0" "unat a < 2 ^ 48"
    using wf by (simp_all add: pt_wf_def)
  have e: "table_entry (length q) e" "frame_of e = ?g"
    using nl a frame_of_page by (auto simp: e_def table_entry_def frame_of_def)
  note t = tbl_link [OF inj f np un e, folded mem'_def]
  have gap: "tbl mem root (i # q) = None" using f(1) np by (simp add: table_entry_def)
  have "ensure_table (mem, a # pages) f i = Inr ((mem', pages), ?g)"
    using np a by (simp add: ensure_table_def AllocatePhysicalPage_def mem'_def e_def)
  moreover have "tbl_inj mem' root"
    unfolding tbl_inj_def using t un tbl_injD [OF inj] by (auto simp: unused_def split: if_splits)
  moreover have "unused mem' root (drop_bit 12 b)" if "b \<in> set pages" for b
  proof -
    have "drop_bit 12 b \<in> drop_bit 12 ` set pages" using that by (rule imageI)
    moreover have "?g \<notin> drop_bit 12 ` set pages" using wf by (simp add: pt_wf_def)
    ultimately have "drop_bit 12 b \<noteq> ?g" by metis
    moreover have "unused mem root (drop_bit 12 b)" using wf that by (simp add: pt_wf_def)
    ultimately show ?thesis using t by (auto simp: unused_def split: if_splits)
  qed
  moreover have "extends root mem mem'"
    unfolding extends_def
  proof (intro conjI allI impI)
    show "tbl mem' root p = Some h" if "length p \<le> 3 \<and> tbl mem root p = Some h" for p h
      using t [of p] that gap by auto
    show "entry_at mem' root j p = entry_at mem root j p" if "length p = 3" for j p
    proof -
      have "p \<noteq> q" using that f(2) by auto
      then show ?thesis using entry_link [OF inj f np un e, of p j] that by (simp add: mem'_def)
    qed
    show "no_large mem' root page" if "no_large mem root page" for page
      using no_large_link [OF inj f np un e that] by (simp add: mem'_def)
  qed
  moreover have "tbl mem' root (i # q) = Some ?g" using t [of "i # q"] f(2) by simp
  ultimately show ?thesis using wf by (auto simp: pt_wf_def)
qed

lemma ensure_ok:
  assumes wf: "pt_wf (mem, pages) root" and f: "tbl mem root q = Some f" "length q \<le> 2"
    and nl: "length q = 2 \<longrightarrow> \<not> SizePAT (mem f i)" and pg: "pages \<noteq> []"
  shows "\<exists>mem' pages' g. ensure_table (mem, pages) f i = Inr ((mem', pages'), g) \<and>
    pt_wf (mem', pages') root \<and> tbl mem' root (i # q) = Some g \<and> extends root mem mem' \<and>
    length pages \<le> Suc (length pages')"
proof (cases "pte_Present (mem f i)")
  case True
  then have "tbl mem root (i # q) = Some (frame_of (mem f i))" using f nl by (auto simp: table_entry_def)
  then show ?thesis using True wf by (simp add: ensure_table_def)
next
  case False
  obtain a ps where "pages = a # ps" using pg by (cases pages) auto
  then show ?thesis using ensure_new [OF _ f False nl, of a ps] wf by auto
qed

text \<open>Writing a page entry into the table at a path of length 3 changes that entry only.\<close>

lemma tbl_pt_set:
  assumes inj: "tbl_inj mem root" and t: "tbl mem root q = Some f" "length q = 3"
  shows "length p \<le> 3 \<Longrightarrow> tbl (pt_set mem f i e) root p = tbl mem root p"
proof (induction p)
  case Nil
  then show ?case by simp
next
  case (Cons j p)
  then have IH: "tbl (pt_set mem f i e) root p = tbl mem root p" by simp
  have "h \<noteq> f" if "tbl mem root p = Some h" for h
  proof
    assume "h = f"
    then have "p = q" using tbl_injD [OF inj that, of q] t Cons.prems by simp
    then show False using Cons.prems t(2) by simp
  qed
  then show ?case unfolding tbl.simps IH by (auto simp: pt_set_def split: option.splits)
qed

lemma write_page_entry:
  assumes wf: "pt_wf (mem, pages) root" and t: "tbl mem root q = Some f" "length q = 3"
  shows "pt_wf (pt_set mem f i e, pages) root"
    and "length p = 3 \<Longrightarrow> entry_at (pt_set mem f i e) root j p =
      (if j = i \<and> p = q then if pte_Present e then Some e else None else entry_at mem root j p)"
    and "no_large mem root page \<Longrightarrow> no_large (pt_set mem f i e) root page"
proof -
  have inj: "tbl_inj mem root" using wf by (simp add: pt_wf_def)
  note same = tbl_pt_set [OF inj t, of _ i e]
  show "pt_wf (pt_set mem f i e, pages) root"
    using wf same by (auto simp: pt_wf_def tbl_inj_def unused_def)
  show "entry_at (pt_set mem f i e) root j p =
      (if j = i \<and> p = q then if pte_Present e then Some e else None else entry_at mem root j p)" if "length p = 3"
  proof -
    have "h = f \<longleftrightarrow> p = q" if "tbl mem root p = Some h" for h
      using tbl_injD [OF inj that, of q] t that \<open>length p = 3\<close> by auto
    then show ?thesis using same [of p] \<open>length p = 3\<close> t(1)
      by (auto simp: entry_at_def pt_set_def split: option.splits)
  qed
  show "no_large (pt_set mem f i e) root page" if nl: "no_large mem root page"
    unfolding no_large_def
  proof (intro allI impI)
    let ?p = "[PdpIndex page, Pml4Index page]"
    fix h
    assume "tbl (pt_set mem f i e) root ?p = Some h"
    moreover have "length ?p \<le> 3" by simp
    ultimately have h: "tbl mem root ?p = Some h" using same [of ?p] by argo
    have "h \<noteq> f"
    proof
      assume "h = f"
      then have "?p = q" using tbl_injD [OF inj h, of q] t by simp
      then show False using t(2) by auto
    qed
    then show "\<not> SizePAT (pt_set mem f i e h (PdIndex page))"
      using nl h unfolding no_large_def pt_set_def by auto
  qed
qed

definition page_key :: "u64 \<Rightarrow> nat \<times> nat list" where
  "page_key page = (PtIndex page, table_path page)"

lemma translation_key: "translation mem root page = (case page_key page of (j, q) \<Rightarrow> entry_at mem root j q)"
  by (simp add: translation_def page_key_def)

lemma map_one_ok:
  assumes wf: "pt_wf (mem, pages) root" and small: "Flags AND PM_LARGE_PAGES = 0"
    and nl: "no_large mem root v" and pg: "3 \<le> length pages"
    and e_def: "e = (ModelEntry NX Flags)\<lparr> PhysicalAddr := ucast p \<rparr>"
  shows "\<exists>mem' pages'. map_one_page NX Flags root (mem, pages) v p = Inr (mem', pages') \<and>
    pt_wf (mem', pages') root \<and> length pages \<le> length pages' + 3 \<and>
    (\<forall>w. translation mem' root w = (if page_key w = page_key v
       then if pte_Present e then Some e else None else translation mem root w)) \<and>
    (\<forall>w. no_large mem root w \<longrightarrow> no_large mem' root w)"
proof -
  have ne: "1 \<le> length ps \<Longrightarrow> ps \<noteq> []" for ps :: "u64 list" by auto
  obtain m1 p1 f1 where 1: "ensure_table (mem, pages) root (Pml4Index v) = Inr ((m1, p1), f1)"
    "pt_wf (m1, p1) root" "tbl m1 root [Pml4Index v] = Some f1" "extends root mem m1" "length pages \<le> Suc (length p1)"
    using ensure_ok [OF wf, of "[]" root "Pml4Index v"] ne [of pages] pg by (auto simp del: tbl.simps(2))
  have n1: "no_large m1 root v" using 1(4) nl unfolding extends_def by blast
  obtain m2 p2 f2 where 2: "ensure_table (m1, p1) f1 (PdpIndex v) = Inr ((m2, p2), f2)"
    "pt_wf (m2, p2) root" "tbl m2 root [PdpIndex v, Pml4Index v] = Some f2" "extends root m1 m2" "length p1 \<le> Suc (length p2)"
    using ensure_ok [OF 1(2,3), of "PdpIndex v"] ne [of p1] pg 1(5) by (auto simp del: tbl.simps(2))
  have n2: "no_large m2 root v" using 2(4) n1 unfolding extends_def by blast
  then have "\<not> SizePAT (m2 f2 (PdIndex v))" using 2(3) unfolding no_large_def by blast
  then obtain m3 p3 f3 where 3: "ensure_table (m2, p2) f2 (PdIndex v) = Inr ((m3, p3), f3)"
    "pt_wf (m3, p3) root" "tbl m3 root (table_path v) = Some f3" "extends root m2 m3" "length p2 \<le> Suc (length p3)"
    using ensure_ok [OF 2(2,3), of "PdIndex v"] ne [of p2] pg 1(5) 2(5) by (auto simp del: tbl.simps(2) simp: table_path_def)
  have ext: "extends root mem m3" using 1(4) 2(4) 3(4) by (blast intro: extends_trans)
  have len: "length (table_path w) = 3" for w by (simp add: table_path_def)
  note w = write_page_entry [OF 3(2,3) len]
  have "map_one_page NX Flags root (mem, pages) v p = Inr (pt_set m3 f3 (PtIndex v) e, p3)"
    using 1(1) 2(1) 3(1) small by (simp add: map_one_page_def e_def)
  moreover have "pt_wf (pt_set m3 f3 (PtIndex v) e, p3) root" by (rule w(1))
  moreover have "translation (pt_set m3 f3 (PtIndex v) e) root x = (if page_key x = page_key v
       then if pte_Present e then Some e else None else translation mem root x)" for x
    using w(2) [OF len, of "PtIndex v" e "PtIndex x" x] ext len
    by (auto simp: translation_def page_key_def extends_def)
  moreover have "no_large (pt_set m3 f3 (PtIndex v) e) root x" if "no_large mem root x" for x
    using w(3) that ext unfolding extends_def by blast
  ultimately show ?thesis using 1(5) 2(5) 3(5) by auto
qed

section \<open>Ranges of pages\<close>

lemma with_flag_fields:
  "(\<And>e. pte_Present (upd e) = pte_Present e) \<Longrightarrow> pte_Present (with_flag c upd e) = pte_Present e"
  "(\<And>e. PhysicalAddr (upd e) = PhysicalAddr e) \<Longrightarrow> PhysicalAddr (with_flag c upd e) = PhysicalAddr e"
  by (simp_all add: with_flag_def)

lemma ModelEntry_Present: "pte_Present (ModelEntry NX Flags) \<longleftrightarrow> Flags AND PM_PRESENT \<noteq> 0"
  unfolding ModelEntry_def Let_def by (simp add: with_flag_fields) (simp add: with_flag_def PTBLENTRY_zero_def)

lemma index_take_bit:
  "PtIndex v = unat (take_bit 9 v)" "PdIndex v = unat (take_bit 9 (drop_bit 9 v))"
  "PdpIndex v = unat (take_bit 9 (drop_bit 18 v))" "Pml4Index v = unat (take_bit 9 (drop_bit 27 v))"
  by (simp_all add: PtIndex_def PdIndex_def PdpIndex_def Pml4Index_def take_bit_eq_mask mask_eq_exp_minus_1)

lemma page_key_low_bits: "page_key v = page_key w \<longleftrightarrow> take_bit 36 v = take_bit 36 w"
proof
  assume "page_key v = page_key w"
  then have k: "take_bit 9 v = take_bit 9 w" "take_bit 9 (drop_bit 9 v) = take_bit 9 (drop_bit 9 w)"
    "take_bit 9 (drop_bit 18 v) = take_bit 9 (drop_bit 18 w)" "take_bit 9 (drop_bit 27 v) = take_bit 9 (drop_bit 27 w)"
    by (simp_all add: page_key_def table_path_def index_take_bit word_unat_eq_iff)
  have "bit v n = bit w n" if "n < 36" for n
  proof -
    have b: "bit (take_bit 9 (drop_bit d x)) (n - d) \<longleftrightarrow> bit x n" if "d \<le> n \<and> n < c" "c = d + 9" for c d and x :: u64
      using that by (auto simp: bit_simps)
    consider "n < 9" | "9 \<le> n \<and> n < 18" | "18 \<le> n \<and> n < 27" | "27 \<le> n \<and> n < 36" using \<open>n < 36\<close> by linarith
    then show ?thesis
    proof cases
      case 1
      then show ?thesis using k(1) by (metis bit_take_bit_iff)
    next
      case 2
      have "18 = 9 + (9 :: nat)" by simp
      then show ?thesis using b [OF 2, of v] b [OF 2, of w] k(2) by argo
    next
      case 3
      have "27 = 18 + (9 :: nat)" by simp
      then show ?thesis using b [OF 3, of v] b [OF 3, of w] k(3) by argo
    next
      case 4
      have "36 = 27 + (9 :: nat)" by simp
      then show ?thesis using b [OF 4, of v] b [OF 4, of w] k(4) by argo
    qed
  qed
  then show "take_bit 36 v = take_bit 36 w" by (intro bit_word_eqI) (auto simp: bit_simps)
next
  assume eq: "take_bit 36 v = take_bit 36 w"
  have "take_bit 9 (drop_bit d x) = take_bit 9 (drop_bit d (take_bit 36 x))" if "d \<le> 27" for d and x :: u64
    using that by (intro bit_word_eqI) (auto simp: bit_simps)
  then have d: "take_bit 9 (drop_bit d v) = take_bit 9 (drop_bit d w)" if "d \<le> 27" for d
    using eq that by metis
  have "take_bit 9 v = take_bit 9 w" using d [of 0] by simp
  moreover have "take_bit 9 (drop_bit 9 v) = take_bit 9 (drop_bit 9 w)" by (rule d) simp
  moreover have "take_bit 9 (drop_bit 18 v) = take_bit 9 (drop_bit 18 w)" by (rule d) simp
  moreover have "take_bit 9 (drop_bit 27 v) = take_bit 9 (drop_bit 27 w)" by (rule d) simp
  ultimately show "page_key v = page_key w"
    by (simp only: page_key_def table_path_def index_take_bit)
qed

lemma mod_add_inj: "i < m \<Longrightarrow> j < m \<Longrightarrow> (a + i) mod m = (a + j) mod m \<Longrightarrow> i = (j :: nat)"
proof -
  assume "i < m" "j < m" "(a + i) mod m = (a + j) mod m"
  then obtain q r where "a + i + m * q = a + j + m * r" using nat_mod_eq_iff by metis
  then have "i + m * q = j + m * r" by simp
  then have "(i + m * q) mod m = (j + m * r) mod m" by simp
  then show "i = j" using \<open>i < m\<close> \<open>j < m\<close> by simp
qed

lemma unat_take_bit_add:
  "unat (take_bit 36 (v + of_nat k :: u64)) = (unat (take_bit 36 v) + k) mod 2 ^ 36"
proof -
  have tb: "unat (take_bit 36 x) = unat x mod 2 ^ 36" for x :: u64
    by (simp only: unsigned_take_bit_eq) (simp add: take_bit_eq_mod)
  have "unat (v + of_nat k) = (unat v + k) mod 2 ^ 64"
    by (simp add: unat_word_ariths unat_of_nat mod_simps)
  then have "unat (take_bit 36 (v + of_nat k)) = (unat v + k) mod 2 ^ 64 mod 2 ^ 36"
    by (simp only: tb)
  also have "\<dots> = (unat v + k) mod 2 ^ 36" by (rule mod_mod_cancel) simp
  finally show ?thesis by (simp only: tb mod_add_left_eq)
qed

lemma page_key_range:
  assumes "page_key (v + of_nat i) = page_key (v + of_nat j)" and "i < 2 ^ 36" and "j < 2 ^ 36"
  shows "i = j"
proof -
  have "(unat (take_bit 36 v) + i) mod 2 ^ 36 = (unat (take_bit 36 v) + j) mod 2 ^ 36"
    using assms(1) unat_take_bit_add [of v i] unat_take_bit_add [of v j] by (simp only: page_key_low_bits)
  then show ?thesis using mod_add_inj assms(2,3) by blast
qed

lemma page_key_add: "take_bit 36 v = take_bit 36 w \<Longrightarrow> page_key (v + of_nat k) = page_key (w + of_nat k)"
  unfolding page_key_low_bits word_unat_eq_iff unat_take_bit_add by simp

lemma fold_low_bits: "take_bit 36 (drop_bit 12 (canonical_fold va)) = take_bit 36 (drop_bit 12 va)"
proof -
  have hi: "0xFFFF000000000000 = (push_bit 48 0xFFFF :: u64)" by (simp add: push_bit_eq_mult)
  have "bit ((va AND NOT (push_bit 48 0xFFFF)) OR push_bit 48 1) n = bit va n" if "n < 48" for n
    using that
    by (simp only: bit_and_iff bit_or_iff bit_not_iff bit_push_bit_iff possible_bit_word) auto
  then have "bit (canonical_fold va) n = bit va n" if "n < 48" for n
    using that unfolding canonical_fold_def hi by simp
  then show ?thesis by (intro bit_word_eqI) (auto simp: bit_simps)
qed

lemma key_translation: "page_key v = page_key w \<Longrightarrow> translation mem root v = translation mem root w"
  by (simp add: translation_key)

lemma key_no_large: "page_key v = page_key w \<Longrightarrow> no_large mem root v = no_large mem root w"
  by (simp add: no_large_def page_key_def table_path_def)

lemma map_loop_ok:
  assumes "pt_wf (mem, pages) root" and "Flags AND PM_LARGE_PAGES = 0" and "Flags AND PM_PRESENT \<noteq> 0"
    and "\<forall>i < n. no_large mem root (v + of_nat i)" and "3 * n \<le> length pages" and "n \<le> 2 ^ 36"
  shows "\<exists>mem' pages'. map_loop NX Flags root n (mem, pages) v p = Inr (mem', pages') \<and> pt_wf (mem', pages') root \<and>
    (\<forall>i < n. translation mem' root (v + of_nat i) =
       Some ((ModelEntry NX Flags)\<lparr> PhysicalAddr := ucast (p + of_nat i) \<rparr>)) \<and>
    (\<forall>w. (\<forall>i < n. page_key w \<noteq> page_key (v + of_nat i)) \<longrightarrow> translation mem' root w = translation mem root w)"
  using assms
proof (induction n arbitrary: mem pages v p)
  case 0
  then show ?case by simp
next
  case (Suc n)
  let ?E = "\<lambda>p. (ModelEntry NX Flags)\<lparr> PhysicalAddr := ucast p \<rparr>"
  have pres: "pte_Present (?E q)" for q
    using Suc.prems(3) ModelEntry_Present by simp
  have nl0: "no_large mem root v" using spec [OF Suc.prems(4), of 0] by simp
  have "3 \<le> length pages" using Suc.prems(5) by simp
  note one = map_one_ok [OF Suc.prems(1,2) nl0 this refl, of NX p, unfolded if_P [OF pres]]
  obtain m1 p1 where 1: "map_one_page NX Flags root (mem, pages) v p = Inr (m1, p1)" "pt_wf (m1, p1) root"
    "length pages \<le> length p1 + 3"
    "\<And>w. translation m1 root w = (if page_key w = page_key v then Some (?E p) else translation mem root w)"
    "\<And>w. no_large mem root w \<Longrightarrow> no_large m1 root w"
    using one by blast
  have shift: "v + 1 + of_nat i = v + of_nat (Suc i)" "p + 1 + of_nat i = p + of_nat (Suc i)" for i
    by simp_all
  have nl1: "\<forall>i < n. no_large m1 root (v + 1 + of_nat i)"
    unfolding shift using 1(5) Suc.prems(4) Suc_mono by blast
  have "3 * n \<le> length p1" "n \<le> 2 ^ 36" using 1(3) Suc.prems(5,6) by simp_all
  then obtain m2 p2 where 2: "map_loop NX Flags root n (m1, p1) (v + 1) (p + 1) = Inr (m2, p2)" "pt_wf (m2, p2) root"
    "\<And>i. i < n \<Longrightarrow> translation m2 root (v + of_nat (Suc i)) = Some (?E (p + of_nat (Suc i)))"
    "\<And>w. \<forall>i < n. page_key w \<noteq> page_key (v + of_nat (Suc i)) \<Longrightarrow> translation m2 root w = translation m1 root w"
    using Suc.IH [OF 1(2) Suc.prems(2,3) nl1, of "p + 1"] unfolding shift by blast
  have key: "page_key v \<noteq> page_key (v + of_nat (Suc i))" if "i < n" for i
    using page_key_range [of v 0 "Suc i"] that Suc.prems(6) by auto
  have at: "translation m2 root (v + of_nat i) = Some (?E (p + of_nat i))" if "i < Suc n" for i
  proof (cases i)
    case 0
    then show ?thesis using 2(4) [of v] key 1(4) [of v] by simp
  next
    case (Suc j)
    then show ?thesis using 2(3) [of j] that by simp
  qed
  have other: "translation m2 root w = translation mem root w"
    if w: "\<forall>i < Suc n. page_key w \<noteq> page_key (v + of_nat i)" for w
  proof -
    have "page_key w \<noteq> page_key v" using spec [OF w, of 0] by simp
    moreover have "\<forall>i < n. page_key w \<noteq> page_key (v + of_nat (Suc i))" using w Suc_mono by blast
    ultimately show ?thesis using 2(4) 1(4) by simp
  qed
  show ?case using 1(1) 2(1,2) at other Suc.prems(2) by auto
qed

lemma page_split:
  fixes va x :: u64
  assumes "unat va mod 4096 = 0" and "unat va \<le> unat x"
  shows "drop_bit 12 x = drop_bit 12 va + of_nat ((unat x - unat va) div 4096)"
    and "unat (x AND 0xFFF) = (unat x - unat va) mod 4096"
proof -
  have d: "unat (drop_bit 12 y) = unat y div 4096" for y :: u64
    by (simp only: unat_drop_bit_eq) (simp add: drop_bit_eq_div)
  have q: "unat x div 4096 = unat va div 4096 + (unat x - unat va) div 4096"
    using assms by (rule aligned_split(1))
  have "drop_bit 12 va + of_nat ((unat x - unat va) div 4096) = of_nat (unat va div 4096 + (unat x - unat va) div 4096)"
    by (simp only: of_nat_add d [of va, symmetric] of_nat_unat ucast_id)
  also have "\<dots> = of_nat (unat (drop_bit 12 x))" using q d by simp
  finally show "drop_bit 12 x = drop_bit 12 va + of_nat ((unat x - unat va) div 4096)" by simp
  have "unat (x AND 0xFFF) = unat x mod 4096"
    using and_mask_mod [of x 12] by (simp add: mask_eq_exp_minus_1)
  also have "\<dots> = (unat x - unat va) mod 4096"
    using assms by (rule aligned_split(2))
  finally show "unat (x AND 0xFFF) = (unat x - unat va) mod 4096" .
qed

lemma resolved_address:
  fixes pa va x :: u64
  assumes al: "unat va mod 4096 = 0" "unat pa mod 4096 = 0" and x: "unat va \<le> unat x"
    and i: "i = (unat x - unat va) div 4096" and b: "unat pa + i * 4096 < 2 ^ 48"
  shows "push_bit 12 (ucast (ucast (drop_bit 12 pa + of_nat i) :: 36 word)) + (x AND 0xFFF) = pa + (x - va)"
proof -
  have d: "unat (drop_bit 12 pa) = unat pa div 4096"
    by (simp only: unat_drop_bit_eq) (simp add: drop_bit_eq_div)
  have "unat pa div 4096 + i = (unat pa + i * 4096) div 4096" by simp
  moreover have "(unat pa + i * 4096) div 4096 < 2 ^ 36" using b by (intro less_mult_imp_div_less) simp
  ultimately have div48: "unat pa div 4096 + i < 2 ^ 36" by simp
  have pg: "drop_bit 12 pa + of_nat i = of_nat (unat pa div 4096 + i)"
    by (simp only: of_nat_add d [symmetric]) simp
  have un: "unat (drop_bit 12 pa + of_nat i) = unat pa div 4096 + i"
    unfolding pg using div48 by (intro unat_of_nat_u64) simp
  have "bit (drop_bit 12 pa + of_nat i) n \<Longrightarrow> n < 36" for n
    using bit_bound [of "drop_bit 12 pa + of_nat i" 36 n] un div48 by simp
  then have uc: "ucast (ucast (drop_bit 12 pa + of_nat i) :: 36 word) = drop_bit 12 pa + of_nat i"
    by (intro bit_word_eqI) (auto simp: bit_simps)
  have "push_bit 12 (drop_bit 12 pa + of_nat i) = of_nat ((unat pa div 4096 + i) * 4096)"
    unfolding pg by (simp add: push_bit_eq_mult)
  also have "(unat pa div 4096 + i) * 4096 = unat pa + i * 4096"
    using aligned_split(3) [OF al(2) order_refl] by (simp only: add_mult_distrib)
  finally have p: "push_bit 12 (drop_bit 12 pa + of_nat i) = of_nat (unat pa + i * 4096)" .
  have "(x AND 0xFFF) = of_nat ((unat x - unat va) mod 4096)"
    by (simp only: page_split(2) [OF al(1) x, symmetric]) simp
  then have "push_bit 12 (drop_bit 12 pa + of_nat i) + (x AND 0xFFF) = of_nat (unat pa + (i * 4096 + (unat x - unat va) mod 4096))"
    using p by simp
  also have "i * 4096 + (unat x - unat va) mod 4096 = unat x - unat va" using i by simp
  also have "(of_nat (unat pa + (unat x - unat va)) :: u64) = pa + (x - va)" using x by (simp add: of_nat_diff)
  finally show ?thesis unfolding uc .
qed

section \<open>Theorems\<close>

text \<open>C1. Mapping and resolving are inverse: after \<open>MapPhysicalPages\<close> has mapped \<open>Count\<close> 4 KB pages at \<open>va\<close> to
  \<open>pa\<close>, every address \<open>x\<close> of the range resolves to \<open>pa + (x - va)\<close>, and every address of another page
  that was mapped by a 4 KB page resolves as before.  The call returns whenever the allocator has three
  unused pages per mapped page.\<close>

theorem MapPhysicalPages_resolves:
  assumes wf: "pt_wf (mem, pages) (drop_bit 12 PageMap)"
    and fl: "Flags AND PM_LARGE_PAGES = 0" "Flags AND PM_PRESENT \<noteq> 0"
    and al: "unat va mod 4096 = 0" "unat pa mod 4096 = 0"
    and bd: "unat pa + Count * 4096 \<le> 2 ^ 48" and pg: "3 * Count \<le> length pages"
    and nl: "\<forall>i < Count. no_large mem (drop_bit 12 PageMap) (drop_bit 12 va + of_nat i)"
  shows "\<exists>mem' pages'. MapPhysicalPages NX (mem, pages) PageMap va pa Count Flags = Inr (mem', pages') \<and>
    (\<forall>x. unat va \<le> unat x \<and> unat x < unat va + Count * 4096 \<longrightarrow>
       KeResolvePhysicalAddress mem' PageMap x = pa + (x - va)) \<and>
    (\<forall>x. translation mem (drop_bit 12 PageMap) (drop_bit 12 x) \<noteq> None \<and>
       (\<forall>i < Count. page_key (drop_bit 12 x) \<noteq> page_key (drop_bit 12 va + of_nat i)) \<longrightarrow>
       KeResolvePhysicalAddress mem' PageMap x = KeResolvePhysicalAddress mem PageMap x)"
proof -
  let ?root = "drop_bit 12 PageMap" and ?v = "drop_bit 12 (canonical_fold va)"
  have key: "page_key (?v + of_nat i) = page_key (drop_bit 12 va + of_nat i)" for i
    by (rule page_key_add) (rule fold_low_bits)
  have nl': "\<forall>i < Count. no_large mem ?root (?v + of_nat i)"
    using nl key_no_large [OF key, of mem ?root] by blast
  have cnt: "Count \<le> 2 ^ 36" using bd by simp
  obtain mem' pages' where m: "MapPhysicalPages NX (mem, pages) PageMap va pa Count Flags = Inr (mem', pages')"
    and at: "\<And>i. i < Count \<Longrightarrow> translation mem' ?root (?v + of_nat i) =
       Some ((ModelEntry NX Flags)\<lparr> PhysicalAddr := ucast (drop_bit 12 pa + of_nat i) \<rparr>)"
    and other: "\<And>w. \<forall>i < Count. page_key w \<noteq> page_key (?v + of_nat i) \<Longrightarrow> translation mem' ?root w = translation mem ?root w"
    using map_loop_ok [OF wf fl nl' pg cnt, of NX "drop_bit 12 pa"] unfolding MapPhysicalPages_def by blast
  have "KeResolvePhysicalAddress mem' PageMap x = pa + (x - va)"
    if x: "unat va \<le> unat x" "unat x < unat va + Count * 4096" for x
  proof -
    define i where "i = (unat x - unat va) div 4096"
    have i: "i < Count" using x unfolding i_def by (intro less_mult_imp_div_less) simp
    have pgx: "drop_bit 12 x = drop_bit 12 va + of_nat i" using page_split(1) [OF al(1) x(1)] by (simp only: i_def)
    have "translation mem' ?root (drop_bit 12 x) = translation mem' ?root (?v + of_nat i)"
      unfolding pgx using key by (intro key_translation) simp
    then have "translation mem' ?root (drop_bit 12 x) =
        Some ((ModelEntry NX Flags)\<lparr> PhysicalAddr := ucast (drop_bit 12 pa + of_nat i) \<rparr>)"
      using at [OF i] by simp
    then have "KeResolvePhysicalAddress mem' PageMap x =
        push_bit 12 (ucast (ucast (drop_bit 12 pa + of_nat i) :: 36 word)) + (x AND 0xFFF)"
      using Resolve_translation by (auto simp: frame_of_def)
    also have "\<dots> = pa + (x - va)"
      using bd i by (intro resolved_address [OF al x(1) i_def]) linarith
    finally show ?thesis .
  qed
  moreover have "KeResolvePhysicalAddress mem' PageMap x = KeResolvePhysicalAddress mem PageMap x"
    if mapped: "translation mem ?root (drop_bit 12 x) \<noteq> None"
      and out: "\<forall>i < Count. page_key (drop_bit 12 x) \<noteq> page_key (drop_bit 12 va + of_nat i)" for x
  proof -
    obtain e where "translation mem ?root (drop_bit 12 x) = Some e" using mapped by blast
    moreover from this have "translation mem' ?root (drop_bit 12 x) = Some e"
      using other [of "drop_bit 12 x"] out key by simp
    ultimately show ?thesis using Resolve_translation by metis
  qed
  ultimately show ?thesis using m by blast
qed

lemma ModelEntry_large:
  "Flags AND PM_LARGE_PAGES \<noteq> 0 \<Longrightarrow> SizePAT (ModelEntry NX Flags)"
  by (simp add: ModelEntry_def Let_def with_flag_def)

lemma ModelEntry_PhysicalAddr:
  "Flags AND PM_WRITE_THROUGH = 0 \<Longrightarrow> PhysicalAddr (ModelEntry NX Flags) = 0"
  unfolding ModelEntry_def Let_def by (simp add: with_flag_fields) (simp add: with_flag_def PTBLENTRY_zero_def)

text \<open>Remark. A 2 MB page resolves to the wrong address: \<open>MapPhysicalPages\<close> stores the physical page number
  (\<open>pa >> 12\<close>), \<open>KeResolvePhysicalAddress\<close> shifts it back by 21, so the mapped address \<open>pa\<close> is reported as
  \<open>pa << 9\<close>.\<close>

theorem large_page_resolves_shifted:
  assumes wf: "pt_wf (mem, pages) (drop_bit 12 PageMap)"
    and fl: "Flags AND PM_LARGE_PAGES \<noteq> 0" "Flags AND PM_PRESENT \<noteq> 0" "Flags AND PM_WRITE_THROUGH = 0"
    and al: "va AND 0x1FFFFF = 0" "unat pa mod 4096 = 0" "unat pa < 2 ^ 48"
    and low: "unat va < 2 ^ 47" and pg: "2 \<le> length pages"
  shows "\<exists>mem' pages'. MapPhysicalPages NX (mem, pages) PageMap va pa 1 Flags = Inr (mem', pages') \<and>
    KeResolvePhysicalAddress mem' PageMap va = push_bit 9 pa"
proof -
  let ?root = "drop_bit 12 PageMap" and ?v = "drop_bit 12 va"
  have fold: "canonical_fold va = va"
  proof -
    have "\<not> bit va 63" using bit_bound [OF low, of 63] by auto
    moreover have "bit (0xFFFF800000000000 :: u64) 63" by (simp add: bit_iff_odd_drop_bit drop_bit_eq_div)
    ultimately have "va AND 0xFFFF800000000000 \<noteq> 0xFFFF800000000000" by (metis bit_and_iff)
    then show ?thesis by (simp add: canonical_fold_def)
  qed
  obtain m1 p1 f1 where 1: "ensure_table (mem, pages) ?root (Pml4Index ?v) = Inr ((m1, p1), f1)"
    "pt_wf (m1, p1) ?root" "tbl m1 ?root [Pml4Index ?v] = Some f1" "length pages \<le> Suc (length p1)"
    using ensure_ok [OF wf, of "[]" ?root "Pml4Index ?v"] pg by (cases pages) (auto simp del: tbl.simps(2))
  obtain m2 p2 f2 where 2: "ensure_table (m1, p1) f1 (PdpIndex ?v) = Inr ((m2, p2), f2)"
    "pt_wf (m2, p2) ?root" "tbl m2 ?root [PdpIndex ?v, Pml4Index ?v] = Some f2" "extends ?root m1 m2"
    using ensure_ok [OF 1(2,3), of "PdpIndex ?v"] pg 1(4) by (cases p1) (auto simp del: tbl.simps(2))
  have f1: "tbl m2 ?root [Pml4Index ?v] = Some f1" using extends_tbl [OF 2(4) 1(3)] by simp
  have inj: "tbl_inj m2 ?root" using 2(2) by (simp add: pt_wf_def)
  have ne: "f2 \<noteq> f1" "f2 \<noteq> ?root"
    using tbl_injD [OF inj 2(3), of "[Pml4Index ?v]"] f1 tbl_injD [OF inj 2(3), of "[]"] by (auto simp del: tbl.simps(2))
  define e where "e = (ModelEntry NX Flags)\<lparr> PhysicalAddr := ucast (drop_bit 12 pa) OR PhysicalAddr (ModelEntry NX Flags) \<rparr>"
  have e: "pte_Present e" "SizePAT e" "frame_of e = drop_bit 12 pa"
    using ModelEntry_Present [of NX Flags] ModelEntry_large [OF fl(1), of NX] ModelEntry_PhysicalAddr [OF fl(3), of NX] fl(2)
      frame_of_page [OF al(3)]
    by (auto simp: e_def frame_of_def)
  let ?m = "pt_set m2 f2 (PdIndex ?v) e"
  have "MapPhysicalPages NX (mem, pages) PageMap va pa 1 Flags = Inr (?m, p2)"
    using 1(1) 2(1) fl(1) by (simp add: MapPhysicalPages_def fold map_one_page_def e_def)
  moreover have "KeResolvePhysicalAddress ?m PageMap va = push_bit 21 (drop_bit 12 pa)"
  proof -
    have r4: "?m ?root (Pml4Index ?v) = m2 ?root (Pml4Index ?v)" "?m f1 (PdpIndex ?v) = m2 f1 (PdpIndex ?v)"
      using ne by (simp_all add: pt_set_def)
    have p4: "pte_Present (m2 ?root (Pml4Index ?v))" "frame_of (m2 ?root (Pml4Index ?v)) = f1"
      using f1 by (auto simp: table_entry_def split: if_splits)
    have p3: "pte_Present (m2 f1 (PdpIndex ?v))" "frame_of (m2 f1 (PdpIndex ?v)) = f2"
      using 2(3) f1 by (auto simp: table_entry_def split: if_splits)
    have "?m f2 (PdIndex ?v) = e" by (simp add: pt_set_def)
    then show ?thesis using r4 p4 p3 e al(1) by (simp add: KeResolvePhysicalAddress_def Let_def)
  qed
  moreover have "push_bit 21 (drop_bit 12 pa) = push_bit 9 pa"
  proof -
    have "\<not> bit pa n" if "n < 12" for n
    proof -
      have "unat (take_bit 12 pa) = 0"
        using al(2) by (simp only: unsigned_take_bit_eq) (simp add: take_bit_eq_mod)
      then have "take_bit 12 pa = 0" by (simp only: unat_eq_zero)
      then show ?thesis using that by (metis bit_0_eq bit_take_bit_iff bot_apply bot_bool_def)
    qed
    then have nb: "n < 21 \<Longrightarrow> \<not> bit pa (n - 9)" for n by simp
    have ix: "21 \<le> n \<Longrightarrow> 12 + (n - 21) = n - 9" for n :: nat by simp
    show ?thesis
    proof (rule bit_word_eqI)
      fix n
      show "bit (push_bit 21 (drop_bit 12 pa)) n = bit (push_bit 9 pa) n"
        using nb [of n] ix [of n] by (cases "21 \<le> n") (simp_all add: bit_simps)
    qed
  qed
  ultimately show ?thesis by auto
qed

section \<open>Witnesses\<close>

text \<open>An empty page map in frame 1, and six free pages.\<close>

definition empty_mem :: pt_mem where "empty_mem = (\<lambda>_ _. PTBLENTRY_zero)"
definition free_pages :: "u64 list" where "free_pages = [0x2000, 0x3000, 0x4000, 0x5000, 0x6000, 0x7000]"

lemma free_pages_length: "length free_pages = 6"
  by (simp add: free_pages_def)

lemma empty_tbl: "tbl empty_mem root p = Some f \<longleftrightarrow> p = [] \<and> f = root"
  by (cases p) (auto simp: empty_mem_def table_entry_def PTBLENTRY_zero_def split: option.splits)

lemma empty_wf: "pt_wf (empty_mem, free_pages) 1"
  unfolding pt_wf_def
proof (intro conjI)
  show "tbl_inj (fst (empty_mem, free_pages)) 1" by (auto simp: tbl_inj_def empty_tbl)
  show "distinct (map (drop_bit 12) (snd (empty_mem, free_pages)))" by (simp add: free_pages_def drop_bit_eq_div)
  show "\<forall>a \<in> set (snd (empty_mem, free_pages)). a \<noteq> 0 \<and> unat a < 2 ^ 48 \<and> unused (fst (empty_mem, free_pages)) 1 (drop_bit 12 a)"
    by (auto simp: free_pages_def unused_def empty_tbl drop_bit_eq_div)
qed

lemma empty_no_large: "no_large empty_mem root page"
  by (auto simp: no_large_def empty_mem_def PTBLENTRY_zero_def simp del: tbl.simps)

theorem MapPhysicalPages_resolves_witness:
  "\<exists>mem' pages'. MapPhysicalPages True (empty_mem, free_pages) 0x1000 0xFFFF800000400000 0x200000 2 PM_MAP = Inr (mem', pages') \<and>
     KeResolvePhysicalAddress mem' 0x1000 0xFFFF800000401234 = 0x201234"
proof -
  have root: "(drop_bit 12 0x1000 :: u64) = 1" by (simp add: drop_bit_eq_div)
  have "\<exists>mem' pages'. MapPhysicalPages True (empty_mem, free_pages) 0x1000 0xFFFF800000400000 0x200000 2 PM_MAP = Inr (mem', pages') \<and>
    (\<forall>x. unat (0xFFFF800000400000 :: u64) \<le> unat x \<and> unat x < unat (0xFFFF800000400000 :: u64) + 2 * 4096 \<longrightarrow>
       KeResolvePhysicalAddress mem' 0x1000 x = 0x200000 + (x - 0xFFFF800000400000)) \<and>
    (\<forall>x. translation empty_mem (drop_bit 12 0x1000) (drop_bit 12 x) \<noteq> None \<and>
       (\<forall>i < 2. page_key (drop_bit 12 x) \<noteq> page_key (drop_bit 12 0xFFFF800000400000 + of_nat i)) \<longrightarrow>
       KeResolvePhysicalAddress mem' 0x1000 x = KeResolvePhysicalAddress empty_mem 0x1000 x)"
    by (rule MapPhysicalPages_resolves)
       (simp_all add: root empty_wf empty_no_large free_pages_length PM_MAP_def PM_PRESENT_def PM_READWRITE_def PM_LARGE_PAGES_def)
  then show ?thesis by auto
qed

theorem large_page_resolves_shifted_witness:
  "\<exists>mem' pages'. MapPhysicalPages True (empty_mem, free_pages) 0x1000 0x400000 0x200000 1 (PM_MAP OR PM_LARGE_PAGES) = Inr (mem', pages') \<and>
     KeResolvePhysicalAddress mem' 0x1000 0x400000 = 0x40000000"
proof -
  have root: "(drop_bit 12 0x1000 :: u64) = 1" by (simp add: drop_bit_eq_div)
  have "\<exists>mem' pages'. MapPhysicalPages True (empty_mem, free_pages) 0x1000 0x400000 0x200000 1 (PM_MAP OR PM_LARGE_PAGES) = Inr (mem', pages') \<and>
     KeResolvePhysicalAddress mem' 0x1000 0x400000 = push_bit 9 0x200000"
    by (rule large_page_resolves_shifted)
       (simp_all add: root empty_wf free_pages_length PM_MAP_def PM_PRESENT_def PM_READWRITE_def PM_LARGE_PAGES_def PM_WRITE_THROUGH_def)
  then show ?thesis by (simp add: push_bit_eq_mult)
qed

end
