(* ===== verification/Physical_Memory.thy ===== *)
theory Physical_Memory
  imports Paging
begin

text \<open>
  The contiguous page allocator (\<open>Memory Management/allocate.c\<close>) and the I/O address space allocator
  (\<open>Memory Management/iomem.c\<close>).  The page bitmap is a list of 64-bit words, a set bit meaning an
  allocated page; page \<open>64 * i + c\<close> of the page array belongs to bit \<open>c\<close> of word \<open>i\<close>.  The call of
  \<open>MapPhysicalPages\<close> that ends an I/O allocation is returned as the virtual address and the flags of the mapping.
  Shifts by the word size follow the processor, which uses the count modulo the operand size.
\<close>

section \<open>Contiguous pages (AllocateContiguousPages)\<close>

text \<open>The free bits of a word in the order in which \<open>_BitScanForward64\<close> delivers them.\<close>

definition free_bits :: "u64 \<Rightarrow> nat list" where
  "free_bits w = filter (\<lambda>c. \<not> bit w c) [0..<64]"

record run =
  Arrival :: nat
  PagesStartBmp :: nat
  PagesStartIndex :: nat
  PhysicalStart :: u64

text \<open>The scan of one word: \<open>Inl\<close> the index at which the run is complete, \<open>Inr\<close> the run so far.\<close>

fun scan_word :: "u64 \<Rightarrow> (nat \<Rightarrow> u64) \<Rightarrow> nat \<Rightarrow> nat list \<Rightarrow> nat \<Rightarrow> run \<Rightarrow> (nat \<times> run) + run" where
  "scan_word NumPages PageNumber i [] NextIndex r = Inr r"
| "scan_word NumPages PageNumber i (Index # is) NextIndex r =
     (let r1 = (if Index \<noteq> NextIndex then r\<lparr> Arrival := 0 \<rparr> else r);
          r2 = (if Arrival r1 = 0
                then r1\<lparr> PagesStartBmp := i, PagesStartIndex := Index,
                         PhysicalStart := push_bit 12 (PageNumber (64 * i + Index)) \<rparr>
                else r1);
          r3 = r2\<lparr> Arrival := Suc (Arrival r2) \<rparr>
      in if of_nat (Arrival r3) = NumPages then Inl (Index, r3)
         else scan_word NumPages PageNumber i is (Suc Index) r3)"

fun scan_words :: "u64 \<Rightarrow> (nat \<Rightarrow> u64) \<Rightarrow> nat \<Rightarrow> u64 list \<Rightarrow> run \<Rightarrow> (nat \<times> nat \<times> run) option" where
  "scan_words NumPages PageNumber i [] r = None"
| "scan_words NumPages PageNumber i (w # ws) r =
     (case scan_word NumPages PageNumber i (free_bits w) 0 r of
        Inl (Index, r') \<Rightarrow> Some (i, Index, r')
      | Inr r' \<Rightarrow> scan_words NumPages PageNumber (Suc i) ws r')"

definition all_ones :: u64 where "all_ones = - 1"

text \<open>Marking the pages of the run that ends at bit \<open>Index\<close> of word \<open>i\<close>.\<close>

definition mark_run :: "u64 list \<Rightarrow> u64 \<Rightarrow> nat \<Rightarrow> nat \<Rightarrow> run \<Rightarrow> u64 list" where
  "mark_run bmp NumPages i Index r =
     (let s = PagesStartBmp r; x = PagesStartIndex r
      in if s = i then
           bmp[i := (bmp ! i) OR push_bit x (drop_bit (64 - unat NumPages) all_ones)]
         else
           (let b1 = bmp[s := (bmp ! s) OR drop_bit (63 - x) all_ones];
                n1 = (if of_nat (64 - x) \<le> NumPages then NumPages - of_nat (64 - x) else 0);
                b2 = fold (\<lambda>k b. b[k := all_ones]) [Suc s..<i] b1;
                n2 = n1 - 64 * of_nat (i - Suc s)
            in if n2 \<noteq> 0 then b2[i := (b2 ! i) OR push_bit (Suc Index mod 64) all_ones] else b2))"

text \<open>The mutex is taken on entry and released before each of the two returns.\<close>

definition AllocateContiguousPages ::
  "(nat \<Rightarrow> u64) \<Rightarrow> u64 \<Rightarrow> u64 list \<Rightarrow> u64 \<Rightarrow> (u64 \<times> u64 list \<times> u64) outcome" where
  "AllocateContiguousPages PageNumber AllocateContiguousMutex bmp NumPages =
     andThen (SpinLockSyncBitTestAndSet AllocateContiguousMutex 0) (\<lambda>mx.
     case scan_words NumPages PageNumber 0 bmp
            \<lparr> Arrival = 0, PagesStartBmp = 0, PagesStartIndex = 0, PhysicalStart = 0 \<rparr> of
       None \<Rightarrow> Inr (BitRelease mx 0, bmp, 0)
     | Some (i, Index, r) \<Rightarrow> Inr (BitRelease mx 0, mark_run bmp NumPages i Index r, PhysicalStart r))"

section \<open>I/O address space (AllocateIoMemory)\<close>

definition IO_BITMAP_SIZE :: nat where "IO_BITMAP_SIZE = 0x1FF"
definition SYSTEM_SPACE48_IO :: u64 where "SYSTEM_SPACE48_IO = 0x200000000000"

definition IO_MEMORY_CACHE_DISABLED :: u32 where "IO_MEMORY_CACHE_DISABLED = 1"
definition IO_MEMORY_WRITE_THROUGH :: u32 where "IO_MEMORY_WRITE_THROUGH = 2"
definition IO_MEMORY_READ_ONLY :: u32 where "IO_MEMORY_READ_ONLY = 4"
definition IO_MEMORY_WRITE_COMBINE :: u32 where "IO_MEMORY_WRITE_COMBINE = 8"

text \<open>Page \<open>k\<close> of the I/O space is bit \<open>k mod 64\<close> of word \<open>k div 64\<close>.\<close>

definition io_used :: "u64 list \<Rightarrow> nat \<Rightarrow> bool" where
  "io_used bm k = bit (bm ! (k div 64)) (k mod 64)"

definition io_set :: "u64 list \<Rightarrow> nat \<Rightarrow> u64 list" where
  "io_set bm k = bm[k div 64 := set_bit (k mod 64) (bm ! (k div 64))]"

text \<open>The two nested scan loops over the pages of the bitmap: start of the run and its length so far.\<close>

fun io_scan :: "u64 list \<Rightarrow> nat \<Rightarrow> nat list \<Rightarrow> nat option \<Rightarrow> nat \<Rightarrow> nat option" where
  "io_scan bm NumPages [] start Pages = None"
| "io_scan bm NumPages (k # ks) start Pages =
     (if io_used bm k then io_scan bm NumPages ks None (if start = None then Pages else 0)
      else
        (let s = (case start of None \<Rightarrow> k | Some s \<Rightarrow> s)
         in if Suc Pages = NumPages then Some s else io_scan bm NumPages ks (Some s) (Suc Pages)))"

definition io_map_flags :: "u32 \<Rightarrow> u64" where
  "io_map_flags Flags =
     (let f = PM_MAP OR PM_NX;
          f1 = (if Flags AND IO_MEMORY_WRITE_THROUGH \<noteq> 0 then f OR PM_WRITE_THROUGH
                else if Flags AND IO_MEMORY_CACHE_DISABLED \<noteq> 0 then f OR PM_CACHE_DISABLE
                else if Flags AND IO_MEMORY_WRITE_COMBINE \<noteq> 0 then f OR PM_WRITE_COMBINE else f)
      in if Flags AND IO_MEMORY_READ_ONLY \<noteq> 0 then f1 AND NOT PM_READWRITE else f1)"

text \<open>
  \<open>Limit\<close> is \<open>SYSTEM_SPACE48_RAM - SYSTEM_SPACE48_IO\<close>, \<open>Base\<close> is \<open>SystemSpaceBase\<close>.  When the bitmap has
  no run the code follows \<open>Next\<close>, which no code ever sets (the test \<open>if(!Bmp)\<close> looks at the wrong pointer),
  and reads through a null pointer.  The result names the virtual address and the flags of the mapping.
\<close>

record io_state =
  IoMemorySize :: u64
  IoMemMutex :: u64
  IoBitmap :: "u64 list"

definition AllocateIoMemory ::
  "u64 \<Rightarrow> u64 \<Rightarrow> io_state \<Rightarrow> nat \<Rightarrow> u32 \<Rightarrow> (io_state \<times> (u64 \<times> u64) option) outcome" where
  "AllocateIoMemory Base Limit st NumPages Flags =
     (if NumPages = 0 \<or> IoMemorySize st + push_bit 12 (of_nat NumPages) > Limit then Inr (st, None) else
      andThen (SpinLockSyncBitTestAndSet (IoMemMutex st) 0) (\<lambda>mx.
      case io_scan (IoBitmap st) NumPages [0..<64 * IO_BITMAP_SIZE] None 0 of
        None \<Rightarrow> Inl NullDeref
      | Some s \<Rightarrow>
          Inr (st\<lparr> IoMemMutex := BitRelease mx 0, IoBitmap := fold (\<lambda>k b. io_set b k) [s..<s + NumPages] (IoBitmap st) \<rparr>,
               Some (Base + SYSTEM_SPACE48_IO + of_nat s * 0x1000, io_map_flags Flags))))"

section \<open>Contiguous pages: what the scan finds\<close>

lemma free_bits_set: "set (free_bits w) = {c. c < 64 \<and> \<not> bit w c}"
  by (auto simp: free_bits_def)

lemma sorted_free_bits: "sorted_wrt (<) (free_bits w)"
  unfolding free_bits_def by (rule sorted_wrt_filter) simp

text \<open>
  The run of the scan inside word \<open>i\<close>: if it started in this word, it covers the bits from its start
  up to \<open>NextIndex\<close>, and all of them are free.
\<close>

definition run_inv :: "u64 \<Rightarrow> (nat \<Rightarrow> u64) \<Rightarrow> nat \<Rightarrow> nat \<Rightarrow> run \<Rightarrow> bool" where
  "run_inv w PageNumber i NextIndex r \<longleftrightarrow>
     PagesStartBmp r = i \<longrightarrow> Arrival r \<noteq> 0 \<longrightarrow>
       NextIndex = PagesStartIndex r + Arrival r \<and> NextIndex \<le> 64 \<and>
       (\<forall>c. PagesStartIndex r \<le> c \<and> c < NextIndex \<longrightarrow> \<not> bit w c) \<and>
       PhysicalStart r = push_bit 12 (PageNumber (64 * i + PagesStartIndex r))"

lemma scan_word_run:
  assumes "scan_word NumPages PageNumber i is NextIndex r = Inl (Index, r')"
    and "run_inv w PageNumber i NextIndex r" and "set is \<subseteq> set (free_bits w)"
  shows "run_inv w PageNumber i (Suc Index) r' \<and> Arrival r' \<noteq> 0 \<and> of_nat (Arrival r') = NumPages"
  using assms
proof (induction "is" arbitrary: NextIndex r)
  case Nil
  then show ?case by simp
next
  case (Cons c cs)
  define r1 where "r1 = (if c \<noteq> NextIndex then r\<lparr> Arrival := 0 \<rparr> else r)"
  define r2 where "r2 = (if Arrival r1 = 0
                then r1\<lparr> PagesStartBmp := i, PagesStartIndex := c,
                         PhysicalStart := push_bit 12 (PageNumber (64 * i + c)) \<rparr>
                else r1)"
  define r3 where "r3 = r2\<lparr> Arrival := Suc (Arrival r2) \<rparr>"
  have c: "c < 64" "\<not> bit w c" using Cons.prems(3) by (auto simp: free_bits_set)
  have inv: "run_inv w PageNumber i (Suc c) r3"
    using Cons.prems(2) c
    by (auto simp: run_inv_def r1_def r2_def r3_def less_Suc_eq split: if_splits)
  have a: "Arrival r3 \<noteq> 0" by (simp add: r3_def)
  have step: "scan_word NumPages PageNumber i (c # cs) NextIndex r =
      (if of_nat (Arrival r3) = NumPages then Inl (c, r3)
       else scan_word NumPages PageNumber i cs (Suc c) r3)"
    by (simp add: r1_def r2_def r3_def Let_def)
  show ?case
  proof (cases "of_nat (Arrival r3) = NumPages")
    case True
    then show ?thesis using inv a Cons.prems(1) step by auto
  next
    case False
    then show ?thesis using Cons.IH [of "Suc c" r3] inv Cons.prems step by auto
  qed
qed

lemma scan_word_start:
  "scan_word NumPages PageNumber i is NextIndex r = Inr r' \<Longrightarrow> PagesStartBmp r \<le> i \<Longrightarrow> PagesStartBmp r' \<le> i"
  by (induction "is" arbitrary: NextIndex r) (auto simp: Let_def split: if_splits)

lemma scan_words_run:
  assumes "scan_words NumPages PageNumber i ws r = Some (j, Index, r')"
    and "PagesStartBmp r < i \<or> Arrival r = 0"
    and "PagesStartBmp r \<le> i"
  shows "i \<le> j \<and> j < i + length ws \<and> run_inv (ws ! (j - i)) PageNumber j (Suc Index) r' \<and>
     Arrival r' \<noteq> 0 \<and> of_nat (Arrival r') = NumPages"
  using assms
proof (induction ws arbitrary: i r)
  case Nil
  then show ?case by simp
next
  case (Cons w ws)
  have inv: "run_inv w PageNumber i 0 r" using Cons.prems(2) by (auto simp: run_inv_def)
  show ?case
  proof (cases "scan_word NumPages PageNumber i (free_bits w) 0 r")
    case (Inl p)
    then show ?thesis using scan_word_run [of NumPages PageNumber i "free_bits w" 0 r _ _ w] inv Cons.prems(1)
      by (cases p) auto
  next
    case (Inr r1)
    then have "PagesStartBmp r1 \<le> i" using scan_word_start Cons.prems(3) by blast
    then have "Suc i \<le> j \<and> j < Suc i + length ws \<and> run_inv (ws ! (j - Suc i)) PageNumber j (Suc Index) r' \<and>
       Arrival r' \<noteq> 0 \<and> of_nat (Arrival r') = NumPages"
      using Cons.IH [of "Suc i" r1] Inr Cons.prems(1) by simp
    then show ?thesis by (auto simp: nth_Cons')
  qed
qed

lemma bit_run_mask:
  "0 < n \<Longrightarrow> n \<le> 64 \<Longrightarrow> bit (push_bit x (drop_bit (64 - n) all_ones)) c \<longleftrightarrow> c < 64 \<and> x \<le> c \<and> c < x + n"
  by (auto simp: all_ones_def bit_simps)


lemma release_taken: "BitRelease 1 0 = 0"
  by (simp add: BitRelease_def unset_bit_0)


text \<open>
  Remark. A run that crosses a word boundary need not be contiguous: the counter \<open>Arrival\<close> is not reset when
  the free run of a word ends before bit 63 and the next word starts with a free page.  For a bitmap whose two
  words have bit 0 free and all other bits taken, a request for two contiguous pages returns page 0
  although page 1 is allocated, and of the pages it counted only page 0 is marked: page 64 stays free.
\<close>

theorem AllocateContiguousPages_not_contiguous:
  "AllocateContiguousPages PageNumber 0 [0xFFFFFFFFFFFFFFFE, 0xFFFFFFFFFFFFFFFE] 2 =
     Inr (0, [0xFFFFFFFFFFFFFFFF, 0xFFFFFFFFFFFFFFFE], push_bit 12 (PageNumber 0)) \<and>
   bit (0xFFFFFFFFFFFFFFFE :: u64) 1 \<and> \<not> bit (0xFFFFFFFFFFFFFFFE :: u64) 0"
proof -
  have f: "free_bits 0xFFFFFFFFFFFFFFFE = [0]" by code_simp
  show ?thesis
    by (simp add: AllocateContiguousPages_def spin_free scan_words.simps f mark_run_def all_ones_def release_taken)
qed

section \<open>I/O address space: first fit\<close>

text \<open>Pages \<open>s\<close> to \<open>s + NumPages - 1\<close> lie in the bitmap of \<open>n\<close> pages and are free.\<close>

definition io_run :: "u64 list \<Rightarrow> nat \<Rightarrow> nat \<Rightarrow> nat \<Rightarrow> bool" where
  "io_run bm n NumPages s \<longleftrightarrow> s + NumPages \<le> n \<and> (\<forall>k \<in> {s..<s + NumPages}. \<not> io_used bm k)"

lemma io_scan_inv:
  assumes "k \<le> n" and "p + Pages = k" and "Pages < NumPages" and "start = (if Pages = 0 then None else Some p)"
    and "\<forall>j \<in> {p..<k}. \<not> io_used bm j" and "\<forall>s < p. \<not> io_run bm n NumPages s"
  shows "case io_scan bm NumPages [k..<n] start Pages of
      Some s \<Rightarrow> io_run bm n NumPages s \<and> (\<forall>s' < s. \<not> io_run bm n NumPages s')
    | None \<Rightarrow> \<forall>s. \<not> io_run bm n NumPages s"
  using assms
proof (induction "n - k" arbitrary: k p Pages start)
  case 0
  then have "\<not> io_run bm n NumPages s" for s
    using 0 by (cases "s < p") (auto simp: io_run_def)
  then show ?case using 0 by simp
next
  case (Suc d)
  then have k: "k < n" "[k..<n] = k # [Suc k..<n]" by (simp_all add: upt_rec)
  show ?case
  proof (cases "io_used bm k")
    case True
    have "\<not> io_run bm n NumPages s" if "s < Suc k" for s
    proof (cases "s < p")
      case True
      then show ?thesis using Suc.prems by blast
    next
      case False
      then have "k \<in> {s..<s + NumPages}" using that Suc.prems by auto
      then show ?thesis using True by (auto simp: io_run_def)
    qed
    then show ?thesis using Suc.hyps(1) [of "Suc k" "Suc k" 0 None] Suc.hyps(2) Suc.prems k True by auto
  next
    case False
    have f: "\<forall>j \<in> {p..<Suc k}. \<not> io_used bm j" using Suc.prems False by (auto simp: less_Suc_eq)
    have st: "(case start of None \<Rightarrow> k | Some s \<Rightarrow> s) = p" using Suc.prems by auto
    show ?thesis
    proof (cases "Suc Pages = NumPages")
      case True
      then show ?thesis using False st f k Suc.prems by (auto simp: io_run_def)
    next
      case neq: False
      then show ?thesis
        using Suc.hyps(1) [of "Suc k" p "Suc Pages" "Some p"] Suc.hyps(2) Suc.prems k f False st by (simp add: Let_def)
    qed
  qed
qed

lemmas io_scan_first_fit = io_scan_inv [where k = 0 and p = 0 and Pages = 0 and start = None, simplified]

lemma io_used_set:
  "k div 64 < length bm \<Longrightarrow> io_used (io_set bm j) k \<longleftrightarrow> io_used bm k \<or> j = k"
proof -
  assume k: "k div 64 < length bm"
  have jk: "j = k \<longleftrightarrow> j div 64 = k div 64 \<and> j mod 64 = k mod 64" by (metis div_mult_mod_eq)
  show ?thesis
  proof (cases "j div 64 = k div 64")
    case True
    then have "j = k \<longleftrightarrow> j mod 64 = k mod 64" using jk by simp
    then show ?thesis using k True by (auto simp: io_used_def io_set_def bit_set_bit_iff)
  next
    case False
    then show ?thesis using jk by (auto simp: io_used_def io_set_def)
  qed
qed

lemma length_io_sets [simp]: "length (fold (\<lambda>k b. io_set b k) ks bm) = length bm"
  by (induction ks arbitrary: bm) (simp_all add: io_set_def)

lemma io_used_sets:
  "k div 64 < length bm \<Longrightarrow> io_used (fold (\<lambda>k b. io_set b k) ks bm) k \<longleftrightarrow> io_used bm k \<or> k \<in> set ks"
proof (induction ks arbitrary: bm)
  case Nil
  then show ?case by simp
next
  case (Cons j ks)
  have "length (io_set bm j) = length bm" by (simp add: io_set_def)
  then show ?case using Cons by (auto simp: io_used_set)
qed

definition io_wf :: "io_state \<Rightarrow> bool" where
  "io_wf st \<longleftrightarrow> length (IoBitmap st) = IO_BITMAP_SIZE \<and> \<not> bit (IoMemMutex st) 0"

definition IO_PAGES :: nat where "IO_PAGES = 64 * IO_BITMAP_SIZE"

text \<open>
  C27. \<open>AllocateIoMemory\<close> with a free mutex is first fit over the 32704 pages of the I/O bitmap: for a request
  within the limit it returns the address of the lowest run of free pages, marks exactly these pages and
  releases the mutex; when the bitmap has no such run, it reads through a null pointer, because the test that
  should extend the list of bitmaps looks at the wrong pointer.
\<close>

theorem AllocateIoMemory_first_fit:
  assumes "io_wf st" and "0 < NumPages" and "IoMemorySize st + push_bit 12 (of_nat NumPages) \<le> Limit"
  shows "if \<exists>s. io_run (IoBitmap st) IO_PAGES NumPages s
    then \<exists>s st'. AllocateIoMemory Base Limit st NumPages Flags =
           Inr (st', Some (Base + SYSTEM_SPACE48_IO + of_nat s * 0x1000, io_map_flags Flags)) \<and>
         io_run (IoBitmap st) IO_PAGES NumPages s \<and> (\<forall>s' < s. \<not> io_run (IoBitmap st) IO_PAGES NumPages s') \<and>
         io_wf st' \<and> IoMemorySize st' = IoMemorySize st \<and>
         (\<forall>k < IO_PAGES. io_used (IoBitmap st') k \<longleftrightarrow> io_used (IoBitmap st) k \<or> s \<le> k \<and> k < s + NumPages)
    else AllocateIoMemory Base Limit st NumPages Flags = Inl NullDeref"
proof -
  let ?sc = "io_scan (IoBitmap st) NumPages [0..<64 * IO_BITMAP_SIZE] None 0"
  have l: "\<not> (NumPages = 0 \<or> Limit < IoMemorySize st + push_bit 12 (of_nat NumPages))"
    using assms by (simp add: not_less)
  have mx: "SpinLockSyncBitTestAndSet (IoMemMutex st) 0 = Inr (set_bit 0 (IoMemMutex st))"
    using assms(1) by (simp add: io_wf_def spin_free)
  have ff: "case ?sc of
      Some s \<Rightarrow> io_run (IoBitmap st) IO_PAGES NumPages s \<and> (\<forall>s' < s. \<not> io_run (IoBitmap st) IO_PAGES NumPages s')
    | None \<Rightarrow> \<forall>s. \<not> io_run (IoBitmap st) IO_PAGES NumPages s"
    using io_scan_first_fit [of NumPages "IoBitmap st" IO_PAGES] assms(2) unfolding IO_PAGES_def by simp
  have used: "io_used (fold (\<lambda>k b. io_set b k) [s..<s + NumPages] (IoBitmap st)) k \<longleftrightarrow>
      io_used (IoBitmap st) k \<or> s \<le> k \<and> k < s + NumPages" if "k < IO_PAGES" for s k
    using that assms(1) by (subst io_used_sets) (auto simp: io_wf_def IO_PAGES_def)
  show ?thesis
  proof (cases ?sc)
    case None
    then show ?thesis using ff l mx by (simp add: AllocateIoMemory_def)
  next
    case (Some s)
    define st' where "st' = st\<lparr> IoMemMutex := BitRelease (set_bit 0 (IoMemMutex st)) 0,
        IoBitmap := fold (\<lambda>k b. io_set b k) [s..<s + NumPages] (IoBitmap st) \<rparr>"
    have "AllocateIoMemory Base Limit st NumPages Flags =
        Inr (st', Some (Base + SYSTEM_SPACE48_IO + of_nat s * 0x1000, io_map_flags Flags))"
      using Some l mx by (simp add: AllocateIoMemory_def st'_def)
    moreover have "io_wf st'" "IoMemorySize st' = IoMemorySize st" using assms(1) by (simp_all add: st'_def io_wf_def)
    moreover have "\<forall>k < IO_PAGES. io_used (IoBitmap st') k \<longleftrightarrow> io_used (IoBitmap st) k \<or> s \<le> k \<and> k < s + NumPages"
      using used by (simp add: st'_def)
    moreover have "io_run (IoBitmap st) IO_PAGES NumPages s \<and> (\<forall>s' < s. \<not> io_run (IoBitmap st) IO_PAGES NumPages s')"
      using ff Some by simp
    ultimately show ?thesis by auto
  qed
qed

theorem AllocateIoMemory_first_fit_witness:
  "\<exists>s st'. AllocateIoMemory 0 0x200000000000 \<lparr> IoMemorySize = 0, IoMemMutex = 0, IoBitmap = replicate IO_BITMAP_SIZE 0 \<rparr> 4 0 =
     Inr (st', Some (0 + SYSTEM_SPACE48_IO + of_nat s * 0x1000, io_map_flags 0)) \<and> s = 0"
proof -
  let ?st = "\<lparr> IoMemorySize = 0, IoMemMutex = 0, IoBitmap = replicate IO_BITMAP_SIZE 0 \<rparr>"
  have free: "io_run (IoBitmap ?st) IO_PAGES 4 0"
    by (auto simp: io_run_def IO_PAGES_def IO_BITMAP_SIZE_def io_used_def)
  have hyps: "io_wf ?st" "0 < (4 :: nat)" "IoMemorySize ?st + push_bit 12 (of_nat 4) \<le> 0x200000000000"
    by (simp_all add: io_wf_def)
  show ?thesis
    using AllocateIoMemory_first_fit [OF hyps, of 0 0] free by (metis gr_zeroI)
qed

end
