(* ===== verification/Kernel_Lib.thy ===== *)
theory Kernel_Lib
  imports Kernel_Base
begin

text \<open>
  The kernel's C library: byte swapping, wide strings and number printing (\<open>lib/stdlib.c\<close>,
  \<open>lib/cstr.c\<close>), the integer power (\<open>lib/math.c\<close>) and the memory routines of \<open>lib/mem.c\<close>.
  A buffer is the list of its cells and an access outside of it is \<open>OutOfBounds\<close>; the two printing functions
  \<open>itoa\<close> and \<open>itoaw\<close> have the same body over different character types, so the body is one definition
  over words of any width.  Memory set by the SSE and AVX routines is a list of 8-byte cells.
\<close>

section \<open>Byte swapping\<close>

definition F_SW :: "u16 \<Rightarrow> u16" where
  "F_SW x = drop_bit 8 x OR push_bit 8 x"

definition F_SL :: "u32 \<Rightarrow> u32" where
  "F_SL x = drop_bit 24 x OR (push_bit 8 x AND 0x00FF0000) OR (drop_bit 8 x AND 0x0000FF00) OR push_bit 24 x"

text \<open>The signed variants shift arithmetically.\<close>

definition FI_SW :: "16 word \<Rightarrow> u16" where
  "FI_SW x = signed_drop_bit 8 x OR push_bit 8 x"

definition FI_SL :: "32 word \<Rightarrow> u32" where
  "FI_SL x = signed_drop_bit 24 x OR (push_bit 8 x AND 0x00FF0000) OR (signed_drop_bit 8 x AND 0x0000FF00)
             OR push_bit 24 x"

section \<open>Wide strings\<close>

type_synonym wchar = u16

definition wstrlen :: "wchar list \<Rightarrow> nat outcome" where
  "wstrlen x = strlen x"

definition nocs_differ :: "wchar \<Rightarrow> wchar \<Rightarrow> bool" where
  "nocs_differ a b =
     (if 97 \<le> a \<and> a \<le> 122 then
        (if 97 \<le> b \<and> b \<le> 122 then a \<noteq> b else a - 32 \<noteq> b)
      else if 65 \<le> a \<and> a \<le> 90 then
        (if 65 \<le> b \<and> b \<le> 90 then a \<noteq> b else a + 32 \<noteq> b)
      else a \<noteq> b)"

text \<open>The comparison loops of \<open>wstrcmp_nocs\<close> and \<open>wstrcmp\<close>, \<open>size\<close> rounds over both buffers.\<close>

fun wcmp_loop :: "(wchar \<Rightarrow> wchar \<Rightarrow> bool) \<Rightarrow> wchar list \<Rightarrow> wchar list \<Rightarrow> nat \<Rightarrow> bool outcome" where
  "wcmp_loop differ x y 0 = Inr True"
| "wcmp_loop differ (a # x) (b # y) (Suc n) = (if differ a b then Inr False else wcmp_loop differ x y n)"
| "wcmp_loop differ x y (Suc n) = Inl OutOfBounds"

definition wstrcmp_nocs :: "wchar list \<Rightarrow> wchar list \<Rightarrow> nat \<Rightarrow> bool outcome" where
  "wstrcmp_nocs x y sz = wcmp_loop nocs_differ x y sz"

definition wstrcmp :: "wchar list \<Rightarrow> wchar list \<Rightarrow> nat \<Rightarrow> bool outcome" where
  "wstrcmp x y sz = wcmp_loop (\<lambda>a b. a \<noteq> b) x y sz"

text \<open>The lengths are cut to 16 bits; \<open>pool\<close> says whether \<open>AllocatePool\<close> succeeds.\<close>

definition wstrcat :: "bool \<Rightarrow> wchar list \<Rightarrow> wchar list \<Rightarrow> wchar list option outcome" where
  "wstrcat pool x y =
     andThen (wstrlen x) (\<lambda>lx. andThen (wstrlen y) (\<lambda>ly.
       let sizex = unat (of_nat lx :: u16); sizey = unat (of_nat ly :: u16)
       in if \<not> pool then Inr None else Inr (Some (take sizex x @ take sizey y @ [0]))))"

section \<open>Printing numbers\<close>

definition RADIX_HEXADECIMAL :: int where "RADIX_HEXADECIMAL = 0x10"
definition RADIX_DECIMAL :: int where "RADIX_DECIMAL = 0xA"
definition RADIX_BINARY :: int where "RADIX_BINARY = 1"

text \<open>\<open>while (sizeTest / 10 > 0) { sizeTest /= 10; size++; }\<close>\<close>

fun dec_size :: "nat \<Rightarrow> nat" where
  "dec_size n = (if n div 10 > 0 then Suc (dec_size (n div 10)) else 0)"

text \<open>
  The digit loop, on a signed value: C division truncates towards zero, so the loop ends at once for
  a negative value; the last character is the remainder, taken modulo 256, plus \<open>'0'\<close>.
\<close>

definition dec_char :: "int \<Rightarrow> 'a::len word" where
  "dec_char rem = ucast (of_int rem :: u8) + 48"

function dec_loop :: "'a::len word list \<Rightarrow> int \<Rightarrow> int \<Rightarrow> int \<Rightarrow> ('a word list \<times> int \<times> int) outcome" where
  "dec_loop buf sz index v =
     (if v div 10 > 0 \<and> v > 0 then
        (if 0 \<le> sz - index \<and> nat (sz - index) < length buf
         then dec_loop (buf[nat (sz - index) := dec_char (v mod 10)]) sz (index + 1) (v div 10)
         else Inl OutOfBounds)
      else Inr (buf, index, v))"
  by pat_completeness auto
termination by (relation "measure (\<lambda>(buf, sz, index, v). nat v)") auto

definition buf_put :: "'a list \<Rightarrow> int \<Rightarrow> 'a \<Rightarrow> 'a list outcome" where
  "buf_put buf i c = (if 0 \<le> i \<and> nat i < length buf then Inr (buf[nat i := c]) else Inl OutOfBounds)"

text \<open>C's \<open>%\<close> for a divisor 10: the sign is that of the dividend.\<close>

definition crem10 :: "int \<Rightarrow> int" where
  "crem10 v = (if v < 0 then - ((- v) mod 10) else v mod 10)"

definition print_dec :: "'a::len word list \<Rightarrow> int \<Rightarrow> nat \<Rightarrow> int \<Rightarrow> 'a word list outcome" where
  "print_dec buf base sz v =
     andThen (dec_loop buf (base + int sz) 0 v) (\<lambda>(buf1, index, v1).
     andThen (buf_put buf1 (base + int sz - index) (dec_char (crem10 v1))) (\<lambda>buf2.
     buf_put buf2 (base + int sz + 1) 0))"

text \<open>Hexadecimal: the number of digits, then one digit per round from the right.\<close>

fun hex_size :: "nat \<Rightarrow> nat" where
  "hex_size n = (if n div 16 = 0 then 1 else Suc (hex_size (n div 16)))"

definition hex_char :: "u64 \<Rightarrow> 'a::len word" where
  "hex_char c = (if c < 0xA then 48 + ucast c else 65 + (ucast c - 0xA))"

fun hex_loop :: "'a::len word list \<Rightarrow> nat \<Rightarrow> u64 \<Rightarrow> 'a word list outcome" where
  "hex_loop buf 0 v = Inr buf"
| "hex_loop buf (Suc k) v =
     andThen (array_set buf k (hex_char (v AND 0xF))) (\<lambda>buf'. hex_loop buf' k (signed_drop_bit 4 v))"

text \<open>Binary: shift the leading one to bit 63, then print the bits from the left.\<close>

fun bin_shift :: "nat \<Rightarrow> u64 \<Rightarrow> nat \<Rightarrow> u64 \<times> nat" where
  "bin_shift 0 v s = (v, s)"
| "bin_shift (Suc f) v s = (if \<not> bit v 63 \<and> v \<noteq> 0 then bin_shift f (push_bit 1 v) (Suc s) else (v, s))"

fun bin_loop :: "'a::len word list \<Rightarrow> nat \<Rightarrow> nat \<Rightarrow> u64 \<Rightarrow> ('a word list \<times> nat) outcome" where
  "bin_loop buf p 0 v = Inr (buf, p)"
| "bin_loop buf p (Suc n) v =
     andThen (array_set buf p (if bit v 63 then 49 else 48)) (\<lambda>buf'. bin_loop buf' (Suc p) n (push_bit 1 v))"

text \<open>
  The common body of \<open>itoaw\<close> and \<open>itoa\<close>: the new buffer and the offset of the returned pointer in it,
  \<open>None\<close> for the null pointer.
\<close>

definition itoa_body :: "u64 \<Rightarrow> 'a::len word list \<Rightarrow> int \<Rightarrow> ('a word list \<times> nat option) outcome" where
  "itoa_body v buf radix =
     (if radix = RADIX_DECIMAL then
        (if sint v < 0 then
           andThen (array_set buf 0 45) (\<lambda>buf0.
           andThen (print_dec buf0 1 (dec_size (unat v)) (sint v)) (\<lambda>buf'. Inr (buf', Some 1)))
         else andThen (print_dec buf 0 (dec_size (unat v)) (sint v)) (\<lambda>buf'. Inr (buf', Some 0)))
      else if radix = RADIX_HEXADECIMAL then
        andThen (hex_loop buf (hex_size (unat v)) v) (\<lambda>buf1.
        andThen (array_set buf1 (hex_size (unat v)) 0) (\<lambda>buf2. Inr (buf2, Some 0)))
      else if radix = RADIX_BINARY then
        andThen (array_set buf 0 48) (\<lambda>buf0.
        if v = 0 then andThen (array_set buf0 1 0) (\<lambda>buf1. Inr (buf1, Some 0))
        else (case bin_shift 64 v 0 of (v', shift) \<Rightarrow>
          andThen (bin_loop buf0 0 (64 - shift) v') (\<lambda>(buf1, p).
          andThen (array_set buf1 p 0) (\<lambda>buf2. Inr (buf2, Some 0)))))
      else Inr (buf, None))"

definition itoaw :: "u64 \<Rightarrow> u16 list \<Rightarrow> int \<Rightarrow> (u16 list \<times> nat option) outcome" where
  "itoaw v buf radix = itoa_body v buf radix"

definition itoa :: "u64 \<Rightarrow> u8 list \<Rightarrow> int \<Rightarrow> (u8 list \<times> nat option) outcome" where
  "itoa v buf radix = itoa_body v buf radix"

text \<open>\<open>to_stringu64\<close> and \<open>to_string64\<close> print into static buffers of 128 and 32 characters.\<close>

definition to_stringu64 :: "u8 list \<Rightarrow> u64 \<Rightarrow> u8 list outcome" where
  "to_stringu64 uintTo_StringOutput v = print_dec uintTo_StringOutput 0 (dec_size (unat v)) (uint v)"

definition to_string64 :: "u8 list \<Rightarrow> u64 \<Rightarrow> u8 list outcome" where
  "to_string64 intTo_StringOutput v =
     (if sint v < 0 then
        andThen (array_set intTo_StringOutput 0 45) (\<lambda>buf.
        print_dec buf 1 (dec_size (unat (- v))) (sint (- v)))
      else print_dec intTo_StringOutput 0 (dec_size (unat v)) (sint v))"

text \<open>
  The fixed-width hexadecimal printers: \<open>bytes\<close> is the value in memory, lowest byte first, and the loop
  makes \<open>size = 2 * length bytes - 1\<close> rounds.
\<close>

definition nibble_char :: "u8 \<Rightarrow> u8" where
  "nibble_char t = t + (if 9 < t then 55 else 48)"

fun hstring_loop :: "u8 list \<Rightarrow> u8 list \<Rightarrow> int \<Rightarrow> nat \<Rightarrow> nat \<Rightarrow> u8 list outcome" where
  "hstring_loop bytes buf sz i 0 = Inr buf"
| "hstring_loop bytes buf sz i (Suc n) =
     andThen (array_get bytes i) (\<lambda>b.
     andThen (buf_put buf (sz - (int i * 2 + 1)) (nibble_char (drop_bit 4 (b AND 0xF0)))) (\<lambda>buf1.
     andThen (buf_put buf1 (sz - int i * 2) (nibble_char (b AND 0x0F))) (\<lambda>buf2.
     hstring_loop bytes buf2 sz (Suc i) n)))"

definition to_hstring :: "u8 list \<Rightarrow> u8 list \<Rightarrow> u8 list outcome" where
  "to_hstring bytes buf =
     (let sz = length bytes * 2 - 1
      in andThen (hstring_loop bytes buf (int sz) 0 sz) (\<lambda>buf1. array_set buf1 (sz + 1) 0))"

definition to_hstring8 :: "u8 list \<Rightarrow> u8 \<Rightarrow> u8 list outcome" where
  "to_hstring8 hexTo_StringOutput8 v = to_hstring [v] hexTo_StringOutput8"

definition to_hstring16 :: "u8 list \<Rightarrow> u16 \<Rightarrow> u8 list outcome" where
  "to_hstring16 hexTo_StringOutput16 v = to_hstring (map (\<lambda>i. ucast (drop_bit (8 * i) v)) [0..<2]) hexTo_StringOutput16"

definition to_hstring32 :: "u8 list \<Rightarrow> u32 \<Rightarrow> u8 list outcome" where
  "to_hstring32 hexTo_StringOutput32 v = to_hstring (map (\<lambda>i. ucast (drop_bit (8 * i) v)) [0..<4]) hexTo_StringOutput32"

definition to_hstring64 :: "u8 list \<Rightarrow> u64 \<Rightarrow> u8 list outcome" where
  "to_hstring64 hexTo_StringOutput v = to_hstring (map (\<lambda>i. ucast (drop_bit (8 * i) v)) [0..<8]) hexTo_StringOutput"

section \<open>Integer power and parsing\<close>

fun powi_loop :: "u64 \<Rightarrow> nat \<Rightarrow> u64" where
  "powi_loop num 0 = num"
| "powi_loop num (Suc n) = powi_loop (num * num) n"

definition powi64 :: "u64 \<Rightarrow> u16 \<Rightarrow> u64" where
  "powi64 num count = (if count - 1 = 0 then 1 else powi_loop num (unat (count - 1)))"

text \<open>\<open>utoi\<close> reads \<open>_str[len - 1]\<close> first and discards it; a character below \<open>'0'\<close> gives a negative \<open>int\<close>.\<close>

fun utoi_loop :: "wchar list \<Rightarrow> nat \<Rightarrow> u16 \<Rightarrow> u64 \<Rightarrow> u64 outcome" where
  "utoi_loop str 0 pw ret = Inr ret"
| "utoi_loop (c # str) (Suc n) pw ret =
     utoi_loop str n (pw - 1) (ret + of_int (uint c - 48) * powi64 10 pw)"
| "utoi_loop [] (Suc n) pw ret = Inl OutOfBounds"

definition utoi :: "wchar list \<Rightarrow> u8 \<Rightarrow> u64 outcome" where
  "utoi str len = utoi_loop str (unat len) (ucast len - 1) 0"

section \<open>Memory routines\<close>

text \<open>\<open>fill_cells mem off v n\<close> is \<open>__repstos64\<close>, and each SSE or AVX store, on 8-byte cells.\<close>

definition fill_cells :: "'a list \<Rightarrow> nat \<Rightarrow> 'a \<Rightarrow> nat \<Rightarrow> 'a list outcome" where
  "fill_cells mem off v n =
     (if off + n \<le> length mem then Inr (take off mem @ replicate n v @ drop (off + n) mem) else Inl OutOfBounds)"

definition SSE_Memset :: "u64 list \<Rightarrow> nat \<Rightarrow> u64 \<Rightarrow> nat \<Rightarrow> u64 list outcome" where
  "SSE_Memset mem off v sz = fill_cells mem off v (sz div 16 * 2)"

definition AVX_Memset :: "u64 list \<Rightarrow> nat \<Rightarrow> u64 \<Rightarrow> nat \<Rightarrow> u64 list outcome" where
  "AVX_Memset mem off v sz = fill_cells mem off v (sz div 32 * 4)"

text \<open>The aligned and the unaligned routine store the same cells, so the alignment test has no effect here.\<close>

definition Wrap_SSE_Memset :: "u64 list \<Rightarrow> nat \<Rightarrow> u64 \<Rightarrow> nat \<Rightarrow> u64 list outcome" where
  "Wrap_SSE_Memset mem off v sz =
     (if sz mod 8 \<noteq> 0 then Inr mem
      else if sz < 0x10 then fill_cells mem off v (sz div 8)
      else if sz mod 16 \<noteq> 0 then
        andThen (fill_cells mem off v (sz mod 16 div 8)) (\<lambda>mem1.
        SSE_Memset mem1 (off + sz mod 16 div 8) v (sz - (0x10 - sz mod 16)))
      else SSE_Memset mem off v sz)"

definition Wrap_AVX_Memset :: "u64 list \<Rightarrow> nat \<Rightarrow> u64 \<Rightarrow> nat \<Rightarrow> u64 list outcome" where
  "Wrap_AVX_Memset mem off v sz =
     (if sz mod 8 \<noteq> 0 then Inr mem
      else if sz < 0x20 then fill_cells mem off v (sz div 8)
      else if sz mod 32 \<noteq> 0 then
        andThen (fill_cells mem off v (sz mod 32 div 8)) (\<lambda>mem1.
        AVX_Memset mem1 (off + sz mod 32 div 8) v (sz - (0x20 - sz mod 32)))
      else AVX_Memset mem off v sz)"

definition repeat_byte :: "u8 \<Rightarrow> u64" where
  "repeat_byte value =
     (let c = ucast value :: u64
      in c OR (push_bit 8 c OR push_bit 16 c OR push_bit 24 c OR push_bit 32 c OR push_bit 40 c
               OR push_bit 48 c OR push_bit 56 c))"

definition r8_SSE_Memset :: "u64 list \<Rightarrow> nat \<Rightarrow> u8 \<Rightarrow> nat \<Rightarrow> u64 list outcome" where
  "r8_SSE_Memset mem off v sz = Wrap_SSE_Memset mem off (repeat_byte v) sz"

definition r8_AVX_Memset :: "u64 list \<Rightarrow> nat \<Rightarrow> u8 \<Rightarrow> nat \<Rightarrow> u64 list outcome" where
  "r8_AVX_Memset mem off v sz = Wrap_AVX_Memset mem off (repeat_byte v) sz"

text \<open>\<open>memset32\<close> picks the routine by the processor's extension level; entry 2 of the table is null.\<close>

definition memset32 :: "nat \<Rightarrow> u64 list \<Rightarrow> nat \<Rightarrow> u32 \<Rightarrow> nat \<Rightarrow> u64 list outcome" where
  "memset32 ExtensionLevel mem off value sz =
     (let v = ucast value OR push_bit 32 (ucast value :: u64); k = ExtensionLevel mod 4
      in if k = 0 then Wrap_SSE_Memset mem off v (sz * 4)
         else if k = 1 then Wrap_AVX_Memset mem off v (sz * 4)
         else if k = 2 then Inl NullDeref else Inl OutOfBounds)"

definition memset16 :: "u16 list \<Rightarrow> u16 \<Rightarrow> nat \<Rightarrow> u16 list outcome" where
  "memset16 mem value sz = fill_cells mem 0 value sz"

definition memset64 :: "u64 list \<Rightarrow> u64 \<Rightarrow> nat \<Rightarrow> u64 list outcome" where
  "memset64 mem value sz = fill_cells mem 0 value sz"

text \<open>The copy loops, cell by cell.\<close>

fun memcpy_loop :: "'a list \<Rightarrow> 'a list \<Rightarrow> nat \<Rightarrow> 'a list outcome" where
  "memcpy_loop dst src 0 = Inr dst"
| "memcpy_loop (d # dst) (s # src) (Suc n) = andThen (memcpy_loop dst src n) (\<lambda>r. Inr (s # r))"
| "memcpy_loop dst src (Suc n) = Inl OutOfBounds"

definition memcpy16 :: "u16 list \<Rightarrow> u16 list \<Rightarrow> nat \<Rightarrow> u16 list outcome" where
  "memcpy16 dest src sz = memcpy_loop dest src sz"

definition memcpy32 :: "u32 list \<Rightarrow> u32 list \<Rightarrow> nat \<Rightarrow> u32 list outcome" where
  "memcpy32 dest src sz = memcpy_loop dest src sz"

definition memcpy64 :: "u64 list \<Rightarrow> u64 list \<Rightarrow> nat \<Rightarrow> u64 list outcome" where
  "memcpy64 dest src sz = memcpy_loop dest src sz"

declare dec_size.simps [simp del] dec_loop.simps [simp del] hex_size.simps [simp del]

lemma sint_unat_nonneg: "0 \<le> sint (v :: u64) \<Longrightarrow> sint v = int (unat v)"
  using sint_lt [of v] by (simp add: uint_sint take_bit_int_eq_self flip: uint_nat)

section \<open>Case-insensitive comparison is equality of folded strings\<close>

definition fold_case :: "wchar \<Rightarrow> wchar" where
  "fold_case c = (if 65 \<le> c \<and> c \<le> 90 then c + 32 else c)"

lemma upper_to_lower: "65 \<le> c \<and> c \<le> 90 \<Longrightarrow> 97 \<le> c + 32 \<and> c + 32 \<le> (122 :: wchar)"
  by (auto simp: word_le_nat_alt unat_word_ariths)

lemma lower_to_upper: "97 \<le> c \<and> c \<le> 122 \<Longrightarrow> 65 \<le> c - 32 \<and> c - 32 \<le> (90 :: wchar)"
  by unat_arith

lemma not_upper_and_lower: "97 \<le> c \<and> c \<le> 122 \<Longrightarrow> \<not> (65 \<le> c \<and> c \<le> (90 :: wchar))"
  by unat_arith

lemma nocs_differ_iff: "nocs_differ a b \<longleftrightarrow> fold_case a \<noteq> fold_case b"
proof -
  define l where "l = (\<lambda>c. 97 \<le> c \<and> c \<le> (122 :: wchar))"
  define u where "u = (\<lambda>c. 65 \<le> c \<and> c \<le> (90 :: wchar))"
  have lu: "l c \<Longrightarrow> \<not> u c" "l c \<Longrightarrow> u (c - 32)" "u c \<Longrightarrow> l (c + 32)" for c
    unfolding l_def u_def by (fact not_upper_and_lower lower_to_upper upper_to_lower)+
  have sub: "a - 32 = b \<longleftrightarrow> a = b + 32" by (auto simp: algebra_simps)
  have "(if l a then if l b then a \<noteq> b else a - 32 \<noteq> b else if u a then if u b then a \<noteq> b else a + 32 \<noteq> b else a \<noteq> b)
      \<longleftrightarrow> (if u a then a + 32 else a) \<noteq> (if u b then b + 32 else b)"
    using lu(1) [of a] lu(1) [of b] lu(2) [of a] lu(3) [of a] lu(3) [of b] sub
    by (cases "l a"; cases "l b"; cases "u a"; cases "u b") auto
  then show ?thesis unfolding nocs_differ_def fold_case_def l_def u_def .
qed

lemma wcmp_loop_eq:
  "n \<le> length x \<Longrightarrow> n \<le> length y \<Longrightarrow>
     wcmp_loop differ x y n = Inr (\<forall>i < n. \<not> differ (x ! i) (y ! i))"
proof (induction differ x y n rule: wcmp_loop.induct)
  case (2 differ a x b y n)
  then show ?case by (auto simp: less_Suc_eq_0_disj)
qed auto

lemma wstrcmp_nocs_eq:
  assumes "n \<le> length x" and "n \<le> length y"
  shows "wstrcmp_nocs x y n = Inr (map fold_case (take n x) = map fold_case (take n y))"
proof -
  have "(\<forall>i < n. fold_case (x ! i) = fold_case (y ! i)) \<longleftrightarrow> map fold_case (take n x) = map fold_case (take n y)"
    using assms by (auto simp: list_eq_iff_nth_eq min_def)
  then show ?thesis using assms by (simp add: wstrcmp_nocs_def wcmp_loop_eq nocs_differ_iff)
qed

section \<open>Digits\<close>

text \<open>The reference for the printers: the digits of a number, most significant first, and their value.\<close>

function digits :: "nat \<Rightarrow> nat \<Rightarrow> nat list" where
  "digits b n = (if b < 2 \<or> n < b then [n] else digits b (n div b) @ [n mod b])"
  by pat_completeness auto
termination by (relation "measure snd") auto

declare digits.simps [simp del]

definition undigits :: "nat \<Rightarrow> nat list \<Rightarrow> nat" where
  "undigits b ds = foldl (\<lambda>v d. v * b + d) 0 ds"

lemma undigits_digits: "undigits b (digits b n) = n"
  by (induction b n rule: digits.induct) (subst digits.simps, auto simp: undigits_def)

lemma digits_less: "2 \<le> b \<Longrightarrow> d \<in> set (digits b n) \<Longrightarrow> d < b"
proof (induction b n rule: digits.induct)
  case (1 b n)
  then show ?case by (subst (asm) (2) digits.simps) (auto split: if_splits)
qed

lemma digits_hd: "2 \<le> b \<Longrightarrow> 0 < n \<Longrightarrow> hd (digits b n) \<noteq> 0"
proof (induction b n rule: digits.induct)
  case (1 b n)
  have "digits b (n div b) \<noteq> []" by (subst digits.simps) simp
  then show ?case using 1 by (subst digits.simps) (auto simp: div_greater_zero_iff)
qed

lemma length_digits_dec: "length (digits 10 n) = Suc (dec_size n)"
proof (induction n rule: dec_size.induct)
  case (1 n)
  then show ?case by (subst digits.simps, subst dec_size.simps) (auto simp: div_greater_zero_iff)
qed

lemma length_digits_hex: "length (digits 16 n) = hex_size n"
proof (induction n rule: hex_size.induct)
  case (1 n)
  then show ?case by (subst digits.simps, subst hex_size.simps) (auto simp: div_eq_0_iff)
qed

lemma length_digits_le: "2 \<le> b \<Longrightarrow> 0 < k \<Longrightarrow> n < b ^ k \<Longrightarrow> length (digits b n) \<le> k"
proof (induction k arbitrary: n)
  case (Suc k)
  show ?case
  proof (cases "n < b")
    case True
    then show ?thesis by (subst digits.simps) simp
  next
    case False
    have "n div b < b ^ k" using Suc.prems by (simp add: div_less_iff_less_mult mult.commute)
    moreover have "k \<noteq> 0" using False Suc.prems by (cases k) auto
    ultimately show ?thesis using Suc False by (subst digits.simps) auto
  qed
qed simp

section \<open>What the printers write\<close>

definition dchar :: "nat \<Rightarrow> 'a::len word" where
  "dchar d = of_nat (d + 48)"

lemma dec_char_digit: "d < 10 \<Longrightarrow> dec_char (int d) = (dchar d :: 'a::len word)"
  by (simp add: dec_char_def dchar_def take_bit_nat_eq_self unsigned_of_nat of_nat_add)

lemma drop_list_update_at: "k < length xs \<Longrightarrow> drop k (xs[k := x]) = x # drop (Suc k) xs"
  by (simp add: Cons_nth_drop_Suc [symmetric])

lemma dec_loop_digits:
  assumes "base + dec_size n < length buf" and "sz - index = int (base + dec_size n)"
  shows "andThen (dec_loop buf sz index (int n)) (\<lambda>(b, i, v). buf_put b (sz - i) (dec_char (crem10 v))) =
     Inr (take base buf @ map dchar (digits 10 n) @ drop (base + Suc (dec_size n)) buf)"
  using assms
proof (induction n arbitrary: buf index rule: dec_size.induct)
  case (1 n)
  show ?case
  proof (cases "n div 10 > 0")
    case False
    then have n: "n < 10" by (simp add: div_greater_zero_iff)
    have d: "dec_size n = 0" "digits 10 n = [n]" using n by (simp_all add: dec_size.simps digits.simps)
    have "dec_loop buf sz index (int n) = Inr (buf, index, int n)"
      using n by (subst dec_loop.simps) simp
    moreover have "crem10 (int n) = int n" using n by (simp add: crem10_def)
    ultimately show ?thesis
      using 1(2,3) d n by (simp add: buf_put_def dec_char_digit upd_conv_take_nth_drop)
  next
    case True
    define buf1 where "buf1 = buf[base + dec_size n := dchar (n mod 10)]"
    have sz: "dec_size n = Suc (dec_size (n div 10))" using True by (subst dec_size.simps) simp
    have dg: "digits 10 n = digits 10 (n div 10) @ [n mod 10]" using True by (subst digits.simps) auto
    have "dec_loop buf sz index (int n) = dec_loop buf1 sz (index + 1) (int (n div 10))"
      using True 1(2,3) by (subst dec_loop.simps)
        (auto simp: buf1_def dec_char_digit [symmetric] zdiv_int zmod_int nat_int_add)
    moreover have "andThen (dec_loop buf1 sz (index + 1) (int (n div 10)))
        (\<lambda>(b, i, v). buf_put b (sz - i) (dec_char (crem10 v))) =
      Inr (take base buf1 @ map dchar (digits 10 (n div 10)) @ drop (base + Suc (dec_size (n div 10))) buf1)"
      using 1(2,3) by (intro 1(1)) (auto simp: True sz buf1_def)
    moreover have "take base buf1 = take base buf" by (simp add: buf1_def sz)
    moreover have "drop (base + Suc (dec_size (n div 10))) buf1 = dchar (n mod 10) # drop (base + Suc (dec_size n)) buf"
      using 1(2) drop_list_update_at [of "base + dec_size n" buf "dchar (n mod 10)"] by (simp add: buf1_def sz)
    ultimately show ?thesis by (simp add: dg)
  qed
qed

lemma print_dec_digits:
  assumes "base + dec_size n + 1 < length buf"
  shows "print_dec buf (int base) (dec_size n) (int n) =
     Inr (take base buf @ map dchar (digits 10 n) @ 0 # drop (base + dec_size n + 2) buf)"
proof -
  let ?b = "take base buf @ map dchar (digits 10 n) @ drop (base + Suc (dec_size n)) buf"
  have "andThen (dec_loop buf (int base + int (dec_size n)) 0 (int n))
      (\<lambda>(b, i, v). buf_put b (int base + int (dec_size n) - i) (dec_char (crem10 v))) = Inr ?b"
    using assms dec_loop_digits [of base n buf "int base + int (dec_size n)" 0] by simp
  then obtain b i v where r: "dec_loop buf (int base + int (dec_size n)) 0 (int n) = Inr (b, i, v)"
    "buf_put b (int base + int (dec_size n) - i) (dec_char (crem10 v)) = Inr ?b"
    by (auto simp: andThen_Inr_iff)
  have "buf_put ?b (int base + int (dec_size n) + 1) 0 =
      Inr (take base buf @ map dchar (digits 10 n) @ 0 # drop (base + dec_size n + 2) buf)"
    using assms
    by (simp add: buf_put_def length_digits_dec nat_add_distrib list_update_append drop_Suc_Cons Cons_nth_drop_Suc [symmetric])
  then show ?thesis by (simp add: print_dec_def r)
qed

section \<open>Hexadecimal digits\<close>

lemma digits_nth:
  assumes "2 \<le> b" and "i < length (digits b n)"
  shows "digits b n ! i = n div b ^ (length (digits b n) - Suc i) mod b"
  using assms
proof (induction b n arbitrary: i rule: digits.induct)
  case (1 b n)
  show ?case
  proof (cases "n < b")
    case True
    then show ?thesis using 1(3) by (simp add: digits.simps)
  next
    case False
    then have d: "digits b n = digits b (n div b) @ [n mod b]" using 1(2) by (subst digits.simps) auto
    show ?thesis
    proof (cases "i < length (digits b (n div b))")
      case True
      then have "digits b (n div b) ! i = n div b div b ^ (length (digits b (n div b)) - Suc i) mod b"
        using 1 False by auto
      moreover have "Suc (length (digits b (n div b)) - Suc i) = length (digits b (n div b)) - i" using True by simp
      ultimately show ?thesis using True
        by (simp add: d nth_append div_mult2_eq [symmetric] flip: power_Suc)
    next
      case no: False
      then show ?thesis using 1(3) by (simp add: d nth_append)
    qed
  qed
qed

lemma bit_signed_drop_small: "k + i < 64 \<Longrightarrow> bit (signed_drop_bit k (v :: u64)) i = bit (drop_bit k v) i"
  by (auto simp: bit_signed_drop_bit_iff bit_drop_bit_eq min_def ac_simps)

lemma signed_nibble:
  assumes "4 * i < 64"
  shows "signed_drop_bit (4 * i) (v :: u64) AND 0xF = of_nat (unat v div 16 ^ i mod 16)"
proof -
  have "signed_drop_bit (4 * i) v AND 0xF = drop_bit (4 * i) v AND 0xF"
  proof (rule bit_word_eqI)
    fix n assume "n < LENGTH(64)"
    have m: "bit (0xF :: u64) n \<longleftrightarrow> n < 4" using bit_mask_iff [of 4 n, where ?'a = "64 word"] by (auto simp: mask_eq_exp_minus_1)
    have "i < 16" using assms by simp
    then have "n < 4 \<Longrightarrow> 4 * i + n < 64" by linarith
    then show "bit (signed_drop_bit (4 * i) v AND 0xF) n = bit (drop_bit (4 * i) v AND 0xF) n"
      using bit_signed_drop_small [of "4 * i" n v] by (simp only: bit_and_iff m) blast
  qed
  also have "\<dots> = take_bit 4 (drop_bit (4 * i) v)" by (simp add: take_bit_eq_mask mask_eq_exp_minus_1)
  also have "\<dots> = of_nat (unat v div 16 ^ i mod 16)"
  proof (subst word_unat_eq_iff)
    have p: "(2 :: nat) ^ (4 * i) = 16 ^ i" by (simp add: power_mult)
    have "unat (take_bit 4 (drop_bit (4 * i) v)) = unat v div 16 ^ i mod 16"
      by (simp only: unsigned_take_bit_eq unat_drop_bit_eq) (simp add: take_bit_eq_mod drop_bit_eq_div p)
    moreover have "unat (of_nat (unat v div 16 ^ i mod 16) :: u64) = unat v div 16 ^ i mod 16"
      by (rule unat_of_nat_u64) (rule order_less_trans [of _ 16], simp_all)
    ultimately show "unat (take_bit 4 (drop_bit (4 * i) v)) = unat (of_nat (unat v div 16 ^ i mod 16) :: u64)" by simp
  qed
  finally show ?thesis .
qed

lemma hex_loop_eq:
  fixes buf :: "'a::len word list"
  shows "k \<le> length buf \<Longrightarrow> hex_loop buf k v =
     Inr (map (\<lambda>i. hex_char (signed_drop_bit (4 * (k - Suc i)) v AND 0xF)) [0..<k] @ drop k buf)"
proof (induction k arbitrary: buf v)
  case 0
  then show ?case by simp
next
  case (Suc k)
  have sh: "signed_drop_bit m (signed_drop_bit 4 v) = signed_drop_bit (4 + m) v" for m
    by (rule bit_word_eqI) (auto simp: bit_signed_drop_bit_iff min_def ac_simps)
  have "hex_loop (buf[k := hex_char (v AND 0xF)]) k (signed_drop_bit 4 v) =
      Inr (map (\<lambda>i. hex_char (signed_drop_bit (4 * (k - Suc i)) (signed_drop_bit 4 v) AND 0xF)) [0..<k] @
           drop k (buf[k := hex_char (v AND 0xF)]))"
    using Suc.prems by (intro Suc.IH) simp
  moreover have "map (\<lambda>i. hex_char (signed_drop_bit (4 * (k - Suc i)) (signed_drop_bit 4 v) AND 0xF)) [0..<k] =
      map (\<lambda>i. hex_char (signed_drop_bit (4 * (Suc k - Suc i)) v AND 0xF) :: 'a word) [0..<k]"
  proof (rule map_cong)
    fix x assume "x \<in> set [0..<k]"
    then have "4 + 4 * (k - Suc x) = 4 * (Suc k - Suc x)" by simp
    then show "hex_char (signed_drop_bit (4 * (k - Suc x)) (signed_drop_bit 4 v) AND 0xF) =
        (hex_char (signed_drop_bit (4 * (Suc k - Suc x)) v AND 0xF) :: 'a word)"
      by (simp only: sh)
  qed simp
  ultimately show ?case using Suc.prems by (simp add: drop_list_update_at)
qed

definition hchar :: "nat \<Rightarrow> 'a::len word" where
  "hchar d = of_nat (if d < 10 then 48 + d else 55 + d)"

lemma hex_char_digit: "d < 16 \<Longrightarrow> hex_char (of_nat d) = (hchar d :: 'a::len word)"
proof -
  assume d: "d < 16"
  have u: "unat (of_nat d :: u64) = d" using d by simp
  have "(of_nat d :: u64) < 0xA \<longleftrightarrow> d < 10" by (simp add: word_less_nat_alt u)
  moreover have "(ucast (of_nat d :: u64) :: 'a word) = of_nat d"
    using d by (simp add: unsigned_of_nat take_bit_nat_eq_self)
  ultimately show ?thesis by (simp add: hex_char_def hchar_def)
qed

lemma print_hex_digits:
  fixes buf :: "'a::len word list"
  assumes "hex_size (unat v) < length buf"
  shows "andThen (hex_loop buf (hex_size (unat v)) v) (\<lambda>b. array_set b (hex_size (unat v)) 0) =
     Inr (map hchar (digits 16 (unat v)) @ 0 # drop (Suc (hex_size (unat v))) buf)"
proof -
  let ?k = "hex_size (unat v)"
  have "unat v < 16 ^ 16" using unsigned_less [of v] by simp
  then have k: "?k \<le> 16" using length_digits_le [of 16 16 "unat v"] by (simp add: length_digits_hex)
  have "map (\<lambda>i. hex_char (signed_drop_bit (4 * (?k - Suc i)) v AND 0xF)) [0..<?k] =
      (map hchar (digits 16 (unat v)) :: 'a word list)"
  proof (rule nth_equalityI)
    fix i assume i: "i < length (map (\<lambda>i. hex_char (signed_drop_bit (4 * (?k - Suc i)) v AND 0xF) :: 'a word) [0..<?k])"
    have "signed_drop_bit (4 * (?k - Suc i)) v AND 0xF = of_nat (unat v div 16 ^ (?k - Suc i) mod 16)"
      using i k by (intro signed_nibble) simp
    then show "map (\<lambda>i. hex_char (signed_drop_bit (4 * (?k - Suc i)) v AND 0xF)) [0..<?k] ! i =
        (map hchar (digits 16 (unat v)) ! i :: 'a word)"
      using i by (simp add: hex_char_digit digits_nth length_digits_hex)
  qed (simp add: length_digits_hex)
  then show ?thesis using assms
    by (simp add: hex_loop_eq list_update_append length_digits_hex Cons_nth_drop_Suc [symmetric])
qed

text \<open>
  C34. \<open>itoa\<close> and \<open>itoaw\<close> print faithfully: into a buffer of at least 21 cells, a non-negative value in
  decimal and every value in hexadecimal is written as the characters of its digits, most significant first
  and without leading zero, followed by a terminating zero; the rest of the buffer is kept, the start of the
  buffer is returned, and reading the digits back gives the value.
\<close>

theorem itoa_prints:
  fixes buf :: "'a::len word list"
  assumes "21 \<le> length buf"
  shows "(0 \<le> sint v \<longrightarrow> itoa_body v buf RADIX_DECIMAL =
      Inr (map dchar (digits 10 (unat v)) @ 0 # drop (Suc (length (digits 10 (unat v)))) buf, Some 0)) \<and>
    itoa_body v buf RADIX_HEXADECIMAL =
      Inr (map hchar (digits 16 (unat v)) @ 0 # drop (Suc (length (digits 16 (unat v)))) buf, Some 0) \<and>
    undigits 10 (digits 10 (unat v)) = unat v \<and> undigits 16 (digits 16 (unat v)) = unat v \<and>
    (v \<noteq> 0 \<longrightarrow> hd (digits 10 (unat v)) \<noteq> 0 \<and> hd (digits 16 (unat v)) \<noteq> 0)"
proof -
  have v: "unat v < 2 ^ 64" using unsigned_less [of v] by simp
  have d10: "length (digits 10 (unat v)) \<le> 20" using v by (intro length_digits_le) auto
  have d16: "length (digits 16 (unat v)) \<le> 16" using v by (intro length_digits_le) auto
  have dec: "itoa_body v buf RADIX_DECIMAL =
      Inr (map dchar (digits 10 (unat v)) @ 0 # drop (Suc (length (digits 10 (unat v)))) buf, Some 0)"
    if "0 \<le> sint v"
  proof -
    have "sint v = int (unat v)" using that by (rule sint_unat_nonneg)
    moreover have "print_dec buf 0 (dec_size (unat v)) (int (unat v)) =
        Inr (map dchar (digits 10 (unat v)) @ 0 # drop (Suc (length (digits 10 (unat v)))) buf)"
      using print_dec_digits [of 0 "unat v" buf] assms d10 by (simp add: length_digits_dec)
    ultimately show ?thesis using that by (simp add: itoa_body_def)
  qed
  have hex: "itoa_body v buf RADIX_HEXADECIMAL =
      Inr (map hchar (digits 16 (unat v)) @ 0 # drop (Suc (length (digits 16 (unat v)))) buf, Some 0)"
  proof -
    have "hex_size (unat v) < length buf" using d16 assms by (simp add: length_digits_hex)
    from print_hex_digits [OF this] obtain b1 where
      "hex_loop buf (hex_size (unat v)) v = Inr b1"
      "array_set b1 (hex_size (unat v)) 0 = Inr (map hchar (digits 16 (unat v)) @ 0 # drop (Suc (hex_size (unat v))) buf)"
      by (auto simp: andThen_Inr_iff)
    then show ?thesis by (simp add: itoa_body_def RADIX_DECIMAL_def RADIX_HEXADECIMAL_def length_digits_hex)
  qed
  show ?thesis using dec hex undigits_digits digits_hd [of 10 "unat v"] digits_hd [of 16 "unat v"]
    by (simp add: unat_gt_0)
qed

theorem itoa_prints_witness:
  "itoa_body 2023 (replicate 21 (7 :: u8)) RADIX_DECIMAL =
     Inr ([50, 48, 50, 51, 0] @ replicate 16 7, Some 0) \<and>
   itoa_body 2023 (replicate 21 (7 :: u8)) RADIX_HEXADECIMAL = Inr ([55, 69, 55, 0] @ replicate 17 7, Some 0)"
proof -
  have d: "digits 10 2023 = [2, 0, 2, 3]" "digits 16 2023 = [7, 14, 7]" by (simp_all add: digits.simps)
  have "21 \<le> length (replicate 21 (7 :: u8))" "0 \<le> sint (2023 :: u64)" by simp_all
  then show ?thesis using itoa_prints [of "replicate 21 (7 :: u8)" 2023]
    by (simp add: d dchar_def hchar_def)
qed

section \<open>Fixed-width hexadecimal\<close>

lemma hstring_loop_overrun:
  "i \<le> length bytes \<Longrightarrow> length bytes < i + n \<Longrightarrow> hstring_loop bytes buf sz i n = Inl OutOfBounds"
proof (induction n arbitrary: i buf)
  case (Suc n)
  show ?case
  proof (cases "i < length bytes")
    case True
    then show ?thesis using Suc by (auto simp: andThen_def buf_put_def split: sum.splits)
  next
    case False
    then show ?thesis by simp
  qed
qed simp

text \<open>
  Remark. Of the fixed-width hexadecimal printers only the 8-bit one works: it writes the two digits of the byte
  and a terminating zero.  The loop of the other three makes \<open>2 n - 1\<close> rounds over the \<open>n\<close> bytes of the value,
  so for every value and every buffer they access memory outside of the value and the buffer.
\<close>

theorem to_hstring_bounds:
  assumes "3 \<le> length buf"
  shows "to_hstring8 buf v8 =
      Inr (nibble_char (drop_bit 4 (v8 AND 0xF0)) # nibble_char (v8 AND 0x0F) # 0 # drop 3 buf) \<and>
    to_hstring16 buf v16 = Inl OutOfBounds \<and> to_hstring32 buf v32 = Inl OutOfBounds \<and>
    to_hstring64 buf v64 = Inl OutOfBounds"
proof -
  obtain a b c rest where "buf = a # b # c # rest"
    using assms by (auto simp: Suc_le_length_iff numeral_eq_Suc)
  then have "to_hstring8 buf v8 =
      Inr (nibble_char (drop_bit 4 (v8 AND 0xF0)) # nibble_char (v8 AND 0x0F) # 0 # drop 3 buf)"
    by (simp add: to_hstring8_def to_hstring_def buf_put_def numeral_eq_Suc)
  moreover have "to_hstring bytes buf = Inl OutOfBounds" if "2 \<le> length bytes" for bytes
    using that hstring_loop_overrun [of 0 bytes "length bytes * 2 - 1"] by (simp add: to_hstring_def Let_def)
  ultimately show ?thesis by (simp add: to_hstring16_def to_hstring32_def to_hstring64_def)
qed

theorem to_hstring_bounds_witness:
  "to_hstring8 [1, 1, 1, 1] 0x2F = Inr [50, 70, 0, 1] \<and> to_hstring64 [1, 1, 1, 1] 5 = Inl OutOfBounds"
  using to_hstring_bounds [of "[1, 1, 1, 1]" "0x2F" 0 0 5] by (simp add: nibble_char_def)

section \<open>Setting memory\<close>

lemma fill_cells_append:
  assumes "off + a + b \<le> length mem"
  shows "andThen (fill_cells mem off v a) (\<lambda>mem1. fill_cells mem1 (off + a) v b) = fill_cells mem off v (a + b)"
proof -
  define mem1 where "mem1 = take off mem @ replicate a v @ drop (off + a) mem"
  have "length mem1 = length mem" "take (off + a) mem1 = take off mem @ replicate a v"
    "drop (off + a + b) mem1 = drop (off + a + b) mem"
    using assms by (simp_all add: mem1_def add.commute)
  then have "fill_cells mem1 (off + a) v b = fill_cells mem off v (a + b)"
    using assms by (simp add: fill_cells_def replicate_add add.assoc)
  moreover have "fill_cells mem off v a = Inr mem1" using assms by (simp add: fill_cells_def mem1_def)
  ultimately show ?thesis by simp
qed

text \<open>
  Remark. For a size that is a multiple of 8 and inside the buffer, the SSE routine sets exactly the \<open>size / 8\<close>
  cells of the range.  The AVX routine does so as well, except for sizes of at least 40 bytes that are 8 modulo 32:
  it takes \<open>0x20 - size % 0x20\<close> off the size instead of \<open>size % 0x20\<close>, and leaves the last four cells unset.
\<close>

theorem Wrap_Memset_range:
  assumes "n = 8 * k" and "off + k \<le> length mem"
  shows "Wrap_SSE_Memset mem off v n = fill_cells mem off v k \<and>
    Wrap_AVX_Memset mem off v n = fill_cells mem off v (if 32 \<le> n \<and> n mod 32 = 8 then k - 4 else k)"
proof -
  have ap: "andThen (fill_cells mem off v a) (\<lambda>mem1. fill_cells mem1 (off + a) v b) = fill_cells mem off v (a + b)"
    if "a + b \<le> k" for a b using that assms(2) by (intro fill_cells_append) simp
  have m16: "n mod 16 = 8 * (k mod 2)" using mult_mod_right [of 8 k 2] assms(1) by simp
  have m32: "n mod 32 = 8 * (k mod 4)" using mult_mod_right [of 8 k 4] assms(1) by simp
  have "Wrap_SSE_Memset mem off v n = fill_cells mem off v k"
  proof (cases "16 \<le> n \<and> k mod 2 = 1")
    case True
    then obtain q where q: "k = 2 * q + 1" by (metis mult_div_mod_eq)
    have "(n - 8) div 16 = q" using assms(1) q by simp
    then show ?thesis using True ap [of 1 "q * 2"] q assms(1) m16
      by (simp add: Wrap_SSE_Memset_def SSE_Memset_def mult.commute [of q 2])
  next
    case False
    have "n div 16 * 2 = k" if "k mod 2 = 0" using that assms(1) by auto
    then show ?thesis using False assms(1) m16 by (auto simp: Wrap_SSE_Memset_def SSE_Memset_def)
  qed
  moreover have "Wrap_AVX_Memset mem off v n = fill_cells mem off v (if 32 \<le> n \<and> n mod 32 = 8 then k - 4 else k)"
  proof (cases "32 \<le> n \<and> k mod 4 \<noteq> 0")
    case True
    define r where "r = k mod 4"
    have "r < 4" "r \<noteq> 0" using True by (simp_all add: r_def)
    then have r: "r = 1 \<or> r = 2 \<or> r = 3" by linarith
    have "4 \<le> k" using True assms(1) by simp
    then obtain q where "k div 4 = Suc q" by (metis div_greater_zero_iff gr0_implies_Suc zero_less_numeral)
    then have q: "k = 4 * Suc q + r" using mult_div_mod_eq [of 4 k] by (simp add: r_def)
    have e: "r + (n - (32 - 8 * r)) div 32 * 4 = (if r = 1 then k - 4 else k)"
      using r q assms(1) by auto
    then have "r + (n - (32 - 8 * r)) div 32 * 4 \<le> k" by (auto split: if_splits)
    then have "Wrap_AVX_Memset mem off v n = fill_cells mem off v (if r = 1 then k - 4 else k)"
      using True ap [of r "(n - (32 - 8 * r)) div 32 * 4"] m32 e \<open>r \<noteq> 0\<close> assms(1)
      by (simp add: Wrap_AVX_Memset_def AVX_Memset_def flip: r_def)
    moreover have "(32 \<le> n \<and> n mod 32 = 8) \<longleftrightarrow> r = 1" using True m32 by (auto simp: r_def)
    ultimately show ?thesis by simp
  next
    case False
    have "n div 32 * 4 = k" if "k mod 4 = 0" using that assms(1) by auto
    then show ?thesis using False assms(1) m32 by (auto simp: Wrap_AVX_Memset_def AVX_Memset_def)
  qed
  ultimately show ?thesis by blast
qed

theorem Wrap_Memset_range_witness:
  "Wrap_SSE_Memset [0, 0, 0, 0, 0, 0] 0 9 40 = Inr [9, 9, 9, 9, 9, 0] \<and>
   Wrap_AVX_Memset [0, 0, 0, 0, 0, 0] 0 9 40 = Inr [9, 0, 0, 0, 0, 0]"
proof -
  have "fill_cells [0, 0, 0, 0, 0, 0] 0 (9 :: u64) 5 = Inr [9, 9, 9, 9, 9, 0]"
    "fill_cells [0, 0, 0, 0, 0, 0] 0 (9 :: u64) 1 = Inr [9, 0, 0, 0, 0, 0]" by code_simp+
  then show ?thesis using Wrap_Memset_range [of 40 5 0 "[0, 0, 0, 0, 0, 0]" 9] by simp
qed

section \<open>Byte swapping is an involution\<close>

lemma F_SW_swaps: "F_SW (F_SW x) = x"
proof (rule bit_word_eqI)
  fix n assume "n < LENGTH(16)"
  then show "bit (F_SW (F_SW x)) n = bit x n" by (cases "n < 8") (auto simp: F_SW_def bit_simps)
qed

text \<open>The signed variants fill with the sign: \<open>FI_SW\<close> of a negative number is not its byte swap.\<close>

lemma FI_SW_sign: "FI_SW 0x8001 = 0xFF80 \<and> F_SW 0x8001 = 0x0180"
  by code_simp

end
