(* ===== verification/Disk_Manager.thy ===== *)
theory Disk_Manager
  imports Device_Manager Kernel_Lib
begin

text \<open>
  The disk manager (\<open>dsk/disk.c\<close>, \<open>inc/dsk/disk.h\<close>): the tables of disks and partitions, which are
  chains of blocks of 120 slots, the open-file list of a partition and the path functions.
  A disk or partition pointer is a slot reference; a \<open>FILE\<close> is the partition whose list holds it and the slot in
  that list.  Paths are buffers of wide characters.
  Whether the pool can serve an allocation is the argument \<open>pool\<close>; the addresses it returns are not observable here.
\<close>

definition MAX_FILE_NAME :: nat where "MAX_FILE_NAME = 255"
definition DISK_MAIN :: u64 where "DISK_MAIN = 0x20"
definition DISK_SYSTEM :: u64 where "DISK_SYSTEM = 0x40"

record DISK_INFO =
  BaseAddress :: u64
  MaxAddress :: u64
  BytesInCluster :: u64
  SectorsInCluster :: u64
  FsType :: u64
  DiskName :: u64

definition DISK_INFO_zero :: DISK_INFO where
  "DISK_INFO_zero = \<lparr> BaseAddress = 0, MaxAddress = 0, BytesInCluster = 0, SectorsInCluster = 0, FsType = 0, DiskName = 0 \<rparr>"

record DISK_DEVICE_INSTANCE =
  dsk_Present :: bool
  DiskId :: u64
  dsk_SecurityDescriptor :: u64
  dsk_Device :: "slot_ref option"
  DiskInformation :: DISK_INFO

definition DISK_zero :: DISK_DEVICE_INSTANCE where
  "DISK_zero = \<lparr> dsk_Present = False, DiskId = 0, dsk_SecurityDescriptor = 0, dsk_Device = None,
     DiskInformation = DISK_INFO_zero \<rparr>"

record OPEN_FILE_DATA =
  Open :: bool
  FileId :: u64
  of_Process :: u64
  of_Handle :: "(nat \<times> nat \<times> nat) option"
  of_Path :: "wchar list"
  PathLength :: u32
  OpenAccess :: u32
  of_Partition :: "slot_ref option"
  of_FileList :: "slot_ref option"

definition OPEN_FILE_zero :: OPEN_FILE_DATA where
  "OPEN_FILE_zero = \<lparr> Open = False, FileId = 0, of_Process = 0, of_Handle = None, of_Path = [], PathLength = 0,
     OpenAccess = 0, of_Partition = None, of_FileList = None \<rparr>"

type_synonym OPEN_FILE_LIST = "OPEN_FILE_DATA chain"
type_synonym FILE = "slot_ref \<times> slot_ref"

text \<open>The entry points of a file system driver; 0 is a null pointer.\<close>

record PARTITION_MANAGEMENT_INTERFACE =
  if_RawRead :: u64
  if_SectorRawRead :: u64
  if_RawWrite :: u64
  if_SectorRawWrite :: u64
  if_Open :: u64
  if_Close :: u64
  if_Validate :: u64
  if_Read :: u64
  if_Write :: u64
  if_GetInfo :: u64
  if_SetInfo :: u64
  if_ListFileContent :: u64

definition INTERFACE_zero :: PARTITION_MANAGEMENT_INTERFACE where
  "INTERFACE_zero = \<lparr> if_RawRead = 0, if_SectorRawRead = 0, if_RawWrite = 0, if_SectorRawWrite = 0, if_Open = 0,
     if_Close = 0, if_Validate = 0, if_Read = 0, if_Write = 0, if_GetInfo = 0, if_SetInfo = 0, if_ListFileContent = 0 \<rparr>"

record PARTITION_INSTANCE =
  prt_Present :: bool
  PartitionId :: u64
  PartitionName :: "wchar list option"
  prt_SecurityDescriptor :: u64
  prt_Disk :: "slot_ref option"
  PartitionInformation :: DISK_INFO
  FsInfo :: u64
  Interface :: PARTITION_MANAGEMENT_INTERFACE
  prt_FileList :: OPEN_FILE_LIST

definition PARTITION_zero :: PARTITION_INSTANCE where
  "PARTITION_zero = \<lparr> prt_Present = False, PartitionId = 0, PartitionName = None, prt_SecurityDescriptor = 0,
     prt_Disk = None, PartitionInformation = DISK_INFO_zero, FsInfo = 0, Interface = INTERFACE_zero,
     prt_FileList = [replicate UNITS_PER_LIST OPEN_FILE_zero] \<rparr>"

text \<open>\<open>ExtensionPointer\<close> is the field of that name of each device object.\<close>

record DISK_STATE =
  Disks :: "DISK_DEVICE_INSTANCE chain"
  Partitions :: "PARTITION_INSTANCE chain"
  MainPartition :: "slot_ref option"
  SystemPartition :: "slot_ref option"
  ExtensionPointer :: "slot_ref \<rightharpoonup> slot_ref"

section \<open>Disks\<close>

definition walk_or_die :: "bool \<Rightarrow> ('a \<Rightarrow> bool) \<Rightarrow> 'a \<Rightarrow> 'a chain \<Rightarrow> ('a chain \<times> slot_ref) outcome" where
  "walk_or_die pool free zero c =
     (if chain_find free c = None \<and> \<not> pool then Inl SOD else Inr (chain_walk free zero UNITS_PER_LIST c))"

definition CreateDisk ::
  "bool \<Rightarrow> DEVICE_STATE \<Rightarrow> DISK_STATE \<Rightarrow> u64 \<Rightarrow> DISK_INFO option \<Rightarrow> slot_ref option \<Rightarrow>
   (DISK_STATE \<times> slot_ref option) outcome" where
  "CreateDisk pool dst st SecurityDescriptor Info Device =
     (case Info of None \<Rightarrow> Inr (st, None)
      | Some info \<Rightarrow>
        andThen (ValidateDevice dst Device) (\<lambda>ok.
        if \<not> ok then Inr (st, None) else
        andThen (walk_or_die pool (\<lambda>d. \<not> dsk_Present d) DISK_zero (Disks st)) (\<lambda>(c, r).
        let disk = \<lparr> dsk_Present = True, DiskId = of_nat (slot_id UNITS_PER_LIST r),
                     dsk_SecurityDescriptor = SecurityDescriptor, dsk_Device = Device, DiskInformation = info \<rparr>
        in Inr (st\<lparr> Disks := chain_set c r disk,
                   ExtensionPointer := (ExtensionPointer st)(the Device \<mapsto> r) \<rparr>, Some r))))"

text \<open>The loop of \<open>ValidateDisk\<close> follows \<open>Next\<close> \<open>Index\<close> times, not \<open>NumLists\<close> times.\<close>

definition ValidateDisk :: "DISK_STATE \<Rightarrow> slot_ref option \<Rightarrow> bool outcome" where
  "ValidateDisk st Disk =
     (case Disk of None \<Rightarrow> Inr False
      | Some r \<Rightarrow>
          (case chain_get (Disks st) r of None \<Rightarrow> Inl OutOfBounds
           | Some d \<Rightarrow>
               let Index = unat (DiskId d) mod UNITS_PER_LIST
               in Inr (Index < length (Disks st) \<and> r = (Index, Index))))"

definition RemoveDisk :: "DISK_STATE \<Rightarrow> slot_ref option \<Rightarrow> (DISK_STATE \<times> bool) outcome" where
  "RemoveDisk st Disk =
     andThen (ValidateDisk st Disk) (\<lambda>ok.
     case Disk of Some r \<Rightarrow> if ok then Inr (st\<lparr> Disks := chain_set (Disks st) r DISK_zero \<rparr>, True) else Inr (st, False)
     | None \<Rightarrow> Inr (st, False))"

section \<open>Partitions\<close>

definition GetPartition :: "DISK_STATE \<Rightarrow> u64 \<Rightarrow> slot_ref option" where
  "GetPartition st PId =
     (case chain_ref_of_id UNITS_PER_LIST (Partitions st) (unat PId) of None \<Rightarrow> None
      | Some r \<Rightarrow> (case chain_get (Partitions st) r of None \<Rightarrow> None
                   | Some p \<Rightarrow> if prt_Present p then Some r else None))"

definition ValidatePartition :: "DISK_STATE \<Rightarrow> slot_ref option \<Rightarrow> bool outcome" where
  "ValidatePartition st Partition =
     (case Partition of None \<Rightarrow> Inr False
      | Some r \<Rightarrow> (case chain_get (Partitions st) r of None \<Rightarrow> Inl OutOfBounds
                   | Some p \<Rightarrow> Inr (GetPartition st (PartitionId p) = Some r)))"

definition SetPartitionName ::
  "bool \<Rightarrow> DISK_STATE \<Rightarrow> slot_ref option \<Rightarrow> wchar list option \<Rightarrow> (DISK_STATE \<times> bool) outcome" where
  "SetPartitionName pool st Partition Name =
     andThen (ValidatePartition st Partition) (\<lambda>ok.
     case Partition of None \<Rightarrow> Inr (st, False)
     | Some r \<Rightarrow>
       if \<not> ok then Inr (st, False) else
       (case chain_get (Partitions st) r of None \<Rightarrow> Inl OutOfBounds
        | Some p \<Rightarrow>
          (case Name of
             None \<Rightarrow> Inr (st\<lparr> Partitions := chain_set (Partitions st) r (p\<lparr> PartitionName := None \<rparr>) \<rparr>, True)
           | Some nm \<Rightarrow>
               andThen (wstrlen nm) (\<lambda>len.
               if len = 0 then Inr (st, False)
               else if \<not> pool then Inl SOD
               else Inr (st\<lparr> Partitions := chain_set (Partitions st) r
                               (p\<lparr> PartitionName := Some (take len nm @ [0]) \<rparr>) \<rparr>, True)))))"

definition CreatePartition ::
  "bool \<Rightarrow> DISK_STATE \<Rightarrow> wchar list option \<Rightarrow> u64 \<Rightarrow> slot_ref option \<Rightarrow> DISK_INFO option \<Rightarrow> u64 \<Rightarrow>
   PARTITION_MANAGEMENT_INTERFACE option \<Rightarrow> (DISK_STATE \<times> slot_ref option) outcome" where
  "CreatePartition pool st Name SecurityDescriptor DiskDevice Info FsI ManagementInterface =
     (case (DiskDevice, Info) of
        (Some dd, Some info) \<Rightarrow>
          andThen (walk_or_die pool (\<lambda>p. \<not> prt_Present p) PARTITION_zero (Partitions st)) (\<lambda>(c, r).
          case chain_get c r of None \<Rightarrow> Inl OutOfBounds
          | Some p0 \<Rightarrow>
            let p = p0\<lparr> prt_Present := True, PartitionId := of_nat (slot_id UNITS_PER_LIST r),
                       prt_SecurityDescriptor := SecurityDescriptor, PartitionInformation := info,
                       prt_Disk := Some dd, FsInfo := FsI,
                       Interface := (case ManagementInterface of None \<Rightarrow> Interface p0 | Some i \<Rightarrow> i) \<rparr>;
                st1 = st\<lparr> Partitions := chain_set c r p,
                         SystemPartition := (if SecurityDescriptor AND DISK_SYSTEM \<noteq> 0 then Some r else SystemPartition st),
                         MainPartition := (if SecurityDescriptor AND DISK_MAIN \<noteq> 0 then Some r else MainPartition st) \<rparr>
            in andThen (SetPartitionName pool st1 (Some r) Name) (\<lambda>(st2, _). Inr (st2, Some r)))
      | _ \<Rightarrow> Inr (st, None))"

definition DestroyPartition :: "DISK_STATE \<Rightarrow> slot_ref option \<Rightarrow> (DISK_STATE \<times> bool) outcome" where
  "DestroyPartition st Partition =
     andThen (ValidatePartition st Partition) (\<lambda>ok.
     case Partition of None \<Rightarrow> Inr (st, False)
     | Some r \<Rightarrow>
       if \<not> ok then Inr (st, False)
       else Inr (st\<lparr> MainPartition := (if MainPartition st = Some r then None else MainPartition st),
                    SystemPartition := (if SystemPartition st = Some r then None else SystemPartition st),
                    Partitions := chain_set (Partitions st) r PARTITION_zero \<rparr>, True))"

definition GetMainPartition :: "DISK_STATE \<Rightarrow> slot_ref option" where
  "GetMainPartition st = MainPartition st"

definition GetSystemPartition :: "DISK_STATE \<Rightarrow> slot_ref option" where
  "GetSystemPartition st = SystemPartition st"

definition SetMainPartition :: "DISK_STATE \<Rightarrow> slot_ref option \<Rightarrow> (DISK_STATE \<times> bool) outcome" where
  "SetMainPartition st Partition =
     andThen (ValidatePartition st Partition) (\<lambda>ok.
     if ok then Inr (st\<lparr> MainPartition := Partition \<rparr>, True) else Inr (st, False))"

definition SetSystemPartition :: "DISK_STATE \<Rightarrow> slot_ref option \<Rightarrow> (DISK_STATE \<times> bool) outcome" where
  "SetSystemPartition st Partition =
     andThen (ValidatePartition st Partition) (\<lambda>ok.
     if ok then Inr (st\<lparr> SystemPartition := Partition \<rparr>, True) else Inr (st, False))"

section \<open>Open files of a partition\<close>

definition CreateFileTable :: "bool \<Rightarrow> OPEN_FILE_LIST outcome" where
  "CreateFileTable pool = (if pool then Inr [replicate UNITS_PER_LIST OPEN_FILE_zero] else Inl SOD)"

text \<open>
  The test before the allocation is inverted: a full block without successor is left through a null pointer,
  and a full block with a successor has the successor replaced by a new empty block.
\<close>

fun AllocateFile_walk :: "bool \<Rightarrow> OPEN_FILE_LIST \<Rightarrow> (OPEN_FILE_LIST \<times> slot_ref) outcome" where
  "AllocateFile_walk pool [] = Inl NullDeref"
| "AllocateFile_walk pool (b # bs) =
     (case first_index (\<lambda>f. \<not> Open f) b of
        Some i \<Rightarrow> Inr (b # bs, (0, i))
      | None \<Rightarrow>
          (case bs of [] \<Rightarrow> Inl NullDeref
           | _ # _ \<Rightarrow> if pool then Inr ([b, replicate UNITS_PER_LIST OPEN_FILE_zero], (1, 0)) else Inl SOD))"

definition AllocateFile :: "bool \<Rightarrow> slot_ref \<Rightarrow> OPEN_FILE_LIST \<Rightarrow> (OPEN_FILE_LIST \<times> slot_ref) outcome" where
  "AllocateFile pool owner FileList =
     andThen (AllocateFile_walk pool FileList) (\<lambda>(c, r).
     Inr (chain_set c r (OPEN_FILE_zero\<lparr> Open := True, FileId := of_nat (slot_id UNITS_PER_LIST r),
                                        of_FileList := Some owner \<rparr>), r))"

definition ValidateFile :: "DISK_STATE \<Rightarrow> FILE option \<Rightarrow> bool outcome" where
  "ValidateFile st File =
     (case File of None \<Rightarrow> Inr False
      | Some (o1, r) \<Rightarrow>
        (case chain_get (Partitions st) o1 of None \<Rightarrow> Inl OutOfBounds
         | Some p \<Rightarrow>
           (case chain_get (prt_FileList p) r of None \<Rightarrow> Inl OutOfBounds
            | Some f \<Rightarrow>
                if \<not> Open f then Inr False else
                (case of_FileList f of None \<Rightarrow> Inr False
                 | Some o2 \<Rightarrow>
                   (case chain_get (Partitions st) o2 of None \<Rightarrow> Inl OutOfBounds
                    | Some p2 \<Rightarrow> Inr (o2 = o1 \<and>
                        chain_ref_of_id UNITS_PER_LIST (prt_FileList p2) (unat (FileId f)) = Some r))))))"

section \<open>Paths\<close>

text \<open>The search for \<open>":/"\<close>: offset behind it and the number of characters before it.\<close>

fun indexer_scan :: "wchar list \<Rightarrow> nat \<Rightarrow> nat option outcome" where
  "indexer_scan [] n = Inl OutOfBounds"
| "indexer_scan (c # cs) n =
     (if c = 0 then Inr None
      else andThen (memcmp (take 2 (c # cs)) [58, 47]) (\<lambda>same. if same then Inr (Some n) else indexer_scan cs (Suc n)))"

text \<open>The index number behind the letter: \<open>i\<close> counts down, \<open>c\<close> up.\<close>

fun indexer_number :: "wchar list \<Rightarrow> nat \<Rightarrow> u16 \<Rightarrow> u64 \<Rightarrow> u64 outcome" where
  "indexer_number Path 0 c PId = Inr PId"
| "indexer_number Path (Suc i) c PId =
     (if c \<noteq> 0 then andThen (array_get Path i) (\<lambda>w. indexer_number Path i (c + 1) (PId + powi64 (10 * ucast w) c))
      else indexer_number Path i (c + 1) (PId + of_nat i))"

text \<open>Result: the partition and, when it was written, the offset stored in \<open>*InPartitionPath\<close>.\<close>

definition ResolvePartition :: "DISK_STATE \<Rightarrow> wchar list option \<Rightarrow> (slot_ref option \<times> nat option) outcome" where
  "ResolvePartition st Path =
     (case Path of None \<Rightarrow> Inr (None, None)
      | Some path \<Rightarrow>
        andThen (memcmp (take 2 path) [47, 47]) (\<lambda>main. if main then Inr (GetMainPartition st, Some 2) else
        andThen (memcmp (take 3 path) [47, 47, 47]) (\<lambda>system. if system then Inr (GetSystemPartition st, Some 3) else
        andThen (indexer_scan path 0) (\<lambda>found.
        case found of None \<Rightarrow> Inr (None, None)
        | Some len \<Rightarrow>
          if len = 0 then Inr (None, Some 2) else
          (let c = hd path;
               (PId, path1, len1) =
                 (if 97 \<le> c \<and> c \<le> 122 then (ucast (c - 97) :: u64, tl path, len - 1)
                  else if 65 \<le> c \<and> c \<le> 90 then (ucast (c - 65), tl path, len - 1)
                  else (0, path, len))
           in andThen (indexer_number path1 len1 0 PId) (\<lambda>PId'.
              Inr (GetPartition st PId', Some (len + 2))))))))"

text \<open>\<open>ResolveNextFileName\<close>: the next name, its length and the pushed path; \<open>FileName\<close> is the output buffer.\<close>

fun next_name :: "wchar list \<Rightarrow> (wchar list \<times> wchar list) outcome" where
  "next_name [] = Inl OutOfBounds"
| "next_name (c # cs) =
     (if c = 0 then Inr ([], c # cs)
      else if c = 47 then Inr ([], cs)
      else andThen (next_name cs) (\<lambda>(nm, rest). Inr (c # nm, rest)))"

definition ResolveNextFileName ::
  "wchar list option \<Rightarrow> wchar list option \<Rightarrow> (wchar list \<times> nat \<times> wchar list) option outcome" where
  "ResolveNextFileName Path FileName =
     (case (Path, FileName) of
        (Some path, Some buf) \<Rightarrow>
          andThen (array_get path 0) (\<lambda>c.
          if c = 0 then Inr None else
          andThen (next_name path) (\<lambda>(nm, rest).
          andThen (memcpy buf (nm @ [0]) (Suc (length nm))) (\<lambda>buf'.
          Inr (Some (buf', length nm, rest)))))
      | _ \<Rightarrow> Inr None)"

definition is_sep :: "wchar \<Rightarrow> bool" where
  "is_sep c \<longleftrightarrow> c = 47 \<or> c = 92"

text \<open>The loop of \<open>FixFilePath\<close> over the copy (its terminating zero included): the characters written to \<open>Path\<close>.\<close>

function fix_loop :: "wchar list \<Rightarrow> bool \<Rightarrow> wchar list" where
  "fix_loop cs SeparatorFound =
     (case cs of [] \<Rightarrow> []
      | c # rest \<Rightarrow>
          if c = 0 then []
          else if SeparatorFound then fix_loop (dropWhile is_sep cs) False
          else if is_sep c then
            (case rest of [] \<Rightarrow> [] | d # _ \<Rightarrow> if d = 0 then [] else 47 # fix_loop rest True)
          else c # fix_loop rest False)"
  by pat_completeness auto
termination
  by (relation "measures [\<lambda>(cs, b). length cs, \<lambda>(cs, b). if b then 1 else 0]")
     (auto simp: length_dropWhile_le le_imp_less_Suc dest: le_neq_trans split: if_splits)

definition FixFilePath :: "wchar list option \<Rightarrow> (wchar list option \<times> bool) outcome" where
  "FixFilePath P =
     (case P of None \<Rightarrow> Inr (None, False)
      | Some path \<Rightarrow>
        andThen (array_get path 0) (\<lambda>c0.
        if c0 = 0 then Inr (Some path, False) else
        andThen (wstrlen path) (\<lambda>len.
        if len \<ge> MAX_FILE_NAME then Inl OutOfBounds else
        let res = fix_loop (take len path @ [0]) True
        in Inr (Some (res @ [0] @ drop (Suc (length res)) path), True))))"

section \<open>The tables implement the slot contract\<close>

interpretation disks: slot_table "\<lambda>d. \<not> dsk_Present d" DISK_zero UNITS_PER_LIST
  by unfold_locales (simp_all add: DISK_zero_def UNITS_PER_LIST_def)

interpretation partitions: slot_table "\<lambda>p. \<not> prt_Present p" PARTITION_zero UNITS_PER_LIST
  by unfold_locales (simp_all add: PARTITION_zero_def UNITS_PER_LIST_def)

definition partition_at :: "DISK_STATE \<Rightarrow> slot_ref \<Rightarrow> PARTITION_INSTANCE \<Rightarrow> bool" where
  "partition_at st r p \<longleftrightarrow> chain_get (Partitions st) r = Some p \<and> prt_Present p"

text \<open>
  The invariant of the partition table: blocks of 120 slots, each present partition carries the id of its slot,
  and the main and the system partition, where set, are present.
\<close>

definition disk_wf :: "DISK_STATE \<Rightarrow> bool" where
  "disk_wf st \<longleftrightarrow> chain_wf UNITS_PER_LIST (Partitions st) \<and> length (Partitions st) < 2 ^ 50 \<and>
     (\<forall>r p. partition_at st r p \<longrightarrow> PartitionId p = of_nat (slot_id UNITS_PER_LIST r)) \<and>
     (\<forall>r. MainPartition st = Some r \<longrightarrow> (\<exists>p. partition_at st r p)) \<and>
     (\<forall>r. SystemPartition st = Some r \<longrightarrow> (\<exists>p. partition_at st r p))"

lemma slot_id_bound:
  assumes "chain_wf UNITS_PER_LIST c" and "length c \<le> 2 ^ 50" and "chain_get c r = Some x"
  shows "unat (of_nat (slot_id UNITS_PER_LIST r) :: u64) = slot_id UNITS_PER_LIST r"
proof (rule unat_of_nat_u64)
  have "fst r < length c" "snd r < 120"
    using assms chain_get_snd_less [OF assms(1,3)] by (auto simp: chain_get_def UNITS_PER_LIST_def split: if_splits)
  then have "fst r * 120 + snd r < 2 ^ 50 * 120 + 120"
    using assms(2) by (intro add_less_le_mono) auto
  then show "slot_id UNITS_PER_LIST r < 2 ^ 64" by (simp add: slot_id_def UNITS_PER_LIST_def)
qed

lemma GetPartition_at:
  assumes "disk_wf st"
  shows "partition_at st r p \<Longrightarrow> GetPartition st (PartitionId p) = Some r"
    and "GetPartition st i = Some r \<Longrightarrow> \<exists>p. partition_at st r p \<and> PartitionId p = i"
proof -
  note wf = assms [unfolded disk_wf_def]
  show "GetPartition st (PartitionId p) = Some r" if "partition_at st r p"
  proof -
    have "unat (PartitionId p) = slot_id UNITS_PER_LIST r"
      using that wf slot_id_bound [of "Partitions st" r p] by (auto simp: partition_at_def)
    then show ?thesis using that wf chain_ref_of_slot_id [of UNITS_PER_LIST "Partitions st" r p]
      by (simp add: GetPartition_def partition_at_def)
  qed
  show "\<exists>p. partition_at st r p \<and> PartitionId p = i" if g: "GetPartition st i = Some r"
  proof -
    obtain p where p: "chain_ref_of_id UNITS_PER_LIST (Partitions st) (unat i) = Some r" "partition_at st r p"
      using g by (auto simp: GetPartition_def partition_at_def split: option.splits if_splits)
    then have "slot_id UNITS_PER_LIST r = unat i"
      using wf chain_ref_of_id_get [of UNITS_PER_LIST "Partitions st" "unat i" r] partitions.N_pos by blast
    then have "PartitionId p = i" using wf p(2) by (metis of_nat_unat ucast_id)
    then show ?thesis using p(2) by blast
  qed
qed

lemma ValidatePartition_iff:
  "disk_wf st \<Longrightarrow> chain_get (Partitions st) r = Some p \<Longrightarrow> prt_Present p \<Longrightarrow> ValidatePartition st (Some r) = Inr True"
  using GetPartition_at(1) [of st r p] by (simp add: ValidatePartition_def partition_at_def)

text \<open>Setting a present partition to another one with the same id keeps the invariant.\<close>

lemma disk_wf_update:
  assumes "disk_wf st" and "chain_get (Partitions st) r = Some p" and "prt_Present p"
    and "prt_Present q" and "PartitionId q = PartitionId p"
  shows "disk_wf (st\<lparr> Partitions := chain_set (Partitions st) r q \<rparr>)"
proof -
  note wf = assms(1) [unfolded disk_wf_def partition_at_def]
  have "chain_get (chain_set (Partitions st) r q) s = (if s = r then Some q else chain_get (Partitions st) s)" for s
    using assms(2) by (cases "s = r") auto
  then show ?thesis using wf assms(2-) by (simp add: disk_wf_def partition_at_def)
qed

lemma SetPartitionName_spec:
  assumes "disk_wf st" and "chain_get (Partitions st) r = Some p" and "prt_Present p"
    and "\<forall>nm. Name = Some nm \<longrightarrow> 0 \<in> set nm"
  shows "\<exists>q ok. SetPartitionName True st (Some r) Name = Inr (st\<lparr> Partitions := chain_set (Partitions st) r q \<rparr>, ok) \<and>
     q = p\<lparr> PartitionName := PartitionName q \<rparr>"
proof -
  have v: "ValidatePartition st (Some r) = Inr True" using assms(1-3) by (rule ValidatePartition_iff)
  have same: "chain_set (Partitions st) r p = Partitions st"
    using assms(2) by (auto simp: chain_set_def chain_get_def split: if_splits)
  show ?thesis
  proof (cases Name)
    case None
    then show ?thesis using v assms(2) by (auto simp: SetPartitionName_def intro!: exI [of _ "p\<lparr> PartitionName := None \<rparr>"])
  next
    case (Some nm)
    have len: "wstrlen nm = Inr (length (cstring nm))" using Some assms(4) by (simp add: wstrlen_def strlen_cstring)
    show ?thesis
    proof (cases "cstring nm = []")
      case True
      then show ?thesis using v assms(2) Some len same by (auto simp: SetPartitionName_def intro!: exI [of _ p])
    next
      case False
      then show ?thesis using v assms(2) Some len
        by (auto simp: SetPartitionName_def intro!: exI [of _ "p\<lparr> PartitionName := Some (take (length (cstring nm)) nm @ [0]) \<rparr>"])
    qed
  qed
qed

text \<open>Filling the slot that the walk found with a present partition of the right id.\<close>

lemma disk_wf_fill:
  assumes "disk_wf st" and "length (Partitions st) + 1 < 2 ^ 50"
    and w: "chain_walk (\<lambda>p. \<not> prt_Present p) PARTITION_zero UNITS_PER_LIST (Partitions st) = (c, r)"
    and pr: "prt_Present p" "PartitionId p = of_nat (slot_id UNITS_PER_LIST r)"
    and st1: "Partitions st1 = chain_set c r p"
    and m: "MainPartition st1 = Some r \<or> MainPartition st1 = MainPartition st"
      "SystemPartition st1 = Some r \<or> SystemPartition st1 = SystemPartition st"
  shows "disk_wf st1 \<and> (\<forall>s q. partition_at st1 s q \<longleftrightarrow> (if s = r then q = p else partition_at st s q)) \<and>
    (\<nexists>p0. partition_at st r p0)"
proof -
  note wf = assms(1) [unfolded disk_wf_def]
  have at_r: "chain_get (chain_set c r p) r = Some p" by (rule partitions.fill_get [OF w])
  have unused: "\<nexists>p0. partition_at st r p0"
    using partitions.walk_slot_unused [OF w, of r] by (auto simp: partition_at_def)
  have at: "partition_at st1 s q \<longleftrightarrow> (if s = r then q = p else partition_at st s q)" for s q
    using at_r pr(1) partitions.fill_occupied [OF w, of p s q] partitions.fill_frame [OF w, of s q p]
    by (auto simp: partition_at_def st1)
  have len: "length c < 2 ^ 50" "chain_wf UNITS_PER_LIST c"
    using assms(2) wf partitions.walk_wf [OF _ w] w by (auto simp: chain_walk_def split: option.splits)
  have "disk_wf st1"
    unfolding disk_wf_def
  proof (intro conjI allI impI)
    show "chain_wf UNITS_PER_LIST (Partitions st1)" "length (Partitions st1) < 2 ^ 50" using len by (simp_all add: st1)
    show "PartitionId q = of_nat (slot_id UNITS_PER_LIST s)" if "partition_at st1 s q" for s q
      using that wf pr(2) by (auto simp: at split: if_splits)
    show "\<exists>p. partition_at st1 s p" if "MainPartition st1 = Some s" for s
      using that wf m by (cases "s = r") (auto simp: at split: if_splits)
    show "\<exists>p. partition_at st1 s p" if "SystemPartition st1 = Some s" for s
      using that wf m by (cases "s = r") (auto simp: at split: if_splits)
  qed
  then show ?thesis using at unused by blast
qed

text \<open>
  C25. Creating a partition on a well-formed table with pool memory available succeeds: the new partition gets a slot
  that no present partition occupies, \<open>GetPartition\<close> finds it under its id and every earlier partition under its own,
  unchanged; it carries the given disk, information, file system data and interface; the main and the system
  partition are exactly those the security descriptors asked for; and the table stays well formed.
\<close>

theorem CreatePartition_creates:
  assumes "disk_wf st" and "length (Partitions st) + 1 < 2 ^ 50" and "\<forall>nm. Name = Some nm \<longrightarrow> 0 \<in> set nm"
  shows "\<exists>st' r p. CreatePartition True st Name Sec (Some dd) (Some info) FsI (Some ifc) = Inr (st', Some r) \<and>
     disk_wf st' \<and> partition_at st' r p \<and> (\<nexists>p0. partition_at st r p0) \<and> GetPartition st' (PartitionId p) = Some r \<and>
     prt_Disk p = Some dd \<and> PartitionInformation p = info \<and> FsInfo p = FsI \<and> Interface p = ifc \<and>
     (\<forall>s q. s \<noteq> r \<longrightarrow> (partition_at st' s q \<longleftrightarrow> partition_at st s q)) \<and>
     SystemPartition st' = (if Sec AND DISK_SYSTEM \<noteq> 0 then Some r else SystemPartition st) \<and>
     MainPartition st' = (if Sec AND DISK_MAIN \<noteq> 0 then Some r else MainPartition st)"
proof -
  obtain c r where w: "chain_walk (\<lambda>p. \<not> prt_Present p) PARTITION_zero UNITS_PER_LIST (Partitions st) = (c, r)"
    by (metis surj_pair)
  obtain p0 where p0: "chain_get c r = Some p0" "\<not> prt_Present p0" using partitions.walk_slot_free [OF w] by blast
  define p where "p = p0\<lparr> prt_Present := True, PartitionId := of_nat (slot_id UNITS_PER_LIST r),
     prt_SecurityDescriptor := Sec, PartitionInformation := info, prt_Disk := Some dd, FsInfo := FsI, Interface := ifc \<rparr>"
  define st1 where "st1 = st\<lparr> Partitions := chain_set c r p,
     SystemPartition := (if Sec AND DISK_SYSTEM \<noteq> 0 then Some r else SystemPartition st),
     MainPartition := (if Sec AND DISK_MAIN \<noteq> 0 then Some r else MainPartition st) \<rparr>"
  have pr: "prt_Present p" "PartitionId p = of_nat (slot_id UNITS_PER_LIST r)" by (simp_all add: p_def)
  have at_r: "chain_get (chain_set c r p) r = Some p" by (rule partitions.fill_get [OF w])
  note fill = disk_wf_fill [OF assms(1,2) w pr, of st1]
  have wf1: "disk_wf st1" and at: "\<And>s q. partition_at st1 s q \<longleftrightarrow> (if s = r then q = p else partition_at st s q)"
    and unused: "\<nexists>p0. partition_at st r p0"
    using fill by (auto simp: st1_def)
  have g1: "chain_get (Partitions st1) r = Some p" using at_r by (simp add: st1_def)
  obtain q ok where q: "SetPartitionName True st1 (Some r) Name =
      Inr (st1\<lparr> Partitions := chain_set (Partitions st1) r q \<rparr>, ok)" "q = p\<lparr> PartitionName := PartitionName q \<rparr>"
    using SetPartitionName_spec [OF wf1 g1 pr(1) assms(3)] by blast
  define st2 where "st2 = st1\<lparr> Partitions := chain_set (Partitions st1) r q \<rparr>"
  have qp: "prt_Present q" "PartitionId q = PartitionId p" "prt_Disk q = Some dd" "PartitionInformation q = info"
    "FsInfo q = FsI" "Interface q = ifc" by (subst q(2), simp add: p_def)+
  have wf2: "disk_wf st2" unfolding st2_def using wf1 g1 pr(1) qp(1,2) by (rule disk_wf_update)
  have at2: "partition_at st2 s q' \<longleftrightarrow> (if s = r then q' = q else partition_at st s q')" for s q'
    using at [of s q'] g1 qp(1) by (cases "s = r") (auto simp: partition_at_def st2_def)
  have "CreatePartition True st Name Sec (Some dd) (Some info) FsI (Some ifc) = Inr (st2, Some r)"
    using q(1) by (simp add: CreatePartition_def walk_or_die_def w p0(1) Let_def flip: p_def st1_def st2_def)
  moreover have "partition_at st2 r q" by (simp add: at2)
  moreover have "GetPartition st2 (PartitionId q) = Some r" using GetPartition_at(1) [OF wf2] at2 [of r q] by simp
  moreover have "SystemPartition st2 = (if Sec AND DISK_SYSTEM \<noteq> 0 then Some r else SystemPartition st)"
    "MainPartition st2 = (if Sec AND DISK_MAIN \<noteq> 0 then Some r else MainPartition st)"
    by (simp_all add: st2_def st1_def)
  moreover have "\<forall>s q'. s \<noteq> r \<longrightarrow> (partition_at st2 s q' \<longleftrightarrow> partition_at st s q')" by (simp add: at2)
  ultimately show ?thesis using wf2 unused qp by blast
qed

definition disk_init :: DISK_STATE where
  "disk_init = \<lparr> Disks = [replicate UNITS_PER_LIST DISK_zero], Partitions = [replicate UNITS_PER_LIST PARTITION_zero],
     MainPartition = None, SystemPartition = None, ExtensionPointer = Map.empty \<rparr>"

lemma disk_wf_init: "disk_wf disk_init"
  by (auto simp: disk_wf_def disk_init_def partition_at_def chain_wf_def chain_get_def PARTITION_zero_def split: if_splits)

theorem CreatePartition_creates_witness:
  "\<exists>st' r p. CreatePartition True disk_init (Some [65, 0]) DISK_MAIN (Some (0, 0)) (Some DISK_INFO_zero) 0 (Some INTERFACE_zero) =
     Inr (st', Some r) \<and> partition_at st' r p \<and> GetPartition st' (PartitionId p) = Some r \<and> MainPartition st' = Some r"
proof -
  have h: "disk_wf disk_init" "length (Partitions disk_init) + 1 < 2 ^ 50"
    "\<forall>nm. Some [65, 0 :: wchar] = Some nm \<longrightarrow> 0 \<in> set nm"
    by (rule disk_wf_init) (simp_all add: disk_init_def)
  have m: "DISK_MAIN AND DISK_MAIN \<noteq> 0" by (simp add: DISK_MAIN_def)
  show ?thesis using CreatePartition_creates [OF h, of DISK_MAIN "(0, 0)" DISK_INFO_zero 0 INTERFACE_zero] m by auto
qed

lemma DestroyPartition_destroys:
  assumes "disk_wf st" and "partition_at st r p"
  shows "\<exists>st'. DestroyPartition st (Some r) = Inr (st', True) \<and> disk_wf st' \<and> (\<forall>q. \<not> partition_at st' r q) \<and>
     (\<forall>s q. s \<noteq> r \<longrightarrow> (partition_at st' s q \<longleftrightarrow> partition_at st s q)) \<and> MainPartition st' \<noteq> Some r \<and> SystemPartition st' \<noteq> Some r"
proof -
  note wf = assms(1) [unfolded disk_wf_def]
  have g: "chain_get (Partitions st) r = Some p" "prt_Present p" using assms(2) by (auto simp: partition_at_def)
  define st' where "st' = st\<lparr> MainPartition := (if MainPartition st = Some r then None else MainPartition st),
     SystemPartition := (if SystemPartition st = Some r then None else SystemPartition st),
     Partitions := chain_set (Partitions st) r PARTITION_zero \<rparr>"
  have at: "partition_at st' s q \<longleftrightarrow> s \<noteq> r \<and> partition_at st s q" for s q
    using g by (cases "s = r") (auto simp: partition_at_def st'_def PARTITION_zero_def)
  have "DestroyPartition st (Some r) = Inr (st', True)"
    using ValidatePartition_iff [OF assms(1) g] by (simp add: DestroyPartition_def st'_def)
  moreover have "disk_wf st'"
  proof -
    have "MainPartition st' = Some s \<Longrightarrow> s \<noteq> r \<and> MainPartition st = Some s"
      "SystemPartition st' = Some s \<Longrightarrow> s \<noteq> r \<and> SystemPartition st = Some s" for s
      by (auto simp: st'_def split: if_splits)
    moreover have "chain_wf UNITS_PER_LIST (Partitions st')" "length (Partitions st') < 2 ^ 50"
      using wf by (simp_all add: st'_def)
    ultimately show ?thesis using wf at unfolding disk_wf_def by meson
  qed
  moreover have "MainPartition st' \<noteq> Some r" "SystemPartition st' \<noteq> Some r" by (simp_all add: st'_def)
  ultimately show ?thesis using at by blast
qed

section \<open>ValidateDisk\<close>

text \<open>
  Remark. \<open>ValidateDisk\<close> accepts a disk exactly when its block number equals its index in the block, because its loop
  follows the list \<open>Index\<close> times instead of \<open>NumLists\<close> times.  Of the 120 disks of the first block only the
  first is valid; every other one is refused by each function that validates its disk, and \<open>RemoveDisk\<close> keeps it.
\<close>

theorem ValidateDisk_diagonal:
  assumes "chain_wf UNITS_PER_LIST (Disks st)" and "length (Disks st) \<le> 2 ^ 50"
    and "chain_get (Disks st) r = Some d" and "DiskId d = of_nat (slot_id UNITS_PER_LIST r)"
  shows "ValidateDisk st (Some r) = Inr (fst r = snd r) \<and>
    (fst r \<noteq> snd r \<longrightarrow> RemoveDisk st (Some r) = Inr (st, False))"
proof -
  have "unat (DiskId d) mod UNITS_PER_LIST = snd r"
    using slot_id_bound [OF assms(1,2,3)] chain_get_snd_less [OF assms(1,3)] assms(4) slot_id_div_mod by simp
  moreover have "fst r < length (Disks st)" using assms(3) by (auto simp: chain_get_def split: if_splits)
  ultimately have "ValidateDisk st (Some r) = Inr (fst r = snd r)"
    using assms(3) by (cases r) (auto simp: ValidateDisk_def)
  then show ?thesis by (simp add: RemoveDisk_def)
qed

theorem ValidateDisk_diagonal_witness:
  "\<exists>st. chain_get (Disks st) (0, 1) \<noteq> None \<and> ValidateDisk st (Some (0, 1)) = Inr False \<and>
     RemoveDisk st (Some (0, 1)) = Inr (st, False)"
proof -
  let ?d = "DISK_zero\<lparr> dsk_Present := True, DiskId := 1 \<rparr>"
  let ?st = "disk_init\<lparr> Disks := [replicate UNITS_PER_LIST ?d] \<rparr>"
  have h: "chain_wf UNITS_PER_LIST (Disks ?st)" "length (Disks ?st) \<le> 2 ^ 50" "chain_get (Disks ?st) (0, 1) = Some ?d"
    "DiskId ?d = of_nat (slot_id UNITS_PER_LIST (0, 1))"
    by (simp_all add: chain_wf_def chain_get_def UNITS_PER_LIST_def slot_id_def)
  show ?thesis using ValidateDisk_diagonal [OF h] h(3) by (intro exI [of _ ?st]) simp
qed

section \<open>The open-file list is limited to one block\<close>

lemma AllocateFile_full:
  "\<forall>f \<in> set b. Open f \<Longrightarrow> AllocateFile pool owner [b] = Inl NullDeref"
  using first_index_None_iff [of "\<lambda>f. \<not> Open f" b] by (simp add: AllocateFile_def)

section \<open>FixFilePath\<close>

text \<open>The reference: the names of a path between separators, and their join with a single slash.\<close>

function components :: "wchar list \<Rightarrow> wchar list list" where
  "components [] = []"
| "components (c # cs) =
     (if is_sep c then components cs
      else (c # takeWhile (\<lambda>x. \<not> is_sep x) cs) # components (dropWhile (\<lambda>x. \<not> is_sep x) cs))"
  by pat_completeness auto
termination by (relation "measure length") (auto simp: length_dropWhile_le le_imp_less_Suc)

fun join_path :: "wchar list list \<Rightarrow> wchar list" where
  "join_path [] = []"
| "join_path [x] = x"
| "join_path (x # y # ys) = x @ 47 # join_path (y # ys)"

definition ends2 :: "wchar list \<Rightarrow> bool" where
  "ends2 p \<longleftrightarrow> 2 \<le> length p \<and> is_sep (last p) \<and> is_sep (last (butlast p))"

definition trail :: "wchar list \<Rightarrow> wchar list" where
  "trail p = (if components p \<noteq> [] \<and> ends2 p then [47] else [])"

declare fix_loop.simps [simp del]

lemma components_dropWhile: "components (dropWhile is_sep p) = components p"
  by (induction p) auto

lemma components_Nil_iff: "components p = [] \<longleftrightarrow> (\<forall>c \<in> set p. is_sep c)"
  by (induction p rule: components.induct) auto

lemma not_sep_zero [simp]: "\<not> is_sep 0" by (simp add: is_sep_def)

lemma dropWhile_sep_zero: "dropWhile is_sep (p @ [0]) = dropWhile is_sep p @ [0]"
  by (induction p) auto

lemma fix_loop_word:
  "\<forall>c \<in> set w. \<not> is_sep c \<and> c \<noteq> 0 \<Longrightarrow> fix_loop (w @ cs) False = w @ fix_loop cs False"
  by (induction w) (simp_all add: fix_loop.simps [of "_ # _"])

lemma ends2_append: "\<exists>c \<in> set q. \<not> is_sep c \<Longrightarrow> ends2 (p @ q) \<longleftrightarrow> ends2 q"
proof (cases q rule: rev_cases)
  case (snoc q1 y)
  assume a: "\<exists>c \<in> set q. \<not> is_sep c"
  show ?thesis
  proof (cases q1 rule: rev_cases)
    case Nil
    then show ?thesis using a snoc by (auto simp: ends2_def)
  next
    case (snoc q2 z)
    then show ?thesis using \<open>q = q1 @ [y]\<close> by (auto simp: ends2_def butlast_append)
  qed
qed simp

lemma fix_loop_components:
  assumes "0 \<notin> set p"
  shows "fix_loop (p @ [0]) True = join_path (components p) @ trail p"
  using assms
proof (induction p rule: length_induct)
  case (1 p)
  define d where "d = dropWhile is_sep p"
  have start: "fix_loop (p @ [0]) True = fix_loop (d @ [0]) False"
  proof (cases p)
    case (Cons c cs)
    then show ?thesis using 1(2) dropWhile_sep_zero [of p] by (subst fix_loop.simps) (auto simp: d_def)
  qed (simp add: d_def fix_loop.simps [of "[_]"])
  define w where "w = takeWhile (\<lambda>x. \<not> is_sep x) d"
  define q where "q = dropWhile (\<lambda>x. \<not> is_sep x) d"
  have d: "d = w @ q" by (simp add: w_def q_def)
  obtain u where u: "p = u @ d" unfolding d_def by (metis takeWhile_dropWhile_id)
  have w: "\<forall>c \<in> set w. \<not> is_sep c \<and> c \<noteq> 0" 
  proof
    fix c assume "c \<in> set w"
    then have "c \<in> set d" "\<not> is_sep c" unfolding w_def by (auto dest: set_takeWhileD)
    then show "\<not> is_sep c \<and> c \<noteq> 0" using 1(2) u by auto
  qed
  have loop: "fix_loop (d @ [0]) False = w @ fix_loop (q @ [0]) False" using fix_loop_word [OF w] by (simp add: d)
  show ?case
  proof (cases d)
    case Nil
    then have "components p = []" by (simp add: d_def components_Nil_iff)
    then show ?thesis using start Nil by (simp add: trail_def fix_loop.simps [of "[_]"])
  next
    case (Cons c cs)
    have c: "\<not> is_sep c" using Cons unfolding d_def by (metis dropWhile_eq_Cons_conv)
    have comp: "components p = w # components q"
      using components_dropWhile [of p] Cons c by (simp add: d_def [symmetric] w_def q_def)
    have wc: "w = c # tl w" using Cons c by (simp add: w_def)
    show ?thesis
    proof (cases q)
      case Nil
      have "\<not> ends2 p" using w wc u d Nil by (auto simp: ends2_def last_append)
      then show ?thesis using start loop comp Nil by (simp add: trail_def fix_loop.simps [of "[_]"])
    next
      case q: (Cons s q')
      have s: "is_sep s" "s \<noteq> 0" using q 1(2) u d unfolding q_def by (auto simp: dropWhile_eq_Cons_conv)
      show ?thesis
      proof (cases "q' = []")
        case True
        have "\<not> ends2 p" using w wc u d q True by (auto simp: ends2_def butlast_append last_append)
        then show ?thesis using start loop comp q True s by (simp add: trail_def fix_loop.simps [of "_ # _"])
      next
        case False
        have IH: "fix_loop (q' @ [0]) True = join_path (components q') @ trail q'"
          using 1 u d q by auto
        have h: "hd q' \<noteq> 0" using False 1(2) u d q by (auto simp: neq_Nil_conv)
        have "fix_loop (q @ [0]) False = 47 # fix_loop (q' @ [0]) True"
          using q s False h by (subst fix_loop.simps) (auto simp: neq_Nil_conv)
        then have res: "fix_loop (p @ [0]) True = w @ 47 # join_path (components q') @ trail q'"
          using start loop IH by simp
        have comp': "components p = w # components q'" using comp q s by simp
        show ?thesis
        proof (cases "components q' = []")
          case True
          then have "ends2 p" using False s u d q components_Nil_iff [of q']
            by (cases q' rule: rev_cases) (auto simp: ends2_def butlast_append last_append)
          then show ?thesis using res comp' True by (simp add: trail_def)
        next
          case ne: False
          then have "ends2 p \<longleftrightarrow> ends2 q'" using ends2_append [of q' "u @ w @ [s]"] components_Nil_iff [of q'] u d q by auto
          then show ?thesis using res comp' ne by (cases "components q'") (simp_all add: trail_def)
        qed
      qed
    qed
  qed
qed

text \<open>
  C35. \<open>FixFilePath\<close> of a path of at most 254 characters normalises it in place: the result is the names of the path,
  with slashes and backslashes as separators and empty names dropped, joined by single slashes; the only
  exception is a path that ends in two or more separators, where one trailing slash is left.  A longer path overruns the
  local copy.
\<close>

theorem FixFilePath_normalises:
  assumes "0 \<notin> set p" and "p \<noteq> []"
  shows "FixFilePath (Some (p @ 0 # rest)) =
    (if length p < MAX_FILE_NAME
     then (let res = join_path (components p) @ (if components p \<noteq> [] \<and> ends2 p then [47] else [])
           in Inr (Some (res @ [0] @ drop (Suc (length res)) (p @ 0 # rest)), True))
     else Inl OutOfBounds)"
proof -
  have "strlen (p @ 0 # rest) = Inr (length p)"
    using assms(1) strlen_cstring [of "p @ 0 # rest"] by simp
  moreover have "array_get (p @ 0 # rest) 0 = Inr (hd p)" "hd p \<noteq> 0" using assms by (cases p; auto)+
  ultimately show ?thesis
    using fix_loop_components [OF assms(1)] by (simp add: FixFilePath_def wstrlen_def trail_def Let_def not_less)
qed

theorem FixFilePath_normalises_witness:
  "FixFilePath (Some [47, 97, 92, 92, 98, 47, 0]) = Inr (Some [97, 47, 98, 0, 98, 47, 0], True)"
proof -
  have c: "components [47, 97, 92, 92, 98, 47] = [[97], [98]]" "\<not> ends2 [47, 97, 92, 92, 98, 47 :: wchar]"
    by (simp_all add: is_sep_def ends2_def)
  show ?thesis using FixFilePath_normalises [of "[47, 97, 92, 92, 98, 47]" "[]"] c by (simp add: MAX_FILE_NAME_def)
qed

section \<open>Resolving a path\<close>

text \<open>The names that repeated calls of \<open>ResolveNextFileName\<close> deliver are the names between slashes.\<close>

lemma next_name_slash:
  "47 \<notin> set nm \<Longrightarrow> 0 \<notin> set nm \<Longrightarrow> next_name (nm @ 47 # rest) = Inr (nm, rest)"
  "47 \<notin> set nm \<Longrightarrow> 0 \<notin> set nm \<Longrightarrow> next_name (nm @ 0 # rest) = Inr (nm, 0 # rest)"
  by (induction nm) auto

end
