(* ===== verification/File_System.thy ===== *)
theory File_System
  imports Disk_Manager Handle_Table
begin

text \<open>
  The file system layer (\<open>fs/fs.c\<close>), directory listings (\<open>fs/dir.c\<close>) and the MBR mount (\<open>fs/mbr.c\<close>).  An operation
  that ends in a call of a driver's entry point is a \<open>dispatch\<close>: either the status the kernel returns itself, or the
  address of the entry point with the numbers passed to it.  What the entry points return is part of the environment
  \<open>fs_env\<close>, with the current process and thread and the address at which a file entry lies.
\<close>

definition FILE_OPEN_READ :: u64 where "FILE_OPEN_READ = 1"
definition FILE_OPEN_WRITE :: u64 where "FILE_OPEN_WRITE = 2"
definition FILE_OPEN_SET_INFORMATION :: u64 where "FILE_OPEN_SET_INFORMATION = 4"
definition HANDLE_FILE :: u64 where "HANDLE_FILE = 1"
definition MAX_FILES_PER_DIRLS_LIST :: nat where "MAX_FILES_PER_DIRLS_LIST = 50"
definition MBR_BOOT_SIGNATURE :: u16 where "MBR_BOOT_SIGNATURE = 0xAA55"

datatype dispatch = Return KERNELSTATUS | CallDriver u64 "u64 list"

record fs_env =
  env_GetInfo :: "u64 \<Rightarrow> FILE \<Rightarrow> KERNELSTATUS"
  env_DiskRead :: "u64 \<Rightarrow> u64"
  env_DiskWrite :: "u64 \<Rightarrow> u64"
  env_Process :: u64
  env_Thread :: u64
  env_file_addr :: "FILE \<Rightarrow> u64"
  env_Pool :: bool

text \<open>\<open>FileHandles\<close> is the file handle table of each process, \<open>fs_pool\<close> the addresses the pool will return for handle lists.\<close>

record FS_STATE =
  dk :: DISK_STATE
  FileHandles :: "u64 \<Rightarrow> HANDLE_TABLE"
  fs_pool :: pool

section \<open>Access to the file entries\<close>

definition file_get :: "DISK_STATE \<Rightarrow> FILE \<Rightarrow> OPEN_FILE_DATA option" where
  "file_get d F = (case chain_get (Partitions d) (fst F) of None \<Rightarrow> None | Some p \<Rightarrow> chain_get (prt_FileList p) (snd F))"

definition file_set :: "DISK_STATE \<Rightarrow> FILE \<Rightarrow> OPEN_FILE_DATA \<Rightarrow> DISK_STATE" where
  "file_set d F x =
     (case chain_get (Partitions d) (fst F) of None \<Rightarrow> d
      | Some p \<Rightarrow> d\<lparr> Partitions := chain_set (Partitions d) (fst F)
                       (p\<lparr> prt_FileList := chain_set (prt_FileList p) (snd F) x \<rparr>) \<rparr>)"

text \<open>\<open>File->Partition->Interface\<close>\<close>

definition file_interface :: "DISK_STATE \<Rightarrow> FILE \<Rightarrow> PARTITION_MANAGEMENT_INTERFACE outcome" where
  "file_interface d F =
     (case file_get d F of None \<Rightarrow> Inl OutOfBounds
      | Some f \<Rightarrow>
        (case of_Partition f of None \<Rightarrow> Inl NullDeref
         | Some r \<Rightarrow> (case chain_get (Partitions d) r of None \<Rightarrow> Inl OutOfBounds | Some p \<Rightarrow> Inr (Interface p))))"

definition call_or_unsupported :: "u64 \<Rightarrow> u64 list \<Rightarrow> dispatch" where
  "call_or_unsupported entry args = (if entry \<noteq> 0 then CallDriver entry args else Return KERNEL_SERR_UNSUPPORTED)"

section \<open>Dispatch to the file system driver\<close>

definition GetFileInfo :: "DISK_STATE \<Rightarrow> FILE option \<Rightarrow> bool \<Rightarrow> dispatch outcome" where
  "GetFileInfo d File FileInformation =
     (case File of None \<Rightarrow> Inr (Return KERNEL_SERR_INVALID_PARAMETER)
      | Some F \<Rightarrow>
        if \<not> FileInformation then Inr (Return KERNEL_SERR_INVALID_PARAMETER)
        else andThen (file_interface d F) (\<lambda>i. Inr (call_or_unsupported (if_GetInfo i) [])))"

definition ReadFile :: "DISK_STATE \<Rightarrow> FILE option \<Rightarrow> u64 \<Rightarrow> bool \<Rightarrow> dispatch outcome" where
  "ReadFile d File Offset Buffer =
     (case File of None \<Rightarrow> Inr (Return KERNEL_SERR_INVALID_PARAMETER)
      | Some F \<Rightarrow>
        if \<not> Buffer then Inr (Return KERNEL_SERR_INVALID_PARAMETER)
        else andThen (file_interface d F) (\<lambda>i. Inr (call_or_unsupported (if_Read i) [Offset])))"

definition ListFileContent :: "DISK_STATE \<Rightarrow> FILE option \<Rightarrow> bool \<Rightarrow> u64 \<Rightarrow> dispatch outcome" where
  "ListFileContent d File FileList MaxFileCount =
     (case File of None \<Rightarrow> Inr (Return KERNEL_SERR_INVALID_PARAMETER)
      | Some F \<Rightarrow>
        if \<not> FileList then Inr (Return KERNEL_SERR_INVALID_PARAMETER)
        else andThen (file_interface d F) (\<lambda>i.
          Inr (call_or_unsupported (if_ListFileContent i)
                 [if MaxFileCount = 0 then 0xFFFFFFFFFFFFFFFF else MaxFileCount])))"

text \<open>\<open>OpenFile\<close>: the partition's \<open>Open\<close> entry, called with the offset of the path inside the partition; \<open>None\<close> is NULL.\<close>

definition OpenFile :: "DISK_STATE \<Rightarrow> wchar list option \<Rightarrow> u64 \<Rightarrow> (u64 \<times> slot_ref \<times> nat) option outcome" where
  "OpenFile d Path Access =
     (if Path = None \<or> Access = 0 then Inr None
      else andThen (ResolvePartition d Path) (\<lambda>(part, off).
        case part of None \<Rightarrow> Inr None
        | Some r \<Rightarrow>
          (case chain_get (Partitions d) r of None \<Rightarrow> Inl OutOfBounds
           | Some p \<Rightarrow> if if_Open (Interface p) = 0 then Inr None
                       else Inr (Some (if_Open (Interface p), r, (case off of None \<Rightarrow> 0 | Some n \<Rightarrow> n))))))"

definition CloseFile :: "DISK_STATE \<Rightarrow> FILE option \<Rightarrow> dispatch outcome" where
  "CloseFile d File =
     andThen (ValidateFile d File) (\<lambda>ok.
     case File of None \<Rightarrow> Inr (Return KERNEL_SERR_INVALID_PARAMETER)
     | Some F \<Rightarrow>
       if \<not> ok then Inr (Return KERNEL_SERR_INVALID_PARAMETER)
       else andThen (file_interface d F) (\<lambda>i. Inr (call_or_unsupported (if_Close i) [])))"

text \<open>\<open>Drive->Device->ControlInterface\<close>, and the interface's \<open>Read\<close> entry.\<close>

definition FsReadDrive :: "fs_env \<Rightarrow> DEVICE_STATE \<Rightarrow> DISK_STATE \<Rightarrow> slot_ref option \<Rightarrow> u64 \<Rightarrow> u64 \<Rightarrow> bool \<Rightarrow> dispatch outcome" where
  "FsReadDrive env dst d Drive SectorOffset SectorCount Buffer =
     (if \<not> Buffer then Inr (Return KERNEL_SERR_INVALID_PARAMETER) else
      andThen (ValidateDisk d Drive) (\<lambda>ok.
      case Drive of None \<Rightarrow> Inr (Return KERNEL_SERR_INVALID_PARAMETER)
      | Some r \<Rightarrow>
        if \<not> ok then Inr (Return KERNEL_SERR_INVALID_PARAMETER) else
        (case chain_get (Disks d) r of None \<Rightarrow> Inl OutOfBounds
         | Some disk \<Rightarrow>
           (case dsk_Device disk of None \<Rightarrow> Inl NullDeref
            | Some v \<Rightarrow>
              (case chain_get (DeviceList dst) v of None \<Rightarrow> Inl OutOfBounds
               | Some dev \<Rightarrow>
                 if ControlInterface dev = 0 \<or> env_DiskRead env (ControlInterface dev) = 0
                 then Inr (Return KERNEL_SERR_UNSUPPORTED)
                 else Inr (CallDriver (env_DiskRead env (ControlInterface dev)) [SectorOffset, SectorCount]))))))"

definition partition_call ::
  "(PARTITION_MANAGEMENT_INTERFACE \<Rightarrow> u64) \<Rightarrow> DISK_STATE \<Rightarrow> slot_ref option \<Rightarrow> u64 \<Rightarrow> u64 \<Rightarrow> bool \<Rightarrow> dispatch outcome" where
  "partition_call entry d Partition off cnt Buffer =
     (if \<not> Buffer then Inr (Return KERNEL_SERR_INVALID_PARAMETER) else
      andThen (ValidatePartition d Partition) (\<lambda>ok.
      case Partition of None \<Rightarrow> Inr (Return KERNEL_SERR_INVALID_PARAMETER)
      | Some r \<Rightarrow>
        if \<not> ok then Inr (Return KERNEL_SERR_INVALID_PARAMETER) else
        (case chain_get (Partitions d) r of None \<Rightarrow> Inl OutOfBounds
         | Some p \<Rightarrow> Inr (call_or_unsupported (entry (Interface p)) [off, cnt]))))"

definition FsReadPartitionSectors :: "DISK_STATE \<Rightarrow> slot_ref option \<Rightarrow> u64 \<Rightarrow> u64 \<Rightarrow> bool \<Rightarrow> dispatch outcome" where
  "FsReadPartitionSectors d Partition SectorOffset SectorCount Buffer =
     partition_call if_SectorRawRead d Partition SectorOffset SectorCount Buffer"

definition FsReadPartition :: "DISK_STATE \<Rightarrow> slot_ref option \<Rightarrow> u64 \<Rightarrow> u64 \<Rightarrow> bool \<Rightarrow> dispatch outcome" where
  "FsReadPartition d Partition ClusterOffset ClusterCount Buffer =
     partition_call if_RawRead d Partition ClusterOffset ClusterCount Buffer"

text \<open>\<open>Partition->Disk->Device->ControlInterface\<close>, without any check; the sector is relative to the partition.\<close>

definition default_sectors ::
  "(u64 \<Rightarrow> u64) \<Rightarrow> DEVICE_STATE \<Rightarrow> DISK_STATE \<Rightarrow> slot_ref \<Rightarrow> u64 \<Rightarrow> u64 \<Rightarrow> dispatch outcome" where
  "default_sectors entry dst d Partition off cnt =
     (case chain_get (Partitions d) Partition of None \<Rightarrow> Inl OutOfBounds
      | Some p \<Rightarrow>
        (case prt_Disk p of None \<Rightarrow> Inl NullDeref
         | Some r \<Rightarrow>
           (case chain_get (Disks d) r of None \<Rightarrow> Inl OutOfBounds
            | Some disk \<Rightarrow>
              (case dsk_Device disk of None \<Rightarrow> Inl NullDeref
               | Some v \<Rightarrow>
                 (case chain_get (DeviceList dst) v of None \<Rightarrow> Inl OutOfBounds
                  | Some dev \<Rightarrow>
                    if ControlInterface dev = 0 \<or> entry (ControlInterface dev) = 0 then Inl NullDeref
                    else Inr (CallDriver (entry (ControlInterface dev))
                                [BaseAddress (PartitionInformation p) + off, cnt]))))))"

definition DefaultReadPartitionSectors :: "fs_env \<Rightarrow> DEVICE_STATE \<Rightarrow> DISK_STATE \<Rightarrow> slot_ref \<Rightarrow> u64 \<Rightarrow> u64 \<Rightarrow> dispatch outcome" where
  "DefaultReadPartitionSectors env dst d Partition SectorOffset SectorCount =
     default_sectors (env_DiskRead env) dst d Partition SectorOffset SectorCount"

definition DefaultWritePartitionSectors :: "fs_env \<Rightarrow> DEVICE_STATE \<Rightarrow> DISK_STATE \<Rightarrow> slot_ref \<Rightarrow> u64 \<Rightarrow> u64 \<Rightarrow> dispatch outcome" where
  "DefaultWritePartitionSectors env dst d Partition SectorOffset SectorCount =
     default_sectors (env_DiskWrite env) dst d Partition SectorOffset SectorCount"

section \<open>Open files\<close>

text \<open>The stored path of an open file has \<open>PathLength\<close> characters, so the comparison stays inside of it.\<close>

definition same_path :: "wchar list \<Rightarrow> nat \<Rightarrow> OPEN_FILE_DATA \<Rightarrow> bool" where
  "same_path Path Len f \<longleftrightarrow> Open f \<and> PathLength f = of_nat Len \<and> wstrcmp_nocs (of_Path f) Path Len = Inr True"

definition FindOpenFilePath :: "OPEN_FILE_LIST \<Rightarrow> wchar list \<Rightarrow> slot_ref option outcome" where
  "FindOpenFilePath List Path =
     andThen (wstrlen Path) (\<lambda>Len. if Len = 0 then Inr None else Inr (chain_find (same_path Path Len) List))"

definition ReleaseFile :: "FS_STATE \<Rightarrow> FILE option \<Rightarrow> (FS_STATE \<times> bool) outcome" where
  "ReleaseFile st File =
     (case File of None \<Rightarrow> Inr (st, False)
      | Some F \<Rightarrow>
        (case file_get (dk st) F of None \<Rightarrow> Inl OutOfBounds
         | Some f \<Rightarrow>
           andThen (snd (CloseHandle (\<lambda>_. 0) (FileHandles st (of_Process f)) (of_Handle f))) (\<lambda>(tbl, _).
           Inr (st\<lparr> dk := file_set (dk st) F OPEN_FILE_zero,
                   FileHandles := (FileHandles st)(of_Process f := tbl) \<rparr>, True))))"

text \<open>The conflict rules for opening an already open file with the access bits \<open>WRITE\<close> or \<open>SET_INFORMATION\<close>.\<close>

datatype open_decision = Share | Refuse | OpenNew

definition open_conflict :: "u64 \<Rightarrow> u64 \<Rightarrow> OPEN_FILE_DATA \<Rightarrow> open_decision" where
  "open_conflict Process Access f =
     (if of_Process f = Process then Share
      else if Access AND FILE_OPEN_WRITE \<noteq> 0 \<and> ucast (OpenAccess f) AND FILE_OPEN_WRITE \<noteq> 0 then Refuse
      else if Access AND FILE_OPEN_SET_INFORMATION \<noteq> 0 \<and> ucast (OpenAccess f) AND FILE_OPEN_SET_INFORMATION \<noteq> 0 then Refuse
      else OpenNew)"

definition open_check ::
  "u64 \<Rightarrow> u64 \<Rightarrow> OPEN_FILE_LIST \<Rightarrow> wchar list \<Rightarrow> (open_decision \<times> slot_ref option) outcome" where
  "open_check Process Access List Copy =
     (if Access AND (FILE_OPEN_WRITE OR FILE_OPEN_SET_INFORMATION) = 0 then Inr (OpenNew, None)
      else andThen (FindOpenFilePath List Copy) (\<lambda>found.
        case found of None \<Rightarrow> Inr (OpenNew, None)
        | Some r \<Rightarrow> (case chain_get List r of None \<Rightarrow> Inl OutOfBounds
                      | Some f \<Rightarrow> Inr (open_conflict Process Access f, Some r))))"

definition open_new ::
  "fs_env \<Rightarrow> FS_STATE \<Rightarrow> slot_ref \<Rightarrow> PARTITION_INSTANCE \<Rightarrow> wchar list \<Rightarrow> u64 \<Rightarrow> (FS_STATE \<times> FILE option) outcome" where
  "open_new env st r p Copy Access =
     andThen (AllocateFile (env_Pool env) r (prt_FileList p)) (\<lambda>(FileList, s).
     case chain_get FileList s of None \<Rightarrow> Inl OutOfBounds
     | Some f0 \<Rightarrow>
       andThen (wstrlen Copy) (\<lambda>len.
       let f = f0\<lparr> OpenAccess := ucast Access, of_Partition := Some r, of_Path := Copy, PathLength := of_nat len,
                  of_Process := env_Process env \<rparr>;
           d1 = (dk st)\<lparr> Partitions := chain_set (Partitions (dk st)) r
                            (p\<lparr> prt_FileList := chain_set FileList s f \<rparr>) \<rparr>;
           st1 = st\<lparr> dk := d1 \<rparr>;
           status = (if if_GetInfo (Interface p) \<noteq> 0 then env_GetInfo env (if_GetInfo (Interface p)) (r, s)
                     else KERNEL_SERR_UNSUPPORTED)
       in if KERNEL_ERROR status then andThen (ReleaseFile st1 (Some (r, s))) (\<lambda>(st2, _). Inr (st2, None))
          else andThen (OpenHandle 2 (FileHandles st1 (env_Process env), fs_pool st1) (env_Thread env)
                  HANDLE_FLAG_CLOSE_FILE_ON_EXIT HANDLE_FILE (env_file_addr env (r, s)) 0) (\<lambda>((tbl, pl), h).
          case h of None \<Rightarrow> Inl SOD
          | Some hnd \<Rightarrow> Inr (st1\<lparr> dk := file_set d1 (r, s) (f\<lparr> of_Handle := Some hnd \<rparr>),
                                FileHandles := (FileHandles st1)(env_Process env := tbl), fs_pool := pl \<rparr>, Some (r, s)))))"

definition DefaultOpenFile ::
  "fs_env \<Rightarrow> FS_STATE \<Rightarrow> slot_ref option \<Rightarrow> wchar list option \<Rightarrow> u64 \<Rightarrow> (FS_STATE \<times> FILE option) outcome" where
  "DefaultOpenFile env st Partition Path Access =
     andThen (ValidatePartition (dk st) Partition) (\<lambda>ok.
     case (Partition, Path) of
       (Some r, Some path) \<Rightarrow>
         if \<not> ok then Inr (st, None) else
         (case chain_get (Partitions (dk st)) r of None \<Rightarrow> Inl OutOfBounds
          | Some p \<Rightarrow>
            if if_GetInfo (Interface p) = 0 then Inr (st, None) else
            andThen (wstrlen path) (\<lambda>len.
            if \<not> env_Pool env then Inl NullDeref else
            andThen (FixFilePath (Some (take len path @ [0]))) (\<lambda>(fixed, good).
            case fixed of None \<Rightarrow> Inr (st, None)
            | Some Copy \<Rightarrow>
              if \<not> good then Inr (st, None) else
              andThen (open_check (env_Process env) Access (prt_FileList p) Copy) (\<lambda>(dec, found).
              case (dec, found) of
                (Share, Some s) \<Rightarrow>
                  (case chain_get (prt_FileList p) s of None \<Rightarrow> Inl OutOfBounds
                   | Some f \<Rightarrow> Inr (st\<lparr> dk := file_set (dk st) (r, s) (f\<lparr> OpenAccess := OpenAccess f OR ucast Access \<rparr>) \<rparr>,
                                   Some (r, s)))
              | (Refuse, _) \<Rightarrow> Inr (st, None)
              | _ \<Rightarrow> open_new env st r p Copy Access))))
     | _ \<Rightarrow> Inr (st, None))"

text \<open>\<open>DefaultCloseFile\<close> clears the close-on-exit flag of the handle, closes the handle and zeroes the entry.\<close>

definition DefaultCloseFile :: "FS_STATE \<Rightarrow> FILE \<Rightarrow> (FS_STATE \<times> KERNELSTATUS) outcome" where
  "DefaultCloseFile st F =
     (case file_get (dk st) F of None \<Rightarrow> Inl OutOfBounds
      | Some f \<Rightarrow>
        (case of_Handle f of None \<Rightarrow> Inl NullDeref
         | Some (k, i, x) \<Rightarrow>
           let tbl = FileHandles st (of_Process f) in
           (case handle_at tbl (k, i, x) of None \<Rightarrow> Inl OutOfBounds
            | Some h \<Rightarrow>
              (case Lists (tbl ! k) ! i of None \<Rightarrow> Inl OutOfBounds
               | Some l \<Rightarrow>
                 let tbl1 = set_list tbl k i (l\<lparr> Handles := (Handles l)[x := h\<lparr> hd_Flags :=
                              hd_Flags h AND NOT HANDLE_FLAG_CLOSE_FILE_ON_EXIT \<rparr>] \<rparr>)
                 in andThen (snd (CloseHandle (\<lambda>_. 0) tbl1 (Some (k, i, x)))) (\<lambda>(tbl2, _).
                    Inr (st\<lparr> dk := file_set (dk st) F OPEN_FILE_zero,
                            FileHandles := (FileHandles st)(of_Process f := tbl2) \<rparr>, KERNEL_SOK))))))"

section \<open>MBR and mounting\<close>

text \<open>The partition entries of the MBR are inspected but every branch of the switch is empty.\<close>

definition MountMbrDevice :: "u16 \<Rightarrow> int" where
  "MountMbrDevice boot_signature = (if boot_signature \<noteq> MBR_BOOT_SIGNATURE then -1 else 0)"

text \<open>\<open>sector0\<close> is what the disk driver's \<open>Read\<close> returns: a status and the boot signature it placed in the buffer.\<close>

definition FsMountDevice ::
  "fs_env \<Rightarrow> DEVICE_STATE \<Rightarrow> DISK_STATE \<Rightarrow> (u64 \<Rightarrow> KERNELSTATUS \<times> u16) \<Rightarrow> slot_ref option \<Rightarrow> int outcome" where
  "FsMountDevice env dst d sector0 device =
     andThen (ValidateDevice dst device) (\<lambda>ok.
     case device of None \<Rightarrow> Inr (-1)
     | Some v \<Rightarrow>
       if \<not> ok then Inr (-1) else
       if \<not> env_Pool env then Inl SOD else
       andThen (FsReadDrive env dst d (ExtensionPointer d v) 0 1 True) (\<lambda>r.
       let (status, sig) = (case r of Return s \<Rightarrow> (s, 0) | CallDriver e _ \<Rightarrow> sector0 e)
       in if KERNEL_ERROR status then Inr (-1)
          else if KERNEL_ERROR (MountMbrDevice sig) then Inr (-2) else Inr 0))"

section \<open>Directory listings (dir.c)\<close>

record DIR_LIST_FILE_ENTRY =
  de_Set :: bool
  StartCluster :: u64
  de_attributes :: u64
  FileName :: "wchar list"
  de_FileSize :: u64

definition DIR_ENTRY_zero :: DIR_LIST_FILE_ENTRY where
  "DIR_ENTRY_zero = \<lparr> de_Set = False, StartCluster = 0, de_attributes = 0, FileName = [], de_FileSize = 0 \<rparr>"

text \<open>The listing is a chain of blocks of 50 entries; \<open>current\<close> is the position of the current block.\<close>

record DIRECTORY_FILE_LIST =
  file_count :: u32
  in_index :: u32
  dl_Process :: u64
  dl_start :: "nat option"
  dl_current :: "nat option"
  ls :: "DIR_LIST_FILE_ENTRY chain"

definition FsCreateDirList :: "u64 \<Rightarrow> bool \<Rightarrow> DIRECTORY_FILE_LIST option" where
  "FsCreateDirList Process list_given =
     (if Process = 0 \<or> \<not> list_given then None
      else Some \<lparr> file_count = 0, in_index = 0, dl_Process = Process, dl_start = Some 0, dl_current = Some 0,
                  ls = [replicate MAX_FILES_PER_DIRLS_LIST DIR_ENTRY_zero] \<rparr>)"

definition first_set_from :: "DIR_LIST_FILE_ENTRY list \<Rightarrow> nat \<Rightarrow> nat option" where
  "first_set_from b i = map_option (\<lambda>k. i + k) (first_index de_Set (drop i b))"

text \<open>The loop over at most 255 blocks; the start index is the same in every block.\<close>

fun dir_scan :: "nat \<Rightarrow> DIR_LIST_FILE_ENTRY chain \<Rightarrow> nat \<Rightarrow> nat \<Rightarrow> nat \<times> nat option" where
  "dir_scan 0 c cur idx = (cur, None)"
| "dir_scan (Suc z) c cur idx =
     (case first_set_from (c ! cur) idx of
        Some i \<Rightarrow> (cur, Some i)
      | None \<Rightarrow> if Suc cur < length c then dir_scan z c (Suc cur) idx else (cur, None))"

definition FsDirNext :: "DIRECTORY_FILE_LIST option \<Rightarrow> (DIRECTORY_FILE_LIST option \<times> slot_ref option) outcome" where
  "FsDirNext list =
     (case list of None \<Rightarrow> Inr (None, None)
      | Some l \<Rightarrow>
        (case (dl_start l, dl_current l) of
           (Some start, Some cur) \<Rightarrow>
             if \<not> cur < length (ls l) then Inl OutOfBounds else
             let wrap = (unat (in_index l) \<ge> MAX_FILES_PER_DIRLS_LIST \<or> in_index l \<ge> file_count l);
                 cur1 = (if wrap then if Suc cur < length (ls l) then Suc cur else start else cur);
                 idx1 = (if wrap then 0 else in_index l)
             in (case dir_scan 255 (ls l) cur1 (unat idx1) of
                   (cur2, Some i) \<Rightarrow> Inr (Some (l\<lparr> dl_current := Some cur2, in_index := of_nat i + 1 \<rparr>), Some (cur2, i))
                 | (cur2, None) \<Rightarrow> Inr (Some (l\<lparr> dl_current := Some cur2, in_index := idx1 \<rparr>), None))
         | _ \<Rightarrow> Inr (Some l, None)))"

text \<open>\<open>FsReleaseDirList\<close> frees the names of all blocks (returned in order) and zeroes the list.\<close>

definition FsReleaseDirList :: "DIRECTORY_FILE_LIST option \<Rightarrow> wchar list list \<times> DIRECTORY_FILE_LIST option \<times> int" where
  "FsReleaseDirList dirls =
     (case dirls of None \<Rightarrow> ([], None, -1)
      | Some l \<Rightarrow> (filter (\<lambda>n. n \<noteq> []) (map FileName (concat (ls l))),
          Some \<lparr> file_count = 0, in_index = 0, dl_Process = 0, dl_start = None, dl_current = None,
                 ls = [replicate MAX_FILES_PER_DIRLS_LIST DIR_ENTRY_zero] \<rparr>, 0))"

section \<open>Opening a file\<close>

lemma file_get_set:
  assumes "file_get d F = Some f"
  shows "file_get (file_set d F x) G = (if G = F then Some x else file_get d G)"
proof -
  obtain a u where F: "F = (a, u)" by (rule prod.exhaust)
  obtain b v where G: "G = (b, v)" by (rule prod.exhaust)
  obtain p where p: "chain_get (Partitions d) a = Some p" "chain_get (prt_FileList p) u = Some f"
    using assms by (auto simp: file_get_def F split: option.splits)
  show ?thesis
  proof (cases "b = a")
    case True
    then show ?thesis using p by (cases "v = u") (simp_all add: file_get_def file_set_def F G)
  next
    case False
    then show ?thesis using p by (simp add: file_get_def file_set_def F G)
  qed
qed

lemma AllocateFile_first_block:
  assumes "first_index (\<lambda>f. \<not> Open f) b = Some i"
  shows "AllocateFile pool owner (b # bs) =
    Inr (chain_set (b # bs) (0, i) (OPEN_FILE_zero\<lparr> Open := True, FileId := of_nat i, of_FileList := Some owner \<rparr>), (0, i))"
  using assms by (simp add: AllocateFile_def slot_id_def)

lemma open_new_opens:
  assumes g: "chain_get (Partitions (dk st)) r = Some p" and "if_GetInfo (Interface p) \<noteq> 0"
    and "prt_FileList p = b # bs" and i: "first_index (\<lambda>f. \<not> Open f) b = Some i"
    and "\<not> KERNEL_ERROR (env_GetInfo env (if_GetInfo (Interface p)) (r, 0, i))"
    and "ht_wf (FileHandles st (env_Process env))" and "fs_pool st = nx # c # pl" and "nx \<noteq> 0" and "c \<noteq> 0"
    and "env_file_addr env (r, 0, i) \<noteq> 0" and "wstrlen Copy = Inr len"
  shows "\<exists>st' f h e. open_new env st r p Copy Access = Inr (st', Some (r, 0, i)) \<and>
    file_get (dk st') (r, 0, i) = Some f \<and> Open f \<and> of_Path f = Copy \<and> PathLength f = of_nat len \<and>
    OpenAccess f = ucast Access \<and> of_Process f = env_Process env \<and> of_Partition f = Some r \<and>
    of_Handle f = Some h \<and> ht_wf (FileHandles st' (env_Process env)) \<and>
    handle_at (FileHandles st' (env_Process env)) h = Some e \<and> present e \<and> hd_Data e = env_file_addr env (r, 0, i) \<and>
    (\<forall>F. F \<noteq> (r, 0, i) \<longrightarrow> file_get (dk st') F = file_get (dk st) F)"
proof -
  define f0 where "f0 = OPEN_FILE_zero\<lparr> Open := True, FileId := of_nat i, of_FileList := Some r \<rparr>"
  define FL where "FL = chain_set (b # bs) (0, i) f0"
  have ilt: "i < length b" using i by (rule first_index_lt)
  have FL: "chain_get FL (0, i) = Some f0" using ilt by (simp add: FL_def chain_get_def chain_set_def)
  have alloc: "AllocateFile (env_Pool env) r (prt_FileList p) = Inr (FL, (0, i))"
    using AllocateFile_first_block [OF i] assms(3) by (simp add: FL_def f0_def)
  define f where "f = f0\<lparr> OpenAccess := ucast Access, of_Partition := Some r, of_Path := Copy, PathLength := of_nat len,
     of_Process := env_Process env \<rparr>"
  define d1 where "d1 = (dk st)\<lparr> Partitions := chain_set (Partitions (dk st)) r (p\<lparr> prt_FileList := chain_set FL (0, i) f \<rparr>) \<rparr>"
  obtain tbl' pool' h e where o: "OpenHandle 2 (FileHandles st (env_Process env), fs_pool st) (env_Thread env)
      HANDLE_FLAG_CLOSE_FILE_ON_EXIT HANDLE_FILE (env_file_addr env (r, 0, i)) 0 = Inr ((tbl', pool'), Some h)"
    "ht_wf tbl'" "handle_at tbl' h = Some e" "present e" "hd_Data e = env_file_addr env (r, 0, i)"
    using OpenHandle_returns [OF assms(6,10,8,9), of 0 pl "env_Thread env" HANDLE_FLAG_CLOSE_FILE_ON_EXIT HANDLE_FILE 0] assms(7)
    by (auto simp: numeral_2_eq_2)
  define st' where "st' = st\<lparr> dk := file_set d1 (r, 0, i) (f\<lparr> of_Handle := Some h \<rparr>),
     FileHandles := (FileHandles st)(env_Process env := tbl'), fs_pool := pool' \<rparr>"
  have g1: "file_get d1 (r, 0, i) = Some f" using g FL by (auto simp: file_get_def d1_def)
  have same: "file_get d1 F = file_get (dk st) F" if "F \<noteq> (r, 0, i)" for F
  proof -
    obtain a u where F: "F = (a, u)" by (rule prod.exhaust)
    show ?thesis
    proof (cases "a = r")
      case True
      then have "u \<noteq> (0, i)" using that F by simp
      then show ?thesis using True g assms(3) by (simp add: file_get_def d1_def FL_def F)
    next
      case False
      then show ?thesis by (simp add: file_get_def d1_def F)
    qed
  qed
  have "open_new env st r p Copy Access = Inr (st', Some (r, 0, i))"
    using assms(2,5,11) FL o(1)
    by (simp add: open_new_def alloc Let_def st'_def flip: f_def d1_def)
  moreover have "file_get (dk st') F = (if F = (r, 0, i) then Some (f\<lparr> of_Handle := Some h \<rparr>) else file_get (dk st) F)" for F
    using file_get_set [OF g1] same by (simp add: st'_def)
  ultimately show ?thesis using o by (auto simp: st'_def f_def f0_def)
qed

text \<open>
  C26. Opening a file through \<open>DefaultOpenFile\<close> on a valid partition whose driver knows the file, when no open file with
  that path is in the way and the file list has a free slot: the call returns a new entry in the first free slot that
  holds the normalised path, its length, the requested access and the calling process; a present handle on the entry is in
  the file handle table of the process; and every other open file is unchanged.
\<close>

theorem DefaultOpenFile_opens:
  assumes "disk_wf (dk st)" and "partition_at (dk st) r p" and "if_GetInfo (Interface p) \<noteq> 0"
    and "prt_FileList p = b # bs" and "first_index (\<lambda>f. \<not> Open f) b = Some i"
    and "\<not> KERNEL_ERROR (env_GetInfo env (if_GetInfo (Interface p)) (r, 0, i))"
    and "ht_wf (FileHandles st (env_Process env))" and "fs_pool st = nx # c # pl" and "nx \<noteq> 0" and "c \<noteq> 0"
    and "env_file_addr env (r, 0, i) \<noteq> 0" and "env_Pool env"
    and "0 \<notin> set path" and "FixFilePath (Some (path @ [0])) = Inr (Some Copy, True)"
    and "open_check (env_Process env) Access (prt_FileList p) Copy = Inr (OpenNew, found)"
  shows "\<exists>st' f h e. DefaultOpenFile env st (Some r) (Some (path @ [0])) Access = Inr (st', Some (r, 0, i)) \<and>
    file_get (dk st') (r, 0, i) = Some f \<and> Open f \<and> of_Path f = Copy \<and> PathLength f = of_nat (length (cstring Copy)) \<and>
    OpenAccess f = ucast Access \<and> of_Process f = env_Process env \<and> of_Partition f = Some r \<and>
    of_Handle f = Some h \<and> ht_wf (FileHandles st' (env_Process env)) \<and>
    handle_at (FileHandles st' (env_Process env)) h = Some e \<and> present e \<and> hd_Data e = env_file_addr env (r, 0, i) \<and>
    (\<forall>F. F \<noteq> (r, 0, i) \<longrightarrow> file_get (dk st') F = file_get (dk st) F)"
proof -
  have g: "chain_get (Partitions (dk st)) r = Some p" "prt_Present p" using assms(2) by (auto simp: partition_at_def)
  have v: "ValidatePartition (dk st) (Some r) = Inr True" using assms(1) g by (rule ValidatePartition_iff)
  have l: "wstrlen (path @ [0]) = Inr (length path)"
    using strlen_cstring [of "path @ [0]"] assms(13) by (simp add: wstrlen_def)
  have "0 \<in> set Copy"
    using assms(14) by (auto simp: FixFilePath_def andThen_Inr_iff Let_def split: if_splits)
  then have lc: "wstrlen Copy = Inr (length (cstring Copy))" by (simp add: wstrlen_def strlen_cstring)
  have "DefaultOpenFile env st (Some r) (Some (path @ [0])) Access = open_new env st r p Copy Access"
    using v g(1) assms(3,12,14,15) l by (simp add: DefaultOpenFile_def)
  then show ?thesis using open_new_opens [OF g(1) assms(3-11) lc] by simp
qed

definition sample_partition :: PARTITION_INSTANCE where
  "sample_partition = PARTITION_zero\<lparr> prt_Present := True, Interface := INTERFACE_zero\<lparr> if_GetInfo := 1 \<rparr> \<rparr>"

definition sample_fs :: FS_STATE where
  "sample_fs = \<lparr> dk = disk_init\<lparr> Partitions := [sample_partition # replicate 119 PARTITION_zero] \<rparr>,
     FileHandles = (\<lambda>_. sample_table), fs_pool = [0x3000, 0x4000] \<rparr>"

definition sample_env :: fs_env where
  "sample_env = \<lparr> env_GetInfo = (\<lambda>_ _. KERNEL_SOK), env_DiskRead = (\<lambda>_. 0), env_DiskWrite = (\<lambda>_. 0), env_Process = 5,
     env_Thread = 7, env_file_addr = (\<lambda>_. 0x9000), env_Pool = True \<rparr>"

lemma sample_fs_at: "partition_at (dk sample_fs) s q \<longleftrightarrow> s = (0, 0) \<and> q = sample_partition"
  by (cases s; cases "snd s") (auto simp: partition_at_def sample_fs_def chain_get_def sample_partition_def PARTITION_zero_def)

lemma sample_fs_wf: "disk_wf (dk sample_fs)"
  unfolding disk_wf_def sample_fs_at
  by (auto simp: sample_fs_def disk_init_def chain_wf_def UNITS_PER_LIST_def sample_partition_def PARTITION_zero_def slot_id_def)

theorem DefaultOpenFile_opens_witness:
  "\<exists>st'. DefaultOpenFile sample_env sample_fs (Some (0, 0)) (Some ([97] @ [0])) FILE_OPEN_READ = Inr (st', Some ((0, 0), 0, 0))"
proof -
  have h: "disk_wf (dk sample_fs)" "partition_at (dk sample_fs) (0, 0) sample_partition"
    "if_GetInfo (Interface sample_partition) \<noteq> 0"
    "prt_FileList sample_partition = replicate 120 OPEN_FILE_zero # []"
    "first_index (\<lambda>f. \<not> Open f) (replicate 120 OPEN_FILE_zero) = Some 0"
    "\<not> KERNEL_ERROR (env_GetInfo sample_env (if_GetInfo (Interface sample_partition)) ((0, 0), 0, 0))"
    "ht_wf (FileHandles sample_fs (env_Process sample_env))" "fs_pool sample_fs = 0x3000 # 0x4000 # []"
    "(0x3000 :: u64) \<noteq> 0" "(0x4000 :: u64) \<noteq> 0" "env_file_addr sample_env ((0, 0), 0, 0) \<noteq> 0" "env_Pool sample_env"
    "0 \<notin> set [97 :: wchar]"
    using sample_wf sample_fs_wf
    by (simp_all add: sample_fs_at) (simp_all add: sample_partition_def sample_fs_def sample_env_def PARTITION_zero_def
        UNITS_PER_LIST_def OPEN_FILE_zero_def KERNEL_ERROR_def KERNEL_SOK_def)
  have f: "FixFilePath (Some ([97] @ [0])) = Inr (Some [97, 0], True)" by code_simp
  have c: "open_check (env_Process sample_env) FILE_OPEN_READ (prt_FileList sample_partition) [97, 0] = Inr (OpenNew, None)"
    by (simp add: open_check_def FILE_OPEN_READ_def FILE_OPEN_WRITE_def FILE_OPEN_SET_INFORMATION_def)
  show ?thesis using DefaultOpenFile_opens [OF h f c] by blast
qed

text \<open>
  Remark. The exclusion of writers looks only at the first open entry with the path.  A request for write access is refused
  when that entry is open for writing in another process; but when the first entry is a reader of another process and a
  later entry is a writer of yet another one, the request is granted and the file has two writers.
\<close>

theorem open_check_first_entry_only:
  assumes "wstrlen Copy = Inr len" and "len \<noteq> 0" and "same_path Copy len reader" and "same_path Copy len writer"
    and "of_Process reader \<noteq> Process" and "of_Process writer \<noteq> Process"
    and "ucast (OpenAccess reader) AND FILE_OPEN_WRITE = 0" and "ucast (OpenAccess writer) AND FILE_OPEN_WRITE \<noteq> 0"
  shows "open_check Process FILE_OPEN_WRITE [writer # rest] Copy = Inr (Refuse, Some (0, 0)) \<and>
    open_check Process FILE_OPEN_WRITE [reader # writer # rest] Copy = Inr (OpenNew, Some (0, 0))"
proof -
  have a: "FILE_OPEN_WRITE AND (FILE_OPEN_WRITE OR FILE_OPEN_SET_INFORMATION) \<noteq> 0" "FILE_OPEN_WRITE AND FILE_OPEN_WRITE \<noteq> 0"
    "FILE_OPEN_WRITE AND FILE_OPEN_SET_INFORMATION = 0"
    by (simp_all add: FILE_OPEN_WRITE_def FILE_OPEN_SET_INFORMATION_def)
  have "FindOpenFilePath [writer # rest] Copy = Inr (Some (0, 0))"
    "FindOpenFilePath [reader # writer # rest] Copy = Inr (Some (0, 0))"
    using assms(1-4) by (simp_all add: FindOpenFilePath_def)
  then show ?thesis using a assms(5-) by (simp add: open_check_def open_conflict_def chain_get_def)
qed

theorem open_check_first_entry_only_witness:
  "\<exists>reader writer. of_Process writer = 2 \<and> ucast (OpenAccess writer) AND FILE_OPEN_WRITE \<noteq> 0 \<and>
     open_check 3 FILE_OPEN_WRITE [[reader, writer]] [97, 0] = Inr (OpenNew, Some (0, 0))"
proof -
  let ?f = "\<lambda>P a. OPEN_FILE_zero\<lparr> Open := True, of_Path := [97, 0], PathLength := 1, of_Process := P, OpenAccess := a \<rparr>"
  have h: "wstrlen [97, 0 :: wchar] = Inr 1" "(1 :: nat) \<noteq> 0" "same_path [97, 0] 1 (?f 1 1)" "same_path [97, 0] 1 (?f 2 2)"
    "of_Process (?f 1 1) \<noteq> 3" "of_Process (?f 2 2) \<noteq> 3" "ucast (OpenAccess (?f 1 1)) AND FILE_OPEN_WRITE = 0"
    "ucast (OpenAccess (?f 2 2)) AND FILE_OPEN_WRITE \<noteq> 0"
    by (simp_all add: wstrlen_def same_path_def wstrcmp_nocs_def nocs_differ_def FILE_OPEN_WRITE_def)
  show ?thesis using open_check_first_entry_only [OF h, of "[]"] h(8) by (intro exI [of _ "?f 1 1"] exI [of _ "?f 2 2"]) simp
qed

end
