(* ===== verification/Ipc.thy ===== *)
theory Ipc
  imports Slot_Table Handle_Table Kernel_Lib
begin

text \<open>
  Inter-process communication: clients and their message queues (\<open>ipc/ipc.c\<close>, \<open>inc/ipc/ipc.h\<close>) and servers
  (\<open>ipc/ipcserver.c\<close>, \<open>inc/ipc/ipcserver.h\<close>).  Clients and servers live in chained tables of 120 slots; a \<open>PCLIENT\<close> or
  \<open>RFSERVER\<close> is a slot reference, a message object the index of its queue cell.  Sending, receiving and dispatching are
  atomic steps on the state; a caller that has to wait for another thread is reported as waiting
  (\<open>SendWaits\<close>, \<open>SentSync\<close>, \<open>GetWaits\<close>), so every interleaving is a sequence of these steps.  Suspending and resuming threads (\<open>IoWait\<close>,
  \<open>IoFinish\<close>), interrupt flags and cache attributes of the pages are left to the scheduler.
\<close>

definition HANDLE_SERVER_CONNECTION :: u64 where "HANDLE_SERVER_CONNECTION = 7"
definition HANDLE_CLIENT :: u64 where "HANDLE_CLIENT = 9"
definition MAX_SERVER_PASSWORD_LENGTH :: nat where "MAX_SERVER_PASSWORD_LENGTH = 0x1000"
definition NO_MESSAGE :: u32 where "NO_MESSAGE = 0xFFFFFFFF"

definition IPC_RESEND :: "KERNELSTATUS \<Rightarrow> bool" where "IPC_RESEND x \<longleftrightarrow> x = KERNEL_SWR_RESEND"

definition IPC_MAKEADDRESS :: "u64 \<Rightarrow> u64 \<Rightarrow> u64 \<Rightarrow> u64 \<Rightarrow> u64" where
  "IPC_MAKEADDRESS d0 d1 d2 d3 =
     push_bit 48 (d0 AND 0xFFFF) OR push_bit 32 (d1 AND 0xFFFF) OR push_bit 16 (d2 AND 0xFFFF) OR ucast (ucast d3 :: u16)"

text \<open>\<open>hdr_Status\<close> says whether the pointer to the sender's status is set.\<close>

record MSG_HEADER =
  hdr_Set :: bool
  Pending :: bool
  MessageId :: u64
  hdr_Source :: "slot_ref option"
  hdr_Server :: "slot_ref option"
  Destination :: "slot_ref option"
  hdr_Status :: bool

record MSG =
  Message :: u64
  msg_Data :: u64
  NumBytes :: u64

record MSG_OBJECT =
  Header :: MSG_HEADER
  Body :: MSG

record MSG_QUEUE =
  MaxMessages :: u32
  PendingMessages :: u32
  LastId :: u64
  LeastId :: u64
  PossibleNextMessage :: u32
  Messages :: "MSG_OBJECT list"

record CLIENT =
  cl_Present :: nat
  AccessLocked :: u64
  ClientId :: u64
  IndexInList :: nat
  cl_ParentList :: "nat option"
  cl_Process :: u64
  cl_Thread :: u64
  ClientHandle :: "HANDLE option"
  InMessageQueue :: "MSG_QUEUE option"
  CurrentMessage :: "nat option"
  ServerClient :: bool
  cl_Server :: "slot_ref option"

record SERVER =
  srv_Present :: nat
  ServerId :: u64
  srv_ParentList :: "nat option"
  InListIndex :: nat
  ServerPassword :: "wchar list option"
  LenServerPassword :: nat
  Host :: "slot_ref option"
  ServerAddress :: u64
  AccessPolicy :: u64
  NumClients :: u64
  ConnectedClients :: "slot_ref option chain"

definition MSG_OBJECT_zero :: MSG_OBJECT where
  "MSG_OBJECT_zero = \<lparr> Header = \<lparr> hdr_Set = False, Pending = False, MessageId = 0, hdr_Source = None, hdr_Server = None,
     Destination = None, hdr_Status = False \<rparr>, Body = \<lparr> Message = 0, msg_Data = 0, NumBytes = 0 \<rparr> \<rparr>"

definition CLIENT_zero :: CLIENT where
  "CLIENT_zero = \<lparr> cl_Present = 0, AccessLocked = 0, ClientId = 0, IndexInList = 0, cl_ParentList = None, cl_Process = 0,
     cl_Thread = 0, ClientHandle = None, InMessageQueue = None, CurrentMessage = None, ServerClient = False, cl_Server = None \<rparr>"

text \<open>
  \<open>ProcHandles\<close> are the handle tables of the processes.  The environment gives the current thread and what the code reads of
  threads and processes: the process and client of a thread, whether a process runs in user mode, the result of
  \<open>KeResolvePhysicalAddress\<close>, and the addresses of clients and servers as handle data.
\<close>

record IPC_STATE =
  TotalClients :: u64
  Clients :: "CLIENT chain"
  Servers :: "SERVER chain"
  ProcHandles :: "u64 \<Rightarrow> HANDLE_TABLE"
  ipc_pool :: pool

record ipc_env =
  CurrentThread :: u64
  ThreadProcess :: "u64 \<Rightarrow> u64"
  ThreadClient :: "u64 \<Rightarrow> slot_ref option"
  UserMode :: "u64 \<Rightarrow> bool"
  ResolvePhysical :: "u64 \<Rightarrow> u64 \<Rightarrow> u64"
  client_addr :: "slot_ref \<Rightarrow> u64"
  server_addr :: "slot_ref \<Rightarrow> u64"
  QueuePool :: bool

section \<open>The message queue\<close>

text \<open>Claiming the first free cell: the new queue and its index.\<close>

definition queue_claim :: "MSG_QUEUE \<Rightarrow> (MSG_QUEUE \<times> nat) option" where
  "queue_claim q =
     (case first_index (\<lambda>m. \<not> hdr_Set (Header m)) (take (unat (MaxMessages q)) (Messages q)) of
        None \<Rightarrow> None
      | Some i \<Rightarrow>
          let m = Messages q ! i
          in Some (q\<lparr> Messages := (Messages q)[i := m\<lparr> Header := (Header m)\<lparr> hdr_Set := True, MessageId := LastId q \<rparr> \<rparr>],
                     LastId := LastId q + 1, PendingMessages := PendingMessages q + 1 \<rparr>, i))"

text \<open>
  Filling the claimed cell.  The status pointer is written for synchronous messages only, the source or the server
  depending on the sender; the fields that are not written keep what an earlier message left.
\<close>

definition queue_fill ::
  "MSG_QUEUE \<Rightarrow> nat \<Rightarrow> bool \<Rightarrow> slot_ref \<Rightarrow> CLIENT \<Rightarrow> slot_ref \<Rightarrow> MSG \<Rightarrow> MSG_QUEUE" where
  "queue_fill q i Async Source src Dest body =
     (let m = Messages q ! i;
          h = Header m;
          h1 = (if Async then h else h\<lparr> hdr_Status := True \<rparr>);
          h2 = (if ServerClient src then h1\<lparr> hdr_Server := cl_Server src \<rparr> else h1\<lparr> hdr_Source := Some Source \<rparr>);
          h3 = h2\<lparr> Destination := Some Dest, Pending := True \<rparr>
      in q\<lparr> Messages := (Messages q)[i := m\<lparr> Header := h3, Body := body \<rparr>],
           PossibleNextMessage := (if MessageId h3 = LeastId q then of_nat i else PossibleNextMessage q) \<rparr>)"

text \<open>
  Selecting the next message: the remembered cell if it is pending and has the least id, otherwise the first pending
  cell (the comparison of ids in that loop is behind a \<open>break\<close>).
\<close>

definition queue_select :: "MSG_QUEUE \<Rightarrow> (MSG_QUEUE \<times> nat option) outcome" where
  "queue_select q =
     (let scan = (\<lambda>q'. (q', first_index (\<lambda>m. Pending (Header m)) (take (unat (MaxMessages q)) (Messages q))))
      in if PossibleNextMessage q \<noteq> NO_MESSAGE then
           andThen (array_get (Messages q) (unat (PossibleNextMessage q))) (\<lambda>m.
           let q' = q\<lparr> PossibleNextMessage := NO_MESSAGE \<rparr>
           in if Pending (Header m) \<and> MessageId (Header m) = LeastId q
              then Inr (q', Some (unat (PossibleNextMessage q))) else Inr (scan q'))
         else Inr (scan q))"

definition queue_release :: "MSG_QUEUE \<Rightarrow> nat \<Rightarrow> MSG_QUEUE" where
  "queue_release q i =
     (let m = Messages q ! i
      in q\<lparr> Messages := (Messages q)[i := m\<lparr> Header := (Header m)\<lparr> Pending := False, hdr_Set := False \<rparr> \<rparr>],
           LeastId := LeastId q + 1, PendingMessages := PendingMessages q - 1 \<rparr>)"

section \<open>Clients\<close>

definition AllocateClient :: "bool \<Rightarrow> IPC_STATE \<Rightarrow> (IPC_STATE \<times> slot_ref) outcome" where
  "AllocateClient pool st =
     (if chain_find (\<lambda>c. cl_Present c = 0) (Clients st) = None \<and> \<not> pool then Inl SOD else
      case chain_walk (\<lambda>c. cl_Present c = 0) CLIENT_zero UNITS_PER_LIST (Clients st) of
        (c, r) \<Rightarrow>
          (case chain_get c r of None \<Rightarrow> Inl OutOfBounds
           | Some cl \<Rightarrow>
               Inr (st\<lparr> TotalClients := TotalClients st + 1,
                       Clients := chain_set c r (cl\<lparr> cl_Present := 2, ClientId := of_nat (slot_id UNITS_PER_LIST r),
                         IndexInList := snd r, cl_ParentList := Some (fst r) \<rparr>) \<rparr>, r)))"

interpretation clients: slot_table "\<lambda>c. cl_Present c = 0" CLIENT_zero UNITS_PER_LIST
  by unfold_locales (simp_all add: CLIENT_zero_def UNITS_PER_LIST_def)

lemma AllocateClient_ok:
  "\<exists>st1 r cl. AllocateClient True st = Inr (st1, r) \<and> chain_get (Clients st1) r = Some cl \<and>
     ProcHandles st1 = ProcHandles st \<and> ipc_pool st1 = ipc_pool st"
proof -
  obtain c r where w: "chain_walk (\<lambda>c. cl_Present c = 0) CLIENT_zero UNITS_PER_LIST (Clients st) = (c, r)"
    by (rule prod.exhaust)
  then obtain cl where "chain_get c r = Some cl" using clients.walk_slot_free by blast
  then show ?thesis using w by (simp add: AllocateClient_def)
qed

definition new_queue :: "nat \<Rightarrow> MSG_QUEUE" where
  "new_queue n = \<lparr> MaxMessages = of_nat n, PendingMessages = 0, LastId = 0, LeastId = 0,
     PossibleNextMessage = NO_MESSAGE, Messages = replicate n MSG_OBJECT_zero \<rparr>"

definition IpcClientCreate :: "ipc_env \<Rightarrow> IPC_STATE \<Rightarrow> u64 \<Rightarrow> u32 \<Rightarrow> (IPC_STATE \<times> slot_ref) outcome" where
  "IpcClientCreate env st HostThread MessageQueueLength =
     (let len = (if MessageQueueLength < 50 then 0x2000 else unat MessageQueueLength);
          Thread = (if HostThread \<noteq> 0 then HostThread else CurrentThread env);
          Process = ThreadProcess env Thread
      in andThen (AllocateClient (QueuePool env) st) (\<lambda>(st1, r).
         if \<not> QueuePool env then Inl SOD else
         case chain_get (Clients st1) r of None \<Rightarrow> Inl OutOfBounds
         | Some cl \<Rightarrow>
           andThen (OpenHandle 2 (ProcHandles st1 Process, ipc_pool st1) Thread 0 HANDLE_CLIENT (client_addr env r) 0)
             (\<lambda>((tbl, pl), h).
           case h of None \<Rightarrow> Inl SOD
           | Some hn \<Rightarrow>
             Inr (st1\<lparr> Clients := chain_set (Clients st1) r
                        (cl\<lparr> cl_Process := Process, cl_Thread := Thread, InMessageQueue := Some (new_queue len),
                            ClientHandle := Some hn, cl_Present := 1 \<rparr>),
                      ProcHandles := (ProcHandles st1)(Process := tbl), ipc_pool := pl \<rparr>, r))))"

definition IpcIsValidClient :: "IPC_STATE \<Rightarrow> u64 option \<Rightarrow> slot_ref option \<Rightarrow> bool outcome" where
  "IpcIsValidClient st Process Client =
     (case Client of None \<Rightarrow> Inr False
      | Some r \<Rightarrow>
        (case chain_get (Clients st) r of None \<Rightarrow> Inl OutOfBounds
         | Some c \<Rightarrow>
           Inr (cl_Present c \<noteq> 0 \<and> InMessageQueue c \<noteq> None \<and>
                map_option (\<lambda>l. (l, IndexInList c)) (cl_ParentList c) = Some r \<and>
                (case Process of None \<Rightarrow> True | Some p \<Rightarrow> cl_Process c = p))))"

text \<open>
  \<open>IpcClientDestroy\<close> closes the client's handle and zeroes the client.  The handles of the process are iterated in between to
  disconnect servers, but \<open>IpcServerDisconnect\<close> does nothing.
\<close>

definition IpcServerDisconnect :: "slot_ref option \<Rightarrow> slot_ref option \<Rightarrow> bool" where
  "IpcServerDisconnect Server Client = False"

definition IpcClientDestroy :: "IPC_STATE \<Rightarrow> slot_ref option \<Rightarrow> (IPC_STATE \<times> bool) outcome" where
  "IpcClientDestroy st Client =
     andThen (IpcIsValidClient st None Client) (\<lambda>ok.
     case Client of None \<Rightarrow> Inr (st, False)
     | Some r \<Rightarrow>
       if \<not> ok then Inr (st, False) else
       (case chain_get (Clients st) r of None \<Rightarrow> Inl OutOfBounds
        | Some c \<Rightarrow>
          andThen (snd (CloseHandle (\<lambda>_. 0) (ProcHandles st (cl_Process c)) (ClientHandle c))) (\<lambda>(tbl, _).
          Inr (st\<lparr> ProcHandles := (ProcHandles st)(cl_Process c := tbl),
                  Clients := chain_set (Clients st) r CLIENT_zero \<rparr>, True))))"

section \<open>Messages\<close>

datatype send_result = Refused KERNELSTATUS | Sent | SentSync nat | SendWaits

definition update_queue :: "IPC_STATE \<Rightarrow> slot_ref \<Rightarrow> CLIENT \<Rightarrow> MSG_QUEUE \<Rightarrow> IPC_STATE" where
  "update_queue st r c q = st\<lparr> Clients := chain_set (Clients st) r (c\<lparr> InMessageQueue := Some q \<rparr>) \<rparr>"

definition IpcSendMessage ::
  "ipc_env \<Rightarrow> IPC_STATE \<Rightarrow> slot_ref option \<Rightarrow> slot_ref option \<Rightarrow> bool \<Rightarrow> MSG \<Rightarrow> (IPC_STATE \<times> send_result) outcome" where
  "IpcSendMessage env st Source Dest Async body =
     (if Source = Dest then Inr (st, Refused KERNEL_SERR_INVALID_PARAMETER) else
      andThen (IpcIsValidClient st (Some (ThreadProcess env (CurrentThread env))) Source) (\<lambda>ok1.
      if \<not> ok1 then Inr (st, Refused KERNEL_SERR_INVALID_PARAMETER) else
      andThen (IpcIsValidClient st None Dest) (\<lambda>ok2.
      if \<not> ok2 then Inr (st, Refused KERNEL_SERR_INVALID_PARAMETER) else
      case (Source, Dest) of
        (Some s, Some d) \<Rightarrow>
          (case (chain_get (Clients st) s, chain_get (Clients st) d) of
             (Some src, Some dst) \<Rightarrow>
               (case InMessageQueue dst of None \<Rightarrow> Inl NullDeref
                | Some q \<Rightarrow>
                  if PendingMessages q = MaxMessages q then Inr (st, SendWaits) else
                  (case queue_claim q of None \<Rightarrow> Inr (st, SendWaits)
                   | Some (q1, i) \<Rightarrow>
                     andThen (SpinLockSyncBitTestAndSet (AccessLocked dst) 0) (\<lambda>_.
                     Inr (update_queue st d dst (queue_fill q1 i Async s src d body),
                          if Async then Sent else SentSync i))))
           | _ \<Rightarrow> Inl OutOfBounds)
      | _ \<Rightarrow> Inl OutOfBounds)))"

definition IpcPostThreadMessage ::
  "ipc_env \<Rightarrow> IPC_STATE \<Rightarrow> u64 \<Rightarrow> MSG \<Rightarrow> (IPC_STATE \<times> send_result) outcome" where
  "IpcPostThreadMessage env st Thread body =
     (if Thread = 0 then Inr (st, Refused KERNEL_SERR_INVALID_PARAMETER)
      else IpcSendMessage env st (ThreadClient env (CurrentThread env)) (ThreadClient env Thread) True body)"

datatype get_result = NotGot | Got MSG | GetWaits

definition IpcGetMessage ::
  "ipc_env \<Rightarrow> IPC_STATE \<Rightarrow> slot_ref option \<Rightarrow> u64 \<Rightarrow> (IPC_STATE \<times> get_result) outcome" where
  "IpcGetMessage env st Client0 Msg =
     (if Msg = 0 then Inr (st, NotGot) else
      let Client = (case Client0 of None \<Rightarrow> ThreadClient env (CurrentThread env) | Some _ \<Rightarrow> Client0)
      in andThen (IpcIsValidClient st None Client) (\<lambda>ok.
      case Client of None \<Rightarrow> Inr (st, NotGot)
      | Some r \<Rightarrow>
        if \<not> ok then Inr (st, NotGot) else
        (case chain_get (Clients st) r of None \<Rightarrow> Inl OutOfBounds
         | Some c \<Rightarrow>
           if CurrentMessage c \<noteq> None then Inr (st, NotGot)
           else if UserMode env (cl_Process c) \<and> ResolvePhysical env (cl_Process c) Msg = 0 then Inr (st, NotGot) else
           (case InMessageQueue c of None \<Rightarrow> Inl NullDeref
            | Some q \<Rightarrow>
              if PendingMessages q = 0 then
                Inr (if AccessLocked c = 0 then update_queue st r c (q\<lparr> LastId := 0, LeastId := 0 \<rparr>) else st, GetWaits)
              else
                andThen (queue_select q) (\<lambda>(q1, sel).
                case sel of None \<Rightarrow> Inr (update_queue st r c q1, GetWaits)
                | Some i \<Rightarrow>
                  Inr (update_queue st r (c\<lparr> CurrentMessage := Some i \<rparr>) q1, Got (Body (Messages q ! i))))))))"

text \<open>The status written through the sender's pointer is the second component; a client without current message spins.\<close>

definition IpcSetStatus :: "ipc_env \<Rightarrow> IPC_STATE \<Rightarrow> slot_ref option \<Rightarrow> KERNELSTATUS \<Rightarrow> (bool \<times> KERNELSTATUS option) outcome" where
  "IpcSetStatus env st Client Status =
     andThen (IpcIsValidClient st (Some (ThreadProcess env (CurrentThread env))) Client) (\<lambda>ok.
     case Client of None \<Rightarrow> Inr (False, None)
     | Some r \<Rightarrow>
       if \<not> ok then Inr (False, None) else
       (case chain_get (Clients st) r of None \<Rightarrow> Inl OutOfBounds
        | Some c \<Rightarrow>
          (case (CurrentMessage c, InMessageQueue c) of
             (Some i, Some q) \<Rightarrow>
               if PendingMessages q = 0 then Inl Hang
               else andThen (array_get (Messages q) i) (\<lambda>m. Inr (True, if hdr_Status (Header m) then Some Status else None))
           | _ \<Rightarrow> Inl Hang)))"

definition IpcMessageDispatch :: "IPC_STATE \<Rightarrow> slot_ref \<Rightarrow> (IPC_STATE \<times> bool) outcome" where
  "IpcMessageDispatch st r =
     (case chain_get (Clients st) r of None \<Rightarrow> Inl OutOfBounds
      | Some c \<Rightarrow>
        (case CurrentMessage c of None \<Rightarrow> Inr (st, False)
         | Some i \<Rightarrow>
           (case InMessageQueue c of None \<Rightarrow> Inl NullDeref
            | Some q \<Rightarrow>
              if PendingMessages q = 0 then Inr (st, False) else
              andThen (array_get (Messages q) i) (\<lambda>m.
              case hdr_Source (Header m) of None \<Rightarrow> Inl NullDeref
              | Some s \<Rightarrow>
                if chain_get (Clients st) s = None then Inl OutOfBounds
                else Inr (update_queue st r (c\<lparr> CurrentMessage := None \<rparr>) (queue_release q i), True)))))"

definition current_object :: "IPC_STATE \<Rightarrow> slot_ref option \<Rightarrow> MSG_OBJECT option outcome" where
  "current_object st Client =
     andThen (IpcIsValidClient st None Client) (\<lambda>ok.
     case Client of None \<Rightarrow> Inr None
     | Some r \<Rightarrow>
       if \<not> ok then Inr None else
       (case chain_get (Clients st) r of None \<Rightarrow> Inl OutOfBounds
        | Some c \<Rightarrow>
          (case (CurrentMessage c, InMessageQueue c) of
             (Some i, Some q) \<Rightarrow> andThen (array_get (Messages q) i) (\<lambda>m. Inr (Some m))
           | _ \<Rightarrow> Inr None)))"

definition IpcQueryMessageHeader :: "IPC_STATE \<Rightarrow> slot_ref option \<Rightarrow> bool \<Rightarrow> MSG_HEADER option outcome" where
  "IpcQueryMessageHeader st Client header_given =
     andThen (current_object st Client) (\<lambda>m. Inr (if header_given then map_option Header m else None))"

definition IpcGetMessagePacket :: "ipc_env \<Rightarrow> IPC_STATE \<Rightarrow> slot_ref option \<Rightarrow> u64 outcome" where
  "IpcGetMessagePacket env st Client =
     andThen (current_object st Client) (\<lambda>mo.
     case mo of None \<Rightarrow> Inr 0
     | Some m \<Rightarrow>
       (case hdr_Source (Header m) of None \<Rightarrow> Inl NullDeref
        | Some s \<Rightarrow>
          (case chain_get (Clients st) s of None \<Rightarrow> Inl OutOfBounds
           | Some c \<Rightarrow> Inr (if UserMode env (cl_Process c) then ResolvePhysical env (cl_Process c) (msg_Data (Body m))
                            else msg_Data (Body m)))))"

definition IpcGetThreadClient :: "ipc_env \<Rightarrow> u64 \<Rightarrow> slot_ref option" where
  "IpcGetThreadClient env Thread = (if Thread = 0 then None else ThreadClient env Thread)"

section \<open>The queue invariant\<close>

text \<open>
  Between the atomic steps a cell is set exactly when it is pending, the counter counts the set cells, and the remembered cell
  lies in the queue.
\<close>

definition q_wf :: "MSG_QUEUE \<Rightarrow> bool" where
  "q_wf q \<longleftrightarrow> length (Messages q) = unat (MaxMessages q) \<and>
     unat (PendingMessages q) = length (filter (\<lambda>m. hdr_Set (Header m)) (Messages q)) \<and>
     (\<forall>m \<in> set (Messages q). hdr_Set (Header m) = Pending (Header m)) \<and>
     (PossibleNextMessage q \<noteq> NO_MESSAGE \<longrightarrow> unat (PossibleNextMessage q) < unat (MaxMessages q))"

lemma length_filter_clear:
  "x < length hs \<Longrightarrow> P (hs ! x) \<Longrightarrow> \<not> P h \<Longrightarrow> Suc (length (filter P (hs[x := h]))) = length (filter P hs)"
  by (induction hs arbitrary: x) (auto split: nat.splits)

lemma queue_claim_Some:
  assumes "q_wf q" and "PendingMessages q \<noteq> MaxMessages q"
  shows "\<exists>q1 i. queue_claim q = Some (q1, i)"
proof (rule ccontr)
  assume "\<nexists>q1 i. queue_claim q = Some (q1, i)"
  then have "first_index (\<lambda>m. \<not> hdr_Set (Header m)) (Messages q) = None"
    using assms(1) by (auto simp: queue_claim_def q_wf_def Let_def split: option.splits)
  then have "filter (\<lambda>m. hdr_Set (Header m)) (Messages q) = Messages q"
    by (simp add: first_index_None_iff filter_id_conv)
  then have "unat (PendingMessages q) = unat (MaxMessages q)" using assms(1) by (simp add: q_wf_def)
  then show False using assms(2) by (simp add: word_unat_eq_iff)
qed

lemma queue_post:
  assumes "q_wf q" and "queue_claim q = Some (q1, i)" and q2_def: "q2 = queue_fill q1 i Async s src d body"
  shows "i < length (Messages q) \<and> \<not> Pending (Header (Messages q ! i)) \<and> q_wf q2 \<and>
    unat (PendingMessages q2) = Suc (unat (PendingMessages q)) \<and> MaxMessages q2 = MaxMessages q \<and>
    (\<exists>m. Messages q2 = (Messages q)[i := m] \<and> Body m = body \<and> Pending (Header m) \<and> MessageId (Header m) = LastId q \<and>
         Destination (Header m) = Some d)"
proof -
  have fi: "first_index (\<lambda>m. \<not> hdr_Set (Header m)) (Messages q) = Some i"
    and q1: "q1 = q\<lparr> Messages := (Messages q)[i := (Messages q ! i)\<lparr> Header := (Header (Messages q ! i))\<lparr> hdr_Set := True,
       MessageId := LastId q \<rparr> \<rparr>], LastId := LastId q + 1, PendingMessages := PendingMessages q + 1 \<rparr>"
    using assms(1,2) by (auto simp: queue_claim_def q_wf_def Let_def split: option.splits)
  have i: "i < length (Messages q)" "\<not> hdr_Set (Header (Messages q ! i))" using first_index_Some [OF fi] by auto
  then have np: "\<not> Pending (Header (Messages q ! i))" using assms(1) by (auto simp: q_wf_def)
  obtain m where m: "Messages q2 = (Messages q)[i := m]" "Body m = body" "Pending (Header m)" "hdr_Set (Header m)"
    "MessageId (Header m) = LastId q" "Destination (Header m) = Some d"
    using i(1) by (auto simp: q2_def queue_fill_def q1 Let_def)
  have cnt: "Suc (unat (PendingMessages q)) = length (filter (\<lambda>m. hdr_Set (Header m)) (Messages q2))"
    using length_filter_upd [of i "Messages q" "\<lambda>m. hdr_Set (Header m)" m] i m assms(1) by (simp add: q_wf_def)
  also have "\<dots> \<le> unat (MaxMessages q)" using assms(1) m(1) length_filter_le [of _ "Messages q2"] by (simp add: q_wf_def)
  also have mx: "unat (MaxMessages q) < 2 ^ LENGTH(32)" by (rule unsigned_less)
  finally have "Suc (unat (PendingMessages q)) < 2 ^ LENGTH(32)" .
  then have p: "unat (PendingMessages q + 1) = Suc (unat (PendingMessages q))" by (rule unat_plus_1)
  have f: "PendingMessages q2 = PendingMessages q + 1" "MaxMessages q2 = MaxMessages q"
    "PossibleNextMessage q2 = of_nat i \<or> PossibleNextMessage q2 = PossibleNextMessage q"
    by (simp_all add: q2_def queue_fill_def q1 Let_def)
  have "unat (of_nat i :: u32) = i"
    using i(1) assms(1) mx by (simp add: q_wf_def unsigned_of_nat take_bit_nat_eq_self)
  then have pn: "PossibleNextMessage q2 \<noteq> NO_MESSAGE \<Longrightarrow> unat (PossibleNextMessage q2) < unat (MaxMessages q)"
    using f(3) i(1) assms(1) by (auto simp: q_wf_def)
  have "\<forall>x \<in> set (Messages q2). hdr_Set (Header x) = Pending (Header x)"
    using assms(1) m by (auto simp: q_wf_def dest!: set_update_subset_insert [THEN subsetD])
  then have "q_wf q2" using assms(1) cnt f p m(1) pn by (simp add: q_wf_def)
  then show ?thesis using i np f p m by auto
qed

lemma queue_select_pending:
  assumes "q_wf q" and "PendingMessages q \<noteq> 0"
  shows "\<exists>q1 i. queue_select q = Inr (q1, Some i) \<and> i < length (Messages q) \<and> Pending (Header (Messages q ! i)) \<and>
     q_wf q1 \<and> Messages q1 = Messages q \<and> PendingMessages q1 = PendingMessages q \<and> LeastId q1 = LeastId q"
proof -
  have "filter (\<lambda>m. hdr_Set (Header m)) (Messages q) \<noteq> []" using assms by (auto simp: q_wf_def unat_eq_zero)
  then obtain m where "m \<in> set (Messages q)" "Pending (Header m)"
    using assms(1) by (auto simp: q_wf_def filter_empty_conv)
  then obtain j where j: "first_index (\<lambda>m. Pending (Header m)) (Messages q) = Some j"
    using first_index_exists [of m "Messages q" "\<lambda>m. Pending (Header m)"] by blast
  note fj = first_index_Some [OF j]
  have tk: "take (unat (MaxMessages q)) (Messages q) = Messages q" using assms(1) by (simp add: q_wf_def)
  show ?thesis
  proof (cases "PossibleNextMessage q = NO_MESSAGE")
    case True
    then show ?thesis using j fj tk assms(1) by (simp add: queue_select_def Let_def)
  next
    case False
    then have l: "unat (PossibleNextMessage q) < length (Messages q)" using assms(1) by (simp add: q_wf_def)
    have w: "q_wf (q\<lparr> PossibleNextMessage := NO_MESSAGE \<rparr>)" using assms(1) by (simp add: q_wf_def)
    show ?thesis using False l j fj tk w by (auto simp: queue_select_def Let_def)
  qed
qed

lemma queue_release_cell:
  assumes "q_wf q" and "i < length (Messages q)" and "Pending (Header (Messages q ! i))"
  shows "q_wf (queue_release q i) \<and> Suc (unat (PendingMessages (queue_release q i))) = unat (PendingMessages q) \<and>
    \<not> Pending (Header (Messages (queue_release q i) ! i)) \<and>
    (\<forall>j. j \<noteq> i \<longrightarrow> Messages (queue_release q i) ! j = Messages q ! j)"
proof -
  define m where "m = (Messages q ! i)\<lparr> Header := (Header (Messages q ! i))\<lparr> Pending := False, hdr_Set := False \<rparr> \<rparr>"
  have s: "hdr_Set (Header (Messages q ! i))" using assms by (auto simp: q_wf_def)
  have r: "queue_release q i = q\<lparr> Messages := (Messages q)[i := m], LeastId := LeastId q + 1,
      PendingMessages := PendingMessages q - 1 \<rparr>" by (simp add: queue_release_def m_def Let_def)
  have c: "Suc (length (filter (\<lambda>m. hdr_Set (Header m)) ((Messages q)[i := m]))) = unat (PendingMessages q)"
    using length_filter_clear [of i "Messages q" "\<lambda>m. hdr_Set (Header m)" m] assms(1,2) s by (simp add: m_def q_wf_def)
  then have "PendingMessages q \<noteq> 0" by auto
  then have p: "unat (PendingMessages q - 1) = unat (PendingMessages q) - 1" by (simp add: unat_minus_one)
  have "\<forall>x \<in> set ((Messages q)[i := m]). hdr_Set (Header x) = Pending (Header x)"
    using assms(1) by (auto simp: q_wf_def m_def dest!: set_update_subset_insert [THEN subsetD])
  then have "q_wf (queue_release q i)" using assms(1) c p by (simp add: r q_wf_def)
  then show ?thesis using c p assms(2) by (simp add: r m_def)
qed

section \<open>Sending and receiving\<close>

definition client_ok :: "IPC_STATE \<Rightarrow> slot_ref \<Rightarrow> CLIENT \<Rightarrow> MSG_QUEUE \<Rightarrow> bool" where
  "client_ok st r c q \<longleftrightarrow> chain_get (Clients st) r = Some c \<and> cl_Present c \<noteq> 0 \<and> InMessageQueue c = Some q \<and>
     cl_ParentList c = Some (fst r) \<and> IndexInList c = snd r \<and> q_wf q"

lemma client_ok_valid:
  "client_ok st r c q \<Longrightarrow> IpcIsValidClient st p (Some r) = Inr (case p of None \<Rightarrow> True | Some x \<Rightarrow> cl_Process c = x)"
  by (cases r) (auto simp: client_ok_def IpcIsValidClient_def split: option.splits)

lemma client_ok_update:
  assumes "client_ok st r c q" and "q_wf q'" and "c' = c\<lparr> CurrentMessage := cm, InMessageQueue := Some q' \<rparr>"
  shows "client_ok (st\<lparr> Clients := chain_set (Clients st) r c' \<rparr>) r c' q'"
  using assms by (auto simp: client_ok_def)

text \<open>
  C20. Sending a message between two valid clients whose destination queue is not full: the message is posted in a cell that
  was free, with the given body, the next id and the destination; the number of pending messages grows by one; all other cells
  and all other clients are unchanged; and the queue invariant holds afterwards.
\<close>

theorem IpcSendMessage_posts:
  assumes "client_ok st s src qs" and "client_ok st d dst q" and "s \<noteq> d"
    and "cl_Process src = ThreadProcess env (CurrentThread env)"
    and "PendingMessages q \<noteq> MaxMessages q" and "\<not> bit (AccessLocked dst) 0"
  shows "\<exists>st' i q' m. IpcSendMessage env st (Some s) (Some d) Async body = Inr (st', if Async then Sent else SentSync i) \<and>
    client_ok st' d (dst\<lparr> InMessageQueue := Some q' \<rparr>) q' \<and> i < length (Messages q) \<and>
    \<not> Pending (Header (Messages q ! i)) \<and> Messages q' = (Messages q)[i := m] \<and> Body m = body \<and>
    Pending (Header m) \<and> MessageId (Header m) = LastId q \<and> Destination (Header m) = Some d \<and>
    unat (PendingMessages q') = Suc (unat (PendingMessages q)) \<and>
    (\<forall>r. r \<noteq> d \<longrightarrow> chain_get (Clients st') r = chain_get (Clients st) r)"
proof -
  have wf: "q_wf q" using assms(2) by (simp add: client_ok_def)
  obtain q1 i where c: "queue_claim q = Some (q1, i)" using queue_claim_Some [OF wf assms(5)] by blast
  define q' where "q' = queue_fill q1 i Async s src d body"
  note p = queue_post [OF wf c q'_def]
  define st' where "st' = update_queue st d dst q'"
  have "IpcSendMessage env st (Some s) (Some d) Async body = Inr (st', if Async then Sent else SentSync i)"
    using assms c client_ok_valid [OF assms(1)] client_ok_valid [OF assms(2)]
    by (simp add: IpcSendMessage_def client_ok_def spin_free st'_def q'_def)
  moreover have "client_ok st' d (dst\<lparr> InMessageQueue := Some q' \<rparr>) q'"
    using client_ok_update [OF assms(2), of q' "dst\<lparr> InMessageQueue := Some q' \<rparr>" "CurrentMessage dst"] p
    by (simp add: st'_def update_queue_def)
  moreover have "\<forall>r. r \<noteq> d \<longrightarrow> chain_get (Clients st') r = chain_get (Clients st) r"
    by (simp add: st'_def update_queue_def)
  ultimately show ?thesis using p by blast
qed

text \<open>
  C24. Receiving and dispatching: a valid kernel-mode client with pending messages and no current one gets the body of a
  message that is pending; when it then dispatches, exactly that cell becomes free, the number of pending messages drops by
  one, all other messages stay, and the invariant holds (the sender's client must be named in the message).
\<close>

theorem IpcGetMessage_then_dispatch:
  assumes "client_ok st r c q" and "CurrentMessage c = None" and "\<not> UserMode env (cl_Process c)"
    and "PendingMessages q \<noteq> 0" and "buf \<noteq> 0"
    and "\<And>m. m \<in> set (Messages q) \<Longrightarrow> Pending (Header m) \<Longrightarrow>
           \<exists>s x. hdr_Source (Header m) = Some s \<and> chain_get (Clients st) s = Some x"
  shows "\<exists>i st1 st2 c2 q2. i < length (Messages q) \<and> Pending (Header (Messages q ! i)) \<and>
    IpcGetMessage env st (Some r) buf = Inr (st1, Got (Body (Messages q ! i))) \<and>
    IpcMessageDispatch st1 r = Inr (st2, True) \<and> client_ok st2 r c2 q2 \<and> CurrentMessage c2 = None \<and>
    Suc (unat (PendingMessages q2)) = unat (PendingMessages q) \<and> \<not> Pending (Header (Messages q2 ! i)) \<and>
    (\<forall>j. j \<noteq> i \<longrightarrow> Messages q2 ! j = Messages q ! j) \<and>
    (\<forall>x. x \<noteq> r \<longrightarrow> chain_get (Clients st2) x = chain_get (Clients st) x)"
proof -
  have wf: "q_wf q" and g: "chain_get (Clients st) r = Some c" "InMessageQueue c = Some q"
    using assms(1) by (simp_all add: client_ok_def)
  obtain q1 i where sel: "queue_select q = Inr (q1, Some i)" "i < length (Messages q)" "Pending (Header (Messages q ! i))"
    "q_wf q1" "Messages q1 = Messages q" "PendingMessages q1 = PendingMessages q"
    using queue_select_pending [OF wf assms(4)] by blast
  define c1 where "c1 = c\<lparr> CurrentMessage := Some i, InMessageQueue := Some q1 \<rparr>"
  define st1 where "st1 = st\<lparr> Clients := chain_set (Clients st) r c1 \<rparr>"
  have get: "IpcGetMessage env st (Some r) buf = Inr (st1, Got (Body (Messages q ! i)))"
    using assms(2-5) client_ok_valid [OF assms(1), of None] g sel(1)
    by (simp add: IpcGetMessage_def st1_def c1_def update_queue_def)
  have ok1: "client_ok st1 r c1 q1" unfolding st1_def
    using assms(1) sel(4) c1_def by (rule client_ok_update)
  define q2 where "q2 = queue_release q1 i"
  note rel = queue_release_cell [of q1 i] 
  define c2 where "c2 = c1\<lparr> CurrentMessage := None, InMessageQueue := Some q2 \<rparr>"
  define st2 where "st2 = st1\<lparr> Clients := chain_set (Clients st1) r c2 \<rparr>"
  obtain s x where s: "hdr_Source (Header (Messages q ! i)) = Some s" "chain_get (Clients st) s = Some x"
    using assms(6) [of "Messages q ! i"] sel(2,3) by auto
  have s1: "chain_get (Clients st1) s \<noteq> None" using s(2) g(1) by (cases "s = r") (auto simp: st1_def)
  have c1: "chain_get (Clients st1) r = Some c1" "CurrentMessage c1 = Some i" "InMessageQueue c1 = Some q1"
    using ok1 by (simp_all add: client_ok_def c1_def)
  have dis: "IpcMessageDispatch st1 r = Inr (st2, True)"
    using c1 sel(2,5,6) assms(4) s(1) s1
    by (simp add: IpcMessageDispatch_def st2_def c2_def q2_def update_queue_def)
  have ok2: "client_ok st2 r c2 q2" unfolding st2_def
    using ok1 rel sel c2_def by (intro client_ok_update) (auto simp: q2_def)
  have "\<forall>x. x \<noteq> r \<longrightarrow> chain_get (Clients st2) x = chain_get (Clients st) x" by (simp add: st2_def st1_def)
  moreover have "CurrentMessage c2 = None" by (simp add: c2_def)
  ultimately show ?thesis using get dis ok2 sel rel by (metis q2_def)
qed

definition ipc_sample_env :: ipc_env where
  "ipc_sample_env = \<lparr> CurrentThread = 1, ThreadProcess = (\<lambda>_. 0), ThreadClient = (\<lambda>_. None), UserMode = (\<lambda>_. False),
     ResolvePhysical = (\<lambda>_ a. a), client_addr = (\<lambda>_. 0x1000), server_addr = (\<lambda>_. 0x2000), QueuePool = True \<rparr>"

definition sample_msg :: MSG_OBJECT where
  "sample_msg = MSG_OBJECT_zero\<lparr> Header := (Header MSG_OBJECT_zero)\<lparr> hdr_Set := True, Pending := True, hdr_Source := Some (0, 1) \<rparr>,
     Body := \<lparr> Message = 7, msg_Data = 0, NumBytes = 0 \<rparr> \<rparr>"

definition sample_queue :: MSG_QUEUE where
  "sample_queue = \<lparr> MaxMessages = 2, PendingMessages = 1, LastId = 1, LeastId = 0, PossibleNextMessage = 0,
     Messages = [sample_msg, MSG_OBJECT_zero] \<rparr>"

definition sample_client :: "nat \<Rightarrow> CLIENT" where
  "sample_client i = CLIENT_zero\<lparr> cl_Present := 1, IndexInList := i, cl_ParentList := Some 0, InMessageQueue := Some sample_queue \<rparr>"

definition sample_ipc :: IPC_STATE where
  "sample_ipc = \<lparr> TotalClients = 2, Clients = [[sample_client 0, sample_client 1]], Servers = [], ProcHandles = (\<lambda>_. []), ipc_pool = [] \<rparr>"

lemma sample_queue_wf: "q_wf sample_queue"
  by (simp add: q_wf_def sample_queue_def sample_msg_def MSG_OBJECT_zero_def NO_MESSAGE_def)

lemma sample_client_ok: "client_ok sample_ipc (0, 0) (sample_client 0) sample_queue"
  "client_ok sample_ipc (0, 1) (sample_client 1) sample_queue"
  using sample_queue_wf by (simp_all add: client_ok_def sample_ipc_def chain_get_def sample_client_def CLIENT_zero_def)

theorem IpcSendMessage_posts_witness:
  "\<exists>st' q'. IpcSendMessage ipc_sample_env sample_ipc (Some (0, 1)) (Some (0, 0)) True \<lparr> Message = 8, msg_Data = 0, NumBytes = 0 \<rparr> =
      Inr (st', Sent) \<and> client_ok st' (0, 0) ((sample_client 0)\<lparr> InMessageQueue := Some q' \<rparr>) q' \<and>
      unat (PendingMessages q') = 2"
proof -
  have h: "(0, 1) \<noteq> ((0, 0) :: slot_ref)" "cl_Process (sample_client 1) = ThreadProcess ipc_sample_env (CurrentThread ipc_sample_env)"
    "PendingMessages sample_queue \<noteq> MaxMessages sample_queue" "\<not> bit (AccessLocked (sample_client 0)) 0"
    by (simp_all add: sample_client_def CLIENT_zero_def ipc_sample_env_def sample_queue_def)
  have "unat (PendingMessages sample_queue) = 1" by (simp add: sample_queue_def)
  then show ?thesis
    using IpcSendMessage_posts [OF sample_client_ok(2,1) h, of True "\<lparr> Message = 8, msg_Data = 0, NumBytes = 0 \<rparr>"]
    by (auto simp: numeral_2_eq_2)
qed

theorem IpcGetMessage_then_dispatch_witness:
  "\<exists>i st1 st2. IpcGetMessage ipc_sample_env sample_ipc (Some (0, 0)) 0x5000 = Inr (st1, Got (Body (Messages sample_queue ! i))) \<and>
     IpcMessageDispatch st1 (0, 0) = Inr (st2, True)"
proof -
  have h: "CurrentMessage (sample_client 0) = None" "\<not> UserMode ipc_sample_env (cl_Process (sample_client 0))"
    "PendingMessages sample_queue \<noteq> 0" "(0x5000 :: u64) \<noteq> 0"
    by (simp_all add: sample_client_def CLIENT_zero_def ipc_sample_env_def sample_queue_def)
  have m: "\<exists>s x. hdr_Source (Header m) = Some s \<and> chain_get (Clients sample_ipc) s = Some x"
    if "m \<in> set (Messages sample_queue)" "Pending (Header m)" for m
    using that by (auto simp: sample_queue_def sample_msg_def MSG_OBJECT_zero_def sample_ipc_def chain_get_def)
  show ?thesis using IpcGetMessage_then_dispatch [OF sample_client_ok(1) h m] by blast
qed

section \<open>Order of delivery\<close>

definition queue_send :: "slot_ref \<Rightarrow> CLIENT \<Rightarrow> slot_ref \<Rightarrow> MSG_QUEUE \<Rightarrow> MSG \<Rightarrow> MSG_QUEUE" where
  "queue_send s src d q body =
     (case queue_claim q of None \<Rightarrow> q | Some (q1, i) \<Rightarrow> queue_fill q1 i True s src d body)"

definition queue_get :: "MSG_QUEUE \<Rightarrow> (MSG_QUEUE \<times> MSG) option" where
  "queue_get q = (case queue_select q of Inr (q1, Some i) \<Rightarrow> Some (queue_release q1 i, Body (Messages q ! i)) | _ \<Rightarrow> None)"

text \<open>
  Remark. Messages can overtake each other.  In a new queue of any length of at least two, let \<open>m1\<close> and \<open>m2\<close> be sent, \<open>m1\<close> received
  and dispatched, and \<open>m3\<close> sent: \<open>m3\<close> takes the freed first cell, and since the receiver takes the first pending cell
  (the comparison of message ids is unreachable behind a \<open>break\<close>), the next message it gets is \<open>m3\<close>, not \<open>m2\<close>.
\<close>

theorem messages_overtake:
  assumes "2 \<le> n" and "n < 2 ^ 32"
  shows "\<exists>q1 q2. queue_get (queue_send s src d (queue_send s src d (new_queue n) m1) m2) = Some (q1, m1) \<and>
    queue_get (queue_send s src d q1 m3) = Some (q2, m3)"
proof -
  have u: "unat (of_nat n :: u32) = n" using assms(2) by (simp add: unsigned_of_nat take_bit_nat_eq_self)
  obtain k where k: "n = Suc (Suc k)" using assms(1) by (metis add_2_eq_Suc le_Suc_ex)
  define mx where "mx = (of_nat n :: u32)"
  have mx: "unat mx = Suc (Suc k)" using u k by (simp add: mx_def)
  define z where "z = MSG_OBJECT_zero"
  have z: "\<not> hdr_Set (Header z)" "\<not> Pending (Header z)" by (simp_all add: z_def MSG_OBJECT_zero_def)
  have q0: "new_queue n = \<lparr> MaxMessages = mx, PendingMessages = 0, LastId = 0, LeastId = 0,
      PossibleNextMessage = NO_MESSAGE, Messages = z # z # replicate k z \<rparr>"
    by (simp add: new_queue_def k mx_def z_def del: of_nat_Suc)
  note qd = queue_send_def queue_get_def queue_claim_def queue_fill_def queue_select_def queue_release_def Let_def NO_MESSAGE_def
  show ?thesis by (simp add: q0 qd mx z)
qed

theorem messages_overtake_witness:
  "\<exists>q1 q2. queue_get (queue_send (0, 1) CLIENT_zero (0, 0) (queue_send (0, 1) CLIENT_zero (0, 0) (new_queue 50)
       \<lparr> Message = 1, msg_Data = 0, NumBytes = 0 \<rparr>) \<lparr> Message = 2, msg_Data = 0, NumBytes = 0 \<rparr>) =
       Some (q1, \<lparr> Message = 1, msg_Data = 0, NumBytes = 0 \<rparr>) \<and>
     queue_get (queue_send (0, 1) CLIENT_zero (0, 0) q1 \<lparr> Message = 3, msg_Data = 0, NumBytes = 0 \<rparr>) =
       Some (q2, \<lparr> Message = 3, msg_Data = 0, NumBytes = 0 \<rparr>)"
  by (rule messages_overtake) simp_all

end
