(* ===== verification/Ipc_Server.thy ===== *)
theory Ipc_Server
  imports Ipc
begin

text \<open>
  IPC servers (\<open>ipc/ipcserver.c\<close>): lookup by address, connection of clients with a password, sending through a server, broadcast.
  \<open>IpcServerCreate\<close> and \<open>IpcServerDestroy\<close> contain loops without exit
  (\<open>while(1);\<close> and \<open>for(;;) {}\<close>), so their successful paths are \<open>Hang\<close>.
\<close>

definition SERVER_zero :: SERVER where
  "SERVER_zero = \<lparr> srv_Present = 0, ServerId = 0, srv_ParentList = None, InListIndex = 0, ServerPassword = None,
     LenServerPassword = 0, Host = None, ServerAddress = 0, AccessPolicy = 0, NumClients = 0,
     ConnectedClients = [replicate UNITS_PER_LIST None] \<rparr>"

definition IpcGetServer :: "IPC_STATE \<Rightarrow> u64 \<Rightarrow> slot_ref option" where
  "IpcGetServer st ServerIpAddress =
     (if ServerIpAddress = 0 then None
      else chain_find (\<lambda>s. ServerAddress s = ServerIpAddress \<and> srv_Present s = 1) (Servers st))"

text \<open>The first test writes through \<open>PRFServer\<close> even when that is the null pointer.\<close>

definition IpcServerCreate ::
  "ipc_env \<Rightarrow> IPC_STATE \<Rightarrow> u64 \<Rightarrow> u64 \<Rightarrow> wchar list option \<Rightarrow> bool \<Rightarrow> KERNELSTATUS outcome" where
  "IpcServerCreate env st Thread ServerIpAddress Password PRFServer =
     (if \<not> PRFServer then Inl NullDeref
      else if Thread = 0 then Inr KERNEL_SERR_INVALID_PARAMETER
      else if ServerIpAddress \<noteq> 0 \<and> IpcGetServer st ServerIpAddress \<noteq> None then Inr KERNEL_SERR_ADDRESS_ALREADY_TAKEN
      else
        andThen (case Password of None \<Rightarrow> Inr True
                 | Some p \<Rightarrow> andThen (wstrlen p) (\<lambda>len. Inr (\<not> (len = 0 \<or> len > MAX_SERVER_PASSWORD_LENGTH)))) (\<lambda>ok.
        if \<not> ok then Inr KERNEL_SERR_INVALID_PARAMETER
        else andThen (IpcClientCreate env st Thread 0) (\<lambda>_. Inl Hang)))"

definition isValidServer :: "IPC_STATE \<Rightarrow> slot_ref option \<Rightarrow> bool outcome" where
  "isValidServer st Server =
     (case Server of None \<Rightarrow> Inr False
      | Some r \<Rightarrow>
        (case chain_get (Servers st) r of None \<Rightarrow> Inl OutOfBounds
         | Some s \<Rightarrow> Inr (srv_Present s = 1 \<and> map_option (\<lambda>l. (l, InListIndex s)) (srv_ParentList s) = Some r)))"

definition IpcServerDestroy :: "IPC_STATE \<Rightarrow> slot_ref option \<Rightarrow> bool outcome" where
  "IpcServerDestroy st Server = andThen (isValidServer st Server) (\<lambda>ok. if \<not> ok then Inr False else Inl Hang)"

definition server_host :: "IPC_STATE \<Rightarrow> slot_ref option \<Rightarrow> slot_ref option outcome" where
  "server_host st Server =
     (case Server of None \<Rightarrow> Inl NullDeref
      | Some r \<Rightarrow> (case chain_get (Servers st) r of None \<Rightarrow> Inl OutOfBounds | Some s \<Rightarrow> Inr (Host s)))"

definition IpcServerSetStatus :: "ipc_env \<Rightarrow> IPC_STATE \<Rightarrow> slot_ref option \<Rightarrow> KERNELSTATUS \<Rightarrow> (bool \<times> KERNELSTATUS option) outcome" where
  "IpcServerSetStatus env st Server Status =
     andThen (isValidServer st Server) (\<lambda>ok.
     if \<not> ok then Inr (False, None)
     else andThen (server_host st Server) (\<lambda>h. IpcSetStatus env st h Status))"

definition isConnectedClient :: "IPC_STATE \<Rightarrow> slot_ref option \<Rightarrow> slot_ref option \<Rightarrow> bool outcome" where
  "isConnectedClient st Server Client =
     (case Client of None \<Rightarrow> Inr False
      | Some c \<Rightarrow>
        andThen (isValidServer st Server) (\<lambda>ok.
        case Server of None \<Rightarrow> Inr False
        | Some r \<Rightarrow>
          if \<not> ok then Inr False else
          (case chain_get (Servers st) r of None \<Rightarrow> Inl OutOfBounds
           | Some s \<Rightarrow> Inr (chain_find (\<lambda>p. p = Some c) (ConnectedClients s) \<noteq> None))))"

definition IpcSendToServer ::
  "ipc_env \<Rightarrow> IPC_STATE \<Rightarrow> slot_ref option \<Rightarrow> slot_ref option \<Rightarrow> bool \<Rightarrow> MSG option \<Rightarrow> (IPC_STATE \<times> send_result) outcome" where
  "IpcSendToServer env st Client Server Async Msg =
     andThen (isConnectedClient st Server Client) (\<lambda>ok.
     case Msg of None \<Rightarrow> Inr (st, Refused KERNEL_SERR_INVALID_PARAMETER)
     | Some body \<Rightarrow>
       if \<not> ok then Inr (st, Refused KERNEL_SERR_INVALID_PARAMETER)
       else andThen (server_host st Server) (\<lambda>h. IpcSendMessage env st Client h Async body))"

definition IpcServerSend ::
  "ipc_env \<Rightarrow> IPC_STATE \<Rightarrow> slot_ref option \<Rightarrow> slot_ref option \<Rightarrow> bool \<Rightarrow> MSG option \<Rightarrow> (IPC_STATE \<times> send_result) outcome" where
  "IpcServerSend env st Server Client Async Msg =
     andThen (isConnectedClient st Server Client) (\<lambda>ok.
     case Msg of None \<Rightarrow> Inr (st, Refused KERNEL_SERR_INVALID_PARAMETER)
     | Some body \<Rightarrow>
       if \<not> ok then Inr (st, Refused KERNEL_SERR_INVALID_PARAMETER)
       else andThen (server_host st Server) (\<lambda>h. IpcSendMessage env st h Client Async body))"

text \<open>\<open>IpcServerReceive\<close> gets the host's next message and copies the whole message object; \<open>dump\<close> is the address of the local \<open>MSG\<close>.\<close>

definition IpcServerReceive ::
  "ipc_env \<Rightarrow> IPC_STATE \<Rightarrow> slot_ref option \<Rightarrow> bool \<Rightarrow> u64 \<Rightarrow> (IPC_STATE \<times> get_result \<times> MSG_OBJECT option) outcome" where
  "IpcServerReceive env st Server message_given dump =
     (if Server = None \<or> \<not> message_given then Inr (st, NotGot, None) else
      andThen (server_host st Server) (\<lambda>h.
      andThen (IpcGetMessage env st h dump) (\<lambda>(st1, res).
      case res of
        Got b \<Rightarrow> andThen (current_object st1 h) (\<lambda>m. Inr (st1, res, m))
      | _ \<Rightarrow> Inr (st1, res, None))))"

text \<open>
  \<open>IpcBroadcast\<close> sends to the connected clients in the order of the list until as many were sent as the server counts clients;
  the results of the single sends are ignored.  A send that has to wait ends the run of the model with \<open>Hang\<close>.
\<close>

fun broadcast_loop ::
  "ipc_env \<Rightarrow> slot_ref option \<Rightarrow> bool \<Rightarrow> MSG \<Rightarrow> nat \<Rightarrow> IPC_STATE \<Rightarrow> slot_ref option list \<Rightarrow> IPC_STATE outcome" where
  "broadcast_loop env h Async body 0 st cs = Inr st"
| "broadcast_loop env h Async body (Suc n) st [] = Inr st"
| "broadcast_loop env h Async body (Suc n) st (c # cs) =
     (case c of None \<Rightarrow> broadcast_loop env h Async body (Suc n) st cs
      | Some r \<Rightarrow>
        andThen (IpcSendMessage env st h (Some r) Async body) (\<lambda>(st1, res).
        case res of SendWaits \<Rightarrow> Inl Hang | SentSync _ \<Rightarrow> Inl Hang
        | _ \<Rightarrow> broadcast_loop env h Async body n st1 cs))"

definition IpcBroadcast ::
  "ipc_env \<Rightarrow> IPC_STATE \<Rightarrow> slot_ref option \<Rightarrow> bool \<Rightarrow> MSG option \<Rightarrow> (IPC_STATE \<times> bool) outcome" where
  "IpcBroadcast env st Server Async Msg =
     andThen (isValidServer st Server) (\<lambda>ok.
     case (Server, Msg) of
       (Some r, Some body) \<Rightarrow>
         if \<not> ok then Inr (st, False) else
         (case chain_get (Servers st) r of None \<Rightarrow> Inl OutOfBounds
          | Some s \<Rightarrow>
            andThen (broadcast_loop env (Host s) Async body (unat (NumClients s)) st (concat (ConnectedClients s)))
              (\<lambda>st1. Inr (st1, True)))
     | _ \<Rightarrow> Inr (st, False))"

definition wchar_bytes :: "wchar list \<Rightarrow> u8 list" where
  "wchar_bytes s = concat (map (\<lambda>w. [ucast w, ucast (drop_bit 8 w)]) s)"

definition IpcServerConnect ::
  "ipc_env \<Rightarrow> IPC_STATE \<Rightarrow> u64 \<Rightarrow> slot_ref option \<Rightarrow> wchar list option \<Rightarrow>
   (IPC_STATE \<times> slot_ref option) outcome" where
  "IpcServerConnect env st ServerIpAddress Client Password =
     andThen (IpcIsValidClient st None Client) (\<lambda>ok.
     case Client of None \<Rightarrow> Inr (st, None)
     | Some cr \<Rightarrow>
       if \<not> ok then Inr (st, None) else
       (case IpcGetServer st ServerIpAddress of None \<Rightarrow> Inr (st, None)
        | Some r \<Rightarrow>
          andThen (isConnectedClient st (Some r) Client) (\<lambda>con.
          if con then Inr (st, Some r) else
          (case (chain_get (Servers st) r, chain_get (Clients st) cr) of
             (Some s, Some c) \<Rightarrow>
               andThen (case ServerPassword s of None \<Rightarrow> Inr True
                   | Some sp \<Rightarrow> (case Password of None \<Rightarrow> Inr False
                      | Some p \<Rightarrow> memcmp (take (LenServerPassword s) (wchar_bytes sp)) (take (LenServerPassword s) (wchar_bytes p)))) (\<lambda>accepted.
               if \<not> accepted then Inr (st, None) else
               (case chain_walk (\<lambda>p. p = None) None UNITS_PER_LIST (ConnectedClients s) of
                  (cc, slot) \<Rightarrow>
                    andThen (OpenHandle 2 (ProcHandles st (cl_Process c), ipc_pool st) (cl_Thread c) 0
                               HANDLE_SERVER_CONNECTION (server_addr env r) 0) (\<lambda>((tbl, pl), h).
                    case h of None \<Rightarrow> Inl SOD
                    | Some (k, i, x) \<Rightarrow>
                      (case (Lists (tbl ! k) ! i, handle_at tbl (k, i, x)) of
                         (Some l, Some e) \<Rightarrow>
                           Inr (st\<lparr> Servers := chain_set (Servers st) r
                                     (s\<lparr> ConnectedClients := chain_set cc slot (Some cr), NumClients := NumClients s + 1 \<rparr>),
                                   ProcHandles := (ProcHandles st)(cl_Process c :=
                                     set_list tbl k i (l\<lparr> Handles := (Handles l)[x := e\<lparr> Data1 := client_addr env cr \<rparr>] \<rparr>)),
                                   ipc_pool := pl \<rparr>, Some r)
                       | _ \<Rightarrow> Inl OutOfBounds))))
           | _ \<Rightarrow> Inl OutOfBounds))))"

definition IpcServerMessageDispatch :: "IPC_STATE \<Rightarrow> slot_ref option \<Rightarrow> (IPC_STATE \<times> bool) outcome" where
  "IpcServerMessageDispatch st Server =
     (case Server of None \<Rightarrow> Inr (st, False)
      | Some r \<Rightarrow>
        andThen (server_host st Server) (\<lambda>h. case h of None \<Rightarrow> Inl NullDeref | Some c \<Rightarrow> IpcMessageDispatch st c))"

end
