(* ===== verification/Thread_Queues.thy ===== *)
theory Thread_Queues
  imports Slot_Table Handle_Table Kernel_Lib
begin

text \<open>
  Threads, processes and the waiting queues of the processors (\<open>CPU/process.c\<close>, \<open>inc/CPU/process_defs.h\<close>,
  \<open>inc/CPU/cpu.h\<close>).  A thread is a slot of the chained thread list (100 threads a block), a process an index of
  \<open>Pmgrt.ProcessList\<close>, a waiting queue the triple of its processor, its priority class and its position in the chain of
  queues of that class.  This theory has the data and the two operations that move threads between queues,
  \<open>SetThreadPriority\<close> and \<open>SetPriorityClass\<close>; \<open>Process_Manager\<close> creates processes and threads.
\<close>

section \<open>Constants\<close>

definition THS_PRESENT :: u64 where "THS_PRESENT = 1"
definition THS_RUNNABLE :: u64 where "THS_RUNNABLE = 2"
definition THS_ALIVE :: u64 where "THS_ALIVE = 4"
definition THS_IOWAIT :: u64 where "THS_IOWAIT = 8"
definition THS_IDLE :: u64 where "THS_IDLE = 0x40"
definition THS_IOPIN :: u64 where "THS_IOPIN = 0x100"
definition THS_MANUAL :: u64 where "THS_MANUAL = 0x400"

definition PRIORITY_CLASS_MIN :: int where "PRIORITY_CLASS_MIN = 0x17E"
definition PRIORITY_CLASS_ABOVE_NORMAL :: int where "PRIORITY_CLASS_ABOVE_NORMAL = 0x180"
definition PRIORITY_CLASS_NORMAL :: int where "PRIORITY_CLASS_NORMAL = 0x181"
definition PRIORITY_CLASS_BELOW_NORMAL :: int where "PRIORITY_CLASS_BELOW_NORMAL = 0x182"
definition PRIORITY_CLASS_LOW :: int where "PRIORITY_CLASS_LOW = 0x183"
definition PRIORITY_CLASS_MAX :: int where "PRIORITY_CLASS_MAX = 0x184"
definition THREAD_PRIORITY_MIN :: int where "THREAD_PRIORITY_MIN = 0x25F"
definition THREAD_PRIORITY_MAX :: int where "THREAD_PRIORITY_MAX = 0x265"

definition NUM_PRIORITY_CLASSES :: nat where "NUM_PRIORITY_CLASSES = 7"
definition NUM_THREADS_PER_WAITING_QUEUE :: nat where "NUM_THREADS_PER_WAITING_QUEUE = 0x200"
definition THREADS_PER_PROCESS_THREAD_LIST :: nat where "THREADS_PER_PROCESS_THREAD_LIST = 20"
definition PENTRIES_PER_LIST :: nat where "PENTRIES_PER_LIST = 100"
definition MAX_PROCESSES :: nat where "MAX_PROCESSES = 1024"

definition PROCESS_MUTEX0_CREATE_THREAD :: nat where "PROCESS_MUTEX0_CREATE_THREAD = 0"
definition THREAD_MUTEX_CHANGE_PRIORITY :: nat where "THREAD_MUTEX_CHANGE_PRIORITY = 1"

lemmas priority_defs =
  PRIORITY_CLASS_MIN_def PRIORITY_CLASS_ABOVE_NORMAL_def PRIORITY_CLASS_NORMAL_def PRIORITY_CLASS_BELOW_NORMAL_def
  PRIORITY_CLASS_LOW_def PRIORITY_CLASS_MAX_def THREAD_PRIORITY_MIN_def THREAD_PRIORITY_MAX_def
lemmas queue_consts =
  NUM_PRIORITY_CLASSES_def NUM_THREADS_PER_WAITING_QUEUE_def THREADS_PER_PROCESS_THREAD_LIST_def
  PROCESS_MUTEX0_CREATE_THREAD_def THREAD_MUTEX_CHANGE_PRIORITY_def

section \<open>Data\<close>

type_synonym queue_ref = "nat \<times> nat \<times> nat"

text \<open>The registers of a stopped thread that the kernel writes when it creates one; the others are zero.\<close>

record CPU_REGISTERS =
  r_rax :: u64
  r_rip :: u64
  r_cs :: u64
  r_rflags :: u64
  r_rsp :: u64
  r_rbp :: u64
  r_ds :: u16
  r_gs :: u16
  r_fs :: u16
  r_es :: u64
  r_cr3 :: u64
  r_Xsave :: u64

record THREAD =
  th_State :: u64
  ThreadId :: u64
  th_Process :: "nat option"
  th_ProcessorId :: u32
  ThreadPriority :: u32
  TimeBurst :: u32
  ThreadWaitingQueueIndex :: nat
  WaitingQueue :: "queue_ref option"
  SchedulingQuantum :: u32
  ThreadControlMutex :: u64
  Registers :: CPU_REGISTERS
  th_Stack :: u64
  VirtualStackPtr :: u64
  th_Client :: "slot_ref option"

record PROCESS =
  pr_Set :: bool
  ProcessId :: u64
  ProcessName :: "wchar list option"
  pr_PageMap :: u64
  ParentProcess :: "nat option"
  OperatingMode :: u16
  PriorityClass :: u32
  Subsystem :: u8
  pr_FreeMemoryRoot :: bool
  pr_StackSize :: u64
  NumThreads :: u64
  StartupThread :: "slot_ref option"
  FileHandles :: "HANDLE_TABLE option"
  pr_Threads :: "slot_ref option chain"
  ControlMutex0 :: u64

record THREAD_WAITING_QUEUE =
  wq_Threads :: "slot_ref option list"
  wq_NumThreads :: u32
  wq_Mutex :: u64

record CPU_MANAGEMENT_TABLE =
  cpu_Initialized :: bool
  TotalThreads :: "u64 list"
  NumReadyThreads :: "u64 list"
  ThreadQueues :: "THREAD_WAITING_QUEUE list list"
  cpu_CurrentThread :: "slot_ref option"
  SystemIdleThread :: "slot_ref option"

text \<open>
  The process manager's global state: \<open>Pmgrt\<close>, \<open>CpuManagementTable\<close>, \<open>kproc\<close>; \<open>pm_pool\<close> holds the addresses that
  \<open>AllocatePool\<close> will return.
\<close>

record PROCESSMGRTABLE =
  SchedulerEnable :: bool
  NumProcessors :: u64
  ThreadList :: "THREAD chain"
  ProcessList :: "PROCESS list"
  SystemInitialized :: bool
  NextThreadProcessor :: u64
  Cpus :: "CPU_MANAGEMENT_TABLE list"
  kproc :: "nat option"
  pm_pool :: pool

definition REGISTERS_zero :: CPU_REGISTERS where
  "REGISTERS_zero = \<lparr> r_rax = 0, r_rip = 0, r_cs = 0, r_rflags = 0, r_rsp = 0, r_rbp = 0, r_ds = 0, r_gs = 0, r_fs = 0,
     r_es = 0, r_cr3 = 0, r_Xsave = 0 \<rparr>"

definition THREAD_zero :: THREAD where
  "THREAD_zero = \<lparr> th_State = 0, ThreadId = 0, th_Process = None, th_ProcessorId = 0, ThreadPriority = 0, TimeBurst = 0,
     ThreadWaitingQueueIndex = 0, WaitingQueue = None, SchedulingQuantum = 0, ThreadControlMutex = 0,
     Registers = REGISTERS_zero, th_Stack = 0, VirtualStackPtr = 0, th_Client = None \<rparr>"

definition WAITING_QUEUE_zero :: THREAD_WAITING_QUEUE where
  "WAITING_QUEUE_zero = \<lparr> wq_Threads = replicate NUM_THREADS_PER_WAITING_QUEUE None, wq_NumThreads = 0, wq_Mutex = 0 \<rparr>"

section \<open>Placing a thread in a chain of waiting queues\<close>

text \<open>
  One turn of the placing loop: \<open>None\<close> when the queue has no room and the loop moves on, otherwise the queue with the
  thread in its first empty entry.
\<close>

definition try_queue :: "slot_ref \<Rightarrow> THREAD_WAITING_QUEUE \<Rightarrow> (THREAD_WAITING_QUEUE \<times> nat) option outcome" where
  "try_queue Thread q =
     (if unat (wq_NumThreads q) < NUM_THREADS_PER_WAITING_QUEUE then
        andThen (SpinLockSyncBitTestAndSet (wq_Mutex q) 0) (\<lambda>m.
        if unat (wq_NumThreads q) = NUM_THREADS_PER_WAITING_QUEUE then Inr None
        else
          (case first_index (\<lambda>t. t = None) (wq_Threads q) of
             None \<Rightarrow> Inr None
           | Some i \<Rightarrow>
               Inr (Some (q\<lparr> wq_Threads := (wq_Threads q)[i := Some Thread], wq_NumThreads := wq_NumThreads q + 1,
                            wq_Mutex := BitRelease m 0 \<rparr>, i))))
      else Inr None)"

text \<open>
  The loop over the chain: at its end a zeroed queue is allocated (without a check for null) and linked, and the loop
  enters it.  The result is the chain, the position of the queue used, the entry and the remaining pool.
\<close>

fun place_thread :: "slot_ref \<Rightarrow> pool \<Rightarrow> THREAD_WAITING_QUEUE list \<Rightarrow>
    (THREAD_WAITING_QUEUE list \<times> nat \<times> nat \<times> pool) outcome" where
  "place_thread Thread pool [] =
     (case AllocatePool pool of (a, pool1) \<Rightarrow>
        if a = 0 then Inl NullDeref else
        andThen (try_queue Thread WAITING_QUEUE_zero) (\<lambda>r.
        case r of None \<Rightarrow> Inl Hang | Some (q, i) \<Rightarrow> Inr ([q], 0, i, pool1)))"
| "place_thread Thread pool (q # qs) =
     andThen (try_queue Thread q) (\<lambda>r.
     case r of
       Some (q', i) \<Rightarrow> Inr (q' # qs, 0, i, pool)
     | None \<Rightarrow>
         andThen (place_thread Thread pool qs) (\<lambda>(qs', j, i, pool1). Inr (q # qs', Suc j, i, pool1)))"

definition remove_entry :: "nat \<Rightarrow> THREAD_WAITING_QUEUE \<Rightarrow> THREAD_WAITING_QUEUE" where
  "remove_entry i q = q\<lparr> wq_NumThreads := wq_NumThreads q - 1, wq_Threads := (wq_Threads q)[i := None] \<rparr>"

definition cpu_queues :: "CPU_MANAGEMENT_TABLE list \<Rightarrow> nat \<Rightarrow> nat \<Rightarrow> THREAD_WAITING_QUEUE list" where
  "cpu_queues cpus c k = ThreadQueues (cpus ! c) ! k"

definition set_queues :: "CPU_MANAGEMENT_TABLE list \<Rightarrow> nat \<Rightarrow> nat \<Rightarrow> THREAD_WAITING_QUEUE list \<Rightarrow>
    CPU_MANAGEMENT_TABLE list" where
  "set_queues cpus c k qs = cpus[c := (cpus ! c)\<lparr> ThreadQueues := (ThreadQueues (cpus ! c))[k := qs] \<rparr>]"

text \<open>The two counters of a priority class change together.\<close>

definition count_class :: "u64 \<Rightarrow> CPU_MANAGEMENT_TABLE list \<Rightarrow> nat \<Rightarrow> nat \<Rightarrow> CPU_MANAGEMENT_TABLE list" where
  "count_class d cpus c k = cpus[c := (cpus ! c)\<lparr>
     TotalThreads := (TotalThreads (cpus ! c))[k := TotalThreads (cpus ! c) ! k + d],
     NumReadyThreads := (NumReadyThreads (cpus ! c))[k := NumReadyThreads (cpus ! c) ! k + d] \<rparr>]"

definition drop_previous :: "THREAD \<Rightarrow> CPU_MANAGEMENT_TABLE list \<Rightarrow> CPU_MANAGEMENT_TABLE list" where
  "drop_previous th cpus =
     (case WaitingQueue th of None \<Rightarrow> cpus
      | Some (c, k, j) \<Rightarrow> set_queues cpus c k
          ((cpu_queues cpus c k)[j := remove_entry (ThreadWaitingQueueIndex th) (cpu_queues cpus c k ! j)]))"

definition SetThreadPriority ::
  "PROCESSMGRTABLE \<Rightarrow> slot_ref option \<Rightarrow> int \<Rightarrow> (PROCESSMGRTABLE \<times> KERNELSTATUS) outcome" where
  "SetThreadPriority st Thread Priority =
     (case Thread of None \<Rightarrow> Inr (st, KERNEL_SERR_INVALID_PARAMETER)
      | Some r \<Rightarrow>
        if Priority < THREAD_PRIORITY_MIN \<or> Priority > THREAD_PRIORITY_MAX
        then Inr (st, KERNEL_SERR_INVALID_PARAMETER) else
        (case chain_get (ThreadList st) r of None \<Rightarrow> Inl OutOfBounds
         | Some th \<Rightarrow>
           andThen (SpinLockSyncBitTestAndSet (ThreadControlMutex th) THREAD_MUTEX_CHANGE_PRIORITY) (\<lambda>m.
           andThen (array_get (Cpus st) (unat (th_ProcessorId th))) (\<lambda>_.
           case th_Process th of None \<Rightarrow> Inl NullDeref
           | Some p \<Rightarrow>
             andThen (array_get (ProcessList st) p) (\<lambda>proc.
             let c = unat (th_ProcessorId th); k = unat (PriorityClass proc)
             in if k \<ge> NUM_PRIORITY_CLASSES then Inl OutOfBounds
             else if cpu_queues (Cpus st) c k = [] then Inl NullDeref else
             let cpus1 = (if WaitingQueue th \<noteq> None then count_class (- 1) (Cpus st) c k else Cpus st)
             in andThen (place_thread r (pm_pool st) (cpu_queues cpus1 c k)) (\<lambda>(qs, j, i, pool1).
             let cpus2 = count_class 1 (set_queues cpus1 c k qs) c k;
                 cpus3 = drop_previous th cpus2;
                 th' = th\<lparr> ThreadPriority := of_int (Priority - THREAD_PRIORITY_MIN), ThreadWaitingQueueIndex := i,
                          WaitingQueue := Some (c, k, j), ThreadControlMutex := BitRelease m THREAD_MUTEX_CHANGE_PRIORITY \<rparr>
             in Inr (st\<lparr> ThreadList := chain_set (ThreadList st) r th', Cpus := cpus3, pm_pool := pool1 \<rparr>,
                     KERNEL_SOK)))))))"

section \<open>Changing the priority class of a process\<close>

text \<open>The entries of one block of the thread list: the state and the threads that remain to be visited.\<close>

fun reprioritise_block :: "slot_ref option list \<Rightarrow> PROCESSMGRTABLE \<Rightarrow> u64 \<Rightarrow> (PROCESSMGRTABLE \<times> u64) outcome" where
  "reprioritise_block [] st Remaining = Inr (st, Remaining)"
| "reprioritise_block (None # es) st Remaining = reprioritise_block es st Remaining"
| "reprioritise_block (Some r # es) st Remaining =
     (case chain_get (ThreadList st) r of None \<Rightarrow> Inl OutOfBounds
      | Some th \<Rightarrow>
          andThen (SetThreadPriority st (Some r) (sint (ThreadPriority th + of_int THREAD_PRIORITY_MIN))) (\<lambda>(st', status).
          if KERNEL_ERROR status then Inl SOD else reprioritise_block es st' (Remaining - 1)))"

fun reprioritise :: "slot_ref option chain \<Rightarrow> PROCESSMGRTABLE \<Rightarrow> u64 \<Rightarrow> PROCESSMGRTABLE outcome" where
  "reprioritise [] st Remaining = (if Remaining = 0 then Inr st else Inl NullDeref)"
| "reprioritise (b # bs) st Remaining =
     (if Remaining = 0 then Inr st
      else andThen (reprioritise_block b st Remaining) (\<lambda>(st', Remaining'). reprioritise bs st' Remaining'))"

definition set_process :: "PROCESSMGRTABLE \<Rightarrow> nat \<Rightarrow> PROCESS \<Rightarrow> PROCESSMGRTABLE" where
  "set_process st p proc = st\<lparr> ProcessList := (ProcessList st)[p := proc] \<rparr>"

definition SetPriorityClass :: "PROCESSMGRTABLE \<Rightarrow> nat \<Rightarrow> int \<Rightarrow> (PROCESSMGRTABLE \<times> KERNELSTATUS) outcome" where
  "SetPriorityClass st Process Class =
     (if Class < PRIORITY_CLASS_MIN \<or> Class > PRIORITY_CLASS_MAX then Inr (st, KERNEL_SERR_INVALID_PARAMETER) else
      andThen (array_get (ProcessList st) Process) (\<lambda>proc.
      andThen (SpinLockSyncBitTestAndSet (ControlMutex0 proc) PROCESS_MUTEX0_CREATE_THREAD) (\<lambda>m.
      let st1 = set_process st Process
            (proc\<lparr> ControlMutex0 := m, PriorityClass := of_int (Class - PRIORITY_CLASS_MIN) \<rparr>)
      in andThen (reprioritise (pr_Threads proc) st1 (NumThreads proc)) (\<lambda>st2.
         let proc2 = ProcessList st2 ! Process
         in Inr (set_process st2 Process (proc2\<lparr> ControlMutex0 := BitRelease m PROCESS_MUTEX0_CREATE_THREAD \<rparr>),
                 KERNEL_SOK)))))"

section \<open>Contents of the queues\<close>

definition entries :: "THREAD_WAITING_QUEUE \<Rightarrow> nat" where
  "entries q = length (filter (\<lambda>t. t \<noteq> None) (wq_Threads q))"

definition wq_wf :: "THREAD_WAITING_QUEUE \<Rightarrow> bool" where
  "wq_wf q \<longleftrightarrow> length (wq_Threads q) = NUM_THREADS_PER_WAITING_QUEUE \<and> wq_NumThreads q = of_nat (entries q) \<and>
     \<not> bit (wq_Mutex q) 0"

text \<open>The thread in entry \<open>i\<close> of the queue at position \<open>j\<close>, and the number of threads in a chain of queues.\<close>

definition entry :: "THREAD_WAITING_QUEUE list \<Rightarrow> nat \<Rightarrow> nat \<Rightarrow> slot_ref option" where
  "entry qs j i = (if j < length qs \<and> i < length (wq_Threads (qs ! j)) then wq_Threads (qs ! j) ! i else None)"

definition wq_total :: "THREAD_WAITING_QUEUE list \<Rightarrow> nat" where
  "wq_total qs = sum_list (map entries qs)"

lemma entries_le: "wq_wf q \<Longrightarrow> entries q \<le> 512"
  using length_filter_le [of "\<lambda>t. t \<noteq> None" "wq_Threads q"] by (simp add: wq_wf_def entries_def queue_consts)

lemma unat_NumThreads: "wq_wf q \<Longrightarrow> unat (wq_NumThreads q) = entries q"
  using entries_le [of q] by (simp add: wq_wf_def unsigned_of_nat take_bit_nat_eq_self)

lemma entries_full: "first_index (\<lambda>t. t = None) (wq_Threads q) = None \<Longrightarrow> entries q = length (wq_Threads q)"
  by (simp add: entries_def first_index_None_iff)

lemma entry_Nil [simp]: "entry [] j i = None"
  by (simp add: entry_def)

lemma entry_Cons_0: "entry (q # qs) 0 i = (if i < length (wq_Threads q) then wq_Threads q ! i else None)"
  by (simp add: entry_def)

lemma entry_Cons_Suc [simp]: "entry (q # qs) (Suc j) i = entry qs j i"
  by (simp add: entry_def)

lemma wq_total_simps [simp]: "wq_total [] = 0" "wq_total (q # qs) = entries q + wq_total qs"
  by (simp_all add: wq_total_def)

lemma zero_wf: "wq_wf WAITING_QUEUE_zero" "entries WAITING_QUEUE_zero = 0"
  by (simp_all add: wq_wf_def WAITING_QUEUE_zero_def entries_def)

text \<open>A queue that is not full takes the thread in an empty entry; a full one is passed over.\<close>

lemma try_queue_wf:
  assumes "wq_wf q"
  shows "if entries q < 512
    then \<exists>q' i. try_queue T q = Inr (Some (q', i)) \<and> wq_wf q' \<and> i < 512 \<and> wq_Threads q ! i = None \<and>
           wq_Threads q' = (wq_Threads q)[i := Some T] \<and> entries q' = Suc (entries q)
    else try_queue T q = Inr None"
proof (cases "entries q < 512")
  case True
  have len: "length (wq_Threads q) = 512" and m: "\<not> bit (wq_Mutex q) 0" and n: "wq_NumThreads q = of_nat (entries q)"
    using assms by (simp_all add: wq_wf_def queue_consts)
  obtain i where i: "first_index (\<lambda>t. t = None) (wq_Threads q) = Some i"
    using True len entries_full [of q] by (cases "first_index (\<lambda>t. t = None) (wq_Threads q)") auto
  have fi: "i < 512" "wq_Threads q ! i = None" using first_index_Some [OF i] len by auto
  let ?q = "q\<lparr> wq_Threads := (wq_Threads q)[i := Some T], wq_NumThreads := wq_NumThreads q + 1,
               wq_Mutex := BitRelease (set_bit 0 (wq_Mutex q)) 0 \<rparr>"
  have e: "entries ?q = Suc (entries q)"
    using fi len by (simp add: entries_def length_filter_upd)
  have "try_queue T q = Inr (Some (?q, i))"
    using True by (simp add: try_queue_def unat_NumThreads [OF assms] queue_consts spin_free [OF m] i)
  moreover have "wq_wf ?q"
    using e len by (simp add: wq_wf_def n queue_consts)
  ultimately show ?thesis using True e fi by auto
next
  case False
  then show ?thesis using assms by (simp add: try_queue_def unat_NumThreads queue_consts)
qed

lemma place_thread_ok:
  assumes "\<forall>q \<in> set qs. wq_wf q" and "pool \<noteq> []" and "hd pool \<noteq> 0"
  shows "\<exists>qs' j i pool'. place_thread T pool qs = Inr (qs', j, i, pool') \<and> (\<forall>q \<in> set qs'. wq_wf q) \<and>
    entry qs j i = None \<and> (\<forall>j' i'. entry qs' j' i' = (if j' = j \<and> i' = i then Some T else entry qs j' i')) \<and>
    wq_total qs' = Suc (wq_total qs) \<and> qs' \<noteq> [] \<and> set pool' \<subseteq> set pool \<and> length pool \<le> Suc (length pool')"
  using assms(1)
proof (induction qs)
  case Nil
  obtain a p where p: "pool = a # p" "a \<noteq> 0" using assms by (cases pool) auto
  obtain q i where q: "try_queue T WAITING_QUEUE_zero = Inr (Some (q, i))" "wq_wf q" "i < 512"
    "wq_Threads q = (wq_Threads WAITING_QUEUE_zero)[i := Some T]" "entries q = 1"
    using try_queue_wf [OF zero_wf(1), of T] by (auto simp: zero_wf)
  have "entry [q] j' i' = (if j' = 0 \<and> i' = i then Some T else None)" for j' i'
    using q(3) by (cases j') (simp_all add: entry_Cons_0 q(4) WAITING_QUEUE_zero_def queue_consts nth_list_update)
  then show ?case using q p by auto
next
  case (Cons q qs)
  then have wf: "wq_wf q" by simp
  show ?case
  proof (cases "entries q < 512")
    case True
    then obtain q' i where q: "try_queue T q = Inr (Some (q', i))" "wq_wf q'" "i < 512" "wq_Threads q ! i = None"
      "wq_Threads q' = (wq_Threads q)[i := Some T]" "entries q' = Suc (entries q)"
      using try_queue_wf [OF wf, of T] by auto
    have "entry (q' # qs) j' i' = (if j' = 0 \<and> i' = i then Some T else entry (q # qs) j' i')" for j' i'
      using q(3) wf by (cases j') (simp_all add: entry_Cons_0 q(5) wq_wf_def queue_consts nth_list_update)
    then show ?thesis using q Cons.prems by (simp add: entry_Cons_0)
  next
    case False
    then have n: "try_queue T q = Inr None" using try_queue_wf [OF wf, of T] by simp
    obtain qs' j i pool' where ih: "place_thread T pool qs = Inr (qs', j, i, pool')" "\<forall>q \<in> set qs'. wq_wf q"
      "entry qs j i = None" "\<And>j' i'. entry qs' j' i' = (if j' = j \<and> i' = i then Some T else entry qs j' i')"
      "wq_total qs' = Suc (wq_total qs)" "set pool' \<subseteq> set pool" "length pool \<le> Suc (length pool')"
      using Cons by auto
    have "entry (q # qs') j' i' = (if j' = Suc j \<and> i' = i then Some T else entry (q # qs) j' i')" for j' i'
      by (cases j') (simp_all add: entry_Cons_0 ih(4))
    then show ?thesis using ih wf by (simp add: n)
  qed
qed

lemma length_filter_drop:
  "i < length xs \<Longrightarrow> P (xs ! i) \<Longrightarrow> \<not> P y \<Longrightarrow> Suc (length (filter P (xs[i := y]))) = length (filter P xs)"
  by (induction xs arbitrary: i) (auto split: nat.splits)

lemma wq_total_upd: "j < length qs \<Longrightarrow> wq_total (qs[j := q]) + entries (qs ! j) = wq_total qs + entries q"
  by (induction qs arbitrary: j) (auto split: nat.splits)

lemma remove_entry_ok:
  assumes wf: "\<forall>q \<in> set qs. wq_wf q" and e: "entry qs j i = Some T"
    and qs'_def: "qs' = qs[j := remove_entry i (qs ! j)]"
  shows "\<forall>q \<in> set qs'. wq_wf q" and "entry qs' j' i' = (if j' = j \<and> i' = i then None else entry qs j' i')"
    and "Suc (wq_total qs') = wq_total qs"
proof -
  have ji: "j < length qs" "i < length (wq_Threads (qs ! j))" "wq_Threads (qs ! j) ! i = Some T"
    using e by (auto simp: entry_def split: if_splits)
  have n: "Suc (entries (remove_entry i (qs ! j))) = entries (qs ! j)"
    using ji by (simp add: entries_def remove_entry_def length_filter_drop)
  define x where "x = entries (remove_entry i (qs ! j))"
  have w: "wq_wf (qs ! j)" using wf ji by simp
  then have "wq_NumThreads (qs ! j) = of_nat (Suc x)" by (simp only: wq_wf_def x_def n)
  then have "wq_NumThreads (remove_entry i (qs ! j)) = of_nat x" by (simp add: remove_entry_def)
  then have "wq_wf (remove_entry i (qs ! j))"
    using w by (simp add: wq_wf_def x_def) (simp add: remove_entry_def)
  then show "\<forall>q \<in> set qs'. wq_wf q"
    using wf by (auto simp: qs'_def dest!: set_update_subset_insert [THEN subsetD])
  show "entry qs' j' i' = (if j' = j \<and> i' = i then None else entry qs j' i')"
    using ji by (auto simp: qs'_def entry_def remove_entry_def nth_list_update)
  show "Suc (wq_total qs') = wq_total qs"
    using wq_total_upd [OF ji(1), of "remove_entry i (qs ! j)"] n by (simp add: qs'_def)
qed

section \<open>The queues of all processors\<close>

definition cpu_wf :: "CPU_MANAGEMENT_TABLE \<Rightarrow> bool" where
  "cpu_wf cpu \<longleftrightarrow> length (ThreadQueues cpu) = NUM_PRIORITY_CLASSES \<and>
     length (TotalThreads cpu) = NUM_PRIORITY_CLASSES \<and> length (NumReadyThreads cpu) = NUM_PRIORITY_CLASSES \<and>
     (\<forall>qs \<in> set (ThreadQueues cpu). qs \<noteq> [] \<and> (\<forall>q \<in> set qs. wq_wf q))"

definition queues_wf :: "CPU_MANAGEMENT_TABLE list \<Rightarrow> bool" where
  "queues_wf cpus \<longleftrightarrow> (\<forall>cpu \<in> set cpus. cpu_wf cpu)"

text \<open>The thread that a queue entry of the system holds.\<close>

definition queued :: "CPU_MANAGEMENT_TABLE list \<Rightarrow> queue_ref \<Rightarrow> nat \<Rightarrow> slot_ref option" where
  "queued cpus qr i = (case qr of (c, k, j) \<Rightarrow>
     if c < length cpus \<and> k < NUM_PRIORITY_CLASSES then entry (cpu_queues cpus c k) j i else None)"

text \<open>A thread knows the queue entry that holds it, and no other entry holds it.\<close>

definition queues_linked :: "PROCESSMGRTABLE \<Rightarrow> bool" where
  "queues_linked st \<longleftrightarrow>
     (\<forall>r th qr. chain_get (ThreadList st) r = Some th \<and> WaitingQueue th = Some qr \<longrightarrow>
        queued (Cpus st) qr (ThreadWaitingQueueIndex th) = Some r) \<and>
     (\<forall>qr i r. queued (Cpus st) qr i = Some r \<longrightarrow>
        (\<exists>th. chain_get (ThreadList st) r = Some th \<and> WaitingQueue th = Some qr \<and> ThreadWaitingQueueIndex th = i))"

text \<open>The class counter of each processor is the number of threads in its queues of that class.\<close>

definition counters_exact :: "CPU_MANAGEMENT_TABLE list \<Rightarrow> bool" where
  "counters_exact cpus \<longleftrightarrow> (\<forall>c k. c < length cpus \<and> k < NUM_PRIORITY_CLASSES \<longrightarrow>
     TotalThreads (cpus ! c) ! k = of_nat (wq_total (cpu_queues cpus c k)))"

text \<open>A queued thread is in a queue of its processor and of the class of its process.\<close>

definition queued_at_home :: "PROCESSMGRTABLE \<Rightarrow> bool" where
  "queued_at_home st \<longleftrightarrow> (\<forall>r th c k j p. chain_get (ThreadList st) r = Some th \<and> WaitingQueue th = Some (c, k, j) \<and>
     th_Process th = Some p \<longrightarrow> c = unat (th_ProcessorId th) \<and> k = unat (PriorityClass (ProcessList st ! p)))"

lemma length_set_queues [simp]: "length (set_queues cpus c k qs) = length cpus"
  and length_count_class [simp]: "length (count_class d cpus c k) = length cpus"
  by (simp_all add: set_queues_def count_class_def)

lemma length_drop_previous [simp]: "length (drop_previous th cpus) = length cpus"
  by (auto simp: drop_previous_def split: option.splits)

lemma cpu_queues_count [simp]: "cpu_queues (count_class d cpus c k) c' k' = cpu_queues cpus c' k'"
  by (cases "c < length cpus"; cases "c' = c") (auto simp: cpu_queues_def count_class_def list_update_beyond)

lemma cpu_queues_set:
  "c < length cpus \<Longrightarrow> k < length (ThreadQueues (cpus ! c)) \<Longrightarrow>
     cpu_queues (set_queues cpus c k qs) c' k' = (if c' = c \<and> k' = k then qs else cpu_queues cpus c' k')"
  by (auto simp: cpu_queues_def set_queues_def nth_list_update)

lemma queued_count [simp]: "queued (count_class d cpus c k) qr i = queued cpus qr i"
  by (cases qr) (simp add: queued_def)

lemma cpu_update_commute:
  "cpu\<lparr> TotalThreads := a, NumReadyThreads := b, ThreadQueues := q \<rparr> =
   cpu\<lparr> ThreadQueues := q, TotalThreads := a, NumReadyThreads := b \<rparr>"
  by (rule CPU_MANAGEMENT_TABLE.equality) simp_all

lemma set_queues_count: "set_queues (count_class d cpus c k) c' k' qs = count_class d (set_queues cpus c' k' qs) c k"
  by (cases "c' = c"; cases "c < length cpus"; cases "c' < length cpus")
    (simp_all add: set_queues_def count_class_def list_update_beyond list_update_swap cpu_update_commute)

lemma drop_previous_count: "drop_previous th (count_class d cpus c k) = count_class d (drop_previous th cpus) c k"
  by (auto simp: drop_previous_def set_queues_count split: option.splits)

lemma queues_wf_nth: "queues_wf cpus \<Longrightarrow> c < length cpus \<Longrightarrow> cpu_wf (cpus ! c)"
  by (simp add: queues_wf_def)

lemma queues_wf_upd: "queues_wf cpus \<Longrightarrow> cpu_wf cpu \<Longrightarrow> queues_wf (cpus[c := cpu])"
  using set_update_subset_insert [of cpus c cpu] by (auto simp: queues_wf_def)

lemma queues_wf_cpu:
  "queues_wf cpus \<Longrightarrow> c < length cpus \<Longrightarrow> length (ThreadQueues (cpus ! c)) = 7 \<and> length (TotalThreads (cpus ! c)) = 7"
  using queues_wf_nth [of cpus c] by (simp add: cpu_wf_def queue_consts)

lemma queues_wf_class:
  "queues_wf cpus \<Longrightarrow> c < length cpus \<Longrightarrow> k < 7 \<Longrightarrow>
     cpu_queues cpus c k \<noteq> [] \<and> (\<forall>q \<in> set (cpu_queues cpus c k). wq_wf q)"
  using queues_wf_nth [of cpus c] by (auto simp: cpu_wf_def cpu_queues_def queue_consts)

lemma queues_wf_count: "queues_wf cpus \<Longrightarrow> c < length cpus \<Longrightarrow> queues_wf (count_class d cpus c k)"
  unfolding count_class_def by (rule queues_wf_upd) (use queues_wf_nth [of cpus c] in \<open>simp_all add: cpu_wf_def\<close>)

lemma queues_wf_set:
  assumes "queues_wf cpus" and "c < length cpus" and "qs \<noteq> []" and "\<forall>q \<in> set qs. wq_wf q"
  shows "queues_wf (set_queues cpus c k qs)"
  unfolding set_queues_def
proof (rule queues_wf_upd [OF assms(1)])
  have "x \<noteq> [] \<and> (\<forall>q \<in> set x. wq_wf q)" if "x \<in> set ((ThreadQueues (cpus ! c))[k := qs])" for x
    using that assms(3,4) queues_wf_nth [OF assms(1,2)] set_update_subset_insert [of "ThreadQueues (cpus ! c)" k qs]
    unfolding cpu_wf_def by blast
  then show "cpu_wf ((cpus ! c)\<lparr> ThreadQueues := (ThreadQueues (cpus ! c))[k := qs] \<rparr>)"
    using queues_wf_nth [OF assms(1,2)] by (simp add: cpu_wf_def)
qed

lemma TotalThreads_set_queues [simp]: "TotalThreads (set_queues cpus c k qs ! c') = TotalThreads (cpus ! c')"
  by (cases "c < length cpus"; cases "c' = c") (simp_all add: set_queues_def list_update_beyond)

lemma TotalThreads_drop [simp]: "TotalThreads (drop_previous th cpus ! c') = TotalThreads (cpus ! c')"
  by (auto simp: drop_previous_def split: option.splits)

lemma TotalThreads_count:
  "c < length cpus \<Longrightarrow> k < length (TotalThreads (cpus ! c)) \<Longrightarrow>
     TotalThreads (count_class d cpus c k ! c') ! k' =
       TotalThreads (cpus ! c') ! k' + (if c' = c \<and> k' = k then d else 0)"
  by (auto simp: count_class_def nth_list_update)

section \<open>Changing a thread's priority\<close>

text \<open>Moving a thread: it gets a new entry at the end of the search and its previous entry is emptied.\<close>

lemma move_thread:
  assumes wf: "queues_wf cpus" and c: "c < length cpus" and k: "k < 7"
    and pool: "pool \<noteq> []" "hd pool \<noteq> 0"
    and prev: "\<And>qr. WaitingQueue th = Some qr \<Longrightarrow> queued cpus qr (ThreadWaitingQueueIndex th) = Some r"
    and only: "\<And>qr i. queued cpus qr i = Some r \<Longrightarrow> WaitingQueue th = Some qr \<and> ThreadWaitingQueueIndex th = i"
  shows "\<exists>qs j i pool'. place_thread r pool (cpu_queues cpus c k) = Inr (qs, j, i, pool') \<and>
    queued cpus (c, k, j) i = None \<and> set pool' \<subseteq> set pool \<and> length pool \<le> Suc (length pool') \<and>
    (let cpus' = drop_previous th (set_queues cpus c k qs) in queues_wf cpus' \<and>
     (\<forall>qr x. queued cpus' qr x =
        (if qr = (c, k, j) \<and> x = i then Some r else if queued cpus qr x = Some r then None else queued cpus qr x)) \<and>
     (\<forall>c' k'. c' < length cpus \<longrightarrow> k' < 7 \<longrightarrow>
        wq_total (cpu_queues cpus' c' k') + (if \<exists>j. WaitingQueue th = Some (c', k', j) then 1 else 0) =
        wq_total (cpu_queues cpus c' k') + (if c' = c \<and> k' = k then 1 else 0)))"
proof -
  have len: "length (ThreadQueues (cpus ! c')) = 7" if "c' < length cpus" for c' using queues_wf_cpu [OF wf that] by simp
  obtain qs j i pool' where p: "place_thread r pool (cpu_queues cpus c k) = Inr (qs, j, i, pool')"
    "\<forall>q \<in> set qs. wq_wf q" "entry (cpu_queues cpus c k) j i = None"
    "\<And>j' i'. entry qs j' i' = (if j' = j \<and> i' = i then Some r else entry (cpu_queues cpus c k) j' i')"
    "wq_total qs = Suc (wq_total (cpu_queues cpus c k))" "qs \<noteq> []"
    and pl: "set pool' \<subseteq> set pool" "length pool \<le> Suc (length pool')"
    using place_thread_ok [of "cpu_queues cpus c k" pool r] queues_wf_class [OF wf c k] pool by blast
  define cpus1 where "cpus1 = set_queues cpus c k qs"
  have wf1: "queues_wf cpus1" unfolding cpus1_def by (rule queues_wf_set [OF wf c p(6,2)])
  have q1: "cpu_queues cpus1 c' k' = (if c' = c \<and> k' = k then qs else cpu_queues cpus c' k')" for c' k'
    unfolding cpus1_def using c k len by (simp add: cpu_queues_set)
  have len1: "length cpus1 = length cpus" by (simp add: cpus1_def)
  have new: "queued cpus (c, k, j) i = None" using c k p(3) by (simp add: queued_def queue_consts)
  have at1: "queued cpus1 qr x = (if qr = (c, k, j) \<and> x = i then Some r else queued cpus qr x)" for qr x
    using c k by (auto simp: queued_def q1 p(4) len1 queue_consts split: prod.splits)
  have t1: "wq_total (cpu_queues cpus1 c' k') = wq_total (cpu_queues cpus c' k') + (if c' = c \<and> k' = k then 1 else 0)" for c' k'
    by (simp add: q1 p(5))
  show ?thesis
  proof (cases "WaitingQueue th")
    case None
    then have "drop_previous th cpus1 = cpus1" by (simp add: drop_previous_def)
    moreover have "queued cpus qr x \<noteq> Some r" for qr x using only [of qr x] None by auto
    ultimately show ?thesis
      using p(1) pl new wf1 at1 t1 None unfolding cpus1_def Let_def by auto
  next
    case (Some qr0)
    obtain c0 k0 j0 where qr0: "qr0 = (c0, k0, j0)" by (cases qr0)
    let ?i0 = "ThreadWaitingQueueIndex th"
    have old: "queued cpus (c0, k0, j0) ?i0 = Some r" using prev Some qr0 by simp
    then have ck0: "c0 < length cpus" "k0 < 7" by (auto simp: queued_def queue_consts split: if_splits)
    have "queued cpus1 (c0, k0, j0) ?i0 = Some r" using at1 old by simp
    then have e0: "entry (cpu_queues cpus1 c0 k0) j0 ?i0 = Some r" using ck0 by (simp add: queued_def len1 queue_consts)
    define qs0 where "qs0 = (cpu_queues cpus1 c0 k0)[j0 := remove_entry ?i0 (cpu_queues cpus1 c0 k0 ! j0)]"
    have wf_c0: "cpu_queues cpus1 c0 k0 \<noteq> []" "\<forall>q \<in> set (cpu_queues cpus1 c0 k0). wq_wf q"
      using queues_wf_class [OF wf1, of c0 k0] ck0 len1 by auto
    note rm = remove_entry_ok [OF wf_c0(2) e0 qs0_def]
    define cpus2 where "cpus2 = drop_previous th cpus1"
    have c2: "cpus2 = set_queues cpus1 c0 k0 qs0" by (simp add: cpus2_def drop_previous_def Some qr0 qs0_def)
    have "length (ThreadQueues (cpus1 ! c0)) = 7" using queues_wf_cpu [OF wf1] ck0 len1 by simp
    then have q2: "cpu_queues cpus2 c' k' = (if c' = c0 \<and> k' = k0 then qs0 else cpu_queues cpus1 c' k')" for c' k'
      unfolding c2 using ck0 len1 by (simp add: cpu_queues_set)
    have wf2: "queues_wf cpus2"
      unfolding c2 by (rule queues_wf_set [OF wf1 _ _ rm(1)]) (use ck0 len1 wf_c0 in \<open>simp_all add: qs0_def\<close>)
    have len2: "length cpus2 = length cpus" by (simp add: c2 len1)
    have A: "queued cpus2 qr x = (if qr = (c0, k0, j0) \<and> x = ?i0 then None else queued cpus1 qr x)" for qr x
      using ck0 by (auto simp: queued_def q2 rm(2) len2 len1 queue_consts split: prod.splits)
    have B: "queued cpus qr x = Some r \<longleftrightarrow> qr = (c0, k0, j0) \<and> x = ?i0" for qr x
      using only [of qr x] old Some qr0 by auto
    have ne: "\<not> ((c, k, j) = (c0, k0, j0) \<and> i = ?i0)" using new old by auto
    have at2: "queued cpus2 qr x =
      (if qr = (c, k, j) \<and> x = i then Some r else if queued cpus qr x = Some r then None else queued cpus qr x)" for qr x
      using ne A [of qr x] B [of qr x] at1 [of qr x] by auto
    have "wq_total (cpu_queues cpus2 c' k') + (if \<exists>j. WaitingQueue th = Some (c', k', j) then 1 else 0) =
      wq_total (cpu_queues cpus1 c' k')" for c' k'
      using rm(3) by (auto simp: q2 Some qr0)
    then show ?thesis
      using p(1) pl new wf2 at2 t1 unfolding cpus2_def cpus1_def Let_def by auto
  qed
qed

text \<open>
  The whole operation on a thread whose queue entry is known.  The class counters change only when the thread was in no
  queue: otherwise the code decrements and increments the counter of the class the process has now.
\<close>

lemma SetThreadPriority_ok:
  assumes wf: "queues_wf (Cpus st)" and linked: "queues_linked st"
    and th: "chain_get (ThreadList st) r = Some th" and m: "\<not> bit (ThreadControlMutex th) 1"
    and c_def: "c = unat (th_ProcessorId th)" and c: "c < length (Cpus st)"
    and p: "th_Process th = Some p" "p < length (ProcessList st)"
    and k_def: "k = unat (PriorityClass (ProcessList st ! p))" and k: "k < 7"
    and pool: "pm_pool st \<noteq> []" "hd (pm_pool st) \<noteq> 0"
    and P: "THREAD_PRIORITY_MIN \<le> P" "P \<le> THREAD_PRIORITY_MAX"
  shows "\<exists>j i pool' cpus'. SetThreadPriority st (Some r) P =
      Inr (st\<lparr> ThreadList := chain_set (ThreadList st) r (th\<lparr> ThreadPriority := of_int (P - THREAD_PRIORITY_MIN),
                 ThreadWaitingQueueIndex := i, WaitingQueue := Some (c, k, j) \<rparr>),
               Cpus := cpus', pm_pool := pool' \<rparr>, KERNEL_SOK) \<and>
    queues_wf cpus' \<and> length cpus' = length (Cpus st) \<and> queued (Cpus st) (c, k, j) i = None \<and>
    set pool' \<subseteq> set (pm_pool st) \<and> length (pm_pool st) \<le> Suc (length pool') \<and>
    (\<forall>qr x. queued cpus' qr x = (if qr = (c, k, j) \<and> x = i then Some r
       else if queued (Cpus st) qr x = Some r then None else queued (Cpus st) qr x)) \<and>
    (\<forall>c' k'. c' < length (Cpus st) \<longrightarrow> k' < 7 \<longrightarrow>
       wq_total (cpu_queues cpus' c' k') + (if \<exists>j. WaitingQueue th = Some (c', k', j) then 1 else 0) =
       wq_total (cpu_queues (Cpus st) c' k') + (if c' = c \<and> k' = k then 1 else 0) \<and>
       TotalThreads (cpus' ! c') ! k' =
       TotalThreads (Cpus st ! c') ! k' + (if c' = c \<and> k' = k \<and> WaitingQueue th = None then 1 else 0))"
proof -
  define cpus1 where "cpus1 = (if WaitingQueue th \<noteq> None then count_class (- 1) (Cpus st) c k else Cpus st)"
  have wf1: "queues_wf cpus1" using wf c by (simp add: cpus1_def queues_wf_count)
  have same: "cpu_queues cpus1 c' k' = cpu_queues (Cpus st) c' k'" "length cpus1 = length (Cpus st)" for c' k'
    by (simp_all add: cpus1_def)
  have at1: "queued cpus1 qr x = queued (Cpus st) qr x" for qr x by (simp add: cpus1_def)
  have prev: "queued cpus1 qr (ThreadWaitingQueueIndex th) = Some r" if "WaitingQueue th = Some qr" for qr
    using linked th that unfolding at1 queues_linked_def by blast
  have only: "WaitingQueue th = Some qr \<and> ThreadWaitingQueueIndex th = x" if q: "queued cpus1 qr x = Some r" for qr x
  proof -
    have "queued (Cpus st) qr x = Some r" using q unfolding at1 .
    then obtain th' where "chain_get (ThreadList st) r = Some th'" "WaitingQueue th' = Some qr" "ThreadWaitingQueueIndex th' = x"
      using linked unfolding queues_linked_def by blast
    then show ?thesis using th by simp
  qed
  obtain qs j i pool' where pl: "place_thread r (pm_pool st) (cpu_queues cpus1 c k) = Inr (qs, j, i, pool')"
    and new: "queued cpus1 (c, k, j) i = None" "set pool' \<subseteq> set (pm_pool st)" "length (pm_pool st) \<le> Suc (length pool')"
    and mv0: "let cpus' = drop_previous th (set_queues cpus1 c k qs) in queues_wf cpus' \<and>
     (\<forall>qr x. queued cpus' qr x =
        (if qr = (c, k, j) \<and> x = i then Some r else if queued cpus1 qr x = Some r then None else queued cpus1 qr x)) \<and>
     (\<forall>c' k'. c' < length cpus1 \<longrightarrow> k' < 7 \<longrightarrow>
        wq_total (cpu_queues cpus' c' k') + (if \<exists>j. WaitingQueue th = Some (c', k', j) then 1 else 0) =
        wq_total (cpu_queues cpus1 c' k') + (if c' = c \<and> k' = k then 1 else 0))"
    using move_thread [OF wf1 _ k pool prev only] c unfolding same(2) by blast
  note mv = mv0 [unfolded Let_def, THEN conjunct1] mv0 [unfolded Let_def, THEN conjunct2, THEN conjunct1, rule_format]
    mv0 [unfolded Let_def, THEN conjunct2, THEN conjunct2, rule_format]
  let ?cpus2 = "drop_previous th (set_queues cpus1 c k qs)"
  have len2: "length ?cpus2 = length (Cpus st)" by (simp only: length_drop_previous length_set_queues same)
  have T: "TotalThreads (count_class 1 ?cpus2 c k ! c') ! k' = TotalThreads (Cpus st ! c') ! k' +
      (if c' = c \<and> k' = k \<and> WaitingQueue th = None then 1 else 0)" for c' k'
    using queues_wf_cpu [OF mv(1), of c] queues_wf_cpu [OF wf, of c] c k len2 by (simp add: TotalThreads_count cpus1_def)
  have r0: "SetThreadPriority st (Some r) P =
      Inr (st\<lparr> ThreadList := chain_set (ThreadList st) r (th\<lparr> ThreadPriority := of_int (P - THREAD_PRIORITY_MIN),
                 ThreadWaitingQueueIndex := i, WaitingQueue := Some (c, k, j),
                 ThreadControlMutex := BitRelease (set_bit 1 (ThreadControlMutex th)) 1 \<rparr>),
               Cpus := count_class 1 ?cpus2 c k, pm_pool := pool' \<rparr>, KERNEL_SOK)"
    using P th m c p k queues_wf_class [OF wf c k] pl
    by (cases "WaitingQueue th")
      (simp_all add: SetThreadPriority_def spin_free queue_consts Let_def c_def [symmetric] k_def [symmetric]
        drop_previous_count cpus1_def)
  have "th\<lparr> ThreadPriority := x, ThreadWaitingQueueIndex := i, WaitingQueue := q,
      ThreadControlMutex := BitRelease (set_bit 1 (ThreadControlMutex th)) 1 \<rparr> =
    th\<lparr> ThreadPriority := x, ThreadWaitingQueueIndex := i, WaitingQueue := q \<rparr>" for x q
    using BitRelease_set_bit [OF m] by (intro THREAD.equality) simp_all
  note e1 = r0 [unfolded this]
  have e2: "queues_wf (count_class 1 ?cpus2 c k)" using queues_wf_count [OF mv(1)] c len2 by simp
  have e3: "queued (count_class 1 ?cpus2 c k) qr x = (if qr = (c, k, j) \<and> x = i then Some r
       else if queued (Cpus st) qr x = Some r then None else queued (Cpus st) qr x)" for qr x
    unfolding queued_count using mv(2) [of qr x] unfolding at1 .
  have e4: "wq_total (cpu_queues (count_class 1 ?cpus2 c k) c' k') +
       (if \<exists>j. WaitingQueue th = Some (c', k', j) then 1 else 0) =
       wq_total (cpu_queues (Cpus st) c' k') + (if c' = c \<and> k' = k then 1 else 0)"
    if "c' < length (Cpus st)" "k' < 7" for c' k'
    unfolding cpu_queues_count using mv(3) [of c' k'] that unfolding same by blast
  have e5: "length (count_class 1 ?cpus2 c k) = length (Cpus st)" using len2 by simp
  show ?thesis
    by (intro exI [of _ j] exI [of _ i] exI [of _ pool'] exI [of _ "count_class 1 ?cpus2 c k"] conjI allI impI)
      (rule e1 e2 e3 e4 e5 T new(1) [unfolded at1] new(2,3) | assumption)+
qed

section \<open>The invariant\<close>

definition queues_ok :: "PROCESSMGRTABLE \<Rightarrow> bool" where
  "queues_ok st \<longleftrightarrow> queues_wf (Cpus st) \<and> queues_linked st \<and> counters_exact (Cpus st) \<and> queued_at_home st"

lemma linked_move:
  assumes linked: "queues_linked st" and th: "chain_get (ThreadList st) r = Some th"
    and new: "queued (Cpus st) qr i = None"
    and q: "\<And>q x. queued (Cpus st') q x = (if q = qr \<and> x = i then Some r
       else if queued (Cpus st) q x = Some r then None else queued (Cpus st) q x)"
    and tl: "ThreadList st' = chain_set (ThreadList st) r th'"
    and th': "WaitingQueue th' = Some qr" "ThreadWaitingQueueIndex th' = i"
  shows "queues_linked st'"
proof -
  have get: "chain_get (ThreadList st') s = (if s = r then Some th' else chain_get (ThreadList st) s)" for s
    using th by (simp add: tl)
  have "queued (Cpus st') q (ThreadWaitingQueueIndex t) = Some s"
    if "chain_get (ThreadList st') s = Some t" "WaitingQueue t = Some q" for s t q
  proof (cases "s = r")
    case True
    then show ?thesis using that th' by (simp add: get q)
  next
    case False
    then have "queued (Cpus st) q (ThreadWaitingQueueIndex t) = Some s"
      using that linked by (auto simp: get queues_linked_def)
    then show ?thesis using False new by (auto simp: q)
  qed
  moreover have "\<exists>t. chain_get (ThreadList st') s = Some t \<and> WaitingQueue t = Some q \<and> ThreadWaitingQueueIndex t = x"
    if "queued (Cpus st') q x = Some s" for q x s
  proof (cases "q = qr \<and> x = i")
    case True
    then show ?thesis using that th' by (auto simp: q get)
  next
    case False
    then have "s \<noteq> r" "queued (Cpus st) q x = Some s" using that unfolding q by (auto split: if_splits)
    then show ?thesis using linked unfolding get queues_linked_def by simp
  qed
  ultimately show ?thesis unfolding queues_linked_def by blast
qed

text \<open>
  What a processor's table has besides its queues and class counters, and by how much the number of ready threads of a class
  differs from its total: both are the scheduler's business.
\<close>

definition cpu_rest :: "CPU_MANAGEMENT_TABLE \<Rightarrow> bool \<times> slot_ref option \<times> slot_ref option \<times> u64 list" where
  "cpu_rest cpu = (cpu_Initialized cpu, cpu_CurrentThread cpu, SystemIdleThread cpu, map2 (-) (NumReadyThreads cpu) (TotalThreads cpu))"

lemma map2_diff_update: "map2 (-) (xs[k := xs ! k + d]) (ys[k := ys ! k + d]) = (map2 (-) xs ys :: 'a :: ab_group_add list)"
proof (cases "k < length xs \<and> k < length ys")
  case True
  have "map2 (-) (xs[k := xs ! k + d]) (ys[k := ys ! k + d]) = (map2 (-) xs ys)[k := (xs ! k + d) - (ys ! k + d)]"
    by (simp add: zip_update map_update)
  also have "\<dots> = (map2 (-) xs ys)[k := map2 (-) xs ys ! k]" using True by simp
  finally show ?thesis by simp
next
  case False
  then have "length (zip xs ys) \<le> k" by (simp only: length_zip min_def) (auto split: if_splits)
  then show ?thesis by (simp only: zip_update list_update_beyond)
qed

lemma cpu_rest_update: "cpu_rest cpu = cpu_rest (cpus ! c) \<Longrightarrow> map cpu_rest (cpus[c := cpu]) = map cpu_rest cpus"
  using list_update_id [of "map cpu_rest cpus" c] by (cases "c < length cpus") (simp_all add: map_update list_update_beyond linorder_not_less)

lemma cpu_rest_count: "map cpu_rest (count_class d cpus c k) = map cpu_rest cpus"
  unfolding count_class_def by (rule cpu_rest_update) (simp add: cpu_rest_def map2_diff_update)

lemma cpu_rest_set_queues: "map cpu_rest (set_queues cpus c k qs) = map cpu_rest cpus"
  unfolding set_queues_def by (rule cpu_rest_update) (simp add: cpu_rest_def)

lemma cpu_rest_drop: "map cpu_rest (drop_previous th cpus) = map cpu_rest cpus"
  by (auto simp: drop_previous_def cpu_rest_set_queues split: option.splits)

lemmas cpu_rest_simps = cpu_rest_count cpu_rest_set_queues cpu_rest_drop

lemma SetThreadPriority_rest:
  "SetThreadPriority st (Some r) P = Inr (st', status) \<Longrightarrow> map cpu_rest (Cpus st') = map cpu_rest (Cpus st)"
  unfolding SetThreadPriority_def
  by (auto simp: andThen_Inr_iff Let_def cpu_rest_simps split: if_splits option.splits)

text \<open>C3. Changing the priority of a thread keeps the waiting queues consistent: every queued thread is in exactly one queue
  entry, the one it points to, in a queue of its processor and of its process's class; each class counter is the number
  of threads in the queues of the class, and the number of ready threads of the class changes by the same amount; no queue lock is
  left taken.  The thread gets the priority index and is queued, and keeps everything else; the other threads, the processes and the
  rest of the processors' tables and of the process manager are unchanged.\<close>

theorem SetThreadPriority_moves:
  assumes ok: "queues_ok st" and th: "chain_get (ThreadList st) r = Some th" and m: "\<not> bit (ThreadControlMutex th) 1"
    and c: "unat (th_ProcessorId th) < length (Cpus st)"
    and p: "th_Process th = Some p" "p < length (ProcessList st)" "unat (PriorityClass (ProcessList st ! p)) < 7"
    and pool: "pm_pool st \<noteq> []" "hd (pm_pool st) \<noteq> 0"
    and P: "THREAD_PRIORITY_MIN \<le> P" "P \<le> THREAD_PRIORITY_MAX"
  shows "\<exists>st' th'. SetThreadPriority st (Some r) P = Inr (st', KERNEL_SOK) \<and> queues_ok st' \<and>
    chain_get (ThreadList st') r = Some th' \<and> ThreadPriority th' = of_int (P - THREAD_PRIORITY_MIN) \<and>
    WaitingQueue th' \<noteq> None \<and> (\<forall>s. s \<noteq> r \<longrightarrow> chain_get (ThreadList st') s = chain_get (ThreadList st) s) \<and>
    th'\<lparr> ThreadPriority := ThreadPriority th, ThreadWaitingQueueIndex := ThreadWaitingQueueIndex th, WaitingQueue := WaitingQueue th \<rparr> = th \<and>
    map cpu_rest (Cpus st') = map cpu_rest (Cpus st) \<and>
    st'\<lparr> ThreadList := ThreadList st, Cpus := Cpus st, pm_pool := pm_pool st \<rparr> = st"
proof -
  define c where "c = unat (th_ProcessorId th)"
  define k where "k = unat (PriorityClass (ProcessList st ! p))"
  have ok': "queues_wf (Cpus st)" "queues_linked st" "counters_exact (Cpus st)" "queued_at_home st"
    using ok by (simp_all add: queues_ok_def)
  have ck: "c < length (Cpus st)" "k < 7" using assms(4) p(3) by (simp_all add: c_def k_def)
  obtain j i pool' cpus' where r: "SetThreadPriority st (Some r) P =
      Inr (st\<lparr> ThreadList := chain_set (ThreadList st) r (th\<lparr> ThreadPriority := of_int (P - THREAD_PRIORITY_MIN),
                 ThreadWaitingQueueIndex := i, WaitingQueue := Some (c, k, j) \<rparr>),
               Cpus := cpus', pm_pool := pool' \<rparr>, KERNEL_SOK)" "queues_wf cpus'" "length cpus' = length (Cpus st)"
      "queued (Cpus st) (c, k, j) i = None"
    and q: "\<forall>qr x. queued cpus' qr x = (if qr = (c, k, j) \<and> x = i then Some r
       else if queued (Cpus st) qr x = Some r then None else queued (Cpus st) qr x)"
    and t0: "\<forall>c' k'. c' < length (Cpus st) \<longrightarrow> k' < 7 \<longrightarrow>
       wq_total (cpu_queues cpus' c' k') + (if \<exists>j. WaitingQueue th = Some (c', k', j) then 1 else 0) =
       wq_total (cpu_queues (Cpus st) c' k') + (if c' = c \<and> k' = k then 1 else 0) \<and>
       TotalThreads (cpus' ! c') ! k' =
       TotalThreads (Cpus st ! c') ! k' + (if c' = c \<and> k' = k \<and> WaitingQueue th = None then 1 else 0)"
    using SetThreadPriority_ok [OF ok'(1,2) th m c_def ck(1) p(1,2) k_def ck(2) pool P] by (elim exE conjE) (rule that)
  note t = t0 [rule_format]
  let ?th = "th\<lparr> ThreadPriority := of_int (P - THREAD_PRIORITY_MIN), ThreadWaitingQueueIndex := i, WaitingQueue := Some (c, k, j) \<rparr>"
  let ?st = "st\<lparr> ThreadList := chain_set (ThreadList st) r ?th, Cpus := cpus', pm_pool := pool' \<rparr>"
  have get: "chain_get (ThreadList ?st) s = (if s = r then Some ?th else chain_get (ThreadList st) s)" for s
    using th by simp
  have "queues_linked ?st" using q by (intro linked_move [OF ok'(2) th r(4), of ?st ?th]) simp_all
  moreover have "queued_at_home ?st"
    using ok'(4) p(1) unfolding queued_at_home_def get by (auto simp: c_def k_def)
  moreover have "counters_exact cpus'"
    unfolding counters_exact_def queue_consts
  proof (intro allI impI)
    fix c' k' :: nat assume ck: "c' < length cpus' \<and> k' < 7"
    then have old: "TotalThreads (Cpus st ! c') ! k' = of_nat (wq_total (cpu_queues (Cpus st) c' k'))"
      using ok'(3) by (simp add: counters_exact_def queue_consts r(3))
    have home: "c' = c \<and> k' = k" if "WaitingQueue th = Some (c', k', j)" for j
      using ok'(4) th p(1) that unfolding queued_at_home_def c_def k_def by blast
    show "TotalThreads (cpus' ! c') ! k' = of_nat (wq_total (cpu_queues cpus' c' k'))"
    proof (cases "WaitingQueue th")
      case None
      then show ?thesis using t [of c' k'] ck old r(3) by (simp add: add.commute)
    next
      case (Some qr)
      have "(\<exists>j. WaitingQueue th = Some (c', k', j)) = (c' = c \<and> k' = k)"
        using home ok'(4) th p(1) Some unfolding queued_at_home_def c_def k_def by (metis prod_cases3)
      then show ?thesis using t [of c' k'] ck old r(3) Some by simp
    qed
  qed
  ultimately have "queues_ok ?st" using r(2) by (simp add: queues_ok_def)
  moreover have "map cpu_rest (Cpus ?st) = map cpu_rest (Cpus st)" using SetThreadPriority_rest [OF r(1)] .
  ultimately show ?thesis using r(1) get th by (intro exI [of _ ?st] exI [of _ ?th]) auto
qed

section \<open>Changing the priority class\<close>

text \<open>A thread of process \<open>p\<close> that is in a queue and whose control word allows a change of priority.\<close>

definition requeueable :: "PROCESSMGRTABLE \<Rightarrow> nat \<Rightarrow> slot_ref \<Rightarrow> bool" where
  "requeueable st p r \<longleftrightarrow> (\<exists>th. chain_get (ThreadList st) r = Some th \<and> th_Process th = Some p \<and> WaitingQueue th \<noteq> None \<and>
     \<not> bit (ThreadControlMutex th) 1 \<and> unat (th_ProcessorId th) < length (Cpus st) \<and> ThreadPriority th \<le> 6)"

text \<open>The thread waits in a queue of class \<open>k\<close> on its own processor.\<close>

definition waits_in_class :: "PROCESSMGRTABLE \<Rightarrow> nat \<Rightarrow> slot_ref \<Rightarrow> bool" where
  "waits_in_class st k r \<longleftrightarrow> (\<exists>th j. chain_get (ThreadList st) r = Some th \<and>
     WaitingQueue th = Some (unat (th_ProcessorId th), k, j))"

text \<open>What re-queueing the threads \<open>rs\<close> does to the state.\<close>

definition requeued :: "slot_ref set \<Rightarrow> PROCESSMGRTABLE \<Rightarrow> PROCESSMGRTABLE \<Rightarrow> bool" where
  "requeued rs st st' \<longleftrightarrow> queues_wf (Cpus st') \<and> queues_linked st' \<and> ProcessList st' = ProcessList st \<and>
     length (Cpus st') = length (Cpus st) \<and> set (pm_pool st') \<subseteq> set (pm_pool st) \<and>
     (\<forall>c k. c < length (Cpus st) \<longrightarrow> k < 7 \<longrightarrow> TotalThreads (Cpus st' ! c) ! k = TotalThreads (Cpus st ! c) ! k) \<and>
     (\<forall>s. s \<notin> rs \<longrightarrow> chain_get (ThreadList st') s = chain_get (ThreadList st) s)"

lemma requeued_refl: "queues_wf (Cpus st) \<Longrightarrow> queues_linked st \<Longrightarrow> requeued {} st st"
  by (simp add: requeued_def)

lemma requeued_trans: "requeued A st st1 \<Longrightarrow> requeued B st1 st2 \<Longrightarrow> requeued (A \<union> B) st st2"
  unfolding requeued_def by auto

lemma requeued_frame:
  assumes "requeued A st st'" and "s \<notin> A"
  shows "requeueable st' p s = requeueable st p s" and "waits_in_class st' k s = waits_in_class st k s"
  using assms unfolding requeued_def requeueable_def waits_in_class_def by auto

lemma priority_again: "w \<le> 6 \<Longrightarrow> sint ((w :: u32) + of_int THREAD_PRIORITY_MIN) = uint w + THREAD_PRIORITY_MIN"
proof -
  assume w: "w \<le> 6"
  then have u: "uint w \<le> 6" using word_le_def [of w 6] by simp
  have "w + of_int THREAD_PRIORITY_MIN = word_of_int (uint w + THREAD_PRIORITY_MIN)" by simp
  moreover have "sint (word_of_int (uint w + THREAD_PRIORITY_MIN) :: u32) = uint w + THREAD_PRIORITY_MIN"
    using u unfolding sint_sbintrunc' by (intro signed_take_bit_int_eq_self) (simp_all add: priority_defs)
  ultimately show ?thesis by metis
qed

lemma requeue_one:
  assumes wf: "queues_wf (Cpus st)" and linked: "queues_linked st" and r: "requeueable st p r"
    and p: "p < length (ProcessList st)" and k_def: "k = unat (PriorityClass (ProcessList st ! p))" and k: "k < 7"
    and pool: "pm_pool st \<noteq> []" "0 \<notin> set (pm_pool st)"
  shows "\<exists>th st'. chain_get (ThreadList st) r = Some th \<and>
     SetThreadPriority st (Some r) (sint (ThreadPriority th + of_int THREAD_PRIORITY_MIN)) = Inr (st', KERNEL_SOK) \<and>
     requeued {r} st st' \<and> waits_in_class st' k r \<and> length (pm_pool st) \<le> Suc (length (pm_pool st'))"
proof -
  obtain th where th: "chain_get (ThreadList st) r = Some th" "th_Process th = Some p" "WaitingQueue th \<noteq> None"
    "\<not> bit (ThreadControlMutex th) 1" "unat (th_ProcessorId th) < length (Cpus st)" "ThreadPriority th \<le> 6"
    using r by (auto simp: requeueable_def)
  let ?P = "uint (ThreadPriority th) + THREAD_PRIORITY_MIN"
  have "uint (ThreadPriority th) \<le> 6" using th(6) word_le_def [of "ThreadPriority th" 6] by simp
  then have P: "THREAD_PRIORITY_MIN \<le> ?P" "?P \<le> THREAD_PRIORITY_MAX" by (simp_all add: priority_defs)
  have h: "hd (pm_pool st) \<noteq> 0" using pool by (metis hd_in_set)
  obtain j i pool' cpus' where e: "SetThreadPriority st (Some r) ?P =
      Inr (st\<lparr> ThreadList := chain_set (ThreadList st) r (th\<lparr> ThreadPriority := of_int (?P - THREAD_PRIORITY_MIN),
                 ThreadWaitingQueueIndex := i, WaitingQueue := Some (unat (th_ProcessorId th), k, j) \<rparr>),
               Cpus := cpus', pm_pool := pool' \<rparr>, KERNEL_SOK)"
    and c: "queues_wf cpus'" "length cpus' = length (Cpus st)" "queued (Cpus st) (unat (th_ProcessorId th), k, j) i = None"
      "set pool' \<subseteq> set (pm_pool st)" "length (pm_pool st) \<le> Suc (length pool')"
    and q: "\<forall>qr x. queued cpus' qr x = (if qr = (unat (th_ProcessorId th), k, j) \<and> x = i then Some r
       else if queued (Cpus st) qr x = Some r then None else queued (Cpus st) qr x)"
    and t: "\<forall>c' k'. c' < length (Cpus st) \<longrightarrow> k' < 7 \<longrightarrow>
       wq_total (cpu_queues cpus' c' k') + (if \<exists>j. WaitingQueue th = Some (c', k', j) then 1 else 0) =
       wq_total (cpu_queues (Cpus st) c' k') + (if c' = unat (th_ProcessorId th) \<and> k' = k then 1 else 0) \<and>
       TotalThreads (cpus' ! c') ! k' = TotalThreads (Cpus st ! c') ! k' +
         (if c' = unat (th_ProcessorId th) \<and> k' = k \<and> WaitingQueue th = None then 1 else 0)"
    using SetThreadPriority_ok [OF wf linked th(1,4) refl th(5,2) p k_def k pool(1) h P] by (elim exE conjE) (rule that)
  define th' where "th' = th\<lparr> ThreadPriority := of_int (?P - THREAD_PRIORITY_MIN),
                 ThreadWaitingQueueIndex := i, WaitingQueue := Some (unat (th_ProcessorId th), k, j) \<rparr>"
  have th': "WaitingQueue th' = Some (unat (th_ProcessorId th'), k, j)" "ThreadWaitingQueueIndex th' = i"
    "th_ProcessorId th' = th_ProcessorId th" by (simp_all add: th'_def)
  define st' where "st' = st\<lparr> ThreadList := chain_set (ThreadList st) r th', Cpus := cpus', pm_pool := pool' \<rparr>"
  have "queues_linked st'"
    using q th' by (intro linked_move [OF linked th(1) c(3), of st' th']) (simp_all add: st'_def)
  then have "requeued {r} st st'" using c t th(3) by (simp add: requeued_def st'_def)
  moreover have "waits_in_class st' k r" using th(1) th' by (simp add: waits_in_class_def st'_def)
  moreover have "SetThreadPriority st (Some r) (sint (ThreadPriority th + of_int THREAD_PRIORITY_MIN)) = Inr (st', KERNEL_SOK)"
    unfolding priority_again [OF th(6)] e st'_def th'_def ..
  moreover have "length (pm_pool st) \<le> Suc (length (pm_pool st'))" using c(5) by (simp add: st'_def)
  ultimately show ?thesis using th(1) by blast
qed

fun listed :: "slot_ref option list \<Rightarrow> slot_ref list" where
  "listed [] = []"
| "listed (None # es) = listed es"
| "listed (Some r # es) = r # listed es"

lemma listed_append [simp]: "listed (es @ fs) = listed es @ listed fs"
  by (induction es rule: listed.induct) simp_all

lemma listed_replicate [simp]: "listed (replicate n None) = []"
  by (induction n) simp_all

lemma reprioritise_block_ok:
  assumes "queues_wf (Cpus st)" and "queues_linked st" and "p < length (ProcessList st)"
    and "k = unat (PriorityClass (ProcessList st ! p))" and "k < 7" and "distinct (listed es)"
    and "\<forall>r \<in> set (listed es). requeueable st p r" and "0 \<notin> set (pm_pool st)" and "length (listed es) \<le> length (pm_pool st)"
  shows "\<exists>st'. reprioritise_block es st Remaining = Inr (st', Remaining - of_nat (length (listed es))) \<and>
    requeued (set (listed es)) st st' \<and> (\<forall>r \<in> set (listed es). waits_in_class st' k r) \<and>
    length (pm_pool st) \<le> length (listed es) + length (pm_pool st')"
  using assms
proof (induction es arbitrary: st Remaining rule: listed.induct)
  case 1
  then show ?case by (simp add: requeued_refl)
next
  case (2 es)
  then show ?case by simp
next
  case (3 r es)
  have "requeueable st p r" "pm_pool st \<noteq> []" using "3.prems"(7,9) by auto
  then obtain th st1 where s: "chain_get (ThreadList st) r = Some th"
    "SetThreadPriority st (Some r) (sint (ThreadPriority th + of_int THREAD_PRIORITY_MIN)) = Inr (st1, KERNEL_SOK)"
    "requeued {r} st st1" "waits_in_class st1 k r" "length (pm_pool st) \<le> Suc (length (pm_pool st1))"
    using requeue_one [OF "3.prems"(1,2) _ "3.prems"(3,4,5) _ "3.prems"(8)] by blast
  have nr: "r \<notin> set (listed es)" using "3.prems"(6) by simp
  have f: "requeueable st1 p x" if "x \<in> set (listed es)" for x
    using that nr requeued_frame(1) [OF s(3), of x p] "3.prems"(7) by auto
  have "\<exists>st'. reprioritise_block es st1 (Remaining - 1) = Inr (st', Remaining - 1 - of_nat (length (listed es))) \<and>
    requeued (set (listed es)) st1 st' \<and> (\<forall>r \<in> set (listed es). waits_in_class st' k r) \<and>
    length (pm_pool st1) \<le> length (listed es) + length (pm_pool st')"
    using s(3,5) f "3.prems" by (intro "3.IH") (auto simp: requeued_def)
  then obtain st' where i: "reprioritise_block es st1 (Remaining - 1) = Inr (st', Remaining - 1 - of_nat (length (listed es)))"
    "requeued (set (listed es)) st1 st'" "\<forall>r \<in> set (listed es). waits_in_class st' k r"
    "length (pm_pool st1) \<le> length (listed es) + length (pm_pool st')" by blast
  have "waits_in_class st' k r" using requeued_frame(2) [OF i(2) nr] s(4) by simp
  moreover have "reprioritise_block (Some r # es) st Remaining = Inr (st', Remaining - of_nat (length (listed (Some r # es))))"
    using s(1,2) i(1) by (simp add: KERNEL_ERROR_def KERNEL_SOK_def algebra_simps)
  moreover have "requeued (set (listed (Some r # es))) st st'" using requeued_trans [OF s(3) i(2)] by simp
  ultimately show ?case using i(3,4) s(5) by auto
qed

lemma of_nat_neq_0: "n \<noteq> 0 \<Longrightarrow> n < 2 ^ 64 \<Longrightarrow> (of_nat n :: u64) \<noteq> 0"
  by (simp add: word_of_nat_eq_0_iff nat_dvd_not_less)

lemma reprioritise_ok:
  assumes "queues_wf (Cpus st)" and "queues_linked st" and "p < length (ProcessList st)"
    and "k = unat (PriorityClass (ProcessList st ! p))" and "k < 7" and "distinct (listed (concat bs))"
    and "\<forall>r \<in> set (listed (concat bs)). requeueable st p r" and "0 \<notin> set (pm_pool st)"
    and "length (listed (concat bs)) \<le> length (pm_pool st)" and "length (listed (concat bs)) < 2 ^ 64"
  shows "\<exists>st'. reprioritise bs st (of_nat (length (listed (concat bs)))) = Inr st' \<and>
    requeued (set (listed (concat bs))) st st' \<and> (\<forall>r \<in> set (listed (concat bs)). waits_in_class st' k r)"
  using assms
proof (induction bs arbitrary: st)
  case Nil
  then show ?case by (simp add: requeued_refl)
next
  case (Cons b bs)
  let ?n = "length (listed (concat (b # bs)))"
  have disj: "set (listed b) \<inter> set (listed (concat bs)) = {}" using Cons.prems(6) by simp
  show ?case
  proof (cases "?n = 0")
    case True
    then show ?thesis using Cons.prems(1,2) by (simp add: requeued_refl)
  next
    case False
    then have nz: "(of_nat ?n :: u64) \<noteq> 0"
      using Cons.prems(10) by (rule of_nat_neq_0)
    obtain st1 where s: "reprioritise_block b st (of_nat ?n) = Inr (st1, of_nat ?n - of_nat (length (listed b)))"
      "requeued (set (listed b)) st st1" "\<forall>r \<in> set (listed b). waits_in_class st1 k r"
      "length (pm_pool st) \<le> length (listed b) + length (pm_pool st1)"
      using reprioritise_block_ok [OF Cons.prems(1,2,3,4,5), of b "of_nat ?n"] Cons.prems(6,7,8,9) by auto
    have rem: "(of_nat ?n :: u64) - of_nat (length (listed b)) = of_nat (length (listed (concat bs)))" by simp
    have f: "requeueable st1 p x" if "x \<in> set (listed (concat bs))" for x
      using that disj requeued_frame(1) [OF s(2), of x p] Cons.prems(7) by auto
    have "\<exists>st'. reprioritise bs st1 (of_nat (length (listed (concat bs)))) = Inr st' \<and>
      requeued (set (listed (concat bs))) st1 st' \<and> (\<forall>r \<in> set (listed (concat bs)). waits_in_class st' k r)"
      using s(2,4) f Cons.prems by (intro Cons.IH) (auto simp: requeued_def)
    then obtain st' where i: "reprioritise bs st1 (of_nat (length (listed (concat bs)))) = Inr st'"
      "requeued (set (listed (concat bs))) st1 st'" "\<forall>r \<in> set (listed (concat bs)). waits_in_class st' k r" by blast
    have "waits_in_class st' k x" if "x \<in> set (listed b)" for x
      using that disj requeued_frame(2) [OF i(2), of x k] s(3) by auto
    moreover have "reprioritise (b # bs) st (of_nat ?n) = Inr st'"
      using nz s(1) i(1) unfolding rem by simp
    moreover have "requeued (set (listed (concat (b # bs)))) st st'" using requeued_trans [OF s(2) i(2)] by simp
    ultimately show ?thesis using i(3) by auto
  qed
qed

lemma set_process_simps [simp]:
  "ThreadList (set_process st p proc) = ThreadList st" "Cpus (set_process st p proc) = Cpus st"
  "pm_pool (set_process st p proc) = pm_pool st" "ProcessList (set_process st p proc) = (ProcessList st)[p := proc]"
  "requeueable (set_process st p proc) q r = requeueable st q r" "queues_linked (set_process st p proc) = queues_linked st"
  "waits_in_class (set_process st p proc) k r = waits_in_class st k r"
  by (simp_all add: set_process_def requeueable_def queues_linked_def waits_in_class_def)

text \<open>Remark. Changing the priority class of a process moves every thread of the process into a queue of the new class, on its
  own processor, keeps the queues well-formed and linked, and releases the process.  But the counters
  \<open>TotalThreads\<close> of all classes stay as they were: the class of the process is replaced before the threads are moved, so
  both the decrement and the increment of each move fall on the new class.\<close>

theorem SetPriorityClass_requeues:
  assumes wf: "queues_wf (Cpus st)" "queues_linked st" and p: "p < length (ProcessList st)" "proc = ProcessList st ! p"
    and m: "\<not> bit (ControlMutex0 proc) 0" and Class: "PRIORITY_CLASS_MIN \<le> Class" "Class \<le> PRIORITY_CLASS_MAX"
    and rs: "rs = listed (concat (pr_Threads proc))" "distinct rs" "\<forall>r \<in> set rs. requeueable st p r"
    and n: "NumThreads proc = of_nat (length rs)" "length rs < 2 ^ 64"
    and pool: "0 \<notin> set (pm_pool st)" "length rs \<le> length (pm_pool st)"
  shows "\<exists>st'. SetPriorityClass st p Class = Inr (st', KERNEL_SOK) \<and> queues_wf (Cpus st') \<and> queues_linked st' \<and>
    ProcessList st' = (ProcessList st)[p := proc\<lparr> PriorityClass := of_int (Class - PRIORITY_CLASS_MIN) \<rparr>] \<and>
    (\<forall>r \<in> set rs. waits_in_class st' (nat (Class - PRIORITY_CLASS_MIN)) r) \<and>
    (\<forall>c k. c < length (Cpus st) \<longrightarrow> k < 7 \<longrightarrow> TotalThreads (Cpus st' ! c) ! k = TotalThreads (Cpus st ! c) ! k)"
proof -
  let ?k = "nat (Class - PRIORITY_CLASS_MIN)"
  define proc1 where "proc1 = proc\<lparr> ControlMutex0 := set_bit 0 (ControlMutex0 proc), PriorityClass := of_int (Class - PRIORITY_CLASS_MIN) \<rparr>"
  let ?st1 = "set_process st p proc1"
  have u: "uint (of_int (Class - PRIORITY_CLASS_MIN) :: u32) = Class - PRIORITY_CLASS_MIN"
    using Class by (simp add: unsigned_of_int priority_defs take_bit_int_eq_self del: of_int_diff)
  then have k: "?k = unat (PriorityClass (ProcessList ?st1 ! p))" and k7: "?k < 7"
    using p Class by (simp_all add: proc1_def priority_defs unat_eq_nat_uint del: of_int_diff)
  obtain st2 where r: "reprioritise (pr_Threads proc) ?st1 (of_nat (length rs)) = Inr st2"
    "requeued (set rs) ?st1 st2" "\<forall>r \<in> set rs. waits_in_class st2 ?k r"
    using reprioritise_ok [of ?st1 p ?k "pr_Threads proc"] wf p(1) k k7 rs pool n(2) by auto
  have l: "ProcessList st2 = (ProcessList st)[p := proc1]" using r(2) by (simp add: requeued_def)
  have "proc1\<lparr> ControlMutex0 := BitRelease (set_bit 0 (ControlMutex0 proc)) 0 \<rparr> =
      proc\<lparr> PriorityClass := of_int (Class - PRIORITY_CLASS_MIN) \<rparr>"
    using BitRelease_set_bit [OF m] unfolding proc1_def by (intro PROCESS.equality) simp_all
  then have "SetPriorityClass st p Class =
      Inr (set_process st2 p (proc\<lparr> PriorityClass := of_int (Class - PRIORITY_CLASS_MIN) \<rparr>), KERNEL_SOK)"
    using Class p r(1) m n(1) l proc1_def
    by (simp add: SetPriorityClass_def spin_free Let_def PROCESS_MUTEX0_CREATE_THREAD_def)
  then show ?thesis using r(2,3) l by (simp add: requeued_def)
qed

section \<open>A concrete state\<close>

text \<open>One processor, one process with one thread, queued with normal priority in the normal class.\<close>

definition one_thread_queue :: THREAD_WAITING_QUEUE where
  "one_thread_queue = WAITING_QUEUE_zero\<lparr> wq_Threads := (replicate 0x200 None)[0 := Some (0, 0)], wq_NumThreads := 1 \<rparr>"

definition one_thread_cpu :: CPU_MANAGEMENT_TABLE where
  "one_thread_cpu = \<lparr> cpu_Initialized = True, TotalThreads = (replicate 7 0)[3 := 1], NumReadyThreads = (replicate 7 0)[3 := 1],
     ThreadQueues = (replicate 7 [WAITING_QUEUE_zero])[3 := [one_thread_queue]], cpu_CurrentThread = None, SystemIdleThread = None \<rparr>"

definition one_thread :: THREAD where
  "one_thread = THREAD_zero\<lparr> th_State := THS_PRESENT OR THS_RUNNABLE, th_Process := Some 0, ThreadPriority := 3,
     WaitingQueue := Some (0, 3, 0) \<rparr>"

definition one_process :: PROCESS where
  "one_process = \<lparr> pr_Set = True, ProcessId = 0, ProcessName = None, pr_PageMap = 0, ParentProcess = None, OperatingMode = 0x10,
     PriorityClass = 3, Subsystem = 3, pr_FreeMemoryRoot = True, pr_StackSize = 0, NumThreads = 1,
     StartupThread = Some (0, 0), FileHandles = None, pr_Threads = [[Some (0, 0), None]], ControlMutex0 = 0 \<rparr>"

definition one_thread_state :: PROCESSMGRTABLE where
  "one_thread_state = \<lparr> SchedulerEnable = True, NumProcessors = 1, ThreadList = [[one_thread]], ProcessList = [one_process],
     SystemInitialized = True, NextThreadProcessor = 0, Cpus = [one_thread_cpu], kproc = Some 0, pm_pool = [0x1000] \<rparr>"

lemma one_thread_queue_wf: "wq_wf one_thread_queue" "entries one_thread_queue = 1"
proof -
  have "length (filter (\<lambda>t. t \<noteq> None) ((replicate 0x200 None)[0 := Some (0 :: nat, 0 :: nat)])) = 1"
    by (subst length_filter_upd) simp_all
  then show "entries one_thread_queue = 1" by (simp add: entries_def one_thread_queue_def)
  then show "wq_wf one_thread_queue" by (simp add: wq_wf_def one_thread_queue_def WAITING_QUEUE_zero_def queue_consts)
qed

lemma one_thread_queues: "k < 7 \<Longrightarrow>
  cpu_queues [one_thread_cpu] 0 k = (if k = 3 then [one_thread_queue] else [WAITING_QUEUE_zero])"
  by (simp add: cpu_queues_def one_thread_cpu_def nth_list_update)

lemma one_thread_queued: "queued [one_thread_cpu] qr i = Some r \<longleftrightarrow> qr = (0, 3, 0) \<and> i = 0 \<and> r = (0, 0)"
proof -
  obtain c k j where qr: "qr = (c, k, j)" by (cases qr)
  have e: "entry [one_thread_queue] j i = Some r \<longleftrightarrow> j = 0 \<and> i = 0 \<and> r = (0, 0)"
    "entry [WAITING_QUEUE_zero] j i = None"
    by (auto simp: entry_def one_thread_queue_def WAITING_QUEUE_zero_def queue_consts nth_list_update)
  show ?thesis
  proof (cases "c = 0 \<and> k < 7")
    case True
    then show ?thesis by (auto simp: qr queued_def queue_consts one_thread_queues e)
  qed (auto simp: qr queued_def queue_consts)
qed

lemma one_thread_get: "chain_get [[one_thread]] r = Some th \<longleftrightarrow> r = (0, 0) \<and> th = one_thread"
  by (cases r) (auto simp: chain_get_def split: if_splits)

lemma one_thread_fields [simp]:
  "th_Process one_thread = Some 0" "ThreadPriority one_thread = 3" "WaitingQueue one_thread = Some (0, 3, 0)"
  "ThreadWaitingQueueIndex one_thread = 0" "ThreadControlMutex one_thread = 0" "th_ProcessorId one_thread = 0"
  by (simp_all add: one_thread_def THREAD_zero_def)

lemma one_thread_ok: "queues_ok one_thread_state"
proof -
  have "cpu_wf one_thread_cpu"
    using one_thread_queue_wf zero_wf
    by (auto simp: cpu_wf_def one_thread_cpu_def queue_consts dest!: set_update_subset_insert [THEN subsetD])
  moreover have "queues_linked one_thread_state"
    by (auto simp: queues_linked_def one_thread_state_def one_thread_queued one_thread_get)
  moreover have "counters_exact [one_thread_cpu]"
    using one_thread_queue_wf zero_wf
    by (auto simp: counters_exact_def queue_consts one_thread_queues) (auto simp: one_thread_cpu_def nth_list_update)
  moreover have "queued_at_home one_thread_state"
    by (auto simp: queued_at_home_def one_thread_state_def one_thread_get one_process_def)
  ultimately show ?thesis by (simp add: queues_ok_def queues_wf_def one_thread_state_def)
qed

lemmas one_thread_simps = one_thread_state_def one_thread_get one_process_def

theorem SetThreadPriority_moves_witness:
  "\<exists>st' th'. SetThreadPriority one_thread_state (Some (0, 0)) 0x260 = Inr (st', KERNEL_SOK) \<and> queues_ok st' \<and>
     chain_get (ThreadList st') (0, 0) = Some th' \<and> ThreadPriority th' = 1"
proof -
  have "chain_get (ThreadList one_thread_state) (0, 0) = Some one_thread" by (simp add: one_thread_state_def one_thread_get)
  from SetThreadPriority_moves [OF one_thread_ok this, of 0 "0x260"] show ?thesis
    by (auto simp: one_thread_simps priority_defs)
qed

theorem SetPriorityClass_requeues_witness:
  "\<exists>st'. SetPriorityClass one_thread_state 0 0x17F = Inr (st', KERNEL_SOK) \<and> waits_in_class st' 1 (0, 0) \<and>
     TotalThreads (Cpus st' ! 0) ! 1 = 0 \<and> TotalThreads (Cpus st' ! 0) ! 3 = 1"
proof -
  have ok: "queues_wf (Cpus one_thread_state)" "queues_linked one_thread_state"
    using one_thread_ok by (simp_all add: queues_ok_def)
  have cpu: "Cpus one_thread_state = [one_thread_cpu]" by (simp add: one_thread_state_def)
  have T: "TotalThreads one_thread_cpu ! 1 = 0" "TotalThreads one_thread_cpu ! 3 = 1"
    by (simp_all add: one_thread_cpu_def nth_list_update)
  have "\<exists>st'. SetPriorityClass one_thread_state 0 0x17F = Inr (st', KERNEL_SOK) \<and> queues_wf (Cpus st') \<and> queues_linked st' \<and>
    ProcessList st' = (ProcessList one_thread_state)[0 := one_process\<lparr> PriorityClass := of_int (0x17F - PRIORITY_CLASS_MIN) \<rparr>] \<and>
    (\<forall>r \<in> set [(0, 0)]. waits_in_class st' (nat (0x17F - PRIORITY_CLASS_MIN)) r) \<and>
    (\<forall>c k. c < length (Cpus one_thread_state) \<longrightarrow> k < 7 \<longrightarrow>
      TotalThreads (Cpus st' ! c) ! k = TotalThreads (Cpus one_thread_state ! c) ! k)"
    by (rule SetPriorityClass_requeues [OF ok])
      (simp_all add: one_thread_simps priority_defs requeueable_def cpu)
  then show ?thesis using T by (auto simp: cpu priority_defs)
qed

end
