(* ===== verification/Process_Manager.thy ===== *)
theory Process_Manager
  imports Thread_Queues Paging Ipc
begin

text \<open>
  Creation of processes and threads (\<open>CPU/process.c\<close>), process context identifiers (\<open>CPU/pcid.c\<close>) and the thread start
  wrapper (\<open>loaders/subsystem.c\<close>).  The state joins the process manager with the parts its operations change: the
  page tables (\<open>Paging\<close>), the IPC clients and handle tables (\<open>Ipc\<close>, \<open>Handle_Table\<close>) and the identifier table.  The
  addresses of threads, processes and of the two assembly wrappers are an environment.
\<close>

section \<open>Constants and state\<close>

definition KERNELMODE_PROCESS :: u16 where "KERNELMODE_PROCESS = 0x10"
definition USERMODE_PROCESS :: u16 where "USERMODE_PROCESS = 0x20"
definition SUBSYSTEM_NATIVE :: u64 where "SUBSYSTEM_NATIVE = 1"
definition SUBSYSTEM_GUI :: u64 where "SUBSYSTEM_GUI = 2"
definition SUBSYSTEM_CONSOLE :: u64 where "SUBSYSTEM_CONSOLE = 3"
definition SUBSYSTEM_MAX :: u64 where "SUBSYSTEM_MAX = 3"
definition PNAME_CHARSZ_MAX :: nat where "PNAME_CHARSZ_MAX = 50"
definition MAX_PCID :: nat where "MAX_PCID = 0xFFF"
definition CS_KERNEL :: u64 where "CS_KERNEL = 0x08"
definition DS_KERNEL :: u64 where "DS_KERNEL = 0x10"
definition CS_USER :: u64 where "CS_USER = 0x28 OR 3"
definition DS_USER :: u64 where "DS_USER = 0x30 OR 3"
definition THREAD_DEFAULT_STACK_SIZE :: u64 where "THREAD_DEFAULT_STACK_SIZE = 0x10000"
definition USER_STACK_BASE :: u64 where "USER_STACK_BASE = 0xFF00000000"
definition GLOBAL_SUBSYSTEM_LOAD_ADDRESS :: u64 where "GLOBAL_SUBSYSTEM_LOAD_ADDRESS = 0x10000"
definition PM_UMAP :: u64 where "PM_UMAP = PM_MAP OR PM_USER"
definition THREAD_CREATE_SUSPEND :: u64 where "THREAD_CREATE_SUSPEND = 1"
definition THREAD_CREATE_SYSTEM_IDLE :: u64 where "THREAD_CREATE_SYSTEM_IDLE = 4"
definition THREAD_CREATE_MANUAL :: u64 where "THREAD_CREATE_MANUAL = 8"

record PCID_STATE =
  NumProcessContextIdentifiers :: u32
  ProcessContextIdSupported :: bool
  ProcessContextIdEnabled :: bool
  Tokens :: "bool list"

record SYSTEM =
  sys_pm :: PROCESSMGRTABLE
  sys_pcid :: PCID_STATE
  sys_mem :: "pt_mem \<times> u64 list"
  sys_ipc :: IPC_STATE

record proc_env =
  thread_addr :: "slot_ref \<Rightarrow> u64"
  process_addr :: "nat \<Rightarrow> u64"
  KernelThreadWrapper :: u64
  UserThreadWrapper :: u64
  NXBit :: bool
  ipc_environment :: ipc_env

definition upd_pm :: "(PROCESSMGRTABLE \<Rightarrow> PROCESSMGRTABLE) \<Rightarrow> SYSTEM \<Rightarrow> SYSTEM" where
  "upd_pm f sys = sys\<lparr> sys_pm := f (sys_pm sys) \<rparr>"

definition get_process :: "SYSTEM \<Rightarrow> nat \<Rightarrow> PROCESS outcome" where
  "get_process sys p = array_get (ProcessList (sys_pm sys)) p"

definition put_process :: "nat \<Rightarrow> PROCESS \<Rightarrow> SYSTEM \<Rightarrow> SYSTEM" where
  "put_process p proc = upd_pm (\<lambda>pm. set_process pm p proc)"

definition get_thread :: "SYSTEM \<Rightarrow> slot_ref \<Rightarrow> THREAD outcome" where
  "get_thread sys r = (case chain_get (ThreadList (sys_pm sys)) r of None \<Rightarrow> Inl OutOfBounds | Some th \<Rightarrow> Inr th)"

definition put_thread :: "slot_ref \<Rightarrow> THREAD \<Rightarrow> SYSTEM \<Rightarrow> SYSTEM" where
  "put_thread r th = upd_pm (\<lambda>pm. pm\<lparr> ThreadList := chain_set (ThreadList pm) r th \<rparr>)"

text \<open>\<open>AllocatePool\<close> on the process manager's pool; \<open>err\<close> is what happens when it returns null.\<close>

definition pool_take :: "fault \<Rightarrow> SYSTEM \<Rightarrow> (SYSTEM \<times> u64) outcome" where
  "pool_take err sys =
     (case AllocatePool (pm_pool (sys_pm sys)) of (a, pool) \<Rightarrow>
        if a = 0 then Inl err else Inr (upd_pm (\<lambda>pm. pm\<lparr> pm_pool := pool \<rparr>) sys, a))"

section \<open>Process context identifiers (pcid.c)\<close>

definition ProcessContextIdAllocate :: "PCID_STATE \<Rightarrow> u64 \<Rightarrow> PCID_STATE \<times> u64 \<times> bool" where
  "ProcessContextIdAllocate s PageMap =
     (if \<not> ProcessContextIdEnabled s then (s, PageMap, False)
      else if unat (NumProcessContextIdentifiers s) = MAX_PCID then (s\<lparr> ProcessContextIdEnabled := False \<rparr>, PageMap, False)
      else
        (case first_index (\<lambda>t. \<not> t) (take MAX_PCID (Tokens s)) of
           None \<Rightarrow> (s, PageMap, False)
         | Some i \<Rightarrow>
             (s\<lparr> Tokens := (Tokens s)[i := True], NumProcessContextIdentifiers := NumProcessContextIdentifiers s + 1 \<rparr>,
              PageMap OR of_nat (i + 1), True)))"

definition ProcessContextIdFree :: "PCID_STATE \<Rightarrow> u64 option \<Rightarrow> (PCID_STATE \<times> bool) outcome" where
  "ProcessContextIdFree s ProcessPageMap =
     (case ProcessPageMap of None \<Rightarrow> Inr (s, False)
      | Some PageMap \<Rightarrow>
        if \<not> ProcessContextIdSupported s \<or> PageMap AND 0xFFF = 0 then Inr (s, False) else
        andThen (array_set (Tokens s) (unat ((PageMap AND 0xFFF) - 1)) False) (\<lambda>ts.
        Inr (s\<lparr> Tokens := ts, ProcessContextIdEnabled := True,
               NumProcessContextIdentifiers := NumProcessContextIdentifiers s - 1 \<rparr>, True)))"

section \<open>Processes\<close>

text \<open>\<open>L"Unnamed Process."\<close>\<close>

definition UnkownProcessName :: "wchar list" where
  "UnkownProcessName = [85, 110, 110, 97, 109, 101, 100, 32, 80, 114, 111, 99, 101, 115, 115, 46, 0]"

definition subsystem_class :: "u64 \<Rightarrow> int" where
  "subsystem_class Sub =
     (if Sub = SUBSYSTEM_CONSOLE then PRIORITY_CLASS_NORMAL
      else if Sub = SUBSYSTEM_GUI then PRIORITY_CLASS_ABOVE_NORMAL
      else if Sub = SUBSYSTEM_NATIVE then PRIORITY_CLASS_LOW
      else PRIORITY_CLASS_BELOW_NORMAL)"

text \<open>The page map of a new process: its own with an identifier, or the kernel's.\<close>

definition SetProcess_pagemap :: "SYSTEM \<Rightarrow> PROCESS \<Rightarrow> PROCESS \<Rightarrow> (SYSTEM \<times> u64) outcome" where
  "SetProcess_pagemap sys kp proc =
     (if OperatingMode proc \<noteq> KERNELMODE_PROCESS then
        andThen (CreatePageMap (sys_mem sys)) (\<lambda>(mem, pm).
        case ProcessContextIdAllocate (sys_pcid sys) pm of (pcid, pm', _) \<Rightarrow>
          Inr (sys\<lparr> sys_mem := mem, sys_pcid := pcid \<rparr>, pm'))
      else Inr (sys, pr_PageMap kp))"

text \<open>Both handle tables; the process's own one is reached by IPC through the address of the process.\<close>

definition SetProcess_handles :: "proc_env \<Rightarrow> SYSTEM \<Rightarrow> nat \<Rightarrow> (SYSTEM \<times> HANDLE_TABLE) outcome" where
  "SetProcess_handles env sys p =
     andThen (CreateHandleTable 2 (ipc_pool (sys_ipc sys))) (\<lambda>(handles, pool1).
     andThen (CreateHandleTable 2 pool1) (\<lambda>(files, pool2).
     Inr (sys\<lparr> sys_ipc := (sys_ipc sys)\<lparr> ipc_pool := pool2,
                 ProcHandles := (ProcHandles (sys_ipc sys))(process_addr env p := handles) \<rparr> \<rparr>, files)))"

definition SetProcess ::
  "proc_env \<Rightarrow> SYSTEM \<Rightarrow> nat \<Rightarrow> nat option \<Rightarrow> u16 \<Rightarrow> wchar list \<Rightarrow> nat \<Rightarrow> u64 \<Rightarrow> SYSTEM outcome" where
  "SetProcess env sys p Parent Mode Name NameLength Sub =
     andThen (get_process sys p) (\<lambda>proc0.
     let proc = proc0\<lparr> pr_Set := True, ParentProcess := Parent, OperatingMode := Mode, ProcessId := of_nat p,
                      Subsystem := ucast Sub, pr_FreeMemoryRoot := True \<rparr>;
         sys0 = put_process p proc sys
     in case kproc (sys_pm sys) of
          None \<Rightarrow> Inr sys0
        | Some kp \<Rightarrow>
            andThen (pool_take NullDeref sys0) (\<lambda>(sys1, _).
            andThen (memcpy16 (replicate (NameLength + 1) 0) Name NameLength) (\<lambda>buf.
            andThen (array_set buf NameLength 0) (\<lambda>NameCpy.
            andThen (get_process sys1 kp) (\<lambda>kprocess.
            andThen (SetProcess_pagemap sys1 kprocess proc) (\<lambda>(sys2, PageMap).
            andThen (SetProcess_handles env sys2 p) (\<lambda>(sys3, files).
            let sys4 = put_process p (proc\<lparr> ProcessName := Some NameCpy, pr_PageMap := PageMap, FileHandles := Some files \<rparr>) sys3
            in andThen (SetPriorityClass (sys_pm sys4) p (subsystem_class Sub)) (\<lambda>(pm, _).
               Inr (sys4\<lparr> sys_pm := pm \<rparr>)))))))))"

definition KeCreateProcess ::
  "proc_env \<Rightarrow> SYSTEM \<Rightarrow> nat option \<Rightarrow> wchar list option \<Rightarrow> u64 \<Rightarrow> u16 \<Rightarrow> (SYSTEM \<times> nat option) outcome" where
  "KeCreateProcess env sys Parent NewName Sub Mode =
     (if Mode = 0 \<or> Sub > SUBSYSTEM_MAX \<or> (Mode \<noteq> KERNELMODE_PROCESS \<and> Mode \<noteq> USERMODE_PROCESS) then Inr (sys, None) else
      let Name = (case NewName of None \<Rightarrow> UnkownProcessName | Some n \<Rightarrow> n)
      in andThen (wstrlen Name) (\<lambda>n.
         let len = unat (of_nat n :: u16)
         in if len = 0 \<or> len > PNAME_CHARSZ_MAX then Inr (sys, None) else
            case first_index (\<lambda>pr. \<not> pr_Set pr) (take MAX_PROCESSES (ProcessList (sys_pm sys))) of
              None \<Rightarrow> Inr (sys, None)
            | Some i \<Rightarrow> andThen (SetProcess env sys i Parent Mode Name len Sub) (\<lambda>sys'. Inr (sys', Some i))))"

definition GetProcessById :: "SYSTEM \<Rightarrow> u64 \<Rightarrow> nat option outcome" where
  "GetProcessById sys pid =
     (if pid \<ge> 0x400 then Inr None else
      andThen (get_process sys (unat pid)) (\<lambda>proc. Inr (if pr_Set proc then Some (unat pid) else None)))"

text \<open>
  \<open>SetProcessName\<close>: the buffer has \<open>len + 2\<close> bytes, that is \<open>(len + 2) div 2\<close> whole characters, and receives
  \<open>len + 1\<close> characters.  Releasing the old name has no effect in the model.
\<close>

definition SetProcessName :: "SYSTEM \<Rightarrow> nat option \<Rightarrow> wchar list option \<Rightarrow> (SYSTEM \<times> bool) outcome" where
  "SetProcessName sys Process NewName =
     (case Process of None \<Rightarrow> Inr (sys, False)
      | Some p \<Rightarrow>
        (case NewName of None \<Rightarrow> Inr (sys, False)
         | Some Name \<Rightarrow>
             andThen (wstrlen Name) (\<lambda>n.
             let len = unat (of_nat n :: u16)
             in if len = 0 \<or> len > PNAME_CHARSZ_MAX then Inr (sys, False) else
                andThen (pool_take SOD sys) (\<lambda>(sys1, _).
                andThen (memcpy16 (replicate ((len + 2) div 2) 0) Name len) (\<lambda>buf.
                andThen (array_set buf len 0) (\<lambda>copy.
                andThen (get_process sys1 p) (\<lambda>proc.
                Inr (put_process p (proc\<lparr> ProcessName := Some copy \<rparr>) sys1, True))))))))"

section \<open>Threads\<close>

definition KeSuspendThread :: "SYSTEM \<Rightarrow> slot_ref option \<Rightarrow> (SYSTEM \<times> bool) outcome" where
  "KeSuspendThread sys Thread =
     (case Thread of None \<Rightarrow> Inr (sys, False)
      | Some r \<Rightarrow> andThen (get_thread sys r) (\<lambda>th.
          Inr (put_thread r (th\<lparr> th_State := th_State th AND NOT THS_ALIVE \<rparr>) sys, True)))"

definition KeResumeThread :: "SYSTEM \<Rightarrow> slot_ref option \<Rightarrow> (SYSTEM \<times> bool) outcome" where
  "KeResumeThread sys Thread =
     (case Thread of None \<Rightarrow> Inr (sys, False)
      | Some r \<Rightarrow> andThen (get_thread sys r) (\<lambda>th.
          Inr (put_thread r (th\<lparr> th_State := th_State th OR THS_ALIVE \<rparr>) sys, True)))"

definition SetThreadProcessor :: "SYSTEM \<Rightarrow> slot_ref option \<Rightarrow> u32 \<Rightarrow> (SYSTEM \<times> bool) outcome" where
  "SetThreadProcessor sys Thread Cpu =
     (case Thread of None \<Rightarrow> Inr (sys, False)
      | Some r \<Rightarrow>
        if ucast Cpu \<ge> NumProcessors (sys_pm sys) then Inr (sys, False) else
        andThen (array_get (Cpus (sys_pm sys)) (unat Cpu)) (\<lambda>cpu.
        if \<not> cpu_Initialized cpu then Inr (sys, False) else
        andThen (get_thread sys r) (\<lambda>th. Inr (put_thread r (th\<lparr> th_ProcessorId := Cpu \<rparr>) sys, True))))"

definition segment_registers :: "u16 \<Rightarrow> CPU_REGISTERS \<Rightarrow> CPU_REGISTERS" where
  "segment_registers Mode regs =
     (if Mode = KERNELMODE_PROCESS then
        regs\<lparr> r_cs := CS_KERNEL, r_ds := ucast DS_KERNEL, r_es := DS_KERNEL, r_gs := ucast DS_KERNEL, r_fs := ucast DS_KERNEL \<rparr>
      else if Mode = USERMODE_PROCESS then
        regs\<lparr> r_cs := CS_USER, r_ds := ucast DS_USER, r_es := DS_USER, r_gs := ucast DS_USER, r_fs := ucast DS_USER \<rparr>
      else regs)"

text \<open>
  The IPC client of a new thread is created for that thread; its environment sees the process the thread was just given.
\<close>

definition SetupThreadRegisters :: "proc_env \<Rightarrow> SYSTEM \<Rightarrow> slot_ref \<Rightarrow> SYSTEM outcome" where
  "SetupThreadRegisters env sys r =
     andThen (get_thread sys r) (\<lambda>th.
     case th_Process th of None \<Rightarrow> Inl NullDeref
     | Some p \<Rightarrow>
       andThen (get_process sys p) (\<lambda>proc.
       andThen (pool_take SOD sys) (\<lambda>(sys1, xsave).
       let ienv = (ipc_environment env)\<lparr> ThreadProcess := (ThreadProcess (ipc_environment env))(thread_addr env r := process_addr env p) \<rparr>;
           regs = (segment_registers (OperatingMode proc) (Registers th))\<lparr> r_cr3 := pr_PageMap proc, r_Xsave := xsave \<rparr>
       in andThen (IpcClientCreate ienv (sys_ipc sys1) (thread_addr env r) 0) (\<lambda>(ipc, client).
          Inr (put_process p (proc\<lparr> StartupThread := (if NumThreads proc = 0 then Some r else StartupThread proc),
                                    NumThreads := NumThreads proc + 1 \<rparr>)
               (put_thread r (th\<lparr> Registers := regs, th_Client := Some client \<rparr>) (sys1\<lparr> sys_ipc := ipc \<rparr>)))))))"

definition thread_free :: "THREAD \<Rightarrow> bool" where "thread_free th \<longleftrightarrow> th_State th = 0"

definition AllocateThread :: "proc_env \<Rightarrow> SYSTEM \<Rightarrow> nat \<Rightarrow> (SYSTEM \<times> slot_ref) outcome" where
  "AllocateThread env sys p =
     andThen (if chain_find thread_free (ThreadList (sys_pm sys)) = None then pool_take SOD sys else Inr (sys, 0))
       (\<lambda>(sys1, _).
     case chain_walk thread_free THREAD_zero PENTRIES_PER_LIST (ThreadList (sys_pm sys1)) of
       (c, r) \<Rightarrow>
         let th = THREAD_zero\<lparr> th_State := THS_PRESENT OR THS_RUNNABLE, ThreadId := of_nat (slot_id PENTRIES_PER_LIST r),
                              th_Process := Some p \<rparr>
         in andThen (SetupThreadRegisters env (put_thread r th (upd_pm (\<lambda>pm. pm\<lparr> ThreadList := c \<rparr>) sys1)) r)
              (\<lambda>sys2. Inr (sys2, r)))"

text \<open>The stack size is rounded to pages twice, before and after the thread is allocated.\<close>

definition stack_size :: "u64 \<Rightarrow> u64" where
  "stack_size StackSize =
     (let s1 = (if StackSize = 0 then THREAD_DEFAULT_STACK_SIZE else StackSize);
          s2 = (if s1 AND 0xFFF \<noteq> 0 then (s1 + 0x1000) AND NOT 0xFFF else s1);
          s3 = (if s2 = 0 then THREAD_DEFAULT_STACK_SIZE else s2)
      in if s3 mod 0x1000 \<noteq> 0 then s3 + (0x1000 - s3 mod 0x1000) else s3)"

definition ThreadWrapperInit :: "proc_env \<Rightarrow> SYSTEM \<Rightarrow> slot_ref \<Rightarrow> u64 \<Rightarrow> SYSTEM outcome" where
  "ThreadWrapperInit env sys r EntryPoint =
     andThen (get_thread sys r) (\<lambda>th.
     if th_State th = 0 then Inr sys else
     case th_Process th of None \<Rightarrow> Inl NullDeref
     | Some p \<Rightarrow>
       andThen (get_process sys p) (\<lambda>proc.
       if OperatingMode proc = KERNELMODE_PROCESS then
         Inr (put_thread r (th\<lparr> Registers := (Registers th)\<lparr> r_rax := EntryPoint, r_rip := KernelThreadWrapper env \<rparr> \<rparr>) sys)
       else
         andThen (MapPhysicalPages (NXBit env) (sys_mem sys) (pr_PageMap proc) GLOBAL_SUBSYSTEM_LOAD_ADDRESS
                    (UserThreadWrapper env) 1 (PM_PRESENT OR PM_USER)) (\<lambda>mem.
         Inr (put_thread r (th\<lparr> Registers := (Registers th)\<lparr> r_rax := EntryPoint, r_rip := GLOBAL_SUBSYSTEM_LOAD_ADDRESS \<rparr> \<rparr>)
                (sys\<lparr> sys_mem := mem \<rparr>)))))"

text \<open>The stack of a new thread; \<open>S\<close> is the rounded size.\<close>

definition setup_stack :: "proc_env \<Rightarrow> SYSTEM \<Rightarrow> slot_ref \<Rightarrow> nat \<Rightarrow> u64 \<Rightarrow> SYSTEM outcome" where
  "setup_stack env sys r p S =
     andThen (get_process sys p) (\<lambda>proc.
     andThen (get_thread sys r) (\<lambda>th.
     andThen (pool_take SOD sys) (\<lambda>(sys1, stack).
     if OperatingMode proc \<noteq> KERNELMODE_PROCESS then
       (let rsp = USER_STACK_BASE - pr_StackSize proc
        in andThen (MapPhysicalPages (NXBit env) (sys_mem sys1) (pr_PageMap proc) (rsp - S) stack (unat (drop_bit 12 S)) PM_UMAP)
             (\<lambda>mem. Inr (put_thread r (th\<lparr> th_Stack := stack, VirtualStackPtr := rsp - S,
                Registers := (Registers th)\<lparr> r_rsp := rsp, r_rbp := rsp \<rparr> \<rparr>) (sys1\<lparr> sys_mem := mem \<rparr>))))
     else
       Inr (put_thread r (th\<lparr> th_Stack := stack,
              Registers := (Registers th)\<lparr> r_rsp := stack + S - 0x100, r_rbp := stack + S - 0x100 \<rparr> \<rparr>) sys1))))"

text \<open>Linking the thread to the first empty entry of the process's thread list.\<close>

definition link_thread :: "SYSTEM \<Rightarrow> slot_ref \<Rightarrow> nat \<Rightarrow> SYSTEM outcome" where
  "link_thread sys r p =
     andThen (get_process sys p) (\<lambda>proc.
     andThen (if chain_find (\<lambda>e. e = None) (pr_Threads proc) = None then pool_take NullDeref sys else Inr (sys, 0)) (\<lambda>(sys1, _).
     case chain_walk (\<lambda>e. e = None) None THREADS_PER_PROCESS_THREAD_LIST (pr_Threads proc) of
       (c, s) \<Rightarrow> Inr (put_process p (proc\<lparr> pr_Threads := chain_set c s (Some r) \<rparr>) sys1)))"

definition creation_state :: "u64 \<Rightarrow> u64 \<Rightarrow> u64" where
  "creation_state Flags State =
     (let s1 = (if Flags AND THREAD_CREATE_SYSTEM_IDLE \<noteq> 0 then State OR THS_IDLE else State);
          s2 = (if Flags AND THREAD_CREATE_MANUAL \<noteq> 0 then s1 OR THS_MANUAL else s1)
      in if Flags AND THREAD_CREATE_SUSPEND = 0 then s2 OR THS_ALIVE else s2)"

text \<open>Idle threads are spread over the processors in turn; every other thread stays on processor 0.\<close>

definition choose_processor :: "u64 \<Rightarrow> slot_ref \<Rightarrow> SYSTEM \<Rightarrow> SYSTEM outcome" where
  "choose_processor Flags r sys =
     (if Flags AND THREAD_CREATE_SYSTEM_IDLE \<noteq> 0 then
        andThen (get_thread sys r) (\<lambda>th.
        let n = NextThreadProcessor (sys_pm sys)
        in Inr (upd_pm (\<lambda>pm. pm\<lparr> NextThreadProcessor := (if n + 1 \<ge> NumProcessors pm then 0 else n + 1) \<rparr>)
                 (put_thread r (th\<lparr> th_ProcessorId := ucast n \<rparr>) sys)))
      else Inr sys)"

text \<open>The second half of \<open>KeCreateThread\<close>: stack, start wrapper, link to the process, state, release of the process.\<close>

definition finish_thread :: "proc_env \<Rightarrow> SYSTEM \<Rightarrow> slot_ref \<Rightarrow> nat \<Rightarrow> u64 \<Rightarrow> u64 \<Rightarrow> u64 \<Rightarrow> SYSTEM outcome" where
  "finish_thread env sys r p S StartAddress Flags =
     andThen (setup_stack env sys r p S) (\<lambda>sys3.
     andThen (get_thread sys3 r) (\<lambda>th3.
     andThen (get_process sys3 p) (\<lambda>proc3.
     let sys4 = put_process p (proc3\<lparr> pr_StackSize := pr_StackSize proc3 + S \<rparr>)
                  (put_thread r (th3\<lparr> Registers := (Registers th3)\<lparr> r_rflags := 0x200 \<rparr> \<rparr>) sys3)
     in andThen (ThreadWrapperInit env sys4 r StartAddress) (\<lambda>sys5.
        andThen (link_thread sys5 r p) (\<lambda>sys6.
        andThen (get_thread sys6 r) (\<lambda>th6.
        andThen (get_process sys6 p) (\<lambda>proc6.
        Inr (put_process p (proc6\<lparr> ControlMutex0 := BitRelease (ControlMutex0 proc6) PROCESS_MUTEX0_CREATE_THREAD \<rparr>)
              (put_thread r (th6\<lparr> th_State := creation_state Flags (th_State th6), SchedulingQuantum := 12, TimeBurst := 1 \<rparr>)
                 sys6)))))))))"

definition KeCreateThread ::
  "proc_env \<Rightarrow> SYSTEM \<Rightarrow> nat option \<Rightarrow> u64 \<Rightarrow> u64 \<Rightarrow> u64 \<Rightarrow> (SYSTEM \<times> slot_ref option) outcome" where
  "KeCreateThread env sys Process StackSize StartAddress Flags =
     (case Process of None \<Rightarrow> Inr (sys, None)
      | Some p \<Rightarrow>
        andThen (get_process sys p) (\<lambda>proc.
        if \<not> pr_Set proc then Inr (sys, None) else
        andThen (SpinLockSyncBitTestAndSet (ControlMutex0 proc) PROCESS_MUTEX0_CREATE_THREAD) (\<lambda>m.
        andThen (AllocateThread env (put_process p (proc\<lparr> ControlMutex0 := m \<rparr>) sys) p) (\<lambda>(sys1, r).
        andThen (choose_processor Flags r sys1) (\<lambda>sys2.
        andThen (finish_thread env sys2 r p (stack_size StackSize) StartAddress Flags) (\<lambda>sys3.
        Inr (sys3, Some r)))))))"

section \<open>Current thread, termination, I/O waits\<close>

text \<open>\<open>lapic\<close> is the id read from the local APIC.\<close>

definition KeGetCurrentThread :: "SYSTEM \<Rightarrow> nat \<Rightarrow> slot_ref option outcome" where
  "KeGetCurrentThread sys lapic =
     (if \<not> SystemInitialized (sys_pm sys) then
        (case kproc (sys_pm sys) of None \<Rightarrow> Inl NullDeref
         | Some kp \<Rightarrow> andThen (get_process sys kp) (\<lambda>proc. Inr (StartupThread proc)))
      else andThen (array_get (Cpus (sys_pm sys)) lapic) (\<lambda>cpu. Inr (cpu_CurrentThread cpu)))"

definition KeGetCurrentProcess :: "SYSTEM \<Rightarrow> nat \<Rightarrow> nat option outcome" where
  "KeGetCurrentProcess sys lapic =
     (if \<not> SystemInitialized (sys_pm sys) then Inr (kproc (sys_pm sys))
      else andThen (KeGetCurrentThread sys lapic) (\<lambda>t.
           case t of None \<Rightarrow> Inl NullDeref | Some r \<Rightarrow> andThen (get_thread sys r) (\<lambda>th. Inr (th_Process th))))"

definition KeGetCurrentProcessId :: "SYSTEM \<Rightarrow> nat \<Rightarrow> u64 outcome" where
  "KeGetCurrentProcessId sys lapic =
     andThen (KeGetCurrentProcess sys lapic) (\<lambda>p.
     case p of None \<Rightarrow> Inl NullDeref | Some q \<Rightarrow> andThen (get_process sys q) (\<lambda>proc. Inr (ProcessId proc)))"

definition KeGetCurrentThreadId :: "SYSTEM \<Rightarrow> nat \<Rightarrow> u64 outcome" where
  "KeGetCurrentThreadId sys lapic =
     andThen (KeGetCurrentThread sys lapic) (\<lambda>t.
     case t of None \<Rightarrow> Inl NullDeref | Some r \<Rightarrow> andThen (get_thread sys r) (\<lambda>th. Inr (ThreadId th)))"

definition KeGetProcessorIdleThread :: "SYSTEM \<Rightarrow> u64 \<Rightarrow> slot_ref option outcome" where
  "KeGetProcessorIdleThread sys Cpu =
     (if Cpu \<ge> NumProcessors (sys_pm sys) then Inr None else
      andThen (array_get (Cpus (sys_pm sys)) (unat Cpu)) (\<lambda>cpu.
      Inr (if cpu_Initialized cpu then SystemIdleThread cpu else None)))"

definition TerminateProcess :: "nat option \<Rightarrow> int \<Rightarrow> int" where "TerminateProcess process ExitCode = 0"
definition TerminateThread :: "slot_ref option \<Rightarrow> int \<Rightarrow> int" where
  "TerminateThread thread ExitCode = (if thread = None then -1 else 0)"

definition TerminateCurrentProcess :: "SYSTEM \<Rightarrow> nat \<Rightarrow> int \<Rightarrow> int outcome" where
  "TerminateCurrentProcess sys lapic exit_code =
     andThen (KeGetCurrentProcess sys lapic) (\<lambda>p. Inr (TerminateProcess p exit_code))"
definition TerminateCurrentThread :: "SYSTEM \<Rightarrow> nat \<Rightarrow> int \<Rightarrow> int outcome" where
  "TerminateCurrentThread sys lapic exit_code =
     andThen (KeGetCurrentThread sys lapic) (\<lambda>t. Inr (TerminateThread t exit_code))"

definition TaskSchedulerEnable :: "SYSTEM \<Rightarrow> SYSTEM" where
  "TaskSchedulerEnable = upd_pm (\<lambda>pm. pm\<lparr> SchedulerEnable := True \<rparr>)"
definition TaskSchedulerDisable :: "SYSTEM \<Rightarrow> SYSTEM" where
  "TaskSchedulerDisable = upd_pm (\<lambda>pm. pm\<lparr> SchedulerEnable := False \<rparr>)"

text \<open>\<open>IoWait\<close> up to the software interrupt that enters the scheduler.\<close>

definition IoWait :: "SYSTEM \<Rightarrow> nat \<Rightarrow> (SYSTEM \<times> bool) outcome" where
  "IoWait sys lapic =
     andThen (KeGetCurrentThread sys lapic) (\<lambda>t.
     case t of None \<Rightarrow> Inl NullDeref
     | Some r \<Rightarrow> andThen (get_thread sys r) (\<lambda>th.
         Inr (put_thread r (th\<lparr> th_State := th_State th OR THS_IOWAIT \<rparr>) sys, True)))"

definition IoFinish :: "SYSTEM \<Rightarrow> slot_ref option \<Rightarrow> (SYSTEM \<times> bool) outcome" where
  "IoFinish sys Thread =
     (case Thread of None \<Rightarrow> Inr (sys, False)
      | Some r \<Rightarrow> andThen (get_thread sys r) (\<lambda>th.
          Inr (put_thread r (th\<lparr> th_State := th_State th OR THS_IOPIN \<rparr>) sys, True)))"

section \<open>Frame lemmas\<close>

interpretation threads: slot_table thread_free THREAD_zero PENTRIES_PER_LIST
  by unfold_locales (simp_all add: thread_free_def THREAD_zero_def PENTRIES_PER_LIST_def)

interpretation thread_links: slot_table "\<lambda>e. e = None" None THREADS_PER_PROCESS_THREAD_LIST
  by unfold_locales (simp_all add: THREADS_PER_PROCESS_THREAD_LIST_def)

lemma process_simps [simp]:
  "p < length (ProcessList (sys_pm sys)) \<Longrightarrow> get_process sys p = Inr (ProcessList (sys_pm sys) ! p)"
  "ProcessList (sys_pm (put_process p proc sys)) = (ProcessList (sys_pm sys))[p := proc]"
  "ThreadList (sys_pm (put_process p proc sys)) = ThreadList (sys_pm sys)"
  "pm_pool (sys_pm (put_process p proc sys)) = pm_pool (sys_pm sys)"
  "NextThreadProcessor (sys_pm (put_process p proc sys)) = NextThreadProcessor (sys_pm sys)"
  "sys_mem (put_process p proc sys) = sys_mem sys" "sys_ipc (put_process p proc sys) = sys_ipc sys"
  by (simp_all add: get_process_def put_process_def upd_pm_def set_process_def)

lemma thread_simps [simp]:
  "chain_get (ThreadList (sys_pm sys)) r = Some th \<Longrightarrow> get_thread sys r = Inr th"
  "ThreadList (sys_pm (put_thread r t sys)) = chain_set (ThreadList (sys_pm sys)) r t"
  "ProcessList (sys_pm (put_thread r t sys)) = ProcessList (sys_pm sys)"
  "pm_pool (sys_pm (put_thread r t sys)) = pm_pool (sys_pm sys)"
  "NextThreadProcessor (sys_pm (put_thread r t sys)) = NextThreadProcessor (sys_pm sys)"
  "sys_mem (put_thread r t sys) = sys_mem sys" "sys_ipc (put_thread r t sys) = sys_ipc sys"
  by (simp_all add: get_thread_def put_thread_def upd_pm_def)

lemma chain_set_twice [simp]: "chain_set (chain_set c r x) r y = chain_set c r y"
  by (cases "fst r < length c") (simp_all add: chain_set_def list_update_beyond)

text \<open>The allocator can serve \<open>n\<close> more requests.\<close>

definition pool_serves :: "SYSTEM \<Rightarrow> nat \<Rightarrow> bool" where
  "pool_serves sys n \<longleftrightarrow> n \<le> length (pm_pool (sys_pm sys)) \<and> 0 \<notin> set (pm_pool (sys_pm sys))"

lemma pool_take_ok:
  assumes "pool_serves sys (Suc n)"
  shows "\<exists>sys' a. pool_take err sys = Inr (sys', a) \<and> a = hd (pm_pool (sys_pm sys)) \<and> a \<noteq> 0 \<and> pool_serves sys' n \<and>
    ThreadList (sys_pm sys') = ThreadList (sys_pm sys) \<and> ProcessList (sys_pm sys') = ProcessList (sys_pm sys) \<and>
    sys_mem sys' = sys_mem sys \<and> sys_ipc sys' = sys_ipc sys"
  using assms by (cases "pm_pool (sys_pm sys)") (auto simp: pool_serves_def pool_take_def upd_pm_def)

lemma pool_serves_simps [simp]:
  "pool_serves (put_process p proc sys) n = pool_serves sys n" "pool_serves (put_thread r t sys) n = pool_serves sys n"
  "pool_serves (sys\<lparr> sys_ipc := i \<rparr>) n = pool_serves sys n" "pool_serves (sys\<lparr> sys_mem := m \<rparr>) n = pool_serves sys n"
  by (simp_all add: pool_serves_def)

text \<open>The IPC component can give the thread in slot \<open>r\<close> of process \<open>p\<close> its client.\<close>

definition ipc_serves :: "proc_env \<Rightarrow> SYSTEM \<Rightarrow> nat \<Rightarrow> bool" where
  "ipc_serves env sys p \<longleftrightarrow> QueuePool (ipc_environment env) \<and> ht_wf (ProcHandles (sys_ipc sys) (process_addr env p)) \<and>
     (\<forall>r. thread_addr env r \<noteq> 0 \<and> client_addr (ipc_environment env) r \<noteq> 0) \<and>
     (\<exists>nx c pool. ipc_pool (sys_ipc sys) = nx # c # pool \<and> nx \<noteq> 0 \<and> c \<noteq> 0)"

lemma ipc_client_created:
  assumes "ipc_serves env sys p" and ienv: "ienv = (ipc_environment env)\<lparr> ThreadProcess := f(thread_addr env r := process_addr env p) \<rparr>"
  shows "\<exists>ipc client. IpcClientCreate ienv (sys_ipc sys) (thread_addr env r) 0 = Inr (ipc, client)"
proof -
  obtain st1 s cl where st1: "AllocateClient True (sys_ipc sys) = Inr (st1, s)" "chain_get (Clients st1) s = Some cl"
    "ProcHandles st1 = ProcHandles (sys_ipc sys)" "ipc_pool st1 = ipc_pool (sys_ipc sys)"
    using AllocateClient_ok by blast
  obtain nx c pool where p: "ipc_pool (sys_ipc sys) = nx # c # pool" "nx \<noteq> 0" "c \<noteq> 0"
    "ht_wf (ProcHandles (sys_ipc sys) (process_addr env p))" "client_addr (ipc_environment env) s \<noteq> 0"
    using assms(1) by (auto simp: ipc_serves_def)
  obtain tbl' pool' h where o: "OpenHandle 2 (ProcHandles (sys_ipc sys) (process_addr env p), nx # c # pool) (thread_addr env r) 0
      HANDLE_CLIENT (client_addr (ipc_environment env) s) 0 = Inr ((tbl', pool'), Some h)"
    using OpenHandle_returns [OF p(4,5,2,3), of 0 pool "thread_addr env r" 0 HANDLE_CLIENT 0] unfolding numeral_2_eq_2 by blast
  show ?thesis
    using assms(1) st1 o p(1) by (simp add: IpcClientCreate_def ienv ipc_serves_def Let_def del: OpenHandle.simps)
qed

section \<open>Creating a thread\<close>

text \<open>
  A thread under construction: slot \<open>r\<close> of the chain \<open>c\<close> holds \<open>th\<close>, process \<open>p\<close> is \<open>proc\<close>, the allocator will serve \<open>pool\<close> and
  the page tables are \<open>mem\<close>; everything else is as in \<open>base\<close>.  Each operation of the construction is an equation on these.
\<close>

definition built :: "SYSTEM \<Rightarrow> THREAD chain \<Rightarrow> slot_ref \<Rightarrow> nat \<Rightarrow> THREAD \<Rightarrow> PROCESS \<Rightarrow> pool \<Rightarrow> pt_mem \<times> u64 list \<Rightarrow> SYSTEM" where
  "built base c r p th proc pool mem =
     base\<lparr> sys_pm := (sys_pm base)\<lparr> ThreadList := chain_set c r th, ProcessList := (ProcessList (sys_pm base))[p := proc],
                                   pm_pool := pool \<rparr>, sys_mem := mem \<rparr>"

lemma built_simps [simp]:
  "put_thread r th' (built base c r p th proc pool mem) = built base c r p th' proc pool mem"
  "put_process p proc' (built base c r p th proc pool mem) = built base c r p th proc' pool mem"
  "built base c r p th proc pool mem\<lparr> sys_mem := mem' \<rparr> = built base c r p th proc pool mem'"
  "sys_mem (built base c r p th proc pool mem) = mem" "sys_ipc (built base c r p th proc pool mem) = sys_ipc base"
  "a \<noteq> 0 \<Longrightarrow> pool_take err (built base c r p th proc (a # pool) mem) = Inr (built base c r p th proc pool mem, a)"
  "NextThreadProcessor (sys_pm (built base c r p th proc pool mem)) = NextThreadProcessor (sys_pm base)"
  by (simp_all add: built_def put_thread_def put_process_def upd_pm_def set_process_def pool_take_def)

lemma built_get:
  assumes "\<exists>y. chain_get c r = Some y"
  shows "get_thread (built base c r p th proc pool mem) r = Inr th"
    "p < length (ProcessList (sys_pm base)) \<Longrightarrow> get_process (built base c r p th proc pool mem) p = Inr proc"
  using assms by (auto simp: built_def get_thread_def get_process_def)

text \<open>The environment in which the client of the new thread is created.\<close>

definition thread_ipc_env :: "proc_env \<Rightarrow> slot_ref \<Rightarrow> nat \<Rightarrow> ipc_env" where
  "thread_ipc_env env r p = (ipc_environment env)\<lparr> ThreadProcess :=
     (ThreadProcess (ipc_environment env))(thread_addr env r := process_addr env p) \<rparr>"

lemma SetupThreadRegisters_built:
  assumes c: "\<exists>y. chain_get c r = Some y" and p: "p < length (ProcessList (sys_pm base))" "th_Process th = Some p" and a: "a \<noteq> 0"
    and i: "IpcClientCreate (thread_ipc_env env r p) (sys_ipc base) (thread_addr env r) 0 = Inr (ipc, client)"
  shows "SetupThreadRegisters env (built base c r p th proc (a # pool) mem) r =
    Inr (built (base\<lparr> sys_ipc := ipc \<rparr>) c r p
      (th\<lparr> Registers := (segment_registers (OperatingMode proc) (Registers th))\<lparr> r_cr3 := pr_PageMap proc, r_Xsave := a \<rparr>,
           th_Client := Some client \<rparr>)
      (proc\<lparr> StartupThread := (if NumThreads proc = 0 then Some r else StartupThread proc), NumThreads := NumThreads proc + 1 \<rparr>)
      pool mem)"
proof -
  have "built base c r p th proc pool mem\<lparr> sys_ipc := ipc \<rparr> = built (base\<lparr> sys_ipc := ipc \<rparr>) c r p th proc pool mem"
    by (simp add: built_def)
  then show ?thesis
    using i by (simp add: SetupThreadRegisters_def built_get [OF c] p a Let_def thread_ipc_env_def)
qed

text \<open>The thread as \<open>AllocateThread\<close> leaves it, apart from its registers and client.\<close>

definition new_thread :: "slot_ref \<Rightarrow> nat \<Rightarrow> THREAD" where
  "new_thread r p = THREAD_zero\<lparr> th_State := THS_PRESENT OR THS_RUNNABLE, ThreadId := of_nat (slot_id PENTRIES_PER_LIST r),
                              th_Process := Some p \<rparr>"

text \<open>How many blocks of the allocator go to a chain: one when it is full.\<close>

definition blocks :: "('a \<Rightarrow> bool) \<Rightarrow> 'a chain \<Rightarrow> nat" where
  "blocks free c = (if chain_find free c = None then 1 else 0)"

lemma AllocateThread_built:
  assumes w: "chain_walk thread_free THREAD_zero PENTRIES_PER_LIST (ThreadList (sys_pm sys)) = (c, r)"
    and p: "p < length (ProcessList (sys_pm sys))"
    and pool: "drop (blocks thread_free (ThreadList (sys_pm sys))) (pm_pool (sys_pm sys)) = a # pool" "a \<noteq> 0"
      "0 \<notin> set (pm_pool (sys_pm sys))"
    and i: "IpcClientCreate (thread_ipc_env env r p) (sys_ipc sys) (thread_addr env r) 0 = Inr (ipc, client)"
  shows "AllocateThread env (put_process p proc sys) p =
    Inr (built (sys\<lparr> sys_ipc := ipc \<rparr>) c r p
      ((new_thread r p)\<lparr> Registers := (segment_registers (OperatingMode proc) REGISTERS_zero)\<lparr> r_cr3 := pr_PageMap proc, r_Xsave := a \<rparr>,
           th_Client := Some client \<rparr>)
      (proc\<lparr> StartupThread := (if NumThreads proc = 0 then Some r else StartupThread proc), NumThreads := NumThreads proc + 1 \<rparr>)
      pool (sys_mem sys), r)"
proof -
  have c: "\<exists>y. chain_get c r = Some y" using threads.walk_slot_free [OF w] by blast
  have t: "th_Process (new_thread r p) = Some p" "Registers (new_thread r p) = REGISTERS_zero"
    by (simp_all add: new_thread_def THREAD_zero_def)
  let ?b = "chain_find thread_free (ThreadList (sys_pm sys)) = None"
  let ?sys = "put_process p proc sys"
  obtain sys1 x where s1: "(if ?b then pool_take SOD ?sys else Inr (?sys, 0)) = Inr (sys1, x)"
    "sys1 = upd_pm (\<lambda>pm. pm\<lparr> pm_pool := a # pool \<rparr>) ?sys"
  proof (cases ?b)
    case True
    then obtain x where "pm_pool (sys_pm sys) = x # a # pool" "x \<noteq> 0"
      using pool by (cases "pm_pool (sys_pm sys)") (auto simp: blocks_def)
    then show ?thesis using True that by (simp add: pool_take_def upd_pm_def)
  next
    case False
    then show ?thesis using pool(1) that by (auto simp: blocks_def upd_pm_def put_process_def set_process_def)
  qed
  have "put_thread r (new_thread r p) (upd_pm (\<lambda>pm. pm\<lparr> ThreadList := c \<rparr>) sys1) =
      built sys c r p (new_thread r p) proc (a # pool) (sys_mem sys)"
    unfolding s1(2) by (simp add: built_def put_thread_def put_process_def upd_pm_def set_process_def)
  moreover have "ThreadList (sys_pm sys1) = ThreadList (sys_pm sys)" unfolding s1(2) by (simp add: upd_pm_def put_process_def set_process_def)
  ultimately show ?thesis
    using s1(1) SetupThreadRegisters_built [where mem = "sys_mem sys" and pool = pool, OF c p t(1) pool(2) i] w
    by (simp add: AllocateThread_def new_thread_def [symmetric] t(2))
qed

text \<open>What the idle flag does to the thread and to the next processor.\<close>

definition idle_base :: "u64 \<Rightarrow> SYSTEM \<Rightarrow> SYSTEM" where
  "idle_base Flags sys = (if Flags AND THREAD_CREATE_SYSTEM_IDLE = 0 then sys else
     upd_pm (\<lambda>pm. pm\<lparr> NextThreadProcessor :=
       (if NextThreadProcessor pm + 1 \<ge> NumProcessors pm then 0 else NextThreadProcessor pm + 1) \<rparr>) sys)"

definition idle_processor :: "u64 \<Rightarrow> SYSTEM \<Rightarrow> u32" where
  "idle_processor Flags sys = (if Flags AND THREAD_CREATE_SYSTEM_IDLE = 0 then 0 else ucast (NextThreadProcessor (sys_pm sys)))"

lemma choose_processor_built:
  assumes "\<exists>y. chain_get c r = Some y" "th_ProcessorId th = 0"
  shows "choose_processor Flags r (built base c r p th proc pool mem) =
    Inr (built (idle_base Flags base) c r p (th\<lparr> th_ProcessorId := idle_processor Flags base \<rparr>) proc pool mem)"
proof -
  have "th\<lparr> th_ProcessorId := 0 \<rparr> = th" using assms(2) by simp
  then show ?thesis
    by (simp add: choose_processor_def built_get [OF assms(1)] Let_def idle_base_def idle_processor_def)
      (simp add: built_def upd_pm_def)
qed

text \<open>The mappings of a thread: none for a kernel process, the stack and the start wrapper for a user process.\<close>

definition thread_memory :: "proc_env \<Rightarrow> pt_mem \<times> u64 list \<Rightarrow> PROCESS \<Rightarrow> u64 \<Rightarrow> u64 \<Rightarrow> (pt_mem \<times> u64 list) outcome" where
  "thread_memory env mem proc S stack =
     (if OperatingMode proc = KERNELMODE_PROCESS then Inr mem else
      andThen (MapPhysicalPages (NXBit env) mem (pr_PageMap proc) (USER_STACK_BASE - pr_StackSize proc - S) stack
                 (unat (drop_bit 12 S)) PM_UMAP) (\<lambda>mem.
      MapPhysicalPages (NXBit env) mem (pr_PageMap proc) GLOBAL_SUBSYSTEM_LOAD_ADDRESS (UserThreadWrapper env) 1
        (PM_PRESENT OR PM_USER)))"

text \<open>The thread \<open>th\<close> once its stack, start address and state are set.\<close>

definition started :: "proc_env \<Rightarrow> THREAD \<Rightarrow> PROCESS \<Rightarrow> u64 \<Rightarrow> u64 \<Rightarrow> u64 \<Rightarrow> u64 \<Rightarrow> THREAD" where
  "started env th proc S stack Start Flags =
     (let kernel = (OperatingMode proc = KERNELMODE_PROCESS);
          rsp = (if kernel then stack + S - 0x100 else USER_STACK_BASE - pr_StackSize proc)
      in th\<lparr> th_Stack := stack, VirtualStackPtr := (if kernel then VirtualStackPtr th else rsp - S),
             Registers := (Registers th)\<lparr> r_rsp := rsp, r_rbp := rsp, r_rflags := 0x200, r_rax := Start,
               r_rip := (if kernel then KernelThreadWrapper env else GLOBAL_SUBSYSTEM_LOAD_ADDRESS) \<rparr>,
             th_State := creation_state Flags (th_State th), SchedulingQuantum := 12, TimeBurst := 1 \<rparr>)"

lemma link_thread_built:
  assumes c: "\<exists>y. chain_get c r = Some y" and p: "p < length (ProcessList (sys_pm base))"
    and w: "chain_walk (\<lambda>e. e = None) None THREADS_PER_PROCESS_THREAD_LIST (pr_Threads proc) = (d, s)"
    and pool: "blocks (\<lambda>e. e = None) (pr_Threads proc) \<le> length pool" "0 \<notin> set pool"
  shows "link_thread (built base c r p th proc pool mem) r p =
    Inr (built base c r p th (proc\<lparr> pr_Threads := chain_set d s (Some r) \<rparr>) (drop (blocks (\<lambda>e. e = None) (pr_Threads proc)) pool) mem)"
  using w pool by (cases pool) (auto simp: link_thread_def built_get(2) [OF c p] blocks_def)

lemma finish_thread_built:
  assumes c: "\<exists>y. chain_get c r = Some y" and p: "p < length (ProcessList (sys_pm base))"
    and th: "th_State th \<noteq> 0" "th_Process th = Some p" and a: "a \<noteq> 0"
    and w: "chain_walk (\<lambda>e. e = None) None THREADS_PER_PROCESS_THREAD_LIST (pr_Threads proc) = (d, s)"
    and pool: "blocks (\<lambda>e. e = None) (pr_Threads proc) \<le> length pool" "0 \<notin> set pool"
  shows "finish_thread env (built base c r p th proc (a # pool) mem) r p S Start Flags =
    andThen (thread_memory env mem proc S a) (\<lambda>mem'.
    Inr (built base c r p (started env th proc S a Start Flags)
      (proc\<lparr> pr_StackSize := pr_StackSize proc + S, pr_Threads := chain_set d s (Some r),
             ControlMutex0 := BitRelease (ControlMutex0 proc) 0 \<rparr>) (drop (blocks (\<lambda>e. e = None) (pr_Threads proc)) pool) mem'))"
proof (cases "OperatingMode proc = KERNELMODE_PROCESS")
  case True
  have l: "link_thread (built base c r p t (proc\<lparr> pr_StackSize := x \<rparr>) pool m) r p =
    Inr (built base c r p t (proc\<lparr> pr_StackSize := x, pr_Threads := chain_set d s (Some r) \<rparr>)
      (drop (blocks (\<lambda>e. e = None) (pr_Threads proc)) pool) m)" for t x m
    using link_thread_built [OF c p, of "proc\<lparr> pr_StackSize := x \<rparr>"] w pool by simp
  show ?thesis using True th
    by (simp add: finish_thread_def setup_stack_def ThreadWrapperInit_def built_get [OF c] p a l Let_def thread_memory_def started_def
        PROCESS_MUTEX0_CREATE_THREAD_def)
next
  case False
  have l: "link_thread (built base c r p t (proc\<lparr> pr_StackSize := x \<rparr>) pool m) r p =
    Inr (built base c r p t (proc\<lparr> pr_StackSize := x, pr_Threads := chain_set d s (Some r) \<rparr>)
      (drop (blocks (\<lambda>e. e = None) (pr_Threads proc)) pool) m)" for t x m
    using link_thread_built [OF c p, of "proc\<lparr> pr_StackSize := x \<rparr>"] w pool by simp
  show ?thesis using False th
    by (cases "MapPhysicalPages (NXBit env) mem (pr_PageMap proc) (USER_STACK_BASE - pr_StackSize proc - S) a
                 (unat (drop_bit 12 S)) PM_UMAP")
      (simp_all add: finish_thread_def setup_stack_def ThreadWrapperInit_def built_get [OF c] p a l Let_def thread_memory_def started_def
        PROCESS_MUTEX0_CREATE_THREAD_def andThen_assoc)
qed

lemma map_loop_fault: "map_loop NX Flags root n s v pa = Inl e \<Longrightarrow> e = SOD"
proof (induction n arbitrary: s v pa)
  case 0
  then show ?case by simp
next
  case (Suc n)
  have "ensure_table s f i = Inl e \<Longrightarrow> e = SOD" for s f i and e :: fault
    by (auto simp: ensure_table_def Let_def split: prod.splits if_splits)
  then have "map_one_page NX Flags root s v pa = Inl e \<Longrightarrow> e = SOD"
    by (auto simp: map_one_page_def Let_def andThen_def split: sum.splits prod.splits if_splits)
  then show ?case using Suc by (auto simp: andThen_def Let_def split: sum.splits)
qed

lemma MapPhysicalPages_fault: "MapPhysicalPages NX s PageMap va pa n Flags = Inl e \<Longrightarrow> e = SOD"
  unfolding MapPhysicalPages_def by (rule map_loop_fault)

lemma thread_memory_fault: "thread_memory env mem proc S stack = Inl e \<Longrightarrow> e = SOD"
  by (auto simp: thread_memory_def andThen_def split: if_splits sum.splits dest: MapPhysicalPages_fault)

lemma KeCreateThread_built:
  assumes p: "p < length (ProcessList (sys_pm sys))" and proc: "proc = ProcessList (sys_pm sys) ! p" "pr_Set proc"
    and m: "\<not> bit (ControlMutex0 proc) 0" and pool: "pool_serves sys 4"
    and w: "chain_walk thread_free THREAD_zero PENTRIES_PER_LIST (ThreadList (sys_pm sys)) = (c, r)"
    and l: "chain_walk (\<lambda>e. e = None) None THREADS_PER_PROCESS_THREAD_LIST (pr_Threads proc) = (d, s)"
    and i: "IpcClientCreate (thread_ipc_env env r p) (sys_ipc sys) (thread_addr env r) 0 = Inr (ipc, client)"
    and k: "k = blocks thread_free (ThreadList (sys_pm sys))" and S: "S = stack_size StackSize"
  shows "KeCreateThread env sys (Some p) StackSize Start Flags =
    andThen (thread_memory env (sys_mem sys) proc S (pm_pool (sys_pm sys) ! (k + 1))) (\<lambda>mem.
    Inr (built (idle_base Flags (sys\<lparr> sys_ipc := ipc \<rparr>)) c r p
      (started env ((new_thread r p)\<lparr> Registers := (segment_registers (OperatingMode proc) REGISTERS_zero)\<lparr> r_cr3 := pr_PageMap proc,
           r_Xsave := pm_pool (sys_pm sys) ! k \<rparr>, th_Client := Some client, th_ProcessorId := idle_processor Flags sys \<rparr>)
         proc S (pm_pool (sys_pm sys) ! (k + 1)) Start Flags)
      (proc\<lparr> pr_StackSize := pr_StackSize proc + S, NumThreads := NumThreads proc + 1,
             StartupThread := (if NumThreads proc = 0 then Some r else StartupThread proc),
             pr_Threads := chain_set d s (Some r) \<rparr>)
      (drop (k + 2 + blocks (\<lambda>e. e = None) (pr_Threads proc)) (pm_pool (sys_pm sys))) mem, Some r))"
proof -
  let ?pool = "pm_pool (sys_pm sys)"
  have len: "4 \<le> length ?pool" "0 \<notin> set ?pool" using pool by (simp_all add: pool_serves_def)
  have k2: "k \<le> 1" "blocks (\<lambda>e. e = None) (pr_Threads proc) \<le> 1" by (simp_all add: k blocks_def)
  have "?pool ! j \<noteq> 0" if "j < 4" for j using len nth_mem [of j ?pool] that by fastforce
  then have nz: "?pool ! k \<noteq> 0" "?pool ! (k + 1) \<noteq> 0" using k2(1) by simp_all
  have cons: "drop k ?pool = ?pool ! k # ?pool ! (k + 1) # drop (k + 2) ?pool"
    using len k2 by (simp add: Cons_nth_drop_Suc)
  have rest: "0 \<notin> set (drop (k + 2) ?pool)" "blocks (\<lambda>e. e = None) (pr_Threads proc) \<le> length (drop (k + 2) ?pool)"
    using len k2 in_set_dropD [of 0 "k + 2" ?pool] by auto
  have c: "\<exists>y. chain_get c r = Some y" using threads.walk_slot_free [OF w] by blast
  define sp where "sp = ?pool ! (k + 1)"
  define start where "start = (if NumThreads proc = 0 then Some r else StartupThread proc)"
  define procS where "procS = proc\<lparr> ControlMutex0 := set_bit 0 (ControlMutex0 proc), StartupThread := start, NumThreads := NumThreads proc + 1 \<rparr>"
  define th where "th = (new_thread r p)\<lparr> Registers := (segment_registers (OperatingMode proc) REGISTERS_zero)\<lparr> r_cr3 := pr_PageMap proc,
           r_Xsave := ?pool ! k \<rparr>, th_Client := Some client \<rparr>"
  define base where "base = sys\<lparr> sys_ipc := ipc \<rparr>"
  have th: "th_ProcessorId th = 0" "th_State th \<noteq> 0" "th_Process th = Some p"
    by (simp_all add: th_def new_thread_def THREAD_zero_def THS_PRESENT_def THS_RUNNABLE_def)
  have al: "AllocateThread env (put_process p (proc\<lparr> ControlMutex0 := set_bit 0 (ControlMutex0 proc) \<rparr>) sys) p =
      Inr (built base c r p th procS (sp # drop (k + 2) ?pool) (sys_mem sys), r)"
    using AllocateThread_built [OF w p cons [unfolded k] nz(1) [unfolded k] len(2) i,
        of "proc\<lparr> ControlMutex0 := set_bit 0 (ControlMutex0 proc) \<rparr>", folded k]
    by (simp add: base_def th_def procS_def start_def sp_def)
  have g: "get_process sys p = Inr proc" using p proc(1) by simp
  have ib: "p < length (ProcessList (sys_pm (idle_base Flags base)))" "idle_processor Flags base = idle_processor Flags sys"
    using p by (simp_all add: idle_base_def upd_pm_def idle_processor_def base_def)
  have mem: "thread_memory env x procS S y = thread_memory env x proc S y"
    "started env t procS S y Start Flags = started env t proc S y Start Flags" for x y t
    by (simp_all add: thread_memory_def procS_def started_def Let_def)
  let ?th = "th\<lparr> th_ProcessorId := idle_processor Flags sys \<rparr>"
  have th': "th_State ?th \<noteq> 0" "th_Process ?th = Some p" using th by simp_all
  have l': "chain_walk (\<lambda>e. e = None) None THREADS_PER_PROCESS_THREAD_LIST (pr_Threads procS) = (d, s)" "pr_Threads procS = pr_Threads proc"
    using l by (simp_all add: procS_def)
  have done': "procS\<lparr> pr_StackSize := pr_StackSize procS + S, pr_Threads := t, ControlMutex0 := BitRelease (ControlMutex0 procS) 0 \<rparr> =
      proc\<lparr> pr_StackSize := pr_StackSize proc + S, NumThreads := NumThreads proc + 1, StartupThread := start, pr_Threads := t \<rparr>" for t
    using BitRelease_set_bit [OF m] by (intro PROCESS.equality) (simp_all add: procS_def)
  have fin: "finish_thread env (built (idle_base Flags base) c r p ?th procS (sp # drop (k + 2) ?pool) (sys_mem sys)) r p S Start Flags =
    andThen (thread_memory env (sys_mem sys) proc S sp) (\<lambda>mem'.
    Inr (built (idle_base Flags base) c r p (started env ?th proc S sp Start Flags)
      (proc\<lparr> pr_StackSize := pr_StackSize proc + S, NumThreads := NumThreads proc + 1, StartupThread := start, pr_Threads := chain_set d s (Some r) \<rparr>)
      (drop (blocks (\<lambda>e. e = None) (pr_Threads proc)) (drop (k + 2) ?pool)) mem'))"
    by (rule finish_thread_built [OF c ib(1) th' nz(2) [folded sp_def] l'(1), of "drop (k + 2) ?pool" env "sys_mem sys" S Start Flags,
        unfolded mem done' l'(2), OF rest(2,1)])
  have dd: "drop (blocks (\<lambda>e. e = None) (pr_Threads proc)) (drop (k + 2) ?pool) = drop (k + 2 + blocks (\<lambda>e. e = None) (pr_Threads proc)) ?pool"
    by (simp add: add.commute)
  have "KeCreateThread env sys (Some p) StackSize Start Flags =
      andThen (finish_thread env (built (idle_base Flags base) c r p ?th procS (sp # drop (k + 2) ?pool) (sys_mem sys)) r p S Start Flags)
        (\<lambda>sys3. Inr (sys3, Some r))"
    using proc(2) m al choose_processor_built [OF c th(1), of Flags base p procS "sp # drop (k + 2) ?pool" "sys_mem sys"]
    by (simp add: KeCreateThread_def g spin_free PROCESS_MUTEX0_CREATE_THREAD_def S [symmetric] ib(2))
  then show ?thesis
    unfolding fin dd by (simp add: andThen_assoc sp_def start_def th_def base_def)
qed


section \<open>Creating a process\<close>

lemma memcpy_loop_eq:
  "memcpy_loop dst src n = (if n \<le> length dst \<and> n \<le> length src then Inr (take n src @ drop n dst) else Inl OutOfBounds)"
  by (induction dst src n rule: memcpy_loop.induct) auto

lemma name_copy:
  assumes "0 \<in> set Name" and "n = length (cstring Name)"
  shows "andThen (memcpy16 (replicate (n + 1) 0) Name n) (\<lambda>buf. array_set buf n 0) = Inr (cstring Name @ [0])"
proof -
  have "n < length Name" using assms length_cstring_less by simp
  moreover have "drop n (replicate (n + 1) 0) = [0 :: u16]" by (simp only: drop_replicate) simp
  ultimately have "memcpy16 (replicate (n + 1) 0) Name n = Inr (cstring Name @ [0])"
    using cstring_prefix [OF assms(1)] assms(2) unfolding memcpy16_def memcpy_loop_eq by simp
  then show ?thesis using assms(2) by (simp add: list_update_append)
qed

text \<open>A page map for a process of either mode, when there is a free page.\<close>

lemma SetProcess_pagemap_ok:
  assumes "OperatingMode proc \<noteq> KERNELMODE_PROCESS \<longrightarrow> (\<exists>a pages. snd (sys_mem sys) = a # pages \<and> a \<noteq> 0)"
  shows "\<exists>sys' pm. SetProcess_pagemap sys kp proc = Inr (sys', pm) \<and> sys_pm sys' = sys_pm sys \<and> sys_ipc sys' = sys_ipc sys \<and>
    (OperatingMode proc = KERNELMODE_PROCESS \<longrightarrow> pm = pr_PageMap kp)"
proof (cases "OperatingMode proc = KERNELMODE_PROCESS")
  case True
  then show ?thesis by (simp add: SetProcess_pagemap_def)
next
  case False
  then obtain a pages mem where m: "sys_mem sys = (mem, a # pages)" "a \<noteq> 0" using assms by (metis prod.collapse)
  obtain pcid pm' ok where "ProcessContextIdAllocate (sys_pcid sys) a = (pcid, pm', ok)" by (metis prod_cases3)
  then show ?thesis using False m
    by (simp add: SetProcess_pagemap_def CreatePageMap_def AllocatePhysicalPage_def)
qed

text \<open>C19. Creating a process with a valid mode, subsystem and name, when a process slot is free and memory is available,
  takes the first free slot: its index is the process id under which it is found afterwards.  The process has a copy of the
  name, the mode, the parent and the priority class of its subsystem, the kernel's page map if it is a kernel process,
  and no other process or thread changes.\<close>

theorem KeCreateProcess_creates:
  assumes mode: "Mode = KERNELMODE_PROCESS \<or> Mode = USERMODE_PROCESS" and sub: "Sub \<le> SUBSYSTEM_MAX"
    and name: "0 \<in> set Name" "0 < length (cstring Name)" "length (cstring Name) \<le> PNAME_CHARSZ_MAX"
    and k: "kproc (sys_pm sys) = Some kp" "kp < length (ProcessList (sys_pm sys))" "pr_Set (ProcessList (sys_pm sys) ! kp)"
    and len: "length (ProcessList (sys_pm sys)) = MAX_PROCESSES"
    and i: "first_index (\<lambda>pr. \<not> pr_Set pr) (ProcessList (sys_pm sys)) = Some i"
    and slot: "NumThreads (ProcessList (sys_pm sys) ! i) = 0" "ControlMutex0 (ProcessList (sys_pm sys) ! i) = 0"
    and pool: "pool_serves sys 1" "\<exists>a b c d pool. ipc_pool (sys_ipc sys) = a # b # c # d # pool \<and> 0 \<notin> {a, b, c, d}"
    and pages: "Mode = USERMODE_PROCESS \<longrightarrow> (\<exists>a pages. snd (sys_mem sys) = a # pages \<and> a \<noteq> 0)"
  shows "\<exists>sys' proc. KeCreateProcess env sys Parent (Some Name) Sub Mode = Inr (sys', Some i) \<and>
    ProcessList (sys_pm sys') = (ProcessList (sys_pm sys))[i := proc] \<and> ThreadList (sys_pm sys') = ThreadList (sys_pm sys) \<and>
    GetProcessById sys' (of_nat i) = Inr (Some i) \<and> pr_Set proc \<and> ProcessId proc = of_nat i \<and> ParentProcess proc = Parent \<and>
    OperatingMode proc = Mode \<and> ProcessName proc = Some (cstring Name @ [0]) \<and>
    int (unat (PriorityClass proc)) = subsystem_class Sub - PRIORITY_CLASS_MIN \<and>
    (Mode = KERNELMODE_PROCESS \<longrightarrow> pr_PageMap proc = pr_PageMap (ProcessList (sys_pm sys) ! kp))"
proof -
  let ?PL = "ProcessList (sys_pm sys)"
  have i': "i < length ?PL" "i \<noteq> kp" using first_index_Some [OF i] k(3) by auto
  define proc0 where "proc0 = (?PL ! i)\<lparr> pr_Set := True, ParentProcess := Parent, OperatingMode := Mode, ProcessId := of_nat i,
                      Subsystem := ucast Sub, pr_FreeMemoryRoot := True \<rparr>"
  define sys0 where "sys0 = put_process i proc0 sys"
  have "pool_serves sys0 (Suc 0)" using pool(1) by (simp add: sys0_def)
  then obtain sys1 a1 where s1: "pool_take NullDeref sys0 = Inr (sys1, a1)" "ThreadList (sys_pm sys1) = ThreadList (sys_pm sys)"
    "ProcessList (sys_pm sys1) = ?PL[i := proc0]" "sys_mem sys1 = sys_mem sys" "sys_ipc sys1 = sys_ipc sys"
    using pool_take_ok [of sys0 0 NullDeref] by (auto simp: sys0_def)
  have gk: "get_process sys1 kp = Inr (?PL ! kp)" using k(2) i'(2) by (simp add: s1(3))
  have om: "OperatingMode proc0 = Mode" by (simp add: proc0_def)
  obtain sys2 pm where s2: "SetProcess_pagemap sys1 (?PL ! kp) proc0 = Inr (sys2, pm)" "sys_pm sys2 = sys_pm sys1"
    "sys_ipc sys2 = sys_ipc sys" "Mode = KERNELMODE_PROCESS \<longrightarrow> pm = pr_PageMap (?PL ! kp)"
    using SetProcess_pagemap_ok [of proc0 sys1 "?PL ! kp"] pages mode s1(4,5) unfolding om by auto
  obtain a b c d p where ip: "ipc_pool (sys_ipc sys) = a # b # c # d # p" "a \<noteq> 0" "b \<noteq> 0" "c \<noteq> 0" "d \<noteq> 0"
    using pool(2) by auto
  obtain t1 t2 where t: "CreateHandleTable 2 (a # b # c # d # p) = Inr (t1, c # d # p)" "CreateHandleTable 2 (c # d # p) = Inr (t2, p)"
    using CreateHandleTable_returns [OF ip(2,3), of 1 "c # d # p"] CreateHandleTable_returns [OF ip(4,5), of 1 p]
    by (auto simp: numeral_2_eq_2)
  obtain sys3 where s3: "SetProcess_handles env sys2 i = Inr (sys3, t2)" "sys_pm sys3 = sys_pm sys1"
    using s2(2,3) t by (simp add: SetProcess_handles_def ip(1))
  define proc1 where "proc1 = proc0\<lparr> ProcessName := Some (cstring Name @ [0]), pr_PageMap := pm, FileHandles := Some t2 \<rparr>"
  define proc2 where "proc2 = proc1\<lparr> PriorityClass := of_int (subsystem_class Sub - PRIORITY_CLASS_MIN) \<rparr>"
  define sys4 where "sys4 = put_process i proc1 sys3"
  have l4: "ProcessList (sys_pm sys4) = ?PL[i := proc1]" "ThreadList (sys_pm sys4) = ThreadList (sys_pm sys)"
    using s3(2) s1(2,3) by (simp_all add: sys4_def)
  have cls: "PRIORITY_CLASS_MIN \<le> subsystem_class Sub" "subsystem_class Sub \<le> PRIORITY_CLASS_MAX"
    by (auto simp: subsystem_class_def priority_defs)
  have "BitRelease (set_bit 0 (0 :: u64)) 0 = 0" by (rule BitRelease_set_bit) simp
  then have "proc2 = proc1\<lparr> PriorityClass := of_int (subsystem_class Sub - PRIORITY_CLASS_MIN),
      ControlMutex0 := BitRelease (set_bit 0 (ControlMutex0 proc1)) 0 \<rparr>"
    using slot unfolding proc2_def by (intro PROCESS.equality) (simp_all add: proc1_def proc0_def)
  moreover have "reprioritise (pr_Threads proc1) st 0 = Inr st" for st by (cases "pr_Threads proc1") simp_all
  ultimately have spc: "SetPriorityClass (sys_pm sys4) i (subsystem_class Sub) = Inr (set_process (sys_pm sys4) i proc2, KERNEL_SOK)"
    using cls i'(1) l4 slot
    by (simp add: SetPriorityClass_def spin_free Let_def PROCESS_MUTEX0_CREATE_THREAD_def proc1_def proc0_def set_process_def)
  define sys' where "sys' = sys4\<lparr> sys_pm := set_process (sys_pm sys4) i proc2 \<rparr>"
  have nm: "andThen (memcpy16 (replicate (length (cstring Name) + 1) 0) Name (length (cstring Name)))
      (\<lambda>buf. andThen (array_set buf (length (cstring Name)) 0) f) = f (cstring Name @ [0])" for f :: "wchar list \<Rightarrow> 'z outcome"
    using name_copy [OF name(1) refl] by (auto simp: andThen_Inr_iff)
  have "SetProcess env sys i Parent Mode Name (length (cstring Name)) Sub = Inr sys'"
    unfolding SetProcess_def using i'(1) k(1) s1(1) gk s2(1) s3(1) spc
    by (simp only: nm) (simp add: proc0_def [symmetric] sys0_def [symmetric] proc1_def [symmetric] sys4_def [symmetric] sys'_def)
  moreover have "unat (of_nat (length (cstring Name)) :: u16) = length (cstring Name)"
    using name(3) by (simp add: unsigned_of_nat take_bit_nat_eq_self PNAME_CHARSZ_MAX_def)
  ultimately have r: "KeCreateProcess env sys Parent (Some Name) Sub Mode = Inr (sys', Some i)"
    using mode sub name i len strlen_cstring [OF name(1)]
    by (auto simp: KeCreateProcess_def wstrlen_def KERNELMODE_PROCESS_def USERMODE_PROCESS_def)
  have l: "ProcessList (sys_pm sys') = ?PL[i := proc2]" "ThreadList (sys_pm sys') = ThreadList (sys_pm sys)"
    using l4 by (simp_all add: sys'_def)
  have ui: "unat (of_nat i :: u64) = i" "(of_nat i :: u64) < 0x400"
    using i'(1) len by (simp_all add: MAX_PROCESSES_def unsigned_of_nat take_bit_nat_eq_self word_less_nat_alt)
  have "GetProcessById sys' (of_nat i) = Inr (Some i)"
    using ui i'(1) l(1) by (simp add: GetProcessById_def proc2_def proc1_def proc0_def)
  moreover have "int (unat (PriorityClass proc2)) = subsystem_class Sub - PRIORITY_CLASS_MIN"
    by (simp add: proc2_def subsystem_class_def priority_defs)
  ultimately show ?thesis using r l s2(4)
    by (intro exI [of _ sys'] exI [of _ proc2]) (simp add: proc2_def proc1_def proc0_def)
qed

section \<open>Names and context identifiers\<close>

text \<open>Remark. Renaming a process always writes beyond the buffer it allocates: for every name that passes the length
  check the buffer of \<open>len + 2\<close> bytes is too small for \<open>len + 1\<close> two-byte characters.\<close>

theorem SetProcessName_overruns:
  assumes name: "0 \<in> set Name" "0 < length (cstring Name)" "length (cstring Name) \<le> PNAME_CHARSZ_MAX" and pool: "pool_serves sys 1"
  shows "SetProcessName sys (Some p) (Some Name) = Inl OutOfBounds"
proof -
  let ?n = "length (cstring Name)"
  obtain sys1 a where t: "pool_take SOD sys = Inr (sys1, a)" using pool_take_ok [of sys 0 SOD] pool by auto
  have n: "unat (of_nat ?n :: u16) = ?n" using name(3) by (simp add: unsigned_of_nat take_bit_nat_eq_self PNAME_CHARSZ_MAX_def)
  have "memcpy16 (replicate ((?n + 2) div 2) 0) Name ?n = Inl OutOfBounds \<or>
      (\<exists>buf. memcpy16 (replicate ((?n + 2) div 2) 0) Name ?n = Inr buf \<and> length buf \<le> ?n)"
    using name(2) length_cstring_less [OF name(1)] unfolding memcpy16_def memcpy_loop_eq by (simp del: length_greater_0_conv)
  then show ?thesis
    using name(2,3) n t strlen_cstring [OF name(1)] by (auto simp: SetProcessName_def wstrlen_def Let_def)
qed

text \<open>Remark. A process context identifier that is handed out was unused, leaves the page address of the page map in place,
  and freeing it brings the identifier table back.\<close>

theorem ProcessContextId_roundtrip:
  assumes en: "ProcessContextIdSupported s" "ProcessContextIdEnabled s" and len: "length (Tokens s) = MAX_PCID"
    and al: "PageMap AND 0xFFF = 0" and a: "ProcessContextIdAllocate s PageMap = (s', pm, True)"
  shows "\<exists>i < MAX_PCID. \<not> Tokens s ! i \<and> Tokens s' ! i \<and> pm AND 0xFFF = of_nat (i + 1) \<and> pm AND NOT 0xFFF = PageMap \<and>
    ProcessContextIdFree s' (Some pm) = Inr (s, True)"
proof -
  obtain i where i: "first_index (\<lambda>t. \<not> t) (Tokens s) = Some i"
    and s': "s' = s\<lparr> Tokens := (Tokens s)[i := True], NumProcessContextIdentifiers := NumProcessContextIdentifiers s + 1 \<rparr>"
    and pm: "pm = PageMap OR of_nat (i + 1)"
    using a en len by (auto simp: ProcessContextIdAllocate_def split: if_splits option.splits)
  have fi: "i < MAX_PCID" "\<not> Tokens s ! i" using first_index_Some [OF i] len by auto
  have m: "(0xFFF :: u64) = mask 12" by (simp add: mask_eq_exp_minus_1)
  have x: "take_bit 12 (of_nat (i + 1) :: u64) = of_nat (i + 1)"
    using fi(1) by (simp add: take_bit_of_nat take_bit_nat_eq_self MAX_PCID_def del: of_nat_add of_nat_Suc)
  have low: "pm AND 0xFFF = of_nat (i + 1)" unfolding pm m using al x
    by (simp only: m take_bit_eq_mask [symmetric] take_bit_or) simp
  have high: "pm AND NOT 0xFFF = PageMap"
  proof (rule bit_word_eqI)
    fix n
    have z: "\<not> bit PageMap n" if "n < 12"
      using arg_cong [OF al, of "\<lambda>w. bit w n"] that unfolding m by (simp add: bit_simps)
    have y: "\<not> bit (of_nat (i + 1) :: u64) n" if "\<not> n < 12" using x that by (metis bit_take_bit_iff)
    show "bit (pm AND NOT 0xFFF) n \<longleftrightarrow> bit PageMap n" if "n < LENGTH(64)"
      using z y that unfolding pm m by (auto simp: bit_simps simp del: of_nat_add of_nat_Suc)
  qed
  have idx: "unat (of_nat (i + 1) - 1 :: u64) = i"
    using fi(1) by (simp add: unsigned_of_nat take_bit_nat_eq_self MAX_PCID_def)
  have nz: "(of_nat (i + 1) :: u64) \<noteq> 0" using fi(1) by (intro of_nat_neq_0) (simp_all add: MAX_PCID_def)
  have restored: "(Tokens s)[i := False] = Tokens s" using fi len by (metis list_update_id)
  have "ProcessContextIdFree s' (Some pm) = Inr (s, True)"
    using en nz fi(1) len unfolding ProcessContextIdFree_def option.case low idx
    by (simp add: s' restored del: of_nat_add of_nat_Suc)
  moreover have "Tokens s' ! i" using fi(1) len by (simp add: s')
  ultimately show ?thesis using fi low high by blast
qed

section \<open>A concrete system\<close>

definition free_process :: PROCESS where
  "free_process = one_process\<lparr> pr_Set := False, NumThreads := 0, pr_Threads := [replicate 20 None] \<rparr>"

definition sample_pcid :: PCID_STATE where
  "sample_pcid = \<lparr> NumProcessContextIdentifiers = 0, ProcessContextIdSupported = True, ProcessContextIdEnabled = True,
     Tokens = replicate MAX_PCID False \<rparr>"

definition sample_system :: SYSTEM where
  "sample_system = \<lparr> sys_pm = one_thread_state\<lparr> ProcessList := one_process # replicate 1023 free_process, pm_pool := [1, 2, 3, 4] \<rparr>,
     sys_pcid = sample_pcid, sys_mem = (empty_mem, []),
     sys_ipc = \<lparr> TotalClients = 0, Clients = [], Servers = [], ProcHandles = (\<lambda>_. [HANDLE_ITERATOR_zero]), ipc_pool = [1, 2, 3, 4] \<rparr> \<rparr>"

definition sample_proc_env :: proc_env where
  "sample_proc_env = \<lparr> thread_addr = (\<lambda>_. 0x1000), process_addr = (\<lambda>_. 0x2000), KernelThreadWrapper = 0x3000,
     UserThreadWrapper = 0x4000, NXBit = False, ipc_environment = ipc_sample_env \<rparr>"

lemma sample_pm [simp]:
  "ProcessList (sys_pm sample_system) = one_process # replicate 1023 free_process" "pool_serves sample_system 4"
  "pool_serves sample_system 1" "kproc (sys_pm sample_system) = Some 0"
  by (simp_all add: sample_system_def pool_serves_def one_thread_state_def)

lemma sample_ipc_serves: "ipc_serves sample_proc_env sample_system 0"
  by (simp add: ipc_serves_def sample_proc_env_def sample_system_def ipc_sample_env_def ht_wf_def HANDLE_ITERATOR_zero_def)


theorem KeCreateProcess_creates_witness:
  "\<exists>sys'. KeCreateProcess sample_proc_env sample_system (Some 0) (Some [72, 105, 0]) SUBSYSTEM_GUI KERNELMODE_PROCESS = Inr (sys', Some 1) \<and>
     GetProcessById sys' 1 = Inr (Some 1)"
proof -
  have i: "first_index (\<lambda>pr. \<not> pr_Set pr) (ProcessList (sys_pm sample_system)) = Some 1"
    by (simp add: one_process_def free_process_def)
  have slot: "NumThreads (ProcessList (sys_pm sample_system) ! 1) = 0" "ControlMutex0 (ProcessList (sys_pm sample_system) ! 1) = 0"
    by (simp_all add: free_process_def one_process_def)
  have pool: "\<exists>a b c d pool. ipc_pool (sys_ipc sample_system) = a # b # c # d # pool \<and> 0 \<notin> {a, b, c, d}"
    by (simp add: sample_system_def)
  have name: "0 \<in> set [72, 105, 0 :: wchar]" "0 < length (cstring [72, 105, 0 :: wchar])"
    "length (cstring [72, 105, 0 :: wchar]) \<le> PNAME_CHARSZ_MAX" by (simp_all add: cstring_def PNAME_CHARSZ_MAX_def)
  have k: "0 < length (ProcessList (sys_pm sample_system))" "pr_Set (ProcessList (sys_pm sample_system) ! 0)"
    by (simp_all add: one_process_def)
  have "KERNELMODE_PROCESS = KERNELMODE_PROCESS \<or> KERNELMODE_PROCESS = USERMODE_PROCESS" "SUBSYSTEM_GUI \<le> SUBSYSTEM_MAX"
    "length (ProcessList (sys_pm sample_system)) = MAX_PROCESSES"
    by (simp_all add: SUBSYSTEM_GUI_def SUBSYSTEM_MAX_def MAX_PROCESSES_def)
  from KeCreateProcess_creates [OF this(1,2) name sample_pm(4) k this(3) i slot sample_pm(3) pool]
  show ?thesis by (auto simp: KERNELMODE_PROCESS_def USERMODE_PROCESS_def)
qed

theorem SetProcessName_overruns_witness: "SetProcessName sample_system (Some 0) (Some [72, 105, 0]) = Inl OutOfBounds"
  by (rule SetProcessName_overruns) (simp_all add: cstring_def PNAME_CHARSZ_MAX_def sample_pm(3) [simplified])

theorem ProcessContextId_roundtrip_witness:
  "ProcessContextIdAllocate sample_pcid 0x7000 = (sample_pcid\<lparr> Tokens := (Tokens sample_pcid)[0 := True],
     NumProcessContextIdentifiers := 1 \<rparr>, 0x7001, True) \<and>
   ProcessContextIdFree (sample_pcid\<lparr> Tokens := (Tokens sample_pcid)[0 := True], NumProcessContextIdentifiers := 1 \<rparr>) (Some 0x7001) =
     Inr (sample_pcid, True)"
proof -
  have a: "ProcessContextIdAllocate sample_pcid 0x7000 = (sample_pcid\<lparr> Tokens := (Tokens sample_pcid)[0 := True],
     NumProcessContextIdentifiers := 1 \<rparr>, 0x7001, True)"
    by (simp add: ProcessContextIdAllocate_def sample_pcid_def MAX_PCID_def)
  then show ?thesis
    using ProcessContextId_roundtrip [OF _ _ _ _ a] by (auto simp: sample_pcid_def)
qed

end
