(* ===== verification/Fat32_Cluster.thy ===== *)
theory Fat32_Cluster
  imports Kernel_Base
begin

text \<open>
  The FAT32 driver's cluster layer (\<open>drivers/fat32/dll/src/cluster.c\<close>, \<open>inc/fat32.h\<close>).  The drive is the map from sector
  numbers to the bytes of the sectors; \<open>StartupInfo.Read\<close> and \<open>StartupInfo.Write\<close> are its lookup and update.  A FAT sector holds
  128 little-endian 32-bit entries.  Sector numbers are computed in 32 bits as the code does.  The scratch buffers
  of the partition structure are filled before each use and are local here; the cache of the last FAT sector
  (\<open>FatSector\<close>, \<open>FatSectorNumber\<close>) lives across calls and is part of the state.
\<close>

section \<open>Sectors\<close>

type_synonym drive = "nat \<Rightarrow> u8 list"

definition le32 :: "u8 \<Rightarrow> u8 \<Rightarrow> u8 \<Rightarrow> u8 \<Rightarrow> u32" where
  "le32 a b c d = ucast a OR push_bit 8 (ucast b) OR push_bit 16 (ucast c) OR push_bit 24 (ucast d)"

definition bytes32 :: "u32 \<Rightarrow> u8 list" where
  "bytes32 w = [ucast w, ucast (drop_bit 8 w), ucast (drop_bit 16 w), ucast (drop_bit 24 w)]"

fun words_of :: "u8 list \<Rightarrow> u32 list" where
  "words_of (a # b # c # d # bs) = le32 a b c d # words_of bs"
| "words_of _ = []"

definition bytes_of :: "u32 list \<Rightarrow> u8 list" where
  "bytes_of ws = concat (map bytes32 ws)"

lemma le32_bytes32: "le32 (ucast w) (ucast (drop_bit 8 w)) (ucast (drop_bit 16 w)) (ucast (drop_bit 24 w)) = w"
proof (rule bit_word_eqI)
  fix n assume "n < LENGTH(32)"
  then consider "n < 8" | "8 \<le> n" "n < 16" | "16 \<le> n" "n < 24" | "24 \<le> n" "n < 32" by fastforce
  then show "bit (le32 (ucast w) (ucast (drop_bit 8 w)) (ucast (drop_bit 16 w)) (ucast (drop_bit 24 w))) n = bit w n"
    by cases (auto simp: le32_def bit_simps)
qed

lemma words_of_bytes_of [simp]: "words_of (bytes_of ws) = ws"
  by (induction ws) (simp_all add: bytes_of_def bytes32_def le32_bytes32)

text \<open>A FAT sector on the drive.\<close>

definition fat_sector :: "drive \<Rightarrow> nat \<Rightarrow> u32 list" where
  "fat_sector d lba = words_of (d lba)"

definition write_fat_sector :: "drive \<Rightarrow> nat \<Rightarrow> u32 list \<Rightarrow> drive" where
  "write_fat_sector d lba ws = d(lba := bytes_of ws)"

lemma fat_sector_write [simp]: "fat_sector (write_fat_sector d lba ws) l = (if l = lba then ws else fat_sector d l)"
  by (simp add: fat_sector_def write_fat_sector_def)

text \<open>Reading and writing several sectors of 512 bytes.\<close>

definition read_sectors :: "drive \<Rightarrow> nat \<Rightarrow> nat \<Rightarrow> u8 list" where
  "read_sectors d lba n = concat (map d [lba..<lba + n])"

fun write_sectors :: "drive \<Rightarrow> nat \<Rightarrow> nat \<Rightarrow> u8 list \<Rightarrow> drive" where
  "write_sectors d lba 0 buf = d"
| "write_sectors d lba (Suc n) buf = write_sectors (d(lba := take 512 buf)) (Suc lba) n (drop 512 buf)"

section \<open>The partition\<close>

definition FAT32_ENDOF_CHAIN :: u32 where "FAT32_ENDOF_CHAIN = 0x0FFFFFFF"

record FAT32_PARTITION =
  ClusterSize :: u8
  ReservedAreaSize :: u16
  FatCount :: u8
  HiddenSectors :: u32
  TotalSectors :: u32
  SectorsPerFat :: u32
  RootDirStart :: u32
  FsInfoLba :: u16
  BootSectorCopyLba :: u16
  FreeClusters :: u32
  RecentlyAllocatedCluster :: u32
  SecondaryFsInfo :: u32
  RootDirLba :: u64
  FatSector :: "u32 list"
  FatSectorNumber :: u32

datatype FAT_STATUS = FAT_SUCCESS | FAT_NO_ENOUGH_SPACE | FAT_READ_ERROR | FAT_WRITE_ERROR | FAT_NOT_FOUND
  | FAT_INVALID_PARAMETER | FAT_BAD_CLUSTER | FAT_CONTINUE | FAT_END

text \<open>The file system information sector: signatures, free and last cluster, boot signature.\<close>

definition fs_info_bytes :: "FAT32_PARTITION \<Rightarrow> u8 list" where
  "fs_info_bytes p = [0x52, 0x52, 0x61, 0x41] @ replicate 480 0 @ [0x72, 0x72, 0x41, 0x61] @ bytes32 (FreeClusters p) @
     bytes32 (RecentlyAllocatedCluster p) @ replicate 12 0 @ [0, 0] @ [0x55, 0xAA]"

definition PrimaryFat :: "FAT32_PARTITION \<Rightarrow> u32" where
  "PrimaryFat p = HiddenSectors p + ucast (ReservedAreaSize p)"

definition SecondaryFat :: "FAT32_PARTITION \<Rightarrow> u32" where
  "SecondaryFat p = PrimaryFat p + SectorsPerFat p"

definition cluster_limit :: "FAT32_PARTITION \<Rightarrow> u32" where
  "cluster_limit p = (TotalSectors p - SectorsPerFat p * ucast (FatCount p) - ucast (ReservedAreaSize p)) div ucast (ClusterSize p)"

definition data_lba :: "FAT32_PARTITION \<Rightarrow> u32 \<Rightarrow> u32" where
  "data_lba p Cluster = HiddenSectors p + ucast (ReservedAreaSize p) + SectorsPerFat p * ucast (FatCount p) +
     ucast (ClusterSize p) * (Cluster - 2)"

section \<open>Allocating a cluster chain\<close>

text \<open>
  The state of the allocation loops: the drive, the two sector buffers, and the local variables of the function.
  \<open>Pending\<close> is \<open>PendingAllocation\<close>: 1 when the last cluster is in the current sector, 2 when it is in the saved one.
\<close>

record alloc_state =
  al_drive :: drive
  GeneralPurposeSector :: "u32 list"
  SecondaryPurposeSector :: "u32 list"
  ChainStart :: u32
  AllocatedClusters :: u32
  LastCluster :: u32
  LastIndex :: nat
  LastFatSector :: u32
  Pending :: nat
  PendingWrite :: bool

definition cluster_no :: "u32 \<Rightarrow> nat \<Rightarrow> u32" where
  "cluster_no x i = push_bit 7 x + of_nat i"

definition write_both :: "FAT32_PARTITION \<Rightarrow> u32 \<Rightarrow> u32 list \<Rightarrow> drive \<Rightarrow> drive" where
  "write_both p x ws d = write_fat_sector (write_fat_sector d (unat (PrimaryFat p + x)) ws) (unat (SecondaryFat p + x)) ws"

text \<open>Linking the previous cluster of the chain to the one found at index \<open>i\<close> of sector \<open>x\<close>, and taking it.\<close>

definition link_previous :: "FAT32_PARTITION \<Rightarrow> u32 \<Rightarrow> nat \<Rightarrow> alloc_state \<Rightarrow> alloc_state" where
  "link_previous p x i st =
     (if LastCluster st \<noteq> 0 then
        if Pending st = 2 then
          (let sp = (SecondaryPurposeSector st)[LastIndex st := cluster_no x i]
           in st\<lparr> SecondaryPurposeSector := sp, al_drive := write_both p (LastFatSector st) sp (al_drive st) \<rparr>)
        else st\<lparr> GeneralPurposeSector := (GeneralPurposeSector st)[LastIndex st := cluster_no x i] \<rparr>
      else st\<lparr> ChainStart := cluster_no x i \<rparr>)"

definition take_cluster :: "FAT32_PARTITION \<Rightarrow> u32 \<Rightarrow> nat \<Rightarrow> alloc_state \<Rightarrow> alloc_state" where
  "take_cluster p x i st =
     (link_previous p x i st)\<lparr> PendingWrite := True, LastCluster := cluster_no x i, LastIndex := i, LastFatSector := x,
        Pending := 1, AllocatedClusters := AllocatedClusters st + 1 \<rparr>"

text \<open>The last cluster: end of chain, both copies of the sector written.\<close>

definition finish_chain :: "FAT32_PARTITION \<Rightarrow> u32 \<Rightarrow> nat \<Rightarrow> alloc_state \<Rightarrow> alloc_state" where
  "finish_chain p x i st =
     (let gp = (GeneralPurposeSector st)[i := FAT32_ENDOF_CHAIN]
      in st\<lparr> GeneralPurposeSector := gp, al_drive := write_both p x gp (al_drive st) \<rparr>)"

text \<open>The loop over the entries of a sector; \<open>True\<close> when it jumps to \<open>Finish\<close>.\<close>

fun alloc_entries :: "FAT32_PARTITION \<Rightarrow> u32 \<Rightarrow> u32 \<Rightarrow> nat list \<Rightarrow> alloc_state \<Rightarrow> alloc_state \<times> bool" where
  "alloc_entries p NumClusters x [] st = (st, False)"
| "alloc_entries p NumClusters x (i # is) st =
     (if GeneralPurposeSector st ! i = 0 then
        (let st1 = take_cluster p x i st
         in if AllocatedClusters st1 = NumClusters then (finish_chain p x i st1, True)
            else alloc_entries p NumClusters x is st1)
      else alloc_entries p NumClusters x is st)"

definition end_of_sector :: "FAT32_PARTITION \<Rightarrow> u32 \<Rightarrow> alloc_state \<Rightarrow> alloc_state" where
  "end_of_sector p x st =
     (let st1 = (if Pending st = 1 then st\<lparr> Pending := 2, SecondaryPurposeSector := GeneralPurposeSector st \<rparr> else st)
      in if PendingWrite st1
         then st1\<lparr> al_drive := write_both p x (GeneralPurposeSector st1) (al_drive st1), PendingWrite := False \<rparr> else st1)"

fun alloc_sectors :: "FAT32_PARTITION \<Rightarrow> u32 \<Rightarrow> u32 list \<Rightarrow> alloc_state \<Rightarrow> alloc_state \<times> bool" where
  "alloc_sectors p NumClusters [] st = (st, False)"
| "alloc_sectors p NumClusters (x # xs) st =
     (case alloc_entries p NumClusters x [0..<128]
             (st\<lparr> GeneralPurposeSector := fat_sector (al_drive st) (unat (PrimaryFat p + x)) \<rparr>) of
        (st1, True) \<Rightarrow> (st1, True)
      | (st1, False) \<Rightarrow> alloc_sectors p NumClusters xs (end_of_sector p x st1))"

text \<open>
  Following a chain to its end with one sector buffered: the last cluster, its sector and the buffer.  The fuel is the
  number of FAT entries: a chain of distinct clusters of the FAT is not longer, and a chain that visits a cluster twice
  never ends.
\<close>

fun find_end :: "nat \<Rightarrow> FAT32_PARTITION \<Rightarrow> drive \<Rightarrow> u32 \<Rightarrow> u32 \<Rightarrow> u32 list \<Rightarrow> (u32 \<times> u32 list) outcome" where
  "find_end 0 p d Cluster Last buf = Inl Hang"
| "find_end (Suc n) p d Cluster Last buf =
     (let sec = drop_bit 7 Cluster;
          buf' = (if sec \<noteq> Last then fat_sector d (unat (PrimaryFat p + sec)) else buf)
      in andThen (array_get buf' (unat (Cluster AND 0x7F))) (\<lambda>e.
         if e = FAT32_ENDOF_CHAIN then Inr (Cluster, buf') else find_end n p d e sec buf'))"

definition fat_entries :: "FAT32_PARTITION \<Rightarrow> nat" where "fat_entries p = 128 * unat (SectorsPerFat p)"

definition alloc_init :: "drive \<Rightarrow> alloc_state" where
  "alloc_init d = \<lparr> al_drive = d, GeneralPurposeSector = [], SecondaryPurposeSector = [], ChainStart = 0, AllocatedClusters = 0,
     LastCluster = 0, LastIndex = 0, LastFatSector = 0, Pending = 0, PendingWrite = False \<rparr>"

text \<open>Appending the new chain to the chain that starts at \<open>ClusterStart\<close>.\<close>

definition append_chain :: "FAT32_PARTITION \<Rightarrow> u32 \<Rightarrow> alloc_state \<Rightarrow> drive outcome" where
  "append_chain p ClusterStart st =
     andThen (find_end (fat_entries p) p (al_drive st) ClusterStart (LastFatSector st) (GeneralPurposeSector st)) (\<lambda>(c, buf).
     Inr (write_both p (drop_bit 7 c) (buf[unat (c AND 0x7F) := ChainStart st]) (al_drive st)))"

definition Fat32AllocateClusterChain ::
  "drive \<times> FAT32_PARTITION \<Rightarrow> u32 \<Rightarrow> u32 \<Rightarrow> ((drive \<times> FAT32_PARTITION) \<times> u32) outcome" where
  "Fat32AllocateClusterChain v ClusterStart NumClusters =
     (case v of (d, p) \<Rightarrow>
      if NumClusters = 0 then Inr (v, 0)
      else if ClusterStart \<noteq> 0 \<and> ClusterStart < 2 then Inr (v, 0)
      else if ClusterSize p = 0 then Inl DivideError
      else if ClusterStart > cluster_limit p then Inr (v, 0)
      else if FreeClusters p < NumClusters then Inr (v, 0)
      else
        (case alloc_sectors p NumClusters (map of_nat [0..<unat (SectorsPerFat p)]) (alloc_init d) of (st, fin) \<Rightarrow>
         andThen (if ClusterStart \<noteq> 0 then append_chain p ClusterStart st else Inr (al_drive st)) (\<lambda>d1.
         let p1 = p\<lparr> RecentlyAllocatedCluster := (if fin then LastCluster st else RecentlyAllocatedCluster p),
                    FreeClusters := FreeClusters p - NumClusters, FatSectorNumber := 0 \<rparr>;
             d2 = d1(unat (HiddenSectors p + ucast (FsInfoLba p)) := fs_info_bytes p1);
             d3 = d2(unat (SecondaryFsInfo p) := fs_info_bytes p1)
         in Inr ((d3, p1), ChainStart st))))"

section \<open>Following chains, reading and writing clusters\<close>

definition Fat32GetLastCluster :: "drive \<Rightarrow> FAT32_PARTITION \<Rightarrow> u32 \<Rightarrow> u32 outcome" where
  "Fat32GetLastCluster d p ClusterChainStart =
     andThen (find_end (fat_entries p) p d ClusterChainStart 0xFFFFFFFF []) (\<lambda>(c, _). Inr c)"

text \<open>The FAT sector of a cluster through the cache.\<close>

definition cached_fat :: "drive \<times> FAT32_PARTITION \<Rightarrow> u32 \<Rightarrow> FAT32_PARTITION" where
  "cached_fat v sec =
     (case v of (d, p) \<Rightarrow>
      if FatSectorNumber p \<noteq> sec then p\<lparr> FatSector := fat_sector d (unat sec), FatSectorNumber := sec \<rparr> else p)"

text \<open>
  \<open>Fat32ReadCluster\<close>: the status, the partition with its cache, the next cluster, the last code (\<open>True\<close> when it is
  \<open>FAT_END\<close>) and the bytes of the cluster.
\<close>

definition Fat32ReadCluster ::
  "drive \<times> FAT32_PARTITION \<Rightarrow> u32 \<Rightarrow> bool \<Rightarrow> (FAT_STATUS \<times> FAT32_PARTITION \<times> u32 \<times> bool \<times> u8 list) outcome" where
  "Fat32ReadCluster v Cluster LastCode =
     (case v of (d, p) \<Rightarrow>
      if LastCode then Inr (FAT_END, p, Cluster, LastCode, [])
      else if Cluster < 2 then Inr (FAT_INVALID_PARAMETER, p, Cluster, LastCode, [])
      else
        let p1 = cached_fat v (PrimaryFat p + drop_bit 7 Cluster)
        in andThen (array_get (FatSector p1) (unat (Cluster AND 0x7F))) (\<lambda>e.
           let buf = read_sectors d (unat (data_lba p Cluster)) (unat (ClusterSize p))
           in if e = FAT32_ENDOF_CHAIN then Inr (FAT_SUCCESS, p1, Cluster, True, buf)
              else Inr (FAT_SUCCESS, p1, e, False, buf)))"

definition Fat32WriteCluster :: "drive \<Rightarrow> FAT32_PARTITION \<Rightarrow> u32 \<Rightarrow> u8 list \<Rightarrow> drive \<times> bool" where
  "Fat32WriteCluster d p Cluster Buffer =
     (if Cluster < 2 then (d, False)
      else (write_sectors d (unat (data_lba p Cluster)) (unat (ClusterSize p)) Buffer, True))"

definition Fat32GetNextCluster :: "drive \<times> FAT32_PARTITION \<Rightarrow> u32 \<Rightarrow> (FAT32_PARTITION \<times> u32) outcome" where
  "Fat32GetNextCluster v Cluster =
     (case v of (d, p) \<Rightarrow>
      if Cluster = FAT32_ENDOF_CHAIN then Inr (p, 0) else
      let p1 = cached_fat v (PrimaryFat p + drop_bit 7 Cluster)
      in andThen (array_get (FatSector p1) (unat (Cluster AND 0x7F))) (\<lambda>e. Inr (p1, e)))"

section \<open>The FAT as a function of the cluster\<close>

text \<open>The entry of a cluster in the first and in the second copy of the FAT.\<close>

definition fat1 :: "drive \<Rightarrow> FAT32_PARTITION \<Rightarrow> nat \<Rightarrow> u32" where
  "fat1 d p c = fat_sector d (unat (PrimaryFat p) + c div 128) ! (c mod 128)"

definition fat2 :: "drive \<Rightarrow> FAT32_PARTITION \<Rightarrow> nat \<Rightarrow> u32" where
  "fat2 d p c = fat_sector d (unat (PrimaryFat p) + unat (SectorsPerFat p) + c div 128) ! (c mod 128)"

text \<open>
  A partition whose FATs lie within 32-bit sector numbers and whose cluster numbers stay below the end mark; and a drive
  with complete FAT sectors, equal copies and reserved entry 0 in use.
\<close>

definition geometry_ok :: "FAT32_PARTITION \<Rightarrow> bool" where
  "geometry_ok p \<longleftrightarrow> unat (PrimaryFat p) + 2 * unat (SectorsPerFat p) < 2 ^ 32 \<and> fat_entries p < 0x0FFFFFFF"

definition fats_ok :: "drive \<Rightarrow> FAT32_PARTITION \<Rightarrow> bool" where
  "fats_ok d p \<longleftrightarrow> (\<forall>x < 2 * unat (SectorsPerFat p). length (fat_sector d (unat (PrimaryFat p) + x)) = 128) \<and>
     (\<forall>c < fat_entries p. fat2 d p c = fat1 d p c) \<and> fat1 d p 0 \<noteq> 0"

lemma fat_lba:
  assumes "geometry_ok p" and "x < unat (SectorsPerFat p)"
  shows "unat (PrimaryFat p + of_nat x) = unat (PrimaryFat p) + x"
    and "unat (SecondaryFat p + of_nat x) = unat (PrimaryFat p) + unat (SectorsPerFat p) + x"
proof -
  have x: "unat (of_nat x :: u32) = x" using assms by (simp add: geometry_ok_def unsigned_of_nat take_bit_nat_eq_self)
  show "unat (PrimaryFat p + of_nat x) = unat (PrimaryFat p) + x"
    using assms x by (subst unat_add_lem [THEN iffD1]) (simp_all add: geometry_ok_def)
  have s: "unat (SecondaryFat p) = unat (PrimaryFat p) + unat (SectorsPerFat p)"
    unfolding SecondaryFat_def using assms by (subst unat_add_lem [THEN iffD1]) (simp_all add: geometry_ok_def)
  show "unat (SecondaryFat p + of_nat x) = unat (PrimaryFat p) + unat (SectorsPerFat p) + x"
    using assms x s by (subst unat_add_lem [THEN iffD1]) (simp_all add: geometry_ok_def)
qed

text \<open>The 128 entries of sector \<open>x\<close> of a FAT given as a function.\<close>

definition secmap :: "(nat \<Rightarrow> u32) \<Rightarrow> nat \<Rightarrow> u32 list" where
  "secmap g x = map (\<lambda>k. g (128 * x + k)) [0..<128]"

lemma secmap_nth: "k < 128 \<Longrightarrow> secmap g x ! k = g (128 * x + k)"
  by (simp add: secmap_def)

lemma length_secmap [simp]: "length (secmap g x) = 128"
  by (simp add: secmap_def)

lemma secmap_upd: "k < 128 \<Longrightarrow> (secmap g x)[k := v] = secmap (g(128 * x + k := v)) x"
  by (rule nth_equalityI) (auto simp: secmap_nth nth_list_update)

lemma secmap_upd_at: "c div 128 = x \<Longrightarrow> (secmap g x)[c mod 128 := v] = secmap (g(c := v)) x"
  using secmap_upd [of "c mod 128" g x v] by (metis mod_less_divisor mult_div_mod_eq zero_less_numeral)

lemma secmap_upd_other: "c div 128 \<noteq> x \<Longrightarrow> secmap (g(c := v)) x = secmap g x"
  by (rule nth_equalityI) (auto simp: secmap_nth)

lemma fat_sector_secmap:
  "fats_ok d p \<Longrightarrow> x < unat (SectorsPerFat p) \<Longrightarrow> fat_sector d (unat (PrimaryFat p) + x) = secmap (fat1 d p) x"
  by (rule nth_equalityI) (auto simp: fats_ok_def fat1_def secmap_nth)

lemma fat_sector2_secmap:
  assumes "fats_ok d p" and "x < unat (SectorsPerFat p)"
  shows "fat_sector d (unat (PrimaryFat p) + unat (SectorsPerFat p) + x) = secmap (fat1 d p) x"
proof (rule nth_equalityI)
  show "length (fat_sector d (unat (PrimaryFat p) + unat (SectorsPerFat p) + x)) = length (secmap (fat1 d p) x)"
    using assms by (simp add: fats_ok_def add.assoc)
  fix k assume "k < length (fat_sector d (unat (PrimaryFat p) + unat (SectorsPerFat p) + x))"
  then have k: "k < 128" using assms by (simp add: fats_ok_def add.assoc)
  then have "fat2 d p (128 * x + k) = fat1 d p (128 * x + k)" using assms by (simp add: fats_ok_def fat_entries_def)
  then show "fat_sector d (unat (PrimaryFat p) + unat (SectorsPerFat p) + x) ! k = secmap (fat1 d p) x ! k"
    using k by (simp add: secmap_nth fat2_def)
qed

section \<open>Linking free clusters\<close>

text \<open>The FAT \<open>f\<close> with each cluster of the list linked to the next one; the last keeps its entry.\<close>

fun link_up :: "(nat \<Rightarrow> u32) \<Rightarrow> nat list \<Rightarrow> nat \<Rightarrow> u32" where
  "link_up f (c # d # cs) = (link_up f (d # cs))(c := of_nat d)"
| "link_up f _ = f"

lemma link_up_snoc: "a \<noteq> [] \<Longrightarrow> distinct (a @ [c]) \<Longrightarrow> link_up f (a @ [c]) = (link_up f a)(last a := of_nat c)"
proof (induction f a rule: link_up.induct)
  case (1 f b d cs)
  have "b \<noteq> last (d # cs)" using 1(3) last_in_set [of "d # cs"] by auto
  then have "(link_up f (d # cs))(last (d # cs) := of_nat c, b := of_nat d) =
      (link_up f (d # cs))(b := of_nat d, last (d # cs) := of_nat c)" by (metis fun_upd_twist)
  moreover have "link_up f ((d # cs) @ [c]) = (link_up f (d # cs))(last (d # cs) := of_nat c)"
    using 1 by (metis append_Cons distinct.simps(2) list.distinct(1))
  ultimately show ?case by (metis append_Cons last_ConsR link_up.simps(1) list.distinct(1))
qed simp_all

lemma link_up_other: "c \<notin> set a \<or> (a \<noteq> [] \<and> distinct a \<and> c = last a) \<Longrightarrow> link_up f a c = f c"
  by (induction f a rule: link_up.induct) auto

text \<open>A chain of clusters that ends with the end mark.\<close>

fun fat_chain :: "(nat \<Rightarrow> u32) \<Rightarrow> nat list \<Rightarrow> bool" where
  "fat_chain g [] \<longleftrightarrow> False"
| "fat_chain g [c] \<longleftrightarrow> g c = FAT32_ENDOF_CHAIN"
| "fat_chain g (c # d # cs) \<longleftrightarrow> g c = of_nat d \<and> fat_chain g (d # cs)"

lemma fat_chain_cong: "(\<And>c. c \<in> set cs \<Longrightarrow> g c = h c) \<Longrightarrow> fat_chain g cs = fat_chain h cs"
  by (induction g cs rule: fat_chain.induct) auto

lemma link_up_chain: "cs \<noteq> [] \<Longrightarrow> distinct cs \<Longrightarrow> fat_chain ((link_up f cs)(last cs := FAT32_ENDOF_CHAIN)) cs"
proof (induction f cs rule: link_up.induct)
  case (1 f c d cs)
  have chain: "fat_chain ((link_up f (c # d # cs))(last (d # cs) := FAT32_ENDOF_CHAIN)) (d # cs) =
      fat_chain ((link_up f (d # cs))(last (d # cs) := FAT32_ENDOF_CHAIN)) (d # cs)"
    using 1(3) by (intro fat_chain_cong) auto
  have "c \<noteq> last (d # cs)" using 1(3) last_in_set [of "d # cs"] by auto
  then have "((link_up f (c # d # cs))(last (d # cs) := FAT32_ENDOF_CHAIN)) c = of_nat d" by (metis fun_upd_apply link_up.simps(1))
  moreover have "fat_chain ((link_up f (d # cs))(last (d # cs) := FAT32_ENDOF_CHAIN)) (d # cs)" using 1 by (metis distinct.simps(2) list.distinct(1))
  ultimately show ?case using chain by (metis fat_chain.simps(3) last_ConsR list.distinct(1))
qed simp_all

section \<open>The allocation loops\<close>

definition free_upto :: "(nat \<Rightarrow> u32) \<Rightarrow> nat \<Rightarrow> nat list" where
  "free_upto f m = filter (\<lambda>c. f c = 0) [0..<m]"

lemma free_upto_Suc: "free_upto f (Suc m) = (if f m = 0 then free_upto f m @ [m] else free_upto f m)"
  by (simp add: free_upto_def)

lemma free_upto_0 [simp]: "free_upto f 0 = []"
  by (simp add: free_upto_def)

lemma free_upto_distinct [simp]: "distinct (free_upto f m)"
  by (simp add: free_upto_def)

lemma free_upto_mem [simp]: "c \<in> set (free_upto f m) \<longleftrightarrow> c < m \<and> f c = 0"
  by (auto simp: free_upto_def)

text \<open>Both copies of the FAT on the drive \<open>d\<close> are \<open>g\<close>, and no other sector differs from \<open>d0\<close>; sector \<open>x\<close> may be excepted.\<close>

definition fats_are :: "drive \<Rightarrow> FAT32_PARTITION \<Rightarrow> (nat \<Rightarrow> u32) \<Rightarrow> nat set \<Rightarrow> drive \<Rightarrow> bool" where
  "fats_are d0 p g X d \<longleftrightarrow>
     (\<forall>y < unat (SectorsPerFat p). y \<notin> X \<longrightarrow> fat_sector d (unat (PrimaryFat p) + y) = secmap g y \<and>
        fat_sector d (unat (PrimaryFat p) + unat (SectorsPerFat p) + y) = secmap g y) \<and>
     (\<forall>l. \<not> (unat (PrimaryFat p) \<le> l \<and> l < unat (PrimaryFat p) + 2 * unat (SectorsPerFat p)) \<longrightarrow> d l = d0 l)"

lemma fats_are_write:
  assumes g: "geometry_ok p" and z: "z < unat (SectorsPerFat p)" and d: "fats_are d0 p g X d"
    and other: "\<And>y. y \<noteq> z \<Longrightarrow> secmap h y = secmap g y" and X': "X \<subseteq> insert z X'"
  shows "fats_are d0 p h X' (write_both p (of_nat z) (secmap h z) d)"
proof -
  let ?P = "unat (PrimaryFat p)" and ?S = "unat (SectorsPerFat p)"
  have w: "write_both p (of_nat z) (secmap h z) d =
      write_fat_sector (write_fat_sector d (?P + z) (secmap h z)) (?P + ?S + z) (secmap h z)"
    by (simp add: write_both_def fat_lba [OF g z])
  show ?thesis unfolding fats_are_def w
  proof (intro conjI allI impI)
    fix y assume y: "y < ?S" "y \<notin> X'"
    show "fat_sector (write_fat_sector (write_fat_sector d (?P + z) (secmap h z)) (?P + ?S + z) (secmap h z)) (?P + y) = secmap h y"
      using y z d other X' by (auto simp: fats_are_def)
    show "fat_sector (write_fat_sector (write_fat_sector d (?P + z) (secmap h z)) (?P + ?S + z) (secmap h z)) (?P + ?S + y) = secmap h y"
      using y z d other X' by (auto simp: fats_are_def)
  next
    fix l assume "\<not> (?P \<le> l \<and> l < ?P + 2 * ?S)"
    then show "write_fat_sector (write_fat_sector d (?P + z) (secmap h z)) (?P + ?S + z) (secmap h z) l = d0 l"
      using z d by (auto simp: fats_are_def write_fat_sector_def)
  qed
qed

lemma fats_are_mono: "fats_are d0 p g X d \<Longrightarrow> (\<And>y. y \<notin> X' \<Longrightarrow> y \<notin> X \<and> secmap h y = secmap g y) \<Longrightarrow> fats_are d0 p h X' d"
  by (auto simp: fats_are_def)

text \<open>
  The loop invariant: every free cluster below \<open>m\<close> has been taken and linked to the next one, up to the entry of the last.
\<close>

definition alloc_inv :: "drive \<Rightarrow> FAT32_PARTITION \<Rightarrow> nat \<Rightarrow> nat \<Rightarrow> alloc_state \<Rightarrow> bool" where
  "alloc_inv d0 p x m st \<longleftrightarrow>
     (let a = free_upto (fat1 d0 p) m; g = link_up (fat1 d0 p) a
      in AllocatedClusters st = of_nat (length a) \<and> GeneralPurposeSector st = secmap g x \<and>
         fats_are d0 p g (if PendingWrite st then {x} else {}) (al_drive st) \<and>
         (if a = [] then LastCluster st = 0 \<and> Pending st = 0 \<and> \<not> PendingWrite st
          else LastCluster st = of_nat (last a) \<and> LastIndex st = last a mod 128 \<and> LastFatSector st = of_nat (last a div 128) \<and>
               ChainStart st = of_nat (hd a) \<and> Pending st = (if last a div 128 = x then 1 else 2) \<and>
               PendingWrite st = (last a div 128 = x) \<and>
               (last a div 128 \<noteq> x \<longrightarrow> SecondaryPurposeSector st = secmap g (last a div 128))))"

lemma cluster_no_of_nat: "cluster_no (of_nat x) i = of_nat (128 * x + i)"
  by (simp add: cluster_no_def push_bit_eq_mult)

lemma take_cluster_inv:
  assumes g: "geometry_ok p" and f0: "fat1 d0 p 0 \<noteq> 0" and x: "x < unat (SectorsPerFat p)" and i: "i < 128" "m = 128 * x + i"
    and free: "fat1 d0 p m = 0" and inv: "alloc_inv d0 p x m st"
  shows "alloc_inv d0 p x (Suc m) (take_cluster p (of_nat x) i st)"
proof -
  let ?f = "fat1 d0 p"
  define a where "a = free_upto ?f m"
  have a': "free_upto ?f (Suc m) = a @ [m]" using free by (simp add: free_upto_Suc a_def)
  have mx: "m div 128 = x" "m mod 128 = i" using i by simp_all
  have m32: "m < 2 ^ 32" using g x i by (auto simp: geometry_ok_def fat_entries_def)
  note inv' = inv [unfolded alloc_inv_def Let_def a_def [symmetric]]
  note no = cluster_no_of_nat [of x i, folded i(2)]
  show ?thesis
  proof (cases "a = []")
    case True
    then show ?thesis
      using inv' mx by (auto simp: alloc_inv_def a' Let_def take_cluster_def link_previous_def no elim: fats_are_mono)
  next
    case False
    let ?z = "last a div 128"
    let ?h = "link_up ?f (a @ [m])"
    have la: "last a < m" "last a \<noteq> 0" using last_in_set [OF False] f0 by (auto simp: a_def intro: gr0I)
    have nz: "(of_nat (last a) :: u32) \<noteq> 0"
      using la m32 by (simp add: word_of_nat_eq_0_iff nat_dvd_not_less)
    have "distinct (a @ [m])" unfolding a'[symmetric] by simp
    then have h: "?h = (link_up ?f a)(last a := of_nat m)" using False by (rule link_up_snoc [rotated])
    have other: "secmap ?h y = secmap (link_up ?f a) y" if "y \<noteq> ?z" for y unfolding h using that by (simp add: secmap_upd_other)
    show ?thesis
    proof (cases "?z = x")
      case True
      have "(secmap (link_up ?f a) x)[last a mod 128 := of_nat m] = secmap ?h x" unfolding h by (rule secmap_upd_at [OF True])
      moreover have "fats_are d0 p ?h {x} (al_drive st)"
        using inv' False True other by (auto elim!: fats_are_mono)
      ultimately show ?thesis
        using inv' False True nz mx by (simp add: alloc_inv_def a' Let_def take_cluster_def link_previous_def no)
    next
      case z: False
      have zS: "?z < unat (SectorsPerFat p)" using la i x by linarith
      have "(secmap (link_up ?f a) ?z)[last a mod 128 := of_nat m] = secmap ?h ?z" unfolding h by (rule secmap_upd_at [OF refl])
      moreover have "fats_are d0 p ?h {x} (write_both p (of_nat ?z) (secmap ?h ?z) (al_drive st))"
        using inv' False z by (intro fats_are_write [OF g zS _ other]) auto
      ultimately show ?thesis
        using inv' False z nz mx other [of x] by (simp add: alloc_inv_def a' Let_def take_cluster_def link_previous_def no)
    qed
  qed
qed

text \<open>The chain is complete: the clusters \<open>cs\<close> are linked and ended, in both FATs.\<close>

definition alloc_done :: "drive \<Rightarrow> FAT32_PARTITION \<Rightarrow> nat list \<Rightarrow> alloc_state \<Rightarrow> bool" where
  "alloc_done d0 p cs st \<longleftrightarrow>
     (let h = (link_up (fat1 d0 p) cs)(last cs := FAT32_ENDOF_CHAIN)
      in cs \<noteq> [] \<and> fats_are d0 p h {} (al_drive st) \<and> ChainStart st = of_nat (hd cs) \<and> LastCluster st = of_nat (last cs) \<and>
         LastFatSector st = of_nat (last cs div 128) \<and> GeneralPurposeSector st = secmap h (last cs div 128))"

lemma finish_chain_done:
  assumes g: "geometry_ok p" and x: "x < unat (SectorsPerFat p)" and i: "i < 128" "m = 128 * x + i"
    and free: "fat1 d0 p m = 0" and inv: "alloc_inv d0 p x (Suc m) st"
  shows "alloc_done d0 p (free_upto (fat1 d0 p) (Suc m)) (finish_chain p (of_nat x) i st)"
proof -
  define a where "a = free_upto (fat1 d0 p) (Suc m)"
  have a: "a \<noteq> []" "last a = m" using free by (simp_all add: a_def free_upto_Suc)
  have mx: "m div 128 = x" "m mod 128 = i" using i by simp_all
  let ?h = "(link_up (fat1 d0 p) a)(m := FAT32_ENDOF_CHAIN)"
  note inv' = inv [unfolded alloc_inv_def Let_def a_def [symmetric]]
  have gp: "(secmap (link_up (fat1 d0 p) a) x)[i := FAT32_ENDOF_CHAIN] = secmap ?h x"
    using secmap_upd_at [OF mx(1), of "link_up (fat1 d0 p) a" FAT32_ENDOF_CHAIN] mx(2) by simp
  have "fats_are d0 p ?h {} (write_both p (of_nat x) (secmap ?h x) (al_drive st))"
    by (rule fats_are_write [OF g x, where g = "link_up (fat1 d0 p) a" and X = "if PendingWrite st then {x} else {}"])
      (use inv' mx in \<open>auto simp: secmap_upd_other\<close>)
  then show ?thesis
    using inv' a mx by (simp add: alloc_done_def a_def [symmetric] finish_chain_def Let_def gp)
qed

lemma alloc_entries_ok:
  assumes g: "geometry_ok p" and f0: "fat1 d0 p 0 \<noteq> 0" and x: "x < unat (SectorsPerFat p)" and n: "n < 2 ^ 32"
  shows "i \<le> 128 \<Longrightarrow> alloc_inv d0 p x (128 * x + i) st \<Longrightarrow> length (free_upto (fat1 d0 p) (128 * x + i)) < n \<Longrightarrow>
    (case alloc_entries p (of_nat n) (of_nat x) [i..<128] st of
       (st', True) \<Rightarrow> \<exists>m \<le> 128 * x + 128. length (free_upto (fat1 d0 p) m) = n \<and> alloc_done d0 p (free_upto (fat1 d0 p) m) st'
     | (st', False) \<Rightarrow> alloc_inv d0 p x (128 * x + 128) st' \<and> length (free_upto (fat1 d0 p) (128 * x + 128)) < n)"
proof (induction "128 - i" arbitrary: i st)
  case 0
  then show ?case by simp
next
  case (Suc k)
  let ?m = "128 * x + i"
  have i: "i < 128" using Suc.hyps(2) by simp
  then have up: "[i..<128] = i # [Suc i..<128]" by (rule upt_conv_Cons)
  have k: "k = 128 - Suc i" using Suc.hyps(2) by simp
  have gp: "GeneralPurposeSector st ! i = fat1 d0 p ?m"
    using Suc.prems(2) i by (simp add: alloc_inv_def Let_def secmap_nth link_up_other)
  have mS: "Suc ?m = 128 * x + Suc i" by simp
  show ?case
  proof (cases "fat1 d0 p ?m = 0")
    case True
    let ?st = "take_cluster p (of_nat x) i st"
    have inv1: "alloc_inv d0 p x (Suc ?m) ?st" by (rule take_cluster_inv [OF g f0 x i refl True Suc.prems(2)])
    have len: "length (free_upto (fat1 d0 p) (Suc ?m)) = Suc (length (free_upto (fat1 d0 p) ?m))"
      using True by (simp add: free_upto_Suc)
    have al: "AllocatedClusters ?st = of_nat (length (free_upto (fat1 d0 p) (Suc ?m)))"
      using inv1 by (simp add: alloc_inv_def Let_def)
    have eq: "AllocatedClusters ?st = of_nat n \<longleftrightarrow> length (free_upto (fat1 d0 p) (Suc ?m)) = n"
      unfolding al using len Suc.prems(3) n by (auto simp: of_nat_eq_iff word_of_nat_eq_iff take_bit_nat_eq_self simp del: of_nat_Suc)
    show ?thesis
    proof (cases "length (free_upto (fat1 d0 p) (Suc ?m)) = n")
      case fin: True
      then show ?thesis
        using gp True eq finish_chain_done [OF g x i refl True inv1] i by (auto simp: up Let_def intro!: exI [of _ "Suc ?m"])
    next
      case False
      then show ?thesis
        using Suc.hyps(1) [OF k, of ?st] inv1 gp True eq i len Suc.prems(3) unfolding mS by (simp add: up Let_def)
    qed
  next
    case False
    then have "alloc_inv d0 p x (Suc ?m) st" "length (free_upto (fat1 d0 p) (Suc ?m)) < n"
      using Suc.prems(2,3) by (simp_all add: alloc_inv_def free_upto_Suc)
    then show ?thesis using Suc.hyps(1) [OF k, of st] gp False i unfolding mS by (simp add: up)
  qed
qed

lemma end_of_sector_inv:
  assumes g: "geometry_ok p" and x: "x < unat (SectorsPerFat p)" and m: "m = 128 * Suc x" and inv: "alloc_inv d0 p x m st"
    and st': "st' = end_of_sector p (of_nat x) st"
  shows "alloc_inv d0 p (Suc x) m (st'\<lparr> GeneralPurposeSector := secmap (link_up (fat1 d0 p) (free_upto (fat1 d0 p) m)) (Suc x) \<rparr>)"
proof -
  define a where "a = free_upto (fat1 d0 p) m"
  let ?g = "link_up (fat1 d0 p) a"
  note inv' = inv [unfolded alloc_inv_def Let_def a_def [symmetric]]
  have la: "last a div 128 \<noteq> Suc x" if "a \<noteq> []"
    using last_in_set [OF that] by (auto simp: a_def m)
  have wr: "fats_are d0 p ?g {} (write_both p (of_nat x) (secmap ?g x) (al_drive st))" if "PendingWrite st"
    using inv' that by (intro fats_are_write [OF g x, where g = ?g and X = "{x}"]) auto
  have "fats_are d0 p ?g {} (al_drive st')"
    unfolding st' using inv' wr by (cases "PendingWrite st") (simp_all add: end_of_sector_def Let_def)
  then show ?thesis
    unfolding a_def [symmetric] using inv' la
    by (cases "a = []") (simp_all add: alloc_inv_def a_def [symmetric] Let_def st' end_of_sector_def split: if_splits)
qed

lemma alloc_inv_clean:
  assumes "alloc_inv d0 p x (128 * x) st"
  shows "fats_are d0 p (link_up (fat1 d0 p) (free_upto (fat1 d0 p) (128 * x))) {} (al_drive st)"
proof -
  define a where "a = free_upto (fat1 d0 p) (128 * x)"
  have "last a div 128 \<noteq> x" if "a \<noteq> []" using last_in_set [OF that] by (auto simp: a_def)
  then have "\<not> PendingWrite st" using assms by (auto simp: alloc_inv_def Let_def a_def split: if_splits)
  then show ?thesis using assms by (simp add: alloc_inv_def Let_def)
qed

lemma alloc_sectors_ok:
  assumes g: "geometry_ok p" and f0: "fat1 d0 p 0 \<noteq> 0" and n: "n < 2 ^ 32"
  shows "x \<le> unat (SectorsPerFat p) \<Longrightarrow>
    alloc_inv d0 p x (128 * x) (st\<lparr> GeneralPurposeSector := secmap (link_up (fat1 d0 p) (free_upto (fat1 d0 p) (128 * x))) x \<rparr>) \<Longrightarrow>
    length (free_upto (fat1 d0 p) (128 * x)) < n \<Longrightarrow>
    (case alloc_sectors p (of_nat n) (map of_nat [x..<unat (SectorsPerFat p)]) st of
       (st', True) \<Rightarrow> \<exists>m \<le> fat_entries p. length (free_upto (fat1 d0 p) m) = n \<and> alloc_done d0 p (free_upto (fat1 d0 p) m) st'
     | (st', False) \<Rightarrow> length (free_upto (fat1 d0 p) (fat_entries p)) < n)"
proof (induction "unat (SectorsPerFat p) - x" arbitrary: x st)
  case 0
  then show ?case by (simp add: fat_entries_def)
next
  case (Suc k)
  let ?S = "unat (SectorsPerFat p)" and ?G = "\<lambda>x. secmap (link_up (fat1 d0 p) (free_upto (fat1 d0 p) (128 * x))) x"
  have x: "x < ?S" using Suc.hyps(2) by simp
  have k: "k = ?S - Suc x" using Suc.hyps(2) by simp
  have up: "[x..<?S] = x # [Suc x..<?S]" using x by (rule upt_conv_Cons)
  let ?st = "st\<lparr> GeneralPurposeSector := ?G x \<rparr>"
  have "fat_sector (al_drive st) (unat (PrimaryFat p) + x) = ?G x"
    using alloc_inv_clean [OF Suc.prems(2)] x by (simp add: fats_are_def)
  then have rd: "st\<lparr> GeneralPurposeSector := fat_sector (al_drive st) (unat (PrimaryFat p + of_nat x)) \<rparr> = ?st"
    by (simp add: fat_lba [OF g x])
  obtain st1 fin where e: "alloc_entries p (of_nat n) (of_nat x) [0..<128] ?st = (st1, fin)" by fastforce
  note step = alloc_entries_ok [OF g f0 x n, of 0 ?st, simplified, OF Suc.prems(2,3), unfolded e]
  show ?case
  proof (cases fin)
    case True
    obtain m where "m \<le> 128 * x + 128" "length (free_upto (fat1 d0 p) m) = n" "alloc_done d0 p (free_upto (fat1 d0 p) m) st1"
      using step True by auto
    moreover from this have "m \<le> fat_entries p" using x by (simp add: fat_entries_def)
    ultimately show ?thesis using e rd True by (auto simp: up)
  next
    case False
    have s: "128 * x + 128 = 128 * Suc x" by simp
    have inv1: "alloc_inv d0 p x (128 * Suc x) st1 \<and> length (free_upto (fat1 d0 p) (128 * Suc x)) < n"
      using step False unfolding s by simp
    have "alloc_inv d0 p (Suc x) (128 * Suc x) ((end_of_sector p (of_nat x) st1)\<lparr> GeneralPurposeSector := ?G (Suc x) \<rparr>)"
      by (rule end_of_sector_inv [OF g x refl conjunct1 [OF inv1] refl])
    then show ?thesis
      using Suc.hyps(1) [OF k, of "end_of_sector p (of_nat x) st1"] inv1 x e rd False by (simp add: up)
  qed
qed

section \<open>Following a chain\<close>

lemma cluster_parts:
  assumes "geometry_ok p" and "c < fat_entries p"
  shows "drop_bit 7 (of_nat c :: u32) = of_nat (c div 128)" and "unat ((of_nat c :: u32) AND 0x7F) = c mod 128"
    and "(of_nat c :: u32) \<noteq> FAT32_ENDOF_CHAIN" and "unat (of_nat c :: u32) = c"
proof -
  show c: "unat (of_nat c :: u32) = c"
    using assms by (simp add: geometry_ok_def unsigned_of_nat take_bit_nat_eq_self)
  have "c div 128 < 2 ^ 32" using assms by (intro le_less_trans [OF div_le_dividend]) (simp add: geometry_ok_def)
  then have "unat (of_nat (c div 128) :: u32) = c div 128" by (simp add: unsigned_of_nat take_bit_nat_eq_self)
  moreover have "unat (drop_bit 7 (of_nat c :: u32)) = c div 128"
    by (subst unat_drop_bit_eq) (simp add: c drop_bit_eq_div)
  ultimately show "drop_bit 7 (of_nat c :: u32) = of_nat (c div 128)" by (intro word_unat_eq_iff [THEN iffD2]) (simp only:)
  show "unat ((of_nat c :: u32) AND 0x7F) = c mod 128"
    using and_mask_mod [of "of_nat c :: u32" 7] by (simp add: c mask_eq_exp_minus_1)
  show "(of_nat c :: u32) \<noteq> FAT32_ENDOF_CHAIN"
  proof
    assume "(of_nat c :: u32) = FAT32_ENDOF_CHAIN"
    then have "unat (of_nat c :: u32) = 0x0FFFFFFF" by (simp add: FAT32_ENDOF_CHAIN_def)
    then show False using c assms by (simp add: geometry_ok_def)
  qed
qed

lemma sector_no_inj:
  assumes g: "geometry_ok p" and "x < unat (SectorsPerFat p)" "y < unat (SectorsPerFat p)" and "(of_nat x :: u32) = of_nat y"
  shows "y = x"
proof -
  have "unat (of_nat x :: u32) = x" by (rule unat_of_nat_u32) (use assms(1,2) in \<open>simp add: geometry_ok_def\<close>)
  moreover have "unat (of_nat y :: u32) = y" by (rule unat_of_nat_u32) (use assms(1,3) in \<open>simp add: geometry_ok_def\<close>)
  ultimately show ?thesis using assms(4) by metis
qed

lemma find_end_ok:
  assumes g: "geometry_ok p" and d: "\<And>y. y < unat (SectorsPerFat p) \<Longrightarrow> fat_sector d (unat (PrimaryFat p) + y) = secmap f y"
  shows "fat_chain f cs \<Longrightarrow> \<forall>c \<in> set cs. c < fat_entries p \<Longrightarrow> length cs \<le> n \<Longrightarrow>
    (\<And>y. y < unat (SectorsPerFat p) \<Longrightarrow> Last = of_nat y \<Longrightarrow> buf = secmap f y) \<Longrightarrow>
    find_end n p d (of_nat (hd cs)) Last buf = Inr (of_nat (last cs), secmap f (last cs div 128))"
proof (induction cs arbitrary: n Last buf)
  case Nil
  then show ?case by simp
next
  case step: (Cons c cs)
  have c: "c < fat_entries p" "c div 128 < unat (SectorsPerFat p)" using step.prems by (auto simp: fat_entries_def)
  obtain k where k: "n = Suc k" using step.prems(3) by (cases n) auto
  have rd: "(if drop_bit 7 (of_nat c) \<noteq> Last then fat_sector d (unat (PrimaryFat p + drop_bit 7 (of_nat c))) else buf) = secmap f (c div 128)"
    using step.prems(4) [OF c(2)] by (auto simp: cluster_parts [OF g c(1)] fat_lba [OF g c(2)] d [OF c(2)])
  have rd2: "array_get (secmap f (c div 128)) (unat ((of_nat c :: u32) AND 0x7F)) = Inr (f c)"
    by (simp add: cluster_parts [OF g c(1)] secmap_nth)
  show ?case
  proof (cases cs)
    case Nil
    then show ?thesis using step.prems(1) rd2 unfolding k find_end.simps list.sel Let_def rd by simp
  next
    case (Cons e es)
    have e: "e < fat_entries p" using step.prems Cons by simp
    have same: "y = c div 128" if "y < unat (SectorsPerFat p)" "(of_nat (c div 128) :: u32) = of_nat y" for y
      by (rule sector_no_inj [OF g c(2) that])
    have "find_end k p d (of_nat (hd cs)) (of_nat (c div 128)) (secmap f (c div 128)) = Inr (of_nat (last cs), secmap f (last cs div 128))"
      using step.prems k same Cons by (intro step.IH) auto
    then show ?thesis using step.prems(1) rd2 Cons cluster_parts(3) [OF g e]
      unfolding k find_end.simps list.sel Let_def rd by (simp add: cluster_parts [OF g c(1)])
  qed
qed

section \<open>Allocation is correct\<close>

definition fs_info_ok :: "FAT32_PARTITION \<Rightarrow> bool" where
  "fs_info_ok p \<longleftrightarrow> unat (HiddenSectors p + ucast (FsInfoLba p)) < unat (PrimaryFat p) \<and> unat (SecondaryFsInfo p) < unat (PrimaryFat p)"

lemma free_upto_take: "m \<le> k \<Longrightarrow> take (length (free_upto f m)) (free_upto f k) = free_upto f m"
proof -
  assume "m \<le> k"
  then have "free_upto f k = free_upto f m @ filter (\<lambda>c. f c = 0) [m..<k]"
    unfolding free_upto_def by (metis filter_append le_add_diff_inverse upt_add_eq_append zero_le)
  then show ?thesis by simp
qed

lemma alloc_new_chain:
  assumes g: "geometry_ok p" and ok: "fats_ok d p" and n: "0 < n"
    and cs: "cs = take n (free_upto (fat1 d p) (fat_entries p))" "length cs = n"
  obtains st where "alloc_sectors p (of_nat n) (map of_nat [0..<unat (SectorsPerFat p)]) (alloc_init d) = (st, True)"
    and "alloc_done d p cs st"
proof -
  have le: "n \<le> length (free_upto (fat1 d p) (fat_entries p))" using cs by simp
  also have "\<dots> \<le> fat_entries p" unfolding free_upto_def by (rule order_trans [OF length_filter_le]) simp
  finally have n32: "n < 2 ^ 32" using g by (simp add: geometry_ok_def)
  have f0: "fat1 d p 0 \<noteq> 0" using ok by (simp add: fats_ok_def)
  have "fats_are d p (fat1 d p) {} d"
    using fat_sector_secmap [OF ok] fat_sector2_secmap [OF ok] by (simp add: fats_are_def)
  then have init: "alloc_inv d p 0 (128 * 0) ((alloc_init d)\<lparr> GeneralPurposeSector := secmap (link_up (fat1 d p) (free_upto (fat1 d p) (128 * 0))) 0 \<rparr>)"
    by (simp add: alloc_inv_def alloc_init_def)
  obtain st fin where e: "alloc_sectors p (of_nat n) (map of_nat [0..<unat (SectorsPerFat p)]) (alloc_init d) = (st, fin)" by fastforce
  have res: "case fin of True \<Rightarrow> \<exists>m \<le> fat_entries p. length (free_upto (fat1 d p) m) = n \<and> alloc_done d p (free_upto (fat1 d p) m) st
      | False \<Rightarrow> length (free_upto (fat1 d p) (fat_entries p)) < n"
    using alloc_sectors_ok [OF g f0 n32 _ init] n unfolding e by simp
  then have fin unfolding not_less [symmetric] using le by (auto split: bool.splits)
  then obtain m where "m \<le> fat_entries p" "length (free_upto (fat1 d p) m) = n" "alloc_done d p (free_upto (fat1 d p) m) st"
    using res by auto
  moreover from this have "free_upto (fat1 d p) m = cs" unfolding cs(1) using free_upto_take by metis
  ultimately show ?thesis using that e \<open>fin\<close> by simp
qed

lemma fats_are_read:
  assumes "fats_are d0 p g {} d" and "c < fat_entries p"
  shows "fat1 d p c = g c" and "fat2 d p c = g c"
  using assms by (auto simp: fats_are_def fat1_def fat2_def fat_entries_def secmap_nth less_mult_imp_div_less mult.commute)

lemma fats_below:
  assumes "\<And>l. unat (PrimaryFat p) \<le> l \<Longrightarrow> d' l = d l"
  shows "fat1 d' p c = fat1 d p c" and "fat2 d' p c = fat2 d p c"
  using assms by (simp_all add: fat1_def fat2_def fat_sector_def)

lemma fat_chain_append:
  "fat_chain h old \<Longrightarrow> distinct old \<Longrightarrow> fat_chain h cs \<Longrightarrow> last old \<notin> set cs \<Longrightarrow>
     fat_chain (h(last old := of_nat (hd cs))) (old @ cs)"
proof (induction h old rule: fat_chain.induct)
  case (1 h)
  then show ?case by simp
next
  case (2 h c)
  have "fat_chain (h(c := of_nat (hd cs))) cs = fat_chain h cs" using 2 by (intro fat_chain_cong) auto
  then show ?case using 2 by (cases cs) (auto simp: fun_upd_def)
next
  case (3 h c e es)
  have "last (e # es) \<noteq> c" using "3.prems"(2) last_in_set [of "e # es"] by auto
  then show ?case using 3 by auto
qed

lemma fats_are_upd:
  assumes g: "geometry_ok p" and d: "fats_are d0 p h {} d" and c: "c < fat_entries p"
  shows "fats_are d0 p (h(c := v)) {} (write_both p (drop_bit 7 (of_nat c)) ((secmap h (c div 128))[unat ((of_nat c :: u32) AND 0x7F) := v]) d)"
proof -
  have z: "c div 128 < unat (SectorsPerFat p)" using c by (auto simp: fat_entries_def)
  have "(secmap h (c div 128))[c mod 128 := v] = secmap (h(c := v)) (c div 128)" by (rule secmap_upd_at) simp
  then show ?thesis
    unfolding cluster_parts [OF g c]
    by (simp add: fats_are_write [OF g z d] secmap_upd_other)
qed

lemma append_chain_ok:
  assumes g: "geometry_ok p" and cs: "alloc_done d p cs st" and in_fat: "last cs < fat_entries p"
    and h: "h = (link_up (fat1 d p) cs)(last cs := FAT32_ENDOF_CHAIN)"
    and old: "fat_chain h old" "distinct old" "\<forall>c \<in> set old. c < fat_entries p"
  obtains d1 where "append_chain p (of_nat (hd old)) st = Inr d1" and "fats_are d p (h(last old := of_nat (hd cs))) {} d1"
proof -
  have st: "fats_are d p h {} (al_drive st)" "ChainStart st = of_nat (hd cs)"
      "LastFatSector st = of_nat (last cs div 128)" "GeneralPurposeSector st = secmap h (last cs div 128)"
    using cs by (simp_all add: alloc_done_def Let_def h)
  have sec: "fat_sector (al_drive st) (unat (PrimaryFat p) + y) = secmap h y" if "y < unat (SectorsPerFat p)" for y
    using st(1) that by (simp add: fats_are_def)
  have ne: "old \<noteq> []" using old(1) by auto
  have "card (set old) \<le> card {..<fat_entries p}" by (rule card_mono) (use old(3) in auto)
  then have len: "length old \<le> fat_entries p" using old(2) by (simp add: distinct_card)
  have fe: "find_end (fat_entries p) p (al_drive st) (of_nat (hd old)) (LastFatSector st) (GeneralPurposeSector st) =
      Inr (of_nat (last old), secmap h (last old div 128))"
  proof (rule find_end_ok [OF g sec old(1,3) len])
    fix y assume y: "y < unat (SectorsPerFat p)" "LastFatSector st = of_nat y"
    have "last cs div 128 < unat (SectorsPerFat p)" using in_fat by (auto simp: fat_entries_def)
    then have "y = last cs div 128" using y st(3) by (intro sector_no_inj [OF g]) simp_all
    then show "GeneralPurposeSector st = secmap h y" using st(4) by simp
  qed
  have "last old < fat_entries p" using old(3) ne by simp
  then show ?thesis
    using that fe fats_are_upd [OF g st(1), of "last old" "of_nat (hd cs)"] by (simp add: append_chain_def st(2))
qed

text \<open>A chain of the FAT as the driver lays it out, starting at a data cluster.\<close>

definition chain_at :: "drive \<Rightarrow> FAT32_PARTITION \<Rightarrow> nat list \<Rightarrow> bool" where
  "chain_at d p cs \<longleftrightarrow> fat_chain (fat1 d p) cs \<and> distinct cs \<and> (\<forall>c \<in> set cs. 2 \<le> c \<and> c < fat_entries p)"

lemma fat_chain_used:
  assumes g: "geometry_ok p"
  shows "fat_chain f cs \<Longrightarrow> \<forall>c \<in> set cs. 2 \<le> c \<and> c < fat_entries p \<Longrightarrow> c \<in> set cs \<Longrightarrow> f c \<noteq> 0"
proof (induction f cs rule: fat_chain.induct)
  case (3 f b e es)
  have "unat (of_nat e :: u32) = e" using "3.prems"(2) by (intro cluster_parts(4) [OF g]) simp
  then have "(of_nat e :: u32) \<noteq> 0" using "3.prems"(2) by (metis list.set_intros(1,2) not_numeral_le_zero unsigned_0)
  then show ?case using 3 by auto
qed (auto simp: FAT32_ENDOF_CHAIN_def)

lemma done_fat:
  assumes cs: "cs \<noteq> []" "distinct cs" and h: "h = (link_up f cs)(last cs := FAT32_ENDOF_CHAIN)"
  shows "fat_chain h cs" and "c \<notin> set cs \<Longrightarrow> h c = f c"
proof -
  show "fat_chain h cs" unfolding h by (rule link_up_chain [OF cs])
  show "h c = f c" if "c \<notin> set cs"
  proof -
    have "c \<noteq> last cs" using that cs(1) last_in_set by metis
    then show ?thesis unfolding h by (simp add: link_up_other that)
  qed
qed

lemma alloc_and_append:
  assumes g: "geometry_ok p" and ok: "fats_ok d p" and n: "0 < n"
    and cs: "cs = take n (free_upto (fat1 d p) (fat_entries p))" "length cs = n"
    and old: "old = [] \<or> chain_at d p old" and start: "ClusterStart = (if old = [] then 0 else of_nat (hd old))"
  obtains st d1 h where "alloc_sectors p (of_nat n) (map of_nat [0..<unat (SectorsPerFat p)]) (alloc_init d) = (st, True)"
    and "(if ClusterStart \<noteq> 0 then append_chain p ClusterStart st else Inr (al_drive st)) = Inr d1"
    and "ChainStart st = of_nat (hd cs)" and "fats_are d p h {} d1" and "fat_chain h (old @ cs)"
    and "\<forall>c. c \<notin> set cs \<and> (old = [] \<or> c \<noteq> last old) \<longrightarrow> h c = fat1 d p c"
proof -
  obtain st where st: "alloc_sectors p (of_nat n) (map of_nat [0..<unat (SectorsPerFat p)]) (alloc_init d) = (st, True)"
    and dn: "alloc_done d p cs st"
    by (rule alloc_new_chain [OF g ok n cs])
  define h where "h = (link_up (fat1 d p) cs)(last cs := FAT32_ENDOF_CHAIN)"
  have ne: "cs \<noteq> []" using cs(2) n by auto
  have dist: "distinct cs" unfolding cs(1) by simp
  have free: "c < fat_entries p \<and> fat1 d p c = 0" if "c \<in> set cs" for c
    using that unfolding cs(1) free_upto_mem [symmetric] by (rule in_set_takeD)
  note hc = done_fat [OF ne dist h_def]
  have start': "ChainStart st = of_nat (hd cs)" and dr: "fats_are d p h {} (al_drive st)"
    using dn by (simp_all add: alloc_done_def Let_def h_def)
  show ?thesis
  proof (cases "old = []")
    case True
    then show ?thesis using that [OF st _ start' dr] hc start by simp
  next
    case False
    then have o: "fat_chain (fat1 d p) old" "distinct old" "\<forall>c \<in> set old. 2 \<le> c \<and> c < fat_entries p" using old by (simp_all add: chain_at_def)
    have disj: "c \<notin> set cs" if "c \<in> set old" for c using free [of c] fat_chain_used [OF g o(1,3) that] by auto
    have oh: "fat_chain h old" using o(1) disj hc(2) by (subst fat_chain_cong [of old h "fat1 d p"]) auto
    have hd_old: "unat (of_nat (hd old) :: u32) = hd old" "2 \<le> hd old"
      using o(3) hd_in_set [OF False] by (auto intro!: cluster_parts(4) [OF g])
    then have nz: "ClusterStart \<noteq> 0" using start False by auto
    obtain d1 where d1: "append_chain p (of_nat (hd old)) st = Inr d1" "fats_are d p (h(last old := of_nat (hd cs))) {} d1"
      using append_chain_ok [OF g dn _ h_def oh o(2)] free ne o(3) by (metis last_in_set)
    have "fat_chain (h(last old := of_nat (hd cs))) (old @ cs)"
      by (rule fat_chain_append [OF oh o(2) hc(1)]) (use disj False in simp)
    then show ?thesis using that [OF st _ start' d1(2)] nz start False d1(1) hc(2) by simp
  qed
qed

section \<open>A small partition\<close>

definition demo_partition :: FAT32_PARTITION where
  "demo_partition = \<lparr> ClusterSize = 8, ReservedAreaSize = 16, FatCount = 2, HiddenSectors = 64, TotalSectors = 1000, SectorsPerFat = 1,
     RootDirStart = 2, FsInfoLba = 1, BootSectorCopyLba = 3, FreeClusters = 100, RecentlyAllocatedCluster = 0, SecondaryFsInfo = 4,
     RootDirLba = 82, FatSector = [], FatSectorNumber = 0 \<rparr>"

definition demo_fat :: "u32 list" where
  "demo_fat = [0xFFFFFFF8, 0xFFFFFFFF, 0x0FFFFFFF] @ replicate 125 0"

definition demo_drive :: drive where "demo_drive = (\<lambda>_. bytes_of demo_fat)"

lemma demo_fat1: "c < 128 \<Longrightarrow> fat1 demo_drive demo_partition c = demo_fat ! c" "c < 128 \<Longrightarrow> fat2 demo_drive demo_partition c = demo_fat ! c"
  by (simp_all add: fat1_def fat2_def fat_sector_def demo_drive_def)

lemma demo_sizes [simp]:
  "fat_entries demo_partition = 128" "unat (PrimaryFat demo_partition) = 80" "unat (SectorsPerFat demo_partition) = 1"
  "length demo_fat = 128" "cluster_limit demo_partition = 122"
  by (simp_all add: fat_entries_def demo_partition_def PrimaryFat_def demo_fat_def cluster_limit_def)

lemma demo_ok: "geometry_ok demo_partition" "fs_info_ok demo_partition" "fats_ok demo_drive demo_partition"
    "chain_at demo_drive demo_partition [2]"
  by (simp_all add: geometry_ok_def fs_info_ok_def fats_ok_def chain_at_def demo_fat1)
    (simp_all add: demo_partition_def demo_drive_def fat_sector_def demo_fat_def FAT32_ENDOF_CHAIN_def)

lemma demo_free: "[3, 4] = take 2 (free_upto (fat1 demo_drive demo_partition) (fat_entries demo_partition))"
proof -
  have "free_upto (fat1 demo_drive demo_partition) 5 = [3, 4]"
    by (simp add: free_upto_def upt_rec demo_fat1) (simp add: demo_fat_def)
  then show ?thesis using free_upto_take [of 5 128 "fat1 demo_drive demo_partition"] by (simp add: numeral_2_eq_2)
qed

section \<open>The allocator theorem\<close>

text \<open>
  C4.  \<open>Fat32AllocateClusterChain\<close> on a partition with two equal FATs: when the count of free clusters and the FAT both have room
  it returns the first free cluster; the first \<open>n\<close> free clusters form, in order, a chain that ends with the end mark, appended to the
  chain that starts at \<open>ClusterStart\<close> when there is one; every other entry keeps its value, both copies of the FAT stay equal, the
  count of free clusters falls by \<open>n\<close>, and no sector outside the FATs and the two information sectors changes.
\<close>

theorem Fat32AllocateClusterChain_allocates:
  assumes g: "geometry_ok p" and info: "fs_info_ok p" and ok: "fats_ok d p" and size: "ClusterSize p \<noteq> 0"
    and n: "0 < n" "n \<le> unat (FreeClusters p)"
    and cs: "cs = take n (free_upto (fat1 d p) (fat_entries p))" "length cs = n"
    and old: "old = [] \<or> chain_at d p old" and start: "ClusterStart = (if old = [] then 0 else of_nat (hd old))" "ClusterStart \<le> cluster_limit p"
  shows "\<exists>d' p'. Fat32AllocateClusterChain (d, p) ClusterStart (of_nat n) = Inr ((d', p'), of_nat (hd cs)) \<and>
    fat_chain (fat1 d' p) (old @ cs) \<and>
    (\<forall>c < fat_entries p. c \<notin> set cs \<and> (old = [] \<or> c \<noteq> last old) \<longrightarrow> fat1 d' p c = fat1 d p c) \<and>
    (\<forall>c < fat_entries p. fat2 d' p c = fat1 d' p c) \<and>
    unat (FreeClusters p') = unat (FreeClusters p) - n \<and>
    (\<forall>l. \<not> (unat (PrimaryFat p) \<le> l \<and> l < unat (PrimaryFat p) + 2 * unat (SectorsPerFat p)) \<and>
        l \<noteq> unat (HiddenSectors p + ucast (FsInfoLba p)) \<and> l \<noteq> unat (SecondaryFsInfo p) \<longrightarrow> d' l = d l)"
proof -
  obtain st d1 h where run: "alloc_sectors p (of_nat n) (map of_nat [0..<unat (SectorsPerFat p)]) (alloc_init d) = (st, True)"
      "(if ClusterStart \<noteq> 0 then append_chain p ClusterStart st else Inr (al_drive st)) = Inr d1" "ChainStart st = of_nat (hd cs)"
    and h: "fats_are d p h {} d1" "fat_chain h (old @ cs)" "\<forall>c. c \<notin> set cs \<and> (old = [] \<or> c \<noteq> last old) \<longrightarrow> h c = fat1 d p c"
    by (rule alloc_and_append [OF g ok n(1) cs old start(1)])
  have n32: "unat (of_nat n :: u32) = n" using n(2) unsigned_less [of "FreeClusters p", where 'a = nat] by (intro unat_of_nat_u32) simp
  then have nn: "(of_nat n :: u32) \<noteq> 0" "\<not> FreeClusters p < of_nat n" using n by (auto simp: word_less_nat_alt)
  have c2: "\<not> (ClusterStart \<noteq> 0 \<and> ClusterStart < 2)"
  proof (cases "old = []")
    case False
    then have "2 \<le> hd old" "hd old < fat_entries p" using old by (auto simp: chain_at_def)
    then show ?thesis using start(1) False cluster_parts(4) [OF g] by (simp add: word_less_nat_alt)
  qed (simp add: start)
  let ?p = "p\<lparr> RecentlyAllocatedCluster := LastCluster st, FreeClusters := FreeClusters p - of_nat n, FatSectorNumber := 0 \<rparr>"
  define d' where "d' = d1(unat (HiddenSectors p + ucast (FsInfoLba p)) := fs_info_bytes ?p, unat (SecondaryFsInfo p) := fs_info_bytes ?p)"
  have call: "Fat32AllocateClusterChain (d, p) ClusterStart (of_nat n) = Inr ((d', ?p), of_nat (hd cs))"
    unfolding Fat32AllocateClusterChain_def d'_def case_prod_conv run(1) run(2) andThen_simps if_False if_True Let_def
      if_not_P [OF nn(1)] if_not_P [OF c2] if_not_P [OF size] if_not_P [OF leD [OF start(2)]] if_not_P [OF nn(2)] run(3) ..
  have up: "d' l = d1 l" if "unat (PrimaryFat p) \<le> l" for l using that info by (auto simp: d'_def fs_info_ok_def)
  have f1: "fat1 d' p c = h c" "fat2 d' p c = h c" if "c < fat_entries p" for c
    using fats_below [of p d' d1, OF up] fats_are_read [OF h(1) that] by simp_all
  have all: "c < fat_entries p" if "c \<in> set (old @ cs)" for c
  proof -
    have "c \<in> set cs \<Longrightarrow> c \<in> set (free_upto (fat1 d p) (fat_entries p))" unfolding cs(1) by (rule in_set_takeD)
    then show ?thesis using that old by (auto simp: chain_at_def)
  qed
  have "fat_chain (fat1 d' p) (old @ cs)" using h(2) f1(1) all by (subst fat_chain_cong [of "old @ cs" "fat1 d' p" h]) auto
  moreover have "unat (FreeClusters p - of_nat n) = unat (FreeClusters p) - n"
    using nn(2) n32 by (simp add: unat_sub not_less)
  ultimately show ?thesis using call f1 h(1,3) by (intro exI [of _ d'] exI [of _ ?p]) (auto simp: d'_def fats_are_def)
qed

theorem Fat32AllocateClusterChain_allocates_witness:
  "\<exists>d' p'. Fat32AllocateClusterChain (demo_drive, demo_partition) 2 2 = Inr ((d', p'), 3) \<and>
    fat_chain (fat1 d' demo_partition) [2, 3, 4] \<and> unat (FreeClusters p') = 98"
  using Fat32AllocateClusterChain_allocates [OF demo_ok(1-3) _ _ _ demo_free _ disjI2 [OF demo_ok(4)] refl]
  by (auto simp: demo_partition_def [THEN arg_cong [of _ _ FreeClusters]] demo_partition_def [THEN arg_cong [of _ _ ClusterSize]])

text \<open>
  Remark.  \<open>Fat32GetLastCluster\<close> on a chain of the FAT returns its last cluster.
\<close>

theorem Fat32GetLastCluster_returns:
  assumes g: "geometry_ok p" and ok: "fats_ok d p" and c: "chain_at d p cs"
  shows "Fat32GetLastCluster d p (of_nat (hd cs)) = Inr (of_nat (last cs))"
proof -
  have chain: "fat_chain (fat1 d p) cs" "distinct cs" "\<forall>c \<in> set cs. c < fat_entries p" using c by (simp_all add: chain_at_def)
  have "card (set cs) \<le> card {..<fat_entries p}" by (rule card_mono) (use chain(3) in auto)
  then have len: "length cs \<le> fat_entries p" using chain(2) by (simp add: distinct_card)
  have "find_end (fat_entries p) p d (of_nat (hd cs)) 0xFFFFFFFF [] = Inr (of_nat (last cs), secmap (fat1 d p) (last cs div 128))"
  proof (rule find_end_ok [OF g fat_sector_secmap [OF ok] chain(1,3) len])
    fix y assume y: "y < unat (SectorsPerFat p)" "(0xFFFFFFFF :: u32) = of_nat y"
    have "unat (of_nat y :: u32) = y" by (rule unat_of_nat_u32) (use g y(1) in \<open>simp add: geometry_ok_def\<close>)
    then have "y = 0xFFFFFFFF" unfolding y(2) [symmetric] by simp
    then show "[] = secmap (fat1 d p) y" using y(1) g by (simp add: geometry_ok_def)
  qed
  then show ?thesis by (simp add: Fat32GetLastCluster_def)
qed

theorem Fat32GetLastCluster_returns_witness: "Fat32GetLastCluster demo_drive demo_partition 2 = Inr 2"
  using Fat32GetLastCluster_returns [OF demo_ok(1,3,4)] by simp

section \<open>Reading and writing the data clusters\<close>

definition data_at :: "FAT32_PARTITION \<Rightarrow> nat \<Rightarrow> nat" where
  "data_at p c = unat (PrimaryFat p) + unat (SectorsPerFat p) * unat (FatCount p) + unat (ClusterSize p) * (c - 2)"

definition cluster_bytes :: "drive \<Rightarrow> FAT32_PARTITION \<Rightarrow> nat \<Rightarrow> u8 list" where
  "cluster_bytes d p c = read_sectors d (data_at p c) (unat (ClusterSize p))"

text \<open>The FAT cache is empty or holds the sector it is labelled with.\<close>

definition cache_ok :: "drive \<Rightarrow> FAT32_PARTITION \<Rightarrow> bool" where
  "cache_ok d p \<longleftrightarrow> (\<forall>x < unat (SectorsPerFat p). FatSectorNumber p = PrimaryFat p + of_nat x \<longrightarrow> FatSector p = fat_sector d (unat (FatSectorNumber p)))"

lemma unat_of_sum:
  fixes a b :: u32
  shows "unat a + unat b < 2 ^ 32 \<Longrightarrow> unat (a + b) = unat a + unat b"
  by (subst unat_add_lem [THEN iffD1]) simp_all

lemma unat_of_prod:
  fixes a b :: u32
  shows "unat a * unat b < 2 ^ 32 \<Longrightarrow> unat (a * b) = unat a * unat b"
  by (subst unat_mult_lem [THEN iffD1]) simp_all

lemma data_lba_at:
  assumes c: "2 \<le> c" "c < 2 ^ 32" and lim: "data_at p c < 2 ^ 32"
  shows "unat (data_lba p (of_nat c)) = data_at p c"
proof -
  let ?f = "SectorsPerFat p * ucast (FatCount p)" and ?k = "ucast (ClusterSize p) * (of_nat c - 2 :: u32)"
  have fc: "unat (ucast (FatCount p) :: u32) = unat (FatCount p)" "unat (ucast (ClusterSize p) :: u32) = unat (ClusterSize p)"
    by (simp_all add: unat_ucast_up)
  have "unat (of_nat c - 2 :: u32) = c - 2" using c by (simp add: unat_sub word_le_nat_alt unat_of_nat_u32)
  then have k: "unat ?k = unat (ClusterSize p) * (c - 2)" using lim fc by (subst unat_of_prod) (simp_all add: data_at_def)
  have f: "unat ?f = unat (SectorsPerFat p) * unat (FatCount p)" using lim fc by (subst unat_of_prod) (simp_all add: data_at_def)
  have pf: "unat (PrimaryFat p + ?f) = unat (PrimaryFat p) + unat ?f" using lim by (intro unat_of_sum) (simp add: data_at_def f)
  have "data_lba p (of_nat c) = PrimaryFat p + ?f + ?k" by (simp add: data_lba_def PrimaryFat_def)
  then show ?thesis using lim pf f k by (simp add: unat_of_sum data_at_def)
qed

lemma data_at_less: "2 \<le> e \<Longrightarrow> e < c \<Longrightarrow> data_at p e + unat (ClusterSize p) \<le> data_at p c"
proof -
  assume "2 \<le> e" "e < c"
  then have "Suc (e - 2) \<le> c - 2" by simp
  from mult_le_mono2 [OF this, of "unat (ClusterSize p)"] show ?thesis by (simp add: data_at_def)
qed

lemma write_sectors_at:
  "write_sectors d lba n buf l = (if lba \<le> l \<and> l < lba + n then take 512 (drop (512 * (l - lba)) buf) else d l)"
proof (induction n arbitrary: d lba buf)
  case (Suc n)
  have "512 * (l - lba) = 512 + 512 * (l - Suc lba)" if "Suc lba \<le> l" using that by auto
  then show ?case using Suc by (auto simp: add.commute)
qed auto

lemma read_sectors_eq:
  "read_sectors d lba (Suc n) = d lba @ read_sectors d (Suc lba) n"
  unfolding read_sectors_def by (subst upt_conv_Cons) simp_all

lemma read_write_sectors:
  "length buf = 512 * n \<Longrightarrow> read_sectors (write_sectors d lba n buf) lba n = buf"
proof (induction n arbitrary: d lba buf)
  case 0
  then show ?case by (simp add: read_sectors_def)
next
  case (Suc n)
  have "write_sectors (d(lba := take 512 buf)) (Suc lba) n (drop 512 buf) lba = take 512 buf" by (simp add: write_sectors_at)
  then show ?case using Suc.IH [of "drop 512 buf"] Suc.prems by (simp add: read_sectors_eq)
qed

lemma read_sectors_cong:
  "(\<And>l. lba \<le> l \<Longrightarrow> l < lba + n \<Longrightarrow> d' l = d l) \<Longrightarrow> read_sectors d' lba n = read_sectors d lba n"
  unfolding read_sectors_def by (metis (mono_tags, lifting) atLeastLessThan_iff map_eq_conv set_upt)

lemma cached_fat_ok:
  assumes g: "geometry_ok p" and ok: "fats_ok d p" and cache: "cache_ok d p" and c: "c < fat_entries p"
  shows "FatSector (cached_fat (d, p) (PrimaryFat p + drop_bit 7 (of_nat c))) = secmap (fat1 d p) (c div 128)"
    and "cache_ok d (cached_fat (d, p) (PrimaryFat p + drop_bit 7 (of_nat c)))"
proof -
  have z: "c div 128 < unat (SectorsPerFat p)" using c by (auto simp: fat_entries_def)
  show "FatSector (cached_fat (d, p) (PrimaryFat p + drop_bit 7 (of_nat c))) = secmap (fat1 d p) (c div 128)"
    using cache z by (auto simp: cached_fat_def cache_ok_def cluster_parts [OF g c] fat_lba [OF g z] fat_sector_secmap [OF ok z])
  show "cache_ok d (cached_fat (d, p) (PrimaryFat p + drop_bit 7 (of_nat c)))"
    using cache by (auto simp: cached_fat_def cache_ok_def PrimaryFat_def)
qed

text \<open>What \<open>Fat32ReadCluster\<close> returns on a data cluster.\<close>

lemma Fat32ReadCluster_ok:
  assumes g: "geometry_ok p" and ok: "fats_ok d p" and cache: "cache_ok d p" and c: "2 \<le> c" "c < fat_entries p" and lim: "data_at p c < 2 ^ 32"
  shows "Fat32ReadCluster (d, p) (of_nat c) False =
    (let p1 = cached_fat (d, p) (PrimaryFat p + drop_bit 7 (of_nat c))
     in if fat1 d p c = FAT32_ENDOF_CHAIN then Inr (FAT_SUCCESS, p1, of_nat c, True, cluster_bytes d p c)
        else Inr (FAT_SUCCESS, p1, fat1 d p c, False, cluster_bytes d p c))"
proof -
  have u: "unat (of_nat c :: u32) = c" using c g by (intro unat_of_nat_u32) (simp add: geometry_ok_def)
  then have "\<not> (of_nat c :: u32) < 2" using c by (simp add: word_less_nat_alt)
  moreover have "unat (data_lba p (of_nat c)) = data_at p c" using c lim g by (intro data_lba_at) (simp_all add: geometry_ok_def)
  ultimately show ?thesis
    by (simp add: Fat32ReadCluster_def Let_def cached_fat_ok(1) [OF g ok cache c(2)] cluster_parts(2) [OF g c(2)] secmap_nth cluster_bytes_def)
qed

lemma cached_fat_fields [simp]:
  "PrimaryFat (cached_fat v s) = PrimaryFat (snd v)" "SectorsPerFat (cached_fat v s) = SectorsPerFat (snd v)"
  "ClusterSize (cached_fat v s) = ClusterSize (snd v)" "data_at (cached_fat v s) = data_at (snd v)"
  by (auto simp: cached_fat_def PrimaryFat_def data_at_def split: prod.splits)

lemma Fat32WriteCluster_ok:
  assumes g: "geometry_ok p" and ok: "fats_ok d p" and cache: "cache_ok d p" and fats: "FatCount p = 2"
    and c: "2 \<le> c" "c < fat_entries p" and lim: "data_at p (fat_entries p) < 2 ^ 32" and buf: "length buf = 512 * unat (ClusterSize p)"
  obtains d' where "Fat32WriteCluster d p (of_nat c) buf = (d', True)" and "fats_ok d' p" and "cache_ok d' p" and "cluster_bytes d' p c = buf"
    and "\<forall>e. 2 \<le> e \<and> e \<noteq> c \<longrightarrow> cluster_bytes d' p e = cluster_bytes d p e" and "\<forall>e < fat_entries p. fat1 d' p e = fat1 d p e"
proof -
  let ?d = "write_sectors d (data_at p c) (unat (ClusterSize p)) buf"
  have "data_at p c \<le> data_at p (fat_entries p)" using c(2) by (auto simp: data_at_def)
  then have limc: "data_at p c < 2 ^ 32" using lim by linarith
  have u: "unat (of_nat c :: u32) = c" using c g by (intro unat_of_nat_u32) (simp add: geometry_ok_def)
  have "\<not> (of_nat c :: u32) < 2" using c u by (simp add: word_less_nat_alt)
  moreover have "unat (data_lba p (of_nat c)) = data_at p c" using c limc g by (intro data_lba_at) (simp_all add: geometry_ok_def)
  ultimately have wr: "Fat32WriteCluster d p (of_nat c) buf = (?d, True)" by (simp add: Fat32WriteCluster_def)
  have low: "?d l = d l" if "l < unat (PrimaryFat p) + 2 * unat (SectorsPerFat p)" for l
    using that fats by (simp add: write_sectors_at data_at_def)
  have fs: "fat_sector ?d (unat (PrimaryFat p) + x) = fat_sector d (unat (PrimaryFat p) + x)" if "x < 2 * unat (SectorsPerFat p)" for x
    using low that by (simp add: fat_sector_def)
  have f1: "fat1 ?d p e = fat1 d p e" "fat2 ?d p e = fat2 d p e" if "e < fat_entries p" for e
    using that fs [of "e div 128"] fs [of "unat (SectorsPerFat p) + e div 128"] by (auto simp: fat1_def fat2_def fat_entries_def add.assoc)
  have pos: "0 < fat_entries p" using c by simp
  have ok': "fats_ok ?d p" using ok fs f1 f1(1) [OF pos] by (simp add: fats_ok_def)
  have cache': "cache_ok ?d p" unfolding cache_ok_def
  proof (intro allI impI)
    fix x assume x: "x < unat (SectorsPerFat p)" "FatSectorNumber p = PrimaryFat p + of_nat x"
    then show "FatSector p = fat_sector ?d (unat (FatSectorNumber p))"
      using cache fs [of x] by (simp add: cache_ok_def fat_lba [OF g x(1)])
  qed
  have bytes: "cluster_bytes ?d p c = buf" unfolding cluster_bytes_def by (rule read_write_sectors [OF buf])
  have other: "cluster_bytes ?d p e = cluster_bytes d p e" if e: "2 \<le> e" "e \<noteq> c" for e
    unfolding cluster_bytes_def
  proof (rule read_sectors_cong)
    fix l assume l: "data_at p e \<le> l" "l < data_at p e + unat (ClusterSize p)"
    have "data_at p e + unat (ClusterSize p) \<le> data_at p c \<or> data_at p c + unat (ClusterSize p) \<le> data_at p e"
      using data_at_less [of e c p] data_at_less [of c e p] e c by linarith
    then show "?d l = d l" using l by (auto simp: write_sectors_at)
  qed
  show ?thesis by (rule that [OF wr ok' cache' bytes]) (use other f1(1) in blast)+
qed



end
