(* ===== verification/Fat32_Names.thy ===== *)
theory Fat32_Names
  imports Fat32_Cluster
begin

text \<open>
  Names in the FAT32 driver: paths (\<open>Fat32ParsePath\<close> of \<open>drivers/fat32/dll/src/fat32.c\<close>) and the two forms of a directory entry,
  short and long (\<open>dir.c\<close>).  A directory entry is its 32 bytes, read through either C structure; a name is a buffer of 16-bit
  characters with a zero terminator, a pointer into it a position.
\<close>

section \<open>Memory and strings (fat32.c)\<close>

text \<open>\<open>FAT32_ALIGN_CHECK(x, Align)\<close> is \<open>x & (Align - 1 == 0)\<close> by the precedence of C.\<close>

definition FAT32_ALIGN_CHECK :: "u64 \<Rightarrow> u64 \<Rightarrow> bool" where
  "FAT32_ALIGN_CHECK x Align \<longleftrightarrow> x AND (if Align - 1 = 0 then 1 else 0) \<noteq> 0"

fun copy_units :: "nat \<Rightarrow> u8 list \<Rightarrow> u8 list \<Rightarrow> nat \<Rightarrow> u8 list outcome" where
  "copy_units k dst src 0 = Inr dst"
| "copy_units k dst src (Suc n) =
     andThen (memcpy dst src k) (\<lambda>dst1. andThen (copy_units k (drop k dst1) (drop k src) n) (\<lambda>tail. Inr (take k dst1 @ tail)))"

definition Fat32MemCopy :: "u8 list \<Rightarrow> u8 list \<Rightarrow> u64 \<Rightarrow> u8 list outcome" where
  "Fat32MemCopy Destination Source NumBytes =
     (if FAT32_ALIGN_CHECK NumBytes 8 then copy_units 8 Destination Source (unat (drop_bit 3 NumBytes))
      else if FAT32_ALIGN_CHECK NumBytes 4 then copy_units 4 Destination Source (unat (drop_bit 2 NumBytes))
      else if FAT32_ALIGN_CHECK NumBytes 2 then copy_units 2 Destination Source (unat (drop_bit 1 NumBytes))
      else copy_units 1 Destination Source (unat NumBytes))"

fun Fat32MemClear :: "u8 list \<Rightarrow> nat \<Rightarrow> u8 list outcome" where
  "Fat32MemClear Destination 0 = Inr Destination"
| "Fat32MemClear [] (Suc n) = Inl OutOfBounds"
| "Fat32MemClear (d # ds) (Suc n) = andThen (Fat32MemClear ds n) (\<lambda>r. Inr (0 # r))"

definition Fat32StrlenA :: "u8 list \<Rightarrow> u16 outcome" where
  "Fat32StrlenA str = andThen (strlen str) (\<lambda>n. Inr (of_nat n))"

definition Fat32StrlenW :: "u16 list \<Rightarrow> u16 outcome" where
  "Fat32StrlenW str = andThen (strlen str) (\<lambda>n. Inr (of_nat n))"

section \<open>Paths (fat32.c)\<close>

definition is_slash :: "u16 \<Rightarrow> bool" where "is_slash c \<longleftrightarrow> c = 0x5C \<or> c = 0x2F"

fun skip_seps :: "u16 list \<Rightarrow> u16 list outcome" where
  "skip_seps [] = Inl OutOfBounds"
| "skip_seps (c # cs) = (if is_slash c then skip_seps cs else Inr (c # cs))"

text \<open>The copy of one component into the buffer \<open>Entry\<close> from position \<open>i\<close>; the rest starts at the separator or the terminator.\<close>

fun copy_component :: "u16 list \<Rightarrow> u16 list \<Rightarrow> nat \<Rightarrow> (u16 list \<times> u16 list) outcome" where
  "copy_component [] Entry i = Inl OutOfBounds"
| "copy_component (c # cs) Entry i =
     (if is_slash c \<or> c = 0 then andThen (array_set Entry i 0) (\<lambda>Entry. Inr (c # cs, Entry))
      else andThen (array_set Entry i c) (\<lambda>Entry. copy_component cs Entry (Suc i)))"

text \<open>\<open>Fat32ParsePath\<close>: 0 for no component, 1 when more follow, 2 for the last; the rest of the path and the entry buffer.\<close>

definition Fat32ParsePath :: "u16 list \<Rightarrow> u16 list \<Rightarrow> (nat \<times> u16 list \<times> u16 list) outcome" where
  "Fat32ParsePath Path Entry =
     andThen (skip_seps Path) (\<lambda>p.
     if hd p = 0 then Inr (0, Path, Entry)
     else andThen (copy_component p Entry 0) (\<lambda>(p1, Entry1).
       if hd p1 = 0 then Inr (2, p1, Entry1)
       else andThen (skip_seps p1) (\<lambda>p2. if hd p2 = 0 then Inr (2, p2, Entry1) else Inr (1, p2, Entry1))))"

section \<open>Directory entries\<close>

definition le16 :: "u8 \<Rightarrow> u8 \<Rightarrow> u16" where
  "le16 a b = ucast a OR push_bit 8 (ucast b)"

definition word16 :: "u8 list \<Rightarrow> nat \<Rightarrow> u16" where
  "word16 e k = le16 (e ! k) (e ! Suc k)"

definition set_word16 :: "u8 list \<Rightarrow> nat \<Rightarrow> u16 \<Rightarrow> u8 list" where
  "set_word16 e k w = e[k := ucast w, Suc k := ucast (drop_bit 8 w)]"

text \<open>\<open>FAT32_LONG_FILE_NAME_ENTRY\<close>\<close>

definition Name0 :: "u8 list \<Rightarrow> nat \<Rightarrow> u16" where "Name0 e i = word16 e (1 + 2 * i)"
definition Name1 :: "u8 list \<Rightarrow> nat \<Rightarrow> u16" where "Name1 e i = word16 e (14 + 2 * i)"
definition Name2 :: "u8 list \<Rightarrow> nat \<Rightarrow> u16" where "Name2 e i = word16 e (28 + 2 * i)"

text \<open>\<open>FAT32_FILE_ENTRY\<close>\<close>

definition ShortFileName :: "u8 list \<Rightarrow> nat \<Rightarrow> u8" where "ShortFileName e i = e ! i"
definition ShortFileExtension :: "u8 list \<Rightarrow> nat \<Rightarrow> u8" where "ShortFileExtension e i = e ! (8 + i)"
definition FileAttributes :: "u8 list \<Rightarrow> u8" where "FileAttributes e = e ! 11"
definition UserAttributes :: "u8 list \<Rightarrow> u8" where "UserAttributes e = e ! 12"
definition FirstClusterHigh :: "u8 list \<Rightarrow> u16" where "FirstClusterHigh e = word16 e 20"
definition FirstClusterLow :: "u8 list \<Rightarrow> u16" where "FirstClusterLow e = word16 e 26"
definition FileSize :: "u8 list \<Rightarrow> u32" where "FileSize e = le32 (e ! 28) (e ! 29) (e ! 30) (e ! 31)"

definition entry_cluster :: "u8 list \<Rightarrow> u32" where
  "entry_cluster e = ucast (FirstClusterLow e) OR push_bit 16 (ucast (FirstClusterHigh e))"

section \<open>Parsing entries (dir.c)\<close>

text \<open>Storing characters from the position \<open>Str\<close> downwards, skipping 0 and 0xFFFF.\<close>

definition store_at :: "u16 list \<Rightarrow> int \<Rightarrow> u16 \<Rightarrow> u16 list outcome" where
  "store_at buf i c = (if 0 \<le> i \<and> i < int (length buf) then Inr (buf[nat i := c]) else Inl OutOfBounds)"

fun store_down :: "u16 list \<Rightarrow> u16 list \<times> int \<Rightarrow> (u16 list \<times> int) outcome" where
  "store_down [] s = Inr s"
| "store_down (c # cs) (buf, Str) =
     (if c = 0 \<or> c = 0xFFFF then store_down cs (buf, Str)
      else andThen (store_at buf Str c) (\<lambda>buf1. store_down cs (buf1, Str - 1)))"

definition ParseLfnEntry :: "u8 list \<Rightarrow> u16 list \<times> int \<Rightarrow> (u16 list \<times> int) outcome" where
  "ParseLfnEntry e s =
     andThen (store_down (map (\<lambda>i. Name2 e (1 - i)) [0..<2]) s) (\<lambda>s.
     andThen (store_down (map (\<lambda>i. Name1 e (5 - i)) [0..<6]) s) (\<lambda>s.
     store_down (map (\<lambda>i. Name0 e (4 - i)) [0..<5]) s))"

fun base_len :: "u8 list \<Rightarrow> nat list \<Rightarrow> nat \<Rightarrow> nat" where
  "base_len e [] BaseNameLen = BaseNameLen"
| "base_len e (i # is) BaseNameLen = (if ShortFileName e (7 - i) > 0x20 then BaseNameLen else base_len e is (BaseNameLen - 1))"

definition sfn_char :: "bool \<Rightarrow> u8 \<Rightarrow> u16" where
  "sfn_char lower c =
     (if lower \<and> 0x41 \<le> c \<and> c \<le> 0x5A then ucast (c + 0x20)
      else if \<not> lower \<and> 0x61 \<le> c \<and> c \<le> 0x7A then ucast (c - 0x20) else ucast c)"

fun sfn_ext :: "u8 list \<Rightarrow> bool \<Rightarrow> nat list \<Rightarrow> u16 list" where
  "sfn_ext e lower [] = []"
| "sfn_ext e lower (i # is) =
     (if ShortFileExtension e i \<le> 0x20 then [] else sfn_char lower (ShortFileExtension e i) # sfn_ext e lower is)"

text \<open>The characters \<open>ParseSfnEntry\<close> stores from the start of the buffer, and the buffer with their terminator.\<close>

definition sfn_string :: "u8 list \<Rightarrow> u16 list" where
  "sfn_string e =
     (let lower1 = bit (UserAttributes e) 3; lower2 = bit (UserAttributes e) 4
      in map (\<lambda>i. sfn_char lower1 (ShortFileName e i)) [0..<base_len e [0..<8] 8] @
         (if ShortFileExtension e 0 > 0x20 then 0x2E # sfn_ext e lower2 [0..<3] else []))"

definition ParseSfnEntry :: "u8 list \<Rightarrow> u16 list \<Rightarrow> u16 list outcome" where
  "ParseSfnEntry e buf =
     (let s = sfn_string e @ [0]
      in if length s \<le> length buf then Inr (s @ drop (length s) buf) else Inl OutOfBounds)"

definition InsensitiveCompareChar :: "u16 \<Rightarrow> u16 \<Rightarrow> bool" where
  "InsensitiveCompareChar c1 c2 =
     (if 0x41 \<le> c1 \<and> c1 \<le> 0x5A then
        (let c2 = (if 0x61 \<le> c2 \<and> c2 \<le> 0x7A then c2 - 32 else c2) in c1 = c2)
      else if 0x61 \<le> c1 \<and> c1 \<le> 0x7A then
        (let c2 = (if 0x41 \<le> c2 \<and> c2 \<le> 0x5A then c2 + 32 else c2) in c1 = c2)
      else c1 = c2)"

text \<open>The comparison loop on the name found and the name sought; the remaining sought character decides.\<close>

fun same_name :: "u16 list \<Rightarrow> u16 list \<Rightarrow> bool outcome" where
  "same_name [] fn = Inl OutOfBounds"
| "same_name s [] = Inl OutOfBounds"
| "same_name (c # s) (f # fn) =
     (if c = 0 then Inr (f = 0) else if \<not> InsensitiveCompareChar c f then Inr False else same_name s fn)"

section \<open>Writing entries (dir.c)\<close>

text \<open>One of the three character loops of \<open>SetLfnEntry\<close>, over the byte positions of its array.\<close>

fun set_lfn_chars :: "u16 list \<Rightarrow> nat list \<Rightarrow> u8 list \<times> nat \<times> u16 \<times> bool \<Rightarrow> (u8 list \<times> nat \<times> u16 \<times> bool) outcome" where
  "set_lfn_chars FileName [] s = Inr s"
| "set_lfn_chars FileName (k # ks) (e, FileNamePart, SizeFileNamePart, EoLfn) =
     andThen (array_get FileName FileNamePart) (\<lambda>c.
     if c \<noteq> 0 \<and> SizeFileNamePart \<noteq> 0
     then set_lfn_chars FileName ks (set_word16 e k c, Suc FileNamePart, SizeFileNamePart - 1, EoLfn)
     else if \<not> EoLfn then set_lfn_chars FileName ks (set_word16 e k 0, FileNamePart, SizeFileNamePart, True)
     else set_lfn_chars FileName ks (set_word16 e k 0xFFFF, FileNamePart, SizeFileNamePart, EoLfn))"

text \<open>The variables the loop over the long entries threads through \<open>SetLfnEntry\<close>.\<close>

record lfn_cursor =
  ReverseFileName :: nat
  RemainingSize :: u16
  SizeFileNamePart :: u16

definition lfn_advance :: "lfn_cursor \<Rightarrow> lfn_cursor outcome" where
  "lfn_advance cur =
     (if RemainingSize cur \<ge> 13 then
        if ReverseFileName cur < 13 then Inl OutOfBounds
        else Inr \<lparr> ReverseFileName = ReverseFileName cur - 13, RemainingSize = RemainingSize cur - 13, SizeFileNamePart = 13 \<rparr>
      else if ReverseFileName cur < unat (RemainingSize cur) then Inl OutOfBounds
      else Inr \<lparr> ReverseFileName = ReverseFileName cur - unat (RemainingSize cur), RemainingSize = 0,
                 SizeFileNamePart = RemainingSize cur \<rparr>)"

definition SetLfnEntry :: "u16 list \<Rightarrow> u8 list \<Rightarrow> u16 \<Rightarrow> u8 \<Rightarrow> lfn_cursor \<Rightarrow> (u8 list \<times> lfn_cursor) outcome" where
  "SetLfnEntry FileName Entry SequenceNumber LfnChecksum cur =
     (let e = Entry[0 := ucast SequenceNumber, 13 := LfnChecksum, 11 := 0xF]
      in andThen (set_lfn_chars FileName (map (\<lambda>c. 1 + 2 * c) [0..<5]) (e, ReverseFileName cur, SizeFileNamePart cur, False)) (\<lambda>s.
         andThen (set_lfn_chars FileName (map (\<lambda>c. 14 + 2 * c) [0..<6]) s) (\<lambda>s.
         andThen (set_lfn_chars FileName (map (\<lambda>c. 28 + 2 * c) [0..<2]) s) (\<lambda>(e1, _, _, _).
         andThen (lfn_advance cur) (\<lambda>cur1. Inr (e1, cur1))))))"

text \<open>The cursor before the first (last in order) long entry.\<close>

definition lfn_start :: "u16 list \<Rightarrow> lfn_cursor outcome" where
  "lfn_start FileName =
     andThen (Fat32StrlenW FileName) (\<lambda>len.
     let part = (if len \<ge> 13 then if len mod 13 \<noteq> 0 then len mod 13 else 13 else len)
     in Inr \<lparr> ReverseFileName = unat len - unat part, RemainingSize = len - part, SizeFileNamePart = part \<rparr>)"

definition FAT32_LFN_MARK :: "u8 list" where
  "FAT32_LFN_MARK = [0x7E, 0x4C, 0x46, 0x4E, 0x5F, 0x21, 0x45, 0x4E, 0x20, 0x20, 0x20]"

fun lfn_checksum :: "u8 list \<Rightarrow> u8 \<Rightarrow> u8" where
  "lfn_checksum [] s = s"
| "lfn_checksum (c # cs) s = lfn_checksum cs (push_bit 7 (s AND 1) + drop_bit 1 s + c)"

text \<open>\<open>SetupEntryShortFileName\<close>: the base name, then the extension.\<close>

definition to_upper8 :: "u8 \<Rightarrow> u8" where
  "to_upper8 c = (if 0x61 \<le> c \<and> c \<le> 0x7A then c - 32 else c)"

fun setup_base :: "u16 list \<Rightarrow> nat list \<Rightarrow> u8 list \<times> nat \<times> nat \<Rightarrow> (u8 list \<times> nat \<times> nat) outcome" where
  "setup_base fn [] s = Inr s"
| "setup_base fn (i # is) (e, pos, BaseNameLen) =
     andThen (array_get fn pos) (\<lambda>c.
     if c < 0x20 \<or> c = 0x2E then setup_base fn is (e[i := 0x20], pos, BaseNameLen)
     else setup_base fn is (e[i := to_upper8 (ucast c)], Suc pos, Suc BaseNameLen))"

fun setup_ext :: "u16 list \<Rightarrow> nat list \<Rightarrow> u8 list \<times> nat \<Rightarrow> u8 list outcome" where
  "setup_ext fn [] (e, pos) = Inr e"
| "setup_ext fn (i # is) (e, pos) =
     andThen (array_get fn pos) (\<lambda>c.
     if c < 0x20 then setup_ext fn is (e[i := 0x20], pos)
     else setup_ext fn is (e[i := to_upper8 (ucast c)], Suc pos))"

definition SetupEntryShortFileName :: "u8 list \<Rightarrow> u16 list \<Rightarrow> u8 list outcome" where
  "SetupEntryShortFileName Entry FileName =
     andThen (setup_base FileName [0..<8] (Entry, 0, 0)) (\<lambda>(e, pos, BaseNameLen).
     andThen (array_get FileName pos) (\<lambda>c.
     if c = 0x2E then
       andThen (array_get FileName (Suc pos)) (\<lambda>c1.
       if c1 = 0 then Inr (e[BaseNameLen := 0x2E]) else setup_ext FileName [8..<11] (e, Suc pos))
     else Inr (e[8 := 0x20, 9 := 0x20, 10 := 0x20])))"

section \<open>Short or long (Fat32AllocateEntry)\<close>

definition count_lfn :: "u16 \<Rightarrow> u32" where
  "count_lfn LenFileName = ucast (LenFileName div 13) + (if LenFileName mod 13 \<noteq> 0 then 1 else 0)"

text \<open>The search for an extension: whether there is one, and the number of long entries.\<close>

fun find_extension :: "u16 list \<Rightarrow> u16 \<Rightarrow> nat list \<Rightarrow> bool \<times> u32 \<Rightarrow> (bool \<times> u32) outcome" where
  "find_extension fn LenFileName [] s = Inr s"
| "find_extension fn LenFileName (i # is) (Extension, n) =
     andThen (array_get fn i) (\<lambda>c.
     if c = 0 then Inr (Extension, n)
     else if c = 0x2E then
       andThen (Fat32StrlenW (drop (Suc i) fn)) (\<lambda>len.
       if (ucast len :: u8) > 3 then Inr (True, count_lfn LenFileName) else find_extension fn LenFileName is (True, n))
     else find_extension fn LenFileName is (Extension, n))"

definition is_lower :: "u16 \<Rightarrow> bool" where "is_lower c \<longleftrightarrow> 0x61 \<le> c \<and> c \<le> 0x7A"
definition is_upper :: "u16 \<Rightarrow> bool" where "is_upper c \<longleftrightarrow> 0x41 \<le> c \<and> c \<le> 0x5A"

text \<open>
  The case scan: \<open>(NameLawSet, first letter lower case, mixed)\<close>.  Over the base name (\<open>stop = True\<close>) it also stops after a dot;
  the position at which it stopped and whether a long name is needed are returned.
\<close>

fun case_scan :: "bool \<Rightarrow> u16 list \<Rightarrow> nat \<Rightarrow> nat \<Rightarrow> bool \<Rightarrow> bool \<Rightarrow> (nat \<times> bool \<times> bool) outcome" where
  "case_scan stop fn 0 i law low = Inr (i, low, False)"
| "case_scan stop fn (Suc k) i law low =
     andThen (array_get fn i) (\<lambda>c.
     let low1 = (if \<not> law \<and> is_lower c then True else low); law1 = (law \<or> is_lower c \<or> is_upper c)
     in if stop \<and> c = 0x2E then Inr (Suc i, low1, False)
        else if c = 0x20 then Inr (i, low1, True)
        else if is_upper c \<and> low1 then Inr (i, low1, True)
        else if is_lower c \<and> \<not> low1 then Inr (i, low1, True)
        else case_scan stop fn k (Suc i) law1 low1)"

text \<open>The decision: the number of long entries (0 for a short name) and the two lower-case flags.\<close>

definition classify_name :: "u16 list \<Rightarrow> u16 \<Rightarrow> (u32 \<times> bool \<times> bool) outcome" where
  "classify_name FileName LenFileName =
     andThen (find_extension FileName LenFileName [0..<10] (False, if LenFileName > 12 then count_lfn LenFileName else 0)) (\<lambda>(Extension, n).
     let n1 = (if n = 0 \<and> \<not> Extension \<and> LenFileName > 8 then count_lfn LenFileName else n)
     in if n1 = 0 then
          andThen (case_scan True FileName 8 0 False False) (\<lambda>(i, low1, long1).
          andThen (case_scan False FileName 3 i False False) (\<lambda>(_, low2, long2).
          Inr (if long1 \<or> long2 then 1 else 0, low1, low2)))
        else Inr (n1, False, False))"

section \<open>Memory copies\<close>

lemma copy_units_1: "n \<le> length dst \<Longrightarrow> n \<le> length src \<Longrightarrow> copy_units 1 dst src n = Inr (take n src @ drop n dst)"
proof (induction n arbitrary: dst src)
  case (Suc n)
  then obtain d ds c cs where "dst = d # ds" "src = c # cs" by (cases dst; cases src) auto
  then show ?case using Suc by (simp add: memcpy_def)
qed simp

lemma copy_units_1_bounds: "\<not> (n \<le> length dst \<and> n \<le> length src) \<Longrightarrow> copy_units 1 dst src n = Inl OutOfBounds"
proof (induction n arbitrary: dst src)
  case (Suc n)
  then show ?case by (cases dst; cases src) (auto simp: memcpy_def)
qed simp

text \<open>
  Remark.  \<open>Fat32MemCopy\<close> copies the first bytes of the source over those of the destination, and accesses memory outside the two
  buffers exactly when one of them is too short.
\<close>

theorem Fat32MemCopy_copies: "Fat32MemCopy dst src n = memcpy dst src (unat n)"
proof -
  have "\<not> FAT32_ALIGN_CHECK n 8" "\<not> FAT32_ALIGN_CHECK n 4" "\<not> FAT32_ALIGN_CHECK n 2" by (simp_all add: FAT32_ALIGN_CHECK_def)
  then show ?thesis
    using copy_units_1 [of "unat n" dst src] copy_units_1_bounds [of "unat n" dst src] by (auto simp: Fat32MemCopy_def memcpy_def)
qed

lemma Fat32MemClear_zeroes: "n \<le> length d \<Longrightarrow> Fat32MemClear d n = Inr (replicate n 0 @ drop n d)"
  by (induction d n rule: Fat32MemClear.induct) auto

section \<open>Comparing names\<close>

definition ci_char :: "u16 \<Rightarrow> u16" where
  "ci_char c = (if is_lower c then c - 32 else c)"

lemma upper_range: "0x41 \<le> c - 0x20 \<and> c - 0x20 \<le> 0x5A" if "is_lower c" for c :: u16
  using that by (auto simp: is_lower_def word_le_nat_alt unat_sub)

lemma InsensitiveCompareChar_eq: "InsensitiveCompareChar c1 c2 \<longleftrightarrow> ci_char c1 = ci_char c2"
proof -
  have up: "c2 - 32 = c \<longleftrightarrow> c2 = c + 32" for c c2 :: u16 by (metis add_diff_cancel diff_add_cancel)
  have sep: "\<not> (0x41 \<le> c \<and> c \<le> 0x5A \<and> 0x61 \<le> c)" for c :: u16 by (auto simp: word_le_nat_alt)
  show ?thesis
    using upper_range [of c1] upper_range [of c2] sep [of c1] sep [of c2]
    by (auto simp: InsensitiveCompareChar_def ci_char_def is_lower_def Let_def up)
qed

lemma fold_case_0: "ci_char c = 0 \<longleftrightarrow> c = 0"
  using upper_range [of c] by (auto simp: ci_char_def is_lower_def)

lemma same_name_eq:
  "0 \<notin> set s \<Longrightarrow> 0 \<notin> set f \<Longrightarrow> same_name (s @ 0 # r) (f @ 0 # q) = Inr (map ci_char s = map ci_char f)"
proof (induction s arbitrary: f)
  case Nil
  then show ?case by (cases f) auto
next
  case (Cons c s)
  have nz: "ci_char c \<noteq> 0" using Cons.prems(1) by (auto simp: fold_case_0)
  show ?case
  proof (cases f)
    case Nil
    have "ci_char 0 = 0" by (simp add: fold_case_0)
    then show ?thesis using Nil Cons.prems nz by (simp add: InsensitiveCompareChar_eq)
  next
    case (Cons d f')
    then show ?thesis using Cons.IH Cons.prems by (auto simp: InsensitiveCompareChar_eq)
  qed
qed

section \<open>Path components\<close>

function path_parts :: "u16 list \<Rightarrow> u16 list list" where
  "path_parts [] = []"
| "path_parts (c # s) =
     (if is_slash c then path_parts s
      else takeWhile (\<lambda>x. \<not> is_slash x) (c # s) # path_parts (dropWhile (\<lambda>x. \<not> is_slash x) (c # s)))"
  by pat_completeness auto
termination by (relation "measure length") (auto simp: length_dropWhile_le less_Suc_eq_le)

lemma skip_seps_run: "0 \<notin> set s \<Longrightarrow> skip_seps (s @ 0 # r) = Inr (dropWhile is_slash s @ 0 # r)"
  by (induction s) (auto simp: is_slash_def)

lemma components_skip: "path_parts (dropWhile is_slash s) = path_parts s"
  by (induction s) auto

lemma copy_component_run:
  "0 \<notin> set s \<Longrightarrow> i + length (takeWhile (\<lambda>x. \<not> is_slash x) s) < length E \<Longrightarrow>
   copy_component (s @ 0 # r) E i =
     Inr (dropWhile (\<lambda>x. \<not> is_slash x) s @ 0 # r,
          take i E @ takeWhile (\<lambda>x. \<not> is_slash x) s @ 0 # drop (Suc (i + length (takeWhile (\<lambda>x. \<not> is_slash x) s))) E)"
proof (induction s arbitrary: E i)
  case Nil
  then show ?case by (simp add: upd_conv_take_nth_drop)
next
  case (Cons c s)
  show ?case
  proof (cases "is_slash c")
    case True
    then show ?thesis using Cons.prems by (simp add: upd_conv_take_nth_drop)
  next
    case False
    then have "copy_component (s @ 0 # r) (E[i := c]) (Suc i) =
       Inr (dropWhile (\<lambda>x. \<not> is_slash x) s @ 0 # r, take (Suc i) (E[i := c]) @ takeWhile (\<lambda>x. \<not> is_slash x) s @
         0 # drop (Suc (Suc i + length (takeWhile (\<lambda>x. \<not> is_slash x) s))) (E[i := c]))"
      using Cons.prems by (intro Cons.IH) auto
    moreover have "take (Suc i) (E[i := c]) = take i E @ [c]" using False Cons.prems(2) by (simp add: take_Suc_conv_app_nth)
    ultimately show ?thesis using False Cons.prems by simp
  qed
qed

lemma components_Cons: "s \<noteq> [] \<Longrightarrow> \<not> is_slash (hd s) \<Longrightarrow>
    path_parts s = takeWhile (\<lambda>x. \<not> is_slash x) s # path_parts (dropWhile (\<lambda>x. \<not> is_slash x) s)"
  by (cases s) simp_all

lemma components_Nil: "path_parts s = [] \<longleftrightarrow> (\<forall>c \<in> set s. is_slash c)"
  by (induction s rule: path_parts.induct) auto

lemma dropWhile_slash_Nil: "dropWhile is_slash s = [] \<longleftrightarrow> path_parts s = []"
  by (simp add: components_Nil)

lemma Fat32ParsePath_peels:
  assumes s: "0 \<notin> set s" and room: "\<forall>c \<in> set (path_parts s). length c < length E"
  shows "(path_parts s = [] \<longrightarrow> Fat32ParsePath (s @ 0 # r) E = Inr (0, s @ 0 # r, E)) \<and>
    (\<forall>c cs. path_parts s = c # cs \<longrightarrow>
       (\<exists>s'. Fat32ParsePath (s @ 0 # r) E = Inr (if cs = [] then 2 else 1, s' @ 0 # r, c @ 0 # drop (Suc (length c)) E) \<and>
          path_parts s' = cs \<and> 0 \<notin> set s'))"
proof (intro conjI allI impI)
  assume "path_parts s = []"
  then have e: "dropWhile is_slash s = []" unfolding dropWhile_slash_Nil .
  then show "Fat32ParsePath (s @ 0 # r) E = Inr (0, s @ 0 # r, E)"
    unfolding Fat32ParsePath_def skip_seps_run [OF s] e by simp
next
  fix c cs assume comps: "path_parts s = c # cs"
  define t where "t = dropWhile is_slash s"
  have t: "t \<noteq> []" "\<not> is_slash (hd t)" "0 \<notin> set t"
    using comps dropWhile_slash_Nil [of s] hd_dropWhile [of is_slash s] s by (auto simp: t_def dest: set_dropWhileD)
  define u where "u = dropWhile (\<lambda>x. \<not> is_slash x) t"
  have ct: "c = takeWhile (\<lambda>x. \<not> is_slash x) t" "cs = path_parts u"
    using comps components_skip [of s] components_Cons [OF t(1,2)] by (simp_all add: t_def u_def)
  have u0: "0 \<notin> set u" using t(3) by (auto simp: u_def dest: set_dropWhileD)
  have "hd (t @ 0 # r) \<noteq> 0" using t(1,3) by (cases t) auto
  moreover have "copy_component (t @ 0 # r) E 0 = Inr (u @ 0 # r, c @ 0 # drop (Suc (length c)) E)"
    using copy_component_run [OF t(3), of 0 E r] room comps by (simp add: ct(1) u_def)
  ultimately have run: "Fat32ParsePath (s @ 0 # r) E =
      (if hd (u @ 0 # r) = 0 then Inr (2, u @ 0 # r, c @ 0 # drop (Suc (length c)) E)
       else if hd (dropWhile is_slash u @ 0 # r) = 0 then Inr (2, dropWhile is_slash u @ 0 # r, c @ 0 # drop (Suc (length c)) E)
       else Inr (1, dropWhile is_slash u @ 0 # r, c @ 0 # drop (Suc (length c)) E))"
    using skip_seps_run [OF s] skip_seps_run [OF u0] by (simp add: Fat32ParsePath_def t_def)
  have hdz: "hd (v @ 0 # r) = 0 \<longleftrightarrow> v = []" if "0 \<notin> set v" for v using that by (cases v) auto
  have u1: "0 \<notin> set (dropWhile is_slash u)" using u0 by (auto dest: set_dropWhileD)
  show "\<exists>s'. Fat32ParsePath (s @ 0 # r) E = Inr (if cs = [] then 2 else 1, s' @ 0 # r, c @ 0 # drop (Suc (length c)) E) \<and>
      path_parts s' = cs \<and> 0 \<notin> set s'"
    unfolding run hdz [OF u0] hdz [OF u1] dropWhile_slash_Nil
    using ct(2) u0 u1 components_skip [of u] by (cases "u = []"; cases "cs = []") auto
qed

text \<open>
  C29.  \<open>Fat32ParsePath\<close> peels off the first component of the path: with none left it returns 0; otherwise it stores the component, with its
  characters as they are in the path (a comment in the source says in lower case), and its terminator in the entry buffer, returns 2 for the last component
  and 1 when more follow, and advances to a path with the others.
\<close>

theorem Fat32ParsePath_components:
  assumes s: "0 \<notin> set s" and room: "\<forall>c \<in> set (path_parts s). length c < length E"
  shows "(path_parts s = [] \<longrightarrow> Fat32ParsePath (s @ 0 # r) E = Inr (0, s @ 0 # r, E)) \<and>
    (\<forall>c cs. path_parts s = c # cs \<longrightarrow>
       (\<exists>s'. Fat32ParsePath (s @ 0 # r) E = Inr (if cs = [] then 2 else 1, s' @ 0 # r, c @ 0 # drop (Suc (length c)) E) \<and>
          path_parts s' = cs \<and> 0 \<notin> set s'))"
  using assms by (rule Fat32ParsePath_peels)

theorem Fat32ParsePath_components_witness:
  "\<exists>s'. Fat32ParsePath ([0x2F, 0x61, 0x2F, 0x62] @ 0 # []) (replicate 16 7) = Inr (1, s' @ 0 # [], [0x61, 0] @ replicate 14 7) \<and>
     path_parts s' = [[0x62]]"
  using Fat32ParsePath_components [of "[0x2F, 0x61, 0x2F, 0x62]" "replicate 16 7" "[]"] by (auto simp: is_slash_def)

section \<open>Short names round trip\<close>

text \<open>A base name and an extension that a short entry can hold, each in one case.\<close>

definition one_case :: "u16 list \<Rightarrow> bool" where
  "one_case s \<longleftrightarrow> list_all (\<lambda>c. \<not> is_upper c) s \<or> list_all (\<lambda>c. \<not> is_lower c) s"

definition dos_chars :: "u16 list \<Rightarrow> bool" where
  "dos_chars s \<longleftrightarrow> list_all (\<lambda>c. 0x20 < c \<and> c < 0x100 \<and> c \<noteq> 0x2E) s \<and> one_case s"

definition has_lower :: "u16 list \<Rightarrow> bool" where "has_lower s \<longleftrightarrow> list_ex is_lower s"

definition dos_name :: "u16 list \<Rightarrow> u16 list \<Rightarrow> u16 list" where
  "dos_name b x = b @ (if x = [] then [] else 0x2E # x)"

lemma unat_ucast_8: "c < 0x100 \<Longrightarrow> unat (ucast (c :: u16) :: u8) = unat c"
  by (simp add: unsigned_ucast_eq word_less_nat_alt take_bit_nat_eq_self)

lemma ucast_ucast_8: "c < 0x100 \<Longrightarrow> ucast (ucast (c :: u16) :: u8) = c"
  by (simp add: word_unat_eq_iff unat_ucast_up unat_ucast_8)

lemma sfn_char_upper:
  assumes c: "c < 0x100" and case': "low \<longrightarrow> \<not> is_upper c" "\<not> low \<longrightarrow> \<not> is_lower c"
  shows "sfn_char low (to_upper8 (ucast c)) = c"
proof -
  let ?c = "ucast c :: u8"
  have u: "unat ?c = unat c" by (rule unat_ucast_8 [OF c])
  have ranges: "(0x61 \<le> ?c \<and> ?c \<le> 0x7A) = is_lower c" "(0x41 \<le> ?c \<and> ?c \<le> 0x5A) = is_upper c"
    by (simp_all add: word_le_nat_alt u is_lower_def is_upper_def)
  show ?thesis
  proof (cases "is_lower c")
    case True
    then have low using case' by auto
    have "unat (?c - 32) = unat c - 32" using True by (simp add: is_lower_def word_le_nat_alt unat_sub u)
    then have "0x41 \<le> ?c - 32 \<and> ?c - 32 \<le> 0x5A" using True by (auto simp: is_lower_def word_le_nat_alt)
    then show ?thesis using True \<open>low\<close> ranges by (simp add: sfn_char_def to_upper8_def ucast_ucast_8 [OF c])
  next
    case False
    then show ?thesis using case' ranges by (auto simp: sfn_char_def to_upper8_def ucast_ucast_8 [OF c])
  qed
qed

lemma to_upper8_printable: "0x20 < c \<Longrightarrow> c < 0x100 \<Longrightarrow> 0x20 < to_upper8 (ucast (c :: u16))"
  using unat_ucast_8 [of c] by (auto simp: to_upper8_def word_less_nat_alt word_le_nat_alt unat_sub)

text \<open>The byte images of a name part padded with spaces.\<close>

definition padded :: "nat \<Rightarrow> u16 list \<Rightarrow> u8 list" where
  "padded n s = map (\<lambda>c. to_upper8 (ucast c)) s @ replicate (n - length s) 0x20"

lemma padded_nth: "i < n \<Longrightarrow> padded n s ! i = (if i < length s then to_upper8 (ucast (s ! i)) else 0x20)"
  by (simp add: padded_def nth_append)

lemma length_padded [simp]: "length s \<le> n \<Longrightarrow> length (padded n s) = n"
  by (simp add: padded_def)

lemma take_upd_drop: "i < length T \<Longrightarrow> length T \<le> length E \<Longrightarrow> (take i T @ drop i E)[i := T ! i] = take (Suc i) T @ drop (Suc i) E"
  by (simp add: list_update_append take_Suc_conv_app_nth Cons_nth_drop_Suc [symmetric])

lemma setup_base_run:
  assumes b: "length b \<le> 8" "length b < length fn" "\<And>j. j < length b \<Longrightarrow> fn ! j = b ! j \<and> \<not> (b ! j < 0x20 \<or> b ! j = 0x2E)"
    and stop: "fn ! length b < 0x20 \<or> fn ! length b = 0x2E" and E: "8 \<le> length E"
  shows "i \<le> 8 \<Longrightarrow> setup_base fn [i..<8] (take i (padded 8 b) @ drop i E, min i (length b), min i (length b)) =
    Inr (padded 8 b @ drop 8 E, length b, length b)"
proof (induction "8 - i" arbitrary: i)
  case 0
  then show ?case using b(1) by simp
next
  case (Suc k)
  then have i: "i < 8" and k: "k = 8 - Suc i" by simp_all
  have up: "[i..<8] = i # [Suc i..<8]" using i by (rule upt_conv_Cons)
  have upd: "(take i (padded 8 b) @ drop i E)[i := padded 8 b ! i] = take (Suc i) (padded 8 b) @ drop (Suc i) E"
    using take_upd_drop [of i "padded 8 b" E] i b(1) E by simp
  show ?case
  proof (cases "i < length b")
    case True
    then show ?thesis using Suc.hyps(1) [OF k] i b(2) b(3) [OF True] upd padded_nth [OF i, of b] by (simp add: up)
  next
    case False
    then show ?thesis using Suc.hyps(1) [OF k] i b(2) stop upd padded_nth [OF i, of b] by (simp add: up)
  qed
qed

lemma setup_ext_run:
  assumes x: "length x \<le> 3" "p0 + length x < length fn" "\<And>j. j < length x \<Longrightarrow> fn ! (p0 + j) = x ! j \<and> \<not> x ! j < 0x20"
    and stop: "fn ! (p0 + length x) < 0x20" and B: "length B = 8" and E: "11 \<le> length E"
  shows "i \<le> 3 \<Longrightarrow> setup_ext fn [8 + i..<11] (B @ take i (padded 3 x) @ drop (8 + i) E, p0 + min i (length x)) =
    Inr (B @ padded 3 x @ drop 11 E)"
proof (induction "3 - i" arbitrary: i)
  case 0
  then show ?case using x(1) by simp
next
  case (Suc k)
  then have i: "i < 3" and k: "k = 3 - Suc i" by simp_all
  have up: "[8 + i..<11] = (8 + i) # [8 + Suc i..<11]" using i by (subst upt_conv_Cons) simp_all
  have upd: "(B @ take i (padded 3 x) @ drop (8 + i) E)[8 + i := padded 3 x ! i] = B @ take (Suc i) (padded 3 x) @ drop (8 + Suc i) E"
    using take_upd_drop [of i "padded 3 x" "drop 8 E"] i x(1) E B by (simp add: list_update_append add.commute)
  show ?case
  proof (cases "i < length x")
    case True
    then show ?thesis using Suc.hyps(1) [OF k] i x(2) x(3) [OF True] upd padded_nth [OF i, of x] unfolding up by simp
  next
    case False
    then show ?thesis using Suc.hyps(1) [OF k] i x(2) stop upd padded_nth [OF i, of x] unfolding up by simp
  qed
qed

lemma upd_three:
  assumes "length B = 8" and "11 \<le> length E"
  shows "(B @ drop 8 E)[8 := v, 9 := v, 10 := v] = B @ v # v # v # drop 11 E"
proof -
  have "drop 8 E = E ! 8 # E ! 9 # E ! 10 # drop 11 E" using assms(2) by (simp add: Cons_nth_drop_Suc [symmetric])
  then show ?thesis using assms(1) by (simp add: list_update_append eval_nat_numeral)
qed

text \<open>The entry \<open>SetupEntryShortFileName\<close> makes of a short name.\<close>

lemma SetupEntryShortFileName_run:
  assumes b: "length b \<le> 8" "dos_chars b" and x: "length x \<le> 3" "dos_chars x" and E: "11 \<le> length E"
  shows "SetupEntryShortFileName E (dos_name b x @ 0 # r) = Inr (padded 8 b @ padded 3 x @ drop 11 E)"
proof -
  let ?fn = "dos_name b x @ 0 # r"
  have chars: "\<not> (c < 0x20 \<or> c = 0x2E)" if "c \<in> set b \<or> c \<in> set x" for c
    using that b(2) x(2) by (auto simp: dos_chars_def list_all_iff)
  have base: "setup_base ?fn [0..<8] (E, 0, 0) = Inr (padded 8 b @ drop 8 E, length b, length b)"
    using setup_base_run [OF b(1), of ?fn E 0] E chars by (simp add: dos_name_def nth_append)
  show ?thesis
  proof (cases "x = []")
    case True
    then have "(padded 8 b @ drop 8 E)[8 := 0x20, 9 := 0x20, 10 := 0x20] = padded 8 b @ padded 3 x @ drop 11 E"
      using upd_three [of "padded 8 b" E "0x20"] b(1) E by (simp add: padded_def [of 3]) (simp add: numeral_3_eq_3)
    then show ?thesis using base True by (simp add: SetupEntryShortFileName_def dos_name_def nth_append)
  next
    case False
    have x0: "?fn ! Suc (length b) \<noteq> 0" using False chars [of "hd x"] by (cases x) (auto simp: dos_name_def nth_append)
    have "setup_ext ?fn [8..<11] (padded 8 b @ drop 8 E, Suc (length b)) = Inr (padded 8 b @ padded 3 x @ drop 11 E)"
      using setup_ext_run [OF x(1), of "Suc (length b)" ?fn "padded 8 b" E 0] E chars False b(1)
      by (simp add: dos_name_def nth_append)
    then show ?thesis using base False x0 by (simp add: SetupEntryShortFileName_def dos_name_def nth_append)
  qed
qed

lemma base_len_run:
  assumes n: "n \<le> 8" and hi: "\<And>j. j < n \<Longrightarrow> ShortFileName e j > 0x20" and lo: "\<And>j. n \<le> j \<Longrightarrow> j < 8 \<Longrightarrow> ShortFileName e j \<le> 0x20"
  shows "i \<le> 8 - n \<Longrightarrow> base_len e [i..<8] (8 - i) = n"
proof (induction "8 - i" arbitrary: i)
  case 0
  then show ?case using n by simp
next
  case (Suc k)
  then have i: "i < 8" and k: "k = 8 - Suc i" by simp_all
  have up: "[i..<8] = i # [Suc i..<8]" using i by (rule upt_conv_Cons)
  show ?case
  proof (cases "i = 8 - n")
    case True
    then show ?thesis using hi [of "7 - i"] i n unfolding up by simp
  next
    case False
    then have "i \<le> 8 - Suc n" "n \<le> 7 - i" using Suc.prems i by simp_all
    then show ?thesis using lo [of "7 - i"] Suc.hyps(1) [OF k] i unfolding up by (simp add: leD)
  qed
qed

lemma sfn_ext_run:
  assumes n: "length x \<le> 3" and hi: "\<And>j. j < length x \<Longrightarrow> ShortFileExtension e j > 0x20 \<and> sfn_char low (ShortFileExtension e j) = x ! j"
    and lo: "length x < 3 \<Longrightarrow> ShortFileExtension e (length x) \<le> 0x20"
  shows "i \<le> length x \<Longrightarrow> sfn_ext e low [i..<3] = drop i x"
proof (induction "3 - i" arbitrary: i)
  case 0
  then show ?case using n by simp
next
  case (Suc k)
  then have i: "i < 3" and k: "k = 3 - Suc i" by simp_all
  have up: "[i..<3] = i # [Suc i..<3]" using i by (rule upt_conv_Cons)
  show ?case
  proof (cases "i = length x")
    case True
    then show ?thesis using lo i unfolding up by simp
  next
    case False
    then have "i < length x" using Suc.prems by simp
    then show ?thesis using hi [of i] Suc.hyps(1) [OF k] unfolding up by (simp add: not_le Cons_nth_drop_Suc)
  qed
qed

text \<open>The characters of an entry made of a short name, when the flags say its case.\<close>

lemma sfn_string_run:
  assumes b: "length b \<le> 8" "dos_chars b" and x: "length x \<le> 3" "dos_chars x"
    and e: "take 11 e = padded 8 b @ padded 3 x" "length e = 32"
    and flags: "bit (UserAttributes e) 3 = has_lower b" "bit (UserAttributes e) 4 = has_lower x"
  shows "sfn_string e = dos_name b x"
proof -
  have at: "e ! i = (padded 8 b @ padded 3 x) ! i" if "i < 11" for i using that unfolding e(1) [symmetric] by simp
  have lc: "sfn_char (has_lower s) (to_upper8 (ucast c)) = c \<and> to_upper8 (ucast c) > 0x20" if "dos_chars s" "c \<in> set s" for s c
    using that by (auto simp: dos_chars_def one_case_def has_lower_def list_all_iff list_ex_iff to_upper8_printable intro!: sfn_char_upper)
  have nm: "ShortFileName e i = (if i < length b then to_upper8 (ucast (b ! i)) else 0x20)" if "i < 8" for i
    using at [of i] that b(1) by (simp add: ShortFileName_def nth_append padded_nth)
  have ex: "ShortFileExtension e i = (if i < length x then to_upper8 (ucast (x ! i)) else 0x20)" if "i < 3" for i
    using at [of "8 + i"] that b(1) by (simp add: ShortFileExtension_def nth_append padded_nth)
  have "base_len e [0..<8] 8 = length b"
    using base_len_run [OF b(1), of e 0] b nm lc [OF b(2)] by simp
  moreover have "map (\<lambda>i. sfn_char (has_lower b) (ShortFileName e i)) [0..<length b] = map (\<lambda>i. b ! i) [0..<length b]"
    using b(1) nm lc [OF b(2)] by simp
  moreover have "sfn_ext e (has_lower x) [0..<3] = x"
    using sfn_ext_run [OF x(1), of e "has_lower x" 0] x ex lc [OF x(2)] by simp
  moreover have "0x20 < ShortFileExtension e 0 \<longleftrightarrow> x \<noteq> []" using ex [of 0] lc [OF x(2)] by (cases x) auto
  ultimately show ?thesis by (simp add: sfn_string_def flags dos_name_def map_nth)
qed

lemma case_scan_run:
  "list_all (\<lambda>c. c \<noteq> 0x20 \<and> (stop \<longrightarrow> c \<noteq> 0x2E)) s \<Longrightarrow> one_case s \<Longrightarrow> (low \<longrightarrow> law \<and> list_all (\<lambda>c. \<not> is_upper c) s) \<Longrightarrow>
   (law \<and> \<not> low \<longrightarrow> \<not> has_lower s) \<Longrightarrow>
   case_scan stop (p @ s @ r) (length s + k) (length p) law low =
     case_scan stop (p @ s @ r) k (length p + length s) (law \<or> list_ex (\<lambda>c. is_lower c \<or> is_upper c) s) (low \<or> has_lower s)"
proof (induction s arbitrary: p law low)
  case Nil
  then show ?case by (simp add: has_lower_def)
next
  case (Cons c s)
  let ?low = "if \<not> law \<and> is_lower c then True else low" and ?law = "law \<or> is_lower c \<or> is_upper c"
  have sep: "\<not> (is_lower c \<and> is_upper c)" by (auto simp: is_lower_def is_upper_def word_le_nat_alt)
  have no: "\<not> (is_upper c \<and> ?low)" "\<not> (is_lower c \<and> \<not> ?low)" "c \<noteq> 0x20" "\<not> (stop \<and> c = 0x2E)"
    using Cons.prems sep by (auto simp: has_lower_def)
  have "case_scan stop ((p @ [c]) @ s @ r) (length s + k) (length (p @ [c])) ?law ?low =
      case_scan stop ((p @ [c]) @ s @ r) k (length (p @ [c]) + length s) (?law \<or> list_ex (\<lambda>c. is_lower c \<or> is_upper c) s) (?low \<or> has_lower s)"
  proof (rule Cons.IH)
    show "list_all (\<lambda>c. c \<noteq> 0x20 \<and> (stop \<longrightarrow> c \<noteq> 0x2E)) s" using Cons.prems(1) by simp
    show "one_case s" using Cons.prems(2) by (auto simp: one_case_def)
    show "?low \<longrightarrow> ?law \<and> list_all (\<lambda>c. \<not> is_upper c) s"
      using Cons.prems(2,3) by (cases law; cases low) (auto simp: one_case_def)
    have nl: "\<not> has_lower s" if "list_all (\<lambda>c. \<not> is_lower c) s" using that by (auto simp: has_lower_def list_all_iff list_ex_iff)
    show "?law \<and> \<not> ?low \<longrightarrow> \<not> has_lower s"
      using Cons.prems(2,4) nl by (cases law; cases low) (auto simp: one_case_def has_lower_def)
  qed
  moreover have "(?low \<or> has_lower s) = (low \<or> has_lower (c # s))" using Cons.prems by (auto simp: has_lower_def)
  moreover have "case_scan stop (p @ (c # s) @ r) (length (c # s) + k) (length p) law low =
      case_scan stop (p @ (c # s) @ r) (length s + k) (Suc (length p)) ?law ?low"
  proof -
    have get: "array_get (p @ (c # s) @ r) (length p) = Inr c" by (simp add: array_get_def)
    have sz: "length (c # s) + k = Suc (length s + k)" by simp
    show ?thesis
      unfolding sz case_scan.simps get andThen_simps Let_def if_not_P [OF no(4)] if_not_P [OF no(3)] if_not_P [OF no(1)] if_not_P [OF no(2)] ..
  qed
  ultimately show ?case by (simp add: disj_assoc)
qed

lemma zeros_plain:
  "one_case s \<Longrightarrow> one_case (s @ replicate m 0)" "has_lower (s @ replicate m 0) = has_lower s"
  "list_all P s \<Longrightarrow> P 0 \<Longrightarrow> list_all P (s @ replicate m 0)"
  by (auto simp: one_case_def has_lower_def is_lower_def is_upper_def list_all_iff list_ex_iff)

lemma find_extension_plain:
  "i \<le> 10 \<Longrightarrow> length s < length fn \<Longrightarrow> (\<And>j. i \<le> j \<Longrightarrow> j < length s \<Longrightarrow> fn ! j = s ! j \<and> s ! j \<noteq> 0 \<and> s ! j \<noteq> 0x2E) \<Longrightarrow>
   i \<le> length s \<Longrightarrow> fn ! length s = 0 \<Longrightarrow> find_extension fn len [i..<10] v = Inr v"
proof (induction "10 - i" arbitrary: i v)
  case 0
  then show ?case by simp
next
  case (Suc k)
  then have i: "i < 10" and k: "k = 10 - Suc i" by simp_all
  have up: "[i..<10] = i # [Suc i..<10]" using i by (rule upt_conv_Cons)
  obtain X n where v: "v = (X, n)" by fastforce
  show ?case
  proof (cases "i = length s")
    case True
    then show ?thesis using Suc.prems(2,5) unfolding up v by simp
  next
    case False
    then have "i < length s" using Suc.prems(4) by simp
    moreover have "find_extension fn len [Suc i..<10] (X, n) = Inr (X, n)"
      using Suc.prems i \<open>i < length s\<close> by (intro Suc.hyps(1) [OF k]) simp_all
    ultimately show ?thesis using Suc.prems(2) Suc.prems(3) [of i] unfolding up v by simp
  qed
qed

lemma find_extension_upto:
  "i \<le> n \<Longrightarrow> n \<le> 10 \<Longrightarrow> n < length fn \<Longrightarrow> (\<And>j. i \<le> j \<Longrightarrow> j < n \<Longrightarrow> fn ! j \<noteq> 0 \<and> fn ! j \<noteq> 0x2E) \<Longrightarrow>
   find_extension fn len [i..<10] v = find_extension fn len [n..<10] v"
proof (induction "n - i" arbitrary: i v)
  case 0
  then show ?case by simp
next
  case (Suc k)
  then have i: "i < n" "i < 10" and k: "k = n - Suc i" by simp_all
  have up: "[i..<10] = i # [Suc i..<10]" using i(2) by (rule upt_conv_Cons)
  obtain X m where v: "v = (X, m)" by fastforce
  have "find_extension fn len [Suc i..<10] (X, m) = find_extension fn len [n..<10] (X, m)"
    using Suc.prems i by (intro Suc.hyps(1) [OF k]) simp_all
  then show ?case using Suc.prems(3) Suc.prems(4) [of i] i unfolding up v by simp
qed

lemma dos_chars_nth: "dos_chars s \<Longrightarrow> j < length s \<Longrightarrow> s ! j \<noteq> 0 \<and> s ! j \<noteq> 0x2E"
  by (auto simp: dos_chars_def list_all_iff dest!: nth_mem)

lemma dos_chars_scan:
  "dos_chars s \<Longrightarrow> list_all (\<lambda>c. c \<noteq> 0x20 \<and> (stop \<longrightarrow> c \<noteq> 0x2E)) s" "dos_chars s \<Longrightarrow> one_case s"
  by (auto simp: dos_chars_def list_all_iff)

lemma strlen_zeros: "0 \<notin> set s \<Longrightarrow> 0 < k \<Longrightarrow> strlen (s @ replicate k 0) = Inr (length s)"
proof -
  assume "0 \<notin> set s" "0 < k"
  then obtain m where "k = Suc m" by (cases k) auto
  then show ?thesis using strlen_cstring [of "s @ 0 # replicate m 0"] \<open>0 \<notin> set s\<close> by simp
qed

lemma find_extension_dos:
  assumes b: "length b \<le> 8" "dos_chars b" and x: "length x \<le> 3" "dos_chars x" and k: "0 < k"
  shows "find_extension (dos_name b x @ replicate k 0) len [0..<10] (False, 0) = Inr (x \<noteq> [], 0)"
proof -
  let ?fn = "dos_name b x @ replicate k 0"
  have z: "replicate k 0 ! 0 = (0 :: u16)" using k by simp
  have "find_extension ?fn len [0..<10] (False, 0) = find_extension ?fn len [length b..<10] (False, 0)"
    using b(1) k dos_chars_nth [OF b(2)] by (intro find_extension_upto) (auto simp: dos_name_def nth_append)
  also have "\<dots> = Inr (x \<noteq> [], 0)"
  proof (cases "x = []")
    case True
    then show ?thesis using b k z by (simp add: upt_conv_Cons dos_name_def nth_append)
  next
    case False
    have up: "[length b..<10] = length b # [Suc (length b)..<10]" using b(1) by (simp add: upt_conv_Cons)
    have x0: "0 \<notin> set x" using dos_chars_nth [OF x(2)] by (auto simp: in_set_conv_nth)
    have len: "Fat32StrlenW (drop (Suc (length b)) ?fn) = Inr (of_nat (length x))"
      using False strlen_zeros [OF x0 k] by (simp add: Fat32StrlenW_def dos_name_def)
    have "unat (ucast (of_nat (length x) :: u16) :: u8) = length x"
      using x(1) by (simp add: unsigned_ucast_eq unsigned_of_nat take_bit_nat_eq_self)
    then have short: "\<not> (ucast (of_nat (length x) :: u16) :: u8) > 3" using x(1) by (simp add: word_less_nat_alt)
    have "find_extension ?fn len [Suc (length b)..<10] (True, 0) = Inr (True, 0)"
    proof (rule find_extension_plain [where s = "b @ 0x2E # x"])
      fix j assume "Suc (length b) \<le> j" "j < length (b @ 0x2E # x)"
      then obtain i where "j = length b + Suc i" "i < length x" by (metis add_Suc_right le_Suc_ex length_Cons length_append not_less_eq nat_add_left_cancel_less plus_nat.simps(2))
      then show "?fn ! j = (b @ 0x2E # x) ! j \<and> (b @ 0x2E # x) ! j \<noteq> 0 \<and> (b @ 0x2E # x) ! j \<noteq> 0x2E"
        using dos_chars_nth [OF x(2)] False by (simp add: dos_name_def nth_append)
    qed (use b(1) k z False in \<open>auto simp: dos_name_def nth_append\<close>)
    then show ?thesis using False len short by (simp add: up dos_name_def nth_append)
  qed
  finally show ?thesis .
qed

lemma case_scan_base:
  assumes b: "length b \<le> 8" "dos_chars b" and k: "12 \<le> k"
  shows "case_scan True (dos_name b x @ replicate k 0) 8 0 False False =
    Inr (if x = [] \<or> length b = 8 then 8 else Suc (length b), has_lower b, False)"
proof (cases "x = []")
  case True
  have r: "replicate k 0 = replicate (8 - length b) (0 :: u16) @ replicate (k - (8 - length b)) 0"
    using k by (simp add: replicate_add [symmetric])
  let ?s = "b @ replicate (8 - length b) (0 :: u16)"
  have s: "list_all (\<lambda>c. c \<noteq> 0x20 \<and> (True \<longrightarrow> c \<noteq> 0x2E)) ?s" "one_case ?s" "has_lower ?s = has_lower b" "length ?s = 8"
    using b zeros_plain(1) [OF dos_chars_scan(2) [OF b(2)]] zeros_plain(3) [OF dos_chars_scan(1) [OF b(2), of True]]
    by (simp_all add: zeros_plain(2))
  have "case_scan True (?s @ replicate (k - (8 - length b)) 0) 8 0 False False = Inr (8, has_lower b, False)"
    using case_scan_run [OF s(1,2), of False False "[]" "replicate (k - (8 - length b)) 0" 0] s(3,4) by simp
  then show ?thesis using True r b(1) by (simp add: dos_name_def)
next
  case False
  have "case_scan True (b @ 0x2E # x @ replicate k 0) 8 0 False False =
      case_scan True (b @ 0x2E # x @ replicate k 0) (8 - length b) (length b) (list_ex (\<lambda>c. is_lower c \<or> is_upper c) b) (has_lower b)"
    using case_scan_run [OF dos_chars_scan(1,2) [OF b(2)], of False False True "[]" "0x2E # x @ replicate k 0" "8 - length b"] b(1) by simp
  also have "\<dots> = (if length b = 8 then Inr (8, has_lower b, False) else Inr (Suc (length b), has_lower b, False))"
  proof (cases "8 - length b")
    case (Suc m)
    have "\<not> is_lower 0x2E" by (simp add: is_lower_def)
    then show ?thesis using Suc b(1) by (auto simp: Let_def)
  qed (use b(1) in simp)
  finally show ?thesis using False b(1) by (simp add: dos_name_def)
qed

lemma scan_three:
  assumes "fn = p @ s @ r" and "length s = 3" and "list_all (\<lambda>c. c \<noteq> 0x20) s" and "one_case s"
  shows "case_scan False fn 3 (length p) False False = Inr (length p + 3, has_lower s, False)"
  using case_scan_run [of False s False False p r 0] assms by simp

lemma replicate_split: "m \<le> k \<Longrightarrow> replicate k z = replicate m z @ replicate (k - m) z"
  by (simp add: replicate_add [symmetric])

lemma case_scan_ext:
  assumes b: "length b \<le> 8" and x: "length x \<le> 3" "dos_chars x" and k: "12 \<le> k"
    and i: "i = (if x = [] \<or> length b = 8 then 8 else Suc (length b))"
  shows "case_scan False (dos_name b x @ replicate k 0) 3 i False False =
    Inr (i + 3, has_lower (if length b = 8 then take 2 x else x), False)"
proof -
  have plain: "list_all (\<lambda>c. c \<noteq> 0x20) x" "one_case x" using dos_chars_scan(1) [OF x(2), of False] dos_chars_scan(2) [OF x(2)] by simp_all
  have tk: "list_all (\<lambda>c. c \<noteq> 0x20) (take 2 x)" "one_case (take 2 x)"
    using plain by (auto simp: one_case_def list_all_iff dest!: in_set_takeD)
  consider "x = []" | "x \<noteq> []" "length b = 8" | "x \<noteq> []" "length b < 8" using b by linarith
  then show ?thesis
  proof cases
    case 1
    have fn: "dos_name b x @ replicate k 0 = (b @ replicate (8 - length b) 0) @ replicate 3 0 @ replicate (k - (8 - length b) - 3) 0"
    proof -
      have "8 - length b \<le> k" "3 \<le> k - (8 - length b)" using k by linarith+
      then show ?thesis
        using 1 replicate_split [of "8 - length b" k "0 :: u16"] replicate_split [of 3 "k - (8 - length b)" "0 :: u16"] by (simp add: dos_name_def)
    qed
    have "one_case (replicate 3 0)" "\<not> has_lower (replicate 3 0)"
      using zeros_plain(1) [of "[]" 3] zeros_plain(2) [of "[]" 3] by (simp_all add: one_case_def has_lower_def)
    then show ?thesis using scan_three [OF fn] 1 b i by (simp add: list_all_iff has_lower_def)
  next
    case 2
    let ?s = "0x2E # take 2 x @ replicate (2 - length x) 0"
    have fn: "dos_name b x @ replicate k 0 = b @ ?s @ (drop 2 x @ replicate (k - (2 - length x)) 0)"
    proof (cases "2 - length x")
      case (Suc m)
      then show ?thesis using 2 k replicate_split [of "2 - length x" k "0 :: u16"] by (simp add: dos_name_def)
    qed (use 2 in \<open>simp add: dos_name_def\<close>)
    have "one_case ?s" "has_lower ?s = has_lower (take 2 x)" "list_all (\<lambda>c. c \<noteq> 0x20) ?s"
      using zeros_plain(1) [OF tk(2), of "2 - length x"] zeros_plain(2) [of "take 2 x" "2 - length x"] zeros_plain(3) [OF tk(1), of "2 - length x"]
      by (auto simp: one_case_def has_lower_def is_lower_def is_upper_def)
    then show ?thesis using scan_three [OF fn] 2 i by simp
  next
    case 3
    let ?s = "x @ replicate (3 - length x) 0"
    have fn: "dos_name b x @ replicate k 0 = (b @ [0x2E]) @ ?s @ replicate (k - (3 - length x)) 0"
      using 3 k replicate_split [of "3 - length x" k "0 :: u16"] by (simp add: dos_name_def)
    show ?thesis
      using scan_three [OF fn _ zeros_plain(3) [OF plain(1)] zeros_plain(1) [OF plain(2)]] 3 i x by (simp add: zeros_plain(2))
  qed
qed

definition sfn_flags :: "u16 list \<Rightarrow> u16 list \<Rightarrow> u8" where
  "sfn_flags b x = (if has_lower b then 8 else 0) OR (if has_lower x then 16 else 0)"

lemma classify_dos:
  assumes b: "length b \<le> 8" "dos_chars b" and x: "length x \<le> 3" "dos_chars x" and k: "12 \<le> k"
    and third: "length b = 8 \<longrightarrow> has_lower (take 2 x) = has_lower x"
  shows "classify_name (dos_name b x @ replicate k 0) (of_nat (length (dos_name b x))) = Inr (0, has_lower b, has_lower x)"
proof -
  have len: "length (dos_name b x) \<le> 12" using b x by (simp add: dos_name_def)
  have u: "unat (of_nat (length (dos_name b x)) :: u16) = length (dos_name b x)"
    using len by (simp add: unsigned_of_nat take_bit_nat_eq_self)
  have l12: "\<not> (of_nat (length (dos_name b x)) :: u16) > 12" "\<not> (x = [] \<and> (of_nat (length (dos_name b x)) :: u16) > 8)"
    using len u b by (auto simp: word_less_nat_alt dos_name_def)
  have i: "(if x = [] \<or> length b = 8 then 8 else Suc (length b)) = (if x = [] \<or> length b = 8 then 8 else Suc (length b))" ..
  have lx: "has_lower (if length b = 8 then take 2 x else x) = has_lower x" using third by simp
  have k0: "0 < k" using k by simp
  show ?thesis
    unfolding classify_name_def if_not_P [OF l12(1)] find_extension_dos [OF b x k0] andThen_simps case_prod_conv Let_def
    using l12(2) case_scan_base [OF b k, of x] case_scan_ext [OF b(1) x k i] lx by (cases "x = []") simp_all
qed

lemma setup_dos:
  assumes b: "length b \<le> 8" "dos_chars b" and x: "length x \<le> 3" "dos_chars x" and k: "0 < k"
  obtains e where "SetupEntryShortFileName (replicate 32 0) (dos_name b x @ replicate k 0) = Inr e" and "length e = 32"
    and "e ! 0 = (padded 8 b @ padded 3 x) ! 0" and "drop 11 e = replicate 21 0" and "sfn_string (e[11 := attr, 12 := sfn_flags b x]) = dos_name b x"
proof -
  let ?e = "padded 8 b @ padded 3 x @ drop 11 (replicate 32 0)"
  let ?e1 = "?e[11 := attr, 12 := sfn_flags b x]"
  obtain m where "k = Suc m" using k by (cases k) auto
  then have su: "SetupEntryShortFileName (replicate 32 0) (dos_name b x @ replicate k 0) = Inr ?e"
    using SetupEntryShortFileName_run [OF b x, of "replicate 32 0" "replicate m 0"] by simp
  have fl: "bit (sfn_flags b x) 3 = has_lower b" "bit (sfn_flags b x) 4 = has_lower x" by (simp_all add: sfn_flags_def bit_simps)
  have l32: "length ?e = 32" using b x by simp
  have "sfn_string ?e1 = dos_name b x"
  proof (rule sfn_string_run [OF b x])
    show "take 11 ?e1 = padded 8 b @ padded 3 x" using b x by simp
    show "length ?e1 = 32" using l32 by simp
    have ua: "UserAttributes ?e1 = sfn_flags b x" unfolding UserAttributes_def by (rule nth_list_update_eq) (use l32 in simp)
    show "bit (UserAttributes ?e1) 3 = has_lower b" "bit (UserAttributes ?e1) 4 = has_lower x" unfolding ua by (rule fl)+
  qed
  moreover have "?e ! 0 = (padded 8 b @ padded 3 x) ! 0" "drop 11 ?e = replicate 21 0" using b x by (simp_all add: nth_append)
  ultimately show ?thesis using that [OF su l32] by blast
qed

text \<open>
  C22.  A short name keeps its characters and its case: a name of up to eight characters and an extension of up to three, each in one case and
  of characters a directory entry can hold, is classified as short by \<open>Fat32AllocateEntry\<close>, and the entry that \<open>SetupEntryShortFileName\<close> makes of
  it, with the lower-case flags of the classification, is read back by \<open>ParseSfnEntry\<close> as the same name.  Two conditions restrict this: the name is followed
  by at least twelve zeros in its buffer, because the scan for the case does not stop at the terminator, and after a base of eight characters the case of the
  extension shows in its first two characters, because the scan misses the third.
\<close>

theorem short_name_round_trip:
  assumes b: "0 < length b" "length b \<le> 8" "dos_chars b" and x: "length x \<le> 3" "dos_chars x" and k: "12 \<le> k"
    and third: "length b = 8 \<longrightarrow> has_lower (take 2 x) = has_lower x" and buf: "13 \<le> length buf"
  shows "\<exists>e. classify_name (dos_name b x @ replicate k 0) (of_nat (length (dos_name b x))) = Inr (0, has_lower b, has_lower x) \<and>
    SetupEntryShortFileName (replicate 32 0) (dos_name b x @ replicate k 0) = Inr e \<and>
    ParseSfnEntry (e[11 := attr, 12 := sfn_flags b x]) buf =
      Inr (dos_name b x @ 0 # drop (Suc (length (dos_name b x))) buf)"
proof -
  obtain e where e: "SetupEntryShortFileName (replicate 32 0) (dos_name b x @ replicate k 0) = Inr e"
      "sfn_string (e[11 := attr, 12 := sfn_flags b x]) = dos_name b x"
    using setup_dos [OF b(2,3) x, of k attr] k by auto
  have "length (dos_name b x) \<le> 12" using b x by (simp add: dos_name_def)
  then have "ParseSfnEntry (e[11 := attr, 12 := sfn_flags b x]) buf = Inr (dos_name b x @ 0 # drop (Suc (length (dos_name b x))) buf)"
    using e(2) buf by (simp add: ParseSfnEntry_def Let_def)
  then show ?thesis using classify_dos [OF b(2,3) x k third] e(1) by blast
qed

theorem short_name_round_trip_witness:
  "\<exists>e. classify_name (dos_name [0x61, 0x62] [0x54, 0x58] @ replicate 12 0) 5 = Inr (0, True, False) \<and>
    SetupEntryShortFileName (replicate 32 0) (dos_name [0x61, 0x62] [0x54, 0x58] @ replicate 12 0) = Inr e \<and>
    ParseSfnEntry (e[11 := 0x20, 12 := 8]) (replicate 16 0) = Inr ([0x61, 0x62, 0x2E, 0x54, 0x58, 0] @ replicate 10 0)"
  using short_name_round_trip [of "[0x61, 0x62]" "[0x54, 0x58]" 12 "replicate 16 0" "0x20"]
  by (simp add: dos_chars_def one_case_def has_lower_def is_lower_def is_upper_def dos_name_def sfn_flags_def)

text \<open>
  A base name of nine characters before the dot is classified as short as well (the search for the dot covers ten positions and only a name
  without a dot is checked to have at most eight characters): the entry of \<open>abcdefghi.tx\<close> holds \<open>abcdefgh\<close>.
\<close>

lemma nine_characters_truncated:
  "classify_name ([0x61, 0x62, 0x63, 0x64, 0x65, 0x66, 0x67, 0x68, 0x69, 0x2E, 0x74, 0x78] @ replicate 4 0) 12 = Inr (0, True, True)"
  "andThen (SetupEntryShortFileName (replicate 32 0) ([0x61, 0x62, 0x63, 0x64, 0x65, 0x66, 0x67, 0x68, 0x69, 0x2E, 0x74, 0x78] @ replicate 4 0))
     (\<lambda>e. Inr (sfn_string (e[12 := 0x18]))) = Inr [0x61, 0x62, 0x63, 0x64, 0x65, 0x66, 0x67, 0x68]"
  by code_simp+

end
