(* ===== verification/Fat32_Dir.thy ===== *)
theory Fat32_Dir
  imports Fat32_Names
begin

text \<open>
  Directories of the FAT32 driver (\<open>drivers/fat32/dll/src/dir.c\<close>): the search for an entry in a cluster and in a chain of clusters,
  and the allocation of short and long entries.  A cluster buffer is its bytes, entry \<open>x\<close> the 32 bytes from \<open>32 * x\<close> on.  The buffer in which
  names are put together is part of the state of a search, since it is not cleared between entries.
\<close>

section \<open>Entries of a cluster buffer\<close>

definition dir_entry :: "u8 list \<Rightarrow> nat \<Rightarrow> u8 list" where
  "dir_entry cl x = take 32 (drop (32 * x) cl)"

definition set_dir_entry :: "u8 list \<Rightarrow> nat \<Rightarrow> u8 list \<Rightarrow> u8 list" where
  "set_dir_entry cl x e = take (32 * x) cl @ e @ drop (32 * x + 32) cl"

definition EntriesPerCluster :: "FAT32_PARTITION \<Rightarrow> nat" where
  "EntriesPerCluster p = unat (ClusterSize p) * 512 div 32"

section \<open>Finding a name in a cluster\<close>

record search_state =
  NameBuffer :: "u16 list"
  EntryNamePtr :: int
  RemainingSequences :: nat
  ParseMode :: bool

text \<open>The part at the label \<open>ParseNormalEntry\<close>; \<open>True\<close> when the entry is the one sought.\<close>

definition parse_normal_entry :: "u16 list \<Rightarrow> u8 list \<Rightarrow> search_state \<Rightarrow> (bool \<times> search_state) outcome" where
  "parse_normal_entry FileName e st =
     (if FileAttributes e AND 0xF = 0xF \<and> ShortFileName e 0 AND 0x40 \<noteq> 0 then
        if ShortFileName e 0 AND 0x1F = 0 then Inr (False, st)
        else
          andThen (ParseLfnEntry e (NameBuffer st, 0x19E)) (\<lambda>(buf, ptr).
          Inr (False, st\<lparr> NameBuffer := buf, EntryNamePtr := ptr, RemainingSequences := unat (ShortFileName e 0 AND 0x1F) - 1, ParseMode := True \<rparr>))
      else
        andThen (ParseSfnEntry e (NameBuffer st)) (\<lambda>buf.
        andThen (same_name buf FileName) (\<lambda>eq. Inr (eq, st\<lparr> NameBuffer := buf \<rparr>))))"

definition find_step :: "u16 list \<Rightarrow> u8 list \<Rightarrow> search_state \<Rightarrow> (bool \<times> search_state) outcome" where
  "find_step FileName e st =
     (if ParseMode st then
        if RemainingSequences st = 0 then
          (let ptr = EntryNamePtr st + 1
           in if ptr < 0 then Inl OutOfBounds
              else andThen (same_name (drop (nat ptr) (NameBuffer st)) FileName) (\<lambda>eq.
                   Inr (eq, st\<lparr> EntryNamePtr := ptr, ParseMode := eq \<rparr>)))
        else if FileAttributes e AND 0xF = 0xF then
          andThen (ParseLfnEntry e (NameBuffer st, EntryNamePtr st)) (\<lambda>(buf, ptr).
          Inr (False, st\<lparr> NameBuffer := buf, EntryNamePtr := ptr, RemainingSequences := RemainingSequences st - 1 \<rparr>))
        else parse_normal_entry FileName e (st\<lparr> ParseMode := False \<rparr>)
      else parse_normal_entry FileName e st)"

fun find_loop :: "u16 list \<Rightarrow> u8 list \<Rightarrow> nat list \<Rightarrow> search_state \<Rightarrow> (nat option \<times> search_state) outcome" where
  "find_loop FileName cl [] st = Inr (None, st)"
| "find_loop FileName cl (x # xs) st =
     (let e = dir_entry cl x
      in if ShortFileName e 0 = 0 then Inr (None, st)
         else if ShortFileName e 0 = 0xE5 then find_loop FileName cl xs st
         else andThen (find_step FileName e st) (\<lambda>(found, st1).
              if found then Inr (Some x, st1) else find_loop FileName cl xs st1))"

definition Fat32FindDirectoryClusterEntry :: "FAT32_PARTITION \<Rightarrow> u16 list \<Rightarrow> u8 list \<Rightarrow> u16 list \<Rightarrow> (nat option \<times> u16 list) outcome" where
  "Fat32FindDirectoryClusterEntry p FileName cl EntryName =
     andThen (find_loop FileName cl [0..<EntriesPerCluster p]
       \<lparr> NameBuffer = EntryName, EntryNamePtr = 0, RemainingSequences = 0, ParseMode = False \<rparr>) (\<lambda>(r, st). Inr (r, NameBuffer st))"

section \<open>Finding a name in a directory\<close>

text \<open>
  The loops over the clusters of a directory run as long as \<open>Fat32ReadCluster\<close> succeeds; the fuel is one more than the number of FAT
  entries, so a chain of distinct clusters is read to its end.
\<close>

fun find_in_chain :: "nat \<Rightarrow> drive \<times> FAT32_PARTITION \<Rightarrow> u16 list \<Rightarrow> u32 \<Rightarrow> bool \<Rightarrow> u16 list \<Rightarrow> (FAT32_PARTITION \<times> u8 list option) outcome" where
  "find_in_chain 0 v FileName Cluster LastCode EntryName = Inl Hang"
| "find_in_chain (Suc n) v FileName Cluster LastCode EntryName =
     andThen (Fat32ReadCluster v Cluster LastCode) (\<lambda>(status, p1, Cluster1, LastCode1, cl).
     if status \<noteq> FAT_SUCCESS then Inr (p1, None)
     else andThen (Fat32FindDirectoryClusterEntry p1 FileName cl EntryName) (\<lambda>(r, EntryName1).
       case r of None \<Rightarrow> find_in_chain n (fst v, p1) FileName Cluster1 LastCode1 EntryName1
       | Some x \<Rightarrow> Inr (p1, Some (dir_entry cl x))))"

definition chain_fuel :: "FAT32_PARTITION \<Rightarrow> nat" where "chain_fuel p = Suc (fat_entries p)"

definition Fat32FindEntry :: "drive \<times> FAT32_PARTITION \<Rightarrow> u16 list \<Rightarrow> u32 \<Rightarrow> (FAT32_PARTITION \<times> u8 list option) outcome" where
  "Fat32FindEntry v FileName Cluster =
     andThen (Fat32StrlenW FileName) (\<lambda>len.
     if len = 0 then Inr (snd v, None)
     else find_in_chain (chain_fuel (snd v)) v FileName Cluster False (replicate 0x200 0))"

section \<open>Allocating a short entry\<close>

definition is_free_entry :: "u8 list \<Rightarrow> bool" where
  "is_free_entry e \<longleftrightarrow> ShortFileName e 0 = 0 \<or> ShortFileName e 0 = 0xE5"

definition new_sfn_entry :: "u16 list \<Rightarrow> u8 \<Rightarrow> bool \<Rightarrow> bool \<Rightarrow> u8 list outcome" where
  "new_sfn_entry FileName attr lower1 lower2 =
     andThen (SetupEntryShortFileName (replicate 32 0) FileName) (\<lambda>e.
     Inr (e[11 := attr, 12 := (if lower1 then 8 else 0) OR (if lower2 then 16 else 0)]))"

text \<open>The search for a free entry; \<open>Held\<close> (\<open>LastCluster\<close>) is the cluster in the buffer.\<close>

fun sfn_in_chain :: "nat \<Rightarrow> drive \<times> FAT32_PARTITION \<Rightarrow> u32 \<Rightarrow> bool \<Rightarrow> u32 \<Rightarrow> (FAT32_PARTITION \<times> (u32 \<times> u8 list \<times> nat) option) outcome" where
  "sfn_in_chain 0 v Cluster LastCode Held = Inl Hang"
| "sfn_in_chain (Suc n) v Cluster LastCode Held =
     andThen (Fat32ReadCluster v Cluster LastCode) (\<lambda>(status, p1, Cluster1, LastCode1, cl).
     if status \<noteq> FAT_SUCCESS then Inr (p1, None)
     else case first_index (\<lambda>x. is_free_entry (dir_entry cl x)) [0..<EntriesPerCluster p1] of
       Some x \<Rightarrow> Inr (p1, Some (Held, cl, x))
     | None \<Rightarrow> sfn_in_chain n (fst v, p1) Cluster1 LastCode1 Cluster1)"

definition Fat32AllocateSfnEntry ::
  "drive \<times> FAT32_PARTITION \<Rightarrow> u32 \<Rightarrow> u16 list \<Rightarrow> u8 \<Rightarrow> bool \<Rightarrow> bool \<Rightarrow> ((drive \<times> FAT32_PARTITION) \<times> FAT_STATUS) outcome" where
  "Fat32AllocateSfnEntry v Cluster FileName attr lower1 lower2 =
     andThen (sfn_in_chain (chain_fuel (snd v)) v Cluster False Cluster) (\<lambda>(p1, r).
     case r of
       Some (c, cl, x) \<Rightarrow>
         andThen (new_sfn_entry FileName attr lower1 lower2) (\<lambda>e.
         Inr ((fst (Fat32WriteCluster (fst v) p1 c (set_dir_entry cl x e)), p1), FAT_SUCCESS))
     | None \<Rightarrow>
         andThen (Fat32AllocateClusterChain (fst v, p1) Cluster 1) (\<lambda>((d2, p2), c).
         if c = 0 then Inr ((d2, p2), FAT_NO_ENOUGH_SPACE)
         else andThen (new_sfn_entry FileName attr lower1 lower2) (\<lambda>e.
           Inr ((fst (Fat32WriteCluster d2 p2 c (set_dir_entry (replicate (unat (ClusterSize p2) * 512) 0) 0 e)), p2), FAT_SUCCESS))))"

section \<open>Allocating a long entry\<close>

text \<open>
  The run of free entries looked for.  \<open>StartChainCluster = 0\<close> says that no run is open; when one is complete the loops are left with
  the buffer holding the cluster of its last entry.
\<close>

record run_state =
  StartChainCluster :: u32
  StartChainIndex :: nat
  EndChainCluster :: u32
  EndChainIndex :: nat
  NumApprovedEntries :: u32

fun lfn_run :: "u32 \<Rightarrow> u32 \<Rightarrow> u8 list \<Rightarrow> nat list \<Rightarrow> run_state \<Rightarrow> run_state \<times> bool" where
  "lfn_run TargetEntries Held cl [] st = (st, False)"
| "lfn_run TargetEntries Held cl (i # is) st =
     (if is_free_entry (dir_entry cl i) then
        (let st1 = (if StartChainCluster st = 0 then st\<lparr> StartChainCluster := Held, StartChainIndex := i \<rparr> else st);
             st2 = st1\<lparr> NumApprovedEntries := NumApprovedEntries st1 + 1 \<rparr>
         in if NumApprovedEntries st2 = TargetEntries then (st2\<lparr> EndChainCluster := Held, EndChainIndex := i \<rparr>, True)
            else lfn_run TargetEntries Held cl is st2)
      else if StartChainCluster st \<noteq> 0 then lfn_run TargetEntries Held cl is (st\<lparr> StartChainCluster := 0, NumApprovedEntries := 0 \<rparr>)
      else lfn_run TargetEntries Held cl is st)"

fun lfn_in_chain :: "nat \<Rightarrow> u32 \<Rightarrow> drive \<times> FAT32_PARTITION \<Rightarrow> u32 \<Rightarrow> bool \<Rightarrow> u32 \<Rightarrow> u8 list \<Rightarrow> run_state \<Rightarrow>
    (FAT32_PARTITION \<times> u8 list \<times> run_state) outcome" where
  "lfn_in_chain 0 TargetEntries v Cluster LastCode Held buf st = Inl Hang"
| "lfn_in_chain (Suc n) TargetEntries v Cluster LastCode Held buf st =
     andThen (Fat32ReadCluster v Cluster LastCode) (\<lambda>(status, p1, Cluster1, LastCode1, cl).
     if status \<noteq> FAT_SUCCESS then Inr (p1, buf, st)
     else case lfn_run TargetEntries Held cl [0..<EntriesPerCluster p1] st of
       (st1, True) \<Rightarrow> Inr (p1, cl, st1)
     | (st1, False) \<Rightarrow> lfn_in_chain n TargetEntries (fst v, p1) Cluster1 LastCode1 Cluster1 cl st1)"

text \<open>Zeroing the clusters of the new chain.\<close>

fun clear_chain :: "nat \<Rightarrow> drive \<times> FAT32_PARTITION \<Rightarrow> u32 \<Rightarrow> u8 list \<Rightarrow> (drive \<times> FAT32_PARTITION) outcome" where
  "clear_chain 0 v c buf = Inl Hang"
| "clear_chain (Suc n) v c buf =
     andThen (Fat32GetNextCluster v c) (\<lambda>(p1, nxt).
     if nxt = 0 then Inr (fst v, p1) else clear_chain n (fst (Fat32WriteCluster (fst v) p1 c buf), p1) nxt buf)"

text \<open>The long entries, from the last part of the name to the first; the first written carries the mark 0x40.\<close>

fun set_lfn_entries :: "u16 list \<Rightarrow> u8 \<Rightarrow> u32 \<Rightarrow> nat list \<Rightarrow> u8 list \<Rightarrow> u16 \<Rightarrow> lfn_cursor \<Rightarrow> u8 list outcome" where
  "set_lfn_entries FileName chk NumLfnEntries [] cl seq cur = Inr cl"
| "set_lfn_entries FileName chk NumLfnEntries (i # is) cl seq cur =
     andThen (SetLfnEntry FileName (dir_entry cl i) seq chk cur) (\<lambda>(e, cur1).
     let e1 = (if ucast seq = NumLfnEntries then e[0 := e ! 0 OR 0x40] else e)
     in set_lfn_entries FileName chk NumLfnEntries is (set_dir_entry cl i e1) (seq - 1) cur1)"

text \<open>The entry that follows the long ones.\<close>

definition info_entry :: "u8 list \<Rightarrow> u8 \<Rightarrow> u8 list" where
  "info_entry e attr =
     (let e1 = (FAT32_LFN_MARK @ drop 11 e)[11 := attr]
      in set_word16 (set_word16 (take 28 e1 @ bytes32 0 @ drop 32 e1) 26 0) 20 0)"

definition Fat32AllocateLongFileNameEntry ::
  "drive \<times> FAT32_PARTITION \<Rightarrow> u32 \<Rightarrow> u16 list \<Rightarrow> u8 \<Rightarrow> u32 \<Rightarrow> ((drive \<times> FAT32_PARTITION) \<times> FAT_STATUS) outcome" where
  "Fat32AllocateLongFileNameEntry v Cluster FileName attr NumLfnEntries =
     (let TargetEntries = NumLfnEntries + 1;
          chk = lfn_checksum FAT32_LFN_MARK 0;
          st0 = \<lparr> StartChainCluster = 0, StartChainIndex = 0, EndChainCluster = 0, EndChainIndex = 0, NumApprovedEntries = 0 \<rparr>
      in andThen (lfn_in_chain (chain_fuel (snd v)) TargetEntries v Cluster False Cluster [] st0) (\<lambda>(p1, buf, st).
         andThen
           (if StartChainCluster st = 0 then
              if EntriesPerCluster p1 = 0 then Inl DivideError
              else
              (let per = of_nat (EntriesPerCluster p1);
                   RequiredClusters = TargetEntries div per + (if TargetEntries mod per \<noteq> 0 then 1 else 0)
               in andThen (Fat32AllocateClusterChain (fst v, p1) Cluster RequiredClusters) (\<lambda>((d2, p2), start).
                  if start = 0 then Inr ((d2, p2), None)
                  else andThen (Fat32GetLastCluster d2 p2 Cluster) (\<lambda>endc.
                    let zero = replicate (unat (ClusterSize p2) * 512) 0
                    in andThen (clear_chain (chain_fuel p2) (d2, p2) start zero) (\<lambda>v3.
                       Inr (v3, Some (start, 0, endc, unat (TargetEntries mod per), zero))))))
            else Inr ((fst v, p1), Some (StartChainCluster st, StartChainIndex st, EndChainCluster st, EndChainIndex st, buf)))
           (\<lambda>(v2, slot).
            case slot of None \<Rightarrow> Inr (v2, FAT_NO_ENOUGH_SPACE)
            | Some (startc, starti, endc, endi, buf2) \<Rightarrow>
                andThen (lfn_start FileName) (\<lambda>cur.
                if startc = endc then
                  andThen (set_lfn_entries FileName chk NumLfnEntries [starti..<endi] buf2 (ucast NumLfnEntries) cur) (\<lambda>cl1.
                  let cl2 = set_dir_entry cl1 endi (info_entry (dir_entry cl1 endi) attr)
                  in Inr ((fst (Fat32WriteCluster (fst v2) (snd v2) startc cl2), snd v2), FAT_SUCCESS))
                else
                  andThen (Fat32ReadCluster v2 startc False) (\<lambda>(status, p3, _, _, _).
                  if status = FAT_SUCCESS then Inr ((fst v2, p3), FAT_READ_ERROR) else Inl Hang)))))"

text \<open>
  The loop for a run over several clusters goes on while \<open>Fat32ReadCluster\<close> returns a status other than 0, which is \<open>FAT_SUCCESS\<close>: it
  is left at the first cluster that is read, and on a cluster number below 2, which is never read and never advanced, it does not end.
\<close>

definition Fat32AllocateEntry ::
  "drive \<times> FAT32_PARTITION \<Rightarrow> u32 \<Rightarrow> u16 list \<Rightarrow> u8 \<Rightarrow> ((drive \<times> FAT32_PARTITION) \<times> FAT_STATUS) outcome" where
  "Fat32AllocateEntry v Cluster FileName attr =
     andThen (Fat32StrlenW FileName) (\<lambda>len.
     if len = 0 then Inr (v, FAT_INVALID_PARAMETER)
     else andThen (classify_name FileName len) (\<lambda>(n, lower1, lower2).
       if n \<noteq> 0 then Fat32AllocateLongFileNameEntry v Cluster FileName attr n
       else Fat32AllocateSfnEntry v Cluster FileName attr lower1 lower2))"

section \<open>Long names round trip\<close>

definition lfn_offsets :: "nat list" where
  "lfn_offsets = [1, 3, 5, 7, 9, 14, 16, 18, 20, 22, 24, 28, 30]"

lemma le16_split: "le16 (ucast w) (ucast (drop_bit 8 w)) = w"
proof (rule bit_word_eqI)
  fix n assume "n < LENGTH(16)"
  then consider "n < 8" | "8 \<le> n" "n < 16" by fastforce
  then show "bit (le16 (ucast w) (ucast (drop_bit 8 w))) n = bit w n" by cases (auto simp: le16_def bit_simps)
qed

lemma word16_set [simp]:
  "Suc k < length e \<Longrightarrow> word16 (set_word16 e k w) k = w"
  "Suc k < j \<or> Suc j < k \<Longrightarrow> word16 (set_word16 e k w) j = word16 e j"
  "length (set_word16 e k w) = length e"
  "j < k \<or> Suc k < j \<Longrightarrow> set_word16 e k w ! j = e ! j"
  by (auto simp: word16_def set_word16_def le16_split nth_list_update)

text \<open>The words one long entry gets: the part of the name, a terminator and padding.\<close>

fun lfn_words :: "nat \<Rightarrow> bool \<Rightarrow> u16 list \<Rightarrow> u16 list" where
  "lfn_words 0 eo s = []"
| "lfn_words (Suc n) eo (c # s) = c # lfn_words n eo s"
| "lfn_words (Suc n) eo [] = (if eo then 0xFFFF else 0) # lfn_words n True []"

lemma set_lfn_chars_run:
  "length part < 2 ^ 16 \<Longrightarrow> 0 \<notin> set part \<Longrightarrow> fp + length part < length fn \<Longrightarrow>
   (\<And>j. j < length part \<Longrightarrow> fn ! (fp + j) = part ! j) \<Longrightarrow>
   \<exists>fp' sz' eo'. set_lfn_chars fn ks (e, fp, of_nat (length part), eo) =
     Inr (fold (\<lambda>(k, w) e. set_word16 e k w) (zip ks (lfn_words (length ks) eo part)) e, fp', sz', eo')"
proof (induction ks arbitrary: e fp part eo)
  case Nil
  then show ?case by simp
next
  case step: (Cons k ks)
  show ?case
  proof (cases part)
    case Nil
    then show ?thesis
      using step.IH [of "[]" fp] step.prems by (cases eo; cases "fn ! fp = 0") auto
  next
    case (Cons c part')
    have nz: "of_nat (length part) \<noteq> (0 :: u16)"
      using unat_of_nat_u16 [OF step.prems(1)] Cons by (metis length_0_conv list.distinct(1) unsigned_0)
    have "fn ! fp = c" using step.prems(4) [of 0] Cons by simp
    moreover have "\<exists>fp' sz' eo'. set_lfn_chars fn ks (set_word16 e k c, Suc fp, of_nat (length part'), eo) =
        Inr (fold (\<lambda>(k, w) e. set_word16 e k w) (zip ks (lfn_words (length ks) eo part')) (set_word16 e k c), fp', sz', eo')"
      using step.prems(1-3) Cons step.prems(4) [of "Suc j" for j] by (intro step.IH) auto
    moreover have "of_nat (length part) - 1 = (of_nat (length part') :: u16)" using Cons by simp
    ultimately show ?thesis using step.prems Cons nz by auto
  qed
qed

lemma set_lfn_chars_append:
  "set_lfn_chars fn (a @ b) s = andThen (set_lfn_chars fn a s) (set_lfn_chars fn b)"
proof (induction a arbitrary: s)
  case (Cons k a)
  obtain e fp sz eo where s: "s = (e, fp, sz, eo)" by (cases s)
  show ?case using Cons.IH by (cases "fp < length fn") (simp_all add: s)
qed simp

lemma length_lfn_words [simp]: "length (lfn_words n eo s) = n"
  by (induction n eo s rule: lfn_words.induct) auto

lemma offsets_split: "map (\<lambda>c. 1 + 2 * c) [0..<5] @ map (\<lambda>c. 14 + 2 * c) [0..<6] @ map (\<lambda>c. 28 + 2 * c) [0..<2] = lfn_offsets"
  by (simp add: lfn_offsets_def upt_rec)

lemma fold_words:
  assumes "length e = 32" and "length ws = 13"
  shows "map (word16 (fold (\<lambda>(k, w) e. set_word16 e k w) (zip lfn_offsets ws) e)) lfn_offsets = ws"
    and "length (fold (\<lambda>(k, w) e. set_word16 e k w) (zip lfn_offsets ws) e) = 32"
    and "j \<in> {0, 11, 13} \<Longrightarrow> fold (\<lambda>(k, w) e. set_word16 e k w) (zip lfn_offsets ws) e ! j = e ! j"
proof -
  obtain w0 w1 w2 w3 w4 w5 w6 w7 w8 w9 w10 w11 w12 where ws: "ws = [w0, w1, w2, w3, w4, w5, w6, w7, w8, w9, w10, w11, w12]"
    using assms(2) by (auto simp: length_Suc_conv eval_nat_numeral)
  show "map (word16 (fold (\<lambda>(k, w) e. set_word16 e k w) (zip lfn_offsets ws) e)) lfn_offsets = ws"
    "length (fold (\<lambda>(k, w) e. set_word16 e k w) (zip lfn_offsets ws) e) = 32"
    using assms(1) by (simp_all add: ws lfn_offsets_def)
  show "j \<in> {0, 11, 13} \<Longrightarrow> fold (\<lambda>(k, w) e. set_word16 e k w) (zip lfn_offsets ws) e ! j = e ! j"
    using assms(1) by (auto simp: ws lfn_offsets_def)
qed

text \<open>What \<open>SetLfnEntry\<close> makes of one part of the name.\<close>

lemma SetLfnEntry_run:
  assumes e: "length e = 32" and part: "length part \<le> 13" "0 \<notin> set part" "fp + length part < length fn"
      "\<And>j. j < length part \<Longrightarrow> fn ! (fp + j) = part ! j"
    and cur: "ReverseFileName cur = fp" "SizeFileNamePart cur = of_nat (length part)" and adv: "lfn_advance cur = Inr cur1"
  obtains e1 where "SetLfnEntry fn e seq chk cur = Inr (e1, cur1)" and "length e1 = 32"
    and "map (word16 e1) lfn_offsets = lfn_words 13 False part" and "e1 ! 0 = ucast seq" and "e1 ! 11 = 0xF"
proof -
  define e0 where "e0 = e[0 := ucast seq, 13 := chk, 11 := 0xF]"
  have e0: "length e0 = 32" "e0 ! 0 = ucast seq" "e0 ! 11 = 0xF" using e by (simp_all add: e0_def)
  define e1 where "e1 = fold (\<lambda>(k, w) e. set_word16 e k w) (zip lfn_offsets (lfn_words (length lfn_offsets) False part)) e0"
  have l13: "length lfn_offsets = 13" by (simp add: lfn_offsets_def)
  have len: "length (lfn_words (length lfn_offsets) False part) = 13" by (simp add: l13)
  note f = fold_words [OF e0(1) len]
  obtain fp' sz' eo' where "set_lfn_chars fn lfn_offsets (e0, fp, of_nat (length part), False) = Inr (e1, fp', sz', eo')"
    using set_lfn_chars_run [of part fp fn lfn_offsets e0 False] part unfolding e1_def by auto
  then have "SetLfnEntry fn e seq chk cur = Inr (e1, cur1)"
    unfolding SetLfnEntry_def Let_def e0_def [symmetric] cur offsets_split [symmetric] set_lfn_chars_append
    using adv by (auto simp: andThen_def split: sum.splits)
  then show ?thesis using that f(1,2) f(3) [of 0] f(3) [of 11] e0 unfolding e1_def by (simp add: l13)
qed

lemma store_down_append: "store_down (a @ b) s = andThen (store_down a s) (store_down b)"
proof (induction a arbitrary: s)
  case (Cons c a)
  obtain buf ptr where s: "s = (buf, ptr)" by (cases s)
  show ?case using Cons.IH by (cases "0 \<le> ptr \<and> ptr < int (length buf)") (simp_all add: s store_at_def)
qed simp

lemma store_down_filter: "store_down (filter (\<lambda>c. c \<noteq> 0 \<and> c \<noteq> 0xFFFF) cs) s = store_down cs s"
proof (induction cs arbitrary: s)
  case (Cons c cs)
  obtain buf ptr where s: "s = (buf, ptr)" by (cases s)
  show ?case using Cons.IH by (cases "0 \<le> ptr \<and> ptr < int (length buf)") (simp_all add: s store_at_def)
qed simp

lemma store_down_run:
  "0 \<notin> set part \<Longrightarrow> 0xFFFF \<notin> set part \<Longrightarrow> length part \<le> m \<Longrightarrow> m \<le> length buf \<Longrightarrow>
   store_down (rev part) (buf, int m - 1) = Inr (take (m - length part) buf @ part @ drop m buf, int (m - length part) - 1)"
proof (induction part arbitrary: m buf rule: rev_induct)
  case (snoc c part)
  then obtain k where m: "m = Suc k" by (cases m) auto
  have "store_down (rev part) (buf[k := c], int k - 1) =
      Inr (take (k - length part) (buf[k := c]) @ part @ drop k (buf[k := c]), int (k - length part) - 1)"
    using snoc.prems m by (intro snoc.IH) auto
  moreover have "drop k (buf[k := c]) = c # drop (Suc k) buf" using snoc.prems m by (simp add: Cons_nth_drop_Suc [symmetric])
  ultimately show ?case using snoc.prems m by (simp add: store_at_def)
qed simp

lemma filter_lfn_words:
  "length part \<le> n \<Longrightarrow> 0 \<notin> set part \<Longrightarrow> 0xFFFF \<notin> set part \<Longrightarrow> filter (\<lambda>c. c \<noteq> 0 \<and> c \<noteq> 0xFFFF) (lfn_words n eo part) = part"
  by (induction n eo part rule: lfn_words.induct) auto

lemma ParseLfnEntry_words: "ParseLfnEntry e s = store_down (rev (map (word16 e) lfn_offsets)) s"
proof -
  have "rev (map (word16 e) lfn_offsets) =
      map (\<lambda>i. Name2 e (1 - i)) [0..<2] @ map (\<lambda>i. Name1 e (5 - i)) [0..<6] @ map (\<lambda>i. Name0 e (4 - i)) [0..<5]"
    by (simp add: lfn_offsets_def upt_rec Name0_def Name1_def Name2_def)
  then show ?thesis unfolding ParseLfnEntry_def by (simp only: ext [OF store_down_append])
qed

lemma ParseLfnEntry_run:
  assumes w: "map (word16 e) lfn_offsets = lfn_words 13 False part" and part: "length part \<le> 13" "0 \<notin> set part" "0xFFFF \<notin> set part"
    and m: "length part \<le> m" "m \<le> length buf"
  shows "ParseLfnEntry e (buf, int m - 1) = Inr (take (m - length part) buf @ part @ drop m buf, int (m - length part) - 1)"
  unfolding ParseLfnEntry_words w
  by (subst store_down_filter [symmetric]) (simp add: rev_filter [symmetric] filter_lfn_words part store_down_run m)

lemma entry_at_set_entry:
  assumes "32 * x + 32 \<le> length cl" and "length e = 32"
  shows "dir_entry (set_dir_entry cl x e) y = (if y = x then e else dir_entry cl y)" and "length (set_dir_entry cl x e) = length cl"
proof -
  show "length (set_dir_entry cl x e) = length cl" using assms by (simp add: set_dir_entry_def)
  show "dir_entry (set_dir_entry cl x e) y = (if y = x then e else dir_entry cl y)"
  proof (cases "y = x")
    case True
    then show ?thesis using assms by (simp add: dir_entry_def set_dir_entry_def)
  next
    case False
    show ?thesis
    proof (cases "y < x")
      case True
      then have "32 \<le> 32 * x - 32 * y" by simp
      then show ?thesis using assms False by (simp add: dir_entry_def set_dir_entry_def drop_take min_def)
    next
      case ge: False
      then obtain k where k: "y = x + Suc k" using False by (metis add_Suc_right less_imp_Suc_add linorder_neqE_nat)
      have "drop (32 * y) (set_dir_entry cl x e) = drop (32 * y) cl"
        using assms by (simp add: set_dir_entry_def k algebra_simps)
      then show ?thesis using False by (simp add: dir_entry_def)
    qed
  qed
qed

text \<open>The parts of a name, and the long entry of part \<open>q\<close> of \<open>n\<close>.\<close>

definition name_part :: "u16 list \<Rightarrow> nat \<Rightarrow> u16 list" where
  "name_part s q = take 13 (drop (13 * q) s)"

definition long_entry :: "u16 list \<Rightarrow> nat \<Rightarrow> nat \<Rightarrow> u8 list \<Rightarrow> bool" where
  "long_entry s n q e \<longleftrightarrow> length e = 32 \<and> map (word16 e) lfn_offsets = lfn_words 13 False (name_part s q) \<and>
     e ! 0 = of_nat (Suc q) OR (if Suc q = n then 0x40 else 0) \<and> e ! 11 = 0xF"

definition part_cursor :: "u16 list \<Rightarrow> nat \<Rightarrow> lfn_cursor" where
  "part_cursor s q = \<lparr> ReverseFileName = 13 * q, RemainingSize = of_nat (13 * q), SizeFileNamePart = of_nat (length (name_part s q)) \<rparr>"

definition num_parts :: "u16 list \<Rightarrow> nat" where "num_parts s = (length s + 12) div 13"

lemma num_parts_pos: "s \<noteq> [] \<Longrightarrow> 0 < num_parts s"
  by (cases s) (simp_all add: num_parts_def div_greater_zero_iff)

lemma name_part_full: "Suc q < num_parts s \<Longrightarrow> length (name_part s q) = 13"
  by (simp add: name_part_def num_parts_def)

lemma lfn_advance_run:
  assumes q: "Suc q < num_parts s" and n: "num_parts s \<le> 31"
  shows "lfn_advance (part_cursor s (Suc q)) = Inr (part_cursor s q)"
proof -
  have u: "unat (of_nat (13 * Suc q) :: u16) = 13 * Suc q" using q n by (intro unat_of_nat_u16) simp
  have "(of_nat (13 * Suc q) :: u16) - 13 = of_nat (13 * q)" by simp
  moreover have "(13 :: u16) \<le> of_nat (13 * Suc q)" unfolding word_le_nat_alt u by simp
  ultimately show ?thesis using name_part_full [OF q] by (simp add: lfn_advance_def part_cursor_def)
qed

lemma of_nat_casts:
  assumes "m \<le> 31" "n \<le> 31"
  shows "(ucast (of_nat m :: u16) :: u8) = of_nat m" and "(ucast (of_nat m :: u16) :: u32) = of_nat n \<longleftrightarrow> m = n"
proof -
  have u: "unat (of_nat m :: u16) = m" "unat (of_nat m :: u8) = m" "unat (of_nat n :: u32) = n"
    using assms by (simp_all add: unat_of_nat take_bit_nat_eq_self)
  have "unat (ucast (of_nat m :: u16) :: u8) = m" using u assms by (simp add: unsigned_ucast_eq take_bit_nat_eq_self)
  then show "(ucast (of_nat m :: u16) :: u8) = of_nat m" using u by (simp add: word_unat_eq_iff)
  show "(ucast (of_nat m :: u16) :: u32) = of_nat n \<longleftrightarrow> m = n" using u by (simp add: word_unat_eq_iff unat_ucast_up)
qed

lemma SetLfnEntry_part:
  assumes n: "num_parts s = n" "n \<le> 31" and s: "0 \<notin> set s" and q: "q < n" and e: "length e = 32"
    and adv: "lfn_advance (part_cursor s q) = Inr cur1"
  obtains e1 where "SetLfnEntry (s @ 0 # r) e (of_nat (Suc q)) chk (part_cursor s q) = Inr (e1, cur1)"
    and "long_entry s n q (if ucast (of_nat (Suc q) :: u16) = (of_nat n :: u32) then e1[0 := e1 ! 0 OR 0x40] else e1)"
proof -
  have q31: "Suc q \<le> 31" using q n by simp
  have part: "length (name_part s q) \<le> 13" "0 \<notin> set (name_part s q)"
    using s by (auto simp: name_part_def dest: in_set_takeD in_set_dropD)
  have "13 * q + length (name_part s q) \<le> length s" using q n by (auto simp: name_part_def num_parts_def)
  then have fit: "13 * q + length (name_part s q) < length (s @ 0 # r)"
    and at: "\<And>j. j < length (name_part s q) \<Longrightarrow> (s @ 0 # r) ! (13 * q + j) = name_part s q ! j"
    by (auto simp: nth_append name_part_def)
  obtain e1 where e1: "SetLfnEntry (s @ 0 # r) e (of_nat (Suc q)) chk (part_cursor s q) = Inr (e1, cur1)" "length e1 = 32"
      "map (word16 e1) lfn_offsets = lfn_words 13 False (name_part s q)" "e1 ! 0 = ucast (of_nat (Suc q) :: u16)" "e1 ! 11 = 0xF"
    by (rule SetLfnEntry_run [OF e part fit at _ _ adv]) (simp_all add: part_cursor_def)
  have "map (word16 (e1[0 := v])) lfn_offsets = map (word16 e1) lfn_offsets" for v
    by (simp add: lfn_offsets_def word16_def)
  then show ?thesis
    using that [OF e1(1)] e1(2-) of_nat_casts [OF q31 n(2)] by (auto simp: long_entry_def)
qed

lemma set_lfn_entries_run:
  assumes n: "num_parts s = n" "n \<le> 31" and s: "0 \<notin> set s"
  shows "q < n \<Longrightarrow> 32 * (i + Suc q) \<le> length cl \<Longrightarrow>
    \<exists>cl1. set_lfn_entries (s @ 0 # r) chk (of_nat n) [i..<i + Suc q] cl (of_nat (Suc q)) (part_cursor s q) = Inr cl1 \<and> length cl1 = length cl \<and>
      (\<forall>k \<le> q. long_entry s n (q - k) (dir_entry cl1 (i + k))) \<and> (\<forall>y. y < i \<or> i + q < y \<longrightarrow> dir_entry cl1 y = dir_entry cl y)"
proof (induction q arbitrary: i cl)
  case 0
  have len: "length (dir_entry cl i) = 32" using 0 by (simp add: dir_entry_def)
  obtain cur1 where "lfn_advance (part_cursor s 0) = Inr cur1" by (simp add: lfn_advance_def part_cursor_def)
  from SetLfnEntry_part [OF n s "0.prems"(1) len this, of r chk]
  obtain e1 where e1: "SetLfnEntry (s @ 0 # r) (dir_entry cl i) (of_nat (Suc 0)) chk (part_cursor s 0) = Inr (e1, cur1)"
      "long_entry s n 0 (if ucast (of_nat (Suc 0) :: u16) = (of_nat n :: u32) then e1[0 := e1 ! 0 OR 0x40] else e1)" by blast
  let ?e = "if ucast (of_nat (Suc 0) :: u16) = (of_nat n :: u32) then e1[0 := e1 ! 0 OR 0x40] else e1"
  have "32 * i + 32 \<le> length cl" "length ?e = 32" using 0 e1(2) by (simp_all add: long_entry_def)
  note se = entry_at_set_entry [OF this]
  show ?case using e1(1) se e1(2) by (intro exI [of _ "set_dir_entry cl i ?e"]) (simp add: Let_def)
next
  case (Suc q)
  have len: "length (dir_entry cl i) = 32" using Suc.prems by (simp add: dir_entry_def)
  have "lfn_advance (part_cursor s (Suc q)) = Inr (part_cursor s q)" using Suc.prems n by (intro lfn_advance_run) simp_all
  from SetLfnEntry_part [OF n s Suc.prems(1) len this, of r chk]
  obtain e1 where e1: "SetLfnEntry (s @ 0 # r) (dir_entry cl i) (of_nat (Suc (Suc q))) chk (part_cursor s (Suc q)) = Inr (e1, part_cursor s q)"
      "long_entry s n (Suc q) (if ucast (of_nat (Suc (Suc q)) :: u16) = (of_nat n :: u32) then e1[0 := e1 ! 0 OR 0x40] else e1)" by blast
  define e where "e = (if ucast (of_nat (Suc (Suc q)) :: u16) = (of_nat n :: u32) then e1[0 := e1 ! 0 OR 0x40] else e1)"
  have e2: "long_entry s n (Suc q) e" using e1(2) by (simp add: e_def)
  have "32 * i + 32 \<le> length cl" "length e = 32" using Suc.prems e2 by (simp_all add: long_entry_def)
  note se = entry_at_set_entry [OF this]
  obtain cl1 where cl1: "set_lfn_entries (s @ 0 # r) chk (of_nat n) [Suc i..<Suc i + Suc q] (set_dir_entry cl i e) (of_nat (Suc q)) (part_cursor s q) = Inr cl1"
      "length cl1 = length (set_dir_entry cl i e)" "\<forall>k \<le> q. long_entry s n (q - k) (dir_entry cl1 (Suc i + k))"
      "\<forall>y. y < Suc i \<or> Suc i + q < y \<longrightarrow> dir_entry cl1 y = dir_entry (set_dir_entry cl i e) y"
    using Suc.IH [of "Suc i" "set_dir_entry cl i e"] Suc.prems se(2) by auto
  have up: "[i..<i + Suc (Suc q)] = i # [Suc i..<Suc i + Suc q]" by (simp add: upt_conv_Cons)
  have sq: "(of_nat (Suc (Suc q)) :: u16) - 1 = of_nat (Suc q)" by simp
  have run: "set_lfn_entries (s @ 0 # r) chk (of_nat n) [i..<i + Suc (Suc q)] cl (of_nat (Suc (Suc q))) (part_cursor s (Suc q)) = Inr cl1"
    unfolding up set_lfn_entries.simps e1(1) andThen_simps case_prod_conv Let_def e_def [symmetric] sq by (rule cl1(1))
  have "long_entry s n (Suc q - k) (dir_entry cl1 (i + k))" if "k \<le> Suc q" for k
    using that cl1(3) cl1(4) se(1) e2 by (cases k) auto
  then show ?case using run cl1(2,4) se by auto
qed

text \<open>The first byte of a long entry is neither the end mark nor the mark of a deleted entry, and says which part it is.\<close>

lemma long_entry_first:
  assumes e: "long_entry s n q e" and q: "q < n" "n \<le> 31"
  shows "e ! 0 \<noteq> 0" and "e ! 0 \<noteq> 0xE5" and "e ! 0 AND 0x40 \<noteq> 0 \<longleftrightarrow> Suc q = n" and "unat (e ! 0 AND 0x1F) = Suc q"
proof -
  have e0: "e ! 0 = of_nat (Suc q) OR (if Suc q = n then 0x40 else 0)" using e by (simp add: long_entry_def)
  have "Suc q \<le> 31" using q by simp
  then have "Suc q \<in> {1..31}" by simp
  then have "Suc q \<in> set [1..<32]" by auto
  then have all: "(of_nat (Suc q) :: u8) \<noteq> 0 \<and> of_nat (Suc q) \<noteq> (0xE5 :: u8) \<and> of_nat (Suc q) OR 0x40 \<noteq> (0 :: u8) \<and>
      of_nat (Suc q) OR 0x40 \<noteq> (0xE5 :: u8) \<and> of_nat (Suc q) AND 0x40 = (0 :: u8) \<and> (of_nat (Suc q) OR 0x40) AND 0x40 \<noteq> (0 :: u8) \<and>
      unat (of_nat (Suc q) AND 0x1F :: u8) = Suc q \<and> unat ((of_nat (Suc q) OR 0x40) AND 0x1F :: u8) = Suc q"
    by (simp add: upt_rec del: of_nat_Suc) (elim disjE; simp)
  show "e ! 0 \<noteq> 0" "e ! 0 \<noteq> 0xE5" "e ! 0 AND 0x40 \<noteq> 0 \<longleftrightarrow> Suc q = n" "unat (e ! 0 AND 0x1F) = Suc q"
    unfolding e0 using all by (cases "Suc q = n"; simp del: of_nat_Suc)+
qed

text \<open>The buffer after the parts from \<open>q\<close> on have been parsed.\<close>

definition parsed_buffer :: "u16 list \<Rightarrow> u16 list \<Rightarrow> u16 list" where
  "parsed_buffer buf t = take (0x19F - length t) buf @ t @ drop 0x19F buf"

lemma name_tail: "q < num_parts s \<Longrightarrow> drop (13 * q) s = name_part s q @ drop (13 * Suc q) s"
  by (simp add: name_part_def drop_drop [symmetric] add.commute del: drop_drop)

lemma parsed_append: "parsed_buffer buf (p @ t) = take (0x19F - length t - length p) buf @ p @ t @ drop 0x19F buf"
  by (simp add: parsed_buffer_def add.commute)

lemma ParseLfnEntry_part:
  assumes e: "long_entry s n q e" and s: "0 \<notin> set s" "0xFFFF \<notin> set s" "length s \<le> 403" and q: "q < num_parts s" and buf: "0x19F \<le> length buf"
  shows "ParseLfnEntry e (parsed_buffer buf (drop (13 * Suc q) s), int (0x19F - length (drop (13 * Suc q) s)) - 1) =
    Inr (parsed_buffer buf (drop (13 * q) s), int (0x19F - length (drop (13 * q) s)) - 1)"
proof -
  let ?t = "drop (13 * Suc q) s" and ?p = "name_part s q"
  have w: "map (word16 e) lfn_offsets = lfn_words 13 False ?p" using e by (simp add: long_entry_def)
  have p: "length ?p \<le> 13" "0 \<notin> set ?p" "0xFFFF \<notin> set ?p" using s by (auto simp: name_part_def dest: in_set_takeD in_set_dropD)
  have tl: "drop (13 * q) s = ?p @ ?t" by (rule name_tail [OF q])
  have "length (drop (13 * q) s) \<le> 403" using s(3) by simp
  then have le: "length ?p + length ?t \<le> 403" unfolding tl by simp
  have len: "0x19F - length ?t \<le> length (parsed_buffer buf ?t)" using buf by (simp add: parsed_buffer_def)
  have tk: "take m (parsed_buffer buf ?t) = take m buf" if "m \<le> 0x19F - length ?t" for m using that buf by (simp add: parsed_buffer_def)
  have dr: "drop (0x19F - length ?t) (parsed_buffer buf ?t) = ?t @ drop 0x19F buf" using buf by (simp add: parsed_buffer_def)
  have "ParseLfnEntry e (parsed_buffer buf ?t, int (0x19F - length ?t) - 1) =
      Inr (take (0x19F - length ?t - length ?p) (parsed_buffer buf ?t) @ ?p @ drop (0x19F - length ?t) (parsed_buffer buf ?t),
        int (0x19F - length ?t - length ?p) - 1)"
    by (rule ParseLfnEntry_run [OF w p _ len]) (use le in simp)
  also have "\<dots> = Inr (parsed_buffer buf (?p @ ?t), int (0x19F - length (?p @ ?t)) - 1)"
    unfolding dr parsed_append using tk [of "0x19F - length ?t - length ?p"] by (simp add: add.commute)
  finally show ?thesis unfolding tl .
qed

definition scan_state :: "u16 list \<Rightarrow> u16 list \<Rightarrow> nat \<Rightarrow> search_state" where
  "scan_state buf s q = \<lparr> NameBuffer = parsed_buffer buf (drop (13 * q) s), EntryNamePtr = int (0x19F - length (drop (13 * q) s)) - 1,
     RemainingSequences = q, ParseMode = True \<rparr>"

lemma find_long_rest:
  assumes s: "0 \<notin> set s" "0xFFFF \<notin> set s" "num_parts s = n" "n \<le> 31" and buf: "0x19F \<le> length buf"
  shows "q < n \<Longrightarrow> i + q < N \<Longrightarrow> (\<forall>k < q. long_entry s n (q - 1 - k) (dir_entry cl (i + k))) \<Longrightarrow>
    find_loop fn cl [i..<N] (scan_state buf s q) = find_loop fn cl [i + q..<N] (scan_state buf s 0)"
proof (induction q arbitrary: i)
  case (Suc q)
  have q: "q < n" using Suc.prems by simp
  have e: "long_entry s n q (dir_entry cl i)" using Suc.prems(3) by (metis add.right_neutral diff_Suc_1 minus_nat.diff_0 zero_less_Suc)
  note first = long_entry_first [OF e q s(4)]
  have len: "length s \<le> 403" using s(3,4) by (auto simp: num_parts_def)
  have "ParseLfnEntry (dir_entry cl i) (NameBuffer (scan_state buf s (Suc q)), EntryNamePtr (scan_state buf s (Suc q))) =
      Inr (NameBuffer (scan_state buf s q), EntryNamePtr (scan_state buf s q))"
    using ParseLfnEntry_part [OF e s(1,2) len q [folded s(3)] buf] by (simp add: scan_state_def)
  moreover have "FileAttributes (dir_entry cl i) AND 0xF = 0xF" using e by (simp add: long_entry_def FileAttributes_def)
  ultimately have step: "find_step fn (dir_entry cl i) (scan_state buf s (Suc q)) = Inr (False, scan_state buf s q)"
    by (simp add: find_step_def) (simp add: scan_state_def)
  have "find_loop fn cl [Suc i..<N] (scan_state buf s q) = find_loop fn cl [Suc i + q..<N] (scan_state buf s 0)"
  proof (rule Suc.IH [OF q])
    show "Suc i + q < N" using Suc.prems by simp
    show "\<forall>k < q. long_entry s n (q - 1 - k) (dir_entry cl (Suc i + k))"
    proof (intro allI impI)
      fix k assume "k < q"
      then show "long_entry s n (q - 1 - k) (dir_entry cl (Suc i + k))"
        using Suc.prems(3) [rule_format, of "Suc k"] by simp
    qed
  qed
  moreover have "[i..<N] = i # [Suc i..<N]" using Suc.prems by (simp add: upt_conv_Cons)
  ultimately show ?case using step first(1,2) by (simp add: Let_def ShortFileName_def)
qed simp

lemma find_long_first:
  assumes s: "0 \<notin> set s" "0xFFFF \<notin> set s" "num_parts s = n" "n \<le> 31" "s \<noteq> []" and buf: "0x19F \<le> length buf"
    and e: "long_entry s n (n - 1) e" and st: "\<not> ParseMode st" "NameBuffer st = buf"
  shows "find_step fn e st = Inr (False, scan_state buf s (n - 1))"
proof -
  have n: "n - 1 < n" "Suc (n - 1) = n" using num_parts_pos [OF s(5)] s(3) by simp_all
  have len: "length s \<le> 403" using s(3,4) by (auto simp: num_parts_def)
  have nil: "drop (13 * n) s = []" using s(3) by (simp add: num_parts_def)
  note first = long_entry_first [OF e n(1) s(4)]
  have "ParseLfnEntry e (buf, 0x19E) = Inr (NameBuffer (scan_state buf s (n - 1)), EntryNamePtr (scan_state buf s (n - 1)))"
    using ParseLfnEntry_part [OF e s(1,2) len _ buf] n nil s(3) by (simp add: scan_state_def parsed_buffer_def [of buf "[]"])
  moreover have "FileAttributes e AND 0xF = 0xF" using e by (simp add: long_entry_def FileAttributes_def)
  moreover have "ShortFileName e 0 AND 0x40 \<noteq> 0" "ShortFileName e 0 AND 0x1F \<noteq> 0" "unat (ShortFileName e 0 AND 0x1F) - 1 = n - 1"
    using first(3,4) n(2) by (auto simp: ShortFileName_def)
  ultimately show ?thesis using st by (simp add: find_step_def parse_normal_entry_def scan_state_def)
qed

lemma find_step_last:
  assumes s: "0 \<notin> set s" "length s \<le> 403" and buf: "0x19F < length buf" "buf ! 0x19F = 0" and f: "0 \<notin> set f"
  obtains st1 where "find_step (f @ 0 # r) e (scan_state buf s 0) = Inr (map ci_char s = map ci_char f, st1)"
    and "ParseMode st1 \<longleftrightarrow> map ci_char s = map ci_char f" and "NameBuffer st1 = parsed_buffer buf s"
proof -
  have "drop 0x19F buf = 0 # drop 0x1A0 buf" using buf by (simp add: Cons_nth_drop_Suc [symmetric])
  then have "drop (0x19F - length s) (parsed_buffer buf s) = s @ 0 # drop 0x1A0 buf" using buf by (simp add: parsed_buffer_def)
  then have "same_name (drop (nat (EntryNamePtr (scan_state buf s 0) + 1)) (NameBuffer (scan_state buf s 0))) (f @ 0 # r) =
      Inr (map ci_char s = map ci_char f)"
    using same_name_eq [OF s(1) f, of "drop 0x1A0 buf" r] by (simp add: scan_state_def)
  then show ?thesis
    using that [of "(scan_state buf s 0)\<lparr> EntryNamePtr := EntryNamePtr (scan_state buf s 0) + 1, ParseMode := map ci_char s = map ci_char f \<rparr>"]
    by (simp add: find_step_def Let_def) (simp add: scan_state_def)
qed

lemma lfn_start_run:
  assumes s: "s \<noteq> []" "0 \<notin> set s" and n: "num_parts s \<le> 31"
  shows "lfn_start (s @ 0 # r) = Inr (part_cursor s (num_parts s - 1))"
proof -
  let ?L = "length s" and ?q = "num_parts s - 1"
  define pt where "pt = (if ?L \<ge> 13 then if ?L mod 13 \<noteq> 0 then ?L mod 13 else 13 else ?L)"
  have L: "0 < ?L" "?L \<le> 403" using s(1) n by (auto simp: num_parts_def)
  have nat: "pt = length (name_part s ?q)" "?L - pt = 13 * ?q" "pt \<le> ?L" "pt \<le> 13"
  proof -
    obtain a b where ab: "?L = 13 * a + b" "b < 13" by (metis mod_less_divisor mult_div_mod_eq zero_less_numeral)
    have "?L mod 13 = b" using ab by simp
    moreover have "num_parts s = (if b = 0 then a else Suc a)" using ab by (auto simp: num_parts_def)
    ultimately show "pt = length (name_part s ?q)" "?L - pt = 13 * ?q" "pt \<le> ?L" "pt \<le> 13"
      using ab L by (auto simp: pt_def name_part_def)
  qed
  have u: "unat (of_nat ?L :: u16) = ?L" using L by (intro unat_of_nat_u16) simp
  have up: "unat (of_nat pt :: u16) = pt" using nat(4) by (intro unat_of_nat_u16) simp
  have md: "unat ((of_nat ?L :: u16) mod 13) = ?L mod 13" by (simp add: unat_mod u)
  have "(if (13 :: u16) \<le> of_nat ?L then if (of_nat ?L :: u16) mod 13 \<noteq> 0 then of_nat ?L mod 13 else 13 else of_nat ?L) = (of_nat pt :: u16)"
    using md u by (auto simp: pt_def word_le_nat_alt word_unat_eq_iff unat_of_nat take_bit_nat_eq_self)
  moreover have "(of_nat ?L :: u16) - of_nat pt = of_nat (13 * ?q)" unfolding nat(2) [symmetric] using nat(3) by (simp add: of_nat_diff)
  moreover have "Fat32StrlenW (s @ 0 # r) = Inr (of_nat ?L)" using s(2) strlen_cstring [of "s @ 0 # r"] by (simp add: Fat32StrlenW_def)
  ultimately show ?thesis using nat(1,2) u up by (simp add: lfn_start_def Let_def part_cursor_def)
qed

lemma info_entry_first: "info_entry e attr ! 0 = 0x7E" "length e = 32 \<Longrightarrow> length (info_entry e attr) = 32"
  by (simp_all add: info_entry_def Let_def FAT32_LFN_MARK_def set_word16_def nth_append bytes32_def)

lemma find_loop_Cons:
  assumes "i < N" and "dir_entry cl i ! 0 \<noteq> 0" "dir_entry cl i ! 0 \<noteq> 0xE5" and "find_step fn (dir_entry cl i) st = Inr (found, st1)"
  shows "find_loop fn cl [i..<N] st = (if found then Inr (Some i, st1) else find_loop fn cl [Suc i..<N] st1)"
  using assms by (simp add: upt_conv_Cons Let_def ShortFileName_def)

text \<open>
  C12.  A long name is found again: after the loop of \<open>Fat32AllocateLongFileNameEntry\<close> has written the entries of a name of up to 403
  characters into a run of free entries, followed by its information entry, the scan of \<open>Fat32FindDirectoryClusterEntry\<close>, when it comes to the
  run outside another long name, returns the information entry for every name that differs at most in case, and goes on behind
  it for every other name; the entries outside the run are unchanged.
\<close>

theorem long_name_found:
  assumes s: "s \<noteq> []" "0 \<notin> set s" "0xFFFF \<notin> set s" and n: "num_parts s = n" "n \<le> 31"
    and cl: "length cl = 32 * N" "i + n < N" and buf: "0x19F < length (NameBuffer st)" "NameBuffer st ! 0x19F = 0" "\<not> ParseMode st"
    and f: "0 \<notin> set f"
  shows "\<exists>cur cl1 cl2 st1. lfn_start (s @ 0 # r) = Inr cur \<and>
    set_lfn_entries (s @ 0 # r) chk (of_nat n) [i..<i + n] cl (of_nat n) cur = Inr cl1 \<and>
    cl2 = set_dir_entry cl1 (i + n) (info_entry (dir_entry cl1 (i + n)) attr) \<and>
    find_loop (f @ 0 # r') cl2 [i..<N] st =
      (if map ci_char f = map ci_char s then Inr (Some (i + n), st1) else find_loop (f @ 0 # r') cl2 [Suc (i + n)..<N] st1) \<and>
    (ParseMode st1 \<longleftrightarrow> map ci_char f = map ci_char s) \<and>
    (\<forall>y. y < i \<or> i + n < y \<longrightarrow> dir_entry cl2 y = dir_entry cl y)"
proof -
  obtain q where q: "n = Suc q" using num_parts_pos [OF s(1)] n(1) by (cases n) auto
  have len: "length s \<le> 403" using n by (auto simp: num_parts_def)
  have "q < n" "32 * (i + Suc q) \<le> length cl" using q cl by simp_all
  from set_lfn_entries_run [OF n s(2) this, of r chk]
  obtain cl1 where cl1: "set_lfn_entries (s @ 0 # r) chk (of_nat n) [i..<i + n] cl (of_nat n) (part_cursor s q) = Inr cl1" "length cl1 = length cl"
      "\<forall>k \<le> q. long_entry s n (q - k) (dir_entry cl1 (i + k))" "\<forall>y. y < i \<or> i + q < y \<longrightarrow> dir_entry cl1 y = dir_entry cl y"
    unfolding q by blast
  define ie where "ie = info_entry (dir_entry cl1 (i + n)) attr"
  define cl2 where "cl2 = set_dir_entry cl1 (i + n) ie"
  have "length (dir_entry cl1 (i + n)) = 32" using cl cl1(2) by (simp add: dir_entry_def)
  then have ie: "ie ! 0 = 0x7E" "length ie = 32" by (simp_all add: ie_def info_entry_first)
  have "32 * (i + n) + 32 \<le> length cl1" using cl cl1(2) by simp
  note se = entry_at_set_entry [OF this ie(2), folded cl2_def]
  have ents: "long_entry s n (q - k) (dir_entry cl2 (i + k))" if "k \<le> q" for k using cl1(3) se(1) that q by simp
  have e0: "long_entry s n (n - 1) (dir_entry cl2 i)" using ents [of 0] q by simp
  have buf': "0x19F \<le> length (NameBuffer st)" using buf(1) by simp
  have "find_loop (f @ 0 # r') cl2 [i..<N] st = find_loop (f @ 0 # r') cl2 [Suc i..<N] (scan_state (NameBuffer st) s q)"
    using find_loop_Cons [OF _ _ _ find_long_first [OF s(2,3) n s(1) buf' e0 buf(3) refl]] long_entry_first(1,2) [OF e0 _ n(2)] cl(2) q by simp
  also have "\<dots> = find_loop (f @ 0 # r') cl2 [Suc i + q..<N] (scan_state (NameBuffer st) s 0)"
  proof (rule find_long_rest [OF s(2,3) n buf'])
    show "\<forall>k < q. long_entry s n (q - 1 - k) (dir_entry cl2 (Suc i + k))"
    proof (intro allI impI)
      fix k assume "k < q"
      then show "long_entry s n (q - 1 - k) (dir_entry cl2 (Suc i + k))" using ents [of "Suc k"] by simp
    qed
  qed (use q cl in simp_all)
  finally have run: "find_loop (f @ 0 # r') cl2 [i..<N] st = find_loop (f @ 0 # r') cl2 [i + n..<N] (scan_state (NameBuffer st) s 0)" using q by simp
  obtain st1 where st1: "find_step (f @ 0 # r') ie (scan_state (NameBuffer st) s 0) = Inr (map ci_char s = map ci_char f, st1)"
      "ParseMode st1 \<longleftrightarrow> map ci_char s = map ci_char f"
    by (rule find_step_last [OF s(2) len buf(1,2) f])
  have "dir_entry cl2 (i + n) = ie" using se(1) by simp
  then have "find_loop (f @ 0 # r') cl2 [i + n..<N] (scan_state (NameBuffer st) s 0) =
      (if map ci_char s = map ci_char f then Inr (Some (i + n), st1) else find_loop (f @ 0 # r') cl2 [Suc (i + n)..<N] st1)"
    using find_loop_Cons [of "i + n" N cl2 "f @ 0 # r'" "scan_state (NameBuffer st) s 0"] st1(1) ie(1) cl(2) by simp
  moreover have "lfn_start (s @ 0 # r) = Inr (part_cursor s q)" using lfn_start_run [OF s(1,2), of r] n q by simp
  moreover have "\<forall>y. y < i \<or> i + n < y \<longrightarrow> dir_entry cl2 y = dir_entry cl y" using se(1) cl1(4) q by auto
  ultimately show ?thesis using run cl1(1) st1(2) unfolding cl2_def ie_def by (metis (no_types, lifting))
qed

theorem long_name_found_witness:
  "\<exists>cur cl1 st1. lfn_start ([0x61, 0x2E, 0x6C, 0x6F, 0x6E, 0x67] @ 0 # []) = Inr cur \<and>
    set_lfn_entries ([0x61, 0x2E, 0x6C, 0x6F, 0x6E, 0x67] @ 0 # []) 0 1 [1..<2] (replicate 128 0) 1 cur = Inr cl1 \<and>
    find_loop ([0x41, 0x2E, 0x4C, 0x4F, 0x4E, 0x47] @ 0 # []) (set_dir_entry cl1 2 (info_entry (dir_entry cl1 2) 0x20)) [1..<4]
      \<lparr> NameBuffer = replicate 0x200 0, EntryNamePtr = 0, RemainingSequences = 0, ParseMode = False \<rparr> = Inr (Some 2, st1)"
proof -
  let ?st = "\<lparr> NameBuffer = replicate 0x200 0, EntryNamePtr = 0, RemainingSequences = 0, ParseMode = False \<rparr>"
  have n: "num_parts [0x61, 0x2E, 0x6C, 0x6F, 0x6E, 0x67] = 1" by (simp add: num_parts_def)
  have same: "map ci_char [0x41, 0x2E, 0x4C, 0x4F, 0x4E, 0x47] = map ci_char [0x61, 0x2E, 0x6C, 0x6F, 0x6E, 0x67]"
    by (simp add: ci_char_def is_lower_def)
  have ends: "1 + 1 = (2 :: nat)" "of_nat 1 = (1 :: u16)" "of_nat 1 = (1 :: u32)" by simp_all
  have buf: "NameBuffer ?st ! 0x19F = 0" "0x19F < length (NameBuffer ?st)" "\<not> ParseMode ?st"
    unfolding search_state.simps by (rule nth_replicate, simp, simp, simp)
  from long_name_found [OF _ _ _ n _ _ _ buf(2,1,3), of "replicate 128 0" 4 1 "[0x41, 0x2E, 0x4C, 0x4F, 0x4E, 0x47]" "[]" 0 "0x20" "[]",
      unfolded if_P [OF same] ends]
  show ?thesis by fastforce
qed

section \<open>Creating a short entry and finding it\<close>

lemma store_down_length: "store_down cs s = Inr s' \<Longrightarrow> length (fst s') = length (fst s)"
proof (induction cs arbitrary: s)
  case (Cons c cs)
  obtain buf ptr where s: "s = (buf, ptr)" by (cases s)
  show ?case
    using Cons.prems Cons.IH [of "(buf, ptr)"] Cons.IH [of "(buf[nat ptr := c], ptr - 1)"]
    by (auto simp: s store_at_def split: if_splits)
qed simp

lemma ParseSfnEntry_length: "ParseSfnEntry e buf = Inr buf' \<Longrightarrow> length buf' = length buf"
  by (auto simp: ParseSfnEntry_def Let_def split: if_splits)

lemma parse_normal_entry_length: "parse_normal_entry fn e st = Inr (b, st') \<Longrightarrow> length (NameBuffer st') = length (NameBuffer st)"
  by (auto simp: parse_normal_entry_def ParseLfnEntry_words andThen_Inr_iff dest!: store_down_length ParseSfnEntry_length split: if_splits)

lemma find_step_length: "find_step fn e st = Inr (b, st') \<Longrightarrow> length (NameBuffer st') = length (NameBuffer st)"
  by (auto simp: find_step_def Let_def ParseLfnEntry_words andThen_Inr_iff dest!: store_down_length parse_normal_entry_length split: if_splits)

lemma find_loop_length: "find_loop fn cl xs st = Inr (r, st') \<Longrightarrow> length (NameBuffer st') = length (NameBuffer st)"
proof (induction xs arbitrary: st)
  case (Cons x xs)
  then show ?case by (auto simp: Let_def andThen_Inr_iff dest!: find_step_length split: if_splits)
qed simp

lemma find_loop_append:
  "find_loop fn cl xs st = Inr (None, st') \<Longrightarrow> (\<And>x. x \<in> set xs \<Longrightarrow> dir_entry cl x ! 0 \<noteq> 0) \<Longrightarrow> find_loop fn cl (xs @ ys) st = find_loop fn cl ys st'"
proof (induction xs arbitrary: st)
  case (Cons x xs)
  then show ?case by (auto simp: Let_def andThen_Inr_iff ShortFileName_def split: if_splits)
qed simp

lemma find_loop_cong: "(\<And>x. x \<in> set xs \<Longrightarrow> dir_entry cl x = dir_entry cl' x) \<Longrightarrow> find_loop fn cl xs st = find_loop fn cl' xs st"
proof (induction xs arbitrary: st)
  case (Cons x xs)
  have eq: "find_loop fn cl xs = find_loop fn cl' xs" using Cons by (intro ext) auto
  have ex: "dir_entry cl x = dir_entry cl' x" using Cons.prems [of x] by simp
  show ?case unfolding find_loop.simps eq ex ..
qed simp

text \<open>The search state at the start of a cluster, and a name that the entries before \<open>x\<close> do not hold.\<close>

definition search_start :: search_state where
  "search_start = \<lparr> NameBuffer = replicate 0x200 0, EntryNamePtr = 0, RemainingSequences = 0, ParseMode = False \<rparr>"

definition absent_before :: "u16 list \<Rightarrow> u8 list \<Rightarrow> nat \<Rightarrow> bool" where
  "absent_before fn cl x \<longleftrightarrow> (case find_loop fn cl [0..<x] search_start of Inr (None, st) \<Rightarrow> \<not> ParseMode st | _ \<Rightarrow> False)"

lemma find_sfn_at:
  assumes absent: "absent_before (s @ 0 # r) cl x" and x: "x < N" "length cl = 32 * N"
    and used: "\<And>y. y < x \<Longrightarrow> dir_entry cl y ! 0 \<noteq> 0"
    and e: "length e = 32" "e ! 0 \<noteq> 0" "e ! 0 \<noteq> 0xE5" "FileAttributes e AND 0xF \<noteq> 0xF" "sfn_string e = s" "0 \<notin> set s" "length s \<le> 12"
  obtains st1 where "find_loop (s @ 0 # r) (set_dir_entry cl x e) [0..<N] search_start = Inr (Some x, st1)"
proof -
  let ?cl = "set_dir_entry cl x e" and ?fn = "s @ 0 # r"
  have "32 * x + 32 \<le> length cl" using x by simp
  note se = entry_at_set_entry [OF this e(1)]
  obtain stx where stx: "find_loop ?fn cl [0..<x] search_start = Inr (None, stx)" "\<not> ParseMode stx"
    using absent by (auto simp: absent_before_def split: sum.splits prod.splits option.splits)
  then have pre: "find_loop ?fn ?cl [0..<x] search_start = Inr (None, stx)"
    using find_loop_cong [of "[0..<x]" cl ?cl ?fn search_start] se(1) by auto
  have up: "[0..<N] = [0..<x] @ [x..<N]" using upt_add_eq_append [of 0 x "N - x"] x(1) by simp
  have buf: "length (NameBuffer stx) = 0x200" using find_loop_length [OF stx(1)] by (simp add: search_start_def)
  have "ParseSfnEntry e (NameBuffer stx) = Inr (s @ 0 # drop (Suc (length s)) (NameBuffer stx))"
    using e(5,7) buf by (simp add: ParseSfnEntry_def Let_def)
  then obtain st1 where "find_step ?fn e stx = Inr (True, st1)"
    using stx(2) e(4) same_name_eq [OF e(6,6)] by (simp add: find_step_def parse_normal_entry_def)
  then have "find_loop ?fn ?cl [x..<N] stx = Inr (Some x, st1)" using find_loop_Cons [OF x(1), of ?cl ?fn stx True st1] se(1) e(2,3) by simp
  moreover have "find_loop ?fn ?cl [0..<N] search_start = find_loop ?fn ?cl [x..<N] stx"
    unfolding up by (rule find_loop_append [OF pre]) (use se(1) used in auto)
  ultimately show ?thesis using that by simp
qed

text \<open>What follows the terminator of the sought name does not matter.\<close>

lemma same_name_tail: "same_name cs (f @ 0 # r) = same_name cs (f @ 0 # r')"
proof (induction f arbitrary: cs)
  case Nil
  then show ?case by (cases cs) (auto simp: InsensitiveCompareChar_eq fold_case_0 ci_char_def is_lower_def)
next
  case (Cons c f)
  then show ?case by (cases cs) auto
qed

lemma find_step_tail: "find_step (f @ 0 # r) e st = find_step (f @ 0 # r') e st"
  unfolding find_step_def parse_normal_entry_def by (simp only: same_name_tail [of _ f r r'])

lemma find_loop_tail: "find_loop (f @ 0 # r) cl xs st = find_loop (f @ 0 # r') cl xs st"
proof (induction xs arbitrary: st)
  case (Cons x xs)
  have eq: "find_loop (f @ 0 # r) cl xs = find_loop (f @ 0 # r') cl xs" using Cons by (intro ext) auto
  show ?case unfolding find_loop.simps eq find_step_tail [of f r _ _ r'] ..
qed simp

end
