(* ===== verification/Fat32_Files.thy ===== *)
theory Fat32_Files
  imports Fat32_Dir
begin

text \<open>
  Files of the FAT32 driver: creation (\<open>create.c\<close>), changes of a directory entry (\<open>edit.c\<close>), lookup (\<open>fileinfo.c\<close>) and writing
  (\<open>write.c\<close>).  The name buffers of these files are static variables of the C sources; they keep their contents between calls
  and are part of the state.
\<close>

record FAT32_STATICS =
  CreateEntryName :: "u16 list"
  ResultPath :: "u16 list"
  EditEntryName :: "u16 list"
  FindDirBuffer :: "u16 list"
  InfoEntryName :: "u16 list"

type_synonym volume = "drive \<times> FAT32_PARTITION"

definition statics_init :: FAT32_STATICS where
  "statics_init = \<lparr> CreateEntryName = replicate 0x400 0, ResultPath = replicate 0x400 0, EditEntryName = replicate 0x400 0,
     FindDirBuffer = replicate 0x400 0, InfoEntryName = replicate 0x400 0 \<rparr>"

section \<open>Changing an entry (edit.c)\<close>

text \<open>The loop over the clusters of one directory; \<open>Held\<close> (\<open>LastCluster\<close>) is the cluster in the buffer.\<close>

fun edit_in_chain :: "nat \<Rightarrow> volume \<Rightarrow> u16 list \<Rightarrow> u32 \<Rightarrow> bool \<Rightarrow> u32 \<Rightarrow> u16 list \<Rightarrow>
    (FAT32_PARTITION \<times> u16 list \<times> (u32 \<times> u8 list \<times> nat) option) outcome" where
  "edit_in_chain 0 v EntryName Cluster LastCode Held buf = Inl Hang"
| "edit_in_chain (Suc n) v EntryName Cluster LastCode Held buf =
     andThen (Fat32ReadCluster v Cluster LastCode) (\<lambda>(status, p1, Cluster1, LastCode1, cl).
     if status \<noteq> FAT_SUCCESS then Inr (p1, buf, None)
     else andThen (Fat32FindDirectoryClusterEntry p1 EntryName cl buf) (\<lambda>(r, buf1).
       case r of None \<Rightarrow> edit_in_chain n (fst v, p1) EntryName Cluster1 LastCode1 Cluster1 buf1
       | Some x \<Rightarrow> Inr (p1, buf1, Some (Held, cl, x))))"

text \<open>The fields \<open>FILE_EDIT_ATTRIBUTES\<close> (1), \<open>FILE_EDIT_CLUSTER\<close> (2) and \<open>FILE_EDIT_FILE_SIZE\<close> (4) select.\<close>

definition edit_entry :: "u8 list \<Rightarrow> u32 \<Rightarrow> u8 \<Rightarrow> u32 \<Rightarrow> u8 list" where
  "edit_entry e params attr val =
     (let e1 = (if bit params 0 then e[11 := attr] else e);
          e2 = (if bit params 1 then set_word16 (set_word16 e1 26 (ucast val)) 20 (ucast (drop_bit 16 val)) else e1)
      in if bit params 2 then take 28 e2 @ bytes32 val @ drop 32 e2 else e2)"

fun edit_path :: "nat \<Rightarrow> volume \<times> FAT32_STATICS \<Rightarrow> u16 list \<Rightarrow> u32 \<Rightarrow> u32 \<Rightarrow> u32 \<Rightarrow> u8 \<Rightarrow> u32 \<Rightarrow>
    ((volume \<times> FAT32_STATICS) \<times> bool) outcome" where
  "edit_path 0 s Path Cluster Held params attr val = Inl Hang"
| "edit_path (Suc n) (v, st) Path Cluster Held params attr val =
     andThen (Fat32ParsePath Path (EditEntryName st)) (\<lambda>(Status, Path1, en).
     let st1 = st\<lparr> EditEntryName := en \<rparr>
     in if Status = 0 then Inr ((v, st1), False)
        else andThen (edit_in_chain (chain_fuel (snd v)) v en Cluster False Held (FindDirBuffer st1)) (\<lambda>(p1, buf, r).
          let st2 = st1\<lparr> FindDirBuffer := buf \<rparr>
          in case r of None \<Rightarrow> Inr (((fst v, p1), st2), False)
          | Some (held, cl, x) \<Rightarrow>
              if Status = 2 then
                Inr (((fst (Fat32WriteCluster (fst v) p1 held (set_dir_entry cl x (edit_entry (dir_entry cl x) params attr val))), p1), st2), True)
              else
                (let c = entry_cluster (dir_entry cl x)
                 in if c = 0 then Inr (((fst v, p1), st2), False) else edit_path n ((fst v, p1), st2) Path1 c c params attr val)))"

definition Fat32EditFile :: "volume \<times> FAT32_STATICS \<Rightarrow> u16 list \<Rightarrow> u32 \<Rightarrow> u8 \<Rightarrow> u32 \<Rightarrow> ((volume \<times> FAT32_STATICS) \<times> bool) outcome" where
  "Fat32EditFile s Path params attr val =
     (if params = 0 then Inr (s, False)
      else let c = RootDirStart (snd (fst s)) in edit_path (Suc (length Path)) s Path c c params attr val)"

section \<open>Looking a file up (fileinfo.c)\<close>

record FAT_FILE_INFORMATION =
  fi_ClusterStart :: u32
  fi_FileName :: "u16 list"
  fi_FatAttributes :: u32
  fi_ParentDirectoryCluster :: u32
  fi_FileSize :: u32

definition copy_name :: "u16 list \<Rightarrow> u16 list \<Rightarrow> u16 list outcome" where
  "copy_name dst src =
     andThen (strlen src) (\<lambda>n. if n < length dst then Inr (take n src @ 0 # drop (Suc n) dst) else Inl OutOfBounds)"

fun info_path :: "nat \<Rightarrow> volume \<times> FAT32_STATICS \<Rightarrow> u16 list \<Rightarrow> u32 \<Rightarrow> FAT_FILE_INFORMATION \<Rightarrow>
    ((volume \<times> FAT32_STATICS) \<times> FAT_FILE_INFORMATION option) outcome" where
  "info_path 0 s Path Cluster info = Inl Hang"
| "info_path (Suc n) (v, st) Path Cluster info =
     andThen (Fat32ParsePath Path (InfoEntryName st)) (\<lambda>(Status, Path1, en).
     let st1 = st\<lparr> InfoEntryName := en \<rparr>
     in if Status = 0 then Inr ((v, st1), None)
        else andThen (Fat32FindEntry v en Cluster) (\<lambda>(p1, r).
          case r of None \<Rightarrow> Inr (((fst v, p1), st1), None)
          | Some e \<Rightarrow>
              if Status = 2 then
                andThen (copy_name (fi_FileName info) en) (\<lambda>nm.
                Inr (((fst v, p1), st1), Some (info\<lparr> fi_ClusterStart := entry_cluster e, fi_FileName := nm, fi_FatAttributes := ucast (FileAttributes e),
                  fi_ParentDirectoryCluster := Cluster, fi_FileSize := FileSize e \<rparr>)))
              else info_path n ((fst v, p1), st1) Path1 (entry_cluster e) info))"

definition Fat32GetFileInformation ::
  "volume \<times> FAT32_STATICS \<Rightarrow> u16 list \<Rightarrow> FAT_FILE_INFORMATION \<Rightarrow> ((volume \<times> FAT32_STATICS) \<times> FAT_FILE_INFORMATION option) outcome" where
  "Fat32GetFileInformation s FilePath info = info_path (Suc (length FilePath)) s FilePath (RootDirStart (snd (fst s))) info"

section \<open>Creating a file (create.c)\<close>

text \<open>Appending a separator and the component to the path walked so far; \<open>i\<close> is \<open>PIndexedPath\<close>.\<close>

definition append_path :: "u16 list \<Rightarrow> nat \<Rightarrow> u16 list \<Rightarrow> (u16 list \<times> nat) outcome" where
  "append_path rp i en =
     andThen (strlen en) (\<lambda>n.
     if Suc (i + n) < length rp then Inr (take i rp @ 0x2F # take n en @ 0 # drop (Suc (Suc (i + n))) rp, Suc (i + n)) else Inl OutOfBounds)"

fun create_path :: "nat \<Rightarrow> volume \<times> FAT32_STATICS \<Rightarrow> u16 list \<Rightarrow> u32 \<Rightarrow> nat \<Rightarrow> u8 \<Rightarrow> ((volume \<times> FAT32_STATICS) \<times> FAT_STATUS) outcome" where
  "create_path 0 s Path Cluster i attr = Inl Hang"
| "create_path (Suc n) (v, st) Path Cluster i attr =
     andThen (Fat32ParsePath Path (CreateEntryName st)) (\<lambda>(Status, Path1, en).
     let st1 = st\<lparr> CreateEntryName := en \<rparr>
     in if Status = 0 then Inr ((v, st1), FAT_NOT_FOUND)
        else if Status = 2 then
          andThen (Fat32AllocateEntry v Cluster en attr) (\<lambda>(v1, status). Inr ((v1, st1), status))
        else
          andThen (append_path (ResultPath st1) i en) (\<lambda>(rp, i1).
          let st2 = st1\<lparr> ResultPath := rp \<rparr>
          in andThen (Fat32FindEntry v en Cluster) (\<lambda>(p1, r).
             case r of None \<Rightarrow> Inr (((fst v, p1), st2), FAT_NOT_FOUND)
             | Some e \<Rightarrow>
                 if FileAttributes e AND 0x10 = 0 then Inr (((fst v, p1), st2), FAT_NOT_FOUND)
                 else if entry_cluster e \<noteq> 0 then create_path n ((fst v, p1), st2) Path1 (entry_cluster e) i1 attr
                 else
                   andThen (Fat32AllocateClusterChain (fst v, p1) 0 1) (\<lambda>((d2, p2), c).
                   if c = 0 then Inr (((d2, p2), st2), FAT_NO_ENOUGH_SPACE)
                   else
                     (let d3 = fst (Fat32WriteCluster d2 p2 c (replicate (unat (ClusterSize p2) * 512) 0))
                      in andThen (Fat32EditFile ((d3, p2), st2) rp 2 0 c) (\<lambda>(s4, ok).
                         if \<not> ok then Inr (s4, FAT_WRITE_ERROR) else create_path n s4 Path1 c i1 attr))))))"

definition Fat32CreateFile :: "volume \<times> FAT32_STATICS \<Rightarrow> u16 list \<Rightarrow> u8 \<Rightarrow> ((volume \<times> FAT32_STATICS) \<times> FAT_STATUS) outcome" where
  "Fat32CreateFile s Path attr = create_path (Suc (length Path)) s Path (RootDirStart (snd (fst s))) 0 attr"

section \<open>Writing a file (write.c)\<close>

text \<open>The bytes of a cluster, \<open>ClusterSize << 9\<close>, as a number and as the 32-bit value of the code.\<close>

definition cluster_len :: "FAT32_PARTITION \<Rightarrow> nat" where "cluster_len p = unat (ClusterSize p) * 512"

definition splice :: "u8 list \<Rightarrow> nat \<Rightarrow> u8 list \<Rightarrow> nat \<Rightarrow> u8 list outcome" where
  "splice rc pos Buffer k =
     (if k \<le> length Buffer \<and> pos + k \<le> length rc then Inr (take pos rc @ take k Buffer @ drop (pos + k) rc) else Inl OutOfBounds)"

text \<open>
  One round of the loop that appends: what is written to the cluster, the buffer cluster, the rest of the data, the remaining bytes and the
  remaining blank size.
\<close>

definition append_round :: "nat \<Rightarrow> nat \<Rightarrow> nat \<Rightarrow> nat \<Rightarrow> u8 list \<Rightarrow> u8 list \<Rightarrow> (u8 list \<times> u8 list \<times> u8 list \<times> nat \<times> nat) outcome" where
  "append_round sz Position BlankSize RemainingBytes Buffer rc =
     (if BlankSize \<noteq> 0 then
        if BlankSize < sz then
          (let BufferPosition = Position mod sz; CopySize = min RemainingBytes (sz - BufferPosition)
           in andThen (splice rc BufferPosition Buffer CopySize) (\<lambda>rc1. Inr (rc1, rc1, drop CopySize Buffer, RemainingBytes - CopySize, 0)))
        else Inr (rc, rc, Buffer, RemainingBytes, BlankSize - sz)
      else if RemainingBytes < sz then
        andThen (splice rc 0 Buffer RemainingBytes) (\<lambda>rc1.
        let rc2 = take RemainingBytes rc1 @ replicate (sz - RemainingBytes) 0
        in Inr (rc2, rc2, drop RemainingBytes Buffer, 0, 0))
      else if length Buffer < sz then Inl OutOfBounds
      else Inr (take sz Buffer, rc, drop sz Buffer, RemainingBytes - sz, 0))"

fun append_loop :: "nat \<Rightarrow> volume \<Rightarrow> u32 \<Rightarrow> u32 \<Rightarrow> nat \<Rightarrow> nat \<Rightarrow> nat \<Rightarrow> u8 list \<Rightarrow> u8 list \<Rightarrow> volume outcome" where
  "append_loop 0 v NextCluster Cluster Position BlankSize RemainingBytes Buffer rc = Inl Hang"
| "append_loop (Suc n) v NextCluster Cluster Position BlankSize RemainingBytes Buffer rc =
     andThen (Fat32GetNextCluster v NextCluster) (\<lambda>(p1, nxt).
     if nxt = 0 then Inr (fst v, p1)
     else andThen (append_round (cluster_len p1) Position BlankSize RemainingBytes Buffer rc) (\<lambda>(out, rc1, Buffer1, Remaining1, Blank1).
       let v1 = (fst (Fat32WriteCluster (fst v) p1 Cluster out), p1)
       in if Remaining1 = 0 then Inr v1 else append_loop n v1 nxt nxt Position Blank1 Remaining1 Buffer1 rc1))"

text \<open>
  One round of the loop that changes existing content.  Rounds that keep a part of the cluster first read it into the buffer \<open>rc\<close>, which keeps
  its contents when nothing is read.
\<close>

definition modify_round :: "nat \<Rightarrow> nat \<Rightarrow> nat \<Rightarrow> u8 list \<Rightarrow> u8 list \<Rightarrow> (u8 list option \<times> u8 list \<times> nat \<times> nat) outcome" where
  "modify_round sz TmpPos RemainingBytes Buffer rc =
     (if TmpPos = 0 then
        if RemainingBytes \<ge> sz then
          if length Buffer < sz then Inl OutOfBounds else Inr (Some (take sz Buffer), drop sz Buffer, RemainingBytes - sz, 0)
        else andThen (splice rc 0 Buffer RemainingBytes) (\<lambda>rc1. Inr (Some rc1, drop RemainingBytes Buffer, 0, 0))
      else if TmpPos < sz then
        (let k = (if RemainingBytes \<ge> sz - TmpPos then sz - TmpPos else RemainingBytes)
         in andThen (splice rc TmpPos Buffer k) (\<lambda>rc1. Inr (Some rc1, drop k Buffer, RemainingBytes - k, 0)))
      else Inr (None, Buffer, RemainingBytes, TmpPos - sz))"

definition modify_reads :: "nat \<Rightarrow> nat \<Rightarrow> nat \<Rightarrow> bool" where
  "modify_reads sz TmpPos RemainingBytes \<longleftrightarrow> (if TmpPos = 0 then RemainingBytes < sz else TmpPos < sz)"

fun modify_loop :: "nat \<Rightarrow> volume \<Rightarrow> u32 \<Rightarrow> u32 \<Rightarrow> nat \<Rightarrow> nat \<Rightarrow> u8 list \<Rightarrow> u8 list \<Rightarrow> volume outcome" where
  "modify_loop 0 v NextCluster Cluster TmpPos RemainingBytes Buffer rc = Inl Hang"
| "modify_loop (Suc n) v NextCluster Cluster TmpPos RemainingBytes Buffer rc =
     andThen (Fat32GetNextCluster v NextCluster) (\<lambda>(p1, nxt).
     if nxt = 0 then Inr (fst v, p1)
     else
       andThen (if modify_reads (cluster_len p1) TmpPos RemainingBytes then
                  andThen (Fat32ReadCluster (fst v, p1) Cluster False) (\<lambda>(status, p2, _, _, old).
                  Inr (p2, if status = FAT_SUCCESS then old else rc))
                else Inr (p1, rc)) (\<lambda>(p2, rc1).
       andThen (modify_round (cluster_len p1) TmpPos RemainingBytes Buffer rc1) (\<lambda>(out, Buffer1, Remaining1, TmpPos1).
       let v1 = (case out of None \<Rightarrow> fst v | Some o1 \<Rightarrow> fst (Fat32WriteCluster (fst v) p2 Cluster o1), p2)
       in if Remaining1 = 0 then Inr v1 else modify_loop n v1 nxt nxt TmpPos1 Remaining1 Buffer1 (case out of Some o1 \<Rightarrow> if modify_reads (cluster_len p1) TmpPos RemainingBytes then o1 else rc1 | None \<Rightarrow> rc1))))"

text \<open>
  \<open>Fat32WriteFile\<close>.  The sums and differences are taken in 32 bits.  The last return statement of the code is \<open>return 1\<close>, which is the
  number of \<open>FAT_NO_ENOUGH_SPACE\<close>.  The contents the cluster buffer has at the start of a loop are \<open>rc0\<close>; every round that uses them overwrites them first
  unless a cluster below 2 is read.
\<close>

definition required_clusters :: "u32 \<Rightarrow> u32 \<Rightarrow> u32" where
  "required_clusters bytes sz = bytes div sz + (if bytes mod sz \<noteq> 0 then 1 else 0)"

definition empty_info :: FAT_FILE_INFORMATION where
  "empty_info = \<lparr> fi_ClusterStart = 0, fi_FileName = replicate 0x200 0, fi_FatAttributes = 0, fi_ParentDirectoryCluster = 0, fi_FileSize = 0 \<rparr>"

definition write_append ::
  "volume \<times> FAT32_STATICS \<Rightarrow> u16 list \<Rightarrow> u8 list \<Rightarrow> u32 \<Rightarrow> u32 \<Rightarrow> FAT_FILE_INFORMATION \<Rightarrow> u8 list \<Rightarrow> ((volume \<times> FAT32_STATICS) \<times> FAT_STATUS) outcome" where
  "write_append s Path Buffer Position NumBytes info rc0 =
     (let p = snd (fst s); sz = of_nat (cluster_len p); endp = Position + NumBytes
      in if cluster_len p = 0 then Inl DivideError
         else andThen (Fat32AllocateClusterChain (fst s) (fi_ClusterStart info) (required_clusters (endp - fi_FileSize info) sz)) (\<lambda>(v1, first).
         if first = 0 then Inr ((v1, snd s), FAT_NO_ENOUGH_SPACE)
         else
           andThen (if fi_ClusterStart info = 0 then Fat32EditFile (v1, snd s) Path 2 0 first else Inr ((v1, snd s), True)) (\<lambda>(s2, _).
           andThen (Fat32EditFile s2 Path 4 0 endp) (\<lambda>(s3, _).
           let Blank = Position - fi_FileSize info; rc = (if Blank \<noteq> 0 then replicate (cluster_len p) 0 else rc0)
           in andThen (append_loop (chain_fuel p) (fst s3) first first (unat Position) (unat Blank) (unat NumBytes) Buffer rc) (\<lambda>v4.
              Inr ((v4, snd s3), FAT_SUCCESS))))))"

definition write_modify ::
  "volume \<times> FAT32_STATICS \<Rightarrow> u16 list \<Rightarrow> u8 list \<Rightarrow> u32 \<Rightarrow> u32 \<Rightarrow> FAT_FILE_INFORMATION \<Rightarrow> u8 list \<Rightarrow> ((volume \<times> FAT32_STATICS) \<times> FAT_STATUS) outcome" where
  "write_modify s Path Buffer Position NumBytes info rc0 =
     (let p = snd (fst s); sz = of_nat (cluster_len p); endp = Position + NumBytes;
          run = (\<lambda>s1. andThen (modify_loop (chain_fuel p) (fst s1) (fi_ClusterStart info) (fi_ClusterStart info) (unat Position) (unat NumBytes) Buffer rc0)
            (\<lambda>v. Inr ((v, snd s1), FAT_NO_ENOUGH_SPACE)))
      in if endp > fi_FileSize info then
           if cluster_len p = 0 then Inl DivideError else andThen (Fat32AllocateClusterChain (fst s) (fi_ClusterStart info) (required_clusters (endp - fi_FileSize info) sz)) (\<lambda>(v1, first).
           if first = 0 then Inr ((v1, snd s), FAT_NO_ENOUGH_SPACE)
           else andThen (Fat32EditFile (v1, snd s) Path 4 0 endp) (\<lambda>(s2, _). run s2))
         else run s)"

definition Fat32WriteFile ::
  "volume \<times> FAT32_STATICS \<Rightarrow> u16 list \<Rightarrow> u8 list \<Rightarrow> u32 \<Rightarrow> u32 \<Rightarrow> u8 list \<Rightarrow> ((volume \<times> FAT32_STATICS) \<times> FAT_STATUS) outcome" where
  "Fat32WriteFile s Path Buffer Position NumBytes rc0 =
     (if NumBytes = 0 then Inr (s, FAT_INVALID_PARAMETER)
      else andThen (Fat32GetFileInformation s Path empty_info) (\<lambda>(s1, r).
        case r of None \<Rightarrow> Inr (s1, FAT_NOT_FOUND)
        | Some info \<Rightarrow>
            if Position \<ge> fi_FileSize info then write_append s1 Path Buffer Position NumBytes info rc0
            else write_modify s1 Path Buffer Position NumBytes info rc0))"

section \<open>A file created is found\<close>

text \<open>A directory of one cluster on a well-formed volume, and its first free entry.\<close>

definition one_cluster_dir :: "volume \<Rightarrow> nat \<Rightarrow> bool" where
  "one_cluster_dir v c \<longleftrightarrow> (case v of (d, p) \<Rightarrow>
     geometry_ok p \<and> fats_ok d p \<and> cache_ok d p \<and> FatCount p = 2 \<and> 2 \<le> c \<and> c < fat_entries p \<and> data_at p (fat_entries p) < 2 ^ 32 \<and>
     fat1 d p c = FAT32_ENDOF_CHAIN \<and> length (cluster_bytes d p c) = 512 * unat (ClusterSize p))"

lemma ReadCluster_dir:
  assumes "one_cluster_dir (d, p) c"
  obtains p1 where "Fat32ReadCluster (d, p) (of_nat c) False = Inr (FAT_SUCCESS, p1, of_nat c, True, cluster_bytes d p c)"
    and "p1 = cached_fat (d, p) (PrimaryFat p + drop_bit 7 (of_nat c))"
proof -
  have o: "geometry_ok p" "fats_ok d p" "cache_ok d p" "2 \<le> c" "c < fat_entries p" "data_at p (fat_entries p) < 2 ^ 32" "fat1 d p c = FAT32_ENDOF_CHAIN"
    using assms by (simp_all add: one_cluster_dir_def)
  have "data_at p c \<le> data_at p (fat_entries p)" using o(5) by (auto simp: data_at_def)
  then have "data_at p c < 2 ^ 32" using o(6) by linarith
  then show ?thesis using that Fat32ReadCluster_ok [OF o(1-5)] o(7) by (simp add: Let_def)
qed

text \<open>Reading through the cache changes nothing but the cache.\<close>

lemma cached_fat_same [simp]:
  "geometry_ok (cached_fat v s) = geometry_ok (snd v)" "fats_ok d (cached_fat v s) = fats_ok d (snd v)"
  "fat_entries (cached_fat v s) = fat_entries (snd v)" "FatCount (cached_fat v s) = FatCount (snd v)"
  "RootDirStart (cached_fat v s) = RootDirStart (snd v)" "fat1 d (cached_fat v s) = fat1 d (snd v)"
  "cluster_bytes d (cached_fat v s) = cluster_bytes d (snd v)" "EntriesPerCluster (cached_fat v s) = EntriesPerCluster (snd v)"
  "chain_fuel (cached_fat v s) = chain_fuel (snd v)"
  by (auto simp: cached_fat_def geometry_ok_def fats_ok_def fat_entries_def fat1_def [abs_def] fat2_def [abs_def] PrimaryFat_def
    cluster_bytes_def [abs_def] data_at_def [abs_def] EntriesPerCluster_def chain_fuel_def split: prod.splits)

lemma cached_dir: "one_cluster_dir (d, p) c \<Longrightarrow> one_cluster_dir (d, cached_fat (d, p) (PrimaryFat p + drop_bit 7 (of_nat c))) c"
  using cached_fat_ok(2) [of p d c] by (simp add: one_cluster_dir_def)

lemma write_dir:
  assumes dir: "one_cluster_dir (d, p) c" and buf: "length buf = 512 * unat (ClusterSize p)"
  obtains d' where "Fat32WriteCluster d p (of_nat c) buf = (d', True)" and "one_cluster_dir (d', p) c" and "cluster_bytes d' p c = buf"
    and "\<forall>e. 2 \<le> e \<and> e \<noteq> c \<longrightarrow> cluster_bytes d' p e = cluster_bytes d p e"
proof -
  have o: "geometry_ok p" "fats_ok d p" "cache_ok d p" "FatCount p = 2" "2 \<le> c" "c < fat_entries p" "data_at p (fat_entries p) < 2 ^ 32"
    using dir by (simp_all add: one_cluster_dir_def)
  obtain d' where d': "Fat32WriteCluster d p (of_nat c) buf = (d', True)" "fats_ok d' p" "cache_ok d' p" "cluster_bytes d' p c = buf"
      "\<forall>e. 2 \<le> e \<and> e \<noteq> c \<longrightarrow> cluster_bytes d' p e = cluster_bytes d p e" "\<forall>e < fat_entries p. fat1 d' p e = fat1 d p e"
    by (rule Fat32WriteCluster_ok [OF o buf])
  moreover have "one_cluster_dir (d', p) c" using dir d' buf by (simp add: one_cluster_dir_def)
  ultimately show ?thesis using that by blast
qed

lemma alloc_sfn_dir:
  assumes dir: "one_cluster_dir (d, p) c" and cl: "cl = cluster_bytes d p c"
    and x: "first_index (\<lambda>y. is_free_entry (dir_entry cl y)) [0..<EntriesPerCluster p] = Some x"
    and e: "new_sfn_entry fn attr l1 l2 = Inr e" "length e = 32"
  obtains d' p' where "Fat32AllocateSfnEntry (d, p) (of_nat c) fn attr l1 l2 = Inr ((d', p'), FAT_SUCCESS)" and "one_cluster_dir (d', p') c"
    and "cluster_bytes d' p' c = set_dir_entry cl x e" and "RootDirStart p' = RootDirStart p" and "EntriesPerCluster p' = EntriesPerCluster p"
    and "\<forall>b. 2 \<le> b \<and> b \<noteq> c \<longrightarrow> cluster_bytes d' p b = cluster_bytes d p b" and "cluster_bytes d' p' c = cluster_bytes d' p c"
proof -
  obtain p1 where rd: "Fat32ReadCluster (d, p) (of_nat c) False = Inr (FAT_SUCCESS, p1, of_nat c, True, cl)"
    and p1: "p1 = cached_fat (d, p) (PrimaryFat p + drop_bit 7 (of_nat c))"
    using ReadCluster_dir [OF dir] cl by metis
  have run: "sfn_in_chain (chain_fuel p) (d, p) (of_nat c) False (of_nat c) = Inr (p1, Some (of_nat c, cl, x))"
    using rd x p1 by (simp add: chain_fuel_def)
  have dir1: "one_cluster_dir (d, p1) c" unfolding p1 by (rule cached_dir [OF dir])
  have len: "length cl = 512 * unat (ClusterSize p1)" using dir cl p1 by (simp add: one_cluster_dir_def)
  have "x < EntriesPerCluster p" using first_index_lt [OF x] by simp
  then have "32 * x + 32 \<le> length cl" unfolding len EntriesPerCluster_def using p1 by simp
  from entry_at_set_entry(2) [OF this e(2)] len have "length (set_dir_entry cl x e) = 512 * unat (ClusterSize p1)" by simp
  then obtain d' where "Fat32WriteCluster d p1 (of_nat c) (set_dir_entry cl x e) = (d', True)" "one_cluster_dir (d', p1) c"
      "cluster_bytes d' p1 c = set_dir_entry cl x e" "\<forall>b. 2 \<le> b \<and> b \<noteq> c \<longrightarrow> cluster_bytes d' p1 b = cluster_bytes d p1 b"
    by (rule write_dir [OF dir1])
  then show ?thesis using that [of d' p1] run e(1) p1 by (simp add: Fat32AllocateSfnEntry_def)
qed

lemma find_dir:
  assumes dir: "one_cluster_dir (d, p) c" and s: "s \<noteq> []" "0 \<notin> set s" "length s < 2 ^ 16"
    and found: "find_loop (s @ 0 # r) (cluster_bytes d p c) [0..<EntriesPerCluster p] search_start = Inr (Some x, st)"
  obtains p' where "Fat32FindEntry (d, p) (s @ 0 # r) (of_nat c) = Inr (p', Some (dir_entry (cluster_bytes d p c) x))"
proof -
  obtain p1 where rd: "Fat32ReadCluster (d, p) (of_nat c) False = Inr (FAT_SUCCESS, p1, of_nat c, True, cluster_bytes d p c)"
    and p1: "p1 = cached_fat (d, p) (PrimaryFat p + drop_bit 7 (of_nat c))"
    by (rule ReadCluster_dir [OF dir])
  have "Fat32StrlenW (s @ 0 # r) = Inr (of_nat (length s))" using s(2) strlen_cstring [of "s @ 0 # r"] by (simp add: Fat32StrlenW_def)
  moreover have "(of_nat (length s) :: u16) \<noteq> 0" using unat_of_nat_u16 [OF s(3)] s(1) by (metis length_0_conv unsigned_0)
  moreover have "Fat32FindDirectoryClusterEntry p1 (s @ 0 # r) (cluster_bytes d p c) (replicate 0x200 0) = Inr (Some x, NameBuffer st)"
    using found p1 by (simp add: Fat32FindDirectoryClusterEntry_def search_start_def)
  ultimately show ?thesis using that rd by (simp add: Fat32FindEntry_def chain_fuel_def)
qed

lemma ParsePath_single:
  assumes s: "s \<noteq> []" "0 \<notin> set s" "\<forall>c \<in> set s. \<not> is_slash c" "length s < length E"
  obtains q where "Fat32ParsePath (s @ 0 # r) E = Inr (2, q, s @ 0 # drop (Suc (length s)) E)"
proof -
  have dw: "dropWhile (\<lambda>x. \<not> is_slash x) s = []" "takeWhile (\<lambda>x. \<not> is_slash x) s = s" using s(3) by simp_all
  have "\<not> is_slash (hd s)" using s(1,3) by simp
  from components_Cons [OF s(1) this] have "path_parts s = [s]" unfolding dw by simp
  then show ?thesis using that Fat32ParsePath_peels [OF s(2), of E r] s(4) by auto
qed

text \<open>The names of files the theorem is about: short names without separators whose first byte is not the mark of a deleted entry.\<close>

definition file_name_ok :: "u16 list \<Rightarrow> u16 list \<Rightarrow> bool" where
  "file_name_ok b x \<longleftrightarrow> b \<noteq> [] \<and> length b \<le> 8 \<and> dos_chars b \<and> length x \<le> 3 \<and> dos_chars x \<and> list_all (\<lambda>c. \<not> is_slash c) (b @ x) \<and>
     hd b \<noteq> 0xE5 \<and> (length b = 8 \<longrightarrow> has_lower (take 2 x) = has_lower x)"

lemma file_name_facts:
  assumes "file_name_ok b x"
  shows "dos_name b x \<noteq> []" "0 \<notin> set (dos_name b x)" "\<forall>c \<in> set (dos_name b x). \<not> is_slash c" "length (dos_name b x) \<le> 12"
  using assms by (auto simp: file_name_ok_def dos_name_def dos_chars_def list_all_iff is_slash_def)

lemma sfn_first_byte:
  assumes "file_name_ok b x"
  shows "(padded 8 b @ padded 3 x) ! 0 \<noteq> 0" and "(padded 8 b @ padded 3 x) ! 0 \<noteq> 0xE5"
proof -
  obtain c b' where b: "b = c # b'" using assms by (cases b) (auto simp: file_name_ok_def)
  have c: "0x20 < c" "c < 0x100" "c \<noteq> 0xE5" using assms b by (auto simp: file_name_ok_def dos_chars_def)
  have p0: "(padded 8 b @ padded 3 x) ! 0 = to_upper8 (ucast c)" by (simp add: b padded_def)
  show "(padded 8 b @ padded 3 x) ! 0 \<noteq> 0" unfolding p0 using to_upper8_printable [OF c(1,2)] by auto
  have u: "unat (ucast c :: u8) = unat c" by (rule unat_ucast_8 [OF c(2)])
  have "unat c \<noteq> 0xE5" using c(3) by (simp add: word_unat_eq_iff)
  then show "(padded 8 b @ padded 3 x) ! 0 \<noteq> 0xE5"
    unfolding p0 using u by (auto simp: to_upper8_def word_unat_eq_iff word_le_nat_alt unat_sub)
qed

lemma new_sfn_entry_dos:
  assumes nm: "file_name_ok b x" and k: "0 < k" and attr: "attr AND 0xF \<noteq> 0xF"
  obtains e where "new_sfn_entry (dos_name b x @ replicate k 0) attr (has_lower b) (has_lower x) = Inr e" and "length e = 32"
    and "e ! 0 \<noteq> 0" and "e ! 0 \<noteq> 0xE5" and "FileAttributes e = attr" and "sfn_string e = dos_name b x" and "entry_cluster e = 0" and "FileSize e = 0"
proof -
  have b: "length b \<le> 8" "dos_chars b" and x: "length x \<le> 3" "dos_chars x" using nm by (simp_all add: file_name_ok_def)
  obtain e0 where e0: "SetupEntryShortFileName (replicate 32 0) (dos_name b x @ replicate k 0) = Inr e0" "length e0 = 32"
      "e0 ! 0 = (padded 8 b @ padded 3 x) ! 0" "drop 11 e0 = replicate 21 0" "sfn_string (e0[11 := attr, 12 := sfn_flags b x]) = dos_name b x"
    by (rule setup_dos [OF b x k])
  let ?e = "e0[11 := attr, 12 := sfn_flags b x]"
  have tail: "e0 ! (11 + j) = 0" if "j < 21" for j using nth_drop [of 11 e0 j] e0(2,4) that by simp
  have "entry_cluster ?e = 0" "FileSize ?e = 0"
    using tail [of 9] tail [of 10] tail [of 15] tail [of 16] tail [of 17] tail [of 18] tail [of 19] tail [of 20]
    by (simp_all add: entry_cluster_def FirstClusterLow_def FirstClusterHigh_def FileSize_def word16_def le16_def le32_def)
  moreover have "new_sfn_entry (dos_name b x @ replicate k 0) attr (has_lower b) (has_lower x) = Inr ?e"
    using e0(1) by (simp add: new_sfn_entry_def sfn_flags_def)
  moreover have "?e ! 0 \<noteq> 0" "?e ! 0 \<noteq> 0xE5" using sfn_first_byte [OF nm] e0(3) by simp_all
  moreover have "FileAttributes ?e = attr" using e0(2) by (simp add: FileAttributes_def)
  ultimately show ?thesis using that e0(2,5) by simp
qed

text \<open>
  C17.  A file created is found, in this case: the root directory is one cluster with a free entry, its entries before that one do not hold the name, the static
  name buffers of the driver have not been used, and the name is a short one, each of its two parts in one case, with the restriction of
  \<open>short_name_round_trip\<close> on the extension of an eight-character base.  Then \<open>Fat32CreateFile\<close> succeeds, and \<open>Fat32GetFileInformation\<close> finds the
  file, with the attributes given, no cluster and size 0, in the root directory.  The other entries of the directory and every other cluster keep their bytes.
\<close>

theorem Fat32CreateFile_then_found:
  assumes dir: "one_cluster_dir (d, p) c" "RootDirStart p = of_nat c" and nm: "file_name_ok b x" and s_def: "s = dos_name b x"
    and slot: "first_index (\<lambda>y. is_free_entry (dir_entry (cluster_bytes d p c) y)) [0..<EntriesPerCluster p] = Some i"
    and absent: "absent_before (s @ [0]) (cluster_bytes d p c) i" and attr: "attr AND 0xF \<noteq> 0xF"
    and st: "CreateEntryName st = replicate 0x400 0" "length (InfoEntryName st) = 0x400" and info: "length (fi_FileName fi) = 0x200"
  shows "\<exists>d' p' st1 s2 fi'. Fat32CreateFile ((d, p), st) (s @ 0 # r) attr = Inr (((d', p'), st1), FAT_SUCCESS) \<and>
    Fat32GetFileInformation ((d', p'), st1) (s @ 0 # r) fi = Inr (s2, Some fi') \<and>
    fi_FatAttributes fi' = ucast attr \<and> fi_ClusterStart fi' = 0 \<and> fi_FileSize fi' = 0 \<and> fi_ParentDirectoryCluster fi' = of_nat c \<and>
    cstring (fi_FileName fi') = s \<and>
    (\<forall>y. y \<noteq> i \<longrightarrow> dir_entry (cluster_bytes d' p c) y = dir_entry (cluster_bytes d p c) y) \<and>
    (\<forall>b. 2 \<le> b \<and> b \<noteq> c \<longrightarrow> cluster_bytes d' p b = cluster_bytes d p b)"
proof -
  let ?cl = "cluster_bytes d p c" and ?k = "0x400 - length s"
  note s = file_name_facts [OF nm, folded s_def]
  have b: "length b \<le> 8" "dos_chars b" and x: "length x \<le> 3" "dos_chars x" and third: "length b = 8 \<longrightarrow> has_lower (take 2 x) = has_lower x"
    using nm by (simp_all add: file_name_ok_def)
  have k: "12 \<le> ?k" "0 < ?k" using s(4) by simp_all
  have en: "s @ 0 # drop (Suc (length s)) (replicate 0x400 0) = s @ replicate ?k 0"
    using s(4) by (cases ?k) (auto simp: Suc_diff_Suc)
  have len16: "length s < 2 ^ 16" using s(4) by simp
  obtain e where e: "new_sfn_entry (s @ replicate ?k 0) attr (has_lower b) (has_lower x) = Inr e" "length e = 32" "e ! 0 \<noteq> 0" "e ! 0 \<noteq> 0xE5"
      "FileAttributes e = attr" "sfn_string e = s" "entry_cluster e = 0" "FileSize e = 0"
    using new_sfn_entry_dos [OF nm k(2) attr] unfolding s_def by blast
  obtain d' p' where al: "Fat32AllocateSfnEntry (d, p) (of_nat c) (s @ replicate ?k 0) attr (has_lower b) (has_lower x) = Inr ((d', p'), FAT_SUCCESS)"
      "one_cluster_dir (d', p') c" "cluster_bytes d' p' c = set_dir_entry ?cl i e" "RootDirStart p' = RootDirStart p" "EntriesPerCluster p' = EntriesPerCluster p"
      "\<forall>b. 2 \<le> b \<and> b \<noteq> c \<longrightarrow> cluster_bytes d' p b = cluster_bytes d p b" "cluster_bytes d' p' c = cluster_bytes d' p c"
    by (rule alloc_sfn_dir [OF dir(1) refl slot e(1,2)])
  have nz: "(of_nat (length s) :: u16) \<noteq> 0" using unat_of_nat_u16 [OF len16] s(1) by (metis length_0_conv unsigned_0)
  have "Fat32StrlenW (s @ replicate ?k 0) = Inr (of_nat (length s))" using strlen_zeros [OF s(2) k(2)] by (simp add: Fat32StrlenW_def)
  then have ae: "Fat32AllocateEntry (d, p) (of_nat c) (s @ replicate ?k 0) attr = Inr ((d', p'), FAT_SUCCESS)"
    using nz al(1) classify_dos [OF b x k(1) third] by (simp add: Fat32AllocateEntry_def s_def)
  have "length s < length (CreateEntryName st)" using s(4) st(1) by simp
  from ParsePath_single [OF s(1-3) this, of r] st(1) en obtain q where
    q: "Fat32ParsePath (s @ 0 # r) (CreateEntryName st) = Inr (2, q, s @ replicate ?k 0)" by metis
  let ?st1 = "st\<lparr> CreateEntryName := s @ replicate ?k 0 \<rparr>"
  have create: "Fat32CreateFile ((d, p), st) (s @ 0 # r) attr = Inr (((d', p'), ?st1), FAT_SUCCESS)"
    using q ae dir(2) by (simp add: Fat32CreateFile_def)
  have fi: "i < EntriesPerCluster p" "\<And>y. y < i \<Longrightarrow> dir_entry ?cl y ! 0 \<noteq> 0"
    using first_index_Some [OF slot] by (auto simp: is_free_entry_def ShortFileName_def)
  have lcl: "length ?cl = 32 * EntriesPerCluster p" using dir(1) by (simp add: one_cluster_dir_def EntriesPerCluster_def)
  obtain st2 where "find_loop (s @ 0 # []) (set_dir_entry ?cl i e) [0..<EntriesPerCluster p] search_start = Inr (Some i, st2)"
    by (rule find_sfn_at [OF _ fi(1) lcl fi(2) e(2-4)]) (use absent attr e(5,6) s in auto)
  then have found: "find_loop (s @ 0 # r') (cluster_bytes d' p' c) [0..<EntriesPerCluster p'] search_start = Inr (Some i, st2)" for r'
    unfolding al(3,5) find_loop_tail [of s r' _ _ _ "[]"] .
  obtain p2 where fe: "Fat32FindEntry (d', p') (s @ 0 # drop (Suc (length s)) (InfoEntryName st)) (of_nat c) = Inr (p2, Some (dir_entry (cluster_bytes d' p' c) i))"
    by (rule find_dir [OF al(2) s(1,2) len16 found])
  have "32 * i + 32 \<le> length ?cl" using fi(1) lcl by simp
  note se = entry_at_set_entry(1) [OF this e(2)]
  have ei: "dir_entry (cluster_bytes d' p' c) i = e" using se al(3) by simp
  have "length s < length (InfoEntryName ?st1)" using s(4) st(2) by simp
  from ParsePath_single [OF s(1-3) this, of r] obtain q2 where
    q2: "Fat32ParsePath (s @ 0 # r) (InfoEntryName st) = Inr (2, q2, s @ 0 # drop (Suc (length s)) (InfoEntryName st))" by auto
  have cn: "copy_name (fi_FileName fi) (s @ 0 # drop (Suc (length s)) (InfoEntryName st)) = Inr (s @ 0 # drop (Suc (length s)) (fi_FileName fi))"
    using info s(2,4) strlen_cstring [of "s @ 0 # drop (Suc (length s)) (InfoEntryName st)"] by (simp add: copy_name_def)
  have look: "\<exists>s2 fi'. Fat32GetFileInformation ((d', p'), ?st1) (s @ 0 # r) fi = Inr (s2, Some fi') \<and> fi_FatAttributes fi' = ucast attr \<and>
      fi_ClusterStart fi' = 0 \<and> fi_FileSize fi' = 0 \<and> fi_ParentDirectoryCluster fi' = of_nat c \<and> cstring (fi_FileName fi') = s"
    using q2 fe cn ei e(5,7,8) al(4) dir(2) s(2) by (simp add: Fat32GetFileInformation_def)
  have "\<forall>y. y \<noteq> i \<longrightarrow> dir_entry (cluster_bytes d' p c) y = dir_entry ?cl y" using se al(3,7) by simp
  then show ?thesis using create look al(6) by blast
qed

definition demo_volume :: drive where
  "demo_volume = (\<lambda>l. if l < 82 then bytes_of demo_fat else replicate 512 0)"

lemma demo_volume_fat: "c < 128 \<Longrightarrow> fat1 demo_volume demo_partition c = demo_fat ! c" "c < 128 \<Longrightarrow> fat2 demo_volume demo_partition c = demo_fat ! c"
  by (simp_all add: fat1_def fat2_def fat_sector_def demo_volume_def)

lemma demo_volume_cluster: "cluster_bytes demo_volume demo_partition 2 = replicate 4096 0"
proof -
  have f: "FatCount demo_partition = 2" "unat (ClusterSize demo_partition) = 8" by (simp_all add: demo_partition_def)
  have "data_at demo_partition 2 = 82" by (simp add: data_at_def f)
  then show ?thesis by (simp add: cluster_bytes_def f read_sectors_def upt_rec demo_volume_def replicate_add [symmetric])
qed

lemma demo_volume_dir: "one_cluster_dir (demo_volume, demo_partition) 2" "RootDirStart demo_partition = of_nat 2"
proof -
  have f: "FatCount demo_partition = 2" "unat (ClusterSize demo_partition) = 8" by (simp_all add: demo_partition_def)
  have "fats_ok demo_volume demo_partition"
    by (simp add: fats_ok_def demo_volume_fat) (simp add: demo_volume_def fat_sector_def demo_fat_def)
  moreover have "cache_ok demo_volume demo_partition" by (simp add: cache_ok_def) (simp add: demo_partition_def PrimaryFat_def)
  moreover have "fat1 demo_volume demo_partition 2 = FAT32_ENDOF_CHAIN" by (simp add: demo_volume_fat) (simp add: demo_fat_def FAT32_ENDOF_CHAIN_def)
  moreover have "data_at demo_partition 128 < 2 ^ 32" by (simp add: data_at_def f)
  ultimately show "one_cluster_dir (demo_volume, demo_partition) 2"
    using demo_ok(1) f demo_volume_cluster by (simp add: one_cluster_dir_def)
  show "RootDirStart demo_partition = of_nat 2" by (simp add: demo_partition_def)
qed

lemma demo_slot: "first_index (\<lambda>y. is_free_entry (dir_entry (cluster_bytes demo_volume demo_partition 2) y)) [0..<EntriesPerCluster demo_partition] = Some 0"
proof -
  have "EntriesPerCluster demo_partition = 128" by (simp add: EntriesPerCluster_def demo_partition_def)
  then have "[0..<EntriesPerCluster demo_partition] = 0 # [1..<128]" by (simp add: upt_conv_Cons)
  then show ?thesis by (simp add: demo_volume_cluster is_free_entry_def dir_entry_def ShortFileName_def)
qed

theorem Fat32CreateFile_then_found_witness:
  "\<exists>d' p' st1 s2 fi. Fat32CreateFile ((demo_volume, demo_partition), statics_init) ([0x61, 0x62, 0x2E, 0x63] @ 0 # []) 0x20 = Inr (((d', p'), st1), FAT_SUCCESS) \<and>
    Fat32GetFileInformation ((d', p'), st1) ([0x61, 0x62, 0x2E, 0x63] @ 0 # []) empty_info = Inr (s2, Some fi) \<and>
    fi_FatAttributes fi = 0x20 \<and> fi_FileSize fi = 0 \<and> cstring (fi_FileName fi) = [0x61, 0x62, 0x2E, 0x63]"
proof -
  have nm: "file_name_ok [0x61, 0x62] [0x63]"
    by (simp add: file_name_ok_def dos_chars_def one_case_def has_lower_def is_lower_def is_upper_def is_slash_def)
  have s: "[0x61, 0x62, 0x2E, 0x63] = dos_name [0x61, 0x62] [0x63]" by (simp add: dos_name_def)
  have "absent_before ([0x61, 0x62, 0x2E, 0x63] @ [0]) (cluster_bytes demo_volume demo_partition 2) 0" by (simp add: absent_before_def search_start_def)
  from Fat32CreateFile_then_found [OF demo_volume_dir nm s demo_slot this, of "0x20" statics_init empty_info "[]"]
  show ?thesis by (fastforce simp: statics_init_def empty_info_def)
qed

section \<open>Data written is on the drive\<close>

definition volume_ok :: "volume \<Rightarrow> bool" where
  "volume_ok v \<longleftrightarrow> (case v of (d, p) \<Rightarrow>
     geometry_ok p \<and> fats_ok d p \<and> cache_ok d p \<and> FatCount p = 2 \<and> data_at p (fat_entries p) < 2 ^ 32)"

lemma next_cluster_run:
  assumes v: "volume_ok (d, p)" and c: "2 \<le> c" "c < fat_entries p"
  obtains p1 where "Fat32GetNextCluster (d, p) (of_nat c) = Inr (p1, fat1 d p c)" and "volume_ok (d, p1)"
    and "p1 = cached_fat (d, p) (PrimaryFat p + drop_bit 7 (of_nat c))"
proof -
  have o: "geometry_ok p" "fats_ok d p" "cache_ok d p" using v by (simp_all add: volume_ok_def)
  let ?p = "cached_fat (d, p) (PrimaryFat p + drop_bit 7 (of_nat c))"
  have "Fat32GetNextCluster (d, p) (of_nat c) = Inr (?p, fat1 d p c)"
    using cached_fat_ok(1) [OF o c(2)] cluster_parts(2,3) [OF o(1) c(2)] by (simp add: Fat32GetNextCluster_def Let_def secmap_nth)
  moreover have "volume_ok (d, ?p)" using v cached_fat_ok(2) [OF o c(2)] by (simp add: volume_ok_def)
  ultimately show ?thesis using that by blast
qed

lemma volume_write:
  assumes v: "volume_ok (d, p)" and c: "2 \<le> c" "c < fat_entries p" and buf: "length buf = 512 * unat (ClusterSize p)"
  obtains d' where "Fat32WriteCluster d p (of_nat c) buf = (d', True)" and "volume_ok (d', p)" and "cluster_bytes d' p c = buf"
    and "\<forall>e. 2 \<le> e \<and> e \<noteq> c \<longrightarrow> cluster_bytes d' p e = cluster_bytes d p e" and "\<forall>e < fat_entries p. fat1 d' p e = fat1 d p e"
proof -
  have o: "geometry_ok p" "fats_ok d p" "cache_ok d p" "FatCount p = 2" "data_at p (fat_entries p) < 2 ^ 32"
    using v by (simp_all add: volume_ok_def)
  obtain d' where d': "Fat32WriteCluster d p (of_nat c) buf = (d', True)" "fats_ok d' p" "cache_ok d' p" "cluster_bytes d' p c = buf"
      "\<forall>e. 2 \<le> e \<and> e \<noteq> c \<longrightarrow> cluster_bytes d' p e = cluster_bytes d p e" "\<forall>e < fat_entries p. fat1 d' p e = fat1 d p e"
    by (rule Fat32WriteCluster_ok [OF o(1-4) c o(5) buf])
  moreover have "volume_ok (d', p)" using o d' by (simp add: volume_ok_def)
  ultimately show ?thesis using that by blast
qed

text \<open>One round of the loop without a blank part.\<close>

lemma append_round_run:
  assumes "0 < sz" "length rc = sz" "length B = n"
  shows "\<exists>rc'. append_round sz Position 0 n B rc =
      Inr (take sz (B @ replicate (sz - n) 0), rc', drop sz B, n - sz, 0) \<and> length rc' = sz"
proof (cases "n < sz")
  case True
  then show ?thesis using assms by (auto simp: append_round_def splice_def Let_def)
next
  case False
  then show ?thesis using assms by (auto simp: append_round_def)
qed

lemma append_loop_run:
  "volume_ok (d, p) \<Longrightarrow> fat_chain (fat1 d p) cs \<Longrightarrow> distinct cs \<Longrightarrow> \<forall>c \<in> set cs. 2 \<le> c \<and> c < fat_entries p \<Longrightarrow> sz = cluster_len p \<Longrightarrow> 0 < sz \<Longrightarrow>
   length rc = sz \<Longrightarrow> length B = n \<Longrightarrow> (length cs - 1) * sz < n \<Longrightarrow> n \<le> length cs * sz \<Longrightarrow> length cs \<le> fuel \<Longrightarrow>
   \<exists>d' p'. append_loop fuel (d, p) (of_nat (hd cs)) (of_nat (hd cs)) Position 0 n B rc = Inr (d', p') \<and> volume_ok (d', p') \<and>
     concat (map (cluster_bytes d' p) cs) = B @ replicate (length cs * sz - n) 0 \<and>
     (\<forall>e. 2 \<le> e \<and> e \<notin> set cs \<longrightarrow> cluster_bytes d' p e = cluster_bytes d p e) \<and> (\<forall>e < fat_entries p. fat1 d' p e = fat1 d p e)"
proof (induction cs arbitrary: d p rc B n fuel)
  case step: (Cons c cs)
  obtain k where k: "fuel = Suc k" using step.prems(11) by (cases fuel) auto
  have c: "2 \<le> c" "c < fat_entries p" using step.prems(4) by simp_all
  obtain p1 where p1: "Fat32GetNextCluster (d, p) (of_nat c) = Inr (p1, fat1 d p c)" "volume_ok (d, p1)"
      "p1 = cached_fat (d, p) (PrimaryFat p + drop_bit 7 (of_nat c))"
    by (rule next_cluster_run [OF step.prems(1) c])
  have sz1: "cluster_len p1 = sz" using step.prems(5) p1(3) by (simp add: cluster_len_def)
  obtain rc' where rd: "append_round sz Position 0 n B rc = Inr (take sz (B @ replicate (sz - n) 0), rc', drop sz B, n - sz, 0)" "length rc' = sz"
    using append_round_run [OF step.prems(6-8)] by blast
  define o1 where "o1 = take sz (B @ replicate (sz - n) 0)"
  have lo: "length o1 = 512 * unat (ClusterSize p1)" using step.prems(8) sz1 by (auto simp: o1_def cluster_len_def)
  have c1: "c < fat_entries p1" using c p1(3) by simp
  obtain d1 where d1: "Fat32WriteCluster d p1 (of_nat c) o1 = (d1, True)" "volume_ok (d1, p1)" "cluster_bytes d1 p1 c = o1"
      "\<forall>e. 2 \<le> e \<and> e \<noteq> c \<longrightarrow> cluster_bytes d1 p1 e = cluster_bytes d p1 e" "\<forall>e < fat_entries p1. fat1 d1 p1 e = fat1 d p1 e"
    by (rule volume_write [OF p1(2) c(1) c1 lo])
  have cb: "cluster_bytes x p1 = cluster_bytes x p" "fat1 x p1 = fat1 x p" "fat_entries p1 = fat_entries p" for x using p1(3) by simp_all
  show ?case
  proof (cases cs)
    case Nil
    then have n: "0 < n" "n \<le> sz" "n - sz = 0" using step.prems(9,10) by simp_all
    have nz: "fat1 d p c \<noteq> 0" using step.prems(2) Nil by (simp add: FAT32_ENDOF_CHAIN_def)
    have "append_loop fuel (d, p) (of_nat c) (of_nat c) Position 0 n B rc = Inr (d1, p1)"
      using p1(1) nz rd n(3) d1(1) sz1 by (simp add: k o1_def)
    moreover have "o1 = B @ replicate (sz - n) 0" using n step.prems(8) by (simp add: o1_def)
    ultimately show ?thesis using d1 cb Nil by auto
  next
    case (Cons b bs)
    have ls: "length cs * sz < n" "n \<le> sz + length cs * sz" using step.prems(9,10) by simp_all
    have szle: "sz \<le> length cs * sz" using Cons by simp
    have b: "2 \<le> b" "b < fat_entries p" using step.prems(4) Cons by simp_all
    have geo: "geometry_ok p" using step.prems(1) by (simp add: volume_ok_def)
    have fb: "fat1 d p c = of_nat b" using step.prems(2) Cons by simp
    have nz: "(of_nat b :: u32) \<noteq> 0" using cluster_parts(4) [OF geo b(2)] b(1) by (metis not_numeral_le_zero unsigned_0)
    have "sz \<le> n" using ls(1) szle by linarith
    then have o1: "o1 = take sz B" using step.prems(8) by (simp add: o1_def)
    have ch: "fat_chain (fat1 d1 p1) cs"
      using step.prems(2,4) d1(5) cb Cons by (subst fat_chain_cong [of cs _ "fat1 d p"]) auto
    have "(length cs - 1) * sz < n - sz" "n - sz \<le> length cs * sz" using ls Cons by simp_all
    then have "\<exists>d' p'. append_loop k (d1, p1) (of_nat (hd cs)) (of_nat (hd cs)) Position 0 (n - sz) (drop sz B) rc' = Inr (d', p') \<and> volume_ok (d', p') \<and>
      concat (map (cluster_bytes d' p1) cs) = drop sz B @ replicate (length cs * sz - (n - sz)) 0 \<and>
      (\<forall>e. 2 \<le> e \<and> e \<notin> set cs \<longrightarrow> cluster_bytes d' p1 e = cluster_bytes d1 p1 e) \<and> (\<forall>e < fat_entries p1. fat1 d' p1 e = fat1 d1 p1 e)"
      using step.prems k sz1 rd(2) cb by (intro step.IH [OF d1(2) ch]) simp_all
    then obtain d' p' where r: "append_loop k (d1, p1) (of_nat b) (of_nat b) Position 0 (n - sz) (drop sz B) rc' = Inr (d', p')" "volume_ok (d', p')"
        "concat (map (cluster_bytes d' p) cs) = drop sz B @ replicate (length cs * sz - (n - sz)) 0"
        "\<forall>e. 2 \<le> e \<and> e \<notin> set cs \<longrightarrow> cluster_bytes d' p e = cluster_bytes d1 p e" "\<forall>e < fat_entries p. fat1 d' p e = fat1 d1 p e"
      unfolding cb using Cons by auto
    have "n - sz \<noteq> 0" using ls(1) szle by linarith
    then have run: "append_loop fuel (d, p) (of_nat c) (of_nat c) Position 0 n B rc = Inr (d', p')"
      using p1(1) fb nz rd(1) [folded o1_def] d1(1) sz1 r(1) by (simp add: k)
    have cc: "cluster_bytes d' p c = take sz B" using r(4) step.prems(3) c d1(3) cb o1 by simp
    have "concat (map (cluster_bytes d' p) (c # cs)) = B @ replicate (length (c # cs) * sz - n) 0"
      using cc r(3) ls szle by (simp add: append_assoc [symmetric] del: append_assoc)
    then show ?thesis using run r(2,4,5) d1(4,5) cb c by auto
  qed
qed simp

text \<open>
  C21.  The loop of \<open>Fat32WriteFile\<close> that appends ends, and puts the data on the drive: on the chain of newly allocated clusters, as many as the data needs, it
  returns with the clusters of the chain holding the data followed by zeros; every other cluster and the FAT are unchanged.  This is the case in which the position
  is the end of the file, so that no gap is to be filled (\<open>BlankSize\<close> is 0); with a gap the loop can lose data, as \<open>append_blank_loses\<close> shows.
\<close>

theorem append_loop_writes:
  assumes v: "volume_ok (d, p)" and cs: "chain_at d p cs" and sz: "sz = cluster_len p" "0 < sz" and rc: "length rc = sz" and B: "length B = n"
    and need: "(length cs - 1) * sz < n" "n \<le> length cs * sz"
  shows "\<exists>d' p'. append_loop (chain_fuel p) (d, p) (of_nat (hd cs)) (of_nat (hd cs)) Position 0 n B rc = Inr (d', p') \<and>
    concat (map (cluster_bytes d' p) cs) = B @ replicate (length cs * sz - n) 0 \<and>
    (\<forall>e. 2 \<le> e \<and> e \<notin> set cs \<longrightarrow> cluster_bytes d' p e = cluster_bytes d p e) \<and> (\<forall>e < fat_entries p. fat1 d' p e = fat1 d p e)"
proof -
  have c: "fat_chain (fat1 d p) cs" "distinct cs" "\<forall>c \<in> set cs. 2 \<le> c \<and> c < fat_entries p" using cs by (simp_all add: chain_at_def)
  have "card (set cs) \<le> card {..<fat_entries p}" by (rule card_mono) (use c(3) in auto)
  then have "length cs \<le> chain_fuel p" using c(2) by (simp add: distinct_card chain_fuel_def)
  from append_loop_run [OF v c sz rc B need this] show ?thesis by blast
qed

theorem append_loop_writes_witness:
  "\<exists>d' p'. append_loop (chain_fuel demo_partition) (demo_volume, demo_partition) 2 2 0 0 3 [7, 8, 9] (replicate 4096 0) = Inr (d', p') \<and>
    cluster_bytes d' demo_partition 2 = [7, 8, 9] @ replicate 4093 0"
proof -
  have f: "cluster_len demo_partition = 4096" by (simp add: cluster_len_def demo_partition_def)
  have "volume_ok (demo_volume, demo_partition)" using demo_volume_dir(1) by (simp add: one_cluster_dir_def volume_ok_def)
  moreover have "chain_at demo_volume demo_partition [2]" using demo_volume_dir(1) by (simp add: one_cluster_dir_def chain_at_def)
  ultimately show ?thesis
    using append_loop_writes [of demo_volume demo_partition "[2]" 4096 "replicate 4096 0" "[7, 8, 9]" 3 0] f by auto
qed

text \<open>
  A write behind the end of the file loses data when the gap shares the last cluster with it: the chain has one cluster, because the clusters are counted from the
  end of the file, but the data is placed at \<open>Position mod sz\<close>.  What does not fit is dropped, and the loop ends as if all was written.
\<close>

lemma append_blank_loses:
  assumes v: "volume_ok (d, p)" and c: "chain_at d p [c]" and sz: "sz = cluster_len p" and blank: "0 < blank" "blank < sz" and B: "length B = n"
    and cut: "sz < Position mod sz + n"
  shows "\<exists>d' p'. append_loop (Suc (Suc fuel)) (d, p) (of_nat c) (of_nat c) Position blank n B (replicate sz 0) = Inr (d', p') \<and>
    cluster_bytes d' p c = replicate (Position mod sz) 0 @ take (sz - Position mod sz) B"
proof -
  have c': "2 \<le> c" "c < fat_entries p" "fat1 d p c = FAT32_ENDOF_CHAIN" using c by (simp_all add: chain_at_def)
  obtain p1 where p1: "Fat32GetNextCluster (d, p) (of_nat c) = Inr (p1, fat1 d p c)" "volume_ok (d, p1)"
      "p1 = cached_fat (d, p) (PrimaryFat p + drop_bit 7 (of_nat c))"
    by (rule next_cluster_run [OF v c'(1,2)])
  have sz1: "cluster_len p1 = sz" "c < fat_entries p1" using sz c'(2) p1(3) by (simp_all add: cluster_len_def)
  define pos where "pos = Position mod sz"
  have pos: "pos < sz" using blank by (simp add: pos_def)
  define out where "out = replicate pos 0 @ take (sz - pos) B"
  have m: "min n (sz - pos) = sz - pos" using cut by (simp add: pos_def)
  have rd: "append_round sz Position blank n B (replicate sz 0) = Inr (out, out, drop (sz - pos) B, n - (sz - pos), 0)"
    using blank pos B cut by (simp add: append_round_def Let_def splice_def pos_def [symmetric] m out_def)
  have lo: "length out = 512 * unat (ClusterSize p1)" using B pos cut sz1(1) by (simp add: out_def cluster_len_def pos_def [symmetric])
  obtain d1 where d1: "Fat32WriteCluster d p1 (of_nat c) out = (d1, True)" "cluster_bytes d1 p1 c = out"
    by (rule volume_write [OF p1(2) c'(1) sz1(2) lo])
  have "sz < pos + n" using cut by (simp add: pos_def)
  then have nz: "FAT32_ENDOF_CHAIN \<noteq> 0" "n - (sz - pos) \<noteq> 0" using pos by (simp_all add: FAT32_ENDOF_CHAIN_def)
  have "append_loop (Suc (Suc fuel)) (d, p) (of_nat c) (of_nat c) Position blank n B (replicate sz 0) = Inr (d1, p1)"
    using p1(1) c'(3) nz rd d1(1) sz1(1) by (simp add: Fat32GetNextCluster_def)
  moreover have "cluster_bytes d1 p c = out" using d1(2) p1(3) by simp
  ultimately show ?thesis by (simp add: out_def pos_def)
qed

end
