(* ===== verification/Fat32_Format.thy ===== *)
theory Fat32_Format
  imports Fat32_Files
begin

text \<open>
  Creating a FAT32 partition (\<open>Fat32CreatePartition\<close> and \<open>Fat32WriteReservedArea\<close> of \<open>drivers/fat32/dll/src/fat32.c\<close>).  The
  boot sector is its 512 bytes; the fields the driver keeps of it are those of \<open>FAT32_PARTITION\<close>.  Whether the two memory requests are
  served and the \<open>Write\<close> callback of the driver are arguments; \<open>drive_write\<close> is the callback of a drive that stores what it is given.
\<close>

section \<open>The boot sector\<close>

definition put :: "u8 list \<Rightarrow> nat \<Rightarrow> u8 list \<Rightarrow> u8 list" where
  "put e k bs = take k e @ bs @ drop (k + length bs) e"

definition bytes16 :: "u16 \<Rightarrow> u8 list" where
  "bytes16 w = [ucast w, ucast (drop_bit 8 w)]"

definition OemName :: "u8 list" where "OemName = [0x5F, 0x5F, 0x44, 0x45, 0x56, 0x5F, 0x4F, 0x53]"
definition Fat32FsLabel :: "u8 list" where "Fat32FsLabel = [0x46, 0x41, 0x54, 0x33, 0x32, 0x20, 0x20, 0x20]"

text \<open>The volume label padded to eleven characters.\<close>

definition label_field :: "u8 list \<Rightarrow> u8 list outcome" where
  "label_field VolumeLabel =
     andThen (strlen VolumeLabel) (\<lambda>n. Inr (map (\<lambda>i. if i \<ge> n mod 2 ^ 16 then 0x20 else VolumeLabel ! i) [0..<11]))"

definition fat_sectors :: "u32 \<Rightarrow> u32" where
  "fat_sectors NumClusters =
     (let n = push_bit 2 (ucast NumClusters + 2 :: u64)
      in ucast (n div 0x200) + (if n AND 0x1FF \<noteq> 0 then 1 else 0))"

definition new_partition :: "u32 \<Rightarrow> u32 \<Rightarrow> u8 \<Rightarrow> u16 \<Rightarrow> FAT32_PARTITION" where
  "new_partition BaseLba NumClusters ClSize NumReservedSectors =
     (let res = NumReservedSectors + 0x10; spf = fat_sectors NumClusters
      in \<lparr> ClusterSize = ClSize, ReservedAreaSize = res, FatCount = 2, HiddenSectors = BaseLba,
           TotalSectors = NumClusters * ucast ClSize + ucast res + spf * 2, SectorsPerFat = spf, RootDirStart = 2,
           FsInfoLba = NumReservedSectors + 1, BootSectorCopyLba = NumReservedSectors + 3, FreeClusters = NumClusters - 1,
           RecentlyAllocatedCluster = 0, SecondaryFsInfo = ucast NumReservedSectors + 4,
           RootDirLba = ucast (BaseLba + ucast res + spf * 2), FatSector = replicate 0x80 0, FatSectorNumber = 0 \<rparr>)"

definition boot_sector_bytes :: "u8 list \<Rightarrow> FAT32_PARTITION \<Rightarrow> u8 list \<Rightarrow> u8 list" where
  "boot_sector_bytes BootSector p label11 =
     fold (\<lambda>(k, bs) e. put e k bs)
       [(3, OemName), (11, bytes16 0x200), (13, [ClusterSize p]), (16, [FatCount p]), (21, [0xF8]), (14, bytes16 (ReservedAreaSize p)),
        (28, bytes32 (HiddenSectors p)), (26, bytes16 0xFF00), (24, bytes16 63), (32, bytes32 (TotalSectors p)),
        (36, bytes32 (SectorsPerFat p)), (44, bytes32 (RootDirStart p)), (48, bytes16 (FsInfoLba p)), (50, bytes16 (BootSectorCopyLba p)),
        (66, [0x29]), (64, [0x80]), (71, label11), (82, Fat32FsLabel), (510, [0x55, 0xAA])] BootSector"

section \<open>Formatting\<close>

definition first_fat_sector :: "u32 list" where
  "first_fat_sector = [0xFFFFFF00 OR 0xF8, 0xFFFFFFFF, 0x0FFFFFFF] @ replicate 125 0"

text \<open>
  The callback writes sectors at an address and says whether it succeeded.  A list of requests is written up to the first that fails.
\<close>

type_synonym write_callback = "drive \<Rightarrow> nat \<Rightarrow> nat \<Rightarrow> u8 list \<Rightarrow> drive \<times> bool"
type_synonym write_request = "nat \<times> nat \<times> u8 list"

fun write_all :: "write_callback \<Rightarrow> write_request list \<Rightarrow> drive \<Rightarrow> drive \<times> bool" where
  "write_all Write [] d = (d, True)"
| "write_all Write ((lba, n, buf) # ws) d = (case Write d lba n buf of (d', ok) \<Rightarrow> if ok then write_all Write ws d' else (d', False))"

definition drive_write :: write_callback where
  "drive_write d lba n buf = (write_sectors d lba n buf, True)"

definition clear_fats :: "FAT32_PARTITION \<Rightarrow> u32 list \<Rightarrow> write_request list" where
  "clear_fats p is = concat (map (\<lambda>i. [(unat (PrimaryFat p + i), 1, replicate 512 0),
     (unat (PrimaryFat p + SectorsPerFat p + i), 1, replicate 512 0)]) is)"

text \<open>The entry of the volume label: the padding goes to \<open>ShortFileExtension[i]\<close>, eight bytes behind \<open>ShortFileName[i]\<close>.\<close>

fun label_entry :: "nat list \<Rightarrow> u8 list \<Rightarrow> u8 list \<Rightarrow> u8 list outcome" where
  "label_entry [] lab e = Inr e"
| "label_entry (i # is) lab e =
     andThen (array_get lab 0) (\<lambda>c.
     if c \<noteq> 0 then label_entry is (drop 1 lab) (e[i := c]) else label_entry is lab (e[8 + i := 0x20]))"

definition Fat32CreatePartition ::
  "write_callback \<Rightarrow> bool \<times> bool \<Rightarrow> drive \<Rightarrow> u32 \<Rightarrow> u32 \<Rightarrow> u8 \<Rightarrow> u8 list \<Rightarrow> u16 \<Rightarrow> u8 list \<Rightarrow> (drive \<times> FAT32_PARTITION option) outcome" where
  "Fat32CreatePartition Write mem d BaseLba NumClusters ClSize VolumeLabel NumReservedSectors BootSector =
     (if \<not> fst mem then Inl NullDeref
      else if \<not> snd mem then Inr (d, None)
      else
        andThen (label_field VolumeLabel) (\<lambda>label11.
        let p = new_partition BaseLba NumClusters ClSize NumReservedSectors;
            bs = boot_sector_bytes BootSector p label11;
            info2 = replicate 510 0 @ [0x55, 0xAA];
            second = put (put bs 48 (bytes16 (ucast (SecondaryFsInfo p)))) 50 (bytes16 0);
            at = (\<lambda>k. unat (BaseLba + k)); copy2 = ucast (ucast (SecondaryFsInfo p) :: u16)
        in case write_all Write
             ([(at 0, 1, bs), (at (ucast (BootSectorCopyLba p)), 1, second),
               (at (ucast (FsInfoLba p)), 2, fs_info_bytes p @ info2), (at copy2, 2, fs_info_bytes p @ info2),
               (unat (PrimaryFat p), 1, bytes_of first_fat_sector), (unat (PrimaryFat p + SectorsPerFat p), 1, bytes_of first_fat_sector)] @
              clear_fats p (map of_nat [1..<unat (SectorsPerFat p)])) d of
             (d1, ok) \<Rightarrow>
             if \<not> ok then Inr (d1, None) else
             andThen (label_entry [0..<11] VolumeLabel ((replicate 32 0)[11 := 8])) (\<lambda>e.
             if ClSize = 0 then Inl OutOfBounds
             else case Write d1 (unat (PrimaryFat p + SectorsPerFat p * 2)) (unat ClSize) (e @ replicate (512 * unat ClSize - 32) 0) of
               (d2, ok2) \<Rightarrow> Inr (d2, if ok2 then Some p else None))))"

definition Fat32WriteReservedArea :: "write_callback \<Rightarrow> volume \<Rightarrow> u16 \<Rightarrow> u16 \<Rightarrow> u8 list \<Rightarrow> volume \<times> bool" where
  "Fat32WriteReservedArea Write v Sector NumSectors Buffer =
     (case v of (d, p) \<Rightarrow>
      if int (unat Sector) + int (unat NumSectors) > int (unat (ReservedAreaSize p)) - 3 then (v, False)
      else case Write d (unat (HiddenSectors p + ucast Sector + 1)) (unat NumSectors) Buffer of (d', ok) \<Rightarrow> ((d', p), ok))"

section \<open>A formatted partition is well formed\<close>

lemma round_up_128: "(k + 127) div 128 = k div 128 + (if k mod 128 \<noteq> 0 then 1 else (0 :: nat))"
proof -
  define a b where "a = k div 128" and "b = k mod 128"
  have k: "k + 127 = (b + 127) + a * 128" "b < 128" by (simp_all add: a_def b_def)
  have "(b + 127) div 128 = (if b \<noteq> 0 then 1 else 0)" using k(2) by (auto intro: div_nat_eqI)
  then show ?thesis unfolding k(1) a_def [symmetric] b_def [symmetric] by simp
qed

lemma fat_sectors_unat: "unat (fat_sectors n) = (unat n + 129) div 128"
proof -
  have n32: "unat n < 2 ^ 32" using unsigned_less [of n, where 'a = nat] by simp
  define m where "m = push_bit 2 (ucast n + 2 :: u64)"
  have u2: "unat (ucast n + 2 :: u64) = unat n + 2"
    using n32 by (simp add: unat_word_ariths unat_ucast_up)
  have m: "unat m = 4 * (unat n + 2)"
  proof -
    have "m = (ucast n + 2) * 4" unfolding m_def by (simp only: push_bit_eq_mult) simp
    then have "unat m = unat (ucast n + 2 :: u64) * unat (4 :: u64) mod 2 ^ 64" by (simp only: unat_word_ariths) simp
    then show ?thesis unfolding u2 using n32 by simp
  qed
  have q: "unat (m div 0x200) = (unat n + 2) div 128"
    using div_mult_mult1 [of 4 "unat n + 2" 128] by (simp add: unat_div m)
  have "unat (m AND 0x1FF) = 4 * (unat n + 2) mod 512" using and_mask_mod [of m 9] m by (simp add: mask_eq_exp_minus_1)
  also have "\<dots> = 4 * ((unat n + 2) mod 128)" using mod_mult_mult1 [of 4 "unat n + 2" 128] by simp
  finally have r: "m AND 0x1FF \<noteq> 0 \<longleftrightarrow> (unat n + 2) mod 128 \<noteq> 0" by (simp add: word_unat_eq_iff)
  have lt: "(unat n + 2) div 128 < 2 ^ 31" using n32 by simp
  have a: "unat (ucast (m div 0x200) :: u32) = (unat n + 2) div 128"
    unfolding unsigned_ucast_eq q using lt by (intro take_bit_nat_eq_self) simp
  have "unat (ucast (m div 0x200) + 1 :: u32) = Suc ((unat n + 2) div 128)"
    using unat_plus_1 [of "ucast (m div 0x200) :: u32"] lt unfolding a by simp
  moreover have "(unat n + 129) div 128 = (unat n + 2) div 128 + (if (unat n + 2) mod 128 \<noteq> 0 then 1 else 0)"
    using round_up_128 [of "unat n + 2"] by simp
  ultimately show ?thesis using r a by (simp add: fat_sectors_def Let_def m_def [symmetric])
qed

lemma words_of_zeros: "words_of (replicate (4 * n) 0) = replicate n 0"
proof (induction n)
  case (Suc n)
  have "replicate (4 * Suc n) (0 :: u8) = 0 # 0 # 0 # 0 # replicate (4 * n) 0" by (simp add: eval_nat_numeral)
  then show ?case using Suc by (simp add: le32_def)
qed simp

text \<open>What a drive that stores everything holds after a list of requests.\<close>

definition stored :: "write_request list \<Rightarrow> drive \<Rightarrow> drive" where
  "stored ws d = fold (\<lambda>(lba, n, buf) d. write_sectors d lba n buf) ws d"

lemma stored_simps [simp]:
  "stored [] d = d" "stored ((lba, n, buf) # ws) d = stored ws (write_sectors d lba n buf)" "stored (ws @ vs) d = stored vs (stored ws d)"
  by (simp_all add: stored_def)

lemma write_all_stored: "write_all drive_write ws d = (stored ws d, True)"
  by (induction drive_write ws d rule: write_all.induct) (simp_all add: drive_write_def)

lemma write_one_sector: "length buf = 512 \<Longrightarrow> write_sectors d lba (Suc 0) buf = d(lba := buf)"
  by simp

lemma clear_fats_at:
  assumes g: "geometry_ok p"
  shows "set is \<subseteq> {..<unat (SectorsPerFat p)} \<Longrightarrow>
    stored (clear_fats p (map of_nat is)) d l =
      (if \<exists>i \<in> set is. l = unat (PrimaryFat p) + i \<or> l = unat (PrimaryFat p) + unat (SectorsPerFat p) + i then replicate 512 0 else d l)"
proof (induction "is" arbitrary: d)
  case (Cons i "is")
  have i: "i < unat (SectorsPerFat p)" using Cons.prems by simp
  have "unat (PrimaryFat p + of_nat i) = unat (PrimaryFat p) + i" "unat (PrimaryFat p + SectorsPerFat p + of_nat i) = unat (PrimaryFat p) + unat (SectorsPerFat p) + i"
    using fat_lba [OF g i] by (simp_all add: SecondaryFat_def)
  then show ?case using Cons by (auto simp: clear_fats_def)
qed (simp add: clear_fats_def)

lemma first_fat_bytes: "length (bytes_of first_fat_sector) = 512"
  by (simp add: first_fat_sector_def bytes_of_def bytes32_def length_concat sum_list_replicate)

text \<open>The geometry of the new partition, as numbers.\<close>

lemma new_partition_geometry:
  assumes res: "unat R + 16 < 2 ^ 16" and S: "S = (unat n + 129) div 128"
    and fit: "unat base + unat R + 16 + 2 * S + unat cs * (128 * S) < 2 ^ 32" and fat: "128 * S < 0x0FFFFFFF" and p: "p = new_partition base n cs R"
  shows "unat (SectorsPerFat p) = S" "unat (PrimaryFat p) = unat base + unat R + 16" "geometry_ok p" "fs_info_ok p" "fat_entries p = 128 * S"
    "data_at p (fat_entries p) < 2 ^ 32" "ClusterSize p = cs" "FatCount p = 2" "RootDirStart p = 2" "FreeClusters p = n - 1" "FatSectorNumber p = 0"
proof -
  show Sp: "unat (SectorsPerFat p) = S" using fat_sectors_unat [of n] S by (simp add: p new_partition_def Let_def)
  show simps: "ClusterSize p = cs" "FatCount p = 2" "RootDirStart p = 2" "FreeClusters p = n - 1" "FatSectorNumber p = 0"
    by (simp_all add: p new_partition_def Let_def)
  have r16: "unat (R + k) = unat R + unat k" if "unat R + unat k < 2 ^ 16" for k :: u16 using that by (simp add: unat_word_ariths)
  have res16: "unat (ReservedAreaSize p) = unat R + 16" using r16 [of 16] res by (simp add: p new_partition_def Let_def)
  have fs16: "unat (FsInfoLba p) = unat R + 1" using r16 [of 1] res by (simp add: p new_partition_def Let_def)
  have b: "HiddenSectors p = base" by (simp add: p new_partition_def Let_def)
  show P: "unat (PrimaryFat p) = unat base + unat R + 16"
    unfolding PrimaryFat_def b using fit by (subst unat_of_sum) (simp_all add: unat_ucast_up res16)
  show ent: "fat_entries p = 128 * S" by (simp add: fat_entries_def Sp)
  show "geometry_ok p" using P Sp fit fat by (simp add: geometry_ok_def ent)
  have "unat (base + ucast (FsInfoLba p)) = unat base + unat R + 1"
    using fit by (subst unat_of_sum) (simp_all add: unat_ucast_up fs16)
  moreover have "unat (SecondaryFsInfo p) = unat R + 4"
    using res by (simp add: p new_partition_def Let_def) (subst unat_of_sum, simp_all add: unat_ucast_up)
  ultimately show "fs_info_ok p" using P by (simp add: fs_info_ok_def b)
  have "unat cs * (128 * S - 2) \<le> unat cs * (128 * S)" by (rule mult_le_mono2) simp
  moreover have "data_at p (fat_entries p) = unat base + unat R + 16 + 2 * S + unat cs * (128 * S - 2)" by (simp add: data_at_def P Sp simps ent)
  ultimately show "data_at p (fat_entries p) < 2 ^ 32" using fit by linarith
qed

definition new_fat :: "nat \<Rightarrow> u32" where
  "new_fat c = (if c < 128 then first_fat_sector ! c else 0)"

lemma new_fat_fresh:
  assumes S: "unat (SectorsPerFat p) = S" "0 < S" and at: "\<And>x. x < 2 * S \<Longrightarrow> d (unat (PrimaryFat p) + x) =
      (if x = 0 \<or> x = S then bytes_of first_fat_sector else replicate 512 0)"
  shows "fats_ok d p" and "c < 128 * S \<Longrightarrow> fat1 d p c = new_fat c"
proof -
  have zero: "words_of (replicate 512 0) = replicate 128 0" using words_of_zeros [of 128] by simp
  have sec: "fat_sector d (unat (PrimaryFat p) + x) = (if x = 0 \<or> x = S then first_fat_sector else replicate 128 0)" if "x < 2 * S" for x
    using at [OF that] zero by (simp add: fat_sector_def)
  have len: "length first_fat_sector = 128" by (simp add: first_fat_sector_def)
  have f1: "fat1 d p c = new_fat c" if "c < 128 * S" for c
  proof -
    have "c div 128 < 2 * S" using that by simp
    from sec [OF this] show ?thesis using that S(2) by (auto simp: fat1_def new_fat_def div_eq_0_iff)
  qed
  have f2: "fat2 d p c = new_fat c" if "c < 128 * S" for c
  proof -
    have x: "S + c div 128 < 2 * S" using that by (auto simp: less_mult_imp_div_less)
    have "fat_sector d (unat (PrimaryFat p) + unat (SectorsPerFat p) + c div 128) = (if c div 128 = 0 then first_fat_sector else replicate 128 0)"
      using sec [OF x] S by (simp add: add.assoc)
    then show ?thesis using that by (auto simp: fat2_def new_fat_def div_eq_0_iff)
  qed
  show "fat1 d p c = new_fat c" if "c < 128 * S" by (rule f1 [OF that])
  show "fats_ok d p" unfolding fats_ok_def S(1) fat_entries_def
    using sec len f1 f2 f1 [of 0] S(2) by (auto simp: new_fat_def first_fat_sector_def)
qed

lemma label_entry_ok: "0 \<in> set lab \<Longrightarrow> \<exists>e'. label_entry is lab e = Inr e' \<and> length e' = length e"
proof (induction "is" arbitrary: lab e)
  case (Cons i "is")
  obtain c lab' where lab: "lab = c # lab'" using Cons.prems by (cases lab) auto
  show ?case
  proof (cases "c = 0")
    case True
    then show ?thesis using Cons.IH [OF Cons.prems, of "e[8 + i := 0x20]"] lab by simp
  next
    case False
    then have "0 \<in> set lab'" using Cons.prems lab by simp
    then show ?thesis using Cons.IH [of lab' "e[i := c]"] lab False by simp
  qed
qed simp

text \<open>
  C13.  A partition that \<open>Fat32CreatePartition\<close> makes on a drive that stores what is written satisfies what the other operations rely on: both FATs are complete, equal and hold the two reserved
  entries and the root directory as a chain of one cluster; every other entry is free; the root directory is a directory of one cluster, the file system information
  lies before the FATs and the count of free clusters is one less than the number of clusters.
\<close>

theorem Fat32CreatePartition_formats:
  assumes res: "unat R + 16 < 2 ^ 16" and S: "S = (unat n + 129) div 128"
    and fit: "unat base + unat R + 16 + 2 * S + unat cs * (128 * S) < 2 ^ 32" and fat: "128 * S < 0x0FFFFFFF" and n: "0 < unat n"
    and cs: "cs \<noteq> 0" and lab: "0 \<in> set lab"
  shows "\<exists>d' p. Fat32CreatePartition drive_write (True, True) d base n cs lab R boot = Inr (d', Some p) \<and> geometry_ok p \<and> fs_info_ok p \<and>
    fats_ok d' p \<and> one_cluster_dir (d', p) 2 \<and> RootDirStart p = 2 \<and> (\<forall>c. 3 \<le> c \<and> c < fat_entries p \<longrightarrow> fat1 d' p c = 0) \<and>
    unat n + 2 \<le> fat_entries p \<and> unat (FreeClusters p) = unat n - 1"
proof -
  define p where "p = new_partition base n cs R"
  note gm = new_partition_geometry [OF res S fit fat p_def]
  have S0: "0 < S" using S by simp
  let ?P = "unat (PrimaryFat p)"
  have secnd: "unat (PrimaryFat p + SectorsPerFat p) = ?P + S" using fat_lba(2) [OF gm(3), of 0] gm(1) S0 by (simp add: SecondaryFat_def)
  have "unat (data_lba p (of_nat 2)) = data_at p 2"
    by (rule data_lba_at) (use fit gm in \<open>simp_all add: data_at_def\<close>)
  then have root: "unat (PrimaryFat p + SectorsPerFat p * 2) = ?P + 2 * S" "data_at p 2 = ?P + 2 * S"
    using gm by (simp_all add: data_lba_def PrimaryFat_def data_at_def)
  obtain e where e: "label_entry [0..<11] lab ((replicate 32 0)[11 := 8]) = Inr e" "length e = 32"
    using label_entry_ok [OF lab, of "[0..<11]" "(replicate 32 0)[11 := 8]"] by auto
  obtain l11 where l11: "label_field lab = Inr l11" using strlen_cstring [OF lab] by (simp add: label_field_def)
  define buf where "buf = e @ replicate (512 * unat cs - 32) 0"
  have cs1: "1 \<le> unat cs" using cs by (simp add: unat_gt_0 Suc_le_eq)
  have buf: "length buf = 512 * unat cs" using e(2) cs1 by (simp add: buf_def)
  obtain d3 where run: "Fat32CreatePartition drive_write (True, True) d base n cs lab R boot =
      Inr (write_sectors (stored (clear_fats p (map of_nat [1..<S])) (write_fat_sector (write_fat_sector d3 ?P first_fat_sector) (?P + S) first_fat_sector)) (?P + 2 * S) (unat cs) buf, Some p)"
    using l11 e(1) cs write_one_sector [OF first_fat_bytes]
    by (simp add: Fat32CreatePartition_def Let_def p_def [symmetric] gm(1) secnd root(1) buf_def write_all_stored drive_write_def write_fat_sector_def)
  define d' where "d' = write_sectors (stored (clear_fats p (map of_nat [1..<S])) (write_fat_sector (write_fat_sector d3 ?P first_fat_sector) (?P + S) first_fat_sector)) (?P + 2 * S) (unat cs) buf"
  have at: "d' (?P + x) = (if x = 0 \<or> x = S then bytes_of first_fat_sector else replicate 512 0)" if x: "x < 2 * S" for x
  proof -
    have "d' (?P + x) = stored (clear_fats p (map of_nat [1..<S])) (write_fat_sector (write_fat_sector d3 ?P first_fat_sector) (?P + S) first_fat_sector) (?P + x)"
      using x by (simp add: d'_def write_sectors_at)
    also have "\<dots> = (if \<exists>i \<in> set [1..<S]. x = i \<or> x = S + i then replicate 512 0 else (write_fat_sector (write_fat_sector d3 ?P first_fat_sector) (?P + S) first_fat_sector) (?P + x))"
      by (subst clear_fats_at [OF gm(3)]) (use gm(1) in \<open>auto simp: add.assoc\<close>)
    also have "(\<exists>i \<in> set [1..<S]. x = i \<or> x = S + i) \<longleftrightarrow> \<not> (x = 0 \<or> x = S)"
      using x S0 by (cases "x < S"; cases "x = S") (auto intro!: bexI [of _ "x - S"] simp del: bex_simps)
    finally show ?thesis by (simp add: write_fat_sector_def)
  qed
  note nf = new_fat_fresh [OF gm(1) S0 at]
  have bytes: "cluster_bytes d' p 2 = buf" unfolding cluster_bytes_def root(2) gm(7) d'_def by (rule read_write_sectors [OF buf])
  have cache: "cache_ok d' p"
    unfolding cache_ok_def
  proof (intro allI impI)
    fix x assume x: "x < unat (SectorsPerFat p)" "FatSectorNumber p = PrimaryFat p + of_nat x"
    then have "unat (PrimaryFat p + of_nat x) = 0" using gm(11) by (metis unsigned_0)
    then show "FatSector p = fat_sector d' (unat (FatSectorNumber p))" using fat_lba(1) [OF gm(3) x(1)] gm(2) by simp
  qed
  have two: "2 < fat_entries p" "fat1 d' p 2 = FAT32_ENDOF_CHAIN" using nf(2) [of 2] gm(5) S0 by (simp_all add: new_fat_def first_fat_sector_def FAT32_ENDOF_CHAIN_def)
  have dir: "one_cluster_dir (d', p) 2" using gm nf(1) cache two bytes buf by (simp add: one_cluster_dir_def)
  have free: "fat1 d' p c = 0" if "3 \<le> c" "c < fat_entries p" for c
    using nf(2) [of c] that gm(5) by (auto simp: new_fat_def first_fat_sector_def nth_append)
  have "unat n + 2 \<le> fat_entries p" using gm(5) S by simp
  moreover have "unat (FreeClusters p) = unat n - 1" using n gm(10) by (simp add: unat_sub word_le_nat_alt)
  ultimately show ?thesis using run dir free gm(3,4,9) nf(1) unfolding d'_def [symmetric] by blast
qed

theorem Fat32CreatePartition_formats_witness:
  "\<exists>d' p. Fat32CreatePartition drive_write (True, True) (\<lambda>_. replicate 512 0) 64 100 8 [0x4F, 0x53, 0] 0 (replicate 512 0) = Inr (d', Some p) \<and>
    fats_ok d' p \<and> one_cluster_dir (d', p) 2 \<and> unat (FreeClusters p) = 99"
  using Fat32CreatePartition_formats [of 0 1 100 64 8 "[0x4F, 0x53, 0]" "\<lambda>_. replicate 512 0" "replicate 512 0"] by auto

text \<open>
  The padding of a label of at most three characters reaches the byte of the attributes: the entry is no longer marked as a volume label.
\<close>

lemma short_label_attributes:
  "andThen (label_entry [0..<11] [0x4F, 0x53, 0] ((replicate 32 0)[11 := 8])) (\<lambda>e. Inr (FileAttributes e)) = Inr 0x20"
  by code_simp

text \<open>
  C39.  \<open>Fat32WriteReservedArea\<close> stays in the reserved area: when it accepts a request the sectors asked for, counted from the one behind the boot
  sector, hold the data, and only sectors behind the boot sector and before the FATs change;
  a request that would reach the last two reserved sectors is refused with the drive unchanged.
\<close>

theorem Fat32WriteReservedArea_bounds:
  assumes fit: "unat (HiddenSectors p) + unat (ReservedAreaSize p) < 2 ^ 32" and run: "Fat32WriteReservedArea drive_write (d, p) s n buf = ((d', p'), ok)"
  shows "p' = p \<and> ok = (unat s + unat n + 3 \<le> unat (ReservedAreaSize p)) \<and> (\<not> ok \<longrightarrow> d' = d) \<and>
    (ok \<longrightarrow> (\<forall>k < unat n. d' (unat (HiddenSectors p) + unat s + 1 + k) = take 512 (drop (512 * k) buf))) \<and>
    (\<forall>l. d' l \<noteq> d l \<longrightarrow> unat (HiddenSectors p) < l \<and> l < unat (PrimaryFat p) - 1)"
proof (cases "unat s + unat n + 3 \<le> unat (ReservedAreaSize p)")
  case False
  then have "int (unat s) + int (unat n) > int (unat (ReservedAreaSize p)) - 3" by linarith
  then show ?thesis using run False by (simp add: Fat32WriteReservedArea_def)
next
  case True
  then have "\<not> (int (unat s) + int (unat n) > int (unat (ReservedAreaSize p)) - 3)" by linarith
  then have d': "d' = write_sectors d (unat (HiddenSectors p + ucast s + 1)) (unat n) buf" "p' = p" "ok"
    using run by (auto simp: Fat32WriteReservedArea_def drive_write_def)
  have u: "unat (HiddenSectors p + ucast s) = unat (HiddenSectors p) + unat s"
    by (subst unat_of_sum) (use fit True in \<open>simp_all add: unat_ucast_up\<close>)
  have "unat (HiddenSectors p + ucast s + 1) = unat (HiddenSectors p) + unat s + 1"
    by (subst unat_of_sum) (use fit True u in simp_all)
  moreover have "unat (PrimaryFat p) = unat (HiddenSectors p) + unat (ReservedAreaSize p)"
    unfolding PrimaryFat_def by (subst unat_of_sum) (use fit in \<open>simp_all add: unat_ucast_up\<close>)
  ultimately show ?thesis using d' True by (auto simp: write_sectors_at split: if_splits)
qed

theorem Fat32WriteReservedArea_bounds_witness:
  "\<exists>d'. Fat32WriteReservedArea drive_write (demo_drive, demo_partition) 3 2 (replicate 1024 1) = ((d', demo_partition), True) \<and> d' 64 = demo_drive 64"
proof -
  have fit: "unat (HiddenSectors demo_partition) + unat (ReservedAreaSize demo_partition) < 2 ^ 32" "unat (HiddenSectors demo_partition) = 64"
      "unat (ReservedAreaSize demo_partition) = 16" by (simp_all add: demo_partition_def)
  obtain d' p' ok where r: "Fat32WriteReservedArea drive_write (demo_drive, demo_partition) 3 2 (replicate 1024 1) = ((d', p'), ok)" by (metis prod.exhaust)
  from Fat32WriteReservedArea_bounds [OF fit(1) r] fit(2,3) have "p' = demo_partition" "ok" "d' 64 = demo_drive 64" by force+
  then show ?thesis using r by auto
qed

end
