(* ===== verification/Byte_Memory.thy ===== *)
theory Byte_Memory
  imports Kernel_Base
begin

text \<open>
  Memory as bytes, for the components that read structures other programs wrote: executable images and firmware tables.
  A memory gives the byte at every address; a C access of \<open>n\<close> bytes reads or writes the bytes at the address and the
  following ones in little-endian order, address arithmetic wrapping as pointers do.  A store is described by the distance
  \<open>x - a\<close> of an address from its start, so no case needs a side condition on wrap-around.
\<close>

type_synonym bytes_mem = "u64 \<Rightarrow> u8"

lemma unat_plus_of_nat: "unat a + n < 2 ^ 64 \<Longrightarrow> unat (a + of_nat n :: u64) = unat a + n"
  by (simp add: unat_word_ariths unat_of_nat take_bit_nat_eq_self)

lemma unat_ucast_up_u64: "unat (ucast (x :: u32) :: u64) = unat x"
  by (simp add: unat_ucast_up)

section \<open>Little-endian values\<close>

fun le_word :: "u8 list \<Rightarrow> 'a::len word" where
  "le_word [] = 0"
| "le_word (b # bs) = ucast b OR push_bit 8 (le_word bs)"

definition le_bytes :: "nat \<Rightarrow> 'a::len word \<Rightarrow> u8 list" where
  "le_bytes n w = map (\<lambda>i. ucast (drop_bit (8 * i) w)) [0..<n]"

lemma length_le_bytes [simp]: "length (le_bytes n w) = n"
  by (simp add: le_bytes_def)

lemma le_bytes_Suc: "le_bytes (Suc n) w = ucast w # le_bytes n (drop_bit 8 w)"
  unfolding le_bytes_def upt_conv_Cons [OF zero_less_Suc]
  by (simp only: map_Suc_upt [symmetric] list.map map_map comp_def drop_bit_drop_bit)
     (simp add: algebra_simps)

lemma le_word_le_bytes: "le_word (le_bytes n w) = take_bit (8 * n) (w :: 'a::len word)"
proof (induction n arbitrary: w)
  case 0
  then show ?case by (simp add: le_bytes_def)
next
  case (Suc n)
  have "ucast (ucast w :: u8) OR push_bit 8 (take_bit (8 * n) (drop_bit 8 w)) = take_bit (8 * Suc n) (w :: 'a word)"
    by (rule bit_word_eqI)
       (auto simp: bit_or_iff bit_push_bit_iff bit_take_bit_iff bit_drop_bit_eq bit_ucast_iff le_add_diff_inverse)
  then show ?case by (simp add: le_bytes_Suc Suc)
qed

lemma le_word_le_bytes_full: "LENGTH('a) \<le> 8 * n \<Longrightarrow> le_word (le_bytes n w) = (w :: 'a::len word)"
  by (simp add: le_word_le_bytes take_bit_word_eq_self)

section \<open>Blocks of bytes\<close>

definition get_bytes :: "bytes_mem \<Rightarrow> u64 \<Rightarrow> nat \<Rightarrow> u8 list" where
  "get_bytes m a n = map (\<lambda>i. m (a + of_nat i)) [0..<n]"

definition put_bytes :: "bytes_mem \<Rightarrow> u64 \<Rightarrow> u8 list \<Rightarrow> bytes_mem" where
  "put_bytes m a bs = (\<lambda>x. if unat (x - a) < length bs then bs ! unat (x - a) else m x)"

text \<open>The block of \<open>n\<close> bytes at \<open>a\<close>; two blocks are apart when they share no address.\<close>

definition in_block :: "u64 \<Rightarrow> u64 \<Rightarrow> nat \<Rightarrow> bool" where
  "in_block x a n \<longleftrightarrow> unat (x - a) < n"

definition apart :: "u64 \<Rightarrow> nat \<Rightarrow> u64 \<Rightarrow> nat \<Rightarrow> bool" where
  "apart a n b k \<longleftrightarrow> (\<forall>i < n. \<not> in_block (a + of_nat i) b k)"

lemma length_get_bytes [simp]: "length (get_bytes m a n) = n"
  by (simp add: get_bytes_def)

lemma nth_get_bytes: "i < n \<Longrightarrow> get_bytes m a n ! i = m (a + of_nat i)"
  by (simp add: get_bytes_def)

lemma get_bytes_0 [simp]: "get_bytes m a 0 = []"
  by (simp add: get_bytes_def)

lemma get_bytes_Suc: "get_bytes m s (Suc n) = m s # get_bytes m (s + 1) n"
  unfolding get_bytes_def upt_conv_Cons [OF zero_less_Suc]
  by (simp only: map_Suc_upt [symmetric] list.map map_map comp_def) (simp add: algebra_simps)

lemma put_bytes_outside: "\<not> in_block x a (length bs) \<Longrightarrow> put_bytes m a bs x = m x"
  by (simp add: put_bytes_def in_block_def)

lemma put_bytes_inside: "i < length bs \<Longrightarrow> i < 2 ^ 64 \<Longrightarrow> put_bytes m a bs (a + of_nat i) = bs ! i"
  by (simp add: put_bytes_def)

lemma get_bytes_sub: "j + k \<le> n \<Longrightarrow> get_bytes m (a + of_nat j) k = take k (drop j (get_bytes m a n))"
  by (rule nth_equalityI) (simp_all add: nth_get_bytes add.assoc)

lemma get_put_bytes:
  assumes "length bs \<le> 2 ^ 64" and "length bs = n" shows "get_bytes (put_bytes m a bs) a n = bs"
  by (rule nth_equalityI) (use assms in \<open>simp_all add: nth_get_bytes put_bytes_inside\<close>)

lemma get_put_apart: "apart b k a (length bs) \<Longrightarrow> get_bytes (put_bytes m a bs) b k = get_bytes m b k"
  by (simp add: get_bytes_def apart_def put_bytes_outside)

lemma put_get_bytes: "put_bytes m a (get_bytes m a n) = m"
  by (rule ext) (simp add: put_bytes_def nth_get_bytes)

lemma put_put_bytes: "length bs = length cs \<Longrightarrow> put_bytes (put_bytes m a bs) a cs = put_bytes m a cs"
  by (rule ext) (simp add: put_bytes_def)

lemma get_bytes_cong: "(\<And>i. i < n \<Longrightarrow> m (a + of_nat i) = m' (a + of_nat i)) \<Longrightarrow> get_bytes m a n = get_bytes m' a n"
  by (simp add: get_bytes_def)

text \<open>Two blocks inside one larger block of less than \<open>2 ^ 64\<close> bytes are apart when their offsets are.\<close>

lemma in_block_offset:
  assumes "i < 2 ^ 64" and "j \<le> i"
  shows "unat (a + of_nat i - (a + of_nat j) :: u64) = i - j"
proof -
  have "a + of_nat i - (a + of_nat j) = (of_nat (i - j) :: u64)" using assms by (simp add: of_nat_diff)
  moreover have "i - j < 2 ^ 64" using assms(1) by simp
  ultimately show ?thesis by (simp only: unat_of_nat_u64)
qed

lemma apart_sym: "apart a n b k \<longleftrightarrow> apart b k a n"
proof -
  have *: "apart b k a n" if "apart a n b k" for a n b k
    unfolding apart_def in_block_def
  proof (intro allI impI notI)
    fix i assume i: "i < k" and lt: "unat (b + of_nat i - a) < n"
    define j where "j = unat (b + of_nat i - a)"
    have "a + of_nat j = b + of_nat i" by (simp add: j_def)
    then have "\<not> unat (b + of_nat i - b) < k" using that lt unfolding apart_def in_block_def j_def [symmetric] by metis
    moreover have "unat (of_nat i :: u64) \<le> i" by (simp add: unat_of_nat take_bit_nat_less_eq_self)
    ultimately show False using i by simp
  qed
  show ?thesis using * by blast
qed

lemma apart_shrink: "apart a n t k \<Longrightarrow> j + l \<le> n \<Longrightarrow> apart (a + of_nat j) l t k"
  unfolding apart_def
proof (intro allI impI)
  fix i assume all: "\<forall>i<n. \<not> in_block (a + of_nat i) t k" and "j + l \<le> n" and "i < l"
  then have "j + i < n" by simp
  from all [rule_format, OF this] show "\<not> in_block (a + of_nat j + of_nat i) t k" by (simp add: add.assoc)
qed

text \<open>Two memories agree on a block; reads inside the block then give the same.\<close>

definition agree :: "bytes_mem \<Rightarrow> bytes_mem \<Rightarrow> u64 \<Rightarrow> nat \<Rightarrow> bool" where
  "agree m m' a n \<longleftrightarrow> (\<forall>x. in_block x a n \<longrightarrow> m x = m' x)"

lemma in_block_of_nat: "i < n \<Longrightarrow> in_block (a + of_nat i) a n"
  by (simp add: in_block_def unat_of_nat)

lemma agree_get_bytes:
  assumes "agree m m' a n" and "j + k \<le> n" shows "get_bytes m (a + of_nat j) k = get_bytes m' (a + of_nat j) k"
proof (rule get_bytes_cong)
  fix i assume "i < k"
  then have "in_block (a + of_nat (j + i)) a n" using assms(2) by (intro in_block_of_nat) simp
  then show "m (a + of_nat j + of_nat i) = m' (a + of_nat j + of_nat i)" using assms(1) by (simp add: agree_def add.assoc)
qed

lemma agree_put_bytes: "apart a n t (length bs) \<Longrightarrow> agree m (put_bytes m t bs) a n"
  unfolding agree_def
proof (intro allI impI)
  fix x assume "apart a n t (length bs)" and x: "in_block x a n"
  then have "\<not> in_block (a + of_nat (unat (x - a))) t (length bs)" unfolding apart_def in_block_def by blast
  then show "m x = put_bytes m t bs x" by (simp add: put_bytes_outside)
qed

lemma agree_trans: "agree m1 m2 a n \<Longrightarrow> agree m2 m3 a n \<Longrightarrow> agree m1 m3 a n"
  by (simp add: agree_def)

text \<open>Memories that are equal outside a block agree on what is apart from it.\<close>

definition equal_outside :: "bytes_mem \<Rightarrow> bytes_mem \<Rightarrow> u64 \<Rightarrow> nat \<Rightarrow> bool" where
  "equal_outside m m' t l \<longleftrightarrow> (\<forall>x. \<not> in_block x t l \<longrightarrow> m x = m' x)"

lemma equal_outside_agree: "equal_outside m m' t l \<Longrightarrow> apart a n t l \<Longrightarrow> agree m m' a n"
  unfolding agree_def
proof (intro allI impI)
  fix x assume "equal_outside m m' t l" and "apart a n t l" and x: "in_block x a n"
  then have "\<not> in_block (a + of_nat (unat (x - a))) t l" unfolding apart_def in_block_def by blast
  with \<open>equal_outside m m' t l\<close> show "m x = m' x" by (simp add: equal_outside_def)
qed

lemma agree_refl [simp]: "agree m m a n"
  by (simp add: agree_def)

lemma put_append:
  assumes "length bs + length cs \<le> 2 ^ 64"
  shows "put_bytes (put_bytes m a bs) (a + of_nat (length bs)) cs = put_bytes m a (bs @ cs)"
proof (rule ext)
  fix x
  define d where "d = unat (x - a)"
  have x: "x = a + of_nat d" by (simp add: d_def)
  have d: "d < 2 ^ 64" unfolding d_def by (rule order_less_le_trans [OF unsigned_less]) simp
  show "put_bytes (put_bytes m a bs) (a + of_nat (length bs)) cs x = put_bytes m a (bs @ cs) x"
  proof (cases "length bs \<le> d")
    case True
    then have "unat (x - (a + of_nat (length bs))) = d - length bs" unfolding x using d by (intro in_block_offset)
    moreover have "d - length bs < length cs \<longleftrightarrow> d < length bs + length cs" using True by linarith
    ultimately show ?thesis using True by (simp add: put_bytes_def d_def [symmetric] nth_append)
  next
    case False
    have "\<not> unat (x - (a + of_nat (length bs))) < length cs"
    proof
      define e where "e = unat (x - (a + of_nat (length bs)))"
      assume "unat (x - (a + of_nat (length bs))) < length cs"
      then have e: "length bs + e < 2 ^ 64" using assms by (simp add: e_def)
      have "a + of_nat d = a + of_nat (length bs + e)" unfolding x [symmetric] by (simp add: e_def)
      then have "(of_nat d :: u64) = of_nat (length bs + e)" by simp
      then have "d = length bs + e" using unat_of_nat_u64 [OF d] unat_of_nat_u64 [OF e] by metis
      then show False using False by simp
    qed
    then show ?thesis using False by (simp add: put_bytes_def d_def nth_append)
  qed
qed

lemma apart_offsets:
  assumes "j + n \<le> k" and "k + l \<le> 2 ^ 64"
  shows "apart (a + of_nat j) n (a + of_nat k) l"
  unfolding apart_def in_block_def
proof (intro allI impI notI)
  fix i assume i: "i < n" and lt: "unat (a + of_nat j + of_nat i - (a + of_nat k)) < l"
  define e where "e = unat (a + of_nat j + of_nat i - (a + of_nat k))"
  have "a + of_nat k + of_nat e = a + of_nat j + of_nat i" by (simp add: e_def)
  then have "(of_nat (k + e) :: u64) = of_nat (j + i)" by (simp add: add.assoc)
  moreover have "k + e < 2 ^ 64" "j + i < 2 ^ 64" using assms i lt by (simp_all add: e_def)
  ultimately have "k + e = j + i" using unat_of_nat_u64 by metis
  then show False using assms(1) i by simp
qed

lemma in_block_sub: "in_block x (a + of_nat j) k \<Longrightarrow> j + k \<le> n \<Longrightarrow> in_block x a n"
proof -
  assume b: "in_block x (a + of_nat j) k" and n: "j + k \<le> n"
  define e where "e = unat (x - (a + of_nat j))"
  have "x = a + of_nat (j + e)" by (simp add: e_def)
  moreover have "j + e < n" using b n by (simp add: in_block_def e_def)
  ultimately show "in_block x a n" by (simp only: in_block_of_nat)
qed

section \<open>Typed accesses and the memory routines of \<open>lib/mem.asm\<close>\<close>

definition rd8 :: "bytes_mem \<Rightarrow> u64 \<Rightarrow> u8" where "rd8 m a = m a"
definition rd16 :: "bytes_mem \<Rightarrow> u64 \<Rightarrow> u16" where "rd16 m a = le_word (get_bytes m a 2)"
definition rd32 :: "bytes_mem \<Rightarrow> u64 \<Rightarrow> u32" where "rd32 m a = le_word (get_bytes m a 4)"
definition rd64 :: "bytes_mem \<Rightarrow> u64 \<Rightarrow> u64" where "rd64 m a = le_word (get_bytes m a 8)"
definition wr32 :: "bytes_mem \<Rightarrow> u64 \<Rightarrow> u32 \<Rightarrow> bytes_mem" where "wr32 m a v = put_bytes m a (le_bytes 4 v)"
definition wr64 :: "bytes_mem \<Rightarrow> u64 \<Rightarrow> u64 \<Rightarrow> bytes_mem" where "wr64 m a v = put_bytes m a (le_bytes 8 v)"

lemma rd64_wr64 [simp]: "rd64 (wr64 m a v) a = v"
  by (simp add: rd64_def wr64_def get_put_bytes le_word_le_bytes_full)

lemma rd32_wr32 [simp]: "rd32 (wr32 m a v) a = v"
  by (simp add: rd32_def wr32_def get_put_bytes le_word_le_bytes_full)

lemma rd_wr64_apart:
  "apart a 8 t 8 \<Longrightarrow> rd64 (wr64 m t v) a = rd64 m a"
  "apart a 4 t 8 \<Longrightarrow> rd32 (wr64 m t v) a = rd32 m a"
  "apart a 2 t 8 \<Longrightarrow> rd16 (wr64 m t v) a = rd16 m a"
  by (simp_all add: rd64_def rd32_def rd16_def wr64_def get_put_apart)

lemma rd32_wr32_apart: "apart a 4 t 4 \<Longrightarrow> rd32 (wr32 m t v) a = rd32 m a"
  by (simp add: rd32_def wr32_def get_put_apart)

lemma agree_rd:
  assumes "agree m m' a n"
  shows "j + 2 \<le> n \<Longrightarrow> rd16 m (a + of_nat j) = rd16 m' (a + of_nat j)"
    and "j + 4 \<le> n \<Longrightarrow> rd32 m (a + of_nat j) = rd32 m' (a + of_nat j)"
    and "j + 8 \<le> n \<Longrightarrow> rd64 m (a + of_nat j) = rd64 m' (a + of_nat j)"
  using agree_get_bytes [OF assms] by (simp_all add: rd16_def rd32_def rd64_def)

lemma agree_wr64: "apart a n t 8 \<Longrightarrow> agree m (wr64 m t v) a n"
  by (simp add: wr64_def agree_put_bytes)

lemma wr64_outside: "\<not> in_block x t 8 \<Longrightarrow> wr64 m t v x = m x"
  by (simp add: wr64_def put_bytes_outside)

lemma wr64_wr64: "wr64 (wr64 m a v) a w = wr64 m a w"
  by (simp add: wr64_def put_put_bytes)

lemma agree_0: "agree m m' a n \<Longrightarrow> 2 \<le> n \<Longrightarrow> rd16 m a = rd16 m' a"
  "agree m m' a n \<Longrightarrow> 4 \<le> n \<Longrightarrow> rd32 m a = rd32 m' a" "agree m m' a n \<Longrightarrow> 8 \<le> n \<Longrightarrow> rd64 m a = rd64 m' a"
  "agree m m' a n \<Longrightarrow> get_bytes m a n = get_bytes m' a n"
  using agree_rd [of m m' a n 0] agree_get_bytes [of m m' a n 0 n] by simp_all

lemma equal_outside_wr64: "(\<And>x. in_block x a 8 \<Longrightarrow> in_block x t l) \<Longrightarrow> equal_outside m (wr64 m a v) t l"
  unfolding equal_outside_def using wr64_outside by metis

text \<open>\<open>rep movsb\<close> and \<open>rep stosb\<close>: one byte after the other, upwards.\<close>

fun mem_copy :: "bytes_mem \<Rightarrow> u64 \<Rightarrow> u64 \<Rightarrow> nat \<Rightarrow> bytes_mem" where
  "mem_copy m d s 0 = m"
| "mem_copy m d s (Suc n) = mem_copy (m(d := m s)) (d + 1) (s + 1) n"

fun mem_set :: "bytes_mem \<Rightarrow> u64 \<Rightarrow> u8 \<Rightarrow> nat \<Rightarrow> bytes_mem" where
  "mem_set m d v 0 = m"
| "mem_set m d v (Suc n) = mem_set (m(d := v)) (d + 1) v n"

lemma block_Suc: "in_block x d (Suc n) \<longleftrightarrow> x = d \<or> in_block x (d + 1) n"
proof (cases "x = d")
  case True
  then show ?thesis by (simp add: in_block_def)
next
  case False
  then have "x - d \<noteq> 0" by simp
  then have "unat (x - d) = Suc (unat (x - d - 1))"
    by (metis Suc_pred' unat_gt_0 unat_minus_one)
  moreover have "x - d - 1 = x - (d + 1)" by (simp add: algebra_simps)
  ultimately show ?thesis using False by (simp add: in_block_def)
qed

lemma block_shift:
  assumes "in_block x (d + 1) n" and "n < 2 ^ 64" shows "x \<noteq> d" and "unat (x - d) = Suc (unat (x - (d + 1)))"
proof -
  show ne: "x \<noteq> d"
  proof
    assume "x = d"
    then have "x - (d + 1) = - 1" by simp
    then have "unat (x - (d + 1)) = 2 ^ 64 - 1" by (simp add: unsigned_minus_1_eq_mask mask_eq_exp_minus_1)
    then show False using assms by (simp add: in_block_def)
  qed
  have "x - d \<noteq> 0" using ne by simp
  then have "unat (x - d) = Suc (unat (x - d - 1))" by (metis Suc_pred' unat_gt_0 unat_minus_one)
  moreover have "x - d - 1 = x - (d + 1)" by (simp add: algebra_simps)
  ultimately show "unat (x - d) = Suc (unat (x - (d + 1)))" by simp
qed

lemma mem_set_eq: "n \<le> 2 ^ 64 \<Longrightarrow> mem_set m d v n = put_bytes m d (replicate n v)"
proof (induction n arbitrary: m d)
  case 0
  then show ?case by (simp add: put_bytes_def)
next
  case (Suc n)
  show ?case
  proof (rule ext)
    fix x
    have "mem_set m d v (Suc n) x = (if in_block x (d + 1) n then v else (m(d := v)) x)"
      using Suc by (simp add: put_bytes_def in_block_def)
    also have "\<dots> = (if in_block x d (Suc n) then v else m x)" by (auto simp: block_Suc)
    finally show "mem_set m d v (Suc n) x = put_bytes m d (replicate (Suc n) v) x"
      by (simp add: put_bytes_def in_block_def del: replicate_Suc)
  qed
qed

lemma apart_Suc: "apart d (Suc n) s (Suc n) \<Longrightarrow> apart (d + 1) n (s + 1) n"
  unfolding apart_def by (metis (no_types) Suc_less_eq add.assoc block_Suc of_nat_Suc add.commute)

lemma mem_copy_eq: "n < 2 ^ 64 \<Longrightarrow> apart d n s n \<Longrightarrow> mem_copy m d s n = put_bytes m d (get_bytes m s n)"
proof (induction n arbitrary: m d s)
  case 0
  then show ?case by (simp add: put_bytes_def)
next
  case (Suc n)
  let ?m = "m(d := m s)"
  have src: "get_bytes ?m (s + 1) n = get_bytes m (s + 1) n"
  proof (rule get_bytes_cong)
    fix i assume "i < n"
    moreover have "apart s (Suc n) d (Suc n)" using Suc.prems(2) apart_sym by blast
    moreover have "in_block d d (Suc n)" by (simp add: in_block_def)
    ultimately have "s + 1 + of_nat i \<noteq> d"
      unfolding apart_def by (metis Suc_less_eq add.assoc of_nat_Suc)
    then show "?m (s + 1 + of_nat i) = m (s + 1 + of_nat i)" by simp
  qed
  have IH: "mem_copy m d s (Suc n) = put_bytes ?m (d + 1) (get_bytes m (s + 1) n)"
    using Suc.IH [of "d + 1" "s + 1" ?m, OF Suc_lessD [OF Suc.prems(1)] apart_Suc [OF Suc.prems(2)]]
    by (simp only: src mem_copy.simps)
  show ?case
  proof (rule ext)
    fix x
    show "mem_copy m d s (Suc n) x = put_bytes m d (get_bytes m s (Suc n)) x"
    proof (cases "in_block x (d + 1) n")
      case True
      then have "x \<noteq> d" "unat (x - d) = Suc (unat (x - (d + 1)))" using block_shift Suc.prems(1) by auto
      then show ?thesis using True unfolding IH get_bytes_Suc by (simp add: put_bytes_def in_block_def)
    next
      case False
      then have "in_block x d (Suc n) \<longleftrightarrow> x = d" by (simp add: block_Suc)
      then show ?thesis using False unfolding IH get_bytes_Suc by (auto simp: put_bytes_def in_block_def)
    qed
  qed
qed

section \<open>Small memories\<close>

text \<open>A memory given by its nonzero bytes, and the facts that evaluate accesses to it.\<close>

definition sparse :: "(u64 \<times> u8) list \<Rightarrow> bytes_mem" where
  "sparse bs = (\<lambda>x. case map_of bs x of Some b \<Rightarrow> b | None \<Rightarrow> 0)"

lemmas mem_eval = sparse_def rd8_def rd16_def rd32_def rd64_def get_bytes_def upt_rec_numeral upt_conv_Cons

lemma apart_below: "unat a + n \<le> unat t \<Longrightarrow> unat t + k \<le> 2 ^ 64 \<Longrightarrow> apart a n t k"
  unfolding apart_def in_block_def
proof (intro allI impI)
  fix i assume i: "i < n" and le: "unat a + n \<le> unat t" and k: "unat t + k \<le> 2 ^ 64"
  have "unat t < 2 ^ LENGTH(64)" by (rule unsigned_less)
  then have "unat (a + of_nat i) = unat a + i" using i le by (intro unat_plus_of_nat) simp
  then have lt: "a + of_nat i < t" using i le by (simp add: word_less_nat_alt)
  have "unat (a + of_nat i - t) = 2 ^ 64 + unat (a + of_nat i) - unat t"
    using lt by (simp add: unat_sub_if_size word_less_nat_alt word_size)
  then show "\<not> unat (a + of_nat i - t) < k" using k by simp
qed

end
