(* ===== verification/Pe_Image.thy ===== *)
theory Pe_Image
  imports Byte_Memory
begin

text \<open>
  Images in the PE32+ format as the loaders see them (\<open>loaders/pe.h\<close>, \<open>pe64_native.c\<close>, \<open>pe64_dll.c\<close>): the layout of sections,
  base relocations and the binding of imports to exports.  Headers, section tables, relocation blocks, import and export
  tables are read from and written to a byte memory at the offsets of \<open>pe.h\<close>.
\<close>

section \<open>Layout of images (pe.h)\<close>

definition PE_SECTION_LIMIT :: u16 where "PE_SECTION_LIMIT = 96"
definition PE_TARGET_MACHINE :: u16 where "PE_TARGET_MACHINE = 0x8664"
definition PE_IMAGE_SIGNATURE :: "u8 list" where "PE_IMAGE_SIGNATURE = [0x50, 0x45, 0, 0]"
definition PE_SECTION_CODE :: u32 where "PE_SECTION_CODE = 0x20"
definition PE_SECTION_INITIALIZED_DATA :: u32 where "PE_SECTION_INITIALIZED_DATA = 0x40"
definition PE_SECTION_UNINITIALIZED_DATA :: u32 where "PE_SECTION_UNINITIALIZED_DATA = 0x80"
definition SIZEOF_OPTIONNAL_HEADER_DATA_DIRECTORIES :: u16 where "SIZEOF_OPTIONNAL_HEADER_DATA_DIRECTORIES = 240"
definition OPTIONNAL_NUM_DATA_DIRECTORIES :: u32 where "OPTIONNAL_NUM_DATA_DIRECTORIES = 16"
definition IMAGE_DLL_DYNAMIC_BASE :: u16 where "IMAGE_DLL_DYNAMIC_BASE = 0x40"
definition IMAGE_REL_BASED_DIR64 :: u16 where "IMAGE_REL_BASED_DIR64 = 10"
definition SIZEOF_PE_OPTIONAL_HEADER :: u16 where "SIZEOF_PE_OPTIONAL_HEADER = 24"

text \<open>The fields of \<open>PE_IMAGE_HDR\<close> at address \<open>h\<close>; the optional header starts at 24, the windows fields at 48, the
  data directories at 136.\<close>

definition MachineType :: "bytes_mem \<Rightarrow> u64 \<Rightarrow> u16" where "MachineType m h = rd16 m (h + 4)"
definition NumSections :: "bytes_mem \<Rightarrow> u64 \<Rightarrow> u16" where "NumSections m h = rd16 m (h + 6)"
definition TimeDateStamp :: "bytes_mem \<Rightarrow> u64 \<Rightarrow> u32" where "TimeDateStamp m h = rd32 m (h + 8)"
definition SizeofOptionnalHeader :: "bytes_mem \<Rightarrow> u64 \<Rightarrow> u16" where "SizeofOptionnalHeader m h = rd16 m (h + 20)"
definition EntryPointAddr :: "bytes_mem \<Rightarrow> u64 \<Rightarrow> u32" where "EntryPointAddr m h = rd32 m (h + 40)"
definition hdr_ImageBase :: "bytes_mem \<Rightarrow> u64 \<Rightarrow> u64" where "hdr_ImageBase m h = rd64 m (h + 48)"
definition hdr_Subsystem :: "bytes_mem \<Rightarrow> u64 \<Rightarrow> u16" where "hdr_Subsystem m h = rd16 m (h + 92)"
definition DllCharacteristics :: "bytes_mem \<Rightarrow> u64 \<Rightarrow> u16" where "DllCharacteristics m h = rd16 m (h + 94)"
definition StackReserve :: "bytes_mem \<Rightarrow> u64 \<Rightarrow> u64" where "StackReserve m h = rd64 m (h + 96)"
definition NumDataDirectories :: "bytes_mem \<Rightarrow> u64 \<Rightarrow> u32" where "NumDataDirectories m h = rd32 m (h + 132)"
definition ExportTable_VA :: "bytes_mem \<Rightarrow> u64 \<Rightarrow> u32" where "ExportTable_VA m h = rd32 m (h + 136)"
definition ImportTable_VA :: "bytes_mem \<Rightarrow> u64 \<Rightarrow> u32" where "ImportTable_VA m h = rd32 m (h + 144)"
definition BaseRelocationTable_VA :: "bytes_mem \<Rightarrow> u64 \<Rightarrow> u32" where "BaseRelocationTable_VA m h = rd32 m (h + 176)"
definition BaseRelocationTable_Size :: "bytes_mem \<Rightarrow> u64 \<Rightarrow> u32" where "BaseRelocationTable_Size m h = rd32 m (h + 180)"
definition ImportAddressTable_VA :: "bytes_mem \<Rightarrow> u64 \<Rightarrow> u32" where "ImportAddressTable_VA m h = rd32 m (h + 232)"

definition first_section :: "bytes_mem \<Rightarrow> u64 \<Rightarrow> u64" where
  "first_section m h = h + 24 + ucast (SizeofOptionnalHeader m h)"

text \<open>\<open>PE_SECTION_TABLE\<close>, 40 bytes.\<close>

definition sec_VirtualSize :: "bytes_mem \<Rightarrow> u64 \<Rightarrow> u32" where "sec_VirtualSize m s = rd32 m (s + 8)"
definition sec_VirtualAddress :: "bytes_mem \<Rightarrow> u64 \<Rightarrow> u32" where "sec_VirtualAddress m s = rd32 m (s + 12)"
definition SizeofRawData :: "bytes_mem \<Rightarrow> u64 \<Rightarrow> u32" where "SizeofRawData m s = rd32 m (s + 16)"
definition PtrToRawData :: "bytes_mem \<Rightarrow> u64 \<Rightarrow> u32" where "PtrToRawData m s = rd32 m (s + 20)"
definition sec_Characteristics :: "bytes_mem \<Rightarrow> u64 \<Rightarrow> u32" where "sec_Characteristics m s = rd32 m (s + 36)"

definition loadable :: "bytes_mem \<Rightarrow> u64 \<Rightarrow> bool" where
  "loadable m s \<longleftrightarrow>
     sec_Characteristics m s AND (PE_SECTION_CODE OR PE_SECTION_INITIALIZED_DATA OR PE_SECTION_UNINITIALIZED_DATA) \<noteq> 0"

section \<open>Finding the header (pe64_user.c)\<close>

definition GetPEhdrOffset :: "bytes_mem \<Rightarrow> u64 \<Rightarrow> u32 outcome" where
  "GetPEhdrOffset m hdr =
     andThen (memcmp (get_bytes m hdr 2) [0x4D, 0x5A]) (\<lambda>same. Inr (if \<not> same then - 1 else rd32 m (hdr + 0x3C)))"

section \<open>Sections\<close>

text \<open>The native loader and the DLL loader round the size of a section to pages in two ways.\<close>

definition round_native :: "u32 \<Rightarrow> u32" where
  "round_native v = (if v mod 0x1000 \<noteq> 0 then v + (0x1000 - v mod 0x1000) else v)"

definition round_dll :: "u32 \<Rightarrow> u32" where
  "round_dll v = (if v AND 0xFFF \<noteq> 0 then (v + 0x1000) AND NOT 0xFFF else v)"

text \<open>The first loop over the sections: round their sizes in place and add them up.\<close>

fun measure_sections :: "(u32 \<Rightarrow> u32) \<Rightarrow> nat \<Rightarrow> bytes_mem \<Rightarrow> u64 \<Rightarrow> u64 \<Rightarrow> bytes_mem \<times> u64" where
  "measure_sections rnd 0 m s len = (m, len)"
| "measure_sections rnd (Suc n) m s len =
     (if \<not> loadable m s \<or> sec_VirtualSize m s = 0 then measure_sections rnd n m (s + 40) len
      else let m' = wr32 m (s + 8) (rnd (sec_VirtualSize m s))
           in measure_sections rnd n m' (s + 40) (len + ucast (sec_VirtualSize m' s)))"

text \<open>The second loop: copy the raw data of each section to its place and clear the rest of it.\<close>

definition load_section :: "bytes_mem \<Rightarrow> u64 \<Rightarrow> u64 \<Rightarrow> u64 \<Rightarrow> bytes_mem" where
  "load_section m VirtualBuffer ImageBuffer s =
     (let m1 = mem_copy m (VirtualBuffer + ucast (sec_VirtualAddress m s)) (ImageBuffer + ucast (PtrToRawData m s))
                 (unat (SizeofRawData m s))
      in if sec_VirtualSize m1 s > SizeofRawData m1 s then
           mem_set m1 (VirtualBuffer + ucast (sec_VirtualAddress m1 s) + ucast (SizeofRawData m1 s)) 0
             (unat (sec_VirtualSize m1 s - SizeofRawData m1 s))
         else m1)"

fun load_sections :: "nat \<Rightarrow> bytes_mem \<Rightarrow> u64 \<Rightarrow> u64 \<Rightarrow> u64 \<Rightarrow> bytes_mem" where
  "load_sections 0 m VirtualBuffer ImageBuffer s = m"
| "load_sections (Suc n) m VirtualBuffer ImageBuffer s =
     load_sections n (if loadable m s then load_section m VirtualBuffer ImageBuffer s else m)
       VirtualBuffer ImageBuffer (s + 40)"

definition section_contains :: "bytes_mem \<Rightarrow> u32 \<Rightarrow> u64 \<Rightarrow> bool" where
  "section_contains m addr s \<longleftrightarrow>
     sec_VirtualAddress m s \<le> addr \<and> sec_VirtualAddress m s + sec_VirtualSize m s > addr"

definition Pe64GetSectionByVirtualAddress :: "bytes_mem \<Rightarrow> u32 \<Rightarrow> u64 \<Rightarrow> u64 option" where
  "Pe64GetSectionByVirtualAddress m VirtualAddress h =
     (let NewVirtAddr = push_bit 12 (drop_bit 12 VirtualAddress);
          secs = map (\<lambda>i. first_section m h + 40 * of_nat i) [0..<unat (NumSections m h)]
      in map_option (\<lambda>i. secs ! i) (first_index (section_contains m NewVirtAddr) secs))"

section \<open>Base relocations\<close>

text \<open>
  A block has its page and its size in bytes, header included, and then 16-bit entries with the offset in the low 12 bits
  and the type above.  The count of entries is computed in 64 bits and cut to 32.
\<close>

definition PageRva :: "bytes_mem \<Rightarrow> u64 \<Rightarrow> u32" where "PageRva m b = rd32 m b"
definition BlockSize :: "bytes_mem \<Rightarrow> u64 \<Rightarrow> u32" where "BlockSize m b = rd32 m (b + 4)"
definition entry_Offset :: "u16 \<Rightarrow> u16" where "entry_Offset e = e AND 0xFFF"
definition entry_Type :: "u16 \<Rightarrow> u16" where "entry_Type e = drop_bit 12 e"

definition EntriesCount :: "u32 \<Rightarrow> u32" where
  "EntriesCount bsize = ucast ((ucast bsize - 8 :: u64) div 2)"

definition rebase_entry :: "u64 \<Rightarrow> u64 \<Rightarrow> u64 \<Rightarrow> u64 \<Rightarrow> nat \<Rightarrow> bytes_mem \<Rightarrow> bytes_mem" where
  "rebase_entry h VirtualBuffer ImageBase b i m =
     (let e = rd16 m (b + 8 + 2 * of_nat i)
      in if entry_Type e \<noteq> IMAGE_REL_BASED_DIR64 then m else
         let TargetRebase = VirtualBuffer + ucast (PageRva m b) + ucast (entry_Offset e)
         in wr64 m TargetRebase (ImageBase + (rd64 m TargetRebase - hdr_ImageBase m h)))"

fun reloc_entries :: "u64 \<Rightarrow> u64 \<Rightarrow> u64 \<Rightarrow> u64 \<Rightarrow> nat \<Rightarrow> nat \<Rightarrow> bytes_mem \<Rightarrow> bytes_mem" where
  "reloc_entries h VirtualBuffer ImageBase b i 0 m = m"
| "reloc_entries h VirtualBuffer ImageBase b i (Suc n) m =
     reloc_entries h VirtualBuffer ImageBase b (Suc i) n (rebase_entry h VirtualBuffer ImageBase b i m)"

fun reloc_blocks :: "nat \<Rightarrow> u64 \<Rightarrow> u64 \<Rightarrow> u64 \<Rightarrow> u64 \<Rightarrow> u64 \<Rightarrow> bytes_mem \<Rightarrow> bytes_mem outcome" where
  "reloc_blocks 0 h VirtualBuffer ImageBase NextBlock SectionEnd m = Inl Hang"
| "reloc_blocks (Suc n) h VirtualBuffer ImageBase NextBlock SectionEnd m =
     (if NextBlock > SectionEnd then Inr m
      else if PageRva m NextBlock = 0 \<or> BlockSize m NextBlock = 0 then Inr m
      else reloc_blocks n h VirtualBuffer ImageBase (NextBlock + ucast (BlockSize m NextBlock)) SectionEnd
             (reloc_entries h VirtualBuffer ImageBase NextBlock 0 (unat (EntriesCount (BlockSize m NextBlock))) m))"

text \<open>The fuel is the size of the directory plus two: every block is at least one byte long.\<close>

definition Pe64RelocateImage :: "bytes_mem \<Rightarrow> u64 \<Rightarrow> u64 \<Rightarrow> u64 \<Rightarrow> (bytes_mem \<times> int) outcome" where
  "Pe64RelocateImage m h VirtualBuffer ImageBase =
     (let start = VirtualBuffer + ucast (BaseRelocationTable_VA m h);
          base = (if ImageBase = 0 then VirtualBuffer else ImageBase)
      in andThen (reloc_blocks (unat (BaseRelocationTable_Size m h) + 2) h VirtualBuffer base start
                    (start + ucast (BaseRelocationTable_Size m h)) m)
           (\<lambda>m'. Inr (m', KERNEL_SOK)))"

section \<open>What relocation does\<close>

text \<open>
  A relocation directory as data: blocks of a page and its entries, and that a memory holds it.  \<open>rebase\<close> is the effect asked
  for: the difference of the two bases added to every target.
\<close>

fun stored_blocks :: "bytes_mem \<Rightarrow> u64 \<Rightarrow> (u32 \<times> u16 list) list \<Rightarrow> bool" where
  "stored_blocks m a [] \<longleftrightarrow> True"
| "stored_blocks m a ((pg, es) # bs) \<longleftrightarrow>
     pg \<noteq> 0 \<and> 8 + 2 * length es < 2 ^ 32 \<and> PageRva m a = pg \<and> BlockSize m a = of_nat (8 + 2 * length es) \<and>
     map (\<lambda>i. rd16 m (a + 8 + 2 * of_nat i)) [0..<length es] = es \<and>
     stored_blocks m (a + of_nat (8 + 2 * length es)) bs"

definition dir_size :: "(u32 \<times> u16 list) list \<Rightarrow> nat" where
  "dir_size bs = sum_list (map (\<lambda>(pg, es). 8 + 2 * length es) bs)"

definition entry_targets :: "u64 \<Rightarrow> u32 \<Rightarrow> u16 list \<Rightarrow> u64 list" where
  "entry_targets vb pg es =
     map (\<lambda>e. vb + ucast pg + ucast (entry_Offset e)) (filter (\<lambda>e. entry_Type e = IMAGE_REL_BASED_DIR64) es)"

definition reloc_targets :: "u64 \<Rightarrow> (u32 \<times> u16 list) list \<Rightarrow> u64 list" where
  "reloc_targets vb bs = concat (map (\<lambda>(pg, es). entry_targets vb pg es) bs)"

definition rebase :: "bytes_mem \<Rightarrow> u64 list \<Rightarrow> u64 \<Rightarrow> bytes_mem" where
  "rebase m ts d = fold (\<lambda>t m. wr64 m t (rd64 m t + d)) ts m"

lemma rebase_simps [simp]:
  "rebase m [] d = m" "rebase m (t # ts) d = rebase (wr64 m t (rd64 m t + d)) ts d"
  "rebase m (ts @ us) d = rebase (rebase m ts d) us d"
  by (simp_all add: rebase_def)

lemma agree_rebase: "(\<And>t. t \<in> set ts \<Longrightarrow> apart a n t 8) \<Longrightarrow> agree m (rebase m ts d) a n"
proof (induction ts arbitrary: m)
  case Nil
  then show ?case by simp
next
  case (Cons t ts)
  have "agree m (wr64 m t (rd64 m t + d)) a n" using Cons.prems by (simp add: agree_wr64)
  moreover have "agree (wr64 m t (rd64 m t + d)) (rebase (wr64 m t (rd64 m t + d)) ts d) a n"
    using Cons by simp
  ultimately show ?case using agree_trans by simp
qed

lemma rebase_target:
  assumes "sorted_wrt (\<lambda>t u. apart t 8 u 8) ts" and "t \<in> set ts"
  shows "rd64 (rebase m ts d) t = rd64 m t + d"
  using assms
proof (induction ts arbitrary: m)
  case Nil
  then show ?case by simp
next
  case (Cons u ts)
  let ?m = "wr64 m u (rd64 m u + d)"
  show ?case
  proof (cases "t = u")
    case True
    have "agree ?m (rebase ?m ts d) u 8" using Cons.prems by (intro agree_rebase) simp
    then have "rd64 (rebase ?m ts d) u = rd64 ?m u" using agree_rd(3) [of ?m _ u 8 0] by simp
    then show ?thesis using True by simp
  next
    case False
    then have "t \<in> set ts" using Cons.prems by simp
    moreover have "apart t 8 u 8" using Cons.prems calculation apart_sym by simp
    ultimately show ?thesis using Cons by (simp add: rd_wr64_apart)
  qed
qed

lemma rebase_outside: "(\<And>t. t \<in> set ts \<Longrightarrow> \<not> in_block x t 8) \<Longrightarrow> rebase m ts d x = m x"
  by (induction ts arbitrary: m) (simp_all add: wr64_outside)

lemma reloc_entries_rebase:
  assumes "hdr_ImageBase m h = old" and "PageRva m b = pg"
    and "\<And>t. t \<in> set (entry_targets vb pg (map (\<lambda>i. rd16 m (b + 8 + 2 * of_nat i)) [i..<i + n])) \<Longrightarrow>
           apart b (8 + 2 * (i + n)) t 8 \<and> apart (h + 48) 8 t 8"
  shows "reloc_entries h vb base b i n m =
     rebase m (entry_targets vb pg (map (\<lambda>i. rd16 m (b + 8 + 2 * of_nat i)) [i..<i + n])) (base - old)"
  using assms
proof (induction n arbitrary: i m)
  case 0
  then show ?case by (simp add: entry_targets_def)
next
  case (Suc n)
  let ?rd = "\<lambda>m i. rd16 m (b + 8 + 2 * of_nat i)"
  define e where "e = ?rd m i"
  have es: "map (?rd m) [i..<i + Suc n] = e # map (?rd m) [Suc i..<Suc i + n]" 
    using upt_conv_Cons [of i "i + Suc n"] by (simp add: e_def del: upt_Suc)
  note apart_all = Suc.prems(3) [unfolded es]
  show ?case
  proof (cases "entry_Type e = IMAGE_REL_BASED_DIR64")
    case False
    then have "reloc_entries h vb base b i (Suc n) m = reloc_entries h vb base b (Suc i) n m"
      by (simp add: rebase_entry_def e_def [symmetric])
    moreover have "entry_targets vb pg (e # map (?rd m) [Suc i..<Suc i + n]) = entry_targets vb pg (map (?rd m) [Suc i..<Suc i + n])"
      using False by (simp add: entry_targets_def)
    ultimately show ?thesis unfolding es
      using Suc.IH [of m "Suc i", OF Suc.prems(1,2)] apart_all by simp
  next
    case True
    define t where "t = vb + ucast pg + ucast (entry_Offset e)"
    define m1 where "m1 = wr64 m t (rd64 m t + (base - old))"
    have ts: "entry_targets vb pg (e # xs) = t # entry_targets vb pg xs" for xs
      using True by (simp add: entry_targets_def t_def)
    have ap: "apart b (8 + 2 * (i + Suc n)) t 8" "apart (h + 48) 8 t 8" using apart_all [of t] by (simp_all add: ts)
    have ag: "agree m m1 b (8 + 2 * (i + Suc n))" "agree m m1 (h + 48) 8" using ap by (simp_all add: m1_def agree_wr64)
    have rd: "?rd m1 k = ?rd m k" if "k < i + Suc n" for k
      using agree_rd(1) [OF ag(1), of "8 + 2 * k"] that by (simp add: add.assoc)
    have m1: "hdr_ImageBase m1 h = old" "PageRva m1 b = pg"
      using agree_rd(3) [OF ag(2), of 0] agree_rd(2) [OF ag(1), of 0] Suc.prems(1,2)
      by (simp_all add: hdr_ImageBase_def PageRva_def)
    have rest: "map (?rd m1) [Suc i..<Suc i + n] = map (?rd m) [Suc i..<Suc i + n]" using rd by (intro map_cong) auto
    have "base + (rd64 m t - old) = rd64 m t + (base - old)" by simp
    with True have step: "rebase_entry h vb base b i m = m1"
      unfolding rebase_entry_def Let_def e_def [symmetric] Suc.prems(1,2) t_def [symmetric] m1_def by presburger
    have "reloc_entries h vb base b i (Suc n) m = reloc_entries h vb base b (Suc i) n m1"
      by (simp add: step)
    also have "\<dots> = rebase m1 (entry_targets vb pg (map (?rd m) [Suc i..<Suc i + n])) (base - old)"
      using Suc.IH [of m1 "Suc i", OF m1] apart_all unfolding rest ts by simp
    finally show ?thesis unfolding es ts by (simp add: m1_def)
  qed
qed

lemma EntriesCount_of_size: "8 + 2 * k < 2 ^ 32 \<Longrightarrow> unat (EntriesCount (of_nat (8 + 2 * k))) = k"
proof -
  assume k: "8 + 2 * k < 2 ^ 32"
  have "(ucast (of_nat (8 + 2 * k) :: u32) :: u64) = of_nat (8 + 2 * k)"
    by (rule word_unat_eq_iff [THEN iffD2]) (use k in \<open>simp add: unat_ucast_up unat_of_nat_u32 unat_of_nat_u64 del: of_nat_add of_nat_mult\<close>)
  then have "(ucast (of_nat (8 + 2 * k) :: u32) - 8 :: u64) = of_nat (2 * k)" by simp
  moreover have "unat (of_nat (2 * k) div 2 :: u64) = k"
    using k by (simp add: unat_div unat_of_nat take_bit_nat_eq_self del: of_nat_mult)
  ultimately show ?thesis
    using k by (simp add: EntriesCount_def unsigned_ucast_eq take_bit_nat_eq_self)
qed

lemma stored_blocks_agree:
  assumes "agree m m' a n" and "j + dir_size bs \<le> n" and "stored_blocks m (a + of_nat j) bs"
  shows "stored_blocks m' (a + of_nat j) bs"
  using assms(2,3)
proof (induction bs arbitrary: j)
  case Nil
  then show ?case by simp
next
  case (Cons blk bs)
  obtain pg es where blk: "blk = (pg, es)" by fastforce
  have n: "j + (8 + 2 * length es) + dir_size bs \<le> n" using Cons.prems(1) by (simp add: blk dir_size_def)
  have st: "pg \<noteq> 0" "8 + 2 * length es < 2 ^ 32" "PageRva m (a + of_nat j) = pg"
    "BlockSize m (a + of_nat j) = of_nat (8 + 2 * length es)"
    "map (\<lambda>i. rd16 m (a + of_nat j + 8 + 2 * of_nat i)) [0..<length es] = es"
    "stored_blocks m (a + of_nat j + of_nat (8 + 2 * length es)) bs"
    using Cons.prems(2) unfolding blk stored_blocks.simps by blast+
  have pb: "PageRva m' (a + of_nat j) = pg" "BlockSize m' (a + of_nat j) = of_nat (8 + 2 * length es)"
    using agree_rd(2) [OF assms(1), of j] agree_rd(2) [OF assms(1), of "j + 4"] n st(3,4)
    by (simp_all add: PageRva_def BlockSize_def add.assoc)
  have "rd16 m (a + of_nat j + 8 + 2 * of_nat i) = rd16 m' (a + of_nat j + 8 + 2 * of_nat i)" if "i < length es" for i
    using agree_rd(1) [OF assms(1), of "j + 8 + 2 * i"] n that by (simp add: add.assoc)
  then have "map (\<lambda>i. rd16 m (a + of_nat j + 8 + 2 * of_nat i)) [0..<length es] =
      map (\<lambda>i. rd16 m' (a + of_nat j + 8 + 2 * of_nat i)) [0..<length es]" by (intro map_cong) auto
  with st(5) have "map (\<lambda>i. rd16 m' (a + of_nat j + 8 + 2 * of_nat i)) [0..<length es] = es" by (rule trans [OF sym, rotated])
  moreover have "stored_blocks m' (a + of_nat j + of_nat (8 + 2 * length es)) bs"
    using Cons.IH [of "j + (8 + 2 * length es)"] n st(6) by (simp add: add.assoc)
  ultimately show ?case unfolding blk stored_blocks.simps using st(1,2) pb by blast
qed

lemma reloc_blocks_rebase:
  assumes "stored_blocks m (a + of_nat j) bs" and "j + dir_size bs = n" and "PageRva m (a + of_nat n) = 0"
    and "unat a + n < 2 ^ 64" and "hdr_ImageBase m h = old" and "length bs < fuel"
    and "\<And>t. t \<in> set (reloc_targets vb bs) \<Longrightarrow> apart a (n + 4) t 8 \<and> apart (h + 48) 8 t 8"
  shows "reloc_blocks fuel h vb base (a + of_nat j) (a + of_nat n) m = Inr (rebase m (reloc_targets vb bs) (base - old))"
  using assms
proof (induction bs arbitrary: j m fuel)
  case Nil
  then show ?case by (cases fuel) (simp_all add: dir_size_def reloc_targets_def)
next
  case (Cons blk bs)
  obtain pg es where blk: "blk = (pg, es)" by fastforce
  obtain k where fuel: "fuel = Suc k" using Cons.prems(6) by (cases fuel) simp_all
  let ?j = "j + (8 + 2 * length es)" and ?b = "a + of_nat j"
  have n: "?j + dir_size bs = n" using Cons.prems(2) by (simp add: blk dir_size_def)
  have st: "pg \<noteq> 0" "8 + 2 * length es < 2 ^ 32" "PageRva m ?b = pg" "BlockSize m ?b = of_nat (8 + 2 * length es)"
    "map (\<lambda>i. rd16 m (?b + 8 + 2 * of_nat i)) [0..<length es] = es" "stored_blocks m (a + of_nat ?j) bs"
    using Cons.prems(1) unfolding blk stored_blocks.simps by (simp_all add: add.assoc)
  have ts: "reloc_targets vb (blk # bs) = entry_targets vb pg es @ reloc_targets vb bs" by (simp add: blk reloc_targets_def)
  have ap: "apart a (n + 4) t 8" "apart (h + 48) 8 t 8" if "t \<in> set (entry_targets vb pg es @ reloc_targets vb bs)" for t
    using Cons.prems(7) that unfolding ts by blast+
  define m1 where "m1 = rebase m (entry_targets vb pg es) (base - old)"
  have ent: "reloc_entries h vb base ?b 0 (length es) m = m1"
    unfolding m1_def
    using reloc_entries_rebase [of m h old ?b pg vb 0 "length es" base, OF Cons.prems(5) st(3)] ap apart_shrink n st(5) by force
  have ag: "agree m m1 a (n + 4)" "agree m m1 (h + 48) 8"
    unfolding m1_def using ap by (auto intro!: agree_rebase)
  have IH: "reloc_blocks k h vb base (a + of_nat ?j) (a + of_nat n) m1 = Inr (rebase m1 (reloc_targets vb bs) (base - old))"
  proof (rule Cons.IH)
    show "stored_blocks m1 (a + of_nat ?j) bs" using stored_blocks_agree [OF ag(1) _ st(6)] n by simp
    show "PageRva m1 (a + of_nat n) = 0" using agree_rd(2) [OF ag(1), of n] Cons.prems(3) by (simp add: PageRva_def)
    show "hdr_ImageBase m1 h = old" using agree_rd(3) [OF ag(2), of 0] Cons.prems(5) by (simp add: hdr_ImageBase_def)
  qed (use n Cons.prems(4,6) ap fuel in auto)
  have "unat ?b = unat a + j" "unat (a + of_nat n) = unat a + n"
    using Cons.prems(2,4) by (simp_all add: unat_plus_of_nat)
  then have "\<not> ?b > a + of_nat n" using Cons.prems(2) by (simp add: word_less_nat_alt)
  moreover have u: "unat (BlockSize m ?b) = 8 + 2 * length es" using st(2) unfolding st(4) by (simp only: unat_of_nat_u32)
  then have "BlockSize m ?b \<noteq> 0" by (metis add_is_0 unat_0 zero_neq_numeral)
  moreover have "?b + ucast (BlockSize m ?b) = a + of_nat ?j"
  proof -
    have "(ucast (BlockSize m ?b) :: u64) = of_nat (unat (BlockSize m ?b))" by simp
    then show ?thesis unfolding u by (simp add: add.assoc)
  qed
  moreover have "unat (EntriesCount (BlockSize m ?b)) = length es" unfolding st(4) by (rule EntriesCount_of_size [OF st(2)])
  ultimately have "reloc_blocks fuel h vb base ?b (a + of_nat n) m = reloc_blocks k h vb base (a + of_nat ?j) (a + of_nat n) m1"
    using st(1,3) ent unfolding fuel by (simp add: add.assoc)
  then show ?case unfolding IH ts by (simp add: m1_def)
qed

lemma relocate_run:
  assumes "stored_blocks m start bs" and "start = VirtualBuffer + ucast (BaseRelocationTable_VA m h)"
    and "unat (BaseRelocationTable_Size m h) = dir_size bs" and "PageRva m (start + of_nat (dir_size bs)) = 0"
    and "unat start + dir_size bs < 2 ^ 64"
    and "\<forall>t \<in> set (reloc_targets VirtualBuffer bs). apart start (dir_size bs + 4) t 8 \<and> apart (h + 48) 8 t 8"
  shows "Pe64RelocateImage m h VirtualBuffer ImageBase =
     Inr (rebase m (reloc_targets VirtualBuffer bs) ((if ImageBase = 0 then VirtualBuffer else ImageBase) - hdr_ImageBase m h), KERNEL_SOK)"
proof -
  define base where "base = (if ImageBase = 0 then VirtualBuffer else ImageBase)"
  define n where "n = dir_size bs"
  have len: "length bs \<le> dir_size bs" by (induction bs) (auto simp: dir_size_def)
  have "(ucast (BaseRelocationTable_Size m h) :: u64) = of_nat (unat (BaseRelocationTable_Size m h))" by simp
  then have sz: "start + ucast (BaseRelocationTable_Size m h) = start + of_nat n" using assms(3) by (simp add: n_def)
  have "reloc_blocks (n + 2) h VirtualBuffer base (start + of_nat 0) (start + of_nat n) m =
      Inr (rebase m (reloc_targets VirtualBuffer bs) (base - hdr_ImageBase m h))"
    by (rule reloc_blocks_rebase) (use assms len in \<open>auto simp: n_def\<close>)
  then have "Pe64RelocateImage m h VirtualBuffer ImageBase =
      Inr (rebase m (reloc_targets VirtualBuffer bs) (base - hdr_ImageBase m h), KERNEL_SOK)"
    unfolding Pe64RelocateImage_def Let_def assms(2) [symmetric] sz base_def [symmetric] assms(3) n_def [symmetric] by simp
  then show ?thesis by (simp add: base_def)
qed

text \<open>
  C5. Relocating an image.  For a directory whose blocks are stored at the start of the relocation section, whose size is that
  of the blocks and which is followed by a zero page address, and whose targets overlap neither each other nor the directory nor
  the image base in the header, the loader returns success; every target holds its old value plus the difference between the
  new and the linked base, and no other byte of memory changes.
\<close>

theorem Pe64RelocateImage_rebases:
  assumes "stored_blocks m start bs" and "start = VirtualBuffer + ucast (BaseRelocationTable_VA m h)"
    and "unat (BaseRelocationTable_Size m h) = dir_size bs" and "PageRva m (start + of_nat (dir_size bs)) = 0"
    and "unat start + dir_size bs < 2 ^ 64"
    and "\<forall>t \<in> set (reloc_targets VirtualBuffer bs). apart start (dir_size bs + 4) t 8 \<and> apart (h + 48) 8 t 8"
    and "sorted_wrt (\<lambda>t u. apart t 8 u 8) (reloc_targets VirtualBuffer bs)"
  shows "\<exists>m'. Pe64RelocateImage m h VirtualBuffer ImageBase = Inr (m', KERNEL_SOK) \<and>
     (\<forall>t \<in> set (reloc_targets VirtualBuffer bs).
        rd64 m' t = rd64 m t + ((if ImageBase = 0 then VirtualBuffer else ImageBase) - hdr_ImageBase m h)) \<and>
     (\<forall>x. (\<forall>t \<in> set (reloc_targets VirtualBuffer bs). \<not> in_block x t 8) \<longrightarrow> m' x = m x)"
  using assms(7) unfolding relocate_run [OF assms(1-6)] by (auto simp: rebase_target rebase_outside)

text \<open>An image linked at \<open>0x140000000\<close>, its header at \<open>0x1000\<close>, with one relocation, loaded at \<open>0x10000\<close>.\<close>

definition demo_image :: bytes_mem where
  "demo_image = sparse [(0x10B1, 2), (0x10B4, 12), (0x10201, 0x10), (0x10204, 12), (0x10208, 8), (0x10209, 0xA0),
     (0x1033, 0x40), (0x1034, 1), (0x11008, 0x34), (0x11009, 0x12), (0x1100B, 0x40), (0x1100C, 1)]"

lemma demo_relocs:
  "stored_blocks demo_image 0x10200 [(0x1000, [0xA008, 0])]" "BaseRelocationTable_VA demo_image 0x1000 = 0x200"
  "BaseRelocationTable_Size demo_image 0x1000 = 12" "PageRva demo_image 0x1020C = 0"
  "hdr_ImageBase demo_image 0x1000 = 0x140000000" "rd64 demo_image 0x11008 = 0x140001234"
  subgoal by (simp add: demo_image_def mem_eval PageRva_def BlockSize_def)
  subgoal by (simp add: demo_image_def mem_eval BaseRelocationTable_VA_def)
  subgoal by (simp add: demo_image_def mem_eval BaseRelocationTable_Size_def)
  subgoal by (simp add: demo_image_def mem_eval PageRva_def)
  subgoal by (simp add: demo_image_def mem_eval hdr_ImageBase_def)
  subgoal by (simp add: demo_image_def mem_eval)
  done

lemma demo_targets: "reloc_targets 0x10000 [(0x1000, [0xA008, 0])] = [0x11008]" "dir_size [(0x1000, [0xA008, 0])] = 12"
  by (simp_all add: reloc_targets_def entry_targets_def entry_Type_def entry_Offset_def IMAGE_REL_BASED_DIR64_def dir_size_def)

lemma demo_apart: "apart 0x10200 16 0x11008 8" "apart (0x1000 + 48) 8 0x11008 8"
  by (rule apart_below; simp)+

theorem Pe64RelocateImage_rebases_witness:
  "\<exists>m'. Pe64RelocateImage demo_image 0x1000 0x10000 0 = Inr (m', KERNEL_SOK) \<and> rd64 m' 0x11008 = 0x11234"
proof -
  have "\<exists>m'. Pe64RelocateImage demo_image 0x1000 0x10000 0 = Inr (m', KERNEL_SOK) \<and>
      (\<forall>t \<in> set [0x11008]. rd64 m' t = rd64 demo_image t + ((if (0 :: u64) = 0 then 0x10000 else 0) - hdr_ImageBase demo_image 0x1000)) \<and>
      (\<forall>x. (\<forall>t \<in> set [0x11008]. \<not> in_block x t 8) \<longrightarrow> m' x = demo_image x)"
    unfolding demo_targets(1) [symmetric]
    by (rule Pe64RelocateImage_rebases [where start = "0x10200"])
       (simp_all only: demo_targets demo_relocs set_simps ball_simps demo_apart, simp_all add: demo_apart demo_relocs)
  then show ?thesis by (auto simp: demo_relocs)
qed

text \<open>
  The loop runs while \<open>NextBlock <= SectionEnd\<close>: for an empty directory it still reads a block, and applies it when what
  follows the directory looks like one.
\<close>

lemma reloc_past_end:
  assumes "BaseRelocationTable_Size m h = 0" and "PageRva m start \<noteq> 0" and "BlockSize m start = 10"
    and "start = VirtualBuffer + ucast (BaseRelocationTable_VA m h)" and "unat start < 2 ^ 64 - 10"
    and "entry_Type (rd16 m (start + 8)) = IMAGE_REL_BASED_DIR64"
    and "t = VirtualBuffer + ucast (PageRva m start) + ucast (entry_Offset (rd16 m (start + 8)))" and "ImageBase \<noteq> 0"
  shows "Pe64RelocateImage m h VirtualBuffer ImageBase = Inr (wr64 m t (ImageBase + (rd64 m t - hdr_ImageBase m h)), KERNEL_SOK)"
proof -
  have cnt: "unat (EntriesCount 10) = 1" by (simp add: EntriesCount_def)
  have "unat (start + of_nat 10) = unat start + 10" using assms(5) by (intro unat_plus_of_nat) simp
  then have gt: "start + 10 > start" by (simp add: word_less_nat_alt)
  define m1 where "m1 = wr64 m t (ImageBase + (rd64 m t - hdr_ImageBase m h))"
  have ent: "reloc_entries h VirtualBuffer ImageBase start 0 (unat (EntriesCount (BlockSize m start))) m = m1"
    using assms(6) unfolding assms(3) cnt One_nat_def reloc_entries.simps rebase_entry_def Let_def m1_def assms(7) by simp
  have nx: "start + ucast (BlockSize m start) = start + 10" unfolding assms(3) by simp
  have "reloc_blocks (Suc (Suc 0)) h VirtualBuffer ImageBase start start m = reloc_blocks (Suc 0) h VirtualBuffer ImageBase (start + 10) start m1"
    unfolding reloc_blocks.simps(2) [of "Suc 0"] ent nx using assms(2,3) by simp
  also have "\<dots> = Inr m1" using gt by simp
  finally have "reloc_blocks (Suc (Suc 0)) h VirtualBuffer ImageBase start start m = Inr m1" .
  then show ?thesis unfolding Pe64RelocateImage_def Let_def assms(4) [symmetric] using assms(1,8) by (simp add: m1_def del: reloc_blocks.simps)
qed

section \<open>What loading the sections does\<close>

lemma round_equal: "round_native v = round_dll v"
proof -
  have m: "v mod 0x1000 = v AND 0xFFF" for v :: u32
    using and_mask_mod [of v 12] by (simp add: word_unat_eq_iff unat_mod mask_eq_exp_minus_1 )
  have split: "(w AND NOT 0xFFF) = w - (w AND 0xFFF)" for w :: u32
  proof -
    have "w = (w AND NOT 0xFFF) + (w AND 0xFFF)" 
      by (subst disjunctive_add_eq_or) (auto simp: bit_simps intro!: bit_word_eqI)
    then show ?thesis by (simp add: eq_diff_eq)
  qed
  have "(v + 0x1000) AND 0xFFF = v AND 0xFFF"
  proof -
    have "unat (v + 0x1000) mod 4096 = (unat v + 4096) mod (4096 * 1048576) mod 4096" by (simp add: unat_word_ariths)
    then have "unat (v + 0x1000) mod 4096 = unat v mod 4096" by (simp only: mod_mult_self2_is_0 mod_mod_cancel dvd_triv_left mod_add_self2)
    then have "(v + 0x1000) mod 0x1000 = v mod 0x1000" by (simp add: word_unat_eq_iff unat_mod)
    then show ?thesis by (simp only: m)
  qed
  then show ?thesis unfolding round_native_def round_dll_def m split by simp
qed


text \<open>Where a section goes and what it holds there: its raw data, and zeros up to its virtual size.\<close>

definition sec_dest :: "bytes_mem \<Rightarrow> u64 \<Rightarrow> u64 \<Rightarrow> u64" where
  "sec_dest m VirtualBuffer s = VirtualBuffer + ucast (sec_VirtualAddress m s)"

definition sec_source :: "bytes_mem \<Rightarrow> u64 \<Rightarrow> u64 \<Rightarrow> u64" where
  "sec_source m ImageBuffer s = ImageBuffer + ucast (PtrToRawData m s)"

definition sec_length :: "bytes_mem \<Rightarrow> u64 \<Rightarrow> nat" where
  "sec_length m s = max (unat (SizeofRawData m s)) (unat (sec_VirtualSize m s))"

definition sec_bytes :: "bytes_mem \<Rightarrow> u64 \<Rightarrow> u64 \<Rightarrow> u8 list" where
  "sec_bytes m ImageBuffer s = get_bytes m (sec_source m ImageBuffer s) (unat (SizeofRawData m s)) @
     replicate (unat (sec_VirtualSize m s) - unat (SizeofRawData m s)) 0"

lemma length_sec_bytes [simp]: "length (sec_bytes m img s) = sec_length m s"
  by (simp add: sec_bytes_def sec_length_def)

lemma sec_length_le: "sec_length m s \<le> 2 ^ 64"
proof -
  have "unat v \<le> 2 ^ 64" for v :: u32 using unsigned_less [of v, where 'a = nat] by simp
  then show ?thesis by (simp add: sec_length_def)
qed

lemmas sec_fields = sec_VirtualSize_def sec_VirtualAddress_def SizeofRawData_def PtrToRawData_def sec_Characteristics_def

lemma sec_agree:
  assumes "agree m m' s 40"
  shows "sec_VirtualSize m' s = sec_VirtualSize m s" "sec_VirtualAddress m' s = sec_VirtualAddress m s"
    "SizeofRawData m' s = SizeofRawData m s" "PtrToRawData m' s = PtrToRawData m s" "loadable m' s = loadable m s"
    "sec_dest m' vb s = sec_dest m vb s" "sec_source m' img s = sec_source m img s" "sec_length m' s = sec_length m s"
proof -
  have rd: "rd32 m' (s + of_nat j) = rd32 m (s + of_nat j)" if "j + 4 \<le> 40" for j
    using agree_rd(2) [OF assms that] by simp
  show f: "sec_VirtualSize m' s = sec_VirtualSize m s" "sec_VirtualAddress m' s = sec_VirtualAddress m s"
    "SizeofRawData m' s = SizeofRawData m s" "PtrToRawData m' s = PtrToRawData m s"
    using rd [of 8] rd [of 12] rd [of 16] rd [of 20] by (simp_all add: sec_fields)
  show "loadable m' s = loadable m s" using rd [of 36] by (simp add: loadable_def sec_fields)
  show "sec_dest m' vb s = sec_dest m vb s" "sec_source m' img s = sec_source m img s" "sec_length m' s = sec_length m s"
    by (simp_all add: sec_dest_def sec_source_def sec_length_def f)
qed

lemma load_section_put:
  assumes "apart s 40 (sec_dest m vb s) (sec_length m s)"
    and "apart (sec_source m img s) (unat (SizeofRawData m s)) (sec_dest m vb s) (sec_length m s)"
  shows "load_section m vb img s = put_bytes m (sec_dest m vb s) (sec_bytes m img s)"
proof -
  let ?d = "sec_dest m vb s" and ?r = "unat (SizeofRawData m s)" and ?v = "unat (sec_VirtualSize m s)"
  define m1 where "m1 = put_bytes m ?d (get_bytes m (sec_source m img s) ?r)"
  have r: "?r < 2 ^ 64" "?v < 2 ^ 64" by (rule order_less_le_trans [OF unsigned_less], simp)+
  have rl: "?r \<le> sec_length m s" by (simp add: sec_length_def)
  have "apart ?d ?r (sec_source m img s) ?r" using assms(2) rl apart_sym apart_shrink [of ?d _ _ _ 0 ?r] by force
  then have cp: "mem_copy m ?d (sec_source m img s) ?r = m1" using r by (simp add: m1_def mem_copy_eq)
  have "apart s 40 ?d ?r" using assms(1) rl apart_sym apart_shrink [of ?d _ _ _ 0 ?r] by force
  then have "agree m m1 s 40" unfolding m1_def by (intro agree_put_bytes) simp
  note ag = sec_agree [OF this]
  show ?thesis
  proof (cases "sec_VirtualSize m s > SizeofRawData m s")
    case True
    then have lt: "?r < ?v" by (simp add: word_less_nat_alt)
    then have sub: "unat (sec_VirtualSize m s - SizeofRawData m s) = ?v - ?r" using True by (simp add: unat_sub)
    have "load_section m vb img s = mem_set m1 (?d + ucast (SizeofRawData m s)) 0 (?v - ?r)"
      using True unfolding load_section_def Let_def sec_source_def [symmetric] sec_dest_def [symmetric] cp by (simp add: ag sub)
    also have "\<dots> = put_bytes m1 (?d + of_nat ?r) (replicate (?v - ?r) 0)" using r by (simp add: mem_set_eq)
    also have "\<dots> = put_bytes m ?d (sec_bytes m img s)"
      using put_append [of "get_bytes m (sec_source m img s) ?r" "replicate (?v - ?r) 0" m ?d] r
      unfolding m1_def sec_bytes_def by simp
    finally show ?thesis .
  next
    case False
    then have "?v - ?r = 0" by (simp add: word_less_nat_alt)
    then have "sec_bytes m img s = get_bytes m (sec_source m img s) ?r" by (simp add: sec_bytes_def)
    moreover have "\<not> sec_VirtualSize m1 s > SizeofRawData m1 s" using False by (simp add: ag)
    ultimately show ?thesis
      unfolding load_section_def Let_def sec_source_def [symmetric] sec_dest_def [symmetric] cp by (simp add: m1_def)
  qed
qed


definition load_step :: "u64 \<Rightarrow> u64 \<Rightarrow> u64 \<Rightarrow> bytes_mem \<Rightarrow> bytes_mem" where
  "load_step vb img s m = (if loadable m s then load_section m vb img s else m)"

lemma load_sections_fold:
  "load_sections n m vb img s = fold (load_step vb img) (map (\<lambda>i. s + 40 * of_nat i) [0..<n]) m"
proof (induction n arbitrary: m s)
  case 0
  then show ?case by simp
next
  case (Suc n)
  have "map (\<lambda>i. s + 40 * of_nat i) [0..<Suc n] = s # map (\<lambda>i. s + 40 + 40 * of_nat i) [0..<n]"
    unfolding upt_conv_Cons [OF zero_less_Suc] map_Suc_upt [symmetric] by (simp add: algebra_simps)
  then show ?case by (simp add: Suc load_step_def)
qed

text \<open>
  An image is laid out soundly when the place of no loaded section overlaps a section header, the raw data of a section or the
  place of another section.
\<close>

definition layout_ok :: "bytes_mem \<Rightarrow> u64 \<Rightarrow> u64 \<Rightarrow> u64 list \<Rightarrow> bool" where
  "layout_ok m vb img ss \<longleftrightarrow>
     (\<forall>u \<in> set ss. loadable m u \<longrightarrow> (\<forall>s \<in> set ss. apart s 40 (sec_dest m vb u) (sec_length m u) \<and>
        (loadable m s \<longrightarrow> apart (sec_source m img s) (unat (SizeofRawData m s)) (sec_dest m vb u) (sec_length m u)))) \<and>
     sorted_wrt (\<lambda>s u. loadable m s \<longrightarrow> loadable m u \<longrightarrow>
        apart (sec_dest m vb s) (sec_length m s) (sec_dest m vb u) (sec_length m u)) ss"

lemma load_fold:
  assumes "layout_ok m vb img ss"
  shows "(\<forall>s \<in> set ss. loadable m s \<longrightarrow>
       get_bytes (fold (load_step vb img) ss m) (sec_dest m vb s) (sec_length m s) = sec_bytes m img s) \<and>
     (\<forall>x. (\<forall>s \<in> set ss. loadable m s \<longrightarrow> \<not> in_block x (sec_dest m vb s) (sec_length m s)) \<longrightarrow>
       fold (load_step vb img) ss m x = m x)"
  using assms
proof (induction ss arbitrary: m)
  case Nil
  then show ?case by simp
next
  case (Cons s ss)
  show ?case
  proof (cases "loadable m s")
    case False
    have "layout_ok m vb img ss" using Cons.prems by (simp add: layout_ok_def)
    with Cons.IH [of m] False show ?thesis by (simp add: load_step_def)
  next
    case True
    let ?d = "sec_dest m vb s" and ?l = "sec_length m s"
    define m1 where "m1 = put_bytes m ?d (sec_bytes m img s)"
    have ap: "apart u 40 ?d ?l" "loadable m u \<Longrightarrow> apart (sec_source m img u) (unat (SizeofRawData m u)) ?d ?l"
      if "u \<in> set (s # ss)" for u
      using Cons.prems True that unfolding layout_ok_def by (meson list.set_intros(1))+
    have m1: "load_step vb img s m = m1"
      using True load_section_put [OF ap(1) ap(2) [OF _ True]] by (simp add: load_step_def m1_def)
    have ag: "agree m m1 u 40" if "u \<in> set ss" for u unfolding m1_def using ap(1) that by (intro agree_put_bytes) simp
    note same = sec_agree [OF ag]
    have sb: "sec_bytes m1 img u = sec_bytes m img u" if "u \<in> set ss" "loadable m u" for u
    proof -
      have "get_bytes m1 (sec_source m img u) (unat (SizeofRawData m u)) = get_bytes m (sec_source m img u) (unat (SizeofRawData m u))"
        unfolding m1_def using ap(2) that by (intro get_put_apart) simp
      then show ?thesis by (simp add: sec_bytes_def same [OF that(1)])
    qed
    have "layout_ok m vb img ss" using Cons.prems by (simp add: layout_ok_def)
    then have ok: "layout_ok m1 vb img ss"
      unfolding layout_ok_def by (simp add: same sorted_wrt_iff_nth_less)
    have far: "apart ?d ?l (sec_dest m vb u) (sec_length m u)" if "u \<in> set ss" "loadable m u" for u
      using Cons.prems True that by (simp add: layout_ok_def)
    note IH = Cons.IH [OF ok, unfolded fold.simps]
    have first: "get_bytes (fold (load_step vb img) ss m1) ?d ?l = sec_bytes m img s"
    proof -
      have "get_bytes (fold (load_step vb img) ss m1) ?d ?l = get_bytes m1 ?d ?l"
      proof (rule get_bytes_cong)
        fix i assume "i < ?l"
        then have "\<not> in_block (?d + of_nat i) (sec_dest m1 vb u) (sec_length m1 u)" if "u \<in> set ss" "loadable m1 u" for u
          using far [of u] that by (simp add: same [OF that(1)] apart_def)
        then show "fold (load_step vb img) ss m1 (?d + of_nat i) = m1 (?d + of_nat i)" using IH by blast
      qed
      moreover have "?l \<le> 2 ^ 64" by (rule sec_length_le)
      ultimately show ?thesis unfolding m1_def by (simp add: get_put_bytes)
    qed
    have others: "get_bytes (fold (load_step vb img) ss m1) (sec_dest m vb u) (sec_length m u) = sec_bytes m img u"
      if "u \<in> set ss" "loadable m u" for u
      using IH that by (simp add: same sb)
    have frame: "fold (load_step vb img) ss m1 x = m x"
      if "\<forall>u \<in> set (s # ss). loadable m u \<longrightarrow> \<not> in_block x (sec_dest m vb u) (sec_length m u)" for x
    proof -
      have "fold (load_step vb img) ss m1 x = m1 x" using IH that by (simp add: same)
      also have "\<dots> = m x" unfolding m1_def using that True by (intro put_bytes_outside) simp
      finally show ?thesis .
    qed
    show ?thesis using first others frame by (simp add: m1)
  qed
qed

text \<open>The size of a section after the first loop.\<close>

definition rounded_size :: "(u32 \<Rightarrow> u32) \<Rightarrow> bytes_mem \<Rightarrow> u64 \<Rightarrow> u32" where
  "rounded_size rnd m s = (if loadable m s \<and> sec_VirtualSize m s \<noteq> 0 then rnd (sec_VirtualSize m s) else sec_VirtualSize m s)"

definition counted_size :: "(u32 \<Rightarrow> u32) \<Rightarrow> bytes_mem \<Rightarrow> u64 \<Rightarrow> nat" where
  "counted_size rnd m s = (if loadable m s then unat (rounded_size rnd m s) else 0)"

definition sections_from :: "u64 \<Rightarrow> nat \<Rightarrow> u64 list" where
  "sections_from s n = map (\<lambda>i. s + 40 * of_nat i) [0..<n]"

lemma sections_from_Suc: "sections_from s (Suc n) = s # sections_from (s + 40) n"
  unfolding sections_from_def upt_conv_Cons [OF zero_less_Suc] map_Suc_upt [symmetric] by (simp add: algebra_simps)

lemma wr32_section:
  "sec_VirtualSize (wr32 m (s + 8) v) s = v" "sec_VirtualAddress (wr32 m (s + 8) v) s = sec_VirtualAddress m s"
  "SizeofRawData (wr32 m (s + 8) v) s = SizeofRawData m s" "PtrToRawData (wr32 m (s + 8) v) s = PtrToRawData m s"
  "sec_Characteristics (wr32 m (s + 8) v) s = sec_Characteristics m s" "loadable (wr32 m (s + 8) v) s = loadable m s"
proof -
  have rd: "rd32 (wr32 m (s + 8) v) (s + of_nat j) = rd32 m (s + of_nat j)" if "12 \<le> j" "j \<le> 36" for j
    using apart_offsets [of 8 4 j 4 s] that apart_sym by (intro rd32_wr32_apart) simp
  show "sec_VirtualSize (wr32 m (s + 8) v) s = v" by (simp add: sec_fields)
  show "sec_VirtualAddress (wr32 m (s + 8) v) s = sec_VirtualAddress m s"
    "SizeofRawData (wr32 m (s + 8) v) s = SizeofRawData m s" "PtrToRawData (wr32 m (s + 8) v) s = PtrToRawData m s"
    using rd [of 12] rd [of 16] rd [of 20] by (simp_all add: sec_fields)
  show c: "sec_Characteristics (wr32 m (s + 8) v) s = sec_Characteristics m s" using rd [of 36] by (simp add: sec_fields)
  show "loadable (wr32 m (s + 8) v) s = loadable m s" by (simp add: loadable_def c)
qed

lemma measure_frame: "\<not> in_block x s (40 * n) \<Longrightarrow> fst (measure_sections rnd n m s len) x = m x"
proof (induction n arbitrary: m s len)
  case 0
  then show ?case by simp
next
  case (Suc n)
  have "\<not> in_block x (s + 40) (40 * n)" "\<not> in_block x (s + 8) 4"
    using in_block_sub [of x s 40 "40 * n" "40 * Suc n"] in_block_sub [of x s 8 4 "40 * Suc n"] Suc.prems by auto
  with Suc.IH show ?case by (simp add: Let_def wr32_def put_bytes_outside)
qed

definition measured :: "(u32 \<Rightarrow> u32) \<Rightarrow> bytes_mem \<Rightarrow> bytes_mem \<Rightarrow> u64 \<Rightarrow> bool" where
  "measured rnd m m' u \<longleftrightarrow> sec_VirtualSize m' u = rounded_size rnd m u \<and>
      sec_VirtualAddress m' u = sec_VirtualAddress m u \<and> SizeofRawData m' u = SizeofRawData m u \<and>
      PtrToRawData m' u = PtrToRawData m u \<and> loadable m' u = loadable m u"

lemma measured_agree: "agree m m1 u 40 \<Longrightarrow> measured rnd m1 m' u \<longleftrightarrow> measured rnd m m' u"
  "agree m' m2 u 40 \<Longrightarrow> measured rnd m m' u \<longleftrightarrow> measured rnd m m2 u"
  by (simp_all add: measured_def rounded_size_def sec_agree)

lemma measure_sections_spec:
  "measure_sections rnd n m s len = (m', len') \<Longrightarrow> 40 * n \<le> 2 ^ 64 \<Longrightarrow>
     len' = len + of_nat (sum_list (map (counted_size rnd m) (sections_from s n))) \<and>
     (\<forall>u \<in> set (sections_from s n). measured rnd m m' u)"
proof (induction n arbitrary: m s len)
  case 0
  then show ?case by (simp add: sections_from_def)
next
  case (Suc n)
  define m1 where "m1 = (if \<not> loadable m s \<or> sec_VirtualSize m s = 0 then m else wr32 m (s + 8) (rnd (sec_VirtualSize m s)))"
  have run: "measure_sections rnd n m1 (s + 40) (len + of_nat (counted_size rnd m s)) = (m', len')"
    using Suc.prems(1) by (auto simp: m1_def Let_def counted_size_def rounded_size_def wr32_section split: if_splits)
  have self: "measured rnd m m1 s" by (auto simp: m1_def measured_def rounded_size_def wr32_section)
  have rest: "agree m m1 u 40" if u: "u \<in> set (sections_from (s + 40) n)" for u
  proof -
    obtain i where i0: "i < n" "u = s + 40 + 40 * of_nat i" using u by (auto simp: sections_from_def)
    then have i: "i < n" "u = s + of_nat (40 + 40 * i)" by simp_all
    have "apart (s + of_nat 8) 4 u 40" unfolding i(2) using i(1) Suc.prems(2) by (intro apart_offsets) simp_all
    then show ?thesis unfolding m1_def using apart_sym by (auto simp: wr32_def intro!: agree_put_bytes)
  qed
  have "agree m1 m' s 40"
    unfolding agree_def
  proof (intro allI impI)
    fix x assume x: "in_block x s 40"
    have "apart (s + of_nat 0) 40 (s + of_nat 40) (40 * n)" using Suc.prems(2) by (intro apart_offsets) simp_all
    then have "\<not> in_block (s + of_nat 0 + of_nat (unat (x - s))) (s + of_nat 40) (40 * n)"
      using x unfolding apart_def in_block_def [of x s] by blast
    then show "m1 x = m' x" using measure_frame [of x "s + 40" n rnd m1 "len + of_nat (counted_size rnd m s)"] unfolding run by simp
  qed
  with self have s: "measured rnd m m' s" using measured_agree(2) by blast
  have "len' = len + of_nat (counted_size rnd m s) + of_nat (sum_list (map (counted_size rnd m1) (sections_from (s + 40) n))) \<and>
      (\<forall>u \<in> set (sections_from (s + 40) n). measured rnd m1 m' u)"
    using Suc.IH [OF run] Suc.prems(2) by simp
  moreover have "map (counted_size rnd m1) (sections_from (s + 40) n) = map (counted_size rnd m) (sections_from (s + 40) n)"
    using sec_agree [OF rest] by (intro map_cong) (simp_all add: counted_size_def rounded_size_def)
  moreover have "measured rnd m m' u" if "u \<in> set (sections_from (s + 40) n)" "measured rnd m1 m' u" for u
    using measured_agree(1) [OF rest [OF that(1)]] that(2) by blast
  ultimately show ?case using s by (simp add: sections_from_Suc add.assoc)
qed

text \<open>
  Images whose sections follow each other without gaps, as linkers with a section alignment of one page produce them: each
  loaded section starts where the rounded one before it ends, and its raw data fits.
\<close>

fun contiguous :: "(u32 \<Rightarrow> u32) \<Rightarrow> bytes_mem \<Rightarrow> u64 list \<Rightarrow> nat \<Rightarrow> bool" where
  "contiguous rnd m [] off \<longleftrightarrow> True"
| "contiguous rnd m (s # ss) off \<longleftrightarrow>
     (loadable m s \<longrightarrow> unat (sec_VirtualAddress m s) = off \<and> SizeofRawData m s \<le> rounded_size rnd m s) \<and>
     contiguous rnd m ss (off + counted_size rnd m s)"

lemma contiguous_range:
  assumes "contiguous rnd m ss off" and "u \<in> set ss" and "loadable m u"
  shows "off \<le> unat (sec_VirtualAddress m u) \<and>
     unat (sec_VirtualAddress m u) + unat (rounded_size rnd m u) \<le> off + sum_list (map (counted_size rnd m) ss) \<and>
     SizeofRawData m u \<le> rounded_size rnd m u"
  using assms
proof (induction ss arbitrary: off)
  case Nil
  then show ?case by simp
next
  case (Cons s ss)
  show ?case
  proof (cases "u = s")
    case True
    then show ?thesis using Cons.prems by (simp add: counted_size_def)
  next
    case False
    then show ?thesis using Cons.IH [of "off + counted_size rnd m s"] Cons.prems by simp
  qed
qed

lemma contiguous_apart:
  assumes "contiguous rnd m ss off" and "off + sum_list (map (counted_size rnd m) ss) \<le> 2 ^ 64"
  shows "sorted_wrt (\<lambda>s u. loadable m s \<longrightarrow> loadable m u \<longrightarrow>
     unat (sec_VirtualAddress m s) + unat (rounded_size rnd m s) \<le> unat (sec_VirtualAddress m u)) ss"
  using assms
proof (induction ss arbitrary: off)
  case Nil
  then show ?case by simp
next
  case (Cons s ss)
  have "off + counted_size rnd m s \<le> unat (sec_VirtualAddress m u)" if "u \<in> set ss" "loadable m u" for u
    using contiguous_range [of rnd m ss "off + counted_size rnd m s" u] Cons.prems that by simp
  then show ?case using Cons.IH [of "off + counted_size rnd m s"] Cons.prems by (auto simp: counted_size_def)
qed

lemma counted_sum_bound: "sum_list (map (counted_size rnd m) ss) \<le> length ss * 2 ^ 32"
proof (induction ss)
  case Nil
  then show ?case by simp
next
  case (Cons s ss)
  have "unat v \<le> 2 ^ 32" for v :: u32 using unsigned_less [of v, where 'a = nat] by simp
  then have "counted_size rnd m s \<le> 2 ^ 32" by (simp add: counted_size_def)
  with Cons show ?case by simp
qed

lemma load_sections_contiguous:
  assumes "measure_sections rnd n m s 0x1000 = (m1, len)" and "n < 2 ^ 16"
    and "contiguous rnd m (sections_from s n) 0x1000"
    and "\<forall>u \<in> set (sections_from s n). apart u 40 VirtualBuffer (unat len) \<and>
      (loadable m u \<longrightarrow> apart (sec_source m ImageBuffer u) (unat (SizeofRawData m u)) VirtualBuffer (unat len))"
  shows "(\<forall>u \<in> set (sections_from s n). loadable m u \<longrightarrow>
       get_bytes (load_sections n m1 VirtualBuffer ImageBuffer s) (VirtualBuffer + ucast (sec_VirtualAddress m u))
         (unat (rounded_size rnd m u)) =
       get_bytes m1 (ImageBuffer + ucast (PtrToRawData m u)) (unat (SizeofRawData m u)) @
         replicate (unat (rounded_size rnd m u) - unat (SizeofRawData m u)) 0) \<and>
     (\<forall>x. \<not> in_block x VirtualBuffer (unat len) \<longrightarrow> load_sections n m1 VirtualBuffer ImageBuffer s x = m1 x)"
proof -
  let ?ss = "sections_from s n" and ?vb = VirtualBuffer and ?img = ImageBuffer
  define total where "total = 0x1000 + sum_list (map (counted_size rnd m) ?ss)"
  have "total \<le> 0x1000 + 2 ^ 16 * 2 ^ 32"
    using counted_sum_bound [of rnd m ?ss] assms(2) by (simp add: total_def sections_from_def)
  then have t64: "total < 2 ^ 64" by simp
  have meas: "len = of_nat total" "\<And>u. u \<in> set ?ss \<Longrightarrow> measured rnd m m1 u"
    using measure_sections_spec [OF assms(1)] assms(2) by (simp_all add: total_def)
  have len: "unat len = total" using meas(1) t64 by simp
  note range = contiguous_range [OF assms(3), folded total_def]
  have m1: "sec_dest m1 ?vb u = ?vb + of_nat (unat (sec_VirtualAddress m u))"
    "sec_source m1 ?img u = sec_source m ?img u" "SizeofRawData m1 u = SizeofRawData m u" "loadable m1 u = loadable m u"
    "loadable m u \<Longrightarrow> sec_length m1 u = unat (rounded_size rnd m u)"
    "sec_VirtualSize m1 u = rounded_size rnd m u" if "u \<in> set ?ss" for u
    using meas(2) [OF that] range [OF that]
    by (auto simp: measured_def sec_dest_def sec_source_def sec_length_def word_le_nat_alt)
  have inside: "in_block x ?vb total" if "u \<in> set ?ss" "loadable m u" "in_block x (sec_dest m1 ?vb u) (sec_length m1 u)" for u x
    using that in_block_sub [of x ?vb "unat (sec_VirtualAddress m u)" "unat (rounded_size rnd m u)" total] range [OF that(1,2)]
    by (simp add: m1)
  have far: "apart a k (sec_dest m1 ?vb u) (sec_length m1 u)" if "apart a k ?vb total" "u \<in> set ?ss" "loadable m u" for a k u
    using that inside unfolding apart_def by blast
  have ok: "layout_ok m1 ?vb ?img ?ss"
    unfolding layout_ok_def
  proof (intro conjI ballI impI)
    fix u w assume "u \<in> set ?ss" "loadable m1 u" "w \<in> set ?ss"
    then show "apart w 40 (sec_dest m1 ?vb u) (sec_length m1 u)" using assms(4) far by (simp add: len m1)
  next
    fix u w assume "u \<in> set ?ss" "loadable m1 u" "w \<in> set ?ss" "loadable m1 w"
    then show "apart (sec_source m1 ?img w) (unat (SizeofRawData m1 w)) (sec_dest m1 ?vb u) (sec_length m1 u)"
      using assms(4) far by (simp add: len m1)
  next
    have le: "0x1000 + sum_list (map (counted_size rnd m) ?ss) \<le> 2 ^ 64" using t64 by (simp add: total_def)
    show "sorted_wrt (\<lambda>w u. loadable m1 w \<longrightarrow> loadable m1 u \<longrightarrow>
        apart (sec_dest m1 ?vb w) (sec_length m1 w) (sec_dest m1 ?vb u) (sec_length m1 u)) ?ss"
    proof (rule sorted_wrt_mono_rel [OF _ contiguous_apart [OF assms(3) le]])
      fix w u assume wu: "w \<in> set ?ss" "u \<in> set ?ss"
        and ord: "loadable m w \<longrightarrow> loadable m u \<longrightarrow> unat (sec_VirtualAddress m w) + unat (rounded_size rnd m w) \<le> unat (sec_VirtualAddress m u)"
      show "loadable m1 w \<longrightarrow> loadable m1 u \<longrightarrow>
          apart (sec_dest m1 ?vb w) (sec_length m1 w) (sec_dest m1 ?vb u) (sec_length m1 u)"
        using wu ord range [OF wu(2)] t64 by (auto simp: m1 intro!: apart_offsets simp del: of_nat_unat)
    qed
  qed
  have run: "load_sections n m1 ?vb ?img s = fold (load_step ?vb ?img) ?ss m1"
    by (simp add: load_sections_fold sections_from_def)
  show ?thesis
  proof (intro conjI ballI impI allI)
    fix u assume u: "u \<in> set ?ss" "loadable m u"
    then have "get_bytes (load_sections n m1 ?vb ?img s) (sec_dest m1 ?vb u) (sec_length m1 u) = sec_bytes m1 ?img u"
      using load_fold [OF ok] by (simp add: run m1)
    then show "get_bytes (load_sections n m1 ?vb ?img s) (?vb + ucast (sec_VirtualAddress m u)) (unat (rounded_size rnd m u)) =
        get_bytes m1 (?img + ucast (PtrToRawData m u)) (unat (SizeofRawData m u)) @
        replicate (unat (rounded_size rnd m u) - unat (SizeofRawData m u)) 0"
      using u by (simp add: m1 sec_bytes_def) (simp add: sec_source_def)
  next
    fix x assume "\<not> in_block x ?vb (unat len)"
    then have "\<forall>u \<in> set ?ss. loadable m1 u \<longrightarrow> \<not> in_block x (sec_dest m1 ?vb u) (sec_length m1 u)"
      using inside m1(4) unfolding len by blast
    then show "load_sections n m1 ?vb ?img s x = m1 x" using load_fold [OF ok] unfolding run by blast
  qed
qed

text \<open>
  C8. Loading the sections.  For an image whose sections are contiguous from the second page on and a buffer of the computed
  length that overlaps neither the section table nor the raw data, every loaded section ends up at its virtual address with
  its raw data followed by zeros up to its rounded size, and no byte outside the buffer is written.
\<close>

theorem load_sections_fills_buffer:
  assumes "measure_sections rnd n m s 0x1000 = (m1, len)" and "n < 2 ^ 16"
    and "contiguous rnd m (sections_from s n) 0x1000"
    and "\<forall>u \<in> set (sections_from s n). apart u 40 VirtualBuffer (unat len) \<and>
      (loadable m u \<longrightarrow> apart (sec_source m ImageBuffer u) (unat (SizeofRawData m u)) VirtualBuffer (unat len))"
  shows "(\<forall>u \<in> set (sections_from s n). loadable m u \<longrightarrow>
       get_bytes (load_sections n m1 VirtualBuffer ImageBuffer s) (VirtualBuffer + ucast (sec_VirtualAddress m u))
         (unat (rounded_size rnd m u)) =
       get_bytes m1 (ImageBuffer + ucast (PtrToRawData m u)) (unat (SizeofRawData m u)) @
         replicate (unat (rounded_size rnd m u) - unat (SizeofRawData m u)) 0) \<and>
     (\<forall>x. \<not> in_block x VirtualBuffer (unat len) \<longrightarrow> load_sections n m1 VirtualBuffer ImageBuffer s x = m1 x)"
  using assms by (rule load_sections_contiguous)

text \<open>One section of 16 bytes at the second page, 4 of them in the file.\<close>

definition demo_sections :: bytes_mem where
  "demo_sections = sparse [(0x1110, 0x10), (0x1115, 0x10), (0x1118, 4), (0x111D, 4), (0x112C, 0x20),
     (0x1400, 0xDE), (0x1401, 0xAD), (0x1402, 0xBE), (0x1403, 0xEF)]"

lemma demo_section_fields:
  "sec_VirtualSize demo_sections 0x1108 = 0x10" "sec_VirtualAddress demo_sections 0x1108 = 0x1000"
  "SizeofRawData demo_sections 0x1108 = 4" "PtrToRawData demo_sections 0x1108 = 0x400" "loadable demo_sections 0x1108"
  by (simp_all add: demo_sections_def mem_eval sec_fields loadable_def PE_SECTION_CODE_def PE_SECTION_INITIALIZED_DATA_def
        PE_SECTION_UNINITIALIZED_DATA_def)

lemma demo_measure:
  "measure_sections round_dll 1 demo_sections 0x1108 0x1000 = (wr32 demo_sections 0x1110 0x1000, 0x2000)"
  "rounded_size round_dll demo_sections 0x1108 = 0x1000" "sections_from 0x1108 1 = [0x1108]"
  using wr32_section [of demo_sections "0x1108" "0x1000"]
  by (simp_all add: One_nat_def demo_section_fields round_dll_def rounded_size_def sections_from_def Let_def)

theorem load_sections_fills_buffer_witness:
  "get_bytes (load_sections 1 (wr32 demo_sections 0x1110 0x1000) 0x10000 0x1000 0x1108) 0x11000 0x1000 =
     get_bytes (wr32 demo_sections 0x1110 0x1000) 0x1400 4 @ replicate 0xFFC 0"
proof -
  have "apart 0x1108 40 0x10000 0x2000" "apart 0x1400 4 0x10000 0x2000" by (rule apart_below; simp)+
  then show ?thesis
    using load_sections_fills_buffer [OF demo_measure(1), of "0x10000" "0x1000"]
    by (simp add: demo_measure(2) demo_section_fields sections_from_def sec_source_def)
qed

end
