(* ===== verification/Pe_Imports.thy ===== *)
theory Pe_Imports
  imports Pe_Image
begin

text \<open>
  The binding of imports to exports, the loop in the middle of \<open>Pe64LoadDll\<close> (\<open>loaders/pe64_dll.c\<close>): for each entry of the import
  lookup table the export of the same name, or of the given ordinal, and its address into the import address table.  The loop
  ends at the zero entry of the table and \<open>strlen\<close> at the zero of a name; both have a fuel.  A name that the library does
  not export makes the code loop for ever, one of the same length as an exported one leads to \<open>memcmp\<close>.
\<close>

section \<open>The binding loop\<close>

fun mem_strlen :: "nat \<Rightarrow> bytes_mem \<Rightarrow> u64 \<Rightarrow> nat outcome" where
  "mem_strlen 0 m a = Inl Hang"
| "mem_strlen (Suc n) m a = (if m a = 0 then Inr 0 else andThen (mem_strlen n m (a + 1)) (\<lambda>k. Inr (Suc k)))"

definition IMAGE_ORDINAL_IMPORT_FLAG :: u64 where "IMAGE_ORDINAL_IMPORT_FLAG = 0x8000000000000000"
definition IMAGE_ORDINAL_NUMBER :: "u64 \<Rightarrow> u16" where "IMAGE_ORDINAL_NUMBER e = ucast (e AND 0xFFFF)"
definition IMAGE_HINT_NAME_RVA :: "u64 \<Rightarrow> u32" where "IMAGE_HINT_NAME_RVA e = ucast (e AND 0x7FFFFFFF)"

text \<open>\<open>IMAGE_EXPORT_DIRECTORY\<close>.\<close>

definition OrdinalBase :: "bytes_mem \<Rightarrow> u64 \<Rightarrow> u32" where "OrdinalBase m ed = rd32 m (ed + 16)"
definition NumNamePointers :: "bytes_mem \<Rightarrow> u64 \<Rightarrow> u32" where "NumNamePointers m ed = rd32 m (ed + 24)"
definition ExportAddressTableRva :: "bytes_mem \<Rightarrow> u64 \<Rightarrow> u32" where "ExportAddressTableRva m ed = rd32 m (ed + 28)"
definition NamePointerRva :: "bytes_mem \<Rightarrow> u64 \<Rightarrow> u32" where "NamePointerRva m ed = rd32 m (ed + 32)"
definition OrdinalTableRva :: "bytes_mem \<Rightarrow> u64 \<Rightarrow> u32" where "OrdinalTableRva m ed = rd32 m (ed + 36)"

text \<open>The tables of the library as addresses, computed once before the loop.\<close>

record export_tables =
  et_VirtualBuffer :: u64
  et_DllVirtualBase :: u64
  et_Directory :: u64
  NamePtr :: u64
  ExportOrdinalTable :: u64
  ExportAddressTable :: u64

definition export_name :: "bytes_mem \<Rightarrow> export_tables \<Rightarrow> nat \<Rightarrow> u64" where
  "export_name m et i = et_VirtualBuffer et + ucast (rd32 m (NamePtr et + 4 * of_nat i))"

definition export_rva :: "bytes_mem \<Rightarrow> export_tables \<Rightarrow> nat \<Rightarrow> u32" where
  "export_rva m et i = rd32 m (ExportAddressTable et + 4 * ucast (rd16 m (ExportOrdinalTable et + 2 * of_nat i)))"

text \<open>The search for the name of \<open>len\<close> bytes at \<open>name\<close>, from export \<open>i\<close> on.\<close>

fun find_name :: "nat \<Rightarrow> bytes_mem \<Rightarrow> export_tables \<Rightarrow> u64 \<Rightarrow> nat \<Rightarrow> nat \<Rightarrow> nat \<Rightarrow> nat option outcome" where
  "find_name fuel m et name len i 0 = Inr None"
| "find_name fuel m et name len i (Suc n) =
     andThen (mem_strlen fuel m (export_name m et i)) (\<lambda>l.
     andThen (if l = len then memcmp (get_bytes m (export_name m et i) len) (get_bytes m name len) else Inr False) (\<lambda>same.
     if same then Inr (Some i) else find_name fuel m et name len (Suc i) n))"

definition link_entry :: "nat \<Rightarrow> u64 \<Rightarrow> export_tables \<Rightarrow> u64 \<Rightarrow> u64 \<Rightarrow> bytes_mem \<Rightarrow> bytes_mem outcome" where
  "link_entry fuel ProgramVirtualBuffer et LookupEntry ImportAddress m =
     (if LookupEntry AND IMAGE_ORDINAL_IMPORT_FLAG \<noteq> 0 then
        (let Rva = rd32 m (ExportAddressTable et + 4 * ucast (IMAGE_ORDINAL_NUMBER LookupEntry))
         in Inr (wr64 m ImportAddress (et_VirtualBuffer et + ucast Rva)))
      else
        (let name = ProgramVirtualBuffer + ucast (IMAGE_HINT_NAME_RVA LookupEntry) + 2
         in andThen (mem_strlen fuel m name) (\<lambda>len.
            andThen (find_name fuel m et name len 0 (unat (NumNamePointers m (et_Directory et)))) (\<lambda>found.
            case found of None \<Rightarrow> Inl Hang
            | Some i \<Rightarrow> Inr (wr64 m ImportAddress (et_DllVirtualBase et + ucast (export_rva m et i)))))))"

fun link_imports :: "nat \<Rightarrow> nat \<Rightarrow> u64 \<Rightarrow> export_tables \<Rightarrow> u64 \<Rightarrow> u64 \<Rightarrow> bytes_mem \<Rightarrow> bytes_mem outcome" where
  "link_imports fuel 0 prog et ilt iat m = Inl Hang"
| "link_imports fuel (Suc n) prog et ilt iat m =
     (if rd64 m ilt = 0 then Inr m
      else andThen (link_entry fuel prog et (rd64 m ilt) iat m) (\<lambda>m'.
           link_imports fuel n prog et (ilt + 8) (iat + 8) m'))"

section \<open>What binding does\<close>

text \<open>
  An import by name never returns, whatever the fuel: a name of the same length leads to \<open>memcmp\<close>, none of it to the endless loop
  for a symbol that was not found.
\<close>

lemma mem_strlen_fault: "mem_strlen n m a = Inl e \<Longrightarrow> e = Hang"
  by (induction n m a rule: mem_strlen.induct) (auto simp: andThen_def split: sum.splits if_splits)

lemma find_name_never: "find_name fuel m et name len i n = Inr None \<or> find_name fuel m et name len i n = Inl Hang"
proof (induction n arbitrary: i)
  case (Suc n)
  show ?case
  proof (cases "mem_strlen fuel m (export_name m et i)")
    case (Inl e)
    then show ?thesis using mem_strlen_fault by fastforce
  next
    case (Inr l)
    then show ?thesis using Suc [of "Suc i"] by (cases "l = len") (simp_all add: memcmp_def)
  qed
qed simp

lemma link_entry_by_name: "e AND IMAGE_ORDINAL_IMPORT_FLAG = 0 \<Longrightarrow> link_entry fuel prog et e ia m = Inl Hang"
proof -
  assume e: "e AND IMAGE_ORDINAL_IMPORT_FLAG = 0"
  show ?thesis
  proof (cases "mem_strlen fuel m (prog + ucast (IMAGE_HINT_NAME_RVA e) + 2)")
    case (Inl x)
    then show ?thesis using e mem_strlen_fault by (fastforce simp: link_entry_def)
  next
    case (Inr len)
    then show ?thesis
      using e find_name_never [of fuel m et "prog + ucast (IMAGE_HINT_NAME_RVA e) + 2" len 0 "unat (NumNamePointers m (et_Directory et))"]
      by (auto simp: link_entry_def Let_def)
  qed
qed

text \<open>
  The lookup table at \<open>ilt\<close> begins with imports by the ordinals \<open>os\<close>.  Neither they nor the export addresses they name lie in the
  block of \<open>l\<close> bytes at \<open>t\<close>.
\<close>

definition ordinals_at :: "bytes_mem \<Rightarrow> export_tables \<Rightarrow> u64 \<Rightarrow> u16 list \<Rightarrow> u64 \<Rightarrow> nat \<Rightarrow> bool" where
  "ordinals_at m et ilt os t l \<longleftrightarrow>
     (\<forall>k < length os. rd64 m (ilt + 8 * of_nat k) AND IMAGE_ORDINAL_IMPORT_FLAG \<noteq> 0 \<and>
        IMAGE_ORDINAL_NUMBER (rd64 m (ilt + 8 * of_nat k)) = os ! k \<and> apart (ilt + 8 * of_nat k) 8 t l \<and>
        apart (ExportAddressTable et + 4 * ucast (os ! k)) 4 t l)"

definition ordinal_address :: "bytes_mem \<Rightarrow> export_tables \<Rightarrow> u16 \<Rightarrow> u64" where
  "ordinal_address m et ord = et_VirtualBuffer et + ucast (rd32 m (ExportAddressTable et + 4 * ucast ord))"

lemma ordinals_at_equal:
  assumes eq: "equal_outside m m' t l" and os: "ordinals_at m et ilt os t l"
  shows "ordinals_at m' et ilt os t l" "k < length os \<Longrightarrow> ordinal_address m' et (os ! k) = ordinal_address m et (os ! k)"
proof -
  note ag = equal_outside_agree [OF eq]
  have "rd64 m' (ilt + 8 * of_nat k) = rd64 m (ilt + 8 * of_nat k)" if "k < length os" for k
    using os that agree_0(3) [OF ag, of "ilt + 8 * of_nat k" 8] by (simp add: ordinals_at_def)
  then show "ordinals_at m' et ilt os t l" using os unfolding ordinals_at_def by simp
  show "ordinal_address m' et (os ! k) = ordinal_address m et (os ! k)" if "k < length os"
    using os that agree_0(2) [OF ag, of "ExportAddressTable et + 4 * ucast (os ! k)" 4] by (simp add: ordinals_at_def ordinal_address_def)
qed

text \<open>The loop passes the ordinals: it goes on behind them in a memory that has their addresses and is otherwise the same.\<close>

lemma link_ordinals:
  assumes "ordinals_at m et ilt os iat (8 * length os)" and "8 * length os \<le> 2 ^ 64" and "k + j = length os" and "j \<le> n"
  shows "\<exists>m'. link_imports fuel n prog et (ilt + 8 * of_nat k) (iat + 8 * of_nat k) m =
       link_imports fuel (n - j) prog et (ilt + 8 * of_nat (length os)) (iat + 8 * of_nat (length os)) m' \<and>
     (\<forall>i. k \<le> i \<and> i < length os \<longrightarrow> rd64 m' (iat + 8 * of_nat i) = ordinal_address m et (os ! i)) \<and>
     equal_outside m m' (iat + 8 * of_nat k) (8 * j)"
  using assms
proof (induction j arbitrary: k m n)
  case 0
  then show ?case by (intro exI [of _ m]) (auto simp: equal_outside_def)
next
  case (Suc j)
  obtain n' where n: "n = Suc n'" using Suc.prems(4) by (cases n) simp_all
  have k: "k < length os" using Suc.prems(3) by simp
  let ?ia = "iat + 8 * of_nat k" and ?ia' = "iat + 8 * of_nat (Suc k)"
  define m1 where "m1 = wr64 m ?ia (ordinal_address m et (os ! k))"
  have out: "equal_outside m m1 iat (8 * length os)" "equal_outside m m1 ?ia (8 * Suc j)"
    using in_block_sub [of _ iat "8 * k" 8 "8 * length os"] in_block_sub [of _ ?ia 0 8 "8 * Suc j"] k
    unfolding m1_def by (auto intro!: equal_outside_wr64)
  have e: "rd64 m (ilt + 8 * of_nat k) AND IMAGE_ORDINAL_IMPORT_FLAG \<noteq> 0" "rd64 m (ilt + 8 * of_nat k) \<noteq> 0"
    "IMAGE_ORDINAL_NUMBER (rd64 m (ilt + 8 * of_nat k)) = os ! k"
    using Suc.prems(1) k by (auto simp: ordinals_at_def)
  then have ent: "link_entry fuel prog et (rd64 m (ilt + 8 * of_nat k)) ?ia m = Inr m1"
    by (simp add: link_entry_def m1_def ordinal_address_def)
  have "a + 8 * of_nat (Suc k) = (a + 8 * of_nat k + 8 :: u64)" for a by (simp add: algebra_simps)
  then have step: "link_imports fuel n prog et (ilt + 8 * of_nat k) ?ia m = link_imports fuel n' prog et (ilt + 8 * of_nat (Suc k)) ?ia' m1"
    using e(2) unfolding n by (simp only: link_imports.simps ent if_False andThen_simps)
  note os1 = ordinals_at_equal [OF out(1) Suc.prems(1)]
  obtain m' where m': "link_imports fuel n' prog et (ilt + 8 * of_nat (Suc k)) ?ia' m1 =
       link_imports fuel (n' - j) prog et (ilt + 8 * of_nat (length os)) (iat + 8 * of_nat (length os)) m'"
    "\<forall>i. Suc k \<le> i \<and> i < length os \<longrightarrow> rd64 m' (iat + 8 * of_nat i) = ordinal_address m1 et (os ! i)"
    "equal_outside m1 m' ?ia' (8 * j)"
    using Suc.IH [OF os1(1) Suc.prems(2), of "Suc k" n'] Suc.prems(3,4) n by auto
  have "apart (iat + of_nat (8 * k)) 8 (iat + of_nat (8 * Suc k)) (8 * j)"
    using Suc.prems(2,3) by (intro apart_offsets) simp_all
  then have "agree m1 m' ?ia 8" using equal_outside_agree [OF m'(3)] by simp
  then have first: "rd64 m' ?ia = ordinal_address m et (os ! k)" using agree_0(3) [of m1 m' ?ia 8] by (simp add: m1_def)
  have "equal_outside m m' ?ia (8 * Suc j)"
    unfolding equal_outside_def
  proof (intro allI impI)
    fix x assume x: "\<not> in_block x ?ia (8 * Suc j)"
    then have "\<not> in_block x ?ia' (8 * j)" using in_block_sub [of x ?ia 8 "8 * j" "8 * Suc j"] by (auto simp: algebra_simps)
    then show "m x = m' x" using x out(2) m'(3) by (simp add: equal_outside_def)
  qed
  moreover have "rd64 m' (iat + 8 * of_nat i) = ordinal_address m et (os ! i)" if "k \<le> i" "i < length os" for i
    using that first m'(2) os1(2) by (cases "i = k") simp_all
  ultimately show ?case using m'(1) step n by auto
qed

text \<open>
  C15. Binding imports.  When the lookup table holds imports by ordinal only, none of them or of the export addresses they name
  overlapping the import address table, then any fuel above their number is enough for the loop to end: each address entry holds the
  loader's buffer of the library plus the export address with the ordinal as index (not reduced by the ordinal base), and no
  other byte changes.  A table with an import by name behind any number of imports by ordinal is never bound: the loop does
  not return, for any fuel, whether or not the library exports the name.
\<close>

theorem link_imports_binds:
  assumes "ordinals_at m et ilt os iat (8 * length os)" and "8 * length os \<le> 2 ^ 64" and "e = rd64 m (ilt + 8 * of_nat (length os))"
    and "apart (ilt + 8 * of_nat (length os)) 8 iat (8 * length os)"
  shows "(e = 0 \<longrightarrow> (\<forall>n > length os. \<exists>m'. link_imports fuel n prog et ilt iat m = Inr m' \<and>
        (\<forall>i < length os. rd64 m' (iat + 8 * of_nat i) =
           et_VirtualBuffer et + ucast (rd32 m (ExportAddressTable et + 4 * ucast (os ! i)))) \<and>
        (\<forall>x. \<not> in_block x iat (8 * length os) \<longrightarrow> m' x = m x))) \<and>
     (e \<noteq> 0 \<and> e AND IMAGE_ORDINAL_IMPORT_FLAG = 0 \<longrightarrow> (\<forall>n. link_imports fuel n prog et ilt iat m = Inl Hang))"
proof -
  have run: "\<exists>m' k. link_imports fuel n prog et ilt iat m = link_imports fuel k prog et (ilt + 8 * of_nat (length os)) (iat + 8 * of_nat (length os)) m' \<and>
      k = n - length os \<and> (\<forall>i < length os. rd64 m' (iat + 8 * of_nat i) = ordinal_address m et (os ! i)) \<and>
      equal_outside m m' iat (8 * length os) \<and> rd64 m' (ilt + 8 * of_nat (length os)) = e"
    if n: "length os \<le> n" for n
  proof -
    obtain m' where m': "link_imports fuel n prog et (ilt + 8 * of_nat 0) (iat + 8 * of_nat 0) m =
       link_imports fuel (n - length os) prog et (ilt + 8 * of_nat (length os)) (iat + 8 * of_nat (length os)) m'"
      "\<forall>i. 0 \<le> i \<and> i < length os \<longrightarrow> rd64 m' (iat + 8 * of_nat i) = ordinal_address m et (os ! i)"
      "equal_outside m m' (iat + 8 * of_nat 0) (8 * length os)"
      using link_ordinals [OF assms(1,2), of 0 "length os" n fuel prog] n by auto
    then have "agree m m' (ilt + 8 * of_nat (length os)) 8" using equal_outside_agree assms(4) by simp
    then show ?thesis using m' agree_0(3) assms(3) by (intro exI [of _ m'] exI [of _ "n - length os"]) auto
  qed
  have by_name: "link_imports fuel k prog et a b m' = Inl Hang" if "rd64 m' a \<noteq> 0" "rd64 m' a AND IMAGE_ORDINAL_IMPORT_FLAG = 0" for k a b m'
    using that by (cases k) (simp_all add: link_entry_by_name)
  have short: "link_imports fuel n prog et ilt iat m = Inl Hang" if "n < length os" for n
  proof -
    have sh: "apart a k iat (8 * n)" if "apart a k iat (8 * length os)" for a k
      using apart_shrink [of iat "8 * length os" a k 0 "8 * n"] that \<open>n < length os\<close> by (simp add: apart_sym)
    have "ordinals_at m et ilt (take n os) iat (8 * length (take n os))" "8 * length (take n os) \<le> 2 ^ 64"
      using assms(1,2) that sh by (auto simp: ordinals_at_def min_absorb2)
    from link_ordinals [OF this, of 0 n n fuel prog] that show ?thesis by (auto simp: min_absorb2)
  qed
  show ?thesis
  proof (intro conjI impI allI)
    fix n assume "e = 0" and n: "length os < n"
    then obtain k where "n - length os = Suc k" by (metis Suc_diff_Suc)
    then show "\<exists>m'. link_imports fuel n prog et ilt iat m = Inr m' \<and>
        (\<forall>i < length os. rd64 m' (iat + 8 * of_nat i) =
           et_VirtualBuffer et + ucast (rd32 m (ExportAddressTable et + 4 * ucast (os ! i)))) \<and>
        (\<forall>x. \<not> in_block x iat (8 * length os) \<longrightarrow> m' x = m x)"
      using run [of n] n \<open>e = 0\<close> by (auto simp: ordinal_address_def equal_outside_def)
  next
    fix n assume "e \<noteq> 0 \<and> e AND IMAGE_ORDINAL_IMPORT_FLAG = 0"
    then show "link_imports fuel n prog et ilt iat m = Inl Hang"
      using run [of n] short [of n] by_name by (cases "length os \<le> n") fastforce+
  qed
qed

text \<open>
  A library at \<open>0x20000\<close> whose export address table has \<open>0x500\<close> and \<open>0x600\<close>, and a program whose lookup table imports ordinal 1 and
  then a name.
\<close>

definition demo_tables :: export_tables where
  "demo_tables = \<lparr> et_VirtualBuffer = 0x20000, et_DllVirtualBase = 0x6000000000, et_Directory = 0x20100,
     NamePtr = 0x20200, ExportOrdinalTable = 0x20300, ExportAddressTable = 0x20400 \<rparr>"

definition demo_program :: "u8 \<Rightarrow> bytes_mem" where
  "demo_program next = sparse [(0x20401, 5), (0x20405, 6), (0x10100, 1), (0x10107, 0x80), (0x10109, next)]"

lemma demo_ordinals: "ordinals_at (demo_program b) demo_tables 0x10100 [1] 0x10800 (8 * length [1 :: u16])"
proof -
  have "apart 0x10100 8 0x10800 8" using apart_below [of "0x10100" 8 "0x10800" 8] by simp
  moreover have "apart 0x20404 4 0x10800 8" using apart_below [of "0x10800" 8 "0x20404" 4] apart_sym by simp
  moreover have "rd64 (demo_program b) 0x10100 = 0x8000000000000001" by (simp add: demo_program_def mem_eval)
  ultimately show ?thesis
    by (simp add: ordinals_at_def demo_tables_def IMAGE_ORDINAL_IMPORT_FLAG_def IMAGE_ORDINAL_NUMBER_def)
qed

theorem link_imports_binds_witness:
  "(\<exists>m'. link_imports 2 2 0x10000 demo_tables 0x10100 0x10800 (demo_program 0) = Inr m' \<and> rd64 m' 0x10800 = 0x20600) \<and>
   link_imports 9 9 0x10000 demo_tables 0x10100 0x10800 (demo_program 3) = Inl Hang"
proof -
  have ap: "apart (0x10100 + 8 * of_nat (length [1 :: u16])) 8 0x10800 (8 * length [1 :: u16])"
    using apart_below [of "0x10108" 8 "0x10800" 8] by simp
  have r: "rd64 (demo_program 0) 0x10108 = 0" "rd64 (demo_program 3) 0x10108 = 0x300" "rd32 (demo_program 0) 0x20404 = 0x600"
    by (simp_all add: demo_program_def mem_eval)
  have l: "8 * length [1 :: u16] \<le> 2 ^ 64" by simp
  from link_imports_binds [OF demo_ordinals l refl ap, of 0 2 "0x10000"] r(1,3)
  have "\<exists>m'. link_imports 2 2 0x10000 demo_tables 0x10100 0x10800 (demo_program 0) = Inr m' \<and> rd64 m' 0x10800 = 0x20600"
    by (auto simp: demo_tables_def dest: spec [of _ 2])
  moreover from link_imports_binds [OF demo_ordinals l refl ap, of 3 9 "0x10000"] r(2)
  have "link_imports 9 9 0x10000 demo_tables 0x10100 0x10800 (demo_program 3) = Inl Hang"
    by (simp add: IMAGE_ORDINAL_IMPORT_FLAG_def)
  ultimately show ?thesis by blast
qed

end
