(* ===== verification/Pe_Loader.thy ===== *)
theory Pe_Loader
  imports Pe_Imports Process_Manager
begin

text \<open>
  The loaders themselves: \<open>Pe64LoadDll\<close> and \<open>Pe64ResolveImports\<close>, which call each other, \<open>Pe64LoadNativeApplication\<close>
  (\<open>loaders/pe64_dll.c\<close>, \<open>pe64_native.c\<close>) and the header check of \<open>pe64_user.c\<close>.  The state has the memory, the pool, the page
  tables, the user process for which libraries are loaded, if any, and the driver objects.  The files handed over by the boot
  loader and the place of the kernel image are an environment, as is a limit for the length of strings and tables.
  The nesting of libraries has a fuel of its own: libraries that import each other make the code recurse without end.
  Releasing a buffer has no effect in the model.
\<close>

section \<open>State\<close>

definition PE_MAX_FILE_NAME :: nat where "PE_MAX_FILE_NAME = 255"
definition USER_IMAGE_DLL_BASE :: u64 where "USER_IMAGE_DLL_BASE = 0x6000000000"
definition USER_IMAGE_LIMIT :: u64 where "USER_IMAGE_LIMIT = 0x8F00000000"
definition HANDLE_DLL :: u64 where "HANDLE_DLL = 4"

datatype FILE_IMPORT_TYPE = FILE_IMPORT_ENDOFTABLE | FILE_IMPORT_DRIVER | FILE_IMPORT_DLL | FILE_IMPORT_DATA |
  FILE_IMPORT_SETFILE | FILE_IMPORT_DEVICE_DRIVER | FILE_IMPORT_FILE_SYSTEM_DRIVER

record FILE_IMPORT_ENTRY =
  fi_Type :: FILE_IMPORT_TYPE
  LoadedFileSize :: u64
  LoadedFileBuffer :: u64
  BaseName :: "wchar list"
  LenBaseName :: u16

record USER_PROCESS =
  up_address :: u64
  up_DllBase :: u64
  up_Handles :: HANDLE_TABLE
  up_PageMap :: u64

record PE_DRIVER =
  pd_DriverId :: u64
  DriverStartup :: u64
  pd_StackSize :: u64

record LOADER =
  ld_mem :: bytes_mem
  ld_pool :: pool
  ld_pages :: "pt_mem \<times> u64 list"
  ld_user :: "USER_PROCESS option"
  ld_drivers :: "PE_DRIVER list"

record PE_ENV =
  FileImportTable :: "FILE_IMPORT_ENTRY list"
  KernelImageBase :: u64
  KernelExportTable :: u32
  pe_NX :: bool
  pe_limit :: nat

section \<open>Checks and lookups\<close>

definition PeCheckFileHeader :: "bytes_mem \<Rightarrow> u64 \<Rightarrow> bool outcome" where
  "PeCheckFileHeader m h =
     (if MachineType m h \<noteq> PE_TARGET_MACHINE then Inr False else
      andThen (memcmp (get_bytes m h 4) PE_IMAGE_SIGNATURE) (\<lambda>same.
      Inr (\<not> (\<not> same \<or> SizeofOptionnalHeader m h < SIZEOF_PE_OPTIONAL_HEADER \<or> NumSections m h > PE_SECTION_LIMIT \<or>
        ucast (hdr_Subsystem m h) > SUBSYSTEM_MAX \<or> DllCharacteristics m h AND IMAGE_DLL_DYNAMIC_BASE = 0))))"

definition relocatable_header :: "bytes_mem \<Rightarrow> u64 \<Rightarrow> bool" where
  "relocatable_header m h \<longleftrightarrow>
     SizeofOptionnalHeader m h = SIZEOF_OPTIONNAL_HEADER_DATA_DIRECTORIES \<and>
     NumDataDirectories m h = OPTIONNAL_NUM_DATA_DIRECTORIES \<and> DllCharacteristics m h AND IMAGE_DLL_DYNAMIC_BASE \<noteq> 0"

text \<open>A driver object is its position in the table of driver objects, which the kernel maps at its own address.\<close>

definition isDriver :: "LOADER \<Rightarrow> nat option \<Rightarrow> bool" where
  "isDriver st DriverObject =
     (case DriverObject of None \<Rightarrow> False
      | Some i \<Rightarrow> i < length (ld_drivers st) \<and> pd_DriverId (ld_drivers st ! i) = of_nat i)"

text \<open>\<open>IMAGE_IMPORT_DIRECTORY\<close>, 20 bytes.\<close>

definition ImportLookupTable :: "bytes_mem \<Rightarrow> u64 \<Rightarrow> u32" where "ImportLookupTable m d = rd32 m d"
definition NameRva :: "bytes_mem \<Rightarrow> u64 \<Rightarrow> u32" where "NameRva m d = rd32 m (d + 12)"
definition ImportAddressTableRva :: "bytes_mem \<Rightarrow> u64 \<Rightarrow> u32" where "ImportAddressTableRva m d = rd32 m (d + 16)"

definition IMPORT_OSKRNLX64 :: "u8 list" where
  "IMPORT_OSKRNLX64 = [0x6F, 0x73, 0x6B, 0x72, 0x6E, 0x6C, 0x78, 0x36, 0x34, 0x2E, 0x65, 0x78, 0x65]"

fun find_import_file :: "wchar list \<Rightarrow> nat \<Rightarrow> FILE_IMPORT_ENTRY list \<Rightarrow> FILE_IMPORT_ENTRY option outcome" where
  "find_import_file name n [] = Inl OutOfBounds"
| "find_import_file name n (e # es) =
     (if fi_Type e = FILE_IMPORT_ENDOFTABLE then Inr None
      else if fi_Type e = FILE_IMPORT_DLL \<and> unat (LenBaseName e) = n then
        andThen (wstrcmp_nocs (BaseName e) name n) (\<lambda>same. if same then Inr (Some e) else find_import_file name n es)
      else find_import_file name n es)"

datatype dll_source = KernelImage | DllFile FILE_IMPORT_ENTRY

text \<open>The wide copy of the name has room for \<open>MAX_FILE_NAME\<close> characters; a library that is not found is the death screen.\<close>

definition find_dll :: "PE_ENV \<Rightarrow> bytes_mem \<Rightarrow> u64 \<Rightarrow> dll_source outcome" where
  "find_dll env m dllname =
     andThen (mem_strlen (pe_limit env) m dllname) (\<lambda>n.
     if n \<ge> PE_MAX_FILE_NAME then Inl OutOfBounds
     else andThen (if n = length IMPORT_OSKRNLX64 then memcmp (get_bytes m dllname n) IMPORT_OSKRNLX64 else Inr False) (\<lambda>kernel.
     if kernel then Inr KernelImage
     else andThen (find_import_file (map scast (get_bytes m dllname n) @ replicate (PE_MAX_FILE_NAME - n) 0) n (FileImportTable env))
       (\<lambda>found. case found of None \<Rightarrow> Inl SOD | Some e \<Rightarrow> Inr (DllFile e))))"

definition pool_alloc :: "LOADER \<Rightarrow> (LOADER \<times> u64) outcome" where
  "pool_alloc st = (case AllocatePool (ld_pool st) of (a, pool) \<Rightarrow>
     if a = 0 then Inl SOD else Inr (st\<lparr> ld_pool := pool \<rparr>, a))"

definition fork_dll :: "LOADER \<Rightarrow> FILE_IMPORT_ENTRY \<Rightarrow> (LOADER \<times> u64) outcome" where
  "fork_dll st e =
     andThen (pool_alloc st) (\<lambda>(st1, DllBuffer).
     Inr (st1\<lparr> ld_mem := mem_copy (ld_mem st1) DllBuffer (LoadedFileBuffer e) (unat (LoadedFileSize e)) \<rparr>, DllBuffer))"

text \<open>Measuring, allocating and filling the buffer of an image; \<open>None\<close> is the early return for an empty one.\<close>

definition load_image :: "(u32 \<Rightarrow> u32) \<Rightarrow> LOADER \<Rightarrow> u64 \<Rightarrow> u64 \<Rightarrow> (LOADER \<times> (u64 \<times> u64) option) outcome" where
  "load_image rnd st ImageBuffer h =
     (let m = ld_mem st;
          (m1, VirtualBufferLength) = measure_sections rnd (unat (NumSections m h)) m (first_section m h) 0x1000
      in if VirtualBufferLength = 0 then Inr (st\<lparr> ld_mem := m1 \<rparr>, None) else
         andThen (pool_alloc st) (\<lambda>(st1, VirtualBuffer).
         Inr (st1\<lparr> ld_mem := load_sections (unat (NumSections m1 h)) m1 VirtualBuffer ImageBuffer (first_section m1 h) \<rparr>,
              Some (VirtualBuffer, VirtualBufferLength))))"

definition link_dll :: "PE_ENV \<Rightarrow> bytes_mem \<Rightarrow> u64 \<Rightarrow> u64 \<Rightarrow> u64 \<Rightarrow> u64 \<Rightarrow> u32 \<Rightarrow> bytes_mem outcome" where
  "link_dll env m prog dir VirtualBuffer DllVirtualBase ExportVA =
     (let ed = VirtualBuffer + ucast ExportVA
      in link_imports (pe_limit env) (pe_limit env) prog
           \<lparr> et_VirtualBuffer = VirtualBuffer, et_DllVirtualBase = DllVirtualBase, et_Directory = ed,
             NamePtr = VirtualBuffer + ucast (NamePointerRva m ed),
             ExportOrdinalTable = VirtualBuffer + ucast (OrdinalTableRva m ed),
             ExportAddressTable = VirtualBuffer + ucast (ExportAddressTableRva m ed) \<rparr>
           (prog + ucast (ImportLookupTable m dir)) (prog + ucast (ImportAddressTableRva m dir)) m)"

definition relocate_if :: "bytes_mem \<Rightarrow> u64 \<Rightarrow> u64 \<Rightarrow> u64 \<Rightarrow> (bytes_mem \<times> int) outcome" where
  "relocate_if m h VirtualBuffer base =
     (if BaseRelocationTable_VA m h \<noteq> 0 then Pe64RelocateImage m h VirtualBuffer base else Inr (m, 0))"

section \<open>Libraries\<close>

text \<open>What \<open>Pe64ResolveImports\<close> does for a user process after a library was loaded.\<close>

definition note_user_dll :: "PE_ENV \<Rightarrow> LOADER \<Rightarrow> u64 \<Rightarrow> u64 \<Rightarrow> u64 \<Rightarrow> LOADER outcome" where
  "note_user_dll env st MapDllBase DllImage DllImageSize =
     (case ld_user st of None \<Rightarrow> Inl NullDeref
      | Some p \<Rightarrow>
        andThen (OpenHandle 2 (up_Handles p, ld_pool st) 0 0 HANDLE_DLL DllImage 0) (\<lambda>((handles, pool), handle).
        if handle = None then Inl SOD else
        andThen (MapPhysicalPages (pe_NX env) (ld_pages st) (up_PageMap p) MapDllBase DllImage
                   (unat (drop_bit 12 DllImageSize)) PM_UMAP) (\<lambda>pages.
        Inr (st\<lparr> ld_user := Some (p\<lparr> up_DllBase := up_DllBase p + DllImageSize, up_Handles := handles \<rparr>),
                ld_pool := pool, ld_pages := pages \<rparr>))))"

definition opt_value :: "u64 option \<Rightarrow> u64" where
  "opt_value x = (case x of None \<Rightarrow> 0 | Some v \<Rightarrow> v)"

text \<open>The body of \<open>Pe64LoadDll\<close>; \<open>resolve\<close> is its call of \<open>Pe64ResolveImports\<close>, which calls it back.\<close>

definition load_dll_with :: "(LOADER \<Rightarrow> u64 \<Rightarrow> u64 \<Rightarrow> bool \<Rightarrow> (LOADER \<times> int) outcome) \<Rightarrow> PE_ENV \<Rightarrow> LOADER \<Rightarrow> u64 \<Rightarrow> u64 \<Rightarrow>
      u64 option \<Rightarrow> u64 option \<Rightarrow> (LOADER \<times> int \<times> u64 option \<times> u64 option) outcome" where
  "load_dll_with resolve env st prog dir DllImage DllImageSize =
     andThen (find_dll env (ld_mem st) (prog + ucast (NameRva (ld_mem st) dir))) (\<lambda>src.
     case src of
       KernelImage \<Rightarrow>
         andThen (link_dll env (ld_mem st) prog dir (KernelImageBase env) (KernelImageBase env) (KernelExportTable env)) (\<lambda>m.
         Inr (st\<lparr> ld_mem := m \<rparr>, 0, map_option (\<lambda>_. KernelImageBase env) DllImage, map_option (\<lambda>_. 0x1000) DllImageSize))
     | DllFile e \<Rightarrow>
         andThen (fork_dll st e) (\<lambda>(st1, DllBuffer).
         andThen (GetPEhdrOffset (ld_mem st1) DllBuffer) (\<lambda>off.
         let h = DllBuffer + scast off
         in if off = 0 then Inr (st1, -1, DllImage, DllImageSize) else
            andThen (PeCheckFileHeader (ld_mem st1) h) (\<lambda>checked.
            if \<not> checked \<or> \<not> relocatable_header (ld_mem st1) h then Inr (st1, -1, DllImage, DllImageSize)
            else
              let st2 = st1\<lparr> ld_mem := wr32 (ld_mem st1) (dir + 4) (TimeDateStamp (ld_mem st1) h) \<rparr>
              in if ExportTable_VA (ld_mem st2) h = 0 then Inr (st2, 0, DllImage, DllImageSize)
                 else
                   andThen (load_image round_dll st2 DllBuffer h) (\<lambda>(st3, img).
                   case img of None \<Rightarrow> Inr (st3, -1, DllImage, DllImageSize)
                   | Some (VirtualBuffer, VirtualBufferLength) \<Rightarrow>
                     let base = (if opt_value DllImage = 0 then VirtualBuffer else opt_value DllImage)
                     in andThen (link_dll env (ld_mem st3) prog dir VirtualBuffer base (ExportTable_VA (ld_mem st3) h)) (\<lambda>m4.
                        andThen (relocate_if m4 h VirtualBuffer base) (\<lambda>(m5, r).
                        let st5 = st3\<lparr> ld_mem := m5 \<rparr>
                        in if r < 0 then Inr (st5, -1, DllImage, DllImageSize) else
                           andThen (if ImportAddressTable_VA m5 h \<noteq> 0
                                    then resolve st5 VirtualBuffer
                                           (VirtualBuffer + ucast (ImportTable_VA m5 h)) (DllImageSize \<noteq> None)
                                    else Inr (st5, 0)) (\<lambda>(st6, r2).
                           if r2 < 0 then Inr (st6, -1, DllImage, DllImageSize)
                           else Inr (st6, 0, map_option (\<lambda>_. VirtualBuffer) DllImage,
                                     map_option (\<lambda>_. VirtualBufferLength) DllImageSize)))))))))"

fun Pe64ResolveImports :: "nat \<Rightarrow> PE_ENV \<Rightarrow> LOADER \<Rightarrow> u64 \<Rightarrow> u64 \<Rightarrow> bool \<Rightarrow> (LOADER \<times> int) outcome" where
  "Pe64ResolveImports 0 env st VirtualBuffer dir user = Inl Hang"
| "Pe64ResolveImports (Suc n) env st VirtualBuffer dir user =
     (if NameRva (ld_mem st) dir = 0 then Inr (st, KERNEL_SOK) else
      let proc = (if user then ld_user st else None);
          DllImage = (case proc of None \<Rightarrow> 0 | Some p \<Rightarrow> up_DllBase p + USER_IMAGE_DLL_BASE);
          size0 = map_option up_address proc
      in if DllImage > USER_IMAGE_LIMIT then Inr (st, -2) else
         andThen (load_dll_with (Pe64ResolveImports n env) env st VirtualBuffer dir (if DllImage \<noteq> 0 then Some DllImage else None) size0)
           (\<lambda>(st1, r, image, imsize).
         if r \<noteq> 0 then (if proc = None then Inl SOD else Inr (st1, -1))
         else andThen (if proc = None then Inr st1
                       else note_user_dll env st1 DllImage (case image of None \<Rightarrow> DllImage | Some v \<Rightarrow> v) (opt_value imsize))
                (\<lambda>st2. Pe64ResolveImports n env st2 VirtualBuffer (dir + 20) user)))"

definition Pe64LoadDll :: "nat \<Rightarrow> PE_ENV \<Rightarrow> LOADER \<Rightarrow> u64 \<Rightarrow> u64 \<Rightarrow> u64 option \<Rightarrow> u64 option \<Rightarrow>
      (LOADER \<times> int \<times> u64 option \<times> u64 option) outcome" where
  "Pe64LoadDll n env = load_dll_with (Pe64ResolveImports n env) env"

section \<open>Drivers\<close>

text \<open>What follows the search for the header: \<open>PeOff\<close> is its result, \<open>i\<close> the driver object.\<close>

definition load_native :: "nat \<Rightarrow> PE_ENV \<Rightarrow> LOADER \<Rightarrow> u64 \<Rightarrow> nat \<Rightarrow> u32 \<Rightarrow> (LOADER \<times> int) outcome" where
  "load_native n env st ImageBuffer i PeOff =
     (let h = ImageBuffer + scast PeOff
      in if PeOff = - 1 then Inr (st, KERNEL_SERR)
         else if \<not> relocatable_header (ld_mem st) h then Inr (st, KERNEL_SERR)
         else
           andThen (load_image round_native st ImageBuffer h) (\<lambda>(st1, img).
           case img of None \<Rightarrow> Inr (st1, -1)
           | Some (VirtualBuffer, _) \<Rightarrow>
             andThen (relocate_if (ld_mem st1) h VirtualBuffer 0) (\<lambda>(m2, r).
             let st2 = st1\<lparr> ld_mem := m2 \<rparr>
             in if r < 0 then Inr (st2, -1) else
                andThen (if ImportTable_VA m2 h \<noteq> 0
                         then Pe64ResolveImports n env st2 VirtualBuffer (VirtualBuffer + ucast (ImportTable_VA m2 h)) False
                         else Inr (st2, 0)) (\<lambda>(st3, r2).
                if r2 < 0 then Inr (st3, -1) else
                Inr (st3\<lparr> ld_drivers := (ld_drivers st3)[i := (ld_drivers st3 ! i)\<lparr>
                            DriverStartup := VirtualBuffer + ucast (EntryPointAddr (ld_mem st3) h),
                            pd_StackSize := StackReserve (ld_mem st3) h \<rparr>] \<rparr>, KERNEL_SOK)))))"

definition Pe64LoadNativeApplication :: "nat \<Rightarrow> PE_ENV \<Rightarrow> LOADER \<Rightarrow> u64 \<Rightarrow> nat option \<Rightarrow> (LOADER \<times> int) outcome" where
  "Pe64LoadNativeApplication n env st ImageBuffer DriverObject =
     (if ImageBuffer = 0 \<or> \<not> isDriver st DriverObject then Inr (st, KERNEL_SERR_INVALID_PARAMETER) else
      andThen (GetPEhdrOffset (ld_mem st) ImageBuffer) (load_native n env st ImageBuffer (the DriverObject)))"

section \<open>Loading a driver\<close>

lemmas header_fields = MachineType_def NumSections_def TimeDateStamp_def SizeofOptionnalHeader_def EntryPointAddr_def
  hdr_ImageBase_def hdr_Subsystem_def DllCharacteristics_def StackReserve_def NumDataDirectories_def ExportTable_VA_def
  ImportTable_VA_def BaseRelocationTable_VA_def BaseRelocationTable_Size_def ImportAddressTable_VA_def

lemma header_agree:
  assumes "agree m m' h 264"
  shows "NumSections m' h = NumSections m h" "SizeofOptionnalHeader m' h = SizeofOptionnalHeader m h"
    "EntryPointAddr m' h = EntryPointAddr m h" "hdr_ImageBase m' h = hdr_ImageBase m h" "StackReserve m' h = StackReserve m h"
    "ImportTable_VA m' h = ImportTable_VA m h" "BaseRelocationTable_VA m' h = BaseRelocationTable_VA m h"
    "BaseRelocationTable_Size m' h = BaseRelocationTable_Size m h" "first_section m' h = first_section m h"
proof -
  note r2 = agree_rd(1) [OF assms] and r4 = agree_rd(2) [OF assms] and r8 = agree_rd(3) [OF assms]
  show "NumSections m' h = NumSections m h" and s: "SizeofOptionnalHeader m' h = SizeofOptionnalHeader m h"
    using r2 [of 6] r2 [of 20] by (simp_all add: header_fields)
  show "EntryPointAddr m' h = EntryPointAddr m h" "ImportTable_VA m' h = ImportTable_VA m h"
    "BaseRelocationTable_VA m' h = BaseRelocationTable_VA m h" "BaseRelocationTable_Size m' h = BaseRelocationTable_Size m h"
    using r4 [of 40] r4 [of 144] r4 [of 176] r4 [of 180] by (simp_all add: header_fields)
  show "hdr_ImageBase m' h = hdr_ImageBase m h" "StackReserve m' h = StackReserve m h"
    using r8 [of 48] r8 [of 96] by (simp_all add: header_fields)
  show "first_section m' h = first_section m h" by (simp add: first_section_def s)
qed

text \<open>
  What the loader needs of a driver image: an accepted header, contiguous sections whose headers and data lie outside the
  buffer \<open>vb\<close> of the computed length, no imports, and a sound relocation directory in the loaded image \<open>m2\<close> whose targets
  stay inside the buffer.
\<close>

definition driver_image_ok :: "bytes_mem \<Rightarrow> u64 \<Rightarrow> u64 \<Rightarrow> u64 \<Rightarrow> (u32 \<times> u16 list) list \<Rightarrow> bool" where
  "driver_image_ok m img h vb bs \<longleftrightarrow>
     (let n = unat (NumSections m h); s = first_section m h; (m1, len) = measure_sections round_native n m s 0x1000;
          m2 = load_sections n m1 vb img s; start = vb + ucast (BaseRelocationTable_VA m h)
      in relocatable_header m h \<and> contiguous round_native m (sections_from s n) 0x1000 \<and> apart h 264 vb (unat len) \<and>
         (\<forall>u \<in> set (sections_from s n). apart u 40 vb (unat len) \<and>
            (loadable m u \<longrightarrow> apart (sec_source m img u) (unat (SizeofRawData m u)) vb (unat len))) \<and>
         ImportTable_VA m h = 0 \<and> BaseRelocationTable_VA m h \<noteq> 0 \<and>
         stored_blocks m2 start bs \<and> unat (BaseRelocationTable_Size m h) = dir_size bs \<and>
         PageRva m2 (start + of_nat (dir_size bs)) = 0 \<and> unat start + dir_size bs < 2 ^ 64 \<and>
         (\<forall>t \<in> set (reloc_targets vb bs). apart start (dir_size bs + 4) t 8 \<and> (\<forall>x. in_block x t 8 \<longrightarrow> in_block x vb (unat len))) \<and>
         sorted_wrt (\<lambda>t u. apart t 8 u 8) (reloc_targets vb bs))"

lemma counted_length_bounds:
  assumes "measure_sections rnd n m s 0x1000 = (m1, len)" and "n < 2 ^ 16"
  shows "len \<noteq> 0"
proof -
  have "len = of_nat (0x1000 + sum_list (map (counted_size rnd m) (sections_from s n)))"
    using measure_sections_spec [OF assms(1)] assms(2) by simp
  moreover have "0x1000 + sum_list (map (counted_size rnd m) (sections_from s n)) < 2 ^ 64"
    using counted_sum_bound [of rnd m "sections_from s n"] assms(2) by (simp add: sections_from_def)
  ultimately have "unat len = 0x1000 + sum_list (map (counted_size rnd m) (sections_from s n))" by (simp only: unat_of_nat_u64)
  then show ?thesis by force
qed


lemma native_image_loaded:
  assumes "driver_image_ok m img h vb bs"
    and "measure_sections round_native (unat (NumSections m h)) m (first_section m h) 0x1000 = (m1, len)"
    and "m2 = load_sections (unat (NumSections m h)) m1 vb img (first_section m h)"
  shows "agree m m1 h 264" and "agree m m2 h 264" and "\<forall>x. \<not> in_block x vb (unat len) \<longrightarrow> m2 x = m1 x"
proof -
  let ?n = "unat (NumSections m h)" and ?s = "first_section m h"
  have n16: "?n < 2 ^ 16" using unsigned_less [of "NumSections m h", where 'a = nat] by simp
  have ok: "relocatable_header m h" "contiguous round_native m (sections_from ?s ?n) 0x1000" "apart h 264 vb (unat len)"
    "\<forall>u \<in> set (sections_from ?s ?n). apart u 40 vb (unat len) \<and>
        (loadable m u \<longrightarrow> apart (sec_source m img u) (unat (SizeofRawData m u)) vb (unat len))"
    using assms(1) unfolding driver_image_ok_def Let_def assms(2) prod.case by blast+
  have s: "?s = h + of_nat 264"
    using ok(1) by (simp add: first_section_def relocatable_header_def SIZEOF_OPTIONNAL_HEADER_DATA_DIRECTORIES_def)
  have "apart (h + of_nat 0) 264 (h + of_nat 264) (40 * ?n)" using n16 by (intro apart_offsets) simp_all
  moreover have "equal_outside m m1 ?s (40 * ?n)"
    unfolding equal_outside_def using measure_frame [of _ ?s ?n round_native m "0x1000"] assms(2) by simp
  ultimately show h1: "agree m m1 h 264" using equal_outside_agree [of m m1 ?s "40 * ?n" h 264] by (simp add: s)
  show out: "\<forall>x. \<not> in_block x vb (unat len) \<longrightarrow> m2 x = m1 x"
    using load_sections_contiguous [OF assms(2) n16 ok(2,4)] assms(3) by blast
  then have "equal_outside m1 m2 vb (unat len)" by (simp add: equal_outside_def)
  then show "agree m m2 h 264" using equal_outside_agree [OF _ ok(3)] h1 agree_trans by blast
qed

text \<open>
  C14. Loading a driver.  The call itself does not return for any driver object and image: \<open>GetPEhdrOffset\<close> ends in \<open>memcmp\<close>.  The rest
  of the function, from the offset of the header on, is sound: for a relocatable image without imports (\<open>driver_image_ok\<close>) and
  a pool that returns the buffer, it succeeds: the driver starts at the image's entry point in the buffer with the stack size of
  the header, every relocated word of the loaded image is moved by the difference of the bases, nothing else of the loaded
  image changes, nothing outside the buffer does, and neither do the other drivers.
\<close>

theorem Pe64LoadNativeApplication_loads:
  assumes "img \<noteq> 0" and "isDriver st (Some i)" and "off \<noteq> - 1"
    and "h = img + scast off" and "ld_pool st = vb # pool" and "vb \<noteq> 0" and "driver_image_ok (ld_mem st) img h vb bs"
    and "measure_sections round_native (unat (NumSections (ld_mem st) h)) (ld_mem st) (first_section (ld_mem st) h) 0x1000 = (m1, len)"
    and "m2 = load_sections (unat (NumSections (ld_mem st) h)) m1 vb img (first_section (ld_mem st) h)"
  shows "Pe64LoadNativeApplication n env st img (Some i) = Inl Hang \<and>
     (\<exists>m3. load_native n env st img i off =
       Inr (st\<lparr> ld_mem := m3, ld_pool := pool, ld_drivers := (ld_drivers st)[i := (ld_drivers st ! i)\<lparr>
              DriverStartup := vb + ucast (EntryPointAddr (ld_mem st) h), pd_StackSize := StackReserve (ld_mem st) h \<rparr>] \<rparr>,
            KERNEL_SOK) \<and>
     (\<forall>t \<in> set (reloc_targets vb bs). rd64 m3 t = rd64 m2 t + (vb - hdr_ImageBase (ld_mem st) h)) \<and>
     (\<forall>x. (\<forall>t \<in> set (reloc_targets vb bs). \<not> in_block x t 8) \<longrightarrow> m3 x = m2 x) \<and>
     (\<forall>x. \<not> in_block x vb (unat len) \<longrightarrow> m3 x = m1 x))"
proof -
  let ?m = "ld_mem st"
  let ?n = "unat (NumSections ?m h)" and ?s = "first_section ?m h" and ?ts = "reloc_targets vb bs"
  define start where "start = vb + ucast (BaseRelocationTable_VA ?m h)"
  note img = native_image_loaded [OF assms(7-9)]
  note f1 = header_agree [OF img(1)] and f2 = header_agree [OF img(2)]
  have ok: "relocatable_header ?m h" "apart h 264 vb (unat len)" "ImportTable_VA ?m h = 0" "BaseRelocationTable_VA ?m h \<noteq> 0"
    "stored_blocks m2 start bs" "unat (BaseRelocationTable_Size ?m h) = dir_size bs" "PageRva m2 (start + of_nat (dir_size bs)) = 0"
    "unat start + dir_size bs < 2 ^ 64"
    "\<forall>t \<in> set ?ts. apart start (dir_size bs + 4) t 8 \<and> (\<forall>x. in_block x t 8 \<longrightarrow> in_block x vb (unat len))"
    "sorted_wrt (\<lambda>t u. apart t 8 u 8) ?ts"
    using assms(7) unfolding driver_image_ok_def Let_def assms(8) prod.case assms(9) [symmetric] start_def [symmetric] by blast+
  have hd: "apart h 264 t 8" if "t \<in> set ?ts" for t using ok(2,9) that unfolding apart_def by blast
  then have tg: "\<forall>t \<in> set ?ts. apart start (dir_size bs + 4) t 8 \<and> apart (h + 48) 8 t 8"
    using ok(9) apart_shrink [of h 264 _ 8 48 8] by simp
  define m3 where "m3 = rebase m2 ?ts (vb - hdr_ImageBase ?m h)"
  have rel: "relocate_if m2 h vb 0 = Inr (m3, KERNEL_SOK)"
    using relocate_run [of m2 start bs vb h 0] ok(4-8) tg by (simp add: relocate_if_def f2 start_def m3_def)
  have "agree m2 m3 h 264" unfolding m3_def using hd by (intro agree_rebase)
  note f3 = header_agree [OF agree_trans [OF img(2) this]]
  have n16: "?n < 2 ^ 16" using unsigned_less [of "NumSections ?m h", where 'a = nat] by simp
  have "len \<noteq> 0" by (rule counted_length_bounds [OF assms(8) n16])
  then have ld: "load_image round_native st img h = Inr (st\<lparr> ld_pool := pool, ld_mem := m2 \<rparr>, Some (vb, len))"
    using assms(5,6,9) by (simp add: load_image_def Let_def assms(8) pool_alloc_def f1)
  have run: "load_native n env st img i off =
      Inr (st\<lparr> ld_mem := m3, ld_pool := pool, ld_drivers := (ld_drivers st)[i := (ld_drivers st ! i)\<lparr>
              DriverStartup := vb + ucast (EntryPointAddr ?m h), pd_StackSize := StackReserve ?m h \<rparr>] \<rparr>, KERNEL_SOK)"
    using assms(3) ok(1,3) by (simp add: load_native_def Let_def assms(4) [symmetric] ld rel f3 KERNEL_SOK_def)
  have "Pe64LoadNativeApplication n env st img (Some i) = Inl Hang"
    using assms(1,2) by (simp add: Pe64LoadNativeApplication_def GetPEhdrOffset_def memcmp_def)
  have "m3 x = m1 x" if "\<not> in_block x vb (unat len)" for x
  proof -
    have "m3 x = m2 x" unfolding m3_def using that ok(9) by (intro rebase_outside) blast
    then show ?thesis using img(3) that by simp
  qed
  with \<open>Pe64LoadNativeApplication n env st img (Some i) = Inl Hang\<close> show ?thesis
    using run ok(10) by (auto simp: m3_def rebase_target rebase_outside)
qed

text \<open>A driver linked at \<open>0x140000000\<close>: one section of 24 bytes, a pointer into it and its relocation block, file at \<open>0x1000\<close>.\<close>

definition demo_driver :: bytes_mem where
  "demo_driver = sparse [(0x1000, 0x4D), (0x1001, 0x5A), (0x103C, 0x40), (0x1046, 1), (0x1054, 0xF0), (0x1069, 0x10), (0x1073, 0x40),
     (0x1074, 1), (0x109E, 0x40), (0x10A1, 0x20), (0x10C4, 0x10), (0x10F0, 8), (0x10F1, 0x10), (0x10F4, 12), (0x1150, 0x20),
     (0x1155, 0x10), (0x1158, 0x18), (0x115D, 2), (0x116C, 0x20), (0x1200, 0x10), (0x1201, 0x10), (0x1203, 0x40), (0x1204, 1),
     (0x1209, 0x10), (0x120C, 12), (0x1211, 0xA0)]"

definition demo_raw :: "u8 list" where
  "demo_raw = [0x10, 0x10, 0, 0x40, 1, 0, 0, 0, 0, 0x10, 0, 0, 12, 0, 0, 0, 0, 0xA0, 0, 0, 0, 0, 0, 0]"

definition demo_loaded :: bytes_mem where
  "demo_loaded = load_sections 1 (wr32 demo_driver 0x1150 0x1000) 0x10000 0x1000 0x1148"

lemma demo_driver_header:
  "NumSections demo_driver 0x1040 = 1" "first_section demo_driver 0x1040 = 0x1148"
  "relocatable_header demo_driver 0x1040" "ImportTable_VA demo_driver 0x1040 = 0" "BaseRelocationTable_VA demo_driver 0x1040 = 0x1008"
  "BaseRelocationTable_Size demo_driver 0x1040 = 12" "EntryPointAddr demo_driver 0x1040 = 0x1000"
  "hdr_ImageBase demo_driver 0x1040 = 0x140000000" "StackReserve demo_driver 0x1040 = 0x2000"
  subgoal by (simp add: demo_driver_def mem_eval header_fields)
  subgoal by (simp add: demo_driver_def mem_eval header_fields first_section_def)
  subgoal by (simp add: demo_driver_def mem_eval header_fields relocatable_header_def SIZEOF_OPTIONNAL_HEADER_DATA_DIRECTORIES_def
      OPTIONNAL_NUM_DATA_DIRECTORIES_def IMAGE_DLL_DYNAMIC_BASE_def)
  subgoal by (simp add: demo_driver_def mem_eval header_fields)
  subgoal by (simp add: demo_driver_def mem_eval header_fields)
  subgoal by (simp add: demo_driver_def mem_eval header_fields)
  subgoal by (simp add: demo_driver_def mem_eval header_fields)
  subgoal by (simp add: demo_driver_def mem_eval header_fields)
  subgoal by (simp add: demo_driver_def mem_eval header_fields)
  done

lemma demo_driver_section:
  "sec_VirtualSize demo_driver 0x1148 = 0x20" "sec_VirtualAddress demo_driver 0x1148 = 0x1000" "SizeofRawData demo_driver 0x1148 = 0x18"
  "PtrToRawData demo_driver 0x1148 = 0x200" "loadable demo_driver 0x1148"
  by (simp_all add: demo_driver_def mem_eval sec_fields loadable_def PE_SECTION_CODE_def PE_SECTION_INITIALIZED_DATA_def
        PE_SECTION_UNINITIALIZED_DATA_def)

lemma demo_driver_measure:
  "measure_sections round_native 1 demo_driver 0x1148 0x1000 = (wr32 demo_driver 0x1150 0x1000, 0x2000)"
  "rounded_size round_native demo_driver 0x1148 = 0x1000" "sections_from 0x1148 1 = [0x1148]"
  using wr32_section [of demo_driver "0x1148" "0x1000"]
  by (simp_all add: One_nat_def demo_driver_section round_native_def rounded_size_def sections_from_def Let_def)

lemma demo_apart_buffer: "unat a + n \<le> 0x10000 \<Longrightarrow> apart a n 0x10000 0x2000"
  by (rule apart_below) simp_all

lemma demo_loaded_bytes: "get_bytes demo_loaded 0x11000 24 = demo_raw"
proof -
  have "apart 0x1200 24 0x1150 4" using apart_below [of "0x1150" 4 "0x1200" 24] apart_sym by simp
  then have "get_bytes (wr32 demo_driver 0x1150 0x1000) 0x1200 24 = get_bytes demo_driver 0x1200 24"
    by (simp add: wr32_def get_put_apart)
  also have "\<dots> = demo_raw" by (simp add: demo_driver_def mem_eval demo_raw_def)
  finally have raw: "get_bytes (wr32 demo_driver 0x1150 0x1000) 0x1200 24 = demo_raw" .
  have "get_bytes demo_loaded 0x11000 0x1000 = demo_raw @ replicate 0xFE8 0"
    using load_sections_contiguous [OF demo_driver_measure(1), of "0x10000" "0x1000"] raw
    by (simp add: demo_driver_measure(2,3) [unfolded One_nat_def] demo_driver_section sec_source_def demo_apart_buffer demo_loaded_def)
  then show ?thesis using get_bytes_sub [of 0 24 "0x1000" demo_loaded "0x11000"] by (simp add: demo_raw_def)
qed

lemma demo_loaded_reads:
  "rd64 demo_loaded 0x11000 = 0x140001010" "PageRva demo_loaded 0x11014 = 0"
  "stored_blocks demo_loaded 0x11008 [(0x1000, [0xA000, 0])]"
proof -
  have g: "get_bytes demo_loaded (0x11000 + of_nat j) k = take k (drop j demo_raw)" if "j + k \<le> 24" for j k
    using get_bytes_sub [OF that, of demo_loaded "0x11000"] by (simp add: demo_loaded_bytes)
  show "rd64 demo_loaded 0x11000 = 0x140001010" using g [of 0 8] by (simp add: rd64_def demo_raw_def)
  show "PageRva demo_loaded 0x11014 = 0" using g [of 20 4] by (simp add: PageRva_def rd32_def demo_raw_def)
  show "stored_blocks demo_loaded 0x11008 [(0x1000, [0xA000, 0])]"
    using g [of 8 4] g [of 12 4] g [of 16 2] g [of 18 2] by (simp add: PageRva_def BlockSize_def rd32_def rd16_def demo_raw_def)
qed

lemma demo_driver_targets: "reloc_targets 0x10000 [(0x1000, [0xA000, 0])] = [0x11000]" "dir_size [(0x1000, [0xA000, 0])] = 12"
  by (simp_all add: reloc_targets_def entry_targets_def entry_Type_def entry_Offset_def IMAGE_REL_BASED_DIR64_def dir_size_def)

lemma demo_driver_ok: "driver_image_ok demo_driver 0x1000 0x1040 0x10000 [(0x1000, [0xA000, 0])]"
proof -
  have "apart 0x11008 16 0x11000 8" using apart_below [of "0x11000" 8 "0x11008" 16] apart_sym by simp
  moreover have "in_block x 0x10000 0x2000" if "in_block x 0x11000 8" for x
    using in_block_sub [of x "0x10000" "0x1000" 8 "0x2000"] that by simp
  moreover have "loadable demo_driver 0x1148" by (rule demo_driver_section)
  ultimately show ?thesis
    unfolding driver_image_ok_def
    by (simp add: Let_def demo_driver_header demo_driver_measure [unfolded One_nat_def] demo_driver_targets demo_driver_section
        demo_loaded_def [symmetric, unfolded One_nat_def] demo_loaded_reads demo_apart_buffer sec_source_def
        rounded_size_def round_native_def del: measure_sections.simps load_sections.simps stored_blocks.simps)
qed

definition demo_loader :: LOADER where
  "demo_loader = \<lparr> ld_mem = demo_driver, ld_pool = [0x10000], ld_pages = ((\<lambda>_ _. PTBLENTRY_zero), []), ld_user = None,
     ld_drivers = [\<lparr> pd_DriverId = 0, DriverStartup = 0, pd_StackSize = 0 \<rparr>] \<rparr>"

definition demo_pe_env :: PE_ENV where
  "demo_pe_env = \<lparr> FileImportTable = [], KernelImageBase = 0, KernelExportTable = 0, pe_NX = False, pe_limit = 0 \<rparr>"

theorem Pe64LoadNativeApplication_loads_witness:
  "\<exists>st m3. load_native 1 demo_pe_env demo_loader 0x1000 0 0x40 = Inr (st, KERNEL_SOK) \<and> ld_mem st = m3 \<and>
     rd64 m3 0x11000 = 0x11010 \<and> DriverStartup (ld_drivers st ! 0) = 0x11000 \<and> pd_StackSize (ld_drivers st ! 0) = 0x2000"
proof -
  have "Pe64LoadNativeApplication 1 demo_pe_env demo_loader 0x1000 (Some 0) = Inl Hang \<and>
    (\<exists>m3. load_native 1 demo_pe_env demo_loader 0x1000 0 0x40 =
      Inr (demo_loader\<lparr> ld_mem := m3, ld_pool := [], ld_drivers := (ld_drivers demo_loader)[0 := (ld_drivers demo_loader ! 0)\<lparr>
              DriverStartup := 0x10000 + ucast (EntryPointAddr (ld_mem demo_loader) 0x1040),
              pd_StackSize := StackReserve (ld_mem demo_loader) 0x1040 \<rparr>] \<rparr>, KERNEL_SOK) \<and>
     (\<forall>t \<in> set (reloc_targets 0x10000 [(0x1000, [0xA000, 0])]).
        rd64 m3 t = rd64 demo_loaded t + (0x10000 - hdr_ImageBase (ld_mem demo_loader) 0x1040)) \<and>
     (\<forall>x. (\<forall>t \<in> set (reloc_targets 0x10000 [(0x1000, [0xA000, 0])]). \<not> in_block x t 8) \<longrightarrow> m3 x = demo_loaded x) \<and>
     (\<forall>x. \<not> in_block x 0x10000 (unat (0x2000 :: u64)) \<longrightarrow> m3 x = wr32 demo_driver 0x1150 0x1000 x))"
    by (rule Pe64LoadNativeApplication_loads)
       (simp_all add: demo_loader_def demo_pe_env_def isDriver_def demo_driver_header demo_driver_ok
          demo_driver_measure [unfolded One_nat_def] demo_loaded_def del: measure_sections.simps load_sections.simps)
  then show ?thesis by (auto simp: demo_driver_targets demo_loader_def demo_driver_header demo_loaded_reads)
qed

end
