(* ===== verification/Acpi_Madt.thy ===== *)
theory Acpi_Madt
  imports Byte_Memory
begin

text \<open>
  The walk over the records of the ACPI table that describes interrupt controllers (\<open>acpi/madt.c\<close>).  The table is firmware
  data in memory: a header of 44 bytes, then records with their type and length in the first two bytes.  The loops end when the
  offset reaches the length of the table; the fuel is that length plus one, which is enough unless a record has length 0, on
  which the code loops for ever.
\<close>

definition ACPI_MADT_RECORD_PROCESSOR_LAPIC :: u8 where "ACPI_MADT_RECORD_PROCESSOR_LAPIC = 0"
definition ACPI_MADT_RECORD_IO_APIC :: u8 where "ACPI_MADT_RECORD_IO_APIC = 1"
definition ACPI_MADT_RECORD_IO_APIC_ISO :: u8 where "ACPI_MADT_RECORD_IO_APIC_ISO = 2"
definition ACPI_MADT_RECORD_LOCAL_APIC_AO :: u8 where "ACPI_MADT_RECORD_LOCAL_APIC_AO = 5"

definition sizeof_ACPI_MADT :: nat where "sizeof_ACPI_MADT = 44"

definition madt_Length :: "bytes_mem \<Rightarrow> u64 \<Rightarrow> u32" where "madt_Length m t = rd32 m (t + 4)"
definition LocalApicAddress :: "bytes_mem \<Rightarrow> u64 \<Rightarrow> u32" where "LocalApicAddress m t = rd32 m (t + 36)"
definition EntryType :: "bytes_mem \<Rightarrow> u64 \<Rightarrow> u8" where "EntryType m r = m r"
definition RecordLength :: "bytes_mem \<Rightarrow> u64 \<Rightarrow> u8" where "RecordLength m r = m (r + 1)"
definition Lapic_Flags :: "bytes_mem \<Rightarrow> u64 \<Rightarrow> u32" where "Lapic_Flags m r = rd32 m (r + 4)"
definition IoApicId :: "bytes_mem \<Rightarrow> u64 \<Rightarrow> u8" where "IoApicId m r = m (r + 2)"
definition IoApicAddress :: "bytes_mem \<Rightarrow> u64 \<Rightarrow> u32" where "IoApicAddress m r = rd32 m (r + 4)"
definition Iso_IrqSource :: "bytes_mem \<Rightarrow> u64 \<Rightarrow> u8" where "Iso_IrqSource m r = m (r + 3)"
definition Iso_GlobalSysInterrupt :: "bytes_mem \<Rightarrow> u64 \<Rightarrow> u32" where "Iso_GlobalSysInterrupt m r = rd32 m (r + 4)"
definition Iso_Flags :: "bytes_mem \<Rightarrow> u64 \<Rightarrow> u16" where "Iso_Flags m r = rd16 m (r + 8)"
definition PhysLocalApicAddress :: "bytes_mem \<Rightarrow> u64 \<Rightarrow> u64" where "PhysLocalApicAddress m r = rd64 m (r + 4)"

definition DataBufferLength :: "bytes_mem \<Rightarrow> u64 \<Rightarrow> u32" where
  "DataBufferLength m t = madt_Length m t - of_nat sizeof_ACPI_MADT"

text \<open>The record loop of \<open>AcpiReadMadt\<close>, with the body of the \<open>switch\<close> as \<open>f\<close>.\<close>

fun madt_loop :: "nat \<Rightarrow> bytes_mem \<Rightarrow> (u64 \<Rightarrow> 'a \<Rightarrow> 'a) \<Rightarrow> u32 \<Rightarrow> u64 \<Rightarrow> u32 \<Rightarrow> 'a \<Rightarrow> 'a outcome" where
  "madt_loop 0 m f len r Offset a = Inl Hang"
| "madt_loop (Suc n) m f len r Offset a =
     (if Offset < len then madt_loop n m f len (r + ucast (RecordLength m r)) (Offset + ucast (RecordLength m r)) (f r a)
      else Inr a)"

fun redirect_loop :: "nat \<Rightarrow> bytes_mem \<Rightarrow> u32 \<Rightarrow> u64 \<Rightarrow> u32 \<Rightarrow> u32 \<Rightarrow> u32 \<Rightarrow> (u32 \<times> u32) outcome" where
  "redirect_loop 0 m len r Offset IrqNumber IrqFlags = Inl Hang"
| "redirect_loop (Suc n) m len r Offset IrqNumber IrqFlags =
     (if Offset < len then
        if EntryType m r = ACPI_MADT_RECORD_IO_APIC_ISO \<and> ucast (Iso_IrqSource m r) = IrqNumber
        then Inr (Iso_GlobalSysInterrupt m r, ucast (Iso_Flags m r))
        else redirect_loop n m len (r + ucast (RecordLength m r)) (Offset + ucast (RecordLength m r)) IrqNumber IrqFlags
      else Inr (0, IrqFlags))"

text \<open>The result and the flags, which are left as they were when there is no override; \<open>Madt\<close> is null before the table is read.\<close>

definition GetRedirectedIrq :: "bytes_mem \<Rightarrow> u64 option \<Rightarrow> u32 \<Rightarrow> u32 \<Rightarrow> (u32 \<times> u32) outcome" where
  "GetRedirectedIrq m Madt IrqNumber IrqFlags =
     (case Madt of None \<Rightarrow> Inr (IrqNumber, IrqFlags)
      | Some t \<Rightarrow> redirect_loop (unat (DataBufferLength m t) + 1) m (DataBufferLength m t) (t + of_nat sizeof_ACPI_MADT) 0
                   IrqNumber IrqFlags)"

section \<open>The records of a table\<close>

text \<open>A table as data: records that fill it exactly, none of them empty.\<close>

fun records_at :: "bytes_mem \<Rightarrow> u64 \<Rightarrow> u64 list \<Rightarrow> nat \<Rightarrow> bool" where
  "records_at m a [] n \<longleftrightarrow> n = 0"
| "records_at m a (r # rs) n \<longleftrightarrow>
     r = a \<and> RecordLength m a \<noteq> 0 \<and> unat (RecordLength m a) \<le> n \<and>
     records_at m (a + ucast (RecordLength m a)) rs (n - unat (RecordLength m a))"

lemma records_length: "records_at m b xs k \<Longrightarrow> length xs \<le> k"
proof (induction xs arbitrary: b k)
  case Nil
  then show ?case by simp
next
  case (Cons x xs)
  then have "length xs \<le> k - unat (RecordLength m b)" "0 < unat (RecordLength m b)" "unat (RecordLength m b) \<le> k"
    by (auto simp: unat_gt_0)
  then show ?case unfolding list.size by linarith
qed

lemma record_step:
  assumes "records_at m a (r # rs) n" and "unat off + n = unat len"
  shows "off < len" and "unat (off + ucast (RecordLength m a)) + (n - unat (RecordLength m a)) = unat (len :: u32)"
    and "length rs < n"
proof -
  let ?l = "RecordLength m a"
  have l: "?l \<noteq> 0" "unat ?l \<le> n" using assms(1) by simp_all
  then have pos: "0 < unat ?l" by (simp add: unat_gt_0)
  then show "off < len" using l(2) assms(2) by (simp add: word_less_nat_alt)
  have "unat len < 2 ^ LENGTH(32)" by (rule unsigned_less)
  moreover have u: "unat (ucast ?l :: u32) = unat ?l" by (simp add: unat_ucast_up)
  ultimately have "unat (off + ucast ?l) = unat off + unat ?l"
    using l(2) assms(2) by (simp add: unat_word_ariths)
  then show "unat (off + ucast ?l) + (n - unat ?l) = unat len" using l(2) assms(2) by simp
  show "length rs < n" using records_length [of m a "r # rs" n] assms(1) by simp
qed

lemma madt_loop_fold:
  assumes "records_at m a rs n" and "unat off + n = unat len" and "length rs < fuel"
  shows "madt_loop fuel m f len a off x = Inr (fold f rs x)"
  using assms
proof (induction rs arbitrary: a n off x fuel)
  case Nil
  then obtain k where "fuel = Suc k" by (cases fuel) simp_all
  with Nil show ?case by (simp add: word_less_nat_alt)
next
  case (Cons r rs)
  obtain k where k: "fuel = Suc k" using Cons.prems(3) by (cases fuel) simp_all
  have r: "r = a" "records_at m (a + ucast (RecordLength m a)) rs (n - unat (RecordLength m a))" using Cons.prems(1) by simp_all
  show ?case
    using Cons.IH [OF r(2) record_step(2) [OF Cons.prems(1,2)], of k "f a x"] record_step(1) [OF Cons.prems(1,2)] Cons.prems(3)
    by (simp add: k r(1))
qed

definition overrides :: "bytes_mem \<Rightarrow> u32 \<Rightarrow> u64 \<Rightarrow> bool" where
  "overrides m IrqNumber r \<longleftrightarrow> EntryType m r = ACPI_MADT_RECORD_IO_APIC_ISO \<and> ucast (Iso_IrqSource m r) = IrqNumber"

lemma redirect_loop_first:
  assumes "records_at m a rs n" and "unat off + n = unat len" and "length rs < fuel"
  shows "redirect_loop fuel m len a off irq fl = Inr (case find (overrides m irq) rs of
     None \<Rightarrow> (0, fl) | Some r \<Rightarrow> (Iso_GlobalSysInterrupt m r, ucast (Iso_Flags m r)))"
  using assms
proof (induction rs arbitrary: a n off fuel)
  case Nil
  then obtain k where "fuel = Suc k" by (cases fuel) simp_all
  with Nil show ?case by (simp add: word_less_nat_alt)
next
  case (Cons r rs)
  obtain k where k: "fuel = Suc k" using Cons.prems(3) by (cases fuel) simp_all
  have r: "r = a" "records_at m (a + ucast (RecordLength m a)) rs (n - unat (RecordLength m a))" using Cons.prems(1) by simp_all
  have o: "off < len" by (rule record_step(1) [OF Cons.prems(1,2)])
  show ?case
  proof (cases "overrides m irq a")
    case True
    then show ?thesis using o by (simp add: k r(1) overrides_def)
  next
    case False
    then show ?thesis
      using Cons.IH [OF r(2) record_step(2) [OF Cons.prems(1,2)], of k] o Cons.prems(3)
      by (auto simp: k r(1) overrides_def [of m irq a])
  qed
qed

text \<open>
  C40. Interrupt source overrides.  For a table whose records fill it exactly and have a length, \<open>GetRedirectedIrq\<close> ends and
  answers with the interrupt and the flags of the first override of that source; without one it answers 0 and leaves the flags.
\<close>

theorem GetRedirectedIrq_first:
  assumes "records_at m (t + of_nat sizeof_ACPI_MADT) rs (unat (DataBufferLength m t))"
  shows "GetRedirectedIrq m (Some t) irq fl = Inr (case find (overrides m irq) rs of
     None \<Rightarrow> (0, fl) | Some r \<Rightarrow> (Iso_GlobalSysInterrupt m r, ucast (Iso_Flags m r)))"
  unfolding GetRedirectedIrq_def option.case
  by (rule redirect_loop_first [OF assms]) (use records_length [OF assms] in simp_all)

definition demo_madt :: bytes_mem where
  "demo_madt = sparse [(0x1004, 54), (0x102C, 2), (0x102D, 10), (0x1030, 2), (0x1034, 0xF)]"

theorem GetRedirectedIrq_first_witness:
  "records_at demo_madt (0x1000 + of_nat sizeof_ACPI_MADT) [0x102C] (unat (DataBufferLength demo_madt 0x1000)) \<and>
   GetRedirectedIrq demo_madt (Some 0x1000) 0 0 = Inr (2, 0xF)"
proof -
  have r: "records_at demo_madt (0x1000 + of_nat sizeof_ACPI_MADT) [0x102C] (unat (DataBufferLength demo_madt 0x1000))"
    by (simp add: demo_madt_def DataBufferLength_def madt_Length_def sizeof_ACPI_MADT_def RecordLength_def mem_eval)
  have "find (overrides demo_madt 0) [0x102C] = Some 0x102C"
    by (simp add: demo_madt_def overrides_def EntryType_def Iso_IrqSource_def ACPI_MADT_RECORD_IO_APIC_ISO_def mem_eval)
  moreover have "Iso_GlobalSysInterrupt demo_madt 0x102C = 2" "Iso_Flags demo_madt 0x102C = 0xF"
    by (simp_all add: demo_madt_def Iso_GlobalSysInterrupt_def Iso_Flags_def mem_eval)
  ultimately show ?thesis using r GetRedirectedIrq_first [OF r, of 0 0] by (simp del: records_at.simps)
qed

text \<open>A record of length 0 keeps both loops where they are: no amount of steps is enough.\<close>

lemma empty_record_hangs:
  assumes "RecordLength m r = 0" and "off < len"
  shows "madt_loop n m f len r off x = Inl Hang" and "\<not> overrides m irq r \<Longrightarrow> redirect_loop n m len r off irq fl = Inl Hang"
  using assms by (induction n arbitrary: x) (simp_all add: overrides_def)

text \<open>An override to interrupt 0 cannot be told from no override.\<close>

lemma override_to_zero_lost:
  assumes "records_at m (t + of_nat sizeof_ACPI_MADT) [r] (unat (DataBufferLength m t))" and "overrides m irq r"
    and "Iso_GlobalSysInterrupt m r = 0"
  shows "\<exists>fl'. GetRedirectedIrq m (Some t) irq fl = Inr (0, fl')"
proof -
  have "redirect_loop (unat (DataBufferLength m t) + 1) m (DataBufferLength m t) (t + of_nat sizeof_ACPI_MADT) 0 irq fl =
      Inr (case find (overrides m irq) [r] of None \<Rightarrow> (0, fl) | Some r \<Rightarrow> (Iso_GlobalSysInterrupt m r, ucast (Iso_Flags m r)))"
    by (rule redirect_loop_first [OF assms(1)]) (use records_length [OF assms(1)] in simp_all)
  then show ?thesis using assms(2,3) by (simp add: GetRedirectedIrq_def)
qed

end
