(* ===== verification/Io_Apic.thy ===== *)
theory Io_Apic
  imports Acpi_Madt Paging
begin

text \<open>
  The I/O interrupt controllers (\<open>CPU/ioapic.c\<close>), the reading of the ACPI table that lists them (\<open>acpi/madt.c\<close>) and the activation
  of the local controller (\<open>CPU/cpu.c\<close>).  The controllers themselves are hardware: the processor's memory-mapped accesses are
  the argument \<open>mmio\<close> over an arbitrary machine state, and \<open>ioapic_registers\<close> states what a controller guarantees: the register
  whose number was stored to its select register is read and written through its window, for the registers it has.  A controller is known by the
  address of its record in the table, 0 being null.
\<close>

record 's mmio =
  store32 :: "u64 \<Rightarrow> u32 \<Rightarrow> 's \<Rightarrow> 's"
  load32 :: "u64 \<Rightarrow> 's \<Rightarrow> u32 \<times> 's"
  write_msr :: "u32 \<Rightarrow> u64 \<Rightarrow> 's \<Rightarrow> 's"

record 's apic_env =
  ae_mem :: bytes_mem
  ae_io :: "'s mmio"
  ae_NX :: bool
  ae_PageMap :: u64

record 's APIC_STATE =
  TMP_IoApicList :: "u64 list"
  SortedIoApics :: "u64 list"
  NumIoApics :: u32
  AcpiNumProcessors :: u32
  Madt :: "u64 option"
  LocalApicPhysicalAddress :: u64
  apic_pages :: "pt_mem \<times> u64 list"
  apic_hw :: 's

definition MAX_IOAPICS :: nat where "MAX_IOAPICS = 0x100"
definition IOAPIC_REGSEL :: u64 where "IOAPIC_REGSEL = 0"
definition IOAPIC_WIN :: u64 where "IOAPIC_WIN = 0x10"
definition IOAPIC_VER :: u8 where "IOAPIC_VER = 1"
definition IOAPIC_REDIRECTION_TABLE_BASE :: u8 where "IOAPIC_REDIRECTION_TABLE_BASE = 0x10"
definition LAPIC_PAGE_COUNT :: nat where "LAPIC_PAGE_COUNT = 120"

section \<open>Registers of a controller\<close>

definition io_base :: "'s apic_env \<Rightarrow> u64 \<Rightarrow> u64" where
  "io_base env r = ucast (IoApicAddress (ae_mem env) r)"

definition IoApicRead :: "'s apic_env \<Rightarrow> u64 \<Rightarrow> u8 \<Rightarrow> 's \<Rightarrow> u32 \<times> 's" where
  "IoApicRead env IoApic AddressOffset s =
     load32 (ae_io env) (io_base env IoApic + IOAPIC_WIN)
       (store32 (ae_io env) (io_base env IoApic + IOAPIC_REGSEL) (ucast AddressOffset) s)"

definition IoApicWrite :: "'s apic_env \<Rightarrow> u64 \<Rightarrow> u8 \<Rightarrow> u32 \<Rightarrow> 's \<Rightarrow> 's" where
  "IoApicWrite env IoApic AddressOffset Value s =
     store32 (ae_io env) (io_base env IoApic + IOAPIC_WIN) Value
       (store32 (ae_io env) (io_base env IoApic + IOAPIC_REGSEL) (ucast AddressOffset) s)"

definition IoApicGetMaxRedirectionEntry :: "'s apic_env \<Rightarrow> u64 \<Rightarrow> 's \<Rightarrow> u8 \<times> 's" where
  "IoApicGetMaxRedirectionEntry env IoApic s =
     (case IoApicRead env IoApic IOAPIC_VER s of (IoApicVer, s1) \<Rightarrow> (ucast (drop_bit 16 IoApicVer AND 0xFF), s1))"

text \<open>\<open>IOAPIC_REDTBL\<close> and the quad word the compiler lays it out as.\<close>

record IOAPIC_REDTBL =
  rt_InterruptVector :: u8
  rt_DeliveryMode :: u8
  rt_DestinationMode :: bool
  rt_InterruptInputPinPolarity :: bool
  rt_TriggerMode :: bool
  rt_InterruptMask :: bool
  rt_DestinationField :: u8

definition bit_at :: "nat \<Rightarrow> bool \<Rightarrow> u64" where
  "bit_at n b = (if b then push_bit n 1 else 0)"

definition redtbl_word :: "IOAPIC_REDTBL \<Rightarrow> u64" where
  "redtbl_word e = ucast (rt_InterruptVector e) OR push_bit 8 (ucast (rt_DeliveryMode e AND 7)) OR bit_at 11 (rt_DestinationMode e) OR
     bit_at 13 (rt_InterruptInputPinPolarity e) OR bit_at 15 (rt_TriggerMode e) OR bit_at 16 (rt_InterruptMask e) OR
     push_bit 56 (ucast (rt_DestinationField e))"

definition REDTBL_zero :: IOAPIC_REDTBL where
  "REDTBL_zero = \<lparr> rt_InterruptVector = 0, rt_DeliveryMode = 0, rt_DestinationMode = False, rt_InterruptInputPinPolarity = False,
     rt_TriggerMode = False, rt_InterruptMask = False, rt_DestinationField = 0 \<rparr>"

definition redir_offset :: "u8 \<Rightarrow> u8" where
  "redir_offset idx = IOAPIC_REDIRECTION_TABLE_BASE + push_bit 1 idx"

definition IoApicReadRedirectionTable :: "'s apic_env \<Rightarrow> u64 \<Rightarrow> u8 \<Rightarrow> 's \<Rightarrow> (u64 \<times> 's) outcome" where
  "IoApicReadRedirectionTable env IoApic idx s =
     (case IoApicGetMaxRedirectionEntry env IoApic s of (mx, s1) \<Rightarrow>
        if idx > mx then Inl SOD else
        (case IoApicRead env IoApic (redir_offset idx) s1 of (low, s2) \<Rightarrow>
         case IoApicRead env IoApic (redir_offset idx + 1) s2 of (High, s3) \<Rightarrow>
           Inr (ucast low OR push_bit 32 (ucast High), s3)))"

definition IoApicWriteRedirectionTable :: "'s apic_env \<Rightarrow> u64 \<Rightarrow> u8 \<Rightarrow> u64 \<Rightarrow> 's \<Rightarrow> 's outcome" where
  "IoApicWriteRedirectionTable env IoApic idx QRedTbl s =
     (case IoApicGetMaxRedirectionEntry env IoApic s of (mx, s1) \<Rightarrow>
        if idx > mx then Inl SOD else
        Inr (IoApicWrite env IoApic (redir_offset idx + 1) (ucast (drop_bit 32 QRedTbl))
               (IoApicWrite env IoApic (redir_offset idx) (ucast QRedTbl) s1)))"

section \<open>The list of controllers\<close>

definition IoApicInit :: "'s apic_env \<Rightarrow> u64 \<Rightarrow> 's APIC_STATE \<Rightarrow> 's APIC_STATE" where
  "IoApicInit env IoApic st =
     (let i = unat (IoApicId (ae_mem env) IoApic)
      in if TMP_IoApicList st ! i \<noteq> 0 then st
         else st\<lparr> TMP_IoApicList := (TMP_IoApicList st)[i := IoApic], NumIoApics := NumIoApics st + 1 \<rparr>)"

definition QueryIoApicByPhysicalId :: "'s APIC_STATE \<Rightarrow> u8 \<Rightarrow> u64" where
  "QueryIoApicByPhysicalId st i = TMP_IoApicList st ! unat i"

definition QueryIoApic :: "'s APIC_STATE \<Rightarrow> u8 \<Rightarrow> u64" where
  "QueryIoApic st i = (if ucast i \<ge> NumIoApics st then 0 else SortedIoApics st ! unat i)"

definition mask_entry :: u64 where
  "mask_entry = redtbl_word (REDTBL_zero\<lparr> rt_InterruptMask := True \<rparr>)"

fun mask_all :: "'s apic_env \<Rightarrow> u64 \<Rightarrow> nat list \<Rightarrow> 's \<Rightarrow> 's outcome" where
  "mask_all env IoApic [] s = Inr s"
| "mask_all env IoApic (c # cs) s =
     andThen (IoApicWriteRedirectionTable env IoApic (of_nat c) mask_entry s) (mask_all env IoApic cs)"

text \<open>One round of \<open>SortIoApics\<close> for a controller that is present: map it, append it, mask its entries.\<close>

definition sort_one :: "'s apic_env \<Rightarrow> u64 \<Rightarrow> nat \<Rightarrow> 's APIC_STATE \<Rightarrow> 's APIC_STATE outcome" where
  "sort_one env IoApic n st =
     andThen (MapPhysicalPages (ae_NX env) (apic_pages st) (ae_PageMap env) (io_base env IoApic) (io_base env IoApic) 1
                (PM_MAP OR PM_CACHE_DISABLE)) (\<lambda>pages.
     andThen (array_set (SortedIoApics st) n IoApic) (\<lambda>sorted.
     case IoApicGetMaxRedirectionEntry env IoApic (apic_hw st) of (mx, s1) \<Rightarrow>
       andThen (mask_all env IoApic [0..<unat mx + 1] s1) (\<lambda>s2.
       Inr (st\<lparr> apic_pages := pages, SortedIoApics := sorted, apic_hw := s2 \<rparr>))))"

fun sort_loop :: "'s apic_env \<Rightarrow> nat list \<Rightarrow> nat \<Rightarrow> 's APIC_STATE \<Rightarrow> ('s APIC_STATE \<times> nat) outcome" where
  "sort_loop env [] n st = Inr (st, n)"
| "sort_loop env (i # is) n st =
     (if n = unat (NumIoApics st) then Inr (st, n)
      else let IoApic = QueryIoApicByPhysicalId st (of_nat i)
           in if IoApic \<noteq> 0 then andThen (sort_one env IoApic n st) (\<lambda>st'. sort_loop env is (Suc n) st')
              else sort_loop env is n st)"

definition SortIoApics :: "'s apic_env \<Rightarrow> 's APIC_STATE \<Rightarrow> 's APIC_STATE outcome" where
  "SortIoApics env st =
     andThen (sort_loop env [0..<MAX_IOAPICS] 0 st) (\<lambda>(st', n). if n \<noteq> unat (NumIoApics st') then Inl SOD else Inr st')"

section \<open>Reading the table\<close>

definition SetLocalApicBase :: "'s mmio \<Rightarrow> u64 \<Rightarrow> 's \<Rightarrow> 's" where
  "SetLocalApicBase io Lapic s = write_msr io 0x1B (Lapic OR 0x800) s"

definition EnableApic :: "'s apic_env \<Rightarrow> 's APIC_STATE \<Rightarrow> 's APIC_STATE" where
  "EnableApic env st =
     (let io = ae_io env; l = LocalApicPhysicalAddress st
      in st\<lparr> apic_hw := store32 io (l + 0x370) 0x45 (store32 io (l + 0xF0) (0xFF OR 0x100) (store32 io (l + 0x80) 0
               (store32 io (l + 0xE0) (push_bit 28 0xF) (store32 io (l + 0xD0) 0 (SetLocalApicBase io l (apic_hw st)))))) \<rparr>)"

definition madt_record :: "'s apic_env \<Rightarrow> u64 \<Rightarrow> 's APIC_STATE \<Rightarrow> 's APIC_STATE" where
  "madt_record env r st =
     (let t = EntryType (ae_mem env) r
      in if t = ACPI_MADT_RECORD_PROCESSOR_LAPIC then
           if Lapic_Flags (ae_mem env) r AND 3 \<noteq> 0 then st\<lparr> AcpiNumProcessors := AcpiNumProcessors st + 1 \<rparr> else st
         else if t = ACPI_MADT_RECORD_LOCAL_APIC_AO then st\<lparr> LocalApicPhysicalAddress := PhysLocalApicAddress (ae_mem env) r \<rparr>
         else if t = ACPI_MADT_RECORD_IO_APIC then IoApicInit env r st
         else st)"

definition AcpiReadMadt :: "'s apic_env \<Rightarrow> u64 \<Rightarrow> 's APIC_STATE \<Rightarrow> 's APIC_STATE outcome" where
  "AcpiReadMadt env Sdt st =
     (let m = ae_mem env; len = DataBufferLength m Sdt
      in andThen (madt_loop (unat len + 1) m (madt_record env) len (Sdt + of_nat sizeof_ACPI_MADT) 0
                    (st\<lparr> Madt := Some Sdt, LocalApicPhysicalAddress := ucast (LocalApicAddress m Sdt) \<rparr>)) (\<lambda>st1.
         andThen (MapPhysicalPages (ae_NX env) (apic_pages st1) (ae_PageMap env) (LocalApicPhysicalAddress st1)
                    (LocalApicPhysicalAddress st1) LAPIC_PAGE_COUNT (PM_MAP OR PM_CACHE_DISABLE)) (\<lambda>pages.
         SortIoApics env (EnableApic env (st1\<lparr> apic_pages := pages \<rparr>)))))"

section \<open>What a controller guarantees\<close>

text \<open>
  \<open>reg s a k\<close> is what software has put into register \<open>k\<close> of the controller at \<open>a\<close>: in a redirection entry the delivery status, the
  remote request bit and the reserved bits belong to the controller, and nothing is said of them.
\<close>

definition writable_bits :: "u8 \<Rightarrow> u32" where
  "writable_bits off = (if off < IOAPIC_REDIRECTION_TABLE_BASE then - 1 else if bit off 0 then 0xFF000000 else 0x1AFFF)"

definition REDTBL_WRITABLE :: u64 where "REDTBL_WRITABLE = 0xFF0000000001AFFF"

definition redirection :: "('s \<Rightarrow> u64 \<Rightarrow> u8 \<Rightarrow> u32) \<Rightarrow> 's \<Rightarrow> u64 \<Rightarrow> u8 \<Rightarrow> u64" where
  "redirection reg s a idx = ucast (reg s a (redir_offset idx)) OR push_bit 32 (ucast (reg s a (redir_offset idx + 1)))"

definition max_entry :: "('s \<Rightarrow> u64 \<Rightarrow> u8 \<Rightarrow> u32) \<Rightarrow> 's \<Rightarrow> u64 \<Rightarrow> u8" where
  "max_entry reg s a = ucast (drop_bit 16 (reg s a IOAPIC_VER) AND 0xFF)"

text \<open>
  A controller with \<open>max_entry + 1\<close> redirection entries has their registers and the identification, version and arbitration registers;
  nothing is said of the other register numbers, which are reserved, and \<open>reg\<close> may be any constant there.
\<close>

definition table_register :: "('s \<Rightarrow> u64 \<Rightarrow> u8 \<Rightarrow> u32) \<Rightarrow> 's \<Rightarrow> u64 \<Rightarrow> u8 \<Rightarrow> bool" where
  "table_register reg s a off \<longleftrightarrow> 0x10 \<le> unat off \<and> unat off < 0x12 + 2 * unat (max_entry reg s a)"

definition ioapic_registers :: "'s mmio \<Rightarrow> ('s \<Rightarrow> u64 \<Rightarrow> u8 \<Rightarrow> u32) \<Rightarrow> u64 set \<Rightarrow> bool" where
  "ioapic_registers io reg A \<longleftrightarrow>
     (\<forall>s. \<forall>a \<in> A. \<forall>off. off = IOAPIC_VER \<or> table_register reg s a off \<longrightarrow>
        fst (load32 io (a + IOAPIC_WIN) (store32 io (a + IOAPIC_REGSEL) (ucast off) s)) AND writable_bits off = reg s a off \<and>
        (\<forall>b \<in> A. \<forall>k. reg (snd (load32 io (a + IOAPIC_WIN) (store32 io (a + IOAPIC_REGSEL) (ucast off) s))) b k = reg s b k)) \<and>
     (\<forall>s. \<forall>a \<in> A. \<forall>off v. table_register reg s a off \<longrightarrow>
        (\<forall>b \<in> A. \<forall>k. reg (store32 io (a + IOAPIC_WIN) v (store32 io (a + IOAPIC_REGSEL) (ucast off) s)) b k =
          (if b = a \<and> k = off then v AND writable_bits off else reg s b k)))"

lemma registers_read:
  assumes "ioapic_registers (ae_io env) reg A" and "io_base env r \<in> A" and "off = IOAPIC_VER \<or> table_register reg s (io_base env r) off"
  shows "fst (IoApicRead env r off s) AND writable_bits off = reg s (io_base env r) off"
    and "b \<in> A \<Longrightarrow> reg (snd (IoApicRead env r off s)) b k = reg s b k"
  using assms by (auto simp: ioapic_registers_def IoApicRead_def)

lemma registers_write:
  assumes "ioapic_registers (ae_io env) reg A" and "io_base env r \<in> A" and "table_register reg s (io_base env r) off" and "b \<in> A"
  shows "reg (IoApicWrite env r off v s) b k = (if b = io_base env r \<and> k = off then v AND writable_bits off else reg s b k)"
  using assms by (simp add: ioapic_registers_def IoApicWrite_def)

lemma registers_max:
  assumes "ioapic_registers (ae_io env) reg A" and "io_base env r \<in> A"
  obtains s1 where "IoApicGetMaxRedirectionEntry env r s = (max_entry reg s (io_base env r), s1)"
    and "\<forall>b \<in> A. \<forall>k. reg s1 b k = reg s b k"
proof -
  obtain v s1 where v: "IoApicRead env r IOAPIC_VER s = (v, s1)" by (cases "IoApicRead env r IOAPIC_VER s")
  have "writable_bits IOAPIC_VER = - 1"
    by (simp add: writable_bits_def IOAPIC_VER_def IOAPIC_REDIRECTION_TABLE_BASE_def)
  then have "v = reg s (io_base env r) IOAPIC_VER" "\<forall>b \<in> A. \<forall>k. reg s1 b k = reg s b k"
    using registers_read [OF assms, where off = IOAPIC_VER and s = s] v by auto
  then show ?thesis using that [of s1] v by (simp add: IoApicGetMaxRedirectionEntry_def max_entry_def)
qed

lemma unat_redir_offset: "unat idx < 120 \<Longrightarrow> unat (redir_offset idx) = 0x10 + 2 * unat idx"
proof -
  assume i: "unat idx < 120"
  have "push_bit 1 idx = 2 * idx" by (simp add: push_bit_eq_mult)
  then have "unat (push_bit 1 idx) = 2 * unat idx" using i by (simp add: unat_word_ariths)
  then show ?thesis using i by (simp add: redir_offset_def IOAPIC_REDIRECTION_TABLE_BASE_def unat_word_ariths)
qed

lemma redir_offset_range:
  assumes "unat idx < 120"
  shows "redir_offset idx \<ge> IOAPIC_REDIRECTION_TABLE_BASE" "redir_offset idx + 1 \<ge> IOAPIC_REDIRECTION_TABLE_BASE"
    "redir_offset idx + 1 \<noteq> redir_offset idx" "unat (redir_offset idx + 1) = 0x11 + 2 * unat idx"
  using unat_redir_offset [OF assms] assms
  by (simp_all add: word_le_nat_alt IOAPIC_REDIRECTION_TABLE_BASE_def unat_word_ariths)

lemma writable_redir:
  assumes "unat idx < 120"
  shows "writable_bits (redir_offset idx) = 0x1AFFF" "writable_bits (redir_offset idx + 1) = 0xFF000000"
proof -
  have "even (unat (redir_offset idx))" "odd (unat (redir_offset idx + 1))"
    using unat_redir_offset [OF assms] redir_offset_range(4) [OF assms] by simp_all
  moreover have "odd (unat x) \<longleftrightarrow> bit x 0" for x :: u8 by (simp add: bit_unsigned_iff flip: bit_0)
  ultimately have "\<not> bit (redir_offset idx) 0" "bit (redir_offset idx + 1) 0" by blast+
  then show "writable_bits (redir_offset idx) = 0x1AFFF" "writable_bits (redir_offset idx + 1) = 0xFF000000"
    using redir_offset_range(1,2) [OF assms] by (simp_all add: writable_bits_def)
qed

lemma quad_halves: "ucast (ucast q :: u32) OR push_bit 32 (ucast (ucast (drop_bit 32 q) :: u32)) = (q :: u64)"
  by (rule bit_word_eqI) (auto simp: bit_simps)

lemma quad_and:
  "ucast (lo AND x :: u32) OR push_bit 32 (ucast (hi AND y :: u32)) =
     (ucast lo OR push_bit 32 (ucast hi)) AND (ucast x OR push_bit 32 (ucast y) :: u64)"
  by (rule bit_word_eqI) (auto simp: bit_simps dest: bit_imp_le_length)

lemma quad_writable:
  "ucast (lo AND 0x1AFFF :: u32) OR push_bit 32 (ucast (hi AND 0xFF000000 :: u32)) =
     (ucast lo OR push_bit 32 (ucast hi)) AND REDTBL_WRITABLE"
  unfolding quad_and by (simp add: REDTBL_WRITABLE_def)

lemma table_register_redir:
  assumes "idx \<le> max_entry reg s a" and "unat idx < 120"
  shows "table_register reg s a (redir_offset idx)" "table_register reg s a (redir_offset idx + 1)"
  using assms(1) unat_redir_offset [OF assms(2)] redir_offset_range(4) [OF assms(2)]
  by (simp_all add: table_register_def word_le_nat_alt)

text \<open>The registers of a redirection entry.\<close>

definition redir_regs :: "u8 \<Rightarrow> u8 set" where
  "redir_regs idx = {redir_offset idx, redir_offset idx + 1}"

lemma write_redirection:
  assumes io: "ioapic_registers (ae_io env) reg A" "io_base env r \<in> A"
    and idx: "idx \<le> max_entry reg s (io_base env r)" "unat idx < 120"
  obtains s' where "IoApicWriteRedirectionTable env r idx q s = Inr s'"
    and "redirection reg s' (io_base env r) idx = q AND REDTBL_WRITABLE"
    and "\<forall>b \<in> A. \<forall>k. (b \<noteq> io_base env r \<or> k \<notin> redir_regs idx) \<longrightarrow> reg s' b k = reg s b k"
proof -
  obtain s1 where s1: "IoApicGetMaxRedirectionEntry env r s = (max_entry reg s (io_base env r), s1)"
    "\<forall>b \<in> A. \<forall>k. reg s1 b k = reg s b k" using registers_max [OF io] .
  define s' where "s' = IoApicWrite env r (redir_offset idx + 1) (ucast (drop_bit 32 q)) (IoApicWrite env r (redir_offset idx) (ucast q) s1)"
  note rng = redir_offset_range [OF idx(2)]
  have m1: "idx \<le> max_entry reg s1 (io_base env r)" using idx(1) s1(2) io(2) by (simp add: max_entry_def)
  note w1 = registers_write [OF io table_register_redir(1) [OF m1 idx(2)]]
  have "IOAPIC_VER \<noteq> redir_offset idx" using unat_redir_offset [OF idx(2)] by (auto simp: IOAPIC_VER_def)
  then have m2: "idx \<le> max_entry reg (IoApicWrite env r (redir_offset idx) (ucast q) s1) (io_base env r)"
    using m1 by (simp add: max_entry_def w1 [OF io(2)])
  note wr = w1 registers_write [OF io table_register_redir(2) [OF m2 idx(2)]]
  have w: "reg s' b k = (if b = io_base env r \<and> k = redir_offset idx + 1 then ucast (drop_bit 32 q) AND 0xFF000000
      else if b = io_base env r \<and> k = redir_offset idx then ucast q AND 0x1AFFF else reg s b k)" if "b \<in> A" for b k
    unfolding s'_def wr(2) [OF that] wr(1) [OF that] using s1(2) that by (simp add: writable_redir [OF idx(2)])
  show ?thesis
  proof (rule that)
    show "IoApicWriteRedirectionTable env r idx q s = Inr s'"
      using idx(1) by (simp add: IoApicWriteRedirectionTable_def s1(1) s'_def)
    show "redirection reg s' (io_base env r) idx = q AND REDTBL_WRITABLE"
      unfolding redirection_def w [OF io(2)] using rng(3) by (simp add: quad_writable quad_halves)
    show "\<forall>b \<in> A. \<forall>k. (b \<noteq> io_base env r \<or> k \<notin> redir_regs idx) \<longrightarrow> reg s' b k = reg s b k"
      by (simp add: w redir_regs_def)
  qed
qed

lemma redir_regs_disjoint:
  assumes "unat i < 120" and "unat j < 120" and "i \<noteq> j"
  shows "redir_regs i \<inter> redir_regs j = {}"
proof -
  have "unat i \<noteq> unat j" using assms(3) by (simp add: word_unat_eq_iff)
  moreover have "unat ` redir_regs k = {0x10 + 2 * unat k, 0x11 + 2 * unat k}" if "unat k < 120" for k
    using unat_redir_offset [OF that] redir_offset_range(4) [OF that] by (simp add: redir_regs_def)
  ultimately have "unat ` redir_regs i \<inter> unat ` redir_regs j = {}" using assms(1,2) by auto
  then show ?thesis by blast
qed

lemma version_not_redir: "unat idx < 120 \<Longrightarrow> IOAPIC_VER \<notin> redir_regs idx"
  using unat_redir_offset [of idx] redir_offset_range(4) [of idx]
  by (auto simp: redir_regs_def IOAPIC_VER_def)

lemma redirection_kept:
  assumes "\<forall>k. k \<notin> redir_regs i \<longrightarrow> reg s' a k = reg s a k" and "unat i < 120"
  shows "unat j < 120 \<Longrightarrow> i \<noteq> j \<Longrightarrow> redirection reg s' a j = redirection reg s a j" and "max_entry reg s' a = max_entry reg s a"
proof -
  show "redirection reg s' a j = redirection reg s a j" if "unat j < 120" "i \<noteq> j"
  proof -
    have "redir_offset j \<notin> redir_regs i" "redir_offset j + 1 \<notin> redir_regs i"
      using redir_regs_disjoint [OF assms(2) that] by (auto simp: redir_regs_def)
    then show ?thesis using assms(1) by (simp add: redirection_def)
  qed
  show "max_entry reg s' a = max_entry reg s a" using assms(1) version_not_redir [OF assms(2)] by (simp add: max_entry_def)
qed

text \<open>
  C23. Redirection entries round-trip.  For a controller that keeps the registers of its table and an index within it (and below 120, the
  most the register numbers allow), writing an entry and reading it back gives the same bits wherever the entry is writable, and neither changes another entry of any controller.
\<close>

theorem redirection_entry_round_trip:
  assumes "ioapic_registers (ae_io env) reg A" and "io_base env r \<in> A" and "idx \<le> max_entry reg s (io_base env r)" and "unat idx < 120"
  shows "\<exists>s' q' s''. IoApicWriteRedirectionTable env r idx q s = Inr s' \<and> IoApicReadRedirectionTable env r idx s' = Inr (q', s'') \<and>
     q' AND REDTBL_WRITABLE = q AND REDTBL_WRITABLE \<and>
     (\<forall>b \<in> A. \<forall>j. (b \<noteq> io_base env r \<or> j \<noteq> idx) \<and> unat j < 120 \<longrightarrow> redirection reg s'' b j = redirection reg s b j)"
proof -
  note io = assms(1,2)
  obtain s' where s': "IoApicWriteRedirectionTable env r idx q s = Inr s'" "redirection reg s' (io_base env r) idx = q AND REDTBL_WRITABLE"
    "\<forall>b \<in> A. \<forall>k. (b \<noteq> io_base env r \<or> k \<notin> redir_regs idx) \<longrightarrow> reg s' b k = reg s b k"
    using write_redirection [OF io assms(3,4)] .
  have mx: "max_entry reg s' (io_base env r) = max_entry reg s (io_base env r)"
    using s'(3) io(2) version_not_redir [OF assms(4)] by (simp add: max_entry_def)
  obtain s1 where s1: "IoApicGetMaxRedirectionEntry env r s' = (max_entry reg s' (io_base env r), s1)"
    "\<forall>b \<in> A. \<forall>k. reg s1 b k = reg s' b k" using registers_max [OF io] .
  obtain lo s2 where s2: "IoApicRead env r (redir_offset idx) s1 = (lo, s2)" by (cases "IoApicRead env r (redir_offset idx) s1")
  obtain hi s3 where s3: "IoApicRead env r (redir_offset idx + 1) s2 = (hi, s3)" by (cases "IoApicRead env r (redir_offset idx + 1) s2")
  note wb = writable_redir [OF assms(4)]
  have lo: "lo AND 0x1AFFF = reg s' (io_base env r) (redir_offset idx)" "\<forall>b \<in> A. \<forall>k. reg s2 b k = reg s' b k"
    using registers_read [OF io, where off = "redir_offset idx" and s = s1] table_register_redir(1) [of idx reg s1 "io_base env r"]
      assms(3,4) mx s2 s1(2) io(2) by (auto simp: wb max_entry_def)
  have hi: "hi AND 0xFF000000 = reg s' (io_base env r) (redir_offset idx + 1)" "\<forall>b \<in> A. \<forall>k. reg s3 b k = reg s' b k"
    using registers_read [OF io, where off = "redir_offset idx + 1" and s = s2] table_register_redir(2) [of idx reg s2 "io_base env r"]
      assms(3,4) mx s3 lo(2) io(2) by (auto simp: wb max_entry_def)
  have "IoApicReadRedirectionTable env r idx s' = Inr (ucast lo OR push_bit 32 (ucast hi), s3)"
    using assms(3) by (simp add: IoApicReadRedirectionTable_def s1(1) s2 s3 mx)
  moreover have "(ucast lo OR push_bit 32 (ucast hi)) AND REDTBL_WRITABLE = q AND REDTBL_WRITABLE"
    using s'(2) unfolding redirection_def quad_writable [symmetric] by (simp only: lo(1) hi(1))
  moreover have "redirection reg s3 b j = redirection reg s b j"
    if "b \<in> A" "b \<noteq> io_base env r \<or> j \<noteq> idx" "unat j < 120" for b j
  proof (cases "b = io_base env r")
    case True
    then have "redirection reg s' b j = redirection reg s b j"
      using redirection_kept(1) [of idx reg s' b s j] s'(3) that assms(4) by auto
    then show ?thesis using hi(2) that(1) by (simp add: redirection_def)
  next
    case False
    then show ?thesis using hi(2) s'(3) that(1) by (simp add: redirection_def)
  qed
  ultimately show ?thesis using s'(1) by blast
qed

text \<open>A controller of three entries at \<open>0xFEC00000\<close>: its selected register, and its registers, of which 16 to 21 can be stored to.\<close>

definition one_ioapic :: "(u32 \<times> (u8 \<Rightarrow> u32)) mmio" where
  "one_ioapic = \<lparr> store32 = (\<lambda>a v (sel, regs).
       if a = 0xFEC00000 then (v, regs)
       else if a = 0xFEC00010 \<and> 16 \<le> sel \<and> sel \<le> 21 then (sel, regs(ucast sel := v)) else (sel, regs)),
     load32 = (\<lambda>a (sel, regs). (if sel = 1 then 0x20011 else if 16 \<le> sel \<and> sel \<le> 21 then regs (ucast sel) else 0, (sel, regs))),
     write_msr = (\<lambda>i v s. s) \<rparr>"

definition one_reg :: "u32 \<times> (u8 \<Rightarrow> u32) \<Rightarrow> u64 \<Rightarrow> u8 \<Rightarrow> u32" where
  "one_reg s a k = (if k = 1 then 0x20011 else if 16 \<le> k \<and> k \<le> 21 then snd s k AND writable_bits k else 0)"

lemma one_max: "max_entry one_reg s a = 2"
  by (simp add: max_entry_def one_reg_def IOAPIC_VER_def)

lemma one_ioapic_registers: "ioapic_registers one_ioapic one_reg {0xFEC00000}"
proof -
  have u: "ucast (ucast off :: u32) = off" for off :: u8 by (rule bit_word_eqI) (simp add: bit_simps)
  have n: "unat (ucast off :: u32) = unat off" for off :: u8 by (simp add: unat_ucast_up)
  have c: "(ucast off :: u32) = 1 \<longleftrightarrow> off = 1" "16 \<le> (ucast off :: u32) \<longleftrightarrow> 16 \<le> off" "(ucast off :: u32) \<le> 21 \<longleftrightarrow> off \<le> 21" for off :: u8
    by (simp_all add: word_le_nat_alt word_unat_eq_iff n)
  have t: "table_register one_reg s a off \<longleftrightarrow> 16 \<le> off \<and> off \<le> 21" for s a off
    by (simp add: table_register_def one_max word_le_nat_alt) linarith
  have v: "writable_bits 1 = - 1" "0x20011 AND (- 1 :: u32) = 0x20011" by (simp_all add: writable_bits_def IOAPIC_REDIRECTION_TABLE_BASE_def)
  have n1: "\<not> 16 \<le> (1 :: u8)" by (simp add: word_le_nat_alt)
  have "fst (load32 one_ioapic (0xFEC00000 + IOAPIC_WIN) (store32 one_ioapic (0xFEC00000 + IOAPIC_REGSEL) (ucast off) s)) AND writable_bits off =
        one_reg s 0xFEC00000 off \<and>
      one_reg (snd (load32 one_ioapic (0xFEC00000 + IOAPIC_WIN) (store32 one_ioapic (0xFEC00000 + IOAPIC_REGSEL) (ucast off) s))) b k =
        one_reg s b k"
    if "off = IOAPIC_VER \<or> table_register one_reg s a off" for s a b off k
    using that unfolding t IOAPIC_VER_def
    by (cases s) (auto simp: one_ioapic_def one_reg_def IOAPIC_WIN_def IOAPIC_REGSEL_def c u v n1)
  moreover have "one_reg (store32 one_ioapic (0xFEC00000 + IOAPIC_WIN) w (store32 one_ioapic (0xFEC00000 + IOAPIC_REGSEL) (ucast off) s)) b k =
      (if k = off then w AND writable_bits off else one_reg s b k)" if "table_register one_reg s a off" for s a b off k w
    using that unfolding t
    by (cases s) (auto simp: one_ioapic_def one_reg_def IOAPIC_WIN_def IOAPIC_REGSEL_def c u n1)
  ultimately show ?thesis unfolding ioapic_registers_def by simp
qed

definition one_env :: "(u32 \<times> (u8 \<Rightarrow> u32)) apic_env" where
  "one_env = \<lparr> ae_mem = sparse [(0x106, 0xC0), (0x107, 0xFE)], ae_io = one_ioapic, ae_NX = True, ae_PageMap = 0x1000 \<rparr>"

lemma one_base: "io_base one_env 0x100 = 0xFEC00000"
  by (simp add: io_base_def one_env_def IoApicAddress_def mem_eval)

theorem redirection_entry_round_trip_witness:
  "\<exists>s' q' s''. IoApicWriteRedirectionTable one_env 0x100 1 0x0300000000002031 (0, \<lambda>_. 0) = Inr s' \<and>
     IoApicReadRedirectionTable one_env 0x100 1 s' = Inr (q', s'') \<and> q' AND REDTBL_WRITABLE = 0x0300000000002031 AND REDTBL_WRITABLE"
proof -
  let ?s = "(0, \<lambda>_. 0) :: u32 \<times> (u8 \<Rightarrow> u32)"
  have io: "ioapic_registers (ae_io one_env) one_reg {0xFEC00000}" using one_ioapic_registers by (simp add: one_env_def)
  have "1 \<le> max_entry one_reg ?s (io_base one_env 0x100)" by (simp add: one_max)
  from redirection_entry_round_trip [OF io _ this, of "0x0300000000002031"] show ?thesis by (auto simp: one_base)
qed

end
