(* ===== verification/Irq_Control.thy ===== *)
theory Irq_Control
  imports Io_Apic Pci_Config
begin

text \<open>
  Interrupt gates and the assignment of interrupt lines (\<open>interrupt_manager/idt.c\<close>).  The descriptor table has 256 entries and
  is indexed by a byte, so it is a function; the control tables of the processors are lists of \<open>NUM_IRQS_PER_PROCESSOR\<close>
  descriptors.  Handlers, processes and devices are addresses.  \<open>irq_env\<close> holds what the code reads: the assembly entry points
  (\<open>GlobalWrapperPointer\<close>, \<open>gIRQCtrlWrapPtr\<close>), the number and identifiers of the processors, the current process and the ports.
\<close>

section \<open>Gates\<close>

record IDT_ENTRY =
  offset_low :: u16
  segment_selector :: u16
  ist :: u8
  gate_type :: u8
  dpl :: u8
  gate_present :: bool
  offset_mid :: u16
  offset_high :: u32

record IRQ_CONTROL_DESCRIPTOR =
  icd_Present :: bool
  VirtualIoApicId :: u8
  PhysicalIrqNumber :: u8
  IoApicIrqNumber :: u8
  icd_Flags :: u32
  icd_Process :: u64
  icd_Handler :: u64
  InterruptVector :: u8
  LapicId :: u32
  icd_Source :: u32
  icd_Device :: u64
  icd_Driver :: u64

record 's irq_env =
  ie_apic :: "'s apic_env"
  ie_ports :: "'s port_io"
  GlobalWrapperPointer :: "u8 \<Rightarrow> u64"
  gIRQCtrlWrapPtr :: "u8 \<Rightarrow> u64"
  irq_NumProcessors :: u32
  irq_ProcessorId :: "nat \<Rightarrow> u32"
  irq_CurrentProcess :: u64

record 's IRQ_STATE =
  KERNEL_IDT :: "u8 \<Rightarrow> IDT_ENTRY"
  GlobalIsrPointer :: "u8 \<Rightarrow> u64"
  gIRQ_MGR_ProcessorSwitch :: u32
  gIRQ_MGR_MUTEX :: u64
  IrqControlTables :: "IRQ_CONTROL_DESCRIPTOR list list"
  rflags :: u64
  apics :: "'s APIC_STATE"

definition NUM_IRQS_PER_PROCESSOR :: nat where "NUM_IRQS_PER_PROCESSOR = 0xE0"
definition IDT_INTERRUPT_GATE :: u8 where "IDT_INTERRUPT_GATE = 14"
definition INTERRUPT_SOURCE_IRQ :: u32 where "INTERRUPT_SOURCE_IRQ = 1"
definition INTERRUPT_SOURCE_IRQMSI :: u32 where "INTERRUPT_SOURCE_IRQMSI = 2"
definition IRQ_CONTROL_DISABLE_OVERRIDE_CHECK :: u32 where "IRQ_CONTROL_DISABLE_OVERRIDE_CHECK = 1"
definition IRQ_CONTROL_LOW_ACTIVE :: u32 where "IRQ_CONTROL_LOW_ACTIVE = 2"
definition IRQ_CONTROL_LEVEL_SENSITIVE :: u32 where "IRQ_CONTROL_LEVEL_SENSITIVE = 4"
definition IRQ_CONTROL_DISABLE_OVERRIDE_FLAGS :: u32 where "IRQ_CONTROL_DISABLE_OVERRIDE_FLAGS = 8"
definition IRQ_SOURCE_MESSAGE_SIGNALED_INTERRUPT :: u32 where "IRQ_SOURCE_MESSAGE_SIGNALED_INTERRUPT = 0x10"
definition IRQ_CONTROL_USE_BASIC_INTERRUPT_WRAPPER :: u32 where "IRQ_CONTROL_USE_BASIC_INTERRUPT_WRAPPER = 0x20"
definition ISO_ACTIVE_LOW :: u32 where "ISO_ACTIVE_LOW = 3"
definition ISO_EDGE_TRIGGERED :: u32 where "ISO_EDGE_TRIGGERED = 4"
definition ISO_LEVEL_TRIGGERED :: u32 where "ISO_LEVEL_TRIGGERED = 12"
definition IRQ_DELIVERY_SMI :: u32 where "IRQ_DELIVERY_SMI = 1"
definition IRQ_DELIVERY_NMI :: u32 where "IRQ_DELIVERY_NMI = 2"
definition IRQ_DELIVERY_EXTINT :: u32 where "IRQ_DELIVERY_EXTINT = 3"

definition MULTIBIT_TEST :: "u32 \<Rightarrow> u32 \<Rightarrow> bool" where
  "MULTIBIT_TEST Value Mask \<longleftrightarrow> Value AND Mask = Mask"

definition IDT_set_offset :: "u64 \<Rightarrow> IDT_ENTRY \<Rightarrow> IDT_ENTRY" where
  "IDT_set_offset handler e =
     e\<lparr> offset_low := ucast handler, offset_mid := ucast (drop_bit 16 handler), offset_high := ucast (drop_bit 32 handler) \<rparr>"

definition IDT_get_offset :: "IDT_ENTRY \<Rightarrow> u64" where
  "IDT_get_offset e = ucast (offset_low e) OR push_bit 16 (ucast (offset_mid e)) OR push_bit 32 (ucast (offset_high e))"

definition SetInterruptGate :: "u64 \<Rightarrow> u8 \<Rightarrow> u8 \<Rightarrow> u8 \<Rightarrow> u8 \<Rightarrow> u16 \<Rightarrow> 's IRQ_STATE \<Rightarrow> 's IRQ_STATE outcome" where
  "SetInterruptGate handler offset gate_dpl gate_ist type cs st =
     (if handler = 0 then Inl SOD
      else let e = IDT_set_offset handler (KERNEL_IDT st offset)
           in Inr (st\<lparr> KERNEL_IDT := (KERNEL_IDT st)(offset :=
                e\<lparr> gate_present := True, dpl := gate_dpl AND 3, ist := gate_ist AND 7, segment_selector := cs, gate_type := type AND 15 \<rparr>) \<rparr>))"

definition RegisterInterruptServiceRoutine :: "'s irq_env \<Rightarrow> u64 \<Rightarrow> u8 \<Rightarrow> 's IRQ_STATE \<Rightarrow> 's IRQ_STATE outcome" where
  "RegisterInterruptServiceRoutine env Handler Offset st =
     andThen (SetInterruptGate (GlobalWrapperPointer env Offset) Offset 0 1 IDT_INTERRUPT_GATE 0x08 st) (\<lambda>st1.
     if Handler = 0 then Inl SOD else Inr (st1\<lparr> GlobalIsrPointer := (GlobalIsrPointer st1)(Offset := Handler) \<rparr>))"

definition remap_pic :: "'s port_io \<Rightarrow> 's \<Rightarrow> 's" where
  "remap_pic io s =
     (case InPortB io 0x21 s of (a1, s1) \<Rightarrow>
      case InPortB io 0xA1 s1 of (a2, s2) \<Rightarrow>
      let icw1 = OutPortB io 0xA0 0x11 (OutPortB io 0x20 0x11 s2);
          icw2 = OutPortB io 0xA1 0x28 (OutPortB io 0x21 0x20 icw1);
          icw3 = OutPortB io 0xA1 2 (OutPortB io 0x21 4 icw2);
          icw4 = OutPortB io 0xA1 1 (OutPortB io 0x21 1 icw3)
      in OutPortB io 0xA1 a2 (OutPortB io 0x21 a1 icw4))"

section \<open>Taking control of an interrupt line\<close>

text \<open>The flags an override imposes; \<open>Flags &= ~0x1F\<close> clears the caller's first.\<close>

definition override_flags :: "u32 \<Rightarrow> u32 \<Rightarrow> u32" where
  "override_flags Flags RedirectedIrqFlags =
     (let f0 = Flags AND NOT 0x1F;
          f1 = if MULTIBIT_TEST RedirectedIrqFlags ISO_ACTIVE_LOW then f0 OR IRQ_CONTROL_LOW_ACTIVE else f0
      in if \<not> MULTIBIT_TEST RedirectedIrqFlags ISO_EDGE_TRIGGERED then f1 OR IRQ_CONTROL_LEVEL_SENSITIVE else f1)"

definition check_override :: "'s irq_env \<Rightarrow> 's IRQ_STATE \<Rightarrow> u32 \<Rightarrow> u32 \<Rightarrow> (u32 \<times> u32) outcome" where
  "check_override env st IrqNumber Flags =
     (if Flags AND IRQ_CONTROL_DISABLE_OVERRIDE_CHECK \<noteq> 0 then Inr (IrqNumber, Flags)
      else andThen (GetRedirectedIrq (ae_mem (ie_apic env)) (Madt (apics st)) IrqNumber 0) (\<lambda>(RedirectedIrq, RedirectedIrqFlags).
           if RedirectedIrq \<noteq> 0 then
             Inr (RedirectedIrq, if Flags AND IRQ_CONTROL_DISABLE_OVERRIDE_FLAGS = 0 then override_flags Flags RedirectedIrqFlags else Flags)
           else Inr (IrqNumber, Flags)))"

definition controls :: "u32 \<Rightarrow> IRQ_CONTROL_DESCRIPTOR \<Rightarrow> bool" where
  "controls IrqNumber d \<longleftrightarrow> icd_Present d \<and> ucast (PhysicalIrqNumber d) = IrqNumber"

fun find_controlled :: "IRQ_CONTROL_DESCRIPTOR list list \<Rightarrow> u32 \<Rightarrow> nat list \<Rightarrow> (nat \<times> nat) option outcome" where
  "find_controlled ts IrqNumber [] = Inr None"
| "find_controlled ts IrqNumber (x # xs) =
     andThen (array_get ts x) (\<lambda>t. case first_index (controls IrqNumber) t of
        Some i \<Rightarrow> Inr (Some (x, i)) | None \<Rightarrow> find_controlled ts IrqNumber xs)"

text \<open>The controller that serves an interrupt, its address and the entry there.\<close>

fun find_ioapic :: "'s apic_env \<Rightarrow> 's APIC_STATE \<Rightarrow> nat list \<Rightarrow> u32 \<Rightarrow> 's \<Rightarrow> ((nat \<times> u64 \<times> u32) option \<times> 's) outcome" where
  "find_ioapic env a [] IrqIndex s = Inr (None, s)"
| "find_ioapic env a (i # is) IrqIndex s =
     (let IoApic = QueryIoApic a (of_nat i)
      in if IoApic = 0 then Inl NullDeref else
         (case IoApicGetMaxRedirectionEntry env IoApic s of (MaxRedirectionEntry, s1) \<Rightarrow>
            if ucast MaxRedirectionEntry \<ge> IrqIndex then Inr (Some (i, IoApic, IrqIndex), s1)
            else find_ioapic env a is (IrqIndex - (ucast MaxRedirectionEntry + 1)) s1))"

definition delivery_bits :: "u32 \<Rightarrow> u8" where
  "delivery_bits DeliveryMode = (if DeliveryMode = IRQ_DELIVERY_NMI then 4 else if DeliveryMode = IRQ_DELIVERY_SMI then 2
     else if DeliveryMode = IRQ_DELIVERY_EXTINT then 7 else 0)"

definition redirection_for :: "u8 \<Rightarrow> u32 \<Rightarrow> u32 \<Rightarrow> u32 \<Rightarrow> IOAPIC_REDTBL" where
  "redirection_for vector processor DeliveryMode Flags =
     REDTBL_zero\<lparr> rt_InterruptVector := vector, rt_DestinationField := ucast processor, rt_DestinationMode := False,
       rt_DeliveryMode := delivery_bits DeliveryMode,
       rt_InterruptInputPinPolarity := Flags AND IRQ_CONTROL_LOW_ACTIVE \<noteq> 0,
       rt_TriggerMode := Flags AND IRQ_CONTROL_LEVEL_SENSITIVE \<noteq> 0 \<rparr>"

definition set_desc :: "nat \<Rightarrow> nat \<Rightarrow> (IRQ_CONTROL_DESCRIPTOR \<Rightarrow> IRQ_CONTROL_DESCRIPTOR) \<Rightarrow> 's IRQ_STATE \<Rightarrow> 's IRQ_STATE" where
  "set_desc x i f st =
     st\<lparr> IrqControlTables := (IrqControlTables st)[x := (IrqControlTables st ! x)[i := f (IrqControlTables st ! x ! i)]] \<rparr>"

definition irq_enter :: "'s IRQ_STATE \<Rightarrow> 's IRQ_STATE outcome" where
  "irq_enter st = andThen (SpinLockSyncBitTestAndSet (gIRQ_MGR_MUTEX st) 0) (\<lambda>w.
     Inr (st\<lparr> gIRQ_MGR_MUTEX := w, rflags := unset_bit 9 (rflags st) \<rparr>))"

definition irq_leave :: "u64 \<Rightarrow> 's IRQ_STATE \<Rightarrow> 's IRQ_STATE" where
  "irq_leave saved st = st\<lparr> gIRQ_MGR_MUTEX := BitRelease (gIRQ_MGR_MUTEX st) 0, rflags := saved \<rparr>"

definition install_gate :: "'s irq_env \<Rightarrow> u64 \<Rightarrow> u32 \<Rightarrow> u8 \<Rightarrow> 's IRQ_STATE \<Rightarrow> 's IRQ_STATE outcome" where
  "install_gate env Handler Flags vector st =
     (if Flags AND IRQ_CONTROL_USE_BASIC_INTERRUPT_WRAPPER \<noteq> 0 then RegisterInterruptServiceRoutine env Handler vector st
      else SetInterruptGate (gIRQCtrlWrapPtr env (vector - 0x20)) vector 0 3 IDT_INTERRUPT_GATE 0x08 st)"

definition claimed :: "'s irq_env \<Rightarrow> u64 \<Rightarrow> u32 \<Rightarrow> u32 \<Rightarrow> nat \<Rightarrow> u32 \<Rightarrow> u8 \<Rightarrow> IRQ_CONTROL_DESCRIPTOR \<Rightarrow> IRQ_CONTROL_DESCRIPTOR" where
  "claimed env Handler IrqNumber Flags i IrqIndex vector d =
     d\<lparr> InterruptVector := vector, VirtualIoApicId := of_nat i, PhysicalIrqNumber := ucast IrqNumber,
        IoApicIrqNumber := ucast IrqIndex, icd_Flags := Flags, icd_Process := irq_CurrentProcess env,
        icd_Handler := Handler, icd_Source := INTERRUPT_SOURCE_IRQ, icd_Present := True \<rparr>"

text \<open>The second half of \<open>KeControlIrq\<close>: a descriptor of the next processor, the gate and the redirection entry.\<close>

definition claim_irq :: "'s irq_env \<Rightarrow> u64 \<Rightarrow> u32 \<Rightarrow> u32 \<Rightarrow> u32 \<Rightarrow> nat \<Rightarrow> u64 \<Rightarrow> u32 \<Rightarrow> 's IRQ_STATE \<Rightarrow> 's IRQ_STATE outcome" where
  "claim_irq env Handler IrqNumber DeliveryMode Flags i IoApic IrqIndex st =
     (let p = gIRQ_MGR_ProcessorSwitch st
      in andThen (array_get (IrqControlTables st) (unat p)) (\<lambda>t.
         case first_index (\<lambda>d. \<not> icd_Present d) t of None \<Rightarrow> Inl SOD
         | Some k \<Rightarrow>
           let vector = 0x20 + of_nat k
           in andThen (install_gate env Handler Flags vector
                 (set_desc (unat p) k (claimed env Handler IrqNumber Flags i IrqIndex vector) st)) (\<lambda>st1.
              andThen (IoApicWriteRedirectionTable (ie_apic env) IoApic (ucast IrqIndex)
                 (redtbl_word (redirection_for vector p DeliveryMode Flags)) (apic_hw (apics st1))) (\<lambda>s.
              Inr (st1\<lparr> apics := (apics st1)\<lparr> apic_hw := s \<rparr>, gIRQ_MGR_ProcessorSwitch := gIRQ_MGR_ProcessorSwitch st1 + 1 \<rparr>)))))"

definition KeControlIrq :: "'s irq_env \<Rightarrow> u64 \<Rightarrow> u32 \<Rightarrow> u32 \<Rightarrow> u32 \<Rightarrow> 's IRQ_STATE \<Rightarrow> (KERNELSTATUS \<times> 's IRQ_STATE) outcome" where
  "KeControlIrq env Handler IrqNumber0 DeliveryMode Flags0 st =
     (if Handler = 0 \<or> DeliveryMode > 3 then Inr (KERNEL_SERR_INVALID_PARAMETER, st) else
      andThen (irq_enter st) (\<lambda>st0.
      let saved = rflags st;
          st1 = (if gIRQ_MGR_ProcessorSwitch st0 = irq_NumProcessors env then st0\<lparr> gIRQ_MGR_ProcessorSwitch := 0 \<rparr> else st0);
          n = NumIoApics (apics st1)
      in andThen (check_override env st1 IrqNumber0 Flags0) (\<lambda>(IrqNumber, Flags).
         if IrqNumber > 24 * n then Inr (KERNEL_SERR_OUT_OF_RANGE, irq_leave saved st1) else
         andThen (find_controlled (IrqControlTables st1) IrqNumber [0..<unat (irq_NumProcessors env)]) (\<lambda>found. case found of
           Some (x, i) \<Rightarrow>
             if icd_Process (IrqControlTables st1 ! x ! i) \<noteq> irq_CurrentProcess env
             then Inr (KERNEL_SERR_IRQ_CONTROLLED_BY_ANOTHER_PROCESS, irq_leave saved st1)
             else Inr (KERNEL_SWR_IRQ_ALREADY_SET, irq_leave saved (set_desc x i (\<lambda>d. d\<lparr> icd_Flags := Flags \<rparr>) st1))
         | None \<Rightarrow>
             andThen (find_ioapic (ie_apic env) (apics st1) [0..<unat n] IrqNumber (apic_hw (apics st1))) (\<lambda>(entry, s).
             let st2 = st1\<lparr> apics := (apics st1)\<lparr> apic_hw := s \<rparr> \<rparr>
             in case entry of
                  None \<Rightarrow> Inr (KERNEL_SERR_OUT_OF_RANGE, irq_leave saved st2)
                | Some (i, IoApic, IrqIndex) \<Rightarrow>
                    andThen (claim_irq env Handler IrqNumber DeliveryMode Flags i IoApic IrqIndex st2) (\<lambda>st3.
                    Inr (KERNEL_SOK, irq_leave saved st3)))))))"

definition KeReleaseIrq :: "u32 \<Rightarrow> KERNELSTATUS" where
  "KeReleaseIrq IrqNumber = KERNEL_SOK"

section \<open>Message-signalled interrupts\<close>

definition registered :: "'s irq_env \<Rightarrow> u32 \<Rightarrow> u64 \<Rightarrow> u32 \<Rightarrow> u32 \<Rightarrow> nat \<Rightarrow> nat \<Rightarrow> IRQ_CONTROL_DESCRIPTOR \<Rightarrow> IRQ_CONTROL_DESCRIPTOR" where
  "registered env IrqSource Handler Flags IoApic_Id i c d =
     d\<lparr> icd_Flags := Flags, InterruptVector := of_nat c + 0x20, PhysicalIrqNumber := ucast IrqSource,
        icd_Process := irq_CurrentProcess env, VirtualIoApicId := ucast IoApic_Id, LapicId := irq_ProcessorId env i,
        icd_Handler := Handler, icd_Present := True \<rparr>"

fun register_scan :: "'s irq_env \<Rightarrow> u32 \<Rightarrow> u64 \<Rightarrow> u32 \<Rightarrow> u32 \<Rightarrow> nat list \<Rightarrow> 's IRQ_STATE \<Rightarrow> ((nat \<times> nat) option \<times> 's IRQ_STATE) outcome" where
  "register_scan env IrqSource Handler Flags IoApic_Id [] st = Inr (None, st\<lparr> gIRQ_MGR_ProcessorSwitch := 0 \<rparr>)"
| "register_scan env IrqSource Handler Flags IoApic_Id (i # is) st =
     andThen (array_get (IrqControlTables st) i) (\<lambda>t.
     case first_index (\<lambda>d. \<not> icd_Present d) t of
       None \<Rightarrow> register_scan env IrqSource Handler Flags IoApic_Id is st
     | Some c \<Rightarrow>
         andThen (SetInterruptGate (gIRQCtrlWrapPtr env (of_nat c)) (of_nat c + 0x20) 0 3 IDT_INTERRUPT_GATE 0x08 st) (\<lambda>st1.
         Inr (Some (i, c), (set_desc i c (registered env IrqSource Handler Flags IoApic_Id i c) st1)\<lparr> gIRQ_MGR_ProcessorSwitch := of_nat c + 1 \<rparr>)))"

definition release_irq_mutex :: "'s IRQ_STATE \<Rightarrow> 's IRQ_STATE" where
  "release_irq_mutex st = st\<lparr> gIRQ_MGR_MUTEX := BitRelease (gIRQ_MGR_MUTEX st) 0 \<rparr>"

text \<open>\<open>Dec\<close> counts two passes: from the processor of the last assignment to the end, then over all of them.\<close>

definition RegisterIrq :: "'s irq_env \<Rightarrow> u32 \<Rightarrow> u64 \<Rightarrow> u32 \<Rightarrow> u32 \<Rightarrow> 's IRQ_STATE \<Rightarrow> ((nat \<times> nat) option \<times> 's IRQ_STATE) outcome" where
  "RegisterIrq env IrqSource Handler Flags IoApic_Id st =
     andThen (SpinLockSyncBitTestAndSet (gIRQ_MGR_MUTEX st) 0) (\<lambda>w.
     let n = unat (irq_NumProcessors env); st0 = st\<lparr> gIRQ_MGR_MUTEX := w \<rparr>
     in andThen (register_scan env IrqSource Handler Flags IoApic_Id [unat (gIRQ_MGR_ProcessorSwitch st0)..<n] st0) (\<lambda>(r1, st1).
        if r1 \<noteq> None then Inr (r1, release_irq_mutex st1)
        else andThen (register_scan env IrqSource Handler Flags IoApic_Id [0..<n] st1) (\<lambda>(r2, st2).
             Inr (r2, release_irq_mutex st2))))"

text \<open>
  \<open>SetInterruptService\<close> enables a device, walks its capability list and programs the message-signalled interrupt capability.
  \<open>driver\<close> is \<open>Device->Driver\<close>.  The list is walked with fuel 257: a longer walk comes back to a header it has seen.
\<close>

definition PCI_COMMAND :: u16 where "PCI_COMMAND = 4"
definition PCI_STATUS :: u16 where "PCI_STATUS = 6"
definition PCI_CAPABILITIES_PTR :: u16 where "PCI_CAPABILITIES_PTR = 0x34"
definition PCI_STATUS_CAPABILITES_LIST :: u16 where "PCI_STATUS_CAPABILITES_LIST = 0x10"
definition PCI_CAPABILITY_ID_MSI :: u8 where "PCI_CAPABILITY_ID_MSI = 5"
definition PCI_CAPABILITY_ID_MSI_X :: u8 where "PCI_CAPABILITY_ID_MSI_X = 11"
definition MSI_MESSAGE_CONTROL :: u16 where "MSI_MESSAGE_CONTROL = 2"
definition MSI_MESSAGE_ADDRESS :: u16 where "MSI_MESSAGE_ADDRESS = 4"
definition MSI64_MESSAGE_DATA :: u16 where "MSI64_MESSAGE_DATA = 12"
definition MSI_MESSAGE_DATA :: u16 where "MSI_MESSAGE_DATA = 8"

definition irq_hw :: "'s IRQ_STATE \<Rightarrow> 's" where
  "irq_hw st = apic_hw (apics st)"

definition with_hw :: "'s \<Rightarrow> 's IRQ_STATE \<Rightarrow> 's IRQ_STATE" where
  "with_hw s st = st\<lparr> apics := (apics st)\<lparr> apic_hw := s \<rparr> \<rparr>"

fun read_cap_dwords :: "'s port_io \<Rightarrow> pci_location \<Rightarrow> u16 \<Rightarrow> nat list \<Rightarrow> 's \<Rightarrow> u32 list \<times> 's" where
  "read_cap_dwords io d CapOffset [] s = ([], s)"
| "read_cap_dwords io d CapOffset (i # is) s =
     (case PciDeviceConfigurationRead32 io d (CapOffset + push_bit 2 (of_nat i)) s of (v, s1) \<Rightarrow>
      case read_cap_dwords io d CapOffset is s1 of (vs, s2) \<Rightarrow> (v # vs, s2))"

definition msi_address :: "u64 \<Rightarrow> u32 \<Rightarrow> u64" where
  "msi_address Lapic lapic_id = Lapic + ucast (push_bit 12 lapic_id)"

definition msi_data :: "u8 \<Rightarrow> u16" where
  "msi_data vector = ucast vector OR 0x4000"

definition program_msi :: "'s port_io \<Rightarrow> pci_location \<Rightarrow> u16 \<Rightarrow> u16 \<Rightarrow> u64 \<Rightarrow> IRQ_CONTROL_DESCRIPTOR \<Rightarrow> 's \<Rightarrow> 's" where
  "program_msi io d CapOffset control Lapic icd s =
     (let address = msi_address Lapic (LapicId icd); data = msi_data (InterruptVector icd);
          control' = (control OR 1) AND NOT 0x70
      in if bit control 7 then
           PciDeviceConfigurationWrite16 io d control' (CapOffset + MSI_MESSAGE_CONTROL)
             (PciDeviceConfigurationWrite16 io d data (CapOffset + MSI64_MESSAGE_DATA)
               (PciDeviceConfigurationWrite64 io d address (CapOffset + MSI_MESSAGE_ADDRESS) s))
         else
           PciDeviceConfigurationWrite16 io d control' (CapOffset + MSI_MESSAGE_CONTROL)
             (PciDeviceConfigurationWrite16 io d data (CapOffset + MSI_MESSAGE_DATA)
               (PciDeviceConfigurationWrite32 io d (ucast address) (CapOffset + MSI_MESSAGE_ADDRESS) s)))"

definition setup_msi :: "'s irq_env \<Rightarrow> u64 \<Rightarrow> pci_location \<Rightarrow> u64 \<Rightarrow> u64 \<Rightarrow> u16 \<Rightarrow> 's IRQ_STATE \<Rightarrow> (KERNELSTATUS \<times> 's IRQ_STATE) outcome" where
  "setup_msi env Device d driver Handler CapOffset st =
     (let io = ie_ports env
      in case read_cap_dwords io d CapOffset [0..<6] (irq_hw st) of (CapBuffer, s1) \<Rightarrow>
         let control = ucast (drop_bit 16 (CapBuffer ! 0)) AND NOT 1;
             st1 = with_hw (PciDeviceConfigurationWrite16 io d control (CapOffset + MSI_MESSAGE_CONTROL) s1) st
         in andThen (RegisterIrq env 0 Handler IRQ_SOURCE_MESSAGE_SIGNALED_INTERRUPT 0 st1) (\<lambda>(r, st2). case r of
              None \<Rightarrow> Inr (KERNEL_SERR_OUT_OF_RANGE, st2)
            | Some (x, i) \<Rightarrow>
                let st3 = set_desc x i (\<lambda>e. e\<lparr> icd_Device := Device, icd_Driver := driver, icd_Source := INTERRUPT_SOURCE_IRQMSI \<rparr>) st2;
                    s3 = program_msi io d CapOffset control (LocalApicPhysicalAddress (apics st3)) (IrqControlTables st3 ! x ! i) (irq_hw st3)
                in Inr (KERNEL_SOK, with_hw (snd (read_cap_dwords io d CapOffset [0..<6] s3)) st3)))"

fun walk_capabilities :: "nat \<Rightarrow> 's irq_env \<Rightarrow> u64 \<Rightarrow> pci_location \<Rightarrow> u64 \<Rightarrow> u64 \<Rightarrow> u16 \<Rightarrow> u16 \<Rightarrow> 's IRQ_STATE \<Rightarrow>
    (KERNELSTATUS \<times> 's IRQ_STATE) outcome" where
  "walk_capabilities 0 env Device d driver Handler CapOffset caphdr st = Inl Hang"
| "walk_capabilities (Suc n) env Device d driver Handler CapOffset caphdr st =
     (let CapabilityId = ucast caphdr :: u8; NextPointer = ucast (drop_bit 8 caphdr) :: u8
      in if CapabilityId = PCI_CAPABILITY_ID_MSI then setup_msi env Device d driver Handler CapOffset st
         else if CapabilityId = PCI_CAPABILITY_ID_MSI_X then Inl Hang
         else if NextPointer = 0 then Inr (KERNEL_SOK, st)
         else case PciDeviceConfigurationRead16 (ie_ports env) d (ucast NextPointer) (irq_hw st) of (hdr, s) \<Rightarrow>
                walk_capabilities n env Device d driver Handler (ucast NextPointer) hdr (with_hw s st))"

definition SetInterruptService :: "'s irq_env \<Rightarrow> u64 \<Rightarrow> pci_location \<Rightarrow> u64 \<Rightarrow> u64 \<Rightarrow> 's IRQ_STATE \<Rightarrow> (KERNELSTATUS \<times> 's IRQ_STATE) outcome" where
  "SetInterruptService env Device d driver Handler st =
     (let io = ie_ports env
      in case PciDeviceConfigurationRead16 io d PCI_STATUS (irq_hw st) of (_, s1) \<Rightarrow>
         case PciDeviceConfigurationRead16 io d PCI_COMMAND s1 of (Command, s2) \<Rightarrow>
         case PciDeviceConfigurationRead16 io d PCI_COMMAND
                (PciDeviceConfigurationWrite16 io d ((Command AND NOT 0x400) OR 7) PCI_COMMAND s2) of (_, s3) \<Rightarrow>
         case PciDeviceConfigurationRead16 io d PCI_STATUS s3 of (PciStatus, s4) \<Rightarrow>
           if PciStatus AND PCI_STATUS_CAPABILITES_LIST \<noteq> 0 then
             case PciDeviceConfigurationRead16 io d PCI_CAPABILITIES_PTR s4 of (CapOffset, s5) \<Rightarrow>
             case PciDeviceConfigurationRead16 io d CapOffset s5 of (caphdr, s6) \<Rightarrow>
               walk_capabilities 0x101 env Device d driver Handler CapOffset caphdr (with_hw s6 st)
           else Inr (KERNEL_SOK, with_hw s4 st))"

section \<open>Gates keep their handlers\<close>

lemma IDT_offset_round_trip: "IDT_get_offset (IDT_set_offset h e) = h"
proof (rule bit_word_eqI)
  fix n assume "n < LENGTH(64)"
  moreover have "32 + (n - 32) = n" if "32 \<le> n" using that by simp
  ultimately show "bit (IDT_get_offset (IDT_set_offset h e)) n = bit h n"
    by (cases "32 \<le> n"; cases "16 \<le> n") (auto simp: IDT_get_offset_def IDT_set_offset_def bit_simps)
qed

lemma SetInterruptGate_sets:
  assumes "handler \<noteq> 0"
  shows "\<exists>e. SetInterruptGate handler off gd gi ty cs st = Inr (st\<lparr> KERNEL_IDT := (KERNEL_IDT st)(off := e) \<rparr>) \<and>
     IDT_get_offset e = handler \<and> gate_present e \<and> dpl e = gd AND 3 \<and> ist e = gi AND 7 \<and> segment_selector e = cs \<and> gate_type e = ty AND 15"
proof -
  have "IDT_get_offset (e\<lparr> gate_present := a, dpl := b, ist := c, segment_selector := f, gate_type := g \<rparr>) = IDT_get_offset e"
    for e :: IDT_ENTRY and a b c f g by (simp add: IDT_get_offset_def)
  then show ?thesis
    using assms by (intro exI [of _ "IDT_set_offset handler (KERNEL_IDT st off)\<lparr> gate_present := True, dpl := gd AND 3, ist := gi AND 7,
      segment_selector := cs, gate_type := ty AND 15 \<rparr>"]) (simp add: SetInterruptGate_def Let_def IDT_offset_round_trip)
qed

section \<open>Which controller serves an interrupt\<close>

lemma bit_REDTBL_WRITABLE: "bit REDTBL_WRITABLE n \<longleftrightarrow> n < 12 \<or> n = 13 \<or> n = 15 \<or> n = 16 \<or> 56 \<le> n \<and> n < 64"
proof -
  have eq: "REDTBL_WRITABLE = mask 12 OR push_bit 13 1 OR push_bit 15 1 OR push_bit 16 1 OR push_bit 56 (mask 8)"
    by (simp add: REDTBL_WRITABLE_def mask_eq_exp_minus_1 push_bit_eq_mult)
  show ?thesis unfolding eq by (simp only: bit_or_iff bit_mask_iff bit_push_bit_iff bit_1_iff) auto
qed

lemma bit_bit_at: "bit (bit_at n b) i \<longleftrightarrow> b \<and> i = n \<and> n < 64"
  by (cases b) (auto simp: bit_at_def bit_exp_iff)

lemma redtbl_word_writable: "redtbl_word e AND REDTBL_WRITABLE = redtbl_word e"
proof (rule bit_word_eqI)
  fix n
  have b8: "bit x m \<Longrightarrow> m < 8" for x :: u8 and m using bit_imp_le_length [of x m] by simp
  have "bit (7 :: u8) m = (m < 3)" for m using bit_mask_iff [of 3 m, where 'a = u8] by (auto simp: mask_eq_exp_minus_1)
  then have "bit (redtbl_word e) n \<Longrightarrow> n < 8 \<or> 8 \<le> n \<and> n - 8 < 3 \<or> n = 11 \<or> n = 13 \<or> n = 15 \<or> n = 16 \<or> 56 \<le> n \<and> n < 64"
    unfolding redtbl_word_def bit_or_iff bit_bit_at bit_push_bit_iff bit_and_iff bit_unsigned_iff
    using b8 [of "rt_InterruptVector e" n] bit_imp_le_length [of _ n] by (elim disjE) simp_all
  then have "bit (redtbl_word e) n \<Longrightarrow> bit REDTBL_WRITABLE n" unfolding bit_REDTBL_WRITABLE by linarith
  then show "bit (redtbl_word e AND REDTBL_WRITABLE) n = bit (redtbl_word e) n" by (auto simp: bit_and_iff)
qed

definition serves :: "'s apic_env \<Rightarrow> ('s \<Rightarrow> u64 \<Rightarrow> u8 \<Rightarrow> u32) \<Rightarrow> u64 set \<Rightarrow> 's APIC_STATE \<Rightarrow> bool" where
  "serves env reg A a \<longleftrightarrow> ioapic_registers (ae_io env) reg A \<and> NumIoApics a \<le> 10 \<and>
     (\<forall>i < unat (NumIoApics a). SortedIoApics a ! i \<noteq> 0 \<and> io_base env (SortedIoApics a ! i) \<in> A)"

definition entries_of :: "'s apic_env \<Rightarrow> ('s \<Rightarrow> u64 \<Rightarrow> u8 \<Rightarrow> u32) \<Rightarrow> 's APIC_STATE \<Rightarrow> 's \<Rightarrow> nat \<Rightarrow> nat" where
  "entries_of env reg a s i = unat (max_entry reg s (io_base env (SortedIoApics a ! i))) + 1"

lemma serves_query:
  assumes "serves env reg A a" and "i < unat (NumIoApics a)"
  shows "QueryIoApic a (of_nat i) = SortedIoApics a ! i" and "SortedIoApics a ! i \<noteq> 0" and "io_base env (SortedIoApics a ! i) \<in> A"
proof -
  have i: "i < 10" using assms by (simp add: serves_def word_le_nat_alt)
  then have "unat (of_nat i :: u8) = i" by (simp add: unat_of_nat)
  moreover have "ucast (of_nat i :: u8) < NumIoApics a"
    using assms(2) i by (simp add: word_less_nat_alt unat_ucast_up unat_of_nat)
  ultimately show "QueryIoApic a (of_nat i) = SortedIoApics a ! i" by (simp add: QueryIoApic_def linorder_not_le [symmetric])
  show "SortedIoApics a ! i \<noteq> 0" "io_base env (SortedIoApics a ! i) \<in> A" using assms by (simp_all add: serves_def)
qed

lemma find_ioapic_serves:
  assumes "serves env reg A a" and "j < unat (NumIoApics a)" and "m \<le> j"
    and "unat irq = (\<Sum>i = m..<j. entries_of env reg a s i) + idx" and "idx < entries_of env reg a s j"
  shows "\<exists>s'. find_ioapic env a [m..<unat (NumIoApics a)] irq s = Inr (Some (j, SortedIoApics a ! j, of_nat idx), s') \<and>
     (\<forall>b \<in> A. \<forall>k. reg s' b k = reg s b k)"
  using assms(3-5)
proof (induction "j - m" arbitrary: m irq s)
  case 0
  note q = serves_query [OF assms(1,2)]
  obtain s1 where s1: "IoApicGetMaxRedirectionEntry env (SortedIoApics a ! j) s = (max_entry reg s (io_base env (SortedIoApics a ! j)), s1)"
    "\<forall>b \<in> A. \<forall>k. reg s1 b k = reg s b k"
    using registers_max [OF _ q(3)] assms(1) unfolding serves_def by blast
  have "m = j" "unat irq = idx" using 0 by simp_all
  have "irq = of_nat idx" unfolding \<open>unat irq = idx\<close> [symmetric] by simp
  then show ?case
    using 0 s1 q assms(2) \<open>m = j\<close> \<open>unat irq = idx\<close>
    by (simp add: upt_conv_Cons entries_of_def word_le_nat_alt unat_ucast_up)
next
  case (Suc n)
  have m: "m < j" "m < unat (NumIoApics a)" using Suc.hyps(2) assms(2) by simp_all
  note q = serves_query [OF assms(1) m(2)]
  let ?mx = "max_entry reg s (io_base env (SortedIoApics a ! m))"
  obtain s1 where s1: "IoApicGetMaxRedirectionEntry env (SortedIoApics a ! m) s = (?mx, s1)" "\<forall>b \<in> A. \<forall>k. reg s1 b k = reg s b k"
    using registers_max [OF _ q(3)] assms(1) unfolding serves_def by blast
  have e: "entries_of env reg a s1 i = entries_of env reg a s i" if "i < unat (NumIoApics a)" for i
    using s1(2) serves_query(3) [OF assms(1) that] by (simp add: entries_of_def max_entry_def)
  have u: "unat (ucast ?mx + 1 :: u32) = entries_of env reg a s m"
    using unsigned_less [of ?mx, where 'a = nat] by (simp add: entries_of_def unat_word_ariths unat_ucast_up)
  have irq: "unat irq = entries_of env reg a s m + ((\<Sum>i = Suc m..<j. entries_of env reg a s i) + idx)"
    using Suc.prems(2) m(1) by (simp add: sum.atLeast_Suc_lessThan)
  then have "(ucast ?mx + 1 :: u32) \<le> irq" using u by (simp add: word_le_nat_alt)
  then have "unat (irq - (ucast ?mx + 1)) = unat irq - unat (ucast ?mx + 1 :: u32)" by (rule unat_sub)
  then have nx: "unat (irq - (ucast ?mx + 1)) = (\<Sum>i = Suc m..<j. entries_of env reg a s1 i) + idx"
    unfolding u using irq assms(2) e by simp
  have lt: "\<not> irq \<le> ucast ?mx" using irq by (simp add: word_le_nat_alt entries_of_def unat_ucast_up)
  obtain s' where "find_ioapic env a [Suc m..<unat (NumIoApics a)] (irq - (ucast ?mx + 1)) s1 = Inr (Some (j, SortedIoApics a ! j, of_nat idx), s')"
    "\<forall>b \<in> A. \<forall>k. reg s' b k = reg s1 b k"
    using Suc.hyps(1) [of "Suc m", OF _ _ nx] Suc.hyps(2) Suc.prems(3) m(1) e [OF assms(2)] by fastforce
  then show ?case using s1 q lt m(2) by (simp add: upt_conv_Cons)
qed

section \<open>Taking control\<close>

lemma find_controlled_result:
  assumes "\<forall>x \<in> set xs. x < length ts"
  shows "\<exists>r. find_controlled ts irq xs = Inr r \<and>
     (case r of None \<Rightarrow> \<forall>x \<in> set xs. \<forall>d \<in> set (ts ! x). \<not> controls irq d
      | Some (x, i) \<Rightarrow> x \<in> set xs \<and> i < length (ts ! x) \<and> controls irq (ts ! x ! i))"
  using assms
proof (induction xs)
  case Nil
  then show ?case by simp
next
  case (Cons x xs)
  show ?case
  proof (cases "first_index (controls irq) (ts ! x)")
    case None
    then have "\<forall>d \<in> set (ts ! x). \<not> controls irq d" by (simp add: first_index_None_iff)
    then show ?thesis using Cons None by (auto split: option.splits)
  next
    case (Some i)
    then show ?thesis using first_index_Some [OF Some] Cons.prems by auto
  qed
qed

lemma find_controlled_none:
  assumes "\<forall>x \<in> set xs. x < length ts" and "\<forall>t \<in> set ts. \<forall>d \<in> set t. \<not> controls irq d"
  shows "find_controlled ts irq xs = Inr None"
  using assms(1)
proof (induction xs)
  case (Cons x xs)
  then have "first_index (controls irq) (ts ! x) = None" using assms(2) by (auto simp: first_index_None_iff)
  with Cons show ?case by simp
qed simp

text \<open>What the control tables look like: one table of full size per processor, no table shared.\<close>

definition irq_tables :: "'s irq_env \<Rightarrow> 's IRQ_STATE \<Rightarrow> bool" where
  "irq_tables env st \<longleftrightarrow> length (IrqControlTables st) = unat (irq_NumProcessors env) \<and>
     (\<forall>t \<in> set (IrqControlTables st). length t = NUM_IRQS_PER_PROCESSOR)"

definition entry_points :: "'s irq_env \<Rightarrow> bool" where
  "entry_points env \<longleftrightarrow> (\<forall>v. GlobalWrapperPointer env v \<noteq> 0 \<and> gIRQCtrlWrapPtr env v \<noteq> 0)"

definition next_processor :: "'s irq_env \<Rightarrow> 's IRQ_STATE \<Rightarrow> u32" where
  "next_processor env st = (if gIRQ_MGR_ProcessorSwitch st = irq_NumProcessors env then 0 else gIRQ_MGR_ProcessorSwitch st)"

definition gate_handler :: "'s irq_env \<Rightarrow> u32 \<Rightarrow> u8 \<Rightarrow> u64" where
  "gate_handler env Flags vector =
     (if Flags AND IRQ_CONTROL_USE_BASIC_INTERRUPT_WRAPPER \<noteq> 0 then GlobalWrapperPointer env vector else gIRQCtrlWrapPtr env (vector - 0x20))"

definition gate_for :: "'s irq_env \<Rightarrow> u32 \<Rightarrow> u8 \<Rightarrow> IDT_ENTRY \<Rightarrow> bool" where
  "gate_for env Flags vector e \<longleftrightarrow> IDT_get_offset e = gate_handler env Flags vector \<and> gate_present e \<and> dpl e = 0 \<and>
     ist e = (if Flags AND IRQ_CONTROL_USE_BASIC_INTERRUPT_WRAPPER \<noteq> 0 then 1 else 3) \<and> segment_selector e = 0x08 \<and> gate_type e = IDT_INTERRUPT_GATE"

text \<open>The table of service routines gets the handler only when the basic wrapper is asked for.\<close>

definition isr_for :: "u64 \<Rightarrow> u32 \<Rightarrow> u8 \<Rightarrow> (u8 \<Rightarrow> u64) \<Rightarrow> u8 \<Rightarrow> u64" where
  "isr_for Handler Flags vector isr = (if Flags AND IRQ_CONTROL_USE_BASIC_INTERRUPT_WRAPPER \<noteq> 0 then isr(vector := Handler) else isr)"

lemma install_gate_sets:
  assumes "entry_points env" and "Handler \<noteq> 0"
  shows "\<exists>e. install_gate env Handler Flags v st = Inr (st\<lparr> KERNEL_IDT := (KERNEL_IDT st)(v := e),
       GlobalIsrPointer := isr_for Handler Flags v (GlobalIsrPointer st) \<rparr>) \<and> gate_for env Flags v e"
proof -
  define h where "h = gate_handler env Flags v"
  have h: "h \<noteq> 0" using assms(1) by (simp add: h_def gate_handler_def entry_points_def)
  define i where "i = (if Flags AND IRQ_CONTROL_USE_BASIC_INTERRUPT_WRAPPER \<noteq> 0 then 1 else 3 :: u8)"
  obtain e where e: "SetInterruptGate h v 0 i IDT_INTERRUPT_GATE 0x08 st = Inr (st\<lparr> KERNEL_IDT := (KERNEL_IDT st)(v := e) \<rparr>)"
    "IDT_get_offset e = h" "gate_present e" "dpl e = 0" "ist e = i" "segment_selector e = 0x08" "gate_type e = IDT_INTERRUPT_GATE"
    using SetInterruptGate_sets [OF h, of v 0 i IDT_INTERRUPT_GATE "0x08" st] by (auto simp: i_def IDT_INTERRUPT_GATE_def)
  have "install_gate env Handler Flags v st = Inr (st\<lparr> KERNEL_IDT := (KERNEL_IDT st)(v := e),
      GlobalIsrPointer := isr_for Handler Flags v (GlobalIsrPointer st) \<rparr>)"
  proof (cases "Flags AND IRQ_CONTROL_USE_BASIC_INTERRUPT_WRAPPER \<noteq> 0")
    case True
    then have "GlobalWrapperPointer env v = h" "i = 1" by (simp_all add: h_def gate_handler_def i_def)
    then show ?thesis using e(1) True assms(2) by (simp add: install_gate_def RegisterInterruptServiceRoutine_def isr_for_def)
  next
    case False
    then have "gIRQCtrlWrapPtr env (v - 0x20) = h" "i = 3" by (simp_all add: h_def gate_handler_def i_def)
    then show ?thesis using e(1) False by (simp add: install_gate_def isr_for_def)
  qed
  then show ?thesis using e(2-7) unfolding h_def i_def by (auto simp: gate_for_def)
qed

text \<open>The effect of a claim on everything but the lock: descriptor \<open>k\<close> of processor \<open>p\<close>, its gate and one redirection entry.\<close>

definition irq_claimed :: "'s irq_env \<Rightarrow> ('s \<Rightarrow> u64 \<Rightarrow> u8 \<Rightarrow> u32) \<Rightarrow> u64 set \<Rightarrow> u64 \<Rightarrow> u32 \<Rightarrow> u32 \<Rightarrow> u32 \<Rightarrow> nat \<Rightarrow> u64 \<Rightarrow> nat \<Rightarrow> u32 \<Rightarrow> nat \<Rightarrow>
    's IRQ_STATE \<Rightarrow> 's IRQ_STATE \<Rightarrow> bool" where
  "irq_claimed env reg A Handler irq DeliveryMode Flags i r idx p k st st' \<longleftrightarrow>
     (let v = 0x20 + of_nat k; base = io_base (ie_apic env) r; s = apic_hw (apics st); s' = apic_hw (apics st')
      in IrqControlTables st' = (IrqControlTables st)[unat p := (IrqControlTables st ! unat p)[k :=
             claimed env Handler irq Flags i (of_nat idx) v (IrqControlTables st ! unat p ! k)]] \<and>
         gate_for env Flags v (KERNEL_IDT st' v) \<and> GlobalIsrPointer st' = isr_for Handler Flags v (GlobalIsrPointer st) \<and>
         (\<forall>w. w \<noteq> v \<longrightarrow> KERNEL_IDT st' w = KERNEL_IDT st w) \<and>
         redirection reg s' base (of_nat idx) = redtbl_word (redirection_for v p DeliveryMode Flags) \<and>
         (\<forall>b \<in> A. \<forall>j. (b \<noteq> base \<or> j \<noteq> of_nat idx) \<and> unat j < 120 \<longrightarrow> redirection reg s' b j = redirection reg s b j) \<and>
         (apics st')\<lparr> apic_hw := s \<rparr> = apics st \<and> gIRQ_MGR_ProcessorSwitch st' = p + 1)"

lemma claim_irq_claims:
  assumes env: "entry_points env" "Handler \<noteq> 0"
    and tab: "unat (gIRQ_MGR_ProcessorSwitch st) < length (IrqControlTables st)"
      "first_index (\<lambda>d. \<not> icd_Present d) (IrqControlTables st ! unat (gIRQ_MGR_ProcessorSwitch st)) = Some k"
    and io: "ioapic_registers (ae_io (ie_apic env)) reg A" "io_base (ie_apic env) r \<in> A"
    and idx: "idx \<le> unat (max_entry reg (apic_hw (apics st)) (io_base (ie_apic env) r))" "idx < 120"
  shows "\<exists>st'. claim_irq env Handler irq DeliveryMode Flags i r (of_nat idx) st = Inr st' \<and>
     irq_claimed env reg A Handler irq DeliveryMode Flags i r idx (gIRQ_MGR_ProcessorSwitch st) k st st' \<and>
     gIRQ_MGR_MUTEX st' = gIRQ_MGR_MUTEX st \<and> rflags st' = rflags st"
proof -
  define p where "p = gIRQ_MGR_ProcessorSwitch st"
  define v :: u8 where "v = 0x20 + of_nat k"
  let ?b = "io_base (ie_apic env) r" and ?s = "apic_hw (apics st)"
  have ui: "unat (of_nat idx :: u8) = idx" using idx(2) by (simp add: unat_of_nat)
  have uc: "ucast (of_nat idx :: u32) = (of_nat idx :: u8)" using idx(2) by (simp add: unsigned_of_nat take_bit_nat_eq_self)
  have le: "of_nat idx \<le> max_entry reg ?s ?b" using idx(1) ui by (simp add: word_le_nat_alt)
  define st1 where "st1 = set_desc (unat p) k (claimed env Handler irq Flags i (of_nat idx) v) st"
  define isr where "isr = isr_for Handler Flags v (GlobalIsrPointer st1)"
  obtain e where g: "install_gate env Handler Flags v st1 = Inr (st1\<lparr> KERNEL_IDT := (KERNEL_IDT st1)(v := e), GlobalIsrPointer := isr \<rparr>)"
    "gate_for env Flags v e" using install_gate_sets [OF env] unfolding isr_def by blast
  let ?q = "redtbl_word (redirection_for v p DeliveryMode Flags)"
  obtain s' where s': "IoApicWriteRedirectionTable (ie_apic env) r (of_nat idx) ?q ?s = Inr s'"
    "redirection reg s' ?b (of_nat idx) = ?q AND REDTBL_WRITABLE"
    "\<forall>b \<in> A. \<forall>k. (b \<noteq> ?b \<or> k \<notin> redir_regs (of_nat idx)) \<longrightarrow> reg s' b k = reg ?s b k"
    using write_redirection [OF io le] ui idx(2) by metis
  have keep: "redirection reg s' b j = redirection reg ?s b j" if "b \<in> A" "b \<noteq> ?b \<or> j \<noteq> of_nat idx" "unat j < 120" for b j
  proof (cases "b = ?b")
    case True
    then show ?thesis using redirection_kept(1) [of "of_nat idx" reg s' b ?s j] s'(3) that ui idx(2) by auto
  next
    case False
    then show ?thesis using s'(3) that(1) by (simp add: redirection_def)
  qed
  let ?st' = "st1\<lparr> KERNEL_IDT := (KERNEL_IDT st1)(v := e), GlobalIsrPointer := isr, apics := (apics st1)\<lparr> apic_hw := s' \<rparr>,
    gIRQ_MGR_ProcessorSwitch := gIRQ_MGR_ProcessorSwitch st1 + 1 \<rparr>"
  have a1: "apics st1 = apics st" "KERNEL_IDT st1 = KERNEL_IDT st" "gIRQ_MGR_ProcessorSwitch st1 = p" "gIRQ_MGR_MUTEX st1 = gIRQ_MGR_MUTEX st"
    "rflags st1 = rflags st" "isr = isr_for Handler Flags v (GlobalIsrPointer st)" by (simp_all add: st1_def set_desc_def p_def isr_def)
  have "claim_irq env Handler irq DeliveryMode Flags i r (of_nat idx) st = Inr ?st'"
    using tab g(1) s'(1) unfolding p_def [symmetric]
    by (simp add: claim_irq_def Let_def p_def [symmetric] v_def [symmetric] st1_def [symmetric] uc a1)
  moreover have "irq_claimed env reg A Handler irq DeliveryMode Flags i r idx p k st ?st'"
    unfolding irq_claimed_def Let_def v_def [symmetric]
    using g(2) s'(2) keep by (simp add: a1 redtbl_word_writable) (simp add: st1_def set_desc_def)
  ultimately show ?thesis unfolding p_def [symmetric] using a1 by auto
qed

lemma check_override_apics: "apics st1 = apics st \<Longrightarrow> check_override env st1 irq fl = check_override env st irq fl"
  by (simp add: check_override_def)

lemma irq_claimed_shift:
  assumes "irq_claimed env reg A Handler irq dm fl i r idx p k st2 st3"
    and "IrqControlTables st2 = IrqControlTables st" and "KERNEL_IDT st2 = KERNEL_IDT st" and "GlobalIsrPointer st2 = GlobalIsrPointer st"
    and "apics st2 = (apics st)\<lparr> apic_hw := s \<rparr>"
    and "\<forall>b \<in> A. \<forall>k. reg s b k = reg (apic_hw (apics st)) b k"
  shows "irq_claimed env reg A Handler irq dm fl i r idx p k st (irq_leave saved st3)"
proof -
  have r: "redirection reg s b j = redirection reg (apic_hw (apics st)) b j" if "b \<in> A" for b j
    using assms(6) that by (simp add: redirection_def)
  have "(apics st3)\<lparr> apic_hw := s \<rparr> = (apics st)\<lparr> apic_hw := s \<rparr>"
    using assms(1,5) by (simp add: irq_claimed_def Let_def)
  then have "(apics st3)\<lparr> apic_hw := s \<rparr>\<lparr> apic_hw := apic_hw (apics st) \<rparr> = (apics st)\<lparr> apic_hw := s \<rparr>\<lparr> apic_hw := apic_hw (apics st) \<rparr>"
    by (rule arg_cong)
  then have "(apics st3)\<lparr> apic_hw := apic_hw (apics st) \<rparr> = apics st" by simp
  then show ?thesis using assms(1-5) r unfolding irq_claimed_def Let_def irq_leave_def by simp
qed

text \<open>
  C6. Taking control of an interrupt.  When the lock is free, the tables are in order, the counter that picks the processor is not
  above the number of processors (\<open>msi_then_irq_out_of_bounds\<close> shows how it can get there), nobody controls the interrupt (after the
  override check) and the next processor has a free descriptor \<open>k\<close>, \<open>KeControlIrq\<close> succeeds: that descriptor and no other is
  filled in, the gate of its vector and no other leads to the entry point, the table of service routines gets the handler when the
  basic wrapper is asked for and is the same otherwise, the redirection entry that serves the interrupt carries vector,
  processor, delivery mode and trigger and is unmasked, every other entry of every controller keeps its value, and lock,
  processor flags and the rest of the state are as before.
\<close>

theorem KeControlIrq_claims:
  assumes "entry_points env" and "Handler \<noteq> 0" and "DeliveryMode \<le> 3" and "\<not> bit (gIRQ_MGR_MUTEX st) 0"
    and "irq_tables env st" and "0 < irq_NumProcessors env" and "gIRQ_MGR_ProcessorSwitch st \<le> irq_NumProcessors env"
    and "serves (ie_apic env) reg A (apics st)" and "check_override env st IrqNumber Flags0 = Inr (irq, Flags)"
    and "\<forall>t \<in> set (IrqControlTables st). \<forall>d \<in> set t. \<not> controls irq d" and "irq \<le> 24 * NumIoApics (apics st)"
    and "j < unat (NumIoApics (apics st))"
    and "unat irq = (\<Sum>i = 0..<j. entries_of (ie_apic env) reg (apics st) (apic_hw (apics st)) i) + idx"
    and "idx < entries_of (ie_apic env) reg (apics st) (apic_hw (apics st)) j" and "idx < 120"
    and "first_index (\<lambda>d. \<not> icd_Present d) (IrqControlTables st ! unat (next_processor env st)) = Some k"
  shows "\<exists>st'. KeControlIrq env Handler IrqNumber DeliveryMode Flags0 st = Inr (KERNEL_SOK, st') \<and>
     irq_claimed env reg A Handler irq DeliveryMode Flags j (SortedIoApics (apics st) ! j) idx (next_processor env st) k st st' \<and>
     gIRQ_MGR_MUTEX st' = gIRQ_MGR_MUTEX st \<and> rflags st' = rflags st"
proof -
  define st1 where "st1 = st\<lparr> gIRQ_MGR_MUTEX := set_bit 0 (gIRQ_MGR_MUTEX st), rflags := unset_bit 9 (rflags st),
    gIRQ_MGR_ProcessorSwitch := next_processor env st \<rparr>"
  have st1: "(let st0 = st\<lparr> gIRQ_MGR_MUTEX := set_bit 0 (gIRQ_MGR_MUTEX st), rflags := unset_bit 9 (rflags st) \<rparr>
      in if gIRQ_MGR_ProcessorSwitch st0 = irq_NumProcessors env then st0\<lparr> gIRQ_MGR_ProcessorSwitch := 0 \<rparr> else st0) = st1"
    by (simp add: st1_def next_processor_def)
  have enter: "irq_enter st = Inr (st\<lparr> gIRQ_MGR_MUTEX := set_bit 0 (gIRQ_MGR_MUTEX st), rflags := unset_bit 9 (rflags st) \<rparr>)"
    using assms(4) by (simp add: irq_enter_def spin_free)
  have f1: "apics st1 = apics st" "IrqControlTables st1 = IrqControlTables st" "KERNEL_IDT st1 = KERNEL_IDT st"
    "gIRQ_MGR_ProcessorSwitch st1 = next_processor env st" by (simp_all add: st1_def)
  have none: "find_controlled (IrqControlTables st) irq [0..<unat (irq_NumProcessors env)] = Inr None"
    using find_controlled_none [of "[0..<unat (irq_NumProcessors env)]"] assms(5,10) by (simp add: irq_tables_def)
  obtain s where s: "find_ioapic (ie_apic env) (apics st) [0..<unat (NumIoApics (apics st))] irq (apic_hw (apics st)) =
      Inr (Some (j, SortedIoApics (apics st) ! j, of_nat idx), s)" "\<forall>b \<in> A. \<forall>k. reg s b k = reg (apic_hw (apics st)) b k"
    using find_ioapic_serves [OF assms(8,12) _ assms(13,14)] by auto
  define st2 where "st2 = st1\<lparr> apics := (apics st1)\<lparr> apic_hw := s \<rparr> \<rparr>"
  have f2: "apics st2 = (apics st)\<lparr> apic_hw := s \<rparr>" "IrqControlTables st2 = IrqControlTables st" "KERNEL_IDT st2 = KERNEL_IDT st"
    "gIRQ_MGR_ProcessorSwitch st2 = next_processor env st" "gIRQ_MGR_MUTEX st2 = set_bit 0 (gIRQ_MGR_MUTEX st)"
    "GlobalIsrPointer st2 = GlobalIsrPointer st"
    by (simp_all add: st2_def f1) (simp_all add: st1_def)
  have np: "unat (next_processor env st) < length (IrqControlTables st)"
    using assms(5-7) by (auto simp: next_processor_def irq_tables_def word_less_nat_alt word_le_nat_alt word_unat_eq_iff)
  note q = serves_query [OF assms(8,12)]
  have io: "ioapic_registers (ae_io (ie_apic env)) reg A" using assms(8) by (simp add: serves_def)
  have mx: "idx \<le> unat (max_entry reg s (io_base (ie_apic env) (SortedIoApics (apics st) ! j)))"
    using assms(14) s(2) q(3) by (simp add: entries_of_def max_entry_def)
  obtain st3 where st3: "claim_irq env Handler irq DeliveryMode Flags j (SortedIoApics (apics st) ! j) (of_nat idx) st2 = Inr st3"
    "irq_claimed env reg A Handler irq DeliveryMode Flags j (SortedIoApics (apics st) ! j) idx (next_processor env st) k st2 st3"
    "gIRQ_MGR_MUTEX st3 = set_bit 0 (gIRQ_MGR_MUTEX st)"
    using claim_irq_claims [OF assms(1,2) _ _ io q(3) _ assms(15), where st = st2 and k = k and irq = irq and DeliveryMode = DeliveryMode and Flags = Flags and i = j] np mx assms(16) by (auto simp: f2)
  have "KeControlIrq env Handler IrqNumber DeliveryMode Flags0 st = Inr (KERNEL_SOK, irq_leave (rflags st) st3)"
    using assms(2) leD [OF assms(3)] leD [OF assms(11)] st3(1) s(1) none
    unfolding KeControlIrq_def enter andThen_simps Let_def st1 [unfolded Let_def] check_override_apics [OF f1(1)] assms(9) f1 prod.case
    by (simp add: f1 st2_def del: linorder_not_less)
  moreover have "irq_claimed env reg A Handler irq DeliveryMode Flags j (SortedIoApics (apics st) ! j) idx (next_processor env st) k st
      (irq_leave (rflags st) st3)"
    using irq_claimed_shift [OF st3(2) f2(2,3,6,1) s(2)] .
  ultimately show ?thesis using st3(3) BitRelease_set_bit [OF assms(4)] by (simp add: irq_leave_def)
qed

definition free_desc :: IRQ_CONTROL_DESCRIPTOR where
  "free_desc = \<lparr> icd_Present = False, VirtualIoApicId = 0, PhysicalIrqNumber = 0, IoApicIrqNumber = 0, icd_Flags = 0, icd_Process = 0,
     icd_Handler = 0, InterruptVector = 0, LapicId = 0, icd_Source = 0, icd_Device = 0, icd_Driver = 0 \<rparr>"

definition one_irq_env :: "(u32 \<times> (u8 \<Rightarrow> u32)) irq_env" where
  "one_irq_env = \<lparr> ie_apic = one_env, ie_ports = \<lparr> OutPort = (\<lambda>_ _ s. s), OutPortW = (\<lambda>_ _ s. s), OutPortB = (\<lambda>_ _ s. s),
       InPort = (\<lambda>_ s. (0, s)), InPortW = (\<lambda>_ s. (0, s)), InPortB = (\<lambda>_ s. (0, s)), load = (\<lambda>_ _ _. 0), store = (\<lambda>_ _ _ s. s) \<rparr>,
     GlobalWrapperPointer = (\<lambda>_. 0x5000), gIRQCtrlWrapPtr = (\<lambda>_. 0x6000), irq_NumProcessors = 1, irq_ProcessorId = (\<lambda>_. 0),
     irq_CurrentProcess = 0x7000 \<rparr>"

definition one_irq_state :: "(u32 \<times> (u8 \<Rightarrow> u32)) IRQ_STATE" where
  "one_irq_state = \<lparr> KERNEL_IDT = (\<lambda>_. \<lparr> offset_low = 0, segment_selector = 0, ist = 0, gate_type = 0, dpl = 0, gate_present = False,
       offset_mid = 0, offset_high = 0 \<rparr>), GlobalIsrPointer = (\<lambda>_. 0), gIRQ_MGR_ProcessorSwitch = 0, gIRQ_MGR_MUTEX = 0,
     IrqControlTables = [replicate NUM_IRQS_PER_PROCESSOR free_desc], rflags = 0x202,
     apics = \<lparr> TMP_IoApicList = [], SortedIoApics = [0x100], NumIoApics = 1, AcpiNumProcessors = 1, Madt = None,
       LocalApicPhysicalAddress = 0xFEE00000, apic_pages = (\<lambda>_ _. PTBLENTRY_zero, []), apic_hw = (0, \<lambda>_. 0) \<rparr> \<rparr>"

lemma one_irq_serves: "serves (ie_apic one_irq_env) one_reg {0xFEC00000} (apics one_irq_state)"
  using one_ioapic_registers one_base by (simp add: serves_def one_irq_env_def one_irq_state_def) (simp add: one_env_def)

lemma one_irq_entries: "entries_of (ie_apic one_irq_env) one_reg (apics one_irq_state) (apic_hw (apics one_irq_state)) 0 = 3"
  by (simp add: entries_of_def one_max)

theorem KeControlIrq_claims_witness:
  "\<exists>st'. KeControlIrq one_irq_env 0x8000 1 0 1 one_irq_state = Inr (KERNEL_SOK, st') \<and>
     irq_claimed one_irq_env one_reg {0xFEC00000} 0x8000 1 0 1 0 (SortedIoApics (apics one_irq_state) ! 0) 1
       (next_processor one_irq_env one_irq_state) 0 one_irq_state st' \<and>
     gIRQ_MGR_MUTEX st' = gIRQ_MGR_MUTEX one_irq_state \<and> rflags st' = rflags one_irq_state"
  by (rule KeControlIrq_claims [OF _ _ _ _ _ _ _ one_irq_serves])
    (simp_all add: one_irq_entries, simp_all add: one_irq_env_def one_irq_state_def entry_points_def irq_tables_def check_override_def
      IRQ_CONTROL_DISABLE_OVERRIDE_CHECK_def controls_def free_desc_def next_processor_def NUM_IRQS_PER_PROCESSOR_def)

section \<open>Ownership\<close>

lemma install_gate_keeps:
  "install_gate env Handler Flags v st = Inr st' \<Longrightarrow> IrqControlTables st' = IrqControlTables st"
  by (auto simp: install_gate_def RegisterInterruptServiceRoutine_def SetInterruptGate_def Let_def split: if_splits)

lemma claim_irq_tables:
  assumes "claim_irq env Handler irq dm fl i r ix st = Inr st'"
  obtains k v where "unat (gIRQ_MGR_ProcessorSwitch st) < length (IrqControlTables st)"
    and "first_index (\<lambda>d. \<not> icd_Present d) (IrqControlTables st ! unat (gIRQ_MGR_ProcessorSwitch st)) = Some k"
    and "IrqControlTables st' = IrqControlTables (set_desc (unat (gIRQ_MGR_ProcessorSwitch st)) k (claimed env Handler irq fl i ix v) st)"
proof -
  let ?p = "gIRQ_MGR_ProcessorSwitch st"
  obtain k a where k: "unat ?p < length (IrqControlTables st)" "first_index (\<lambda>d. \<not> icd_Present d) (IrqControlTables st ! unat ?p) = Some k"
    "install_gate env Handler fl (0x20 + of_nat k) (set_desc (unat ?p) k (claimed env Handler irq fl i ix (0x20 + of_nat k)) st) = Inr a"
    "IrqControlTables st' = IrqControlTables a"
    using assms by (auto simp: claim_irq_def Let_def andThen_Inr_iff array_get_def split: option.splits if_splits)
  show ?thesis by (rule that [OF k(1,2)]) (simp add: k(4) install_gate_keeps [OF k(3)])
qed

text \<open>What one call does to the tables, on every path that returns.\<close>

lemma KeControlIrq_tables:
  assumes "KeControlIrq env Handler irq0 dm fl0 st = Inr (status, st')" and "irq_tables env st"
  obtains (same) "IrqControlTables st' = IrqControlTables st"
  | (flags) x i fl where "x < length (IrqControlTables st)" and "i < length (IrqControlTables st ! x)"
      and "IrqControlTables st' = IrqControlTables (set_desc x i (\<lambda>d. d\<lparr> icd_Flags := fl \<rparr>) st)"
  | (claim) p k irq fl i ix v where "p < length (IrqControlTables st)"
      and "first_index (\<lambda>d. \<not> icd_Present d) (IrqControlTables st ! p) = Some k"
      and "\<forall>t \<in> set (IrqControlTables st). \<forall>d \<in> set t. \<not> controls irq d" and "irq \<le> 24 * NumIoApics (apics st)"
      and "IrqControlTables st' = IrqControlTables (set_desc p k (claimed env Handler irq fl i ix v) st)"
proof (cases "Handler = 0 \<or> dm > 3")
  case True
  then show ?thesis using assms(1) same by (simp add: KeControlIrq_def)
next
  case False
  let ?n = "[0..<unat (irq_NumProcessors env)]"
  obtain st0 where st0: "irq_enter st = Inr st0" using assms(1) False by (cases "irq_enter st") (simp_all add: KeControlIrq_def)
  define st1 where "st1 = (if gIRQ_MGR_ProcessorSwitch st0 = irq_NumProcessors env then st0\<lparr> gIRQ_MGR_ProcessorSwitch := 0 \<rparr> else st0)"
  have t1: "IrqControlTables st1 = IrqControlTables st" "apics st1 = apics st"
    using st0 by (auto simp: st1_def irq_enter_def andThen_Inr_iff)
  obtain irq fl where co: "check_override env st1 irq0 fl0 = Inr (irq, fl)"
    using assms(1) False by (cases "check_override env st1 irq0 fl0") (auto simp: KeControlIrq_def st0 st1_def Let_def)
  obtain r where r: "find_controlled (IrqControlTables st) irq ?n = Inr r"
    "case r of None \<Rightarrow> \<forall>x \<in> set ?n. \<forall>d \<in> set (IrqControlTables st ! x). \<not> controls irq d
      | Some (x, i) \<Rightarrow> x \<in> set ?n \<and> i < length (IrqControlTables st ! x) \<and> controls irq (IrqControlTables st ! x ! i)"
    using find_controlled_result [of ?n "IrqControlTables st" irq] assms(2) by (auto simp: irq_tables_def)
  note run = assms(1) [unfolded KeControlIrq_def st0 andThen_simps Let_def, folded st1_def, unfolded co andThen_simps prod.case t1 r(1)]
  show ?thesis
  proof (cases "irq > 24 * NumIoApics (apics st)")
    case True
    then show ?thesis using run False same t1 by (auto simp: irq_leave_def)
  next
    case le: False
    show ?thesis
    proof (cases r)
      case (Some xi)
      obtain x i where xi: "xi = (x, i)" by (cases xi)
      have "x < length (IrqControlTables st)" "i < length (IrqControlTables st ! x)"
        using r(2) assms(2) unfolding Some xi irq_tables_def by auto
      then show ?thesis using run False le same flags [of x i fl] t1
        by (auto simp: Some xi irq_leave_def set_desc_def split: if_splits)
    next
      case None
      have none: "\<forall>t \<in> set (IrqControlTables st). \<forall>d \<in> set t. \<not> controls irq d"
        using r(2) assms(2) unfolding None irq_tables_def all_set_conv_all_nth [of "IrqControlTables st"] by simp
      obtain en s where f: "find_ioapic (ie_apic env) (apics st) [0..<unat (NumIoApics (apics st))] irq (apic_hw (apics st)) = Inr (en, s)"
        using run False le by (auto simp: None andThen_Inr_iff)
      define st2 where "st2 = st1\<lparr> apics := (apics st)\<lparr> apic_hw := s \<rparr> \<rparr>"
      have t2: "IrqControlTables st2 = IrqControlTables st" by (simp add: st2_def t1)
      show ?thesis
      proof (cases en)
        case None
        then show ?thesis using run False le same t1 by (auto simp: \<open>r = None\<close> f irq_leave_def)
      next
        case (Some e)
        obtain i io ix where e: "e = (i, io, ix)" by (cases e)
        obtain st3 where st3: "claim_irq env Handler irq dm fl i io ix st2 = Inr st3" "st' = irq_leave (rflags st) st3"
          using run False le by (auto simp: \<open>r = None\<close> f Some e andThen_Inr_iff st2_def)
        then show ?thesis
          using claim [of "unat (gIRQ_MGR_ProcessorSwitch st2)" _ irq fl i ix] none le t2
          by (elim claim_irq_tables) (simp add: irq_leave_def set_desc_def)
      qed
    qed
  qed
qed

text \<open>At most one present descriptor per interrupt number, in all tables together.\<close>

definition one_owner :: "'s IRQ_STATE \<Rightarrow> bool" where
  "one_owner st \<longleftrightarrow> (\<forall>x < length (IrqControlTables st). \<forall>i < length (IrqControlTables st ! x).
     \<forall>y < length (IrqControlTables st). \<forall>j < length (IrqControlTables st ! y).
       icd_Present (IrqControlTables st ! x ! i) \<and> icd_Present (IrqControlTables st ! y ! j) \<and>
       PhysicalIrqNumber (IrqControlTables st ! x ! i) = PhysicalIrqNumber (IrqControlTables st ! y ! j) \<longrightarrow> x = y \<and> i = j)"

definition keeps_owner :: "IRQ_CONTROL_DESCRIPTOR \<Rightarrow> IRQ_CONTROL_DESCRIPTOR \<Rightarrow> bool" where
  "keeps_owner d d' \<longleftrightarrow> d' = d\<lparr> icd_Flags := icd_Flags d' \<rparr>"

lemma set_desc_shape:
  "length (IrqControlTables (set_desc x i f st)) = length (IrqControlTables st)"
  "y < length (IrqControlTables st) \<Longrightarrow> length (IrqControlTables (set_desc x i f st) ! y) = length (IrqControlTables st ! y)"
  by (simp add: set_desc_def) (cases "x = y"; simp add: set_desc_def)

lemma set_desc_nth:
  "y < length (IrqControlTables st) \<Longrightarrow> j < length (IrqControlTables st ! y) \<Longrightarrow>
     IrqControlTables (set_desc x i f st) ! y ! j = (if y = x \<and> j = i then f (IrqControlTables st ! x ! i) else IrqControlTables st ! y ! j)"
  by (cases "x = y"; cases "i = j") (simp_all add: set_desc_def)

lemma irq_tables_set_desc:
  "irq_tables env st \<Longrightarrow> IrqControlTables st' = IrqControlTables (set_desc x i f st) \<Longrightarrow> irq_tables env st'"
  unfolding irq_tables_def all_set_conv_all_nth by (simp add: set_desc_shape)

lemma one_owner_cong:
  assumes "one_owner st" and "length (IrqControlTables st') = length (IrqControlTables st)"
    and "\<And>x. x < length (IrqControlTables st) \<Longrightarrow> length (IrqControlTables st' ! x) = length (IrqControlTables st ! x)"
    and "\<And>x i. x < length (IrqControlTables st) \<Longrightarrow> i < length (IrqControlTables st ! x) \<Longrightarrow>
      icd_Present (IrqControlTables st' ! x ! i) = icd_Present (IrqControlTables st ! x ! i) \<and>
      PhysicalIrqNumber (IrqControlTables st' ! x ! i) = PhysicalIrqNumber (IrqControlTables st ! x ! i)"
  shows "one_owner st'"
  unfolding one_owner_def
proof (intro allI impI)
  fix x i y j
  assume b: "x < length (IrqControlTables st')" "i < length (IrqControlTables st' ! x)" "y < length (IrqControlTables st')"
    "j < length (IrqControlTables st' ! y)"
    and p: "icd_Present (IrqControlTables st' ! x ! i) \<and> icd_Present (IrqControlTables st' ! y ! j) \<and>
      PhysicalIrqNumber (IrqControlTables st' ! x ! i) = PhysicalIrqNumber (IrqControlTables st' ! y ! j)"
  have "x < length (IrqControlTables st)" "i < length (IrqControlTables st ! x)" "y < length (IrqControlTables st)"
    "j < length (IrqControlTables st ! y)" using b assms(2,3) by simp_all
  then show "x = y \<and> i = j" using assms(1,4) p unfolding one_owner_def by metis
qed

lemma byte_irq:
  assumes "n \<le> (10 :: u32)" and "irq \<le> 24 * n"
  shows "ucast (ucast irq :: u8) = irq"
proof -
  have "unat (24 * n) = 24 * unat n" using assms(1) by (simp add: unat_word_ariths word_le_nat_alt)
  then have "unat irq < 256" using assms by (simp add: word_le_nat_alt)
  then have "bit irq i \<Longrightarrow> i < 8" for i using bit_bound [of irq 8 i] by simp
  then show ?thesis by (intro bit_word_eqI) (auto simp: bit_simps)
qed


lemma one_owner_claim:
  assumes "one_owner st" and "\<forall>t \<in> set (IrqControlTables st). \<forall>d \<in> set t. \<not> controls irq d" and "ucast (ucast irq :: u8) = irq"
    and "IrqControlTables st' = IrqControlTables (set_desc p k (claimed env Handler irq fl i ix v) st)"
  shows "one_owner st'"
proof -
  let ?T = "IrqControlTables st" and ?T' = "IrqControlTables st'"
  have new: "\<not> icd_Present (?T ! x ! i) \<or> PhysicalIrqNumber (?T ! x ! i) \<noteq> ucast irq" if "x < length ?T" "i < length (?T ! x)" for x i
  proof -
    have "\<not> controls irq (?T ! x ! i)" using assms(2) that by (metis nth_mem)
    then show ?thesis using assms(3) by (auto simp: controls_def)
  qed
  have at: "?T' ! x ! j = (if x = p \<and> j = k then claimed env Handler irq fl i ix v (?T ! p ! k) else ?T ! x ! j)"
    if "x < length ?T" "j < length (?T ! x)" for x j using that unfolding assms(4) by (rule set_desc_nth)
  have len: "length ?T' = length ?T" "\<And>x. x < length ?T \<Longrightarrow> length (?T' ! x) = length (?T ! x)" by (simp_all add: assms(4) set_desc_shape)
  show ?thesis unfolding one_owner_def
  proof (intro allI impI, elim conjE)
    fix x i y j
    assume b: "x < length ?T'" "i < length (?T' ! x)" "y < length ?T'" "j < length (?T' ! y)"
      and p: "icd_Present (?T' ! x ! i)" "icd_Present (?T' ! y ! j)" "PhysicalIrqNumber (?T' ! x ! i) = PhysicalIrqNumber (?T' ! y ! j)"
    have b': "x < length ?T" "i < length (?T ! x)" "y < length ?T" "j < length (?T ! y)" using b len by simp_all
    show "x = y \<and> i = j"
    proof (cases "(x = p \<and> i = k) \<or> (y = p \<and> j = k)")
      case True
      then show ?thesis using p new [OF b'(1,2)] new [OF b'(3,4)] unfolding at [OF b'(1,2)] at [OF b'(3,4)]
        by (auto simp: claimed_def split: if_splits)
    next
      case False
      then show ?thesis using p b' assms(1) unfolding at [OF b'(1,2)] at [OF b'(3,4)] one_owner_def by auto
    qed
  qed
qed

text \<open>
  C7. Exclusive control.  With at most ten controllers, no call of \<open>KeControlIrq\<close>, whatever it returns, gives an interrupt a
  second descriptor, changes the size of a table, or takes an interrupt away: a present descriptor keeps everything but its flags.
\<close>

theorem KeControlIrq_exclusive:
  assumes "irq_tables env st" and "NumIoApics (apics st) \<le> 10" and "one_owner st"
    and "KeControlIrq env Handler irq0 dm fl0 st = Inr (status, st')"
  shows "one_owner st' \<and> irq_tables env st' \<and>
     (\<forall>x < length (IrqControlTables st). \<forall>i < length (IrqControlTables st ! x).
        icd_Present (IrqControlTables st ! x ! i) \<longrightarrow> keeps_owner (IrqControlTables st ! x ! i) (IrqControlTables st' ! x ! i))"
  using assms(4,1)
proof (cases rule: KeControlIrq_tables)
  case same
  then show ?thesis using assms(1,3) by (simp add: one_owner_def irq_tables_def keeps_owner_def)
next
  case (flags x i fl)
  have "one_owner st'"
    by (rule one_owner_cong [OF assms(3)]) (simp_all add: flags(3) set_desc_nth set_desc_shape)
  then show ?thesis using irq_tables_set_desc [OF assms(1) flags(3)] by (simp add: flags(3) set_desc_nth keeps_owner_def)
next
  case (claim p k irq fl i ix v)
  have "one_owner st'" by (rule one_owner_claim [OF assms(3) claim(3) byte_irq [OF assms(2) claim(4)] claim(5)])
  moreover have "\<not> icd_Present (IrqControlTables st ! p ! k)" using first_index_P [OF claim(2)] .
  ultimately show ?thesis using irq_tables_set_desc [OF assms(1) claim(5)] by (simp add: claim(5) set_desc_nth keeps_owner_def)
qed

definition owned_irq_state :: "(u32 \<times> (u8 \<Rightarrow> u32)) IRQ_STATE" where
  "owned_irq_state = one_irq_state\<lparr> IrqControlTables :=
     [free_desc\<lparr> icd_Present := True, PhysicalIrqNumber := 1, icd_Process := 0x7000 \<rparr> # replicate 0xDF free_desc] \<rparr>"

theorem KeControlIrq_exclusive_witness:
  "\<exists>st'. KeControlIrq one_irq_env 0x8000 1 0 1 owned_irq_state = Inr (KERNEL_SWR_IRQ_ALREADY_SET, st') \<and> one_owner st' \<and>
     irq_tables one_irq_env st' \<and> keeps_owner (IrqControlTables owned_irq_state ! 0 ! 0) (IrqControlTables st' ! 0 ! 0)"
proof -
  have s: "irq_tables one_irq_env owned_irq_state" "NumIoApics (apics owned_irq_state) \<le> 10"
    by (simp_all add: irq_tables_def one_irq_env_def one_irq_state_def owned_irq_state_def NUM_IRQS_PER_PROCESSOR_def)
  have o: "one_owner owned_irq_state"
    by (auto simp: one_owner_def owned_irq_state_def free_desc_def nth_Cons split: nat.splits)
  have "\<exists>st'. KeControlIrq one_irq_env 0x8000 1 0 1 owned_irq_state = Inr (KERNEL_SWR_IRQ_ALREADY_SET, st')"
    by (simp add: KeControlIrq_def irq_enter_def owned_irq_state_def one_irq_state_def one_irq_env_def SpinLockSyncBitTestAndSet_def
        check_override_def IRQ_CONTROL_DISABLE_OVERRIDE_CHECK_def controls_def free_desc_def)
  then obtain st' where "KeControlIrq one_irq_env 0x8000 1 0 1 owned_irq_state = Inr (KERNEL_SWR_IRQ_ALREADY_SET, st')" by blast
  with KeControlIrq_exclusive [OF s o this] show ?thesis by (auto simp: owned_irq_state_def dest!: spec [of _ "0 :: nat"])
qed

section \<open>Message-signalled interrupts get a free descriptor\<close>

lemma register_scan_result:
  assumes "entry_points env" and "\<forall>x \<in> set xs. x < length (IrqControlTables st)"
  shows "\<exists>r st'. register_scan env src h fl io xs st = Inr (r, st') \<and> gIRQ_MGR_MUTEX st' = gIRQ_MGR_MUTEX st \<and>
     (case r of None \<Rightarrow> (\<forall>x \<in> set xs. \<forall>d \<in> set (IrqControlTables st ! x). icd_Present d) \<and> IrqControlTables st' = IrqControlTables st
      | Some (x, c) \<Rightarrow> x \<in> set xs \<and> first_index (\<lambda>d. \<not> icd_Present d) (IrqControlTables st ! x) = Some c \<and>
          IrqControlTables st' = IrqControlTables (set_desc x c (registered env src h fl io x c) st) \<and>
          gIRQ_MGR_ProcessorSwitch st' = of_nat c + 1)"
  using assms(2)
proof (induction xs)
  case Nil
  then show ?case by simp
next
  case (Cons x xs)
  show ?case
  proof (cases "first_index (\<lambda>d. \<not> icd_Present d) (IrqControlTables st ! x)")
    case None
    then have "\<forall>d \<in> set (IrqControlTables st ! x). icd_Present d" by (simp add: first_index_None_iff)
    moreover obtain r st' where r: "register_scan env src h fl io xs st = Inr (r, st')" "gIRQ_MGR_MUTEX st' = gIRQ_MGR_MUTEX st"
      "case r of None \<Rightarrow> (\<forall>x \<in> set xs. \<forall>d \<in> set (IrqControlTables st ! x). icd_Present d) \<and> IrqControlTables st' = IrqControlTables st
        | Some (x, c) \<Rightarrow> x \<in> set xs \<and> first_index (\<lambda>d. \<not> icd_Present d) (IrqControlTables st ! x) = Some c \<and>
            IrqControlTables st' = IrqControlTables (set_desc x c (registered env src h fl io x c) st) \<and>
            gIRQ_MGR_ProcessorSwitch st' = of_nat c + 1"
      using Cons by auto
    ultimately show ?thesis using Cons.prems None
      by (intro exI [of _ r] exI [of _ st']) (cases r; auto)
  next
    case (Some c)
    have "gIRQCtrlWrapPtr env (of_nat c) \<noteq> 0" using assms(1) by (simp add: entry_points_def)
    from SetInterruptGate_sets [OF this, of "of_nat c + 0x20" 0 3 IDT_INTERRUPT_GATE 8 st]
    show ?thesis using Some Cons.prems by (auto simp: set_desc_def)
  qed
qed

text \<open>
  Remark. Message-signalled interrupts.  With the lock free, \<open>RegisterIrq\<close> ends; it returns null exactly when every descriptor of every
  processor is in use, and then changes no descriptor.  Otherwise it fills in a descriptor that was free, with vector
  \<open>0x20\<close> plus its index, and no other, and releases the lock.
\<close>

theorem RegisterIrq_registers:
  assumes "entry_points env" and "irq_tables env st" and "\<not> bit (gIRQ_MGR_MUTEX st) 0"
  shows "\<exists>r st'. RegisterIrq env src h fl io st = Inr (r, st') \<and> gIRQ_MGR_MUTEX st' = gIRQ_MGR_MUTEX st \<and>
     (case r of None \<Rightarrow> (\<forall>t \<in> set (IrqControlTables st). \<forall>d \<in> set t. icd_Present d) \<and> IrqControlTables st' = IrqControlTables st
      | Some (x, c) \<Rightarrow> x < length (IrqControlTables st) \<and> c < NUM_IRQS_PER_PROCESSOR \<and> \<not> icd_Present (IrqControlTables st ! x ! c) \<and>
          IrqControlTables st' = (IrqControlTables st)[x := (IrqControlTables st ! x)[c :=
            registered env src h fl io x c (IrqControlTables st ! x ! c)]])"
proof -
  let ?n = "unat (irq_NumProcessors env)" and ?st0 = "st\<lparr> gIRQ_MGR_MUTEX := set_bit 0 (gIRQ_MGR_MUTEX st) \<rparr>"
  let ?found = "\<lambda>x c st'. x < length (IrqControlTables st) \<and> first_index (\<lambda>d. \<not> icd_Present d) (IrqControlTables st ! x) = Some c \<and>
    IrqControlTables st' = IrqControlTables (set_desc x c (registered env src h fl io x c) st)"
  have len: "length (IrqControlTables st) = ?n" using assms(2) by (simp add: irq_tables_def)
  have ok: "x < length (IrqControlTables st) \<and> c < NUM_IRQS_PER_PROCESSOR \<and> \<not> icd_Present (IrqControlTables st ! x ! c) \<and>
      IrqControlTables st' = (IrqControlTables st)[x := (IrqControlTables st ! x)[c :=
        registered env src h fl io x c (IrqControlTables st ! x ! c)]]" if "?found x c st'" for x c st'
  proof -
    have "length (IrqControlTables st ! x) = NUM_IRQS_PER_PROCESSOR" using that assms(2) by (simp add: irq_tables_def)
    then show ?thesis using that first_index_Some [of "\<lambda>d. \<not> icd_Present d" "IrqControlTables st ! x" c] by (simp add: set_desc_def)
  qed
  obtain r1 st1 where s1: "register_scan env src h fl io [unat (gIRQ_MGR_ProcessorSwitch st)..<?n] ?st0 = Inr (r1, st1)"
    "gIRQ_MGR_MUTEX st1 = set_bit 0 (gIRQ_MGR_MUTEX st)"
    "case r1 of None \<Rightarrow> IrqControlTables st1 = IrqControlTables st | Some (x, c) \<Rightarrow> ?found x c st1"
    using register_scan_result [OF assms(1), of "[unat (gIRQ_MGR_ProcessorSwitch st)..<?n]" ?st0 src h fl io] len
    by (fastforce split: option.splits simp: set_desc_def)
  note rel = BitRelease_set_bit [OF assms(3)]
  show ?thesis
  proof (cases r1)
    case (Some xc)
    obtain x c where xc: "xc = (x, c)" by (cases xc)
    have "RegisterIrq env src h fl io st = Inr (Some (x, c), release_irq_mutex st1)"
      using s1(1) by (simp add: RegisterIrq_def spin_free assms(3) Let_def Some xc)
    then show ?thesis using s1(2,3) ok [of x c st1] rel by (simp add: Some xc release_irq_mutex_def)
  next
    case None
    have t1: "IrqControlTables st1 = IrqControlTables st" using s1(3) by (simp add: None)
    obtain r2 st2 where s2: "register_scan env src h fl io [0..<?n] st1 = Inr (r2, st2)" "gIRQ_MGR_MUTEX st2 = gIRQ_MGR_MUTEX st1"
      "case r2 of None \<Rightarrow> (\<forall>x \<in> {0..<?n}. \<forall>d \<in> set (IrqControlTables st ! x). icd_Present d) \<and> IrqControlTables st2 = IrqControlTables st
        | Some (x, c) \<Rightarrow> ?found x c st2"
      using register_scan_result [OF assms(1), of "[0..<?n]" st1 src h fl io] len t1
      by (fastforce split: option.splits simp: set_desc_def)
    have run: "RegisterIrq env src h fl io st = Inr (r2, release_irq_mutex st2)"
      using s1(1) s2(1) by (simp add: RegisterIrq_def spin_free assms(3) Let_def None)
    have mut: "gIRQ_MGR_MUTEX (release_irq_mutex st2) = gIRQ_MGR_MUTEX st" using s1(2) s2(2) rel by (simp add: release_irq_mutex_def)
    have tab: "IrqControlTables (release_irq_mutex st2) = IrqControlTables st2" by (simp add: release_irq_mutex_def)
    show ?thesis
    proof (cases r2)
      case None
      then have "\<forall>t \<in> set (IrqControlTables st). \<forall>d \<in> set t. icd_Present d"
        using s2(3) len unfolding all_set_conv_all_nth [of "IrqControlTables st"] by simp
      then show ?thesis using run mut tab s2(3) None by simp
    next
      case (Some xc)
      obtain x c where xc: "xc = (x, c)" by (cases xc)
      show ?thesis using run mut s2(3) ok [of x c st2] unfolding tab by (simp add: Some xc tab)
    qed
  qed
qed

theorem RegisterIrq_registers_witness:
  "\<exists>r st'. RegisterIrq one_irq_env 0 0x8000 0x10 0 one_irq_state = Inr (r, st') \<and> gIRQ_MGR_MUTEX st' = 0"
proof -
  have "entry_points one_irq_env" "irq_tables one_irq_env one_irq_state" "\<not> bit (gIRQ_MGR_MUTEX one_irq_state) 0"
    by (simp_all add: entry_points_def irq_tables_def one_irq_env_def one_irq_state_def)
  from RegisterIrq_registers [OF this, of 0 "0x8000" "0x10" 0] show ?thesis by (auto simp: one_irq_state_def)
qed

section \<open>Where the code does not do what it means to\<close>

text \<open>
  Overrides: \<open>ISO_LEVEL_TRIGGERED\<close> contains the bit of \<open>ISO_EDGE_TRIGGERED\<close>, so a level-triggered override is programmed as
  edge-triggered, and one that conforms to its bus (flags 0) as level-sensitive.
\<close>

lemma level_override_becomes_edge:
  "override_flags 0 ISO_LEVEL_TRIGGERED AND IRQ_CONTROL_LEVEL_SENSITIVE = 0"
  "override_flags 0 0 AND IRQ_CONTROL_LEVEL_SENSITIVE \<noteq> 0"
  by (simp_all add: override_flags_def MULTIBIT_TEST_def ISO_LEVEL_TRIGGERED_def ISO_EDGE_TRIGGERED_def ISO_ACTIVE_LOW_def
      IRQ_CONTROL_LEVEL_SENSITIVE_def IRQ_CONTROL_LOW_ACTIVE_def Let_def)

lemma irq_table_Cons: "replicate NUM_IRQS_PER_PROCESSOR d = d # replicate 0xDF d"
  using replicate_Suc [of "0xDF" d] by (simp add: NUM_IRQS_PER_PROCESSOR_def)

lemmas one_irq_eval = RegisterIrq_def KeControlIrq_def owned_irq_state_def one_irq_state_def one_irq_env_def SpinLockSyncBitTestAndSet_def
  irq_enter_def check_override_def IRQ_CONTROL_DISABLE_OVERRIDE_CHECK_def controls_def free_desc_def SetInterruptGate_def Let_def
  release_irq_mutex_def BitRelease_def registered_def set_desc_def irq_leave_def

text \<open>
  \<open>RegisterIrq\<close> sets the next processor to the index of the descriptor plus one.  On a machine with one processor whose first
  descriptor is in use this is 2, which \<open>KeControlIrq\<close> does not reset, and every claim it then makes reads a control table that
  does not exist.
\<close>

lemma claim_irq_out_of_bounds:
  "length (IrqControlTables st) \<le> unat (gIRQ_MGR_ProcessorSwitch st) \<Longrightarrow> claim_irq env h irq dm fl i r ix st = Inl OutOfBounds"
  by (simp add: claim_irq_def Let_def)

lemma msi_then_irq_out_of_bounds:
  "\<exists>st'. RegisterIrq one_irq_env 0 0x8000 0x10 0 owned_irq_state = Inr (Some (0, 1), st') \<and> next_processor one_irq_env st' = 2 \<and>
     claim_irq one_irq_env 0x9000 2 0 1 0 0x100 2 st' = Inl OutOfBounds"
  by (simp add: one_irq_eval claim_irq_out_of_bounds next_processor_def)

text \<open>
  The descriptor of a message-signalled interrupt carries interrupt number 0, so after one process has registered one, no other
  process can take control of interrupt 0.
\<close>

lemma msi_blocks_irq_0:
  "\<exists>st'. RegisterIrq one_irq_env 0 0x8000 0x10 0 one_irq_state = Inr (Some (0, 0), st') \<and>
     (\<exists>st''. KeControlIrq (one_irq_env\<lparr> irq_CurrentProcess := 0x7100 \<rparr>) 0x9000 0 0 1 st' =
        Inr (KERNEL_SERR_IRQ_CONTROLLED_BY_ANOTHER_PROCESS, st''))"
  by (simp add: one_irq_eval irq_table_Cons bit_unset_bit_iff)

end
