(* ===== verification/Ahci.thy ===== *)
theory Ahci
  imports Kernel_Base
begin

text \<open>
  The AHCI driver's command slots and reads (\<open>drivers/ahci\<close>: \<open>ahcicmd.c\<close>, \<open>read.c\<close>, \<open>hcinterrupt.c\<close>, \<open>modelnumber.c\<close>).  A port
  is a record with the driver's bookkeeping (\<open>PendingCommands\<close> by thread, 0 for none, \<open>DoneCommands\<close>, \<open>UsedCommandSlots\<close>), the
  command tables and the two registers the slots depend on.  The driver shares the port with the controller, which clears bits of
  \<open>CommandIssue\<close> as it completes commands, and with its interrupt handler: \<open>AhciSataRead\<close> is therefore a machine whose steps are the
  accesses to the port in program order, a compound assignment being a load and a store, and \<open>ahci_step\<close> interleaves them with
  completions and interrupts.  The handler runs as one step: it is taken on the processor of the reading thread, between two of its
  accesses.  A handler that runs on another processor at the same time is not modelled, nor is the start-up of the controller.
\<close>

section \<open>Data\<close>

record ATA_FIS_H2D =
  FisType :: u8
  CommandControl :: bool
  fis_Command :: u8
  Lba0 :: u16
  Lba1 :: u8
  fis_Device :: u8
  Lba2 :: u16
  Lba3 :: u8
  fis_Count :: u16

record AHCI_COMMAND =
  CommandFisLength :: u32
  PrdtLength :: u32
  PrdtByteCount :: u32
  CommandFis :: ATA_FIS_H2D
  DataBaseAddress :: u64
  DataByteCount :: u32

record AHCI_DEVICE_PORT =
  PendingCommands :: "u64 list"
  DoneCommands :: u32
  UsedCommandSlots :: u32
  FirstD2h :: bool
  Commands :: "AHCI_COMMAND list"
  MaxCommandSlots :: nat
  CommandIssue :: u32
  SataActive :: u32

definition MAX_PRDT_BYTE_COUNT :: u64 where "MAX_PRDT_BYTE_COUNT = 0x40000"
definition FIS_TYPE_H2D :: u8 where "FIS_TYPE_H2D = 0x27"
definition ATA_READ_DMA :: u8 where "ATA_READ_DMA = 0xC8"
definition AHCI_DEVICE_LBA :: u8 where "AHCI_DEVICE_LBA = 0x40"
definition sizeof_ATA_FIS_H2D :: u32 where "sizeof_ATA_FIS_H2D = 20"

section \<open>Command slots\<close>

text \<open>The assembly routine keeps three bits of the offset, and complements the carry flag in all 32 bits of the result.\<close>

definition SyncBitTestAndSet :: "u32 \<Rightarrow> nat \<Rightarrow> u32 \<times> u32" where
  "SyncBitTestAndSet w BitOffset =
     (let k = unat ((of_nat BitOffset :: u64) AND 7) in (NOT (if bit w k then 1 else 0), set_bit k w))"

fun alloc_scan :: "u32 \<Rightarrow> u32 \<Rightarrow> nat list \<Rightarrow> (nat \<times> u32) option" where
  "alloc_scan Mask used [] = None"
| "alloc_scan Mask used (i # is) =
     (if Mask AND 1 = 0 \<and> \<not> bit used i then
        (case SyncBitTestAndSet used i of (ok, used') \<Rightarrow> if ok = 0 then alloc_scan Mask used' is else Some (i, used'))
      else alloc_scan (drop_bit 1 Mask) used is)"

text \<open>The scan is repeated until a slot is free, which another party has to bring about.\<close>

definition AhciAllocateCommand :: "AHCI_DEVICE_PORT \<Rightarrow> (nat \<times> AHCI_DEVICE_PORT) outcome" where
  "AhciAllocateCommand p =
     (case alloc_scan (CommandIssue p OR SataActive p) (UsedCommandSlots p) [0..<MaxCommandSlots p] of
        None \<Rightarrow> Inl Hang | Some (i, used) \<Rightarrow> Inr (i, p\<lparr> UsedCommandSlots := used \<rparr>))"

section \<open>Reading\<close>

text \<open>
  Releasing slot \<open>i\<close> in one of the two loops over the slots: the test, the load and the store of \<open>DoneCommands\<close>, the store to
  \<open>PendingCommands\<close>.  The second result is what is left to do for the slot.
\<close>

datatype ack_pc = TestDone | LoadDone | StoreDone u32 | ClearPending

fun ack_step :: "u64 \<Rightarrow> nat \<Rightarrow> ack_pc \<Rightarrow> AHCI_DEVICE_PORT \<Rightarrow> AHCI_DEVICE_PORT \<times> ack_pc option" where
  "ack_step Thread i TestDone p = (p, if PendingCommands p ! i = Thread \<and> bit (DoneCommands p) i then Some LoadDone else None)"
| "ack_step Thread i LoadDone p = (p, Some (StoreDone (DoneCommands p)))"
| "ack_step Thread i (StoreDone v) p = (p\<lparr> DoneCommands := v AND NOT (push_bit i 1) \<rparr>, Some ClearPending)"
| "ack_step Thread i ClearPending p = (p\<lparr> PendingCommands := (PendingCommands p)[i := 0] \<rparr>, None)"

definition chunk_bytes :: "u64 \<Rightarrow> u64" where
  "chunk_bytes Remaining = (if Remaining > MAX_PRDT_BYTE_COUNT then MAX_PRDT_BYTE_COUNT else Remaining)"

definition chunk_rest :: "u64 \<Rightarrow> u64" where
  "chunk_rest Remaining = (if Remaining > MAX_PRDT_BYTE_COUNT then Remaining - MAX_PRDT_BYTE_COUNT else 0)"

definition read_command :: "u64 \<Rightarrow> u64 \<Rightarrow> u64 \<Rightarrow> AHCI_COMMAND \<Rightarrow> AHCI_COMMAND" where
  "read_command Address Buffer ReadBytes c =
     c\<lparr> CommandFisLength := drop_bit 2 sizeof_ATA_FIS_H2D, PrdtByteCount := ucast (drop_bit 9 ReadBytes), PrdtLength := 1,
        CommandFis := (CommandFis c)\<lparr> FisType := FIS_TYPE_H2D, CommandControl := True, fis_Command := ATA_READ_DMA,
          fis_Count := ucast (drop_bit 9 ReadBytes), fis_Device := AHCI_DEVICE_LBA, Lba0 := ucast Address,
          Lba1 := ucast (drop_bit 16 Address), Lba2 := ucast (drop_bit 24 Address), Lba3 := ucast (drop_bit 40 Address) \<rparr>,
        DataBaseAddress := Buffer, DataByteCount := take_bit 22 (ucast (ReadBytes - 1)) \<rparr>"

text \<open>
  Where \<open>AhciSataRead\<close> is, with the bytes that remain, the place in the buffer and the slot of the current command.  \<open>Acking\<close> and
  \<open>Waiting\<close> are the two loops over the slots; the second has the flag \<open>ThreadPending\<close>.
\<close>

datatype read_pc = Head u64 u64 | Acking ack_pc nat u64 u64 | Allocate u64 u64 | Announce nat u64 u64 | LoadIssue nat u64 u64
  | StoreIssue u32 nat u64 u64 | Waiting ack_pc nat bool | Returned KERNELSTATUS

text \<open>A write to \<open>CommandIssue\<close> sets the bits that are 1 in the value and leaves the others alone, as the register is specified.\<close>

fun read_step :: "u64 \<Rightarrow> u64 \<Rightarrow> AHCI_DEVICE_PORT \<Rightarrow> read_pc \<Rightarrow> (AHCI_DEVICE_PORT \<times> read_pc) outcome" where
  "read_step Thread Address p (Head Remaining Buffer) =
     Inr (p, if Remaining = 0 then Waiting TestDone 0 False else Acking TestDone 0 Remaining Buffer)"
| "read_step Thread Address p (Acking a i Remaining Buffer) =
     (if a = TestDone \<and> \<not> i < MaxCommandSlots p then Inr (p, Allocate Remaining Buffer)
      else case ack_step Thread i a p of (p', next) \<Rightarrow>
        Inr (p', case next of Some a' \<Rightarrow> Acking a' i Remaining Buffer | None \<Rightarrow> Acking TestDone (i + 1) Remaining Buffer))"
| "read_step Thread Address p (Allocate Remaining Buffer) =
     andThen (AhciAllocateCommand p) (\<lambda>(CommandSlot, p1).
     Inr (p1\<lparr> Commands := (Commands p1)[CommandSlot := read_command Address Buffer (chunk_bytes Remaining) (Commands p1 ! CommandSlot)] \<rparr>,
          Announce CommandSlot (chunk_rest Remaining) (Buffer + chunk_bytes Remaining)))"
| "read_step Thread Address p (Announce CommandSlot Remaining Buffer) =
     Inr (p\<lparr> PendingCommands := (PendingCommands p)[CommandSlot := Thread] \<rparr>, LoadIssue CommandSlot Remaining Buffer)"
| "read_step Thread Address p (LoadIssue CommandSlot Remaining Buffer) =
     Inr (p, StoreIssue (CommandIssue p) CommandSlot Remaining Buffer)"
| "read_step Thread Address p (StoreIssue v CommandSlot Remaining Buffer) =
     Inr (p\<lparr> CommandIssue := CommandIssue p OR (v OR push_bit CommandSlot 1) \<rparr>, Head Remaining Buffer)"
| "read_step Thread Address p (Waiting a i ThreadPending) =
     (if a = TestDone \<and> \<not> i < MaxCommandSlots p
      then Inr (p, if ThreadPending then Waiting TestDone 0 False else Returned KERNEL_SOK)
      else case ack_step Thread i a p of (p', next) \<Rightarrow>
        let pending = ThreadPending \<or> PendingCommands p ! i = Thread
        in Inr (p', case next of Some a' \<Rightarrow> Waiting a' i pending | None \<Rightarrow> Waiting TestDone (i + 1) pending))"
| "read_step Thread Address p (Returned s) = Inr (p, Returned s)"

text \<open>\<open>AhciIssueCommand\<close>, up to the point where it waits, and what it does when the command is done.\<close>

definition issue_begin :: "u64 \<Rightarrow> nat \<Rightarrow> AHCI_DEVICE_PORT \<Rightarrow> AHCI_DEVICE_PORT option" where
  "issue_begin Thread CommandIndex p =
     (if PendingCommands p ! CommandIndex \<noteq> 0 then None
      else Some (p\<lparr> PendingCommands := (PendingCommands p)[CommandIndex := Thread], CommandIssue := CommandIssue p OR push_bit CommandIndex 1 \<rparr>))"

definition issue_end :: "nat \<Rightarrow> AHCI_DEVICE_PORT \<Rightarrow> AHCI_DEVICE_PORT outcome" where
  "issue_end CommandIndex p =
     (if \<not> bit (DoneCommands p) CommandIndex then Inl Hang
      else Inr (p\<lparr> DoneCommands := DoneCommands p AND NOT (push_bit CommandIndex 1), PendingCommands := (PendingCommands p)[CommandIndex := 0] \<rparr>))"

section \<open>Interrupts\<close>

text \<open>The loop over the commands of a port; the threads it wakes are the second result.\<close>

fun complete_commands :: "u32 \<Rightarrow> nat list \<Rightarrow> AHCI_DEVICE_PORT \<Rightarrow> AHCI_DEVICE_PORT \<times> u64 list" where
  "complete_commands CmdIssue [] p = (p, [])"
| "complete_commands CmdIssue (c # cs) p =
     (if PendingCommands p ! c \<noteq> 0 \<and> CmdIssue AND 1 = 0 then
        (case complete_commands (drop_bit 1 CmdIssue) cs
                (p\<lparr> DoneCommands := DoneCommands p OR push_bit c 1, UsedCommandSlots := UsedCommandSlots p AND NOT (push_bit c 1) \<rparr>) of
           (p', woken) \<Rightarrow> (p', PendingCommands p ! c # woken))
      else complete_commands (drop_bit 1 CmdIssue) cs p)"

text \<open>The part of \<open>AhciInterruptHandler\<close> for a port that received a register or PIO frame.\<close>

definition port_interrupt :: "AHCI_DEVICE_PORT \<Rightarrow> AHCI_DEVICE_PORT \<times> u64 list" where
  "port_interrupt p = complete_commands (CommandIssue p) [0..<MaxCommandSlots p] (p\<lparr> FirstD2h := True \<rparr>)"

section \<open>Name of the drive\<close>

fun model_loop :: "u8 list \<Rightarrow> nat list \<Rightarrow> bool \<Rightarrow> nat \<Rightarrow> nat \<Rightarrow> u16 list \<Rightarrow> nat \<times> u16 list" where
  "model_loop ModelNumber [] Second LastIndex LastCharIndex DriveName = (LastCharIndex, DriveName)"
| "model_loop ModelNumber (i # is) Second LastIndex LastCharIndex DriveName =
     (let index = (if Second then LastIndex else i + 1); LastIndex' = (if Second then LastIndex else i)
      in model_loop ModelNumber is (\<not> Second) LastIndex' (if ModelNumber ! index > 0x20 then i else LastCharIndex)
           (DriveName[i := ucast (ModelNumber ! index)]))"

definition AhciParseModelNumber :: "u8 list \<Rightarrow> u16 list \<Rightarrow> u16 list" where
  "AhciParseModelNumber ModelNumber DriveName =
     (case model_loop ModelNumber [0..<40] False 0 0 DriveName of (LastCharIndex, name) \<Rightarrow> name[LastCharIndex + 1 := 0])"

section \<open>The driver, the controller and interrupts\<close>

datatype ahci_event = Reader | Completes nat | Interrupt

type_synonym ahci_state = "AHCI_DEVICE_PORT \<times> read_pc"

inductive ahci_step :: "u64 \<Rightarrow> u64 \<Rightarrow> ahci_state \<Rightarrow> ahci_event \<Rightarrow> ahci_state \<Rightarrow> bool" for Thread Address where
  step_reader: "read_step Thread Address p pc = Inr (p', pc') \<Longrightarrow> ahci_step Thread Address (p, pc) Reader (p', pc')"
| step_completes: "bit (CommandIssue p) c \<Longrightarrow>
     ahci_step Thread Address (p, pc) (Completes c) (p\<lparr> CommandIssue := unset_bit c (CommandIssue p) \<rparr>, pc)"
| step_interrupt: "ahci_step Thread Address (p, pc) Interrupt (fst (port_interrupt p), pc)"

inductive_cases ahci_stepE: "ahci_step Thread Address s e s'"

text \<open>
  Where interrupts are harmless: at the head of the loop that issues commands, while the thread waits and is not releasing a slot, and
  after the return.
\<close>

fun between_commands :: "read_pc \<Rightarrow> bool" where
  "between_commands (Head Remaining Buffer) = True"
| "between_commands (Waiting a i ThreadPending) = (a = TestDone)"
| "between_commands (Returned s) = True"
| "between_commands pc = False"

definition quiet :: "ahci_state \<Rightarrow> ahci_event \<Rightarrow> bool" where
  "quiet s e \<longleftrightarrow> (e = Interrupt \<longrightarrow> between_commands (snd s))"

inductive ahci_reach :: "u64 \<Rightarrow> u64 \<Rightarrow> (ahci_state \<Rightarrow> ahci_event \<Rightarrow> bool) \<Rightarrow> ahci_state \<Rightarrow> ahci_state \<Rightarrow> bool"
  for Thread Address allowed s0 where
  reach_start: "ahci_reach Thread Address allowed s0 s0"
| reach_step: "ahci_reach Thread Address allowed s0 s \<Longrightarrow> allowed s e \<Longrightarrow> ahci_step Thread Address s e s' \<Longrightarrow>
     ahci_reach Thread Address allowed s0 s'"

section \<open>What the loops do\<close>

lemma low_bit: "(w AND 1 = (0 :: u32)) \<longleftrightarrow> \<not> bit w 0"
  by (simp add: and_one_eq bit_0 mod_2_eq_odd)

lemma bit_slot: "bit (2 ^ i :: u32) c \<longleftrightarrow> c = i \<and> i < 32"
  by (auto simp: bit_exp_iff)

lemma bit_clear_slot: "bit (w AND NOT (2 ^ i) :: u32) c \<longleftrightarrow> bit w c \<and> c \<noteq> i"
  using bit_imp_le_length [of w c] by (auto simp: bit_and_iff bit_not_iff bit_slot)

lemma SyncBitTestAndSet_succeeds: "fst (SyncBitTestAndSet w i) \<noteq> 0"
  by (simp add: SyncBitTestAndSet_def Let_def)

lemma SyncBitTestAndSet_low: "i < 8 \<Longrightarrow> snd (SyncBitTestAndSet w i) = set_bit i w"
proof -
  assume "i < 8"
  then have "i = 0 \<or> i = 1 \<or> i = 2 \<or> i = 3 \<or> i = 4 \<or> i = 5 \<or> i = 6 \<or> i = 7" by arith
  then show ?thesis by (elim disjE) (simp_all add: SyncBitTestAndSet_def)
qed

lemma alloc_scan_free:
  "alloc_scan (drop_bit k m) used [k..<n] = Some (i, used') \<Longrightarrow>
   k \<le> i \<and> i < n \<and> \<not> bit m i \<and> \<not> bit used i \<and> used' = snd (SyncBitTestAndSet used i)"
proof (induction "n - k" arbitrary: k)
  case 0
  then show ?case by simp
next
  case (Suc d)
  then have k: "k < n" by simp
  then have u: "[k..<n] = k # [Suc k..<n]" by (rule upt_conv_Cons)
  have b: "(drop_bit k m AND 1 = 0) \<longleftrightarrow> \<not> bit m k" by (simp only: low_bit bit_drop_bit_eq) simp
  show ?case
  proof (cases "\<not> bit m k \<and> \<not> bit used k")
    case True
    then show ?thesis using Suc.prems SyncBitTestAndSet_succeeds [of used k] k unfolding u by (auto simp: b split: prod.splits)
  next
    case False
    have "alloc_scan (drop_bit (Suc k) m) used [Suc k..<n] = Some (i, used')"
      using Suc.prems False unfolding u by (auto simp: b)
    then show ?thesis using Suc.hyps(1) [of "Suc k"] Suc.hyps(2) by force
  qed
qed

lemma complete_commands_fields [simp]:
  "CommandIssue (fst (complete_commands ci cs p)) = CommandIssue p" "MaxCommandSlots (fst (complete_commands ci cs p)) = MaxCommandSlots p"
  "PendingCommands (fst (complete_commands ci cs p)) = PendingCommands p"
  by (induction ci cs p rule: complete_commands.induct) (simp_all add: split_beta)

lemma complete_commands_bits:
  assumes "n \<le> 32"
  shows "(bit (DoneCommands (fst (complete_commands (drop_bit k ci) [k..<n] p))) c \<longleftrightarrow>
     bit (DoneCommands p) c \<or> (k \<le> c \<and> c < n \<and> PendingCommands p ! c \<noteq> 0 \<and> \<not> bit ci c)) \<and>
    (bit (UsedCommandSlots (fst (complete_commands (drop_bit k ci) [k..<n] p))) c \<longleftrightarrow>
     bit (UsedCommandSlots p) c \<and> \<not> (k \<le> c \<and> c < n \<and> PendingCommands p ! c \<noteq> 0 \<and> \<not> bit ci c))"
proof (induction "n - k" arbitrary: k p)
  case 0
  then show ?case by auto
next
  case (Suc d)
  then have k: "k < n" by simp
  then have u: "[k..<n] = k # [Suc k..<n]" by (rule upt_conv_Cons)
  have b: "(drop_bit k ci AND 1 = 0) \<longleftrightarrow> \<not> bit ci k" by (simp only: low_bit bit_drop_bit_eq) simp
  note IH = Suc.hyps(1) [of "Suc k"]
  show ?case
  proof (cases "PendingCommands p ! k \<noteq> 0 \<and> \<not> bit ci k")
    case True
    let ?p = "p\<lparr> DoneCommands := DoneCommands p OR push_bit k 1, UsedCommandSlots := UsedCommandSlots p AND NOT (push_bit k 1) \<rparr>"
    have "fst (complete_commands (drop_bit k ci) [k..<n] p) = fst (complete_commands (drop_bit (Suc k) ci) [Suc k..<n] ?p)"
      using True unfolding u by (simp add: b split: prod.splits)
    then show ?thesis using IH [of ?p] Suc.hyps(2) True k assms
      by (auto simp: bit_or_iff bit_slot bit_clear_slot not_less_eq_eq le_Suc_eq le_eq_less_or_eq)
  next
    case False
    have "fst (complete_commands (drop_bit k ci) [k..<n] p) = fst (complete_commands (drop_bit (Suc k) ci) [Suc k..<n] p)"
      using False unfolding u by (auto simp: b)
    then show ?thesis using IH [of p] Suc.hyps(2) False k by (auto simp: le_eq_less_or_eq)
  qed
qed

section \<open>A read waits for its commands\<close>

definition slots_ok :: "u64 \<Rightarrow> AHCI_DEVICE_PORT \<Rightarrow> bool" where
  "slots_ok t p \<longleftrightarrow> length (PendingCommands p) = 32 \<and> MaxCommandSlots p \<le> 32 \<and>
     (\<forall>c < 32. PendingCommands p ! c = 0 \<or> c < MaxCommandSlots p \<and> PendingCommands p ! c = t) \<and>
     (\<forall>c. bit (CommandIssue p) c \<longrightarrow> c < MaxCommandSlots p \<and> PendingCommands p ! c = t) \<and>
     (\<forall>c. bit (DoneCommands p) c \<longrightarrow> c < MaxCommandSlots p \<and> PendingCommands p ! c = t \<and> \<not> bit (CommandIssue p) c)"

text \<open>The slots marked as used are those of the commands in flight and, with the allocation done, those in \<open>E\<close>.\<close>

definition used_ok :: "u64 \<Rightarrow> nat set \<Rightarrow> AHCI_DEVICE_PORT \<Rightarrow> bool" where
  "used_ok t E p \<longleftrightarrow> (MaxCommandSlots p \<le> 8 \<longrightarrow>
     (\<forall>c. bit (UsedCommandSlots p) c \<longrightarrow> c \<in> E \<or> c < MaxCommandSlots p \<and> PendingCommands p ! c = t \<and> \<not> bit (DoneCommands p) c))"

fun ack_ok :: "u64 \<Rightarrow> AHCI_DEVICE_PORT \<Rightarrow> nat \<Rightarrow> ack_pc \<Rightarrow> bool" where
  "ack_ok t p i TestDone \<longleftrightarrow> True"
| "ack_ok t p i LoadDone \<longleftrightarrow> bit (DoneCommands p) i"
| "ack_ok t p i (StoreDone v) \<longleftrightarrow> bit (DoneCommands p) i \<and> v = DoneCommands p"
| "ack_ok t p i ClearPending \<longleftrightarrow> i < MaxCommandSlots p \<and> \<not> bit (DoneCommands p) i \<and> \<not> bit (CommandIssue p) i \<and>
     (MaxCommandSlots p \<le> 8 \<longrightarrow> \<not> bit (UsedCommandSlots p) i)"

fun pc_ok :: "u64 \<Rightarrow> AHCI_DEVICE_PORT \<Rightarrow> read_pc \<Rightarrow> bool" where
  "pc_ok t p (Acking a i Remaining Buffer) \<longleftrightarrow> ack_ok t p i a \<and> (\<forall>c < i. \<not> bit (DoneCommands p) c)"
| "pc_ok t p (Allocate Remaining Buffer) \<longleftrightarrow> DoneCommands p = 0"
| "pc_ok t p (Announce slot Remaining Buffer) \<longleftrightarrow> DoneCommands p = 0 \<and> slot < MaxCommandSlots p"
| "pc_ok t p (LoadIssue slot Remaining Buffer) \<longleftrightarrow> DoneCommands p = 0 \<and> slot < MaxCommandSlots p \<and> PendingCommands p ! slot = t"
| "pc_ok t p (StoreIssue v slot Remaining Buffer) \<longleftrightarrow> DoneCommands p = 0 \<and> slot < MaxCommandSlots p \<and> PendingCommands p ! slot = t \<and>
     (\<forall>c. bit v c \<longrightarrow> c < MaxCommandSlots p \<and> PendingCommands p ! c = t)"
| "pc_ok t p (Waiting a i pending) \<longleftrightarrow> ack_ok t p i a \<and> (a \<noteq> TestDone \<longrightarrow> pending) \<and>
     (\<not> pending \<longrightarrow> (\<forall>c < i. PendingCommands p ! c \<noteq> t))"
| "pc_ok t p (Returned s) \<longleftrightarrow> s = KERNEL_SOK \<and> (\<forall>c < MaxCommandSlots p. PendingCommands p ! c \<noteq> t)"
| "pc_ok t p (Head Remaining Buffer) \<longleftrightarrow> True"

fun reserved :: "read_pc \<Rightarrow> nat set" where
  "reserved (Announce slot Remaining Buffer) = {slot}"
| "reserved pc = {}"

definition read_ok :: "u64 \<Rightarrow> AHCI_DEVICE_PORT \<Rightarrow> read_pc \<Rightarrow> bool" where
  "read_ok t p pc \<longleftrightarrow> slots_ok t p \<and> used_ok t (reserved pc) p \<and> pc_ok t p pc"

lemma zero_no_bits: "(w = 0) \<longleftrightarrow> (\<forall>c. \<not> bit (w :: u32) c)"
  by (auto intro: bit_eqI)

lemma slots_okI:
  assumes "length (PendingCommands p) = 32" and "MaxCommandSlots p \<le> 32"
    and "\<And>c. c < 32 \<Longrightarrow> PendingCommands p ! c \<noteq> 0 \<Longrightarrow> c < MaxCommandSlots p \<and> PendingCommands p ! c = t"
    and "\<And>c. bit (CommandIssue p) c \<Longrightarrow> c < MaxCommandSlots p \<and> PendingCommands p ! c = t"
    and "\<And>c. bit (DoneCommands p) c \<Longrightarrow> c < MaxCommandSlots p \<and> PendingCommands p ! c = t \<and> \<not> bit (CommandIssue p) c"
  shows "slots_ok t p"
  using assms unfolding slots_ok_def by blast

lemma slots_okD:
  assumes "slots_ok t p"
  shows "length (PendingCommands p) = 32" and "MaxCommandSlots p \<le> 32"
    and "c < 32 \<Longrightarrow> PendingCommands p ! c \<noteq> 0 \<Longrightarrow> c < MaxCommandSlots p \<and> PendingCommands p ! c = t"
    and "bit (CommandIssue p) c \<Longrightarrow> c < MaxCommandSlots p \<and> PendingCommands p ! c = t"
    and "bit (DoneCommands p) c \<Longrightarrow> c < MaxCommandSlots p \<and> PendingCommands p ! c = t \<and> \<not> bit (CommandIssue p) c"
  using assms unfolding slots_ok_def by blast+

lemma ack_step_ok:
  assumes "slots_ok t p" and "used_ok t {} p" and "ack_ok t p i a" and "ack_step t i a p = (p', nxt)"
  shows "slots_ok t p' \<and> used_ok t {} p' \<and> (case nxt of Some a' \<Rightarrow> ack_ok t p' i a' | None \<Rightarrow> \<not> bit (DoneCommands p') i)"
    and "MaxCommandSlots p' = MaxCommandSlots p" and "bit (DoneCommands p') c \<Longrightarrow> bit (DoneCommands p) c"
    and "nxt \<noteq> Some TestDone" and "nxt \<noteq> None \<Longrightarrow> a = TestDone \<Longrightarrow> PendingCommands p ! i = t" and "a = TestDone \<Longrightarrow> p' = p"
proof -
  note D = slots_okD [OF assms(1)]
  show "MaxCommandSlots p' = MaxCommandSlots p" "bit (DoneCommands p') c \<Longrightarrow> bit (DoneCommands p) c" "nxt \<noteq> Some TestDone"
    "nxt \<noteq> None \<Longrightarrow> a = TestDone \<Longrightarrow> PendingCommands p ! i = t" "a = TestDone \<Longrightarrow> p' = p"
    using assms(3,4) by (cases a; auto simp: bit_clear_slot split: if_splits) +
  show "slots_ok t p' \<and> used_ok t {} p' \<and> (case nxt of Some a' \<Rightarrow> ack_ok t p' i a' | None \<Rightarrow> \<not> bit (DoneCommands p') i)"
  proof (cases a)
    case TestDone
    then show ?thesis using assms D(5) [of i] by (auto split: if_splits)
  next
    case LoadDone
    then show ?thesis using assms by auto
  next
    case (StoreDone v)
    then have v: "bit (DoneCommands p) i" "v = DoneCommands p"
      and p': "p' = p\<lparr> DoneCommands := DoneCommands p AND NOT (push_bit i 1) \<rparr>" "nxt = Some ClearPending"
      using assms(3,4) by auto
    have "slots_ok t p'" unfolding p' by (rule slots_okI) (use D in \<open>auto simp: bit_clear_slot\<close>)
    moreover have "used_ok t {} p'" using assms(2) by (auto simp: used_ok_def p' bit_clear_slot)
    moreover have "ack_ok t p' i ClearPending"
      using D(5) [OF v(1)] v(1) assms(2) by (auto simp: p' bit_clear_slot used_ok_def)
    ultimately show ?thesis by (simp add: p')
  next
    case ClearPending
    then have c: "i < MaxCommandSlots p" "\<not> bit (DoneCommands p) i" "\<not> bit (CommandIssue p) i" "MaxCommandSlots p \<le> 8 \<longrightarrow> \<not> bit (UsedCommandSlots p) i"
      and p': "p' = p\<lparr> PendingCommands := (PendingCommands p)[i := 0] \<rparr>" "nxt = None"
      using assms(3,4) by auto
    have "slots_ok t p'" unfolding p' by (rule slots_okI) (use D c in \<open>auto simp: nth_list_update split: if_splits\<close>)
    moreover have "used_ok t {} p'" using assms(2) c D(1) by (auto simp: used_ok_def p' nth_list_update)
    ultimately show ?thesis using c by (simp add: p')
  qed
qed

lemma acking_ok:
  assumes "read_ok t p (Acking a i r b)" and "read_step t A p (Acking a i r b) = Inr (p', pc')"
  shows "read_ok t p' pc'"
proof (cases "a = TestDone \<and> \<not> i < MaxCommandSlots p")
  case True
  have ok: "slots_ok t p" "\<forall>c < i. \<not> bit (DoneCommands p) c" using assms(1) by (simp_all add: read_ok_def)
  have "\<not> bit (DoneCommands p) c" for c using slots_okD(5) [OF ok(1), of c] ok(2) True by (cases "c < i") auto
  then show ?thesis using True assms by (auto simp: read_ok_def zero_no_bits)
next
  case False
  obtain p1 nxt where a: "ack_step t i a p = (p1, nxt)" by fastforce
  have ok: "slots_ok t p" "used_ok t {} p" "ack_ok t p i a" "\<forall>c < i. \<not> bit (DoneCommands p) c" using assms(1) by (simp_all add: read_ok_def)
  note s = ack_step_ok [OF ok(1-3) a]
  have "\<forall>c < i. \<not> bit (DoneCommands p1) c" using s(3) ok(4) by blast
  then show ?thesis using False assms(2) a s(1)
    by (cases nxt) (auto simp: read_ok_def less_Suc_eq)
qed

lemma waiting_ok:
  assumes "read_ok t p (Waiting a i w)" and "read_step t A p (Waiting a i w) = Inr (p', pc')"
  shows "read_ok t p' pc'"
proof (cases "a = TestDone \<and> \<not> i < MaxCommandSlots p")
  case True
  then show ?thesis using assms by (auto simp: read_ok_def split: if_splits)
next
  case False
  obtain p1 nxt where a: "ack_step t i a p = (p1, nxt)" by fastforce
  have ok: "slots_ok t p" "used_ok t {} p" "ack_ok t p i a" "a \<noteq> TestDone \<longrightarrow> w" "\<not> w \<longrightarrow> (\<forall>c < i. PendingCommands p ! c \<noteq> t)"
    using assms(1) by (simp_all add: read_ok_def)
  note s = ack_step_ok [OF ok(1-3) a]
  show ?thesis using False assms(2) a s(1,4-6) ok(4,5)
    by (cases nxt) (auto simp: read_ok_def less_Suc_eq Let_def)
qed

lemma read_step_ok:
  assumes "read_ok t p pc" and "read_step t A p pc = Inr (p', pc')"
  shows "read_ok t p' pc'"
proof (cases pc)
  case (Head r b)
  then show ?thesis using assms by (auto simp: read_ok_def split: if_splits)
next
  case (Acking a i r b)
  then show ?thesis using assms acking_ok by blast
next
  case (Allocate r b)
  obtain slot used where s: "alloc_scan (drop_bit 0 (CommandIssue p OR SataActive p)) (UsedCommandSlots p) [0..<MaxCommandSlots p] = Some (slot, used)"
    using assms(2) Allocate by (auto simp: AhciAllocateCommand_def split: option.splits)
  have slot: "slot < MaxCommandSlots p" "used = snd (SyncBitTestAndSet (UsedCommandSlots p) slot)" using alloc_scan_free [OF s] by simp_all
  have "MaxCommandSlots p \<le> 8 \<Longrightarrow> used = set_bit slot (UsedCommandSlots p)" using slot SyncBitTestAndSet_low by simp
  then have "used_ok t {slot} (p\<lparr> UsedCommandSlots := used \<rparr>)"
    using assms(1) Allocate by (auto simp: used_ok_def read_ok_def bit_set_bit_iff)
  then show ?thesis using assms s slot(1) by (auto simp: Allocate AhciAllocateCommand_def slots_ok_def used_ok_def read_ok_def)
next
  case (Announce slot r b)
  note D = slots_okD [of t p]
  have ok: "slots_ok t p" "used_ok t {slot} p" "slot < MaxCommandSlots p" "DoneCommands p = 0" using assms(1) by (simp_all add: read_ok_def Announce)
  have "slots_ok t (p\<lparr> PendingCommands := (PendingCommands p)[slot := t] \<rparr>)"
    by (rule slots_okI) (use slots_okD [OF ok(1)] ok in \<open>auto simp: nth_list_update split: if_splits\<close>)
  moreover have "used_ok t {} (p\<lparr> PendingCommands := (PendingCommands p)[slot := t] \<rparr>)"
    using ok slots_okD(1,2) [OF ok(1)] by (auto simp: used_ok_def nth_list_update)
  ultimately show ?thesis using assms(2) ok slots_okD(1,2) [OF ok(1)] by (auto simp: Announce read_ok_def)
next
  case (LoadIssue slot r b)
  then show ?thesis using assms slots_okD(4) [of t p] by (auto simp: read_ok_def)
next
  case (StoreIssue v slot r b)
  have ok: "slots_ok t p" "used_ok t {} p" "slot < MaxCommandSlots p" "DoneCommands p = 0" "PendingCommands p ! slot = t"
    "\<forall>c. bit v c \<longrightarrow> c < MaxCommandSlots p \<and> PendingCommands p ! c = t" using assms(1) by (simp_all add: read_ok_def StoreIssue)
  have "slots_ok t (p\<lparr> CommandIssue := CommandIssue p OR (v OR push_bit slot 1) \<rparr>)"
    by (rule slots_okI) (use slots_okD [OF ok(1)] ok in \<open>auto simp: bit_or_iff bit_slot\<close>)
  then show ?thesis using assms(2) ok(2) by (auto simp: StoreIssue read_ok_def used_ok_def)
next
  case (Waiting a i w)
  then show ?thesis using assms waiting_ok by blast
next
  case (Returned s)
  then show ?thesis using assms by auto
qed

lemma port_interrupt_ok:
  assumes "read_ok t p pc" and "between_commands pc"
  shows "read_ok t (fst (port_interrupt p)) pc"
proof -
  have ok: "slots_ok t p" "used_ok t {} p" using assms by (cases pc; simp add: read_ok_def)+
  note D = slots_okD [OF ok(1)]
  note bits = complete_commands_bits [OF D(2), of 0 "CommandIssue p" "p\<lparr> FirstD2h := True \<rparr>"]
  have dn: "bit (DoneCommands (fst (port_interrupt p))) c \<longleftrightarrow> bit (DoneCommands p) c \<or>
      (c < MaxCommandSlots p \<and> PendingCommands p ! c \<noteq> 0 \<and> \<not> bit (CommandIssue p) c)"
    and us: "bit (UsedCommandSlots (fst (port_interrupt p))) c \<longleftrightarrow> bit (UsedCommandSlots p) c \<and>
      \<not> (c < MaxCommandSlots p \<and> PendingCommands p ! c \<noteq> 0 \<and> \<not> bit (CommandIssue p) c)" for c
    using bits [of c] by (simp_all add: port_interrupt_def)
  have same: "PendingCommands (fst (port_interrupt p)) = PendingCommands p" "MaxCommandSlots (fst (port_interrupt p)) = MaxCommandSlots p"
    "CommandIssue (fst (port_interrupt p)) = CommandIssue p" by (simp_all add: port_interrupt_def)
  have "slots_ok t (fst (port_interrupt p))"
    by (rule slots_okI) (use D in \<open>auto simp: dn same\<close>)
  moreover have "used_ok t {} (fst (port_interrupt p))" using ok(2) by (auto simp: used_ok_def dn us same)
  moreover have "pc_ok t (fst (port_interrupt p)) pc" "reserved pc = {}" using assms by (cases pc; auto simp: read_ok_def same)+
  ultimately show ?thesis by (simp add: read_ok_def)
qed

lemma completes_ok:
  assumes "read_ok t p pc"
  shows "read_ok t (p\<lparr> CommandIssue := unset_bit c (CommandIssue p) \<rparr>) pc"
proof -
  let ?p = "p\<lparr> CommandIssue := unset_bit c (CommandIssue p) \<rparr>"
  have "slots_ok t ?p" using assms by (auto simp: read_ok_def slots_ok_def bit_unset_bit_iff)
  moreover have "used_ok t (reserved pc) ?p" using assms by (simp add: read_ok_def used_ok_def)
  moreover have "ack_ok t p i a \<Longrightarrow> ack_ok t ?p i a" for i a by (cases a) (simp_all add: bit_unset_bit_iff)
  then have "pc_ok t ?p pc" using assms by (cases pc) (simp_all add: read_ok_def)
  ultimately show ?thesis by (simp add: read_ok_def)
qed

lemma read_step_slots: "read_step t A p pc = Inr (p', pc') \<Longrightarrow> MaxCommandSlots p' = MaxCommandSlots p"
proof -
  have "MaxCommandSlots (fst (ack_step t i a p)) = MaxCommandSlots p" for i a by (cases a) simp_all
  then show "read_step t A p pc = Inr (p', pc') \<Longrightarrow> MaxCommandSlots p' = MaxCommandSlots p"
    by (cases pc) (auto simp: AhciAllocateCommand_def Let_def split_beta split: if_splits option.splits)
qed

lemma ahci_invariant:
  assumes "ahci_reach t A quiet (p0, pc0) s" and "read_ok t p0 pc0"
  shows "read_ok t (fst s) (snd s) \<and> MaxCommandSlots (fst s) = MaxCommandSlots p0"
  using assms(1)
proof (induction rule: ahci_reach.induct)
  case reach_start
  then show ?case using assms(2) by simp
next
  case (reach_step s e s')
  from reach_step.hyps(3) show ?case
  proof (cases rule: ahci_step.cases)
    case (step_reader p pc p' pc')
    then show ?thesis using read_step_ok [of t p pc A p' pc'] read_step_slots [of t A p pc p' pc'] reach_step.IH by simp
  next
    case (step_completes p c pc)
    then show ?thesis using completes_ok [of t p pc c] reach_step.IH by simp
  next
    case (step_interrupt p pc)
    then show ?thesis using port_interrupt_ok [of t p pc] reach_step by (simp add: quiet_def port_interrupt_def)
  qed
qed

text \<open>A port nobody uses.\<close>

definition idle_port :: "AHCI_DEVICE_PORT \<Rightarrow> bool" where
  "idle_port p \<longleftrightarrow> PendingCommands p = replicate 32 0 \<and> DoneCommands p = 0 \<and> UsedCommandSlots p = 0 \<and> CommandIssue p = 0 \<and>
     MaxCommandSlots p \<le> 32"

text \<open>
  C16. A read returns only when it is over.  A thread reads from a port nobody else uses, and the interrupt handler runs on the same processor
  and never between the head of the loop that issues commands and the write to \<open>CommandIssue\<close>, nor while the wait
  loop releases a slot.  In every such interleaving with the controller, \<open>AhciSataRead\<close> returns with success only after the controller has
  completed every command that was issued; no slot is left pending, no completion is left behind and, on a controller with at most 8
  command slots, no slot is left marked as used.  Both conditions are necessary: \<open>read_returns_early\<close>,
  \<open>release_interrupted\<close> and \<open>SyncBitTestAndSet_wrong\<close> show what happens without them.
\<close>

theorem AhciSataRead_complete:
  assumes "idle_port p0" and "ahci_reach Thread Address quiet (p0, Head NumBytes Buffer) (p, Returned s)"
  shows "s = KERNEL_SOK \<and> CommandIssue p = 0 \<and> DoneCommands p = 0 \<and> (\<forall>c < 32. PendingCommands p ! c = 0) \<and>
    (MaxCommandSlots p0 \<le> 8 \<longrightarrow> UsedCommandSlots p = 0)"
proof -
  have "read_ok Thread p0 (Head NumBytes Buffer)" using assms(1) by (simp add: idle_port_def read_ok_def slots_ok_def used_ok_def)
  then have i: "read_ok Thread p (Returned s)" "MaxCommandSlots p = MaxCommandSlots p0" using ahci_invariant [OF assms(2)] by simp_all
  then have ok: "slots_ok Thread p" "used_ok Thread {} p" "s = KERNEL_SOK" "\<forall>c < MaxCommandSlots p. PendingCommands p ! c \<noteq> Thread"
    by (simp_all add: read_ok_def)
  show ?thesis
    using ok slots_okD [OF ok(1)] i(2) unfolding zero_no_bits by (auto simp: used_ok_def)
qed

text \<open>Runs given by their events, so that concrete ones can be evaluated.\<close>

fun ahci_run :: "u64 \<Rightarrow> u64 \<Rightarrow> (ahci_state \<Rightarrow> ahci_event \<Rightarrow> bool) \<Rightarrow> ahci_event list \<Rightarrow> ahci_state \<Rightarrow> ahci_state option" where
  "ahci_run t A allowed [] s = Some s"
| "ahci_run t A allowed (e # es) (p, pc) =
     (if \<not> allowed (p, pc) e then None
      else case e of
        Reader \<Rightarrow> (case read_step t A p pc of Inl _ \<Rightarrow> None | Inr s' \<Rightarrow> ahci_run t A allowed es s')
      | Completes c \<Rightarrow> if bit (CommandIssue p) c
          then ahci_run t A allowed es (p\<lparr> CommandIssue := unset_bit c (CommandIssue p) \<rparr>, pc) else None
      | Interrupt \<Rightarrow> ahci_run t A allowed es (fst (port_interrupt p), pc))"

lemma run_reach:
  "ahci_reach t A allowed s0 s \<Longrightarrow> ahci_run t A allowed es s = Some s' \<Longrightarrow> ahci_reach t A allowed s0 s'"
proof (induction es arbitrary: s)
  case Nil
  then show ?case by simp
next
  case (Cons e es)
  obtain p pc where s: "s = (p, pc)" by (cases s)
  have a: "allowed s e" using Cons.prems(2) by (simp add: s split: if_splits)
  note step = ahci_reach.reach_step [OF Cons.prems(1) a]
  show ?case
  proof (cases e)
    case Reader
    then obtain s1 where "read_step t A p pc = Inr s1" "ahci_run t A allowed es s1 = Some s'"
      using Cons.prems(2) a by (auto simp: s split: sum.splits)
    then show ?thesis using Cons.IH [OF step] step_reader [of t A p pc "fst s1" "snd s1"] by (simp add: s Reader)
  next
    case (Completes c)
    then show ?thesis using Cons.IH [OF step] Cons.prems(2) a step_completes [of p c t A pc] by (simp add: s split: if_splits)
  next
    case Interrupt
    then show ?thesis using Cons.IH [OF step] Cons.prems(2) a step_interrupt [of t A p pc] by (simp add: s)
  qed
qed

definition blank_command :: AHCI_COMMAND where
  "blank_command = \<lparr> CommandFisLength = 0, PrdtLength = 0, PrdtByteCount = 0, CommandFis = \<lparr> FisType = 0, CommandControl = False,
     fis_Command = 0, Lba0 = 0, Lba1 = 0, fis_Device = 0, Lba2 = 0, Lba3 = 0, fis_Count = 0 \<rparr>, DataBaseAddress = 0, DataByteCount = 0 \<rparr>"

definition small_port :: "nat \<Rightarrow> AHCI_DEVICE_PORT" where
  "small_port n = \<lparr> PendingCommands = replicate 32 0, DoneCommands = 0, UsedCommandSlots = 0, FirstD2h = False,
     Commands = replicate 32 blank_command, MaxCommandSlots = n, CommandIssue = 0, SataActive = 0 \<rparr>"

lemmas ahci_eval = small_port_def quiet_def AhciAllocateCommand_def SyncBitTestAndSet_def chunk_bytes_def chunk_rest_def
  MAX_PRDT_BYTE_COUNT_def port_interrupt_def upt_rec_numeral bit_or_iff bit_unset_bit_iff low_bit

text \<open>One command on a port with one slot: issued, completed, released after the interrupt, and the last look at the slot.\<close>

lemma small_read_runs:
  "\<exists>p. ahci_run 1 7 quiet ([Reader, Reader, Reader, Reader, Reader, Reader, Reader, Reader, Completes 0, Interrupt, Reader, Reader, Reader, Reader,
      Reader, Reader, Reader]) (small_port 1, Head 512 0x1000) = Some (p, Returned KERNEL_SOK)"
  by (simp add: ahci_eval)

theorem AhciSataRead_complete_witness:
  "\<exists>p. ahci_reach 1 7 quiet (small_port 1, Head 512 0x1000) (p, Returned KERNEL_SOK) \<and> CommandIssue p = 0 \<and> UsedCommandSlots p = 0"
proof -
  have i: "idle_port (small_port 1)" "MaxCommandSlots (small_port 1) \<le> 8" by (simp_all add: idle_port_def small_port_def)
  obtain p where r: "ahci_reach 1 7 quiet (small_port 1, Head 512 0x1000) (p, Returned KERNEL_SOK)"
    using small_read_runs run_reach [OF reach_start] by blast
  from AhciSataRead_complete [OF i(1) r] r i(2) show ?thesis by blast
qed

text \<open>
  An interrupt that is handled after the thread has entered itself in \<open>PendingCommands\<close> and before it has set the bit in
  \<open>CommandIssue\<close> takes the command for a completed one: the read returns while the controller is still to execute it.
\<close>

lemma read_returns_early:
  "\<exists>p. ahci_reach 1 7 (\<lambda>_ _. True) (small_port 1, Head 512 0x1000) (p, Returned KERNEL_SOK) \<and> bit (CommandIssue p) 0"
proof -
  have "\<exists>p. ahci_run 1 7 (\<lambda>_ _. True) ([Reader, Reader, Reader, Reader, Reader, Interrupt, Reader, Reader, Reader, Reader, Reader, Reader, Reader,
      Reader, Reader, Reader]) (small_port 1, Head 512 0x1000) = Some (p, Returned KERNEL_SOK) \<and> bit (CommandIssue p) 0"
    by (simp add: ahci_eval)
  then show ?thesis using run_reach [OF reach_start] by blast
qed

text \<open>
  An interrupt that is handled while a slot is being released, between the write to \<open>DoneCommands\<close> and the one to
  \<open>PendingCommands\<close>, sets the bit again.  The next command in the slot then counts as completed from the start: the read
  returns while the controller is still to execute it.
\<close>

lemma release_interrupted:
  "\<exists>p. ahci_reach 1 7 (\<lambda>_ _. True) (small_port 1, Head 0x80000 0x1000) (p, Returned KERNEL_SOK) \<and> bit (CommandIssue p) 0"
proof -
  have "\<exists>p. ahci_run 1 7 (\<lambda>_ _. True) ([Reader, Reader, Reader, Reader, Reader, Reader, Reader, Completes 0, Interrupt,
      Reader, Reader, Reader, Reader, Interrupt, Reader, Reader, Reader, Reader, Reader, Reader,
      Reader, Reader, Reader, Reader, Reader, Reader, Reader, Reader]) (small_port 1, Head 0x80000 0x1000) =
      Some (p, Returned KERNEL_SOK) \<and> bit (CommandIssue p) 0"
    by (simp add: ahci_eval)
  then show ?thesis using run_reach [OF reach_start] by blast
qed

section \<open>What a read asks for\<close>

definition fis_lba :: "ATA_FIS_H2D \<Rightarrow> u64" where
  "fis_lba f = ucast (Lba0 f) OR push_bit 16 (ucast (Lba1 f)) OR push_bit 24 (ucast (Lba2 f)) OR push_bit 40 (ucast (Lba3 f))"

lemma read_command_lba: "fis_lba (CommandFis (read_command Address Buffer n c)) = take_bit 48 Address"
proof (rule bit_word_eqI)
  fix i assume "i < LENGTH(64)"
  moreover have "16 + (i - 16) = i" if "16 \<le> i" using that by simp
  moreover have "24 + (i - 24) = i" if "24 \<le> i" using that by simp
  moreover have "40 + (i - 40) = i" if "40 \<le> i" using that by simp
  ultimately show "bit (fis_lba (CommandFis (read_command Address Buffer n c))) i = bit (take_bit 48 Address) i"
    by (cases "16 \<le> i"; cases "24 \<le> i"; cases "40 \<le> i") (auto simp: fis_lba_def read_command_def bit_simps)
qed

text \<open>
  The address on the disk does not move with the place in the buffer: a read of more than \<open>MAX_PRDT_BYTE_COUNT\<close> bytes fills every
  part of the buffer with the same sectors.
\<close>

lemma long_read_repeats:
  "\<exists>p pc. ahci_run 1 7 quiet 
      [Reader, Reader, Reader, Reader, Reader, Reader, Reader, Reader, Reader, Reader, Reader, Reader, Reader, Reader] (small_port 2, Head 0x80000 0x1000) = Some (p, pc) \<and>
     DataBaseAddress (Commands p ! 0) = 0x1000 \<and> DataBaseAddress (Commands p ! 1) = 0x41000 \<and>
     fis_lba (CommandFis (Commands p ! 0)) = 7 \<and> fis_lba (CommandFis (Commands p ! 1)) = 7"
  by (simp add: ahci_eval upt_conv_Cons read_command_lba) (simp add: read_command_def)

text \<open>\<open>__SyncBitTestAndSet\<close> reports success whether or not the bit was set, and sets the bit of another slot from slot 8 on.\<close>

lemma SyncBitTestAndSet_wrong: "fst (SyncBitTestAndSet w i) \<noteq> 0" "SyncBitTestAndSet 0 8 = (0xFFFFFFFF, 1)"
  by (simp_all add: SyncBitTestAndSet_succeeds) (simp add: SyncBitTestAndSet_def set_bit_eq_or)

section \<open>The model number\<close>

definition other_of_pair :: "nat \<Rightarrow> nat" where
  "other_of_pair i = (if even i then i + 1 else i - 1)"

lemma model_loop_swaps:
  assumes "k \<le> n" and "n \<le> length name" and "odd k \<Longrightarrow> li = k - 1"
  shows "\<exists>lc' name'. model_loop mn [k..<n] (odd k) li lc name = (lc', name') \<and> length name' = length name \<and>
     (lc' = lc \<or> k \<le> lc' \<and> lc' < n) \<and>
     (\<forall>i < length name. name' ! i = (if k \<le> i \<and> i < n then ucast (mn ! other_of_pair i) else name ! i)) \<and>
     (\<forall>i. lc' < i \<and> k \<le> i \<and> i < n \<longrightarrow> \<not> mn ! other_of_pair i > 0x20)"
  using assms
proof (induction "n - k" arbitrary: k li lc name)
  case 0
  then show ?case by auto
next
  case (Suc d)
  then have k: "k < n" by simp
  then have u: "[k..<n] = k # [Suc k..<n]" by (rule upt_conv_Cons)
  let ?o = "other_of_pair k" and ?lc = "if mn ! other_of_pair k > 0x20 then k else lc" and ?name = "name[k := ucast (mn ! other_of_pair k)]"
  have o: "(if odd k then li else k + 1) = ?o" using Suc.prems(3) by (auto simp: other_of_pair_def)
  have d: "d = n - Suc k" using Suc.hyps(2) by simp
  have "\<exists>lc' name'. model_loop mn [Suc k..<n] (odd (Suc k)) (if odd k then li else k) ?lc ?name = (lc', name') \<and> length name' = length ?name \<and>
     (lc' = ?lc \<or> Suc k \<le> lc' \<and> lc' < n) \<and>
     (\<forall>i < length ?name. name' ! i = (if Suc k \<le> i \<and> i < n then ucast (mn ! other_of_pair i) else ?name ! i)) \<and>
     (\<forall>i. lc' < i \<and> Suc k \<le> i \<and> i < n \<longrightarrow> \<not> mn ! other_of_pair i > 0x20)"
    by (rule Suc.hyps(1) [OF d]) (use Suc.prems k in auto)
  then obtain lc' name' where r: "model_loop mn [Suc k..<n] (odd (Suc k)) (if odd k then li else k) ?lc ?name = (lc', name')"
    "length name' = length name" "lc' = ?lc \<or> Suc k \<le> lc' \<and> lc' < n"
    "\<forall>i < length name. name' ! i = (if Suc k \<le> i \<and> i < n then ucast (mn ! other_of_pair i) else ?name ! i)"
    "\<forall>i. lc' < i \<and> Suc k \<le> i \<and> i < n \<longrightarrow> \<not> mn ! other_of_pair i > 0x20"
    unfolding length_list_update by blast
  have "model_loop mn [k..<n] (odd k) li lc name = (lc', name')"
    using r(1) unfolding u by (simp add: Let_def o)
  moreover have "name' ! i = (if k \<le> i \<and> i < n then ucast (mn ! other_of_pair i) else name ! i)" if "i < length name" for i
    using r(4) that k Suc.prems(2) by (cases "i = k") auto
  moreover have "\<not> mn ! other_of_pair i > 0x20" if "lc' < i \<and> k \<le> i \<and> i < n" for i
    using r(3,5) that by (cases "i = k") (auto split: if_splits)
  ultimately show ?case using r(2,3) k by (auto split: if_splits)
qed

text \<open>
  Remark. The model number.  The bytes of a drive's model number are swapped in pairs; the parsed name has them in order, up to the
  last one that is not blank, and ends there.
\<close>

theorem AhciParseModelNumber_swaps:
  assumes "length DriveName = 0x100"
  shows "\<exists>n < 40. (\<forall>i \<le> n. AhciParseModelNumber ModelNumber DriveName ! i = ucast (ModelNumber ! other_of_pair i)) \<and>
     AhciParseModelNumber ModelNumber DriveName ! (n + 1) = 0 \<and> (\<forall>i. n < i \<and> i < 40 \<longrightarrow> \<not> ModelNumber ! other_of_pair i > 0x20)"
proof -
  obtain lc name where r: "model_loop ModelNumber [0..<40] False 0 0 DriveName = (lc, name)" "length name = 0x100" "lc = 0 \<or> lc < 40"
    "\<forall>i < 0x100. name ! i = (if i < 40 then ucast (ModelNumber ! other_of_pair i) else DriveName ! i)"
    "\<forall>i. lc < i \<and> i < 40 \<longrightarrow> \<not> ModelNumber ! other_of_pair i > 0x20"
    using model_loop_swaps [of 0 40 DriveName 0 ModelNumber 0] assms by (auto simp del: upt_rec_numeral)
  have e: "AhciParseModelNumber ModelNumber DriveName = name[lc + 1 := 0]" using r(1) by (simp add: AhciParseModelNumber_def)
  have lc: "lc < 40" using r(3) by auto
  show ?thesis
  proof (intro exI [of _ lc] conjI allI impI)
    show "AhciParseModelNumber ModelNumber DriveName ! i = ucast (ModelNumber ! other_of_pair i)" if "i \<le> lc" for i
      using r(4) that lc by (simp add: e)
    show "AhciParseModelNumber ModelNumber DriveName ! (lc + 1) = 0" using r(2) lc by (simp add: e)
  qed (use lc r(5) in auto)
qed

theorem AhciParseModelNumber_swaps_witness:
  "\<exists>n < 40. AhciParseModelNumber (replicate 40 0x41) (replicate 0x100 0) ! 0 = 0x41 \<and>
     AhciParseModelNumber (replicate 40 0x41) (replicate 0x100 0) ! (n + 1) = 0"
proof -
  have "length (replicate 0x100 (0 :: u16)) = 0x100" by simp
  from AhciParseModelNumber_swaps [OF this, of "replicate 40 0x41"] obtain n where
    n: "n < 40" "\<forall>i \<le> n. AhciParseModelNumber (replicate 40 0x41) (replicate 0x100 0) ! i = ucast ((replicate 40 0x41 :: u8 list) ! other_of_pair i)"
    "AhciParseModelNumber (replicate 40 0x41) (replicate 0x100 0) ! (n + 1) = 0" by blast
  have "AhciParseModelNumber (replicate 40 0x41) (replicate 0x100 0) ! 0 = 0x41"
    using n(2) by (simp add: other_of_pair_def)
  then show ?thesis using n(1,3) by blast
qed

end
