(* ===== verification/Smbios.thy ===== *)
theory Smbios
  imports Byte_Memory Paging
begin

text \<open>
  The tables of the system management BIOS (\<open>smbios/smbios.c\<close>): firmware data in memory, structures one after the other, each with
  a formatted part, its strings and two zero bytes.  A structure is known by its address, 0 being null.  Searches for zero bytes
  have the argument \<open>limit\<close> as fuel, any number of bytes the table does not reach.
\<close>

definition SMBIOS_BIOS_INFORMATION :: u8 where "SMBIOS_BIOS_INFORMATION = 0"
definition SMBIOS_SYSTEM_INFORMATION :: u8 where "SMBIOS_SYSTEM_INFORMATION = 1"
definition SMBIOS_BASE_BOARD_INFORMATION :: u8 where "SMBIOS_BASE_BOARD_INFORMATION = 2"
definition SMBIOS_ENDOF_TABLE :: u8 where "SMBIOS_ENDOF_TABLE = 0x7F"

definition smb_Type :: "bytes_mem \<Rightarrow> u64 \<Rightarrow> u8" where "smb_Type m h = m h"
definition smb_Length :: "bytes_mem \<Rightarrow> u64 \<Rightarrow> u8" where "smb_Length m h = m (h + 1)"
definition EntryPointLength :: "bytes_mem \<Rightarrow> u64 \<Rightarrow> u8" where "EntryPointLength m t = m (t + 5)"
definition MajorVersion :: "bytes_mem \<Rightarrow> u64 \<Rightarrow> u8" where "MajorVersion m t = m (t + 6)"
definition MinorVersion :: "bytes_mem \<Rightarrow> u64 \<Rightarrow> u8" where "MinorVersion m t = m (t + 7)"
definition StructureTableLength :: "bytes_mem \<Rightarrow> u64 \<Rightarrow> u16" where "StructureTableLength m t = rd16 m (t + 22)"
definition StructureTableAddress :: "bytes_mem \<Rightarrow> u64 \<Rightarrow> u32" where "StructureTableAddress m t = rd32 m (t + 24)"
definition NumSmbiosStructures :: "bytes_mem \<Rightarrow> u64 \<Rightarrow> u16" where "NumSmbiosStructures m t = rd16 m (t + 28)"
definition sizeof_SMBIOS_ENTRY_POINT :: u8 where "sizeof_SMBIOS_ENTRY_POINT = 31"

section \<open>Structures and strings\<close>

fun double_zero :: "nat \<Rightarrow> bytes_mem \<Rightarrow> u64 \<Rightarrow> u32 \<Rightarrow> u32 outcome" where
  "double_zero 0 m Strings Length = Inl Hang"
| "double_zero (Suc n) m Strings Length =
     (if m Strings = 0 \<and> m (Strings + 1) = 0 then Inr (Length + 2) else double_zero n m (Strings + 1) (Length + 1))"

definition SmbiosGetStructureLength :: "nat \<Rightarrow> bytes_mem \<Rightarrow> u64 \<Rightarrow> u32 outcome" where
  "SmbiosGetStructureLength limit m Header =
     double_zero limit m (Header + ucast (smb_Length m Header)) (ucast (smb_Length m Header))"

fun string_end :: "nat \<Rightarrow> bytes_mem \<Rightarrow> u64 \<Rightarrow> u64 outcome" where
  "string_end 0 m a = Inl Hang"
| "string_end (Suc n) m a = (if m a = 0 then Inr a else string_end n m (a + 1))"

text \<open>The counter is a signed byte, compared with an unsigned one after promotion.\<close>

fun nth_string :: "nat \<Rightarrow> nat \<Rightarrow> bytes_mem \<Rightarrow> u8 \<Rightarrow> u8 \<Rightarrow> u64 \<Rightarrow> u64 outcome" where
  "nth_string 0 limit m StringOffset i a = Inl Hang"
| "nth_string (Suc n) limit m StringOffset i a =
     (if sint i < uint StringOffset then
        andThen (string_end limit m a) (\<lambda>e.
        if m (e + 1) = 0 then Inr (e + 1) else nth_string n limit m StringOffset (i + 1) (e + 1))
      else Inr a)"

definition SmbiosGetString :: "nat \<Rightarrow> bytes_mem \<Rightarrow> u64 \<Rightarrow> u8 \<Rightarrow> u64 outcome" where
  "SmbiosGetString limit m Header StringOffset =
     (if StringOffset = 0 then Inr 0
      else nth_string (limit + 1) limit m (StringOffset - 1) 0 (Header + ucast (smb_Length m Header)))"

section \<open>The table\<close>

definition SmbiosGetMajorVersion :: "bytes_mem \<Rightarrow> u64 \<Rightarrow> u8" where
  "SmbiosGetMajorVersion m SmbiosTable = (if SmbiosTable = 0 then 0 else MajorVersion m SmbiosTable)"

definition SmbiosGetMinorVersion :: "bytes_mem \<Rightarrow> u64 \<Rightarrow> u8" where
  "SmbiosGetMinorVersion m SmbiosTable = (if SmbiosTable = 0 then 0 else MinorVersion m SmbiosTable)"

definition SmbiosGetStructuresCount :: "bytes_mem \<Rightarrow> u64 \<Rightarrow> u16" where
  "SmbiosGetStructuresCount m SmbiosTable = (if SmbiosTable = 0 then 0 else NumSmbiosStructures m SmbiosTable)"

fun next_structures :: "nat \<Rightarrow> bytes_mem \<Rightarrow> nat \<Rightarrow> u64 \<Rightarrow> u64 \<Rightarrow> u64 outcome" where
  "next_structures limit m 0 Header Offset = Inr Header"
| "next_structures limit m (Suc n) Header Offset =
     (if smb_Type m Offset = SMBIOS_ENDOF_TABLE then Inr Offset
      else andThen (SmbiosGetStructureLength limit m Offset) (\<lambda>len. next_structures limit m n Offset (Offset + ucast len)))"

definition SmbiosGetStructure :: "nat \<Rightarrow> bytes_mem \<Rightarrow> u64 \<Rightarrow> u16 \<Rightarrow> u64 outcome" where
  "SmbiosGetStructure limit m SmbiosTable StructureIndex =
     (if SmbiosTable = 0 \<or> StructureIndex \<ge> NumSmbiosStructures m SmbiosTable then Inr 0
      else let Header = ucast (StructureTableAddress m SmbiosTable)
           in andThen (SmbiosGetStructureLength limit m Header) (\<lambda>len.
              next_structures limit m (unat StructureIndex) Header (Header + ucast len)))"

text \<open>The loop that \<open>GetBiosInformation\<close>, \<open>GetSystemInformation\<close> and \<open>GetBaseBoardInformation\<close> have in common.\<close>

fun find_structure :: "nat \<Rightarrow> bytes_mem \<Rightarrow> u64 \<Rightarrow> u8 \<Rightarrow> nat list \<Rightarrow> u64 outcome" where
  "find_structure limit m SmbiosTable type [] = Inr 0"
| "find_structure limit m SmbiosTable type (i # is) =
     andThen (SmbiosGetStructure limit m SmbiosTable (of_nat i)) (\<lambda>Header.
     if Header \<noteq> 0 \<and> smb_Type m Header = type then Inr Header else find_structure limit m SmbiosTable type is)"

definition GetBiosInformation :: "nat \<Rightarrow> bytes_mem \<Rightarrow> u64 \<Rightarrow> u64 outcome" where
  "GetBiosInformation limit m SmbiosTable =
     (if SmbiosTable = 0 then Inr 0
      else find_structure limit m SmbiosTable SMBIOS_BIOS_INFORMATION [0..<unat (SmbiosGetStructuresCount m SmbiosTable)])"

definition GetSystemInformation :: "nat \<Rightarrow> bytes_mem \<Rightarrow> u64 \<Rightarrow> u64 outcome" where
  "GetSystemInformation limit m SmbiosTable =
     (if SmbiosTable = 0 then Inr 0
      else find_structure limit m SmbiosTable SMBIOS_SYSTEM_INFORMATION [0..<unat (SmbiosGetStructuresCount m SmbiosTable)])"

definition GetBaseBoardInformation :: "nat \<Rightarrow> bytes_mem \<Rightarrow> u64 \<Rightarrow> u64 outcome" where
  "GetBaseBoardInformation limit m SmbiosTable =
     (if SmbiosTable = 0 then Inr 0
      else find_structure limit m SmbiosTable SMBIOS_BASE_BOARD_INFORMATION [0..<unat (SmbiosGetStructuresCount m SmbiosTable)])"

definition SMBIOS_INTERMEDIATE_ANCHOR_STRING :: "u8 list" where "SMBIOS_INTERMEDIATE_ANCHOR_STRING = [0x5F, 0x44, 0x4D, 0x49, 0x5F]"

definition better_version :: "bytes_mem \<Rightarrow> u64 \<Rightarrow> u64 \<Rightarrow> bool" where
  "better_version m e t \<longleftrightarrow> t = 0 \<or> MajorVersion m e > MajorVersion m t \<or>
     (MajorVersion m e = MajorVersion m t \<and> MinorVersion m e > MinorVersion m t)"

definition table_pages :: "u16 \<Rightarrow> nat" where
  "table_pages len =
     (let v = (ucast len :: u32) in unat (drop_bit 12 (if v AND 0xFFF \<noteq> 0 then (v + 0x1000) AND NOT 0xFFF else v)))"

definition SystemManagementBiosInitialize ::
  "bool \<Rightarrow> u64 \<Rightarrow> bytes_mem \<Rightarrow> u64 \<Rightarrow> u64 \<times> (pt_mem \<times> u64 list) \<Rightarrow> (u64 \<times> (pt_mem \<times> u64 list)) outcome" where
  "SystemManagementBiosInitialize NX PageMap m Header st =
     (case st of (SmbiosTable, pages) \<Rightarrow>
      andThen (MapPhysicalPages NX pages PageMap Header Header 1 (PM_PRESENT OR PM_NX)) (\<lambda>pages1.
      if EntryPointLength m Header \<noteq> sizeof_SMBIOS_ENTRY_POINT then Inr (SmbiosTable, pages1) else
      andThen (memcmp (get_bytes m (Header + 16) 5) SMBIOS_INTERMEDIATE_ANCHOR_STRING) (\<lambda>anchor.
      if \<not> anchor then Inr (SmbiosTable, pages1)
      else if better_version m Header SmbiosTable then
        let a = ucast (StructureTableAddress m Header)
        in andThen (MapPhysicalPages NX pages1 PageMap a a (table_pages (StructureTableLength m Header)) (PM_PRESENT OR PM_NX)) (\<lambda>pages2.
           Inr (Header, pages2))
      else Inr (SmbiosTable, pages1))))"

section \<open>Well-formed tables\<close>

text \<open>
  A structure at \<open>a\<close> with \<open>n\<close> bytes of strings, as the specification of these tables lays it out: behind the formatted part, whose length
  the header has, the first two zero bytes in a row are \<open>n\<close> bytes further.  The next structure begins behind them.  The table is the
  list of the structures' addresses and string lengths; only the last may be the end mark.
\<close>

definition structure_at :: "bytes_mem \<Rightarrow> u64 \<Rightarrow> nat \<Rightarrow> bool" where
  "structure_at m a n \<longleftrightarrow>
     (let strings = a + ucast (smb_Length m a)
      in m (strings + of_nat n) = 0 \<and> m (strings + of_nat n + 1) = 0 \<and>
         (\<forall>j < n. \<not> (m (strings + of_nat j) = 0 \<and> m (strings + of_nat j + 1) = 0)))"

fun structures_at :: "bytes_mem \<Rightarrow> u64 \<Rightarrow> (u64 \<times> nat) list \<Rightarrow> bool" where
  "structures_at m a [] \<longleftrightarrow> True"
| "structures_at m a ((h, n) # hs) \<longleftrightarrow> h = a \<and> structure_at m a n \<and> structures_at m (a + ucast (smb_Length m a) + of_nat n + 2) hs"

definition smbios_table :: "bytes_mem \<Rightarrow> u64 \<Rightarrow> (u64 \<times> nat) list \<Rightarrow> bool" where
  "smbios_table m t hs \<longleftrightarrow> t \<noteq> 0 \<and> structures_at m (ucast (StructureTableAddress m t)) hs \<and> 0 \<notin> fst ` set hs \<and>
     length hs = unat (NumSmbiosStructures m t) \<and> (\<forall>h \<in> set (butlast hs). smb_Type m (fst h) \<noteq> SMBIOS_ENDOF_TABLE)"

lemma double_zero_found:
  assumes "m (a + of_nat n) = 0" and "m (a + of_nat n + 1) = 0"
    and "\<forall>j < n. \<not> (m (a + of_nat j) = 0 \<and> m (a + of_nat j + 1) = 0)" and "n < limit"
  shows "double_zero limit m a len = Inr (len + of_nat n + 2)"
  using assms
proof (induction n arbitrary: a limit len)
  case 0
  then show ?case by (cases limit) simp_all
next
  case (Suc n)
  obtain k where k: "limit = Suc k" using Suc.prems(4) by (cases limit) simp_all
  have "double_zero k m (a + 1) (len + 1) = Inr (len + 1 + of_nat n + 2)"
  proof (rule Suc.IH)
    show "\<forall>j < n. \<not> (m (a + 1 + of_nat j) = 0 \<and> m (a + 1 + of_nat j + 1) = 0)"
      using Suc.prems(3) by (auto simp: add.assoc dest: spec [of _ "Suc _"])
    show "m (a + 1 + of_nat n) = 0" "m (a + 1 + of_nat n + 1) = 0" "n < k"
      using Suc.prems(1,2,4) k by (simp_all add: add.assoc)
  qed
  moreover have "\<not> (m a = 0 \<and> m (a + 1) = 0)" using spec [OF Suc.prems(3), of 0] by simp
  ultimately have "double_zero limit m a len = Inr (len + 1 + of_nat n + 2)" unfolding k by (simp only: double_zero.simps if_False)
  then show ?case by (simp add: algebra_simps)
qed

lemma SmbiosGetStructureLength_ends:
  assumes "structure_at m a n" and "n < limit" and "limit \<le> 2 ^ 16"
  shows "\<exists>len. SmbiosGetStructureLength limit m a = Inr len \<and> a + ucast len = a + ucast (smb_Length m a) + of_nat n + 2"
proof -
  let ?l = "smb_Length m a"
  have "SmbiosGetStructureLength limit m a = Inr (ucast ?l + of_nat n + 2)"
    unfolding SmbiosGetStructureLength_def using assms(1,2) by (intro double_zero_found) (simp_all add: structure_at_def Let_def)
  moreover have "(ucast (ucast ?l + of_nat n + 2 :: u32) :: u64) = ucast ?l + of_nat n + 2"
  proof -
    have b: "unat ?l < 256" using unsigned_less [of ?l, where 'a = nat] by simp
    have n: "n < 2 ^ 16" using assms(2,3) by simp
    have l: "unat (ucast ?l :: u32) = unat ?l" "unat (ucast ?l :: u64) = unat ?l" by (simp_all add: unat_ucast_up)
    have "unat (ucast ?l + of_nat n + 2 :: u32) = unat ?l + n + 2" "unat (ucast ?l + of_nat n + 2 :: u64) = unat ?l + n + 2"
      using b n by (simp_all add: unat_word_ariths l unat_of_nat)
    then show ?thesis by (simp add: word_unat_eq_iff unat_ucast_up)
  qed
  ultimately show ?thesis by (simp add: add.assoc)
qed

lemma next_structures_nth:
  assumes "structures_at m a hs" and "k < length hs" and "\<forall>h \<in> set (take k hs). smb_Type m (fst h) \<noteq> SMBIOS_ENDOF_TABLE"
    and "\<forall>h \<in> set hs. snd h < limit" and "limit \<le> 2 ^ 16"
  shows "next_structures limit m (Suc k) h0 a = Inr (fst (hs ! k))"
  using assms(1-4)
proof (induction k arbitrary: h0 a hs)
  case 0
  then obtain n hs' where h: "hs = (a, n) # hs'" "structure_at m a n" "n < limit" by (cases hs rule: list.exhaust) auto
  obtain len where "SmbiosGetStructureLength limit m a = Inr len" using SmbiosGetStructureLength_ends [OF h(2,3) assms(5)] by blast
  then show ?case by (simp add: h(1))
next
  case (Suc k)
  then obtain n hs' where h: "hs = (a, n) # hs'" "structure_at m a n" "n < limit"
    "structures_at m (a + ucast (smb_Length m a) + of_nat n + 2) hs'"
    by (cases hs rule: list.exhaust) auto
  obtain len where len: "SmbiosGetStructureLength limit m a = Inr len" "a + ucast len = a + ucast (smb_Length m a) + of_nat n + 2"
    using SmbiosGetStructureLength_ends [OF h(2,3) assms(5)] by blast
  have "next_structures limit m (Suc k) a (a + ucast len) = Inr (fst (hs' ! k))"
    unfolding len(2) by (rule Suc.IH [OF h(4)]) (use h(1) Suc.prems in simp_all)
  then show ?case using h len(1) Suc.prems(3) by simp
qed

lemma SmbiosGetStructure_nth:
  assumes "smbios_table m t hs" and "k < length hs" and "\<forall>h \<in> set hs. snd h < limit" and "limit \<le> 2 ^ 16"
  shows "SmbiosGetStructure limit m t (of_nat k) = Inr (fst (hs ! k))"
proof -
  let ?a = "ucast (StructureTableAddress m t) :: u64"
  have k: "unat (of_nat k :: u16) = k" "\<not> (of_nat k :: u16) \<ge> NumSmbiosStructures m t"
    using assms(1,2) unsigned_less [of "NumSmbiosStructures m t", where 'a = nat]
    by (simp_all add: smbios_table_def unat_of_nat word_le_nat_alt)
  have st: "structures_at m ?a hs" using assms(1) by (simp add: smbios_table_def)
  then obtain n hs' where h: "hs = (?a, n) # hs'" "structure_at m ?a n" "n < limit"
    "structures_at m (?a + ucast (smb_Length m ?a) + of_nat n + 2) hs'"
    using assms(2,3) by (cases hs rule: list.exhaust) auto
  obtain len where len: "SmbiosGetStructureLength limit m ?a = Inr len" "?a + ucast len = ?a + ucast (smb_Length m ?a) + of_nat n + 2"
    using SmbiosGetStructureLength_ends [OF h(2,3) assms(4)] by auto
  have "set (take (k - 1) hs') \<subseteq> set (butlast hs)"
  proof -
    have "set (take (k - 1) hs') \<subseteq> set (take (length hs' - 1) hs')"
      by (rule set_take_subset_set_take) (use assms(2) h(1) in simp)
    also have "\<dots> \<subseteq> set (butlast hs)" by (auto simp: h(1) butlast_conv_take [of hs'])
    finally show ?thesis .
  qed
  then have e: "\<forall>h \<in> set (take (k - 1) hs'). smb_Type m (fst h) \<noteq> SMBIOS_ENDOF_TABLE" using assms(1) by (auto simp: smbios_table_def)
  show ?thesis
  proof (cases k)
    case 0
    then show ?thesis using k len h(1) assms(1) by (simp add: SmbiosGetStructure_def smbios_table_def)
  next
    case (Suc j)
    have "next_structures limit m (Suc j) ?a (?a + ucast len) = Inr (fst (hs' ! j))"
      unfolding len(2) by (rule next_structures_nth [OF h(4)]) (use h(1) assms(2-4) e Suc in simp_all)
    moreover have "t \<noteq> 0" using assms(1) by (simp add: smbios_table_def)
    ultimately show ?thesis using k len(1) unfolding SmbiosGetStructure_def Let_def h(1) Suc
      by (simp del: next_structures.simps of_nat_Suc)
  qed
qed

lemma find_structure_first:
  assumes "smbios_table m t hs" and "\<forall>h \<in> set hs. snd h < limit" and "limit \<le> 2 ^ 16" and "k \<le> length hs"
  shows "find_structure limit m t type [k..<length hs] =
     Inr (case find (\<lambda>h. smb_Type m h = type) (map fst (drop k hs)) of None \<Rightarrow> 0 | Some h \<Rightarrow> h)"
  using assms(4)
proof (induction "length hs - k" arbitrary: k)
  case 0
  then show ?case by simp
next
  case (Suc d)
  then have k: "k < length hs" by simp
  have "fst (hs ! k) \<noteq> 0" using assms(1) nth_mem [OF k] by (force simp: smbios_table_def)
  then show ?case
    using Suc SmbiosGetStructure_nth [OF assms(1) k assms(2,3)] k by (auto simp: upt_conv_Cons Cons_nth_drop_Suc [symmetric])
qed

text \<open>
  C38. Finding a structure.  For a table laid out as the specification says, with fewer than \<open>limit\<close> bytes of strings in every
  structure (at most 64 KB, more than a table can have), the three lookups end, and return the first structure of their type, or
  null when there is none.
\<close>

theorem smbios_lookup_first:
  assumes "smbios_table m t hs" and "\<forall>h \<in> set hs. snd h < limit" and "limit \<le> 2 ^ 16"
  shows "GetBiosInformation limit m t = Inr (case find (\<lambda>h. smb_Type m h = SMBIOS_BIOS_INFORMATION) (map fst hs) of None \<Rightarrow> 0 | Some h \<Rightarrow> h) \<and>
     GetSystemInformation limit m t = Inr (case find (\<lambda>h. smb_Type m h = SMBIOS_SYSTEM_INFORMATION) (map fst hs) of None \<Rightarrow> 0 | Some h \<Rightarrow> h) \<and>
     GetBaseBoardInformation limit m t = Inr (case find (\<lambda>h. smb_Type m h = SMBIOS_BASE_BOARD_INFORMATION) (map fst hs) of None \<Rightarrow> 0 | Some h \<Rightarrow> h)"
proof -
  have "unat (SmbiosGetStructuresCount m t) = length hs" "t \<noteq> 0" using assms(1) by (simp_all add: smbios_table_def SmbiosGetStructuresCount_def)
  then show ?thesis
    using find_structure_first [OF assms, of 0]
    by (simp add: GetBiosInformation_def GetSystemInformation_def GetBaseBoardInformation_def)
qed

section \<open>Strings\<close>

text \<open>Strings of the given lengths one after the other, none empty, and a zero byte.\<close>

fun strings_at :: "bytes_mem \<Rightarrow> u64 \<Rightarrow> nat list \<Rightarrow> bool" where
  "strings_at m a [] \<longleftrightarrow> m a = 0"
| "strings_at m a (l # ls) \<longleftrightarrow> 0 < l \<and> (\<forall>i < l. m (a + of_nat i) \<noteq> 0) \<and> m (a + of_nat l) = 0 \<and> strings_at m (a + of_nat l + 1) ls"

definition string_start :: "u64 \<Rightarrow> nat list \<Rightarrow> nat \<Rightarrow> u64" where
  "string_start a ls k = a + (\<Sum>l \<leftarrow> take k ls. of_nat l + 1)"

lemma string_end_found:
  assumes "\<forall>i < l. m (a + of_nat i) \<noteq> 0" and "m (a + of_nat l) = 0" and "l < limit"
  shows "string_end limit m a = Inr (a + of_nat l)"
  using assms
proof (induction l arbitrary: a limit)
  case 0
  then show ?case by (cases limit) simp_all
next
  case (Suc l)
  obtain n where n: "limit = Suc n" using Suc.prems(3) by (cases limit) simp_all
  have "string_end n m (a + 1) = Inr (a + 1 + of_nat l)"
  proof (rule Suc.IH)
    show "\<forall>i < l. m (a + 1 + of_nat i) \<noteq> 0" using Suc.prems(1) by (auto simp: add.assoc dest: spec [of _ "Suc _"])
    show "m (a + 1 + of_nat l) = 0" "l < n" using Suc.prems(2,3) n by (simp_all add: add.assoc)
  qed
  moreover have "m a \<noteq> 0" using Suc.prems(1) by (auto dest: spec [of _ 0])
  ultimately show ?case by (simp add: n add.assoc)
qed

lemma sint_small: "j < 128 \<Longrightarrow> sint (of_nat j :: u8) = int j"
  by (simp add: signed_of_nat signed_take_bit_int_eq_self)

lemma nth_string_found:
  assumes "strings_at m a ls" and "k < length ls" and "\<forall>l \<in> set ls. l < limit" and "j + k = unat off" and "unat off < 128" and "k < fuel"
  shows "nth_string fuel limit m off (of_nat j) a = Inr (string_start a ls k)"
  using assms(1-4,6)
proof (induction k arbitrary: a ls j fuel)
  case 0
  then obtain n where n: "fuel = Suc n" by (cases fuel) simp_all
  have "j < 128" using 0 assms(5) by simp
  then have "sint (of_nat j :: u8) = int j" by (rule sint_small)
  moreover have "uint off = int j" using 0(4) by simp
  ultimately show ?case by (simp add: n string_start_def)
next
  case (Suc k)
  then obtain n where n: "fuel = Suc n" by (cases fuel) simp_all
  obtain l ls' where ls: "ls = l # ls'" using Suc.prems(2) by (cases ls) simp_all
  have l: "\<forall>i < l. m (a + of_nat i) \<noteq> 0" "m (a + of_nat l) = 0" "strings_at m (a + of_nat l + 1) ls'" "l < limit"
    using Suc.prems(1,3) by (simp_all add: ls)
  have k: "k < length ls'" using Suc.prems(2) by (simp add: ls)
  have "m (a + of_nat l + 1) \<noteq> 0" using l(3) k by (cases ls') (auto dest: spec [of _ 0])
  moreover have "nth_string n limit m off (of_nat (Suc j)) (a + of_nat l + 1) = Inr (string_start (a + of_nat l + 1) ls' k)"
    by (rule Suc.IH [OF l(3) k]) (use Suc.prems(3-5) in \<open>simp_all add: ls n\<close>)
  moreover have "sint (of_nat j :: u8) < uint off"
  proof -
    have "j < 128" using Suc.prems(4) assms(5) by linarith
    moreover have "int (unat off) = int j + int (Suc k)" unfolding Suc.prems(4) [symmetric] by (rule of_nat_add)
    ultimately show ?thesis unfolding uint_nat by (simp only: sint_small)
  qed
  ultimately show ?case
    using string_end_found [OF l(1,2,4)] by (simp add: n ls string_start_def add.assoc add.commute [of 1])
qed

text \<open>
  Remark. Strings of a structure.  When a structure has strings of the lengths \<open>ls\<close>, \<open>SmbiosGetString\<close> with number \<open>k\<close> from 1 to their
  number, at most 128, ends and returns the place where the \<open>k\<close>-th begins; with number 0 it returns null.
\<close>

theorem SmbiosGetString_nth:
  assumes "strings_at m (Header + ucast (smb_Length m Header)) ls" and "0 < k" and "k \<le> length ls" and "k \<le> 128" and "\<forall>l \<in> set ls. l < limit"
    and "k \<le> limit"
  shows "SmbiosGetString limit m Header (of_nat k) = Inr (string_start (Header + ucast (smb_Length m Header)) ls (k - 1)) \<and>
     SmbiosGetString limit m Header 0 = Inr 0"
proof -
  have k: "unat (of_nat k :: u8) = k" using assms(4) by (simp add: unat_of_nat)
  then have z: "(of_nat k :: u8) \<noteq> 0" using assms(2) by (auto simp: word_unat_eq_iff)
  have "unat ((of_nat k :: u8) - 1) = k - 1" using k assms(2) z by (simp add: unat_minus_one)
  then have "nth_string (limit + 1) limit m (of_nat k - 1) (of_nat 0) (Header + ucast (smb_Length m Header)) =
      Inr (string_start (Header + ucast (smb_Length m Header)) ls (k - 1))"
    by (intro nth_string_found [OF assms(1) _ assms(5)]) (use assms in simp_all)
  then show ?thesis using z by (simp add: SmbiosGetString_def)
qed

text \<open>A table with one structure of four bytes and the strings \<open>AB\<close> and \<open>C\<close>, described by an entry point at \<open>0x1000\<close>.\<close>

definition demo_smbios :: bytes_mem where
  "demo_smbios = sparse [(0x1019, 0x20), (0x101C, 1), (0x2000, 1), (0x2001, 4), (0x2004, 0x41), (0x2005, 0x42), (0x2007, 0x43)]"

lemmas demo_smbios_eval = demo_smbios_def smb_Length_def StructureTableAddress_def NumSmbiosStructures_def
  mem_eval

theorem smbios_lookup_first_witness:
  "smbios_table demo_smbios 0x1000 [(0x2000, 4)] \<and> GetSystemInformation 9 demo_smbios 0x1000 = Inr 0x2000 \<and>
   GetBiosInformation 9 demo_smbios 0x1000 = Inr 0"
proof -
  have "(\<forall>j < 4. P j) \<longleftrightarrow> P 0 \<and> P 1 \<and> P 2 \<and> P 3" for P :: "nat \<Rightarrow> bool" by (auto simp: less_Suc_eq numeral_eq_Suc)
  then have "structure_at demo_smbios 0x2000 4" by (simp add: structure_at_def demo_smbios_eval)
  moreover have "StructureTableAddress demo_smbios 0x1000 = 0x2000" "NumSmbiosStructures demo_smbios 0x1000 = 1"
    by (simp_all add: demo_smbios_eval)
  ultimately have t: "smbios_table demo_smbios 0x1000 [(0x2000, 4)]" by (simp add: smbios_table_def)
  have "smb_Type demo_smbios 0x2000 = 1" by (simp add: smb_Type_def demo_smbios_eval)
  then show ?thesis
    using t smbios_lookup_first [OF t, of 9] by (simp add: SMBIOS_SYSTEM_INFORMATION_def SMBIOS_BIOS_INFORMATION_def)
qed

theorem SmbiosGetString_nth_witness:
  "SmbiosGetString 9 demo_smbios 0x2000 (of_nat 2) = Inr 0x2007"
proof -
  have s: "strings_at demo_smbios (0x2000 + ucast (smb_Length demo_smbios 0x2000)) [2, 1]"
    by (auto simp: demo_smbios_eval dest!: less_2_cases)
  have "string_start (0x2000 + ucast (smb_Length demo_smbios 0x2000)) [2, 1] 1 = 0x2007"
    by (simp add: string_start_def demo_smbios_eval)
  then show ?thesis using SmbiosGetString_nth [OF s, of 2 9] by simp
qed

end
