(* ===== verification/Pci_Express.thy ===== *)
theory Pci_Express
  imports Byte_Memory
begin

text \<open>
  PCI Express configuration space (\<open>IO/pcie.c\<close>).  The ACPI table and the memory-mapped configuration space are bytes of memory
  that the code only reads.  The loops over buses count in a byte; their fuel is two rounds over all bytes, after which a search that
  is still running has come back to a bus with nothing changed, and for the enumeration one more round for every pointer
  there is room for, since a round that stores none will not be followed by one that does.
\<close>

record PCIE_STATE =
  Mcfg :: u64
  NumDeviceConfigs :: u16
  PcieCompatible :: bool

definition sizeof_ACPI_MCFG :: u64 where "sizeof_ACPI_MCFG = 44"
definition sizeof_PCI_DEVICE_CONFIG :: u64 where "sizeof_PCI_DEVICE_CONFIG = 16"

definition mcfg_Length :: "bytes_mem \<Rightarrow> u64 \<Rightarrow> u32" where "mcfg_Length m t = rd32 m (t + 4)"
definition cfg_BaseAddress :: "bytes_mem \<Rightarrow> u64 \<Rightarrow> u64" where "cfg_BaseAddress m c = rd64 m c"
definition StartPciBusNumber :: "bytes_mem \<Rightarrow> u64 \<Rightarrow> u8" where "StartPciBusNumber m c = m (c + 10)"
definition EndPciBusNumber :: "bytes_mem \<Rightarrow> u64 \<Rightarrow> u8" where "EndPciBusNumber m c = m (c + 11)"
definition hdr_VendorId :: "bytes_mem \<Rightarrow> u64 \<Rightarrow> u16" where "hdr_VendorId m h = rd16 m h"
definition hdr_DeviceId :: "bytes_mem \<Rightarrow> u64 \<Rightarrow> u16" where "hdr_DeviceId m h = rd16 m (h + 2)"
definition hdr_ProgramInterface :: "bytes_mem \<Rightarrow> u64 \<Rightarrow> u8" where "hdr_ProgramInterface m h = m (h + 9)"
definition hdr_DeviceSubclass :: "bytes_mem \<Rightarrow> u64 \<Rightarrow> u8" where "hdr_DeviceSubclass m h = m (h + 10)"
definition hdr_DeviceClass :: "bytes_mem \<Rightarrow> u64 \<Rightarrow> u8" where "hdr_DeviceClass m h = m (h + 11)"
definition hdr_HeaderType :: "bytes_mem \<Rightarrow> u64 \<Rightarrow> u8" where "hdr_HeaderType m h = m (h + 14)"

definition device_config :: "PCIE_STATE \<Rightarrow> u16 \<Rightarrow> u64" where
  "device_config st i = Mcfg st + sizeof_ACPI_MCFG + sizeof_PCI_DEVICE_CONFIG * ucast i"

definition PcieConfigurationRead :: "bytes_mem \<Rightarrow> PCIE_STATE \<Rightarrow> u16 \<Rightarrow> u8 \<Rightarrow> u8 \<Rightarrow> u8 \<Rightarrow> u64" where
  "PcieConfigurationRead m st PcieConfig Bus Device Function =
     (if Mcfg st = 0 \<or> PcieConfig \<ge> NumDeviceConfigs st \<or> Device \<ge> 32 \<or> Function \<ge> 8 then 0
      else let c = device_config st PcieConfig
           in (cfg_BaseAddress m c + push_bit 20 (ucast Bus + ucast (StartPciBusNumber m c))) OR push_bit 15 (ucast Device) OR
                push_bit 12 (ucast Function))"

definition PciExpressInit :: "bytes_mem \<Rightarrow> u64 \<Rightarrow> PCIE_STATE \<Rightarrow> PCIE_STATE outcome" where
  "PciExpressInit m Sdt st =
     (if Mcfg st \<noteq> 0 then Inl SOD
      else Inr (st\<lparr> Mcfg := Sdt, NumDeviceConfigs := ucast (mcfg_Length m Sdt - ucast sizeof_ACPI_MCFG) div 16, PcieCompatible := True \<rparr>))"

section \<open>Finding a device\<close>

text \<open>\<open>for(unsigned char Bus = Start; Bus <= End; Bus++)\<close>, left with a result by \<open>body\<close>.\<close>

fun bus_loop :: "nat \<Rightarrow> (u8 \<Rightarrow> 'a option) \<Rightarrow> u8 \<Rightarrow> u8 \<Rightarrow> 'a option outcome" where
  "bus_loop 0 body e Bus = Inl Hang"
| "bus_loop (Suc n) body e Bus =
     (if Bus \<le> e then case body Bus of Some r \<Rightarrow> Inr (Some r) | None \<Rightarrow> bus_loop n body e (Bus + 1) else Inr None)"

definition id_matches :: "bytes_mem \<Rightarrow> u16 \<Rightarrow> u16 \<Rightarrow> u64 \<Rightarrow> bool" where
  "id_matches m VendorId DeviceId h \<longleftrightarrow> hdr_VendorId m h = VendorId \<and> (DeviceId \<noteq> 0xFFFF \<longrightarrow> hdr_DeviceId m h = DeviceId)"

fun find_function :: "bytes_mem \<Rightarrow> (u64 \<Rightarrow> bool) \<Rightarrow> (u8 \<Rightarrow> u64) \<Rightarrow> nat list \<Rightarrow> u64 option" where
  "find_function m P addr [] = None"
| "find_function m P addr (f # fs) =
     (let h = addr (of_nat f)
      in if h = 0 \<or> hdr_HeaderType m h = 0xFF then None else if P h then Some h else find_function m P addr fs)"

fun find_in_bus :: "bytes_mem \<Rightarrow> (u64 \<Rightarrow> bool) \<Rightarrow> (u8 \<Rightarrow> u8 \<Rightarrow> u64) \<Rightarrow> nat list \<Rightarrow> u64 option" where
  "find_in_bus m P addr [] = None"
| "find_in_bus m P addr (d # ds) =
     (case find_function m P (addr (of_nat d)) [0..<8] of Some h \<Rightarrow> Some h | None \<Rightarrow> find_in_bus m P addr ds)"

fun find_in_configs :: "bytes_mem \<Rightarrow> PCIE_STATE \<Rightarrow> (u64 \<Rightarrow> bool) \<Rightarrow> nat list \<Rightarrow> u64 outcome" where
  "find_in_configs m st P [] = Inr 0"
| "find_in_configs m st P (i # is) =
     (let c = device_config st (of_nat i)
      in andThen (bus_loop 512 (\<lambda>Bus. find_in_bus m P (PcieConfigurationRead m st (of_nat i) Bus) [0..<32]) (EndPciBusNumber m c)
                    (StartPciBusNumber m c)) (\<lambda>r. case r of Some h \<Rightarrow> Inr h | None \<Rightarrow> find_in_configs m st P is))"

definition PcieFindDevice :: "bytes_mem \<Rightarrow> PCIE_STATE \<Rightarrow> u16 \<Rightarrow> u16 \<Rightarrow> u64 outcome" where
  "PcieFindDevice m st VendorId DeviceId =
     (if Mcfg st = 0 \<or> VendorId = 0xFFFF then Inr 0
      else find_in_configs m st (id_matches m VendorId DeviceId) [0..<unat (NumDeviceConfigs st)])"

section \<open>Enumerating devices\<close>

text \<open>The pointers stored so far and how many more there is room for; every loop returns when there is none.\<close>

type_synonym enum_state = "u64 list \<times> nat"

definition class_matches :: "bytes_mem \<Rightarrow> u8 \<Rightarrow> u8 \<Rightarrow> u8 \<Rightarrow> u64 \<Rightarrow> bool" where
  "class_matches m PciClass PciSubClass ProgramInterface h \<longleftrightarrow> hdr_DeviceClass m h = PciClass \<and>
     \<not> (PciSubClass \<noteq> 0xFF \<and> hdr_DeviceSubclass m h \<noteq> PciSubClass) \<and>
     \<not> (ProgramInterface \<noteq> 0xFF \<and> hdr_ProgramInterface m h \<noteq> ProgramInterface)"

fun enum_functions :: "bytes_mem \<Rightarrow> (u64 \<Rightarrow> bool) \<Rightarrow> (u8 \<Rightarrow> u64) \<Rightarrow> nat list \<Rightarrow> enum_state \<Rightarrow> enum_state outcome" where
  "enum_functions m P addr [] s = Inr s"
| "enum_functions m P addr (f # fs) (ptrs, room) =
     (if room = 0 then Inr (ptrs, room)
      else let h = addr (of_nat f)
           in if h = 0 then Inl SOD
              else if hdr_HeaderType m h = 0xFF then enum_functions m P addr fs (ptrs, room)
              else enum_functions m P addr fs (if P h then (ptrs @ [h], room - 1) else (ptrs, room)))"

fun enum_devices :: "bytes_mem \<Rightarrow> (u64 \<Rightarrow> bool) \<Rightarrow> (u8 \<Rightarrow> u8 \<Rightarrow> u64) \<Rightarrow> nat list \<Rightarrow> enum_state \<Rightarrow> enum_state outcome" where
  "enum_devices m P addr [] s = Inr s"
| "enum_devices m P addr (d # ds) (ptrs, room) =
     (if room = 0 then Inr (ptrs, room)
      else let h = addr (of_nat d) 0; t = hdr_HeaderType m h
           in if h = 0 then Inl NullDeref
              else if t = 0xFF then enum_devices m P addr ds (ptrs, room)
              else andThen (enum_functions m P (addr (of_nat d)) [0..<(if t AND 0x80 = 0 then 1 else 8)] (ptrs, room)) (enum_devices m P addr ds))"

fun enum_buses :: "nat \<Rightarrow> bytes_mem \<Rightarrow> (u64 \<Rightarrow> bool) \<Rightarrow> (u8 \<Rightarrow> u8 \<Rightarrow> u8 \<Rightarrow> u64) \<Rightarrow> u8 \<Rightarrow> u8 \<Rightarrow> enum_state \<Rightarrow> enum_state outcome" where
  "enum_buses 0 m P addr e Bus s = Inl Hang"
| "enum_buses (Suc n) m P addr e Bus s =
     (if Bus \<le> e then if snd s = 0 then Inr s
        else andThen (enum_devices m P (addr Bus) [0..<32] s) (enum_buses n m P addr e (Bus + 1))
      else Inr s)"

fun enum_configs :: "bytes_mem \<Rightarrow> PCIE_STATE \<Rightarrow> (u64 \<Rightarrow> bool) \<Rightarrow> nat list \<Rightarrow> enum_state \<Rightarrow> enum_state outcome" where
  "enum_configs m st P [] s = Inr s"
| "enum_configs m st P (i # is) s =
     (let c = device_config st (of_nat i)
      in andThen (enum_buses (256 * (snd s + 2)) m P (PcieConfigurationRead m st (of_nat i)) (EndPciBusNumber m c) (StartPciBusNumber m c) s)
           (enum_configs m st P is))"

definition PcieEnumerateDevices :: "bytes_mem \<Rightarrow> PCIE_STATE \<Rightarrow> u8 \<Rightarrow> u8 \<Rightarrow> u8 \<Rightarrow> bool \<Rightarrow> u32 \<Rightarrow> (bool \<times> u64 list) outcome" where
  "PcieEnumerateDevices m st PciClass PciSubClass ProgramInterface ptrs_ok room =
     (if Mcfg st = 0 \<or> \<not> ptrs_ok \<or> room = 0 \<or> PciClass = 0xFF then Inr (False, [])
      else andThen (enum_configs m st (class_matches m PciClass PciSubClass ProgramInterface) [0..<unat (NumDeviceConfigs st)] ([], unat room))
             (\<lambda>(ptrs, _). Inr (True, ptrs)))"

section \<open>Search in the order of the bus\<close>

text \<open>Reference: the functions of a device up to the first that is missing, of all devices, buses and tables in order.\<close>

definition device_functions :: "bytes_mem \<Rightarrow> (u8 \<Rightarrow> u64) \<Rightarrow> u64 list" where
  "device_functions m addr = takeWhile (\<lambda>h. h \<noteq> 0 \<and> hdr_HeaderType m h \<noteq> 0xFF) (map (\<lambda>f. addr (of_nat f)) [0..<8])"

definition bus_functions :: "bytes_mem \<Rightarrow> (u8 \<Rightarrow> u8 \<Rightarrow> u64) \<Rightarrow> u64 list" where
  "bus_functions m addr = concat (map (\<lambda>d. device_functions m (addr (of_nat d))) [0..<32])"

definition config_functions :: "bytes_mem \<Rightarrow> PCIE_STATE \<Rightarrow> nat \<Rightarrow> u64 list" where
  "config_functions m st i = concat (map (\<lambda>b. bus_functions m (PcieConfigurationRead m st (of_nat i) (of_nat b)))
     [unat (StartPciBusNumber m (device_config st (of_nat i)))..<Suc (unat (EndPciBusNumber m (device_config st (of_nat i))))])"

lemma find_append: "find P (xs @ ys) = (case find P xs of Some x \<Rightarrow> Some x | None \<Rightarrow> find P ys)"
  by (induction xs) auto

lemma find_function_find:
  "find_function m P addr fs = find P (takeWhile (\<lambda>h. h \<noteq> 0 \<and> hdr_HeaderType m h \<noteq> 0xFF) (map (\<lambda>f. addr (of_nat f)) fs))"
  by (induction fs) (auto simp: Let_def)

lemma find_in_bus_find: "find_in_bus m P addr ds = find P (concat (map (\<lambda>d. device_functions m (addr (of_nat d))) ds))"
  by (induction ds) (simp_all add: find_append find_function_find device_functions_def split: option.split)

lemma bus_loop_find:
  assumes "e \<noteq> 0xFF" and "unat b \<le> Suc (unat e)" and "Suc (unat e) - unat b < fuel"
  shows "bus_loop fuel (\<lambda>b. find P (F b)) e b = Inr (find P (concat (map (\<lambda>i. F (of_nat i)) [unat b..<Suc (unat e)])))"
  using assms(2,3)
proof (induction "Suc (unat e) - unat b" arbitrary: b fuel)
  case 0
  then obtain n where "fuel = Suc n" by (cases fuel) simp_all
  with 0 show ?case by (simp add: word_le_nat_alt)
next
  case (Suc d)
  then obtain n where n: "fuel = Suc n" by (cases fuel) simp_all
  have b: "unat b \<le> unat e" using Suc.hyps(2) by simp
  have "unat e \<noteq> 255" using assms(1) by (simp add: word_unat_eq_iff)
  then have "unat e < 255" using unsigned_less [of e, where 'a = nat] by simp
  then have b1: "unat (b + 1) = Suc (unat b)" using b by (intro unat_plus_1) simp
  have u: "[unat b..<Suc (unat e)] = unat b # [Suc (unat b)..<Suc (unat e)]" using b by (intro upt_conv_Cons) simp
  have "bus_loop n (\<lambda>b. find P (F b)) e (b + 1) = Inr (find P (concat (map (\<lambda>i. F (of_nat i)) [unat (b + 1)..<Suc (unat e)])))"
    by (rule Suc.hyps(1)) (use Suc.hyps(2) Suc.prems b n b1 in simp_all)
  then show ?case unfolding u using b by (simp add: n word_le_nat_alt find_append b1 split: option.splits)
qed

lemma find_in_configs_find:
  assumes "\<forall>i \<in> set is. EndPciBusNumber m (device_config st (of_nat i)) \<noteq> 0xFF \<and>
    StartPciBusNumber m (device_config st (of_nat i)) \<le> EndPciBusNumber m (device_config st (of_nat i))"
  shows "find_in_configs m st P is = Inr (case find P (concat (map (config_functions m st) is)) of Some h \<Rightarrow> h | None \<Rightarrow> 0)"
  using assms
proof (induction "is")
  case Nil
  then show ?case by simp
next
  case (Cons i "is")
  let ?c = "device_config st (of_nat i)"
  have "unat (EndPciBusNumber m ?c) < 256" using unsigned_less [of "EndPciBusNumber m ?c", where 'a = nat] by simp
  moreover have "unat (StartPciBusNumber m ?c) \<le> unat (EndPciBusNumber m ?c)" using Cons.prems by (simp add: word_le_nat_alt)
  ultimately have "bus_loop 512 (\<lambda>Bus. find_in_bus m P (PcieConfigurationRead m st (of_nat i) Bus) [0..<32]) (EndPciBusNumber m ?c)
      (StartPciBusNumber m ?c) = Inr (find P (config_functions m st i))"
    unfolding find_in_bus_find bus_functions_def [symmetric] config_functions_def using Cons.prems
    by (intro bus_loop_find) simp_all
  then show ?case using Cons by (simp add: Let_def find_append split: option.split)
qed

text \<open>
  Remark. Finding a device on PCI Express.  When every table entry covers buses below 255, \<open>PcieFindDevice\<close> ends and equals the reference
  search: the first function, in the order of tables, buses, devices and functions, that matches, where the functions of a
  device end at the first that is missing; null when there is none.
\<close>

theorem PcieFindDevice_first:
  assumes "Mcfg st \<noteq> 0" and "VendorId \<noteq> 0xFFFF"
    and "\<forall>i < unat (NumDeviceConfigs st). EndPciBusNumber m (device_config st (of_nat i)) \<noteq> 0xFF \<and>
      StartPciBusNumber m (device_config st (of_nat i)) \<le> EndPciBusNumber m (device_config st (of_nat i))"
  shows "PcieFindDevice m st VendorId DeviceId = Inr (case find (id_matches m VendorId DeviceId)
     (concat (map (config_functions m st) [0..<unat (NumDeviceConfigs st)])) of Some h \<Rightarrow> h | None \<Rightarrow> 0)"
  using assms(1,2) find_in_configs_find [of "[0..<unat (NumDeviceConfigs st)]" m st] assms(3) by (simp add: PcieFindDevice_def)

definition demo_pcie :: bytes_mem where
  "demo_pcie = (\<lambda>a. if 0x100000 \<le> a then 0xFF else sparse [(0x102E, 0x10)] a)"

theorem PcieFindDevice_first_witness:
  "PcieFindDevice demo_pcie \<lparr> Mcfg = 0x1000, NumDeviceConfigs = 1, PcieCompatible = True \<rparr> 0x8086 0xFFFF =
     Inr (case find (id_matches demo_pcie 0x8086 0xFFFF)
       (concat (map (config_functions demo_pcie \<lparr> Mcfg = 0x1000, NumDeviceConfigs = 1, PcieCompatible = True \<rparr>) [0..<unat (1 :: u16)])) of
       Some h \<Rightarrow> h | None \<Rightarrow> 0)"
proof -
  let ?st = "\<lparr> Mcfg = 0x1000, NumDeviceConfigs = 1, PcieCompatible = True \<rparr>"
  have "EndPciBusNumber demo_pcie (device_config ?st (of_nat 0)) = 0" "StartPciBusNumber demo_pcie (device_config ?st (of_nat 0)) = 0"
    by (simp_all add: demo_pcie_def EndPciBusNumber_def StartPciBusNumber_def device_config_def sizeof_ACPI_MCFG_def
        sizeof_PCI_DEVICE_CONFIG_def sparse_def)
  then show ?thesis using PcieFindDevice_first [of ?st "0x8086" demo_pcie "0xFFFF"] by simp
qed

text \<open>An entry that ends at bus 255, as one for a whole segment does: the bus counter wraps and the search for an absent device never ends.\<close>

lemma bus_loop_hangs: "\<forall>b. body b = None \<Longrightarrow> bus_loop n body 0xFF b = Inl Hang"
proof (induction n arbitrary: b)
  case (Suc n)
  have "b \<le> 0xFF" using unsigned_less [of b, where 'a = nat] by (simp add: word_le_nat_alt)
  then show ?case using Suc by simp
qed simp

text \<open>The bus is added to the first bus of the entry, where the comment above the function subtracts it.\<close>

lemma config_read_adds_start:
  assumes "Mcfg st \<noteq> 0" and "i < NumDeviceConfigs st"
  shows "PcieConfigurationRead m st i b 0 0 = cfg_BaseAddress m (device_config st i) +
     push_bit 20 (ucast b + ucast (StartPciBusNumber m (device_config st i)))"
  using assms by (simp add: PcieConfigurationRead_def Let_def linorder_not_le [symmetric])

section \<open>Enumeration in the order of the bus\<close>

text \<open>Reference: the functions of a device that are present, one for a device that is not multi-function.\<close>

definition present_functions :: "bytes_mem \<Rightarrow> (u8 \<Rightarrow> u64) \<Rightarrow> u64 list" where
  "present_functions m addr =
     (if hdr_HeaderType m (addr 0) = 0xFF then []
      else filter (\<lambda>h. hdr_HeaderType m h \<noteq> 0xFF)
        (map (\<lambda>f. addr (of_nat f)) [0..<(if hdr_HeaderType m (addr 0) AND 0x80 = 0 then 1 else 8)]))"

definition bus_present :: "bytes_mem \<Rightarrow> (u8 \<Rightarrow> u8 \<Rightarrow> u64) \<Rightarrow> u64 list" where
  "bus_present m addr = concat (map (\<lambda>d. present_functions m (addr (of_nat d))) [0..<32])"

definition config_present :: "bytes_mem \<Rightarrow> PCIE_STATE \<Rightarrow> nat \<Rightarrow> u64 list" where
  "config_present m st i = concat (map (\<lambda>b. bus_present m (PcieConfigurationRead m st (of_nat i) (of_nat b)))
     [unat (StartPciBusNumber m (device_config st (of_nat i)))..<Suc (unat (EndPciBusNumber m (device_config st (of_nat i))))])"

text \<open>What the loops do to the array: append those of \<open>hs\<close> that match, as far as there is room.\<close>

definition collect :: "(u64 \<Rightarrow> bool) \<Rightarrow> u64 list \<Rightarrow> enum_state \<Rightarrow> enum_state" where
  "collect P hs s = (fst s @ take (snd s) (filter P hs), snd s - length (filter P hs))"

lemma collect_Nil [simp]: "collect P [] s = s"
  by (simp add: collect_def)

lemma collect_append: "collect P (hs @ hs') s = collect P hs' (collect P hs s)"
  by (simp add: collect_def)

lemma collect_full [simp]: "collect P hs (ptrs, 0) = (ptrs, 0)"
  by (simp add: collect_def)

lemma collect_Cons: "0 < room \<Longrightarrow> collect P (h # hs) (ptrs, room) = collect P hs (if P h then (ptrs @ [h], room - 1) else (ptrs, room))"
  by (cases room) (auto simp: collect_def)

lemma snd_collect_le: "snd (collect P hs s) \<le> snd s"
  by (simp add: collect_def)

lemma enum_functions_collect:
  assumes "\<forall>f \<in> set fs. addr (of_nat f) \<noteq> 0"
  shows "enum_functions m P addr fs s = Inr (collect P (filter (\<lambda>h. hdr_HeaderType m h \<noteq> 0xFF) (map (\<lambda>f. addr (of_nat f)) fs)) s)"
  using assms
proof (induction fs arbitrary: s)
  case (Cons f fs)
  obtain ptrs room where s: "s = (ptrs, room)" by (cases s)
  show ?case using Cons by (cases "room = 0") (simp_all add: s Let_def collect_Cons)
qed simp

lemma enum_devices_collect:
  assumes "\<forall>d \<in> set ds. \<forall>f < 8. addr (of_nat d) (of_nat f) \<noteq> 0"
  shows "enum_devices m P addr ds s = Inr (collect P (concat (map (\<lambda>d. present_functions m (addr (of_nat d))) ds)) s)"
  using assms
proof (induction ds arbitrary: s)
  case (Cons d ds)
  obtain ptrs room where s: "s = (ptrs, room)" by (cases s)
  have n: "addr (of_nat d) 0 \<noteq> 0" "\<forall>f \<in> set [0..<(if b then 1 else 8)]. addr (of_nat d) (of_nat f) \<noteq> 0" for b
    using Cons.prems by (auto dest: spec [of _ 0])
  show ?case
  proof (cases "room = 0 \<or> hdr_HeaderType m (addr (of_nat d) 0) = 0xFF")
    case True
    then show ?thesis using Cons n by (auto simp: s present_functions_def Let_def)
  next
    case False
    then have "enum_devices m P addr (d # ds) s = andThen (enum_functions m P (addr (of_nat d))
        [0..<(if hdr_HeaderType m (addr (of_nat d) 0) AND 0x80 = 0 then 1 else 8)] s) (enum_devices m P addr ds)"
      using n(1) by (simp add: s Let_def)
    also have "\<dots> = enum_devices m P addr ds (collect P (present_functions m (addr (of_nat d))) s)"
      using False unfolding enum_functions_collect [OF n(2)] by (simp add: present_functions_def)
    finally show ?thesis using Cons by (simp add: collect_append)
  qed
qed simp

lemma enum_buses_collect:
  assumes "e \<noteq> 0xFF" and "\<forall>b. \<forall>d < 32. \<forall>f < 8. addr b (of_nat d) (of_nat f) \<noteq> 0" and "unat b \<le> Suc (unat e)"
    and "Suc (unat e) - unat b < fuel"
  shows "enum_buses fuel m P addr e b s = Inr (collect P (concat (map (\<lambda>i. bus_present m (addr (of_nat i))) [unat b..<Suc (unat e)])) s)"
  using assms(3,4)
proof (induction "Suc (unat e) - unat b" arbitrary: b fuel s)
  case 0
  then obtain n where "fuel = Suc n" by (cases fuel) simp_all
  with 0 show ?case by (simp add: word_le_nat_alt)
next
  case (Suc d)
  then obtain n where n: "fuel = Suc n" by (cases fuel) simp_all
  have b: "unat b \<le> unat e" using Suc.hyps(2) by simp
  have "unat e \<noteq> 255" using assms(1) by (simp add: word_unat_eq_iff)
  then have "unat e < 255" using unsigned_less [of e, where 'a = nat] by simp
  then have b1: "unat (b + 1) = Suc (unat b)" using b by (intro unat_plus_1) simp
  have u: "[unat b..<Suc (unat e)] = unat b # [Suc (unat b)..<Suc (unat e)]" using b by (intro upt_conv_Cons) simp
  have IH: "enum_buses n m P addr e (b + 1) s' = Inr (collect P (concat (map (\<lambda>i. bus_present m (addr (of_nat i))) [Suc (unat b)..<Suc (unat e)])) s')" for s'
    unfolding b1 [symmetric] by (rule Suc.hyps(1)) (use Suc.hyps(2) Suc.prems b n b1 in simp_all)
  have d: "enum_devices m P (addr b) [0..<32] s = Inr (collect P (bus_present m (addr b)) s)"
    unfolding bus_present_def by (rule enum_devices_collect) (use assms(2) in simp)
  show ?case
  proof (cases "snd s = 0")
    case True
    then show ?thesis using b by (cases s) (simp add: n word_le_nat_alt)
  next
    case False
    then show ?thesis unfolding u using b by (simp add: n word_le_nat_alt d IH collect_append del: upt_Suc)
  qed
qed

lemma enum_configs_collect:
  assumes "\<forall>i \<in> set is. EndPciBusNumber m (device_config st (of_nat i)) \<noteq> 0xFF \<and>
      StartPciBusNumber m (device_config st (of_nat i)) \<le> EndPciBusNumber m (device_config st (of_nat i)) \<and>
      (\<forall>b. \<forall>d < 32. \<forall>f < 8. PcieConfigurationRead m st (of_nat i) b (of_nat d) (of_nat f) \<noteq> 0)"
  shows "enum_configs m st P is s = Inr (collect P (concat (map (config_present m st) is)) s)"
  using assms
proof (induction "is" arbitrary: s)
  case (Cons i "is")
  let ?c = "device_config st (of_nat i)"
  have "unat (EndPciBusNumber m ?c) < 256" using unsigned_less [of "EndPciBusNumber m ?c", where 'a = nat] by simp
  moreover have "unat (StartPciBusNumber m ?c) \<le> unat (EndPciBusNumber m ?c)" using Cons.prems by (simp add: word_le_nat_alt)
  ultimately have "enum_buses (256 * (snd s + 2)) m P (PcieConfigurationRead m st (of_nat i)) (EndPciBusNumber m ?c)
      (StartPciBusNumber m ?c) s = Inr (collect P (config_present m st i) s)"
    unfolding config_present_def using Cons.prems by (intro enum_buses_collect) simp_all
  then show ?case using Cons by (simp add: Let_def collect_append)
qed simp

definition ecam_header :: "u64 \<Rightarrow> nat \<Rightarrow> nat \<Rightarrow> nat \<Rightarrow> u64" where
  "ecam_header base bus dev fn = base + of_nat (bus * 2 ^ 20 + dev * 2 ^ 15 + fn * 2 ^ 12)"

lemma or_as_sum:
  assumes "take_bit 20 (a :: u64) = 0" and "d < 32" and "f < 8"
  shows "a OR push_bit 15 (of_nat d) OR push_bit 12 (of_nat f) = a + of_nat (d * 2 ^ 15 + f * 2 ^ 12)"
proof -
  have lt: "unat (push_bit 15 (of_nat d) + push_bit 12 (of_nat f) :: u64) = d * 2 ^ 15 + f * 2 ^ 12"
    using assms(2,3) by (simp add: push_bit_eq_mult unat_word_ariths unat_of_nat)
  have nb: "\<not> bit f n" if "3 \<le> n" for n
  proof -
    have "(8 :: nat) \<le> 2 ^ n" using power_increasing [OF that, of "2 :: nat"] by simp
    then have "f div 2 ^ n = 0" using assms(3) by simp
    then show ?thesis by (simp add: bit_iff_odd)
  qed
  have "push_bit 15 (of_nat d) AND push_bit 12 (of_nat f) = (0 :: u64)"
    by (rule bit_word_eqI) (auto simp: bit_simps nb)
  then have 1: "push_bit 15 (of_nat d) OR push_bit 12 (of_nat f) = (push_bit 15 (of_nat d) + push_bit 12 (of_nat f) :: u64)"
    by (simp add: disjunctive_add_eq_or)
  have "a AND (push_bit 15 (of_nat d) + push_bit 12 (of_nat f)) = 0"
  proof (rule bit_word_eqI)
    fix n assume "n < LENGTH(64)"
    show "bit (a AND (push_bit 15 (of_nat d) + push_bit 12 (of_nat f))) n = bit (0 :: u64) n"
    proof (cases "n < 20")
      case True
      have "bit (take_bit 20 a) n = bit a n" using True by (simp add: bit_simps)
      then show ?thesis using assms(1) by (simp add: bit_simps)
    next
      case False
      have "(2 :: nat) ^ 20 \<le> 2 ^ n" using False by (intro power_increasing) simp_all
      moreover have "unat (push_bit 15 (of_nat d) + push_bit 12 (of_nat f) :: u64) < 2 ^ 20" unfolding lt using assms(2,3) by simp
      ultimately have "unat (push_bit 15 (of_nat d) + push_bit 12 (of_nat f) :: u64) div 2 ^ n = 0" by simp
      then have "\<not> bit (unat (push_bit 15 (of_nat d) + push_bit 12 (of_nat f) :: u64)) n" by (simp add: bit_iff_odd)
      then show ?thesis by (simp add: bit_simps)
    qed
  qed
  then have "a OR (push_bit 15 (of_nat d) + push_bit 12 (of_nat f)) = a + (push_bit 15 (of_nat d) + push_bit 12 (of_nat f))"
    by (simp add: disjunctive_add_eq_or)
  moreover have "push_bit 15 (of_nat d) + push_bit 12 (of_nat f) = (of_nat (d * 2 ^ 15 + f * 2 ^ 12) :: u64)"
    by (simp add: push_bit_eq_mult)
  ultimately show ?thesis using 1 by (metis or.assoc)
qed

lemma config_read_ecam:
  assumes "Mcfg st \<noteq> 0" and "i < NumDeviceConfigs st" and "StartPciBusNumber m (device_config st i) = 0"
    and "base = cfg_BaseAddress m (device_config st i)" and "base AND 0xFFFFF = 0" and "b < 256" and "d < 32" and "f < 8"
  shows "PcieConfigurationRead m st i (of_nat b) (of_nat d) (of_nat f) = ecam_header base b d f"
proof -
  have u: "\<not> (of_nat d :: u8) \<ge> 32" "\<not> (of_nat f :: u8) \<ge> 8" using assms(7,8) by (simp_all add: word_le_nat_alt unat_of_nat)
  have uc: "(ucast (of_nat k :: u8) :: u64) = of_nat k" if "k < 256" for k
    using that by (simp add: word_unat_eq_iff unat_ucast_up unat_of_nat)
  have "take_bit 20 base = 0" using assms(5) by (simp add: take_bit_eq_mask mask_eq_exp_minus_1)
  moreover have "take_bit 20 (push_bit 20 (of_nat b :: u64)) = 0" by (simp add: take_bit_push_bit)
  ultimately have "take_bit 20 (base + push_bit 20 (of_nat b)) = 0"
    unfolding take_bit_eq_0_iff by (rule dvd_add)
  note o = or_as_sum [OF this assms(7,8)]
  have "PcieConfigurationRead m st i (of_nat b) (of_nat d) (of_nat f) =
      (base + push_bit 20 (of_nat b)) OR push_bit 15 (of_nat d) OR push_bit 12 (of_nat f)"
    using assms(1-4) u uc [OF assms(6)] uc [of d] uc [of f] assms(7,8)
    by (simp add: PcieConfigurationRead_def Let_def linorder_not_le [symmetric])
  also have "\<dots> = base + push_bit 20 (of_nat b) + of_nat (d * 2 ^ 15 + f * 2 ^ 12)" by (rule o)
  also have "\<dots> = ecam_header base b d f" by (simp add: ecam_header_def push_bit_eq_mult)
  finally show ?thesis .
qed


text \<open>
  Reference: the functions that are present, in the order of bus, device and function, at the addresses the PCI Express
  specification gives them in a window at \<open>base\<close> whose first bus is 0; one for a device that is not multi-function.
\<close>

definition ecam_device :: "bytes_mem \<Rightarrow> u64 \<Rightarrow> nat \<Rightarrow> nat \<Rightarrow> u64 list" where
  "ecam_device m base b d =
     (if hdr_HeaderType m (ecam_header base b d 0) = 0xFF then []
      else filter (\<lambda>h. hdr_HeaderType m h \<noteq> 0xFF) (map (ecam_header base b d)
             [0..<(if hdr_HeaderType m (ecam_header base b d 0) AND 0x80 = 0 then 1 else 8)]))"

definition ecam_present :: "bytes_mem \<Rightarrow> u64 \<Rightarrow> nat \<Rightarrow> u64 list" where
  "ecam_present m base last_bus = concat (map (\<lambda>b. concat (map (ecam_device m base b) [0..<32])) [0..<Suc last_bus])"

text \<open>What the table must say for this: entry \<open>i\<close> describes the buses from 0 to one below 255, in a window aligned as specified.\<close>

definition ecam_entry :: "bytes_mem \<Rightarrow> PCIE_STATE \<Rightarrow> nat \<Rightarrow> bool" where
  "ecam_entry m st i \<longleftrightarrow>
     (let c = device_config st (of_nat i); base = cfg_BaseAddress m c
      in StartPciBusNumber m c = 0 \<and> EndPciBusNumber m c \<noteq> 0xFF \<and> base \<noteq> 0 \<and> base AND 0xFFFFF = 0 \<and> unat base + 2 ^ 28 \<le> 2 ^ 64)"

lemma ecam_nonzero:
  assumes "base \<noteq> 0" and "unat base + 2 ^ 28 \<le> 2 ^ 64" and "b < 256" and "d < 32" and "f < 8"
  shows "ecam_header base b d f \<noteq> 0"
proof -
  define k where "k = b * 2 ^ 20 + d * 2 ^ 15 + f * 2 ^ 12"
  have lt: "k < 2 ^ 28" using assms(3-5) by (simp add: k_def)
  have "unat (ecam_header base b d f) = unat base + k"
    unfolding ecam_header_def k_def [symmetric] using lt assms(2) by (simp add: unat_word_ariths unat_of_nat)
  moreover have "unat base \<noteq> 0" using assms(1) by (simp add: unat_eq_0)
  ultimately show ?thesis by auto
qed

lemma config_present_ecam:
  assumes "Mcfg st \<noteq> 0" and "(of_nat i :: u16) < NumDeviceConfigs st" and "ecam_entry m st i"
  shows "config_present m st i = ecam_present m (cfg_BaseAddress m (device_config st (of_nat i))) (unat (EndPciBusNumber m (device_config st (of_nat i))))"
proof -
  let ?c = "device_config st (of_nat i)" and ?base = "cfg_BaseAddress m (device_config st (of_nat i))"
  have c: "StartPciBusNumber m ?c = 0" "?base AND 0xFFFFF = 0" using assms(3) by (simp_all add: ecam_entry_def Let_def)
  note rd = config_read_ecam [OF assms(1,2) c(1) refl c(2)]
  have one: "present_functions m (PcieConfigurationRead m st (of_nat i) (of_nat b) (of_nat d)) = ecam_device m ?base b d"
    if "b < 256" "d < 32" for b d
  proof -
    have z: "PcieConfigurationRead m st (of_nat i) (of_nat b) (of_nat d) 0 = ecam_header ?base b d 0" using rd [OF that, of 0] by simp
    have "map (\<lambda>f. PcieConfigurationRead m st (of_nat i) (of_nat b) (of_nat d) (of_nat f)) [0..<k] = map (ecam_header ?base b d) [0..<k]"
      if "k = (if hdr_HeaderType m (ecam_header ?base b d 0) AND 0x80 = 0 then 1 else 8)" for k
      using rd [OF \<open>b < 256\<close> \<open>d < 32\<close>] that z by (simp split: if_splits)
    then show ?thesis unfolding present_functions_def ecam_device_def z by (simp only: refl)
  qed
  have e: "unat (EndPciBusNumber m ?c) < 256" using unsigned_less [of "EndPciBusNumber m ?c", where 'a = nat] by simp
  have bus: "bus_present m (PcieConfigurationRead m st (of_nat i) (of_nat b)) = concat (map (ecam_device m ?base b) [0..<32])"
    if "b < 256" for b
    unfolding bus_present_def using one [OF that] by (intro arg_cong [of _ _ concat] map_cong) simp_all
  have "map (\<lambda>b. bus_present m (PcieConfigurationRead m st (of_nat i) (of_nat b))) [0..<Suc (unat (EndPciBusNumber m ?c))] =
      map (\<lambda>b. concat (map (ecam_device m ?base b) [0..<32])) [0..<Suc (unat (EndPciBusNumber m ?c))]"
  proof (rule map_cong [OF refl])
    fix b assume "b \<in> set [0..<Suc (unat (EndPciBusNumber m ?c))]"
    then have "b < 256" using e by auto
    then show "bus_present m (PcieConfigurationRead m st (of_nat i) (of_nat b)) = concat (map (ecam_device m ?base b) [0..<32])" by (rule bus)
  qed
  then show ?thesis unfolding config_present_def ecam_present_def c(1) by (simp only: unsigned_0)
qed

text \<open>
  C36. Enumerating devices on PCI Express.  When every table entry describes the buses from 0 to one below 255 in a window aligned as
  specified, \<open>PcieEnumerateDevices\<close> ends with success and stores the addresses, as the specification computes them, of the functions
  that match class, subclass and interface, in the order of tables, buses, devices and functions, as many as there is room for; a
  device without the multi-function bit has only function 0.  For an entry whose first bus is not 0 the code adds that number where
  it should be subtracted (\<open>config_read_adds_start\<close>), and nothing is claimed.
\<close>

theorem PcieEnumerateDevices_collects:
  assumes "Mcfg st \<noteq> 0" and "room \<noteq> 0" and "PciClass \<noteq> 0xFF" and "\<forall>i < unat (NumDeviceConfigs st). ecam_entry m st i"
  shows "PcieEnumerateDevices m st PciClass PciSubClass ProgramInterface True room =
     Inr (True, take (unat room) (filter (class_matches m PciClass PciSubClass ProgramInterface)
       (concat (map (\<lambda>i. ecam_present m (cfg_BaseAddress m (device_config st (of_nat i)))
          (unat (EndPciBusNumber m (device_config st (of_nat i))))) [0..<unat (NumDeviceConfigs st)]))))"
proof -
  have i: "(of_nat i :: u16) < NumDeviceConfigs st" if "i < unat (NumDeviceConfigs st)" for i
    using that unsigned_less [of "NumDeviceConfigs st", where 'a = nat] by (simp add: word_less_nat_alt unat_of_nat)
  have "EndPciBusNumber m (device_config st (of_nat i)) \<noteq> 0xFF \<and>
      StartPciBusNumber m (device_config st (of_nat i)) \<le> EndPciBusNumber m (device_config st (of_nat i)) \<and>
      (\<forall>b. \<forall>d < 32. \<forall>f < 8. PcieConfigurationRead m st (of_nat i) b (of_nat d) (of_nat f) \<noteq> 0)"
    if l: "i < unat (NumDeviceConfigs st)" for i
  proof -
    let ?c = "device_config st (of_nat i)"
    have c: "StartPciBusNumber m ?c = 0" "EndPciBusNumber m ?c \<noteq> 0xFF" "cfg_BaseAddress m ?c \<noteq> 0" "cfg_BaseAddress m ?c AND 0xFFFFF = 0"
      "unat (cfg_BaseAddress m ?c) + 2 ^ 28 \<le> 2 ^ 64"
      using assms(4) l by (simp_all add: ecam_entry_def Let_def)
    have "PcieConfigurationRead m st (of_nat i) b (of_nat d) (of_nat f) \<noteq> 0" if "d < 32" "f < 8" for b d f
    proof -
      have b: "unat b < 256" using unsigned_less [of b, where 'a = nat] by simp
      show ?thesis
        using config_read_ecam [OF assms(1) i [OF l] c(1) refl c(4) b that] ecam_nonzero [OF c(3,5) b that] by simp
    qed
    then show ?thesis using c(1,2) by simp
  qed
  then have "enum_configs m st P [0..<unat (NumDeviceConfigs st)] s =
      Inr (collect P (concat (map (config_present m st) [0..<unat (NumDeviceConfigs st)])) s)" for P s
    by (intro enum_configs_collect) simp
  moreover have "map (config_present m st) [0..<unat (NumDeviceConfigs st)] =
      map (\<lambda>i. ecam_present m (cfg_BaseAddress m (device_config st (of_nat i)))
          (unat (EndPciBusNumber m (device_config st (of_nat i))))) [0..<unat (NumDeviceConfigs st)]"
    using config_present_ecam [OF assms(1) i] assms(4) by simp
  ultimately show ?thesis using assms(1-3) by (simp add: PcieEnumerateDevices_def collect_def)
qed

definition demo_network :: bytes_mem where
  "demo_network = (\<lambda>a. if a = 0x10000E then 0 else if a = 0x10000B then 2 else demo_pcie a)"

theorem PcieEnumerateDevices_collects_witness:
  "PcieEnumerateDevices demo_network \<lparr> Mcfg = 0x1000, NumDeviceConfigs = 1, PcieCompatible = True \<rparr> 2 0xFF 0xFF True 4 = Inr (True, [0x100000])"
proof -
  let ?st = "\<lparr> Mcfg = 0x1000, NumDeviceConfigs = 1, PcieCompatible = True \<rparr>"
  let ?m = demo_network
  have c: "device_config ?st 0 = 0x102C" by (simp add: device_config_def sizeof_ACPI_MCFG_def)
  have e: "EndPciBusNumber ?m 0x102C = 0" "StartPciBusNumber ?m 0x102C = 0" "cfg_BaseAddress ?m 0x102C = 0x100000"
    by (simp_all add: demo_network_def demo_pcie_def EndPciBusNumber_def StartPciBusNumber_def cfg_BaseAddress_def mem_eval)
  have h: "PcieConfigurationRead ?m ?st 0 0 d f = (0x100000 OR push_bit 15 (ucast d) OR push_bit 12 (ucast f))" if "d < 32" "f < 8" for d f
    using that by (simp add: PcieConfigurationRead_def c e linorder_not_le [symmetric])
  have t: "hdr_HeaderType ?m 0x100000 = 0" "h \<noteq> 0x100000 \<Longrightarrow> 0x100000 \<le> h + 14 \<Longrightarrow> h \<noteq> 0xFFFFD \<Longrightarrow> hdr_HeaderType ?m h = 0xFF" for h
    by (simp_all add: hdr_HeaderType_def demo_network_def demo_pcie_def)
  have p0: "present_functions ?m (PcieConfigurationRead ?m ?st 0 0 0) = [0x100000]"
    by (simp add: present_functions_def h t)
  have p1: "present_functions ?m (PcieConfigurationRead ?m ?st 0 0 1) = []"
    by (simp add: present_functions_def h t)
  have "\<forall>d \<in> set [2..<32]. hdr_HeaderType ?m (PcieConfigurationRead ?m ?st 0 0 (of_nat d) 0) = 0xFF"
    by (simp add: h t del: set_upt)
  then have "\<forall>d \<in> set [2..<32]. present_functions ?m (PcieConfigurationRead ?m ?st 0 0 (of_nat d)) = []"
    unfolding present_functions_def by (metis (no_types, lifting))
  moreover have "[0..<32] = 0 # 1 # [2..<32]" by (simp add: upt_conv_Cons)
  ultimately have "bus_present ?m (PcieConfigurationRead ?m ?st 0 0) = [0x100000]"
    using p0 p1 unfolding bus_present_def by (simp del: upt_rec_numeral)
  then have "config_present ?m ?st 0 = [0x100000]"
    by (simp add: config_present_def c e)
  moreover have "class_matches ?m 2 0xFF 0xFF 0x100000"
    by (simp add: class_matches_def hdr_DeviceClass_def demo_network_def)
  moreover have ent: "ecam_entry ?m ?st 0" by (simp add: ecam_entry_def c e)
  moreover have "ecam_present ?m 0x100000 0 = config_present ?m ?st 0" using config_present_ecam [OF _ _ ent] by (simp add: c e)
  ultimately show ?thesis using PcieEnumerateDevices_collects [of ?st 4 2 ?m "0xFF" "0xFF"] by (simp add: c e)
qed

end
