(* ===== verification/Spec2Isabelle.thy ===== *)
theory Spec2Isabelle
  imports Debug_Log Critical_Lock Handle_Table Pci_Config Device_Manager Paging Physical_Memory Kernel_Lib
    Disk_Manager File_System Ipc_Server Process_Manager Fat32_Format Pe_Loader Irq_Control Ahci Smbios
    Pci_Express
begin

text \<open>
  A verification development for the operating system in \<open>src/\<close>: a 64-bit kernel (\<open>src/kernel\<close>), its drivers
  (\<open>src/drivers\<close>) and boot code.  The kernel is a set of C components around chained tables of fixed-size blocks; the
  development models them one theory per component, proves what each operation does on every path, and records where the
  code does not do what it means to.

  \<^bold>\<open>How the code is modelled.\<close>  A struct is a record with the fields the modelled code reads or writes, an enum value a
  constant, a machine integer a word of its width (\<open>u8\<close> to \<open>u64\<close>), so wrap-around is the code's own.  A pointer into a
  table that a component owns is the position in that table (\<open>slot_ref\<close> for a slot of a chain of blocks), null is \<open>None\<close>; a
  pointer that is only stored is an address word.  An operation is a function of the state that returns the new state and
  the C result inside \<open>outcome\<close>: \<open>Inl SOD\<close> is the death screen of every \<open>SET_SOD_...\<close>, \<open>Inl Hang\<close> a loop or spin lock that
  never ends in that state, \<open>Inl NullDeref\<close> and \<open>Inl OutOfBounds\<close> accesses through null or outside an array, \<open>Inl
  DivideError\<close> a division by zero.  A loop that
  follows \<open>Next\<close> pointers is recursion over the list of blocks; a loop that stops at the first match is
  \<open>first_index\<close> or \<open>chain_find\<close>.  The heap is the list of addresses it will return (0 is its failure), the physical page
  allocator the list of pages.

  \<^bold>\<open>Shared theories.\<close>  \<open>Prelude\<close> has the word types, faults, \<open>andThen\<close>, \<open>first_index\<close> and generic lemmas;
  \<open>Slot_Table\<close> the chained table, with the locale \<open>slot_table\<close> that states its contract (the walk returns a free slot, keeps
  every occupied one, ids and positions correspond) and is interpreted for devices, disks, partitions, open files, IPC
  clients, threads and the thread lists of processes; \<open>Kernel_Base\<close> the status codes of \<open>inc/krnltypes.h\<close>,
  the spin locks of \<open>inc/CPU/cpu.h\<close> and \<open>memcmp\<close>.  The \<open>memcmp\<close> of \<open>lib/mem.asm\<close> begins with a jump to itself, so in the
  model every comparison with it is \<open>Inl Hang\<close>: the search for the header of an image, the binding of imports by name, the
  resolution of a path to its partition, the comparison of server passwords and the test of the SMBIOS anchor do not return.

  \<^bold>\<open>Components.\<close>
  \<^item> \<open>Debug_Log\<close> (\<open>Management/debug.c\<close>): the ring of 20 log entries refines the list of the most recent messages.
  \<^item> \<open>Critical_Lock\<close> (\<open>Management/lock.c\<close>): the ticket lock as a step relation over threads of one processor; under the batch
    discipline it excludes, serves in order and does not block; without it two threads can be inside and a thread can be left
    waiting, and with several processors two can take the same ticket.
  \<^item> \<open>Handle_Table\<close> (\<open>Management/handle.c\<close>): opening (two levels of recursion are enough, since a new list has free slots),
    lookup, closing and iteration; ids are unique and stable.
  \<^item> \<open>Pci_Config\<close> (\<open>IO/pci.c\<close>) and \<open>Device_Manager\<close> (\<open>Management/device.c\<close>, \<open>sys/drv.c\<close>): configuration access, device
    installation, control, driver matching and iteration.
  \<^item> \<open>Paging\<close> (\<open>CPU/paging.c\<close>): four-level page tables in a memory of frames; what \<open>MapPhysicalPages\<close> maps,
    \<open>KeResolvePhysicalAddress\<close> resolves, and nothing else changes.
  \<^item> \<open>Physical_Memory\<close> (\<open>Memory Management/allocate.c\<close>, \<open>iomem.c\<close>): the page bitmap scan for contiguous pages and the first-fit
    I/O space.
  \<^item> \<open>Kernel_Lib\<close> (\<open>lib/\<close>): strings, number conversion and memory routines; the shifts of the binary conversion are bounded
    by 64, the width of the value.
  \<^item> \<open>Disk_Manager\<close> (\<open>dsk/disk.c\<close>) and \<open>File_System\<close> (\<open>fs/\<close>): disks, partitions, drive letters, path normalisation, open
    files and sharing; a directory scan is bounded by the 255 characters of a name.
  \<^item> \<open>Ipc\<close>, \<open>Ipc_Server\<close> (\<open>ipc/\<close>): clients, message queues, servers; every wait is an explicit result, so interleavings are
    sequences of steps.
  \<^item> \<open>Thread_Queues\<close>, \<open>Process_Manager\<close> (\<open>CPU/process.c\<close>, \<open>CPU/pcid.c\<close>, \<open>loaders/subsystem.c\<close>): waiting queues with their
    invariant (every queued thread in exactly one entry, counters exact), priorities, and creation of processes and threads,
    which composes paging, IPC, handle tables and the queues.
  \<^item> \<open>Fat32_Cluster\<close>, \<open>Fat32_Names\<close>, \<open>Fat32_Dir\<close>, \<open>Fat32_Files\<close>, \<open>Fat32_Format\<close> (\<open>drivers/fat32/dll/src\<close>): the FAT32 driver from
    the cluster allocator over directory entries and path search to the creation of files and the formatting of a partition.
    The drive is a map from sector numbers to bytes and its callbacks succeed, except that the formatting takes the callback
    as an argument and stops when it fails.  A walk of a cluster chain has as fuel the
    number of FAT entries, enough because a chain without a cycle visits each cluster once; a walk of a path has the length
    of the path.
  \<^item> \<open>Byte_Memory\<close>, \<open>Pe_Image\<close>, \<open>Pe_Imports\<close>, \<open>Pe_Loader\<close> (\<open>loaders/pe64_native.c\<close>, \<open>pe64_dll.c\<close>, \<open>pe64_user.c\<close>): executable
    images in a memory of bytes, where structures overlap: sections, relocations, the binding of imports and the loading of
    drivers and libraries; \<open>load_native\<close> is the part of the driver loader behind the search for the header.  Relocation has the size of its
    directory as fuel, since every block is longer than 0, strings and tables the number \<open>pe_limit\<close>, and libraries that import
    libraries a fuel of their own.
  \<^item> \<open>Acpi_Madt\<close>, \<open>Io_Apic\<close>, \<open>Irq_Control\<close> (\<open>acpi/madt.c\<close>, \<open>CPU/ioapic.c\<close>, \<open>interrupt_manager/idt.c\<close>): the ACPI table of
    interrupt controllers, their registers, interrupt gates, and the control of interrupt lines and message-signalled interrupts.
    The controllers are an argument with the hypothesis \<open>ioapic_registers\<close>: the version register and the registers of the
    table's entries, up to the number the version register names, behave as documented.  The fuel of a walk over the table is its length,
    since no record of a proper table is empty.
  \<^item> \<open>Ahci\<close> (\<open>drivers/ahci/src\<close>): command slots and reads, as the accesses of a reading thread interleaved with the controller
    and with the interrupt handler, which runs on the same processor.
  \<^item> \<open>Smbios\<close>, \<open>Pci_Express\<close> (\<open>smbios/smbios.c\<close>, \<open>IO/pcie.c\<close>): firmware tables and memory-mapped configuration space, which
    the kernel only reads.  A search for zero bytes has as fuel any number of bytes the table does not reach; a loop over buses
    has two rounds over all buses, and one more for every pointer an enumeration has room for.

  \<^bold>\<open>What the theorems show.\<close>  Invariants and frames: opening handles, installing devices, creating partitions, processes and
  threads, posting messages and moving threads change one slot and keep the rest.  Functional behaviour and round trips: page
  tables, configuration space, number printing, path normalisation, contiguous page and I/O allocation, context identifiers.
  FAT32: an allocated chain is linked, terminated and zeroed in every FAT, a cluster reads back as written, short and long
  names round-trip through directory entries, a created file is found at its path, and a formatted partition is well formed.
  Images: sections land at their addresses and nowhere else, exactly the relocated words move with the base, imports by ordinal are
  bound (those by name hang), and the loader behind the search for the header loads a driver whole.  Interrupts: a claim sets one
  descriptor, one gate and one redirection entry, no interrupt gets two owners, entries read back as written.  AHCI: a read
  returns only when its commands are complete, as long as no interrupt is handled in the places where the code is open to a race.
  Firmware: lookups return the first structure of a type, and devices are enumerated in the order of the bus.
  Refinement: the debug ring.  Error behaviour: defects of modelled code are lemmas with a concrete state where they show, next
  to the theorems they limit; the conditions of a theorem that keep clear of a defect are named in its text.

  \<^bold>\<open>Not modelled.\<close>  Assembly (the scheduler and interrupt entries, SIMD page allocation, boot stages), code whose only effect
  is on devices (display and USB controllers, start-up of disk and interrupt controllers), rendering and fonts, UEFI boot code
  (calls of firmware services), \<open>Pe64LoadUserApplication\<close> and the kernel's start-up (sequences of calls whose parts are
  modelled), the heap (\<open>heap.c\<close> reads list heads in pages it has not cleared), the
  fragmented page allocator (it maps pages while it edits the bitmap from which the mapping takes its page tables), vendored headers, and functions whose bodies are
  stubs or commented out.
\<close>

end
